(* ===== verification/Prelude.thy ===== *)
theory Prelude
  imports Main "HOL-Library.Word" "HOL-Library.Monad_Syntax"
begin

unbundle bit_operations_syntax

text \<open>
  Shared ground of the development: the machine integer types of the MIPS32 target
  (\<^verbatim>\<open>include/types.h\<close>), the error codes (\<^verbatim>\<open>include/error.h\<close>), the rounding
  macros, and the generic facts on words, options and lists that the component theories
  use. The collections are \<open>mos_consts\<close> (numeric constants of the headers, for
  evaluation) and \<open>mos_frame\<close> (which record fields an operation leaves alone).

  Conventions. A C function that can panic, fail an assertion or dereference an invalid
  pointer is a function into \<open>option\<close>, where \<open>None\<close> is that outcome; the \<open>do\<close> notation of
  the option monad threads the state explicitly. A C function with an \<^verbatim>\<open>int\<close> result that is
  \<open>0\<close> or a negative error code returns \<open>errno + 'a\<close>.
\<close>

named_theorems mos_consts \<open>numeric constants of the headers\<close>
named_theorems mos_frame \<open>fields an operation does not change\<close>

type_synonym u8 = "8 word"
type_synonym u16 = "16 word"
type_synonym u32 = "32 word"

section \<open>Error codes\<close>

datatype errno =
    E_UNSPECIFIED | E_BAD_ENV | E_INVAL | E_NO_MEM | E_NO_SYS | E_NO_FREE_ENV
  | E_IPC_NOT_RECV | E_NO_DISK | E_MAX_OPEN | E_NOT_FOUND | E_BAD_PATH
  | E_FILE_EXISTS | E_NOT_EXEC | E_IS_DIR

primrec errcode :: "errno \<Rightarrow> int" where
  "errcode E_UNSPECIFIED = 1"
| "errcode E_BAD_ENV = 2"
| "errcode E_INVAL = 3"
| "errcode E_NO_MEM = 4"
| "errcode E_NO_SYS = 5"
| "errcode E_NO_FREE_ENV = 6"
| "errcode E_IPC_NOT_RECV = 7"
| "errcode E_NO_DISK = 8"
| "errcode E_MAX_OPEN = 9"
| "errcode E_NOT_FOUND = 10"
| "errcode E_BAD_PATH = 11"
| "errcode E_FILE_EXISTS = 12"
| "errcode E_NOT_EXEC = 13"
| "errcode E_IS_DIR = 14"

lemma errcode_pos [simp]: "0 < errcode e"
  by (cases e) simp_all

lemma errcode_inject [simp]: "errcode a = errcode b \<longleftrightarrow> a = b"
  by (cases a; cases b) simp_all

section \<open>Rounding macros\<close>

text \<open>\<open>ROUND\<close> and \<open>ROUNDDOWN\<close> work on the 32-bit \<^verbatim>\<open>u_long\<close>; \<open>n\<close> is a power of two.\<close>

definition ROUND :: "u32 \<Rightarrow> u32 \<Rightarrow> u32" where
  "ROUND a n = (a + n - 1) AND NOT (n - 1)"

definition ROUNDDOWN :: "u32 \<Rightarrow> u32 \<Rightarrow> u32" where
  "ROUNDDOWN a n = a AND NOT (n - 1)"

section \<open>Words\<close>

lemma word_and_pow2_neq_0:
  fixes w :: "'a::len word"
  shows "w AND push_bit n 1 \<noteq> 0 \<longleftrightarrow> n < LENGTH('a) \<and> bit w n"
proof
  assume "w AND push_bit n 1 \<noteq> 0"
  then obtain k where "bit (w AND push_bit n 1) k"
    using bit_eqI [of "w AND push_bit n 1" 0] by auto
  then have "k = n" "bit w k" "k < LENGTH('a)"
    by (auto simp: bit_simps dest: bit_imp_le_length)
  then show "n < LENGTH('a) \<and> bit w n" by simp
next
  assume "n < LENGTH('a) \<and> bit w n"
  then have "bit (w AND push_bit n 1) n" by (simp add: bit_simps)
  then show "w AND push_bit n 1 \<noteq> 0" by auto
qed

lemma unat_and_mask:
  fixes w :: "'a::len word"
  shows "unat (w AND mask n) = unat w mod 2 ^ n"
  by (simp only: take_bit_eq_mask [symmetric] unsigned_take_bit_eq)
    (simp add: take_bit_eq_mod)

lemma unat_and_1023: "unat ((w :: u32) AND 0x3FF) = unat w mod 1024"
  using unat_and_mask [of w 10] by (simp add: mask_eq_exp_minus_1)

lemma unat_and_4095: "unat ((w :: u32) AND 0xFFF) = unat w mod 4096"
  using unat_and_mask [of w 12] by (simp add: mask_eq_exp_minus_1)

lemma unat_drop_bit:
  fixes w :: "'a::len word"
  shows "unat (drop_bit n w) = unat w div 2 ^ n"
proof -
  have "take_bit LENGTH('a) (unat w) = unat w"
    using unsigned_less [of w, where ?'a = nat] by (simp add: take_bit_nat_eq_self_iff)
  then show ?thesis
    by (simp add: unsigned_drop_bit_eq drop_bit_eq_div [where 'a = nat])
qed

lemma drop_bit_lt:
  fixes w :: "'a::len word"
  assumes "unat w < 2 ^ n"
  shows "drop_bit n w = 0"
proof -
  from assms have "unat (drop_bit n w) = 0" by (simp add: unat_drop_bit)
  then show ?thesis by (simp add: unat_eq_0)
qed

lemma unat_of_nat_u32: "n < 2 ^ 32 \<Longrightarrow> unat (of_nat n :: u32) = n"
  by (simp add: unat_of_nat take_bit_nat_eq_self_iff)

lemma drop_push_bit_of_nat:
  assumes "n < 2 ^ (32 - k)" and "k \<le> 32"
  shows "drop_bit k (push_bit k (of_nat n :: u32)) = of_nat n"
proof -
  have "2 ^ (32 - k) * (2 ^ k :: nat) = 2 ^ 32"
    using assms(2) by (simp add: power_add [symmetric])
  then have b: "n * 2 ^ k < 2 ^ 32"
    using assms(1) by (metis mult_less_mono1 zero_less_numeral zero_less_power)
  have lt: "n < 2 ^ 32"
    using assms(1) power_increasing [of "32 - k" 32 "2 :: nat"] by simp
  have "push_bit k (of_nat n :: u32) = of_nat (n * 2 ^ k)"
    by (simp add: push_bit_eq_mult)
  then have "unat (push_bit k (of_nat n :: u32)) = n * 2 ^ k"
    using b unat_of_nat_u32 by metis
  then have "unat (drop_bit k (push_bit k (of_nat n :: u32))) = unat (of_nat n :: u32)"
    using lt by (simp add: unat_drop_bit unat_of_nat_u32)
  then show ?thesis by (simp only: word_unat_eq_iff)
qed

section \<open>Options and lists\<close>

lemma option_bind_Some_conv:
  "Option.bind x f = Some y \<longleftrightarrow> (\<exists>a. x = Some a \<and> f a = Some y)"
  by (cases x) auto

lemma remove1_split:
  "e \<notin> set xs \<Longrightarrow> remove1 e (xs @ e # ys) = xs @ ys"
  by (simp add: remove1_append)

section \<open>Loops and control\<close>

text \<open>
  A \<^verbatim>\<open>for\<close> loop whose body can panic; and a loop that stops at the first error code.
\<close>

fun mfold :: "('a \<Rightarrow> 's \<Rightarrow> 's option) \<Rightarrow> 'a list \<Rightarrow> 's \<Rightarrow> 's option" where
  "mfold f [] s = Some s"
| "mfold f (x # xs) s = Option.bind (f x s) (mfold f xs)"

lemma mfold_append: "mfold f (xs @ ys) s = Option.bind (mfold f xs s) (mfold f ys)"
  by (induction xs arbitrary: s) (auto split: bind_splits)

lemma mfold_invariant:
  assumes "P s" and "\<And>x s. x \<in> set xs \<Longrightarrow> P s \<Longrightarrow> \<exists>s'. f x s = Some s' \<and> P s'"
  shows "\<exists>s'. mfold f xs s = Some s' \<and> P s'"
  using assms
proof (induction xs arbitrary: s)
  case Nil
  then show ?case by simp
next
  case (Cons x xs)
  then obtain s1 where "f x s = Some s1" "P s1" by (meson list.set_intros(1))
  with Cons.IH [of s1] Cons.prems(2) show ?case by simp
qed

lemma mfold_upt:
  assumes "P 0 s" and step: "\<And>k s. k < n \<Longrightarrow> P k s \<Longrightarrow> \<exists>s'. f k s = Some s' \<and> P (Suc k) s'"
  shows "\<exists>s'. mfold f [0..<n] s = Some s' \<and> P n s'"
  using step
proof (induction n)
  case 0
  with assms(1) show ?case by simp
next
  case (Suc n)
  then obtain s1 where "mfold f [0..<n] s = Some s1" "P n s1" by auto
  with Suc.prems [of n s1] show ?case by (auto simp: mfold_append)
qed

fun tryfold ::
  "('a \<Rightarrow> 's \<Rightarrow> ((errno + unit) \<times> 's) option) \<Rightarrow> 'a list \<Rightarrow> 's \<Rightarrow> ((errno + unit) \<times> 's) option" where
  "tryfold f [] s = Some (Inr (), s)"
| "tryfold f (x # xs) s =
     (case f x s of
        None \<Rightarrow> None
      | Some (Inl e, s') \<Rightarrow> Some (Inl e, s')
      | Some (Inr _, s') \<Rightarrow> tryfold f xs s')"

lemma tryfold_append:
  "tryfold f (xs @ ys) s =
     (case tryfold f xs s of
        Some (Inr _, s') \<Rightarrow> tryfold f ys s'
      | r \<Rightarrow> r)"
  by (induction xs arbitrary: s) (auto split: option.splits sum.splits)

text \<open>
  How a kernel function ends when it does not panic: it returns to its caller, or it has
  switched to a user environment and never returns (\<^verbatim>\<open>env_run\<close> and what calls it).
\<close>

datatype 'a ctl = Returns 'a | Switched

end
