(* ===== verification/Mmu.thy ===== *)
theory Mmu
  imports Prelude
begin

unbundle bit_operations_syntax

text \<open>
  The address arithmetic of \<^verbatim>\<open>include/mmu.h\<close>: page table entry flags, the memory layout
  constants, the index fields of a virtual address and the fields of a page table entry.
  An address and an entry are 32-bit words; an index or a page number read out of one is
  a natural number. The facts at the end say which page an entry built by
  \<^verbatim>\<open>page2pa(pp) | perm | PTE_C_CACHEABLE | PTE_V\<close> refers to.
\<close>

section \<open>Constants\<close>

definition PAGE_SIZE :: u32 where [mos_consts]: "PAGE_SIZE = 4096"
definition PDMAP :: u32 where [mos_consts]: "PDMAP = 4 * 1024 * 1024"
definition NASID :: nat where [mos_consts]: "NASID = 256"

definition PTE_G :: u32 where [mos_consts]: "PTE_G = push_bit 6 0x0001"
definition PTE_V :: u32 where [mos_consts]: "PTE_V = push_bit 6 0x0002"
definition PTE_D :: u32 where [mos_consts]: "PTE_D = push_bit 6 0x0004"
definition PTE_C_CACHEABLE :: u32 where [mos_consts]: "PTE_C_CACHEABLE = push_bit 6 0x0018"
definition PTE_COW :: u32 where [mos_consts]: "PTE_COW = 0x0001"
definition PTE_LIBRARY :: u32 where [mos_consts]: "PTE_LIBRARY = 0x0002"

definition ULIM :: u32 where [mos_consts]: "ULIM = 0x80000000"
definition UVPT :: u32 where [mos_consts]: "UVPT = ULIM - PDMAP"
definition UPAGES :: u32 where [mos_consts]: "UPAGES = UVPT - PDMAP"
definition UENVS :: u32 where [mos_consts]: "UENVS = UPAGES - PDMAP"
definition UTOP :: u32 where [mos_consts]: "UTOP = UENVS"
definition UXSTACKTOP :: u32 where [mos_consts]: "UXSTACKTOP = UTOP"
definition USTACKTOP :: u32 where [mos_consts]: "USTACKTOP = UTOP - 2 * PAGE_SIZE"
definition UTEXT :: u32 where [mos_consts]: "UTEXT = PDMAP"
definition UCOW :: u32 where [mos_consts]: "UCOW = UTEXT - PAGE_SIZE"
definition UTEMP :: u32 where [mos_consts]: "UTEMP = UCOW - PAGE_SIZE"

section \<open>Fields\<close>

definition PDX :: "u32 \<Rightarrow> nat" where
  "PDX va = unat (drop_bit 22 va AND 0x03FF)"

definition PTX :: "u32 \<Rightarrow> nat" where
  "PTX va = unat (drop_bit 12 va AND 0x03FF)"

definition PPN :: "u32 \<Rightarrow> nat" where
  "PPN pa = unat (drop_bit 12 pa)"

definition VPN :: "u32 \<Rightarrow> nat" where
  "VPN va = unat (drop_bit 12 va)"

definition PTE_ADDR :: "u32 \<Rightarrow> u32" where
  "PTE_ADDR pte = pte AND NOT 0xFFF"

definition PTE_FLAGS :: "u32 \<Rightarrow> u32" where
  "PTE_FLAGS pte = pte AND 0xFFF"

text \<open>The addresses the memory system calls accept (\<^verbatim>\<open>kern/syscall_all.c\<close>).\<close>

definition is_illegal_va :: "u32 \<Rightarrow> bool" where
  "is_illegal_va va \<longleftrightarrow> va < UTEMP \<or> va \<ge> UTOP"

definition MALTA_SERIAL_BASE :: u32 where [mos_consts]: "MALTA_SERIAL_BASE = 0x18000000 + 0x3f8"
definition MALTA_IDE_BASE :: u32 where [mos_consts]: "MALTA_IDE_BASE = 0x18000000 + 0x01f0"

definition is_illegal_va_range :: "u32 \<Rightarrow> u32 \<Rightarrow> bool" where
  "is_illegal_va_range va len \<longleftrightarrow>
     (if len = 0 then False else va + len < va \<or> va < UTEMP \<or> va + len > UTOP)"

definition dev_range :: "u32 \<Rightarrow> u32 \<Rightarrow> bool" where
  "dev_range pa len \<longleftrightarrow>
     (pa \<ge> MALTA_IDE_BASE \<and> pa + len \<le> MALTA_IDE_BASE + 0x8) \<or>
     (pa \<ge> MALTA_SERIAL_BASE \<and> pa + len \<le> MALTA_SERIAL_BASE + 0x20)"

text \<open>The test \<^verbatim>\<open>pte & PTE_V\<close>.\<close>

definition pte_valid :: "u32 \<Rightarrow> bool" where
  "pte_valid pte \<longleftrightarrow> pte AND PTE_V \<noteq> 0"

text \<open>\<^verbatim>\<open>page2pa\<close>: a page is represented by its index in \<^verbatim>\<open>pages\<close>.\<close>

definition page2pa :: "nat \<Rightarrow> u32" where
  "page2pa pp = push_bit 12 (of_nat pp)"

section \<open>Facts\<close>

lemma pte_valid_bit: "pte_valid pte \<longleftrightarrow> bit pte 7"
  using word_and_pow2_neq_0 [of pte 7] by (simp add: pte_valid_def PTE_V_def)

lemma pte_valid_0 [simp]: "\<not> pte_valid 0"
  by (simp add: pte_valid_def)

lemma pte_valid_or_V [simp]: "pte_valid (w OR PTE_V)" "pte_valid (w OR PTE_V OR x)"
  by (simp_all add: pte_valid_bit PTE_V_def bit_simps)

lemma PDX_less [simp]: "PDX va < 1024"
  by (simp add: PDX_def unat_and_1023)

lemma PTX_less [simp]: "PTX va < 1024"
  by (simp add: PTX_def unat_and_1023)

lemma PDX_eq: "PDX va = unat va div 2 ^ 22"
proof -
  have "unat va < 2 ^ 32" using unsigned_less [of va, where ?'a = nat] by simp
  then have "unat va div 2 ^ 22 < 1024" by (simp add: less_mult_imp_div_less)
  then show ?thesis by (simp add: PDX_def unat_and_1023 unat_drop_bit)
qed

lemma PTX_eq: "PTX va = unat va div 2 ^ 12 mod 1024"
  by (simp add: PTX_def unat_and_1023 unat_drop_bit)

lemma VPN_eq: "VPN va = unat va div 2 ^ 12"
  by (simp add: VPN_def unat_drop_bit)

lemma PPN_eq: "PPN va = unat va div 2 ^ 12"
  by (simp add: PPN_def unat_drop_bit)

text \<open>A virtual page number is its two indices.\<close>

lemma VPN_split: "VPN va = PDX va * 1024 + PTX va"
proof -
  have "unat va div 2 ^ 22 = unat va div 2 ^ 12 div 1024"
    by (simp add: div_mult2_eq [symmetric])
  then show ?thesis by (simp add: VPN_eq PDX_eq PTX_eq)
qed

lemma PDX_less_UTOP: "va < UTOP \<Longrightarrow> PDX va < PDX UTOP"
proof -
  assume "va < UTOP"
  then have "unat va < 509 * 2 ^ 22"
    by (simp add: mos_consts word_less_nat_alt)
  then have "unat va div 2 ^ 22 < 509" by (simp add: less_mult_imp_div_less)
  then show ?thesis by (simp add: PDX_eq mos_consts)
qed

lemma PDX_UTOP [simp]: "PDX UTOP = 509"
  by (simp add: PDX_eq mos_consts)

lemma PDX_UVPT [simp]: "PDX UVPT = 511"
  by (simp add: PDX_eq mos_consts)

lemma PPN_PTE_ADDR [simp]: "PPN (PTE_ADDR pte) = PPN pte"
proof -
  have m: "(0xFFF :: u32) = mask 12" by (simp add: mask_eq_exp_minus_1)
  have "drop_bit 12 (pte AND NOT 0xFFF) = drop_bit 12 pte"
    unfolding m by (rule bit_word_eqI) (auto simp: bit_simps dest: bit_imp_le_length)
  then show ?thesis by (simp add: PPN_def PTE_ADDR_def)
qed

lemma PPN_less: "PPN pa < 2 ^ 20"
proof -
  have "unat pa < 2 ^ 32" using unsigned_less [of pa, where ?'a = nat] by simp
  then show ?thesis by (simp add: PPN_eq less_mult_imp_div_less)
qed

text \<open>The entry that \<^verbatim>\<open>page_insert\<close> and \<^verbatim>\<open>pgdir_walk\<close> write for page \<open>pp\<close>.\<close>

lemma PPN_page2pa_or:
  assumes "pp < 2 ^ 20" and "w < 4096"
  shows "PPN (page2pa pp OR w) = pp"
proof -
  have w: "drop_bit 12 w = 0"
    using assms(2) by (intro drop_bit_lt) (simp add: word_less_nat_alt)
  have "drop_bit 12 (page2pa pp) = of_nat pp"
    unfolding page2pa_def using assms(1) by (intro drop_push_bit_of_nat) simp_all
  then show ?thesis
    using w assms(1) by (simp add: PPN_def drop_bit_or unat_of_nat_u32)
qed

lemma or_less_4096:
  fixes a b :: u32
  assumes "a < 4096" and "b < 4096"
  shows "a OR b < 4096"
proof -
  have "drop_bit 12 (a OR b) = 0"
    using assms by (simp add: drop_bit_or drop_bit_lt word_less_nat_alt)
  then have "unat (a OR b) div 2 ^ 12 = 0"
    by (metis unat_drop_bit unat_0)
  then show ?thesis by (simp add: word_less_nat_alt div_eq_0_iff)
qed

lemma flags_less_4096 [simp]:
  "PTE_V < 4096" "PTE_D < 4096" "PTE_G < 4096" "PTE_C_CACHEABLE < 4096"
  "PTE_COW < 4096" "PTE_LIBRARY < 4096" "(0 :: u32) < 4096"
  by (simp_all add: mos_consts)

lemma PTE_FLAGS_page2pa_or:
  assumes "w < 4096"
  shows "PTE_FLAGS (page2pa pp OR w) = w"
proof -
  have m: "(0xFFF :: u32) = mask 12" by (simp add: mask_eq_exp_minus_1)
  have "\<not> bit w n" if "12 \<le> n" for n
  proof -
    have "drop_bit 12 w = 0"
      using assms by (intro drop_bit_lt) (simp add: word_less_nat_alt)
    then have "\<not> bit (drop_bit 12 w) (n - 12)" by simp
    with that show ?thesis by (simp add: bit_simps)
  qed
  then show ?thesis
    unfolding PTE_FLAGS_def page2pa_def m
    by (intro bit_word_eqI) (auto simp: bit_simps, meson not_le)
qed

end
