(* ===== verification/Queue.thy ===== *)
theory Queue
  imports Prelude
begin

text \<open>
  The intrusive lists of \<^verbatim>\<open>include/queue.h\<close>, at the level of their pointers. An element
  is a value of \<open>'a\<close> (an array index in the clients); the pointer fields \<^verbatim>\<open>le_next\<close> and
  \<^verbatim>\<open>le_prev\<close> of all elements are functions from elements. A \<^verbatim>\<open>le_prev\<close> holds the address of
  the next-pointer that points at the element: \<open>LHead\<close> is the address of the list
  head's \<^verbatim>\<open>lh_first\<close> (\<^verbatim>\<open>tqh_first\<close>), \<open>LNext a\<close> the address of \<open>a\<close>'s \<^verbatim>\<open>le_next\<close>
  (\<^verbatim>\<open>tqe_next\<close>), and \<open>None\<close> the null pointer of a zero-initialised element. Writing through
  a null pointer is the result \<open>None\<close>.

  \<open>lrep\<close> and \<open>tqrep\<close> say which HOL list a pointer structure represents; every macro is
  shown to implement the list operation it is named after. The locale \<open>intrusive_list\<close>
  states the contract the kernel relies on, and both list kinds are interpretations.
\<close>

datatype 'a lloc = LHead | LNext 'a

section \<open>\<^verbatim>\<open>LIST\<close>\<close>

record 'a llist =
  lh_first :: "'a option"
  le_next :: "'a \<Rightarrow> 'a option"
  le_prev :: "'a \<Rightarrow> 'a lloc option"

text \<open>\<open>*loc = v\<close> for an address of a next-pointer.\<close>

fun lput :: "'a lloc \<Rightarrow> 'a option \<Rightarrow> ('a, 'z) llist_scheme \<Rightarrow> ('a, 'z) llist_scheme" where
  "lput LHead v h = h\<lparr>lh_first := v\<rparr>"
| "lput (LNext a) v h = h\<lparr>le_next := (le_next h)(a := v)\<rparr>"

definition llist_zero :: "'a llist" where
  "llist_zero = \<lparr>lh_first = None, le_next = (\<lambda>_. None), le_prev = (\<lambda>_. None)\<rparr>"

definition LIST_EMPTY :: "('a, 'z) llist_scheme \<Rightarrow> bool" where
  "LIST_EMPTY h \<longleftrightarrow> lh_first h = None"

definition LIST_FIRST :: "('a, 'z) llist_scheme \<Rightarrow> 'a option" where
  "LIST_FIRST h = lh_first h"

definition LIST_NEXT :: "('a, 'z) llist_scheme \<Rightarrow> 'a \<Rightarrow> 'a option" where
  "LIST_NEXT h e = le_next h e"

definition LIST_INIT :: "('a, 'z) llist_scheme \<Rightarrow> ('a, 'z) llist_scheme" where
  "LIST_INIT h = h\<lparr>lh_first := None\<rparr>"

definition LIST_INSERT_AFTER :: "'a \<Rightarrow> 'a \<Rightarrow> ('a, 'z) llist_scheme \<Rightarrow> ('a, 'z) llist_scheme" where
  "LIST_INSERT_AFTER l e h =
     (let h = h\<lparr>le_next := (le_next h)(e := le_next h l)\<rparr>;
          h = (case le_next h l of
                 None \<Rightarrow> h
               | Some n \<Rightarrow> h\<lparr>le_prev := (le_prev h)(n := Some (LNext e))\<rparr>);
          h = h\<lparr>le_next := (le_next h)(l := Some e)\<rparr>
      in h\<lparr>le_prev := (le_prev h)(e := Some (LNext l))\<rparr>)"

definition LIST_INSERT_BEFORE :: "'a \<Rightarrow> 'a \<Rightarrow> ('a, 'z) llist_scheme \<Rightarrow> ('a, 'z) llist_scheme option" where
  "LIST_INSERT_BEFORE l e h = do {
     let h = h\<lparr>le_prev := (le_prev h)(e := le_prev h l)\<rparr>;
     let h = h\<lparr>le_next := (le_next h)(e := Some l)\<rparr>;
     loc \<leftarrow> le_prev h l;
     let h = lput loc (Some e) h;
     Some (h\<lparr>le_prev := (le_prev h)(l := Some (LNext e))\<rparr>)
   }"

definition LIST_INSERT_HEAD :: "'a \<Rightarrow> ('a, 'z) llist_scheme \<Rightarrow> ('a, 'z) llist_scheme" where
  "LIST_INSERT_HEAD e h =
     (let h = h\<lparr>le_next := (le_next h)(e := lh_first h)\<rparr>;
          h = (case le_next h e of
                 None \<Rightarrow> h
               | Some f \<Rightarrow> h\<lparr>le_prev := (le_prev h)(f := Some (LNext e))\<rparr>);
          h = h\<lparr>lh_first := Some e\<rparr>
      in h\<lparr>le_prev := (le_prev h)(e := Some LHead)\<rparr>)"

definition LIST_REMOVE :: "'a \<Rightarrow> ('a, 'z) llist_scheme \<Rightarrow> ('a, 'z) llist_scheme option" where
  "LIST_REMOVE e h = do {
     let h = (case le_next h e of
                None \<Rightarrow> h
              | Some n \<Rightarrow> h\<lparr>le_prev := (le_prev h)(n := le_prev h e)\<rparr>);
     loc \<leftarrow> le_prev h e;
     Some (lput loc (le_next h e) h)
   }"

subsection \<open>The list a pointer structure represents\<close>

text \<open>
  \<open>lchain h loc v xs\<close>: following \<^verbatim>\<open>le_next\<close> from the pointer value \<open>v\<close>, which is stored at
  address \<open>loc\<close>, visits exactly \<open>xs\<close> and then null, and every \<^verbatim>\<open>le_prev\<close> on the way is the
  address the element was reached through.
\<close>

fun lchain :: "('a, 'z) llist_scheme \<Rightarrow> 'a lloc \<Rightarrow> 'a option \<Rightarrow> 'a list \<Rightarrow> bool" where
  "lchain h loc v [] \<longleftrightarrow> v = None"
| "lchain h loc v (x # xs) \<longleftrightarrow>
     v = Some x \<and> le_prev h x = Some loc \<and> lchain h (LNext x) (le_next h x) xs"

definition lrep :: "('a, 'z) llist_scheme \<Rightarrow> 'a list \<Rightarrow> bool" where
  "lrep h xs \<longleftrightarrow> distinct xs \<and> lchain h LHead (lh_first h) xs"

text \<open>The address of the pointer that ends the segment \<open>xs\<close> entered through \<open>loc\<close>.\<close>

fun seg_end :: "'a lloc \<Rightarrow> 'a list \<Rightarrow> 'a lloc" where
  "seg_end loc [] = loc"
| "seg_end loc (x # xs) = seg_end (LNext x) xs"

lemma seg_end_append [simp]: "seg_end loc (xs @ ys) = seg_end (seg_end loc xs) ys"
  by (induction xs arbitrary: loc) auto

lemma seg_end_cases: "seg_end loc xs = (if xs = [] then loc else LNext (last xs))"
  by (induction xs arbitrary: loc) auto

lemma lchain_cong:
  "(\<And>x. x \<in> set xs \<Longrightarrow> le_next h x = le_next h' x \<and> le_prev h x = le_prev h' x) \<Longrightarrow>
   lchain h loc v xs = lchain h' loc v xs"
  by (induction xs arbitrary: loc v) auto

text \<open>A segment that is followed by the pointer value \<open>w\<close>.\<close>

fun lseg :: "('a, 'z) llist_scheme \<Rightarrow> 'a lloc \<Rightarrow> 'a option \<Rightarrow> 'a list \<Rightarrow> 'a option \<Rightarrow> bool" where
  "lseg h loc v [] w \<longleftrightarrow> v = w"
| "lseg h loc v (x # xs) w \<longleftrightarrow>
     v = Some x \<and> le_prev h x = Some loc \<and> lseg h (LNext x) (le_next h x) xs w"

lemma lchain_append:
  "lchain h loc v (xs @ ys) \<longleftrightarrow>
     (\<exists>w. lseg h loc v xs w \<and> lchain h (seg_end loc xs) w ys)"
  by (induction xs arbitrary: loc v) auto

lemma lseg_cong:
  "(\<And>x. x \<in> set xs \<Longrightarrow> le_next h x = le_next h' x \<and> le_prev h x = le_prev h' x) \<Longrightarrow>
   lseg h loc v xs w = lseg h' loc v xs w"
  by (induction xs arbitrary: loc v) auto

text \<open>Overwriting the pointer at the end of a segment changes what follows it.\<close>

lemma lseg_retarget:
  assumes "lseg h loc v xs w" and "distinct xs" and "xs \<noteq> []"
    and "le_next h' = (le_next h)(last xs := w')"
    and "\<And>x. x \<in> set xs \<Longrightarrow> le_prev h' x = le_prev h x"
  shows "lseg h' loc v xs w'"
  using assms
proof (induction xs arbitrary: loc v)
  case Nil
  then show ?case by simp
next
  case (Cons x xs)
  show ?case
  proof (cases "xs = []")
    case True
    with Cons.prems show ?thesis by auto
  next
    case False
    with Cons.prems have "last xs \<noteq> x" by auto
    with Cons False show ?thesis by auto
  qed
qed

lemma lrep_unique: "lrep h xs \<Longrightarrow> lrep h ys \<Longrightarrow> xs = ys"
proof -
  have "lchain h loc v xs \<Longrightarrow> lchain h loc v ys \<Longrightarrow> xs = ys" for loc v
    by (induction xs arbitrary: loc v ys) (auto, (case_tac ys; auto)+)
  then show "lrep h xs \<Longrightarrow> lrep h ys \<Longrightarrow> xs = ys" by (auto simp: lrep_def)
qed

lemma lrep_distinct: "lrep h xs \<Longrightarrow> distinct xs"
  by (simp add: lrep_def)

lemma lrep_INIT [simp]: "lrep (LIST_INIT h) []"
  by (simp add: lrep_def LIST_INIT_def)

lemma lrep_EMPTY: "lrep h xs \<Longrightarrow> LIST_EMPTY h \<longleftrightarrow> xs = []"
  by (cases xs) (auto simp: lrep_def LIST_EMPTY_def)

lemma lrep_FIRST: "lrep h xs \<Longrightarrow> LIST_FIRST h = (case xs of [] \<Rightarrow> None | x # _ \<Rightarrow> Some x)"
  by (cases xs) (auto simp: lrep_def LIST_FIRST_def)

lemma lrep_INSERT_HEAD:
  assumes "lrep h xs" and "e \<notin> set xs"
  shows "lrep (LIST_INSERT_HEAD e h) (e # xs)"
proof (cases xs)
  case Nil
  with assms show ?thesis by (simp add: lrep_def LIST_INSERT_HEAD_def)
next
  case (Cons f fs)
  with assms have d: "e \<noteq> f" "f \<notin> set fs" "e \<notin> set fs" "distinct fs"
    and f: "lh_first h = Some f" and ch: "lchain h (LNext f) (le_next h f) fs"
    by (auto simp: lrep_def)
  have "lchain (LIST_INSERT_HEAD e h) (LNext f) (le_next h f) fs"
    by (rule lchain_cong [THEN iffD1, OF _ ch]) (use d f in \<open>auto simp: LIST_INSERT_HEAD_def\<close>)
  with Cons d f show ?thesis by (simp add: lrep_def LIST_INSERT_HEAD_def)
qed

text \<open>
  \<open>LIST_REMOVE\<close> in two steps: the successor's back pointer, then the pointer through which
  the element was reached.
\<close>

definition lskip :: "'a \<Rightarrow> ('a, 'z) llist_scheme \<Rightarrow> ('a, 'z) llist_scheme" where
  "lskip e h = (case le_next h e of
                  None \<Rightarrow> h
                | Some n \<Rightarrow> h\<lparr>le_prev := (le_prev h)(n := le_prev h e)\<rparr>)"

lemma lskip_simps [simp]:
  "le_next (lskip e h) = le_next h" "lh_first (lskip e h) = lh_first h"
  "le_prev (lskip e h) x = (if le_next h e = Some x then le_prev h e else le_prev h x)"
  by (auto simp: lskip_def split: option.split)

lemma lput_prev [simp]: "le_prev (lput loc v h) = le_prev h"
  by (cases loc) auto

lemma lput_next: "le_next (lput loc v h) x = (if loc = LNext x then v else le_next h x)"
  by (cases loc) auto

lemma LIST_REMOVE_eq:
  "LIST_REMOVE e h = map_option (\<lambda>loc. lput loc (le_next h e) (lskip e h)) (le_prev (lskip e h) e)"
  by (auto simp: LIST_REMOVE_def lskip_def bind_eq_None_conv split: option.split
      Option.bind_split)

lemma lseg_lput:
  assumes "lseg h loc v xs w" "distinct xs" "xs \<noteq> []"
    and "\<And>x. x \<in> set xs \<Longrightarrow> le_prev h' x = le_prev h x" "le_next h' = le_next h"
  shows "lseg (lput (seg_end loc xs) w' h') loc v xs w'"
  by (rule lseg_retarget [OF assms(1-3)]) (use assms in \<open>auto simp: seg_end_cases\<close>)

lemma lrep_REMOVE:
  assumes "lrep h (xs @ e # ys)"
  shows "\<exists>h'. LIST_REMOVE e h = Some h' \<and> lrep h' (xs @ ys)"
proof -
  let ?loc = "seg_end LHead xs"
  let ?h = "lput ?loc (le_next h e) (lskip e h)"
  from assms have d: "distinct (xs @ e # ys)" by (rule lrep_distinct)
  from assms have sg: "lseg h LHead (lh_first h) xs (Some e)"
    and pv: "le_prev h e = Some ?loc" and ch: "lchain h (LNext e) (le_next h e) ys"
    by (auto simp: lrep_def lchain_append)
  have nxt: "n \<in> set ys" if "le_next h e = Some n" for n
    using that ch by (cases ys) auto
  have sep: "?loc \<noteq> LNext y" if "y \<in> set ys" for y
    using that d by (cases xs rule: rev_cases) (auto simp: seg_end_cases)
  have ys2: "lchain ?h ?loc (le_next h e) ys"
  proof (cases ys)
    case Nil
    with ch show ?thesis by simp
  next
    case (Cons n ns)
    with ch have n: "le_next h e = Some n" "lchain h (LNext n) (le_next h n) ns" by auto
    have "lchain ?h (LNext n) (le_next h n) ns"
      by (rule lchain_cong [THEN iffD1, OF _ n(2)]) (use d Cons n sep in \<open>auto simp: lput_next\<close>)
    with Cons n pv sep show ?thesis by (simp add: lput_next)
  qed
  have "lseg ?h LHead (lh_first ?h) xs (le_next h e)"
  proof (cases "xs = []")
    case False
    then have "lh_first ?h = lh_first h" by (simp add: seg_end_cases)
    moreover have "lseg ?h LHead (lh_first h) xs (le_next h e)"
      by (rule lseg_lput [OF sg]) (use False d nxt in auto)
    ultimately show ?thesis by simp
  qed simp
  with d ys2 have "lrep ?h (xs @ ys)" by (auto simp: lrep_def lchain_append)
  moreover have "LIST_REMOVE e h = Some ?h"
    using pv by (simp add: LIST_REMOVE_eq)
  ultimately show ?thesis by blast
qed

lemma lrep_INSERT_AFTER:
  assumes "lrep h (xs @ l # ys)" and "e \<notin> set (xs @ l # ys)"
  shows "lrep (LIST_INSERT_AFTER l e h) (xs @ l # e # ys)"
proof -
  let ?h = "LIST_INSERT_AFTER l e h"
  from lrep_distinct [OF assms(1)] assms(2) have d: "distinct (xs @ l # e # ys)" by auto
  from assms(1) have sg: "lseg h LHead (lh_first h) xs (Some l)"
    and pv: "le_prev h l = Some (seg_end LHead xs)"
    and ch: "lchain h (LNext l) (le_next h l) ys"
    by (auto simp: lrep_def lchain_append)
  have nxt: "n \<in> set ys" if "le_next h l = Some n" for n
    using that ch by (cases ys) auto
  have nx: "le_next ?h x = (if x = l then Some e else if x = e then le_next h l else le_next h x)"
    and pr: "le_prev ?h x = (if x = e then Some (LNext l)
                 else if le_next h l = Some x then Some (LNext e) else le_prev h x)" for x
    using d by (auto simp: LIST_INSERT_AFTER_def Let_def split: option.split)
  have first: "lh_first ?h = lh_first h"
    by (auto simp: LIST_INSERT_AFTER_def Let_def split: option.split)
  have "lseg ?h LHead (lh_first h) xs (Some l)"
    by (rule lseg_cong [THEN iffD1, OF _ sg]) (use d nxt nx pr in auto)
  moreover have "lchain ?h (LNext e) (le_next h l) ys"
  proof (cases ys)
    case Nil
    with ch show ?thesis by simp
  next
    case (Cons n ns)
    with ch have n: "le_next h l = Some n" "lchain h (LNext n) (le_next h n) ns" by auto
    have "lchain ?h (LNext n) (le_next h n) ns"
      by (rule lchain_cong [THEN iffD1, OF _ n(2)]) (use d Cons n nx pr in auto)
    with Cons n d nx pr show ?thesis by auto
  qed
  moreover have "le_prev ?h l = Some (seg_end LHead xs)"
    using d nxt pv pr by auto
  ultimately show ?thesis
    using d nx pr first by (auto simp: lrep_def lchain_append)
qed

lemma lrep_INSERT_BEFORE:
  assumes "lrep h (xs @ l # ys)" and "e \<notin> set (xs @ l # ys)"
  shows "\<exists>h'. LIST_INSERT_BEFORE l e h = Some h' \<and> lrep h' (xs @ e # l # ys)"
proof -
  let ?loc = "seg_end LHead xs"
  from lrep_distinct [OF assms(1)] assms(2) have d: "distinct (xs @ e # l # ys)" by auto
  from assms(1) have sg: "lseg h LHead (lh_first h) xs (Some l)"
    and pv: "le_prev h l = Some ?loc" and ch: "lchain h (LNext l) (le_next h l) ys"
    by (auto simp: lrep_def lchain_append)
  let ?h1 = "h\<lparr>le_prev := (le_prev h)(e := le_prev h l),
               le_next := (le_next h)(e := Some l)\<rparr>"
  let ?h2 = "lput ?loc (Some e) ?h1"
  let ?h = "?h2\<lparr>le_prev := (le_prev ?h2)(l := Some (LNext e))\<rparr>"
  have sep: "?loc \<noteq> LNext y" if "y \<in> set (e # l # ys)" for y
    using that d by (cases xs rule: rev_cases) (auto simp: seg_end_cases)
  have "lchain ?h (LNext l) (le_next h l) ys"
    by (rule lchain_cong [THEN iffD1, OF _ ch]) (use d sep in \<open>auto simp: lput_next\<close>)
  moreover have "lseg ?h LHead (lh_first ?h) xs (Some e)"
  proof (cases "xs = []")
    case False
    then have loc: "?loc = LNext (last xs)" by (simp add: seg_end_cases)
    have sg1: "lseg ?h1 LHead (lh_first h) xs (Some l)"
      by (rule lseg_cong [THEN iffD1, OF _ sg]) (use d in auto)
    have "lseg ?h LHead (lh_first h) xs (Some e)"
      by (rule lseg_retarget [OF sg1]) (use False d loc in \<open>auto simp: fun_eq_iff\<close>)
    with loc show ?thesis by simp
  qed simp
  ultimately have "lrep ?h (xs @ e # l # ys)"
    using d pv sep by (auto simp: lrep_def lchain_append lput_next)
  moreover have "LIST_INSERT_BEFORE l e h = Some ?h"
    using pv d by (simp add: LIST_INSERT_BEFORE_def)
  ultimately show ?thesis by blast
qed

section \<open>\<^verbatim>\<open>TAILQ\<close>\<close>

text \<open>
  A \<^verbatim>\<open>TAILQ_ENTRY\<close> has the two pointers of a \<^verbatim>\<open>LIST_ENTRY\<close>; the head also keeps
  \<^verbatim>\<open>tqh_last\<close>, the address of the last next-pointer. The record extends \<open>llist\<close>:
  \<open>lh_first\<close>, \<open>le_next\<close> and \<open>le_prev\<close> are \<^verbatim>\<open>tqh_first\<close>, \<^verbatim>\<open>tqe_next\<close> and \<^verbatim>\<open>tqe_prev\<close>.
\<close>

record 'a tailq = "'a llist" +
  tqh_last :: "'a lloc option"

definition tailq_zero :: "'a tailq" where
  "tailq_zero = \<lparr>lh_first = None, le_next = (\<lambda>_. None), le_prev = (\<lambda>_. None), tqh_last = None\<rparr>"

definition TAILQ_INIT :: "'a tailq \<Rightarrow> 'a tailq" where
  "TAILQ_INIT h = h\<lparr>lh_first := None, tqh_last := Some LHead\<rparr>"

definition TAILQ_EMPTY :: "'a tailq \<Rightarrow> bool" where
  "TAILQ_EMPTY h \<longleftrightarrow> lh_first h = None"

definition TAILQ_FIRST :: "'a tailq \<Rightarrow> 'a option" where
  "TAILQ_FIRST h = lh_first h"

definition TAILQ_INSERT_HEAD :: "'a \<Rightarrow> 'a tailq \<Rightarrow> 'a tailq" where
  "TAILQ_INSERT_HEAD e h =
     (let h = h\<lparr>le_next := (le_next h)(e := lh_first h)\<rparr>;
          h = (case le_next h e of
                 Some f \<Rightarrow> h\<lparr>le_prev := (le_prev h)(f := Some (LNext e))\<rparr>
               | None \<Rightarrow> h\<lparr>tqh_last := Some (LNext e)\<rparr>);
          h = h\<lparr>lh_first := Some e\<rparr>
      in h\<lparr>le_prev := (le_prev h)(e := Some LHead)\<rparr>)"

definition TAILQ_INSERT_TAIL :: "'a \<Rightarrow> 'a tailq \<Rightarrow> 'a tailq option" where
  "TAILQ_INSERT_TAIL e h = do {
     let h = h\<lparr>le_next := (le_next h)(e := None)\<rparr>;
     let h = h\<lparr>le_prev := (le_prev h)(e := tqh_last h)\<rparr>;
     loc \<leftarrow> tqh_last h;
     let h = lput loc (Some e) h;
     Some (h\<lparr>tqh_last := Some (LNext e)\<rparr>)
   }"

definition TAILQ_REMOVE :: "'a \<Rightarrow> 'a tailq \<Rightarrow> 'a tailq option" where
  "TAILQ_REMOVE e h = do {
     let h = (case le_next h e of
                Some n \<Rightarrow> h\<lparr>le_prev := (le_prev h)(n := le_prev h e)\<rparr>
              | None \<Rightarrow> h\<lparr>tqh_last := le_prev h e\<rparr>);
     loc \<leftarrow> le_prev h e;
     Some (lput loc (le_next h e) h)
   }"

definition tqrep :: "'a tailq \<Rightarrow> 'a list \<Rightarrow> bool" where
  "tqrep h xs \<longleftrightarrow> lrep h xs \<and> tqh_last h = Some (seg_end LHead xs)"

lemma lput_last [simp]: "tqh_last (lput loc v h) = tqh_last h"
  by (cases loc) auto

lemma lchain_tqh_last [simp]: "lchain (h\<lparr>tqh_last := l\<rparr>) loc v xs = lchain h loc v xs"
  by (rule lchain_cong) simp

lemma lrep_tqh_last [simp]: "lrep (h\<lparr>tqh_last := l\<rparr>) xs = lrep h xs"
  by (simp add: lrep_def)

lemma tqrep_distinct: "tqrep h xs \<Longrightarrow> distinct xs"
  by (auto simp: tqrep_def intro: lrep_distinct)

lemma tqrep_unique: "tqrep h xs \<Longrightarrow> tqrep h ys \<Longrightarrow> xs = ys"
  by (auto simp: tqrep_def intro: lrep_unique)

lemma tqrep_INIT [simp]: "tqrep (TAILQ_INIT h) []"
  by (simp add: tqrep_def lrep_def TAILQ_INIT_def)

lemma tqrep_EMPTY: "tqrep h xs \<Longrightarrow> TAILQ_EMPTY h \<longleftrightarrow> xs = []"
  using lrep_EMPTY by (auto simp: tqrep_def TAILQ_EMPTY_def LIST_EMPTY_def)

lemma tqrep_FIRST: "tqrep h xs \<Longrightarrow> TAILQ_FIRST h = (case xs of [] \<Rightarrow> None | x # _ \<Rightarrow> Some x)"
  using lrep_FIRST [of h xs] by (simp add: tqrep_def TAILQ_FIRST_def LIST_FIRST_def)

lemma tqrep_INSERT_HEAD:
  assumes "tqrep h xs" and "e \<notin> set xs"
  shows "tqrep (TAILQ_INSERT_HEAD e h) (e # xs)"
proof -
  have eq: "TAILQ_INSERT_HEAD e h =
      (LIST_INSERT_HEAD e h)\<lparr>tqh_last := if lh_first h = None then Some (LNext e) else tqh_last h\<rparr>"
    by (auto simp: TAILQ_INSERT_HEAD_def LIST_INSERT_HEAD_def split: option.split)
  from assms have "lh_first h = None \<longleftrightarrow> xs = []"
    by (cases xs) (auto simp: tqrep_def lrep_def)
  with assms lrep_INSERT_HEAD [of h xs e] show ?thesis
    unfolding eq by (auto simp: tqrep_def seg_end_cases)
qed

lemma tqrep_INSERT_TAIL:
  assumes "tqrep h xs" and "e \<notin> set xs"
  shows "\<exists>h'. TAILQ_INSERT_TAIL e h = Some h' \<and> tqrep h' (xs @ [e])"
proof -
  let ?loc = "seg_end LHead xs"
  let ?h1 = "h\<lparr>le_next := (le_next h)(e := None), le_prev := (le_prev h)(e := Some ?loc)\<rparr>"
  let ?h2 = "lput ?loc (Some e) ?h1"
  let ?h = "?h2\<lparr>tqh_last := Some (LNext e)\<rparr>"
  from assms have d: "distinct xs" "e \<notin> set xs" and l: "tqh_last h = Some ?loc"
    and sg: "lseg h LHead (lh_first h) xs None"
    using lchain_append [of h LHead "lh_first h" xs "[]"] by (auto simp: tqrep_def lrep_def)
  have "lseg ?h LHead (lh_first ?h) xs (Some e)"
  proof (cases "xs = []")
    case False
    then have loc: "?loc = LNext (last xs)" by (simp add: seg_end_cases)
    have sg1: "lseg ?h1 LHead (lh_first h) xs None"
      by (rule lseg_cong [THEN iffD1, OF _ sg]) (use d in auto)
    have "lseg ?h LHead (lh_first h) xs (Some e)"
      by (rule lseg_retarget [OF sg1]) (use False d loc in \<open>auto simp: fun_eq_iff\<close>)
    with loc show ?thesis by simp
  qed simp
  moreover have "le_next ?h e = None"
    using d by (cases xs rule: rev_cases) (auto simp: seg_end_cases lput_next)
  ultimately have "tqrep ?h (xs @ [e])"
    using d by (auto simp: tqrep_def lrep_def lchain_append)
  moreover have "TAILQ_INSERT_TAIL e h = Some ?h"
    using l by (simp add: TAILQ_INSERT_TAIL_def)
  ultimately show ?thesis by blast
qed

lemma tqrep_REMOVE:
  assumes "tqrep h (xs @ e # ys)"
  shows "\<exists>h'. TAILQ_REMOVE e h = Some h' \<and> tqrep h' (xs @ ys)"
proof -
  let ?h0 = "if le_next h e = None then h\<lparr>tqh_last := le_prev h e\<rparr> else h"
  have eq: "TAILQ_REMOVE e h = LIST_REMOVE e ?h0"
    by (auto simp: TAILQ_REMOVE_def LIST_REMOVE_def split: option.split)
  from assms have r: "lrep ?h0 (xs @ e # ys)" by (simp add: tqrep_def)
  from lrep_REMOVE [OF r] obtain h' where h': "LIST_REMOVE e ?h0 = Some h'" "lrep h' (xs @ ys)"
    by blast
  have "tqh_last h' = tqh_last ?h0"
    using h'(1) by (auto simp: LIST_REMOVE_eq lskip_def split: option.splits)
  moreover have "tqh_last ?h0 = Some (seg_end LHead (xs @ ys))"
    using assms by (cases ys) (auto simp: tqrep_def lrep_def lchain_append seg_end_cases)
  ultimately show ?thesis using eq h' by (auto simp: tqrep_def)
qed

section \<open>The contract of the lists\<close>

locale intrusive_list =
  fixes rep :: "'h \<Rightarrow> 'e list \<Rightarrow> bool"
    and init :: "'h \<Rightarrow> 'h"
    and first :: "'h \<Rightarrow> 'e option"
    and insert_head :: "'e \<Rightarrow> 'h \<Rightarrow> 'h"
    and remove :: "'e \<Rightarrow> 'h \<Rightarrow> 'h option"
  assumes rep_distinct: "rep h xs \<Longrightarrow> distinct xs"
    and rep_unique: "rep h xs \<Longrightarrow> rep h ys \<Longrightarrow> xs = ys"
    and rep_init: "rep (init h) []"
    and rep_first: "rep h xs \<Longrightarrow> first h = (case xs of [] \<Rightarrow> None | x # _ \<Rightarrow> Some x)"
    and rep_insert_head: "rep h xs \<Longrightarrow> e \<notin> set xs \<Longrightarrow> rep (insert_head e h) (e # xs)"
    and rep_remove: "rep h (xs @ e # ys) \<Longrightarrow> \<exists>h'. remove e h = Some h' \<and> rep h' (xs @ ys)"
begin

text \<open>A loop that inserts elements at the head one after the other.\<close>

lemma rep_fold_insert:
  assumes "rep h xs" and "distinct ys" and "set ys \<inter> set xs = {}"
  shows "rep (fold insert_head ys h) (rev ys @ xs)"
  using assms
proof (induction ys arbitrary: h xs)
  case Nil
  then show ?case by simp
next
  case (Cons y ys)
  then have "rep (insert_head y h) (y # xs)" by (simp add: rep_insert_head)
  from Cons.IH [OF this] Cons.prems show ?case by simp
qed

lemma rep_remove_mem:
  assumes "rep h xs" and "e \<in> set xs"
  shows "\<exists>h'. remove e h = Some h' \<and> rep h' (remove1 e xs)"
proof -
  from assms(2) obtain as bs where xs: "xs = as @ e # bs" by (meson split_list)
  with assms rep_distinct have "e \<notin> set as" by fastforce
  then have "remove1 e xs = as @ bs" by (simp add: xs remove1_append)
  with assms(1) xs rep_remove show ?thesis by simp
qed

lemma rep_removeE:
  assumes "rep h xs" and "e \<in> set xs"
  obtains h' where "remove e h = Some h'" and "rep h' (remove1 e xs)"
  using rep_remove_mem [OF assms] by blast

text \<open>Taking the first element: what \<^verbatim>\<open>page_alloc\<close> and \<^verbatim>\<open>env_alloc\<close> do.\<close>

lemma rep_pop:
  assumes "rep h (x # xs)"
  shows "first h = Some x \<and> (\<exists>h'. remove x h = Some h' \<and> rep h' xs)"
  using rep_first [OF assms] rep_remove [of h "[]" x xs] assms by simp

text \<open>An element that was removed can be inserted again at the head.\<close>

lemma rep_remove_insert_head:
  assumes "rep h xs" and "e \<in> set xs"
  shows "\<exists>h'. map_option (insert_head e) (remove e h) = Some h' \<and> rep h' (e # remove1 e xs)"
proof -
  from assms obtain h' where h': "remove e h = Some h'" "rep h' (remove1 e xs)"
    by (rule rep_removeE)
  moreover have "e \<notin> set (remove1 e xs)"
    using rep_distinct [OF assms(1)] by simp
  ultimately show ?thesis using rep_insert_head by simp
qed

end

locale intrusive_queue = intrusive_list +
  fixes insert_tail :: "'b \<Rightarrow> 'a \<Rightarrow> 'a option"
  assumes rep_insert_tail:
    "rep h xs \<Longrightarrow> e \<notin> set xs \<Longrightarrow> \<exists>h'. insert_tail e h = Some h' \<and> rep h' (xs @ [e])"
begin

lemma rep_insert_tailE:
  assumes "rep h xs" and "e \<notin> set xs"
  obtains h' where "insert_tail e h = Some h'" and "rep h' (xs @ [e])"
  using rep_insert_tail [OF assms] by blast

text \<open>Round robin: removing an element and appending it again rotates the queue.\<close>

lemma rep_rotate:
  assumes "rep h xs" and "e \<in> set xs"
  shows "\<exists>h' h''. remove e h = Some h' \<and> insert_tail e h' = Some h'' \<and>
           rep h'' (remove1 e xs @ [e])"
proof -
  from assms obtain h' where h': "remove e h = Some h'" "rep h' (remove1 e xs)"
    by (rule rep_removeE)
  moreover have "e \<notin> set (remove1 e xs)"
    using rep_distinct [OF assms(1)] by simp
  ultimately show ?thesis using rep_insert_tail by blast
qed

end

interpretation ll: intrusive_list lrep LIST_INIT LIST_FIRST LIST_INSERT_HEAD LIST_REMOVE
  by unfold_locales
    (auto intro: lrep_distinct lrep_unique lrep_INSERT_HEAD lrep_REMOVE simp: lrep_FIRST)

interpretation tq: intrusive_queue tqrep TAILQ_INIT TAILQ_FIRST TAILQ_INSERT_HEAD TAILQ_REMOVE
  TAILQ_INSERT_TAIL
  by unfold_locales
    (auto intro: tqrep_distinct tqrep_unique tqrep_INSERT_HEAD tqrep_REMOVE tqrep_INSERT_TAIL
      simp: tqrep_FIRST)

end
