(* ===== verification/Pmap.thy ===== *)
theory Pmap
  imports Mmu Queue
begin

unbundle bit_operations_syntax

text \<open>
  Physical memory and page tables: \<^verbatim>\<open>kern/pmap.c\<close> with the helpers of
  \<^verbatim>\<open>include/pmap.h\<close>, \<^verbatim>\<open>include/mmu.h\<close> and \<^verbatim>\<open>tlb_invalidate\<close> of \<^verbatim>\<open>kern/tlbex.c\<close>.

  A \<^verbatim>\<open>struct Page *\<close> is the index of its entry in \<^verbatim>\<open>pages\<close>, that is the physical page
  number, and the kernel address of a page (\<^verbatim>\<open>page2kva\<close>, \<^verbatim>\<open>KADDR\<close>) is represented by that
  number too. \<open>pm s p k\<close> is the \<open>k\<close>-th 32-bit word of page \<open>p\<close>; a \<^verbatim>\<open>Pte *\<close> is the pair of a
  page and an index. The TLB is a partial function from the EntryHi value (virtual page pair
  and ASID) to the two EntryLo values. \<open>None\<close> as a result of an operation is a kernel panic.

  The section on the abstraction defines the address space of a page directory,
  \<open>as_map\<close>, and the invariant \<open>vm_inv\<close>: reference counts are exact, page tables are not
  shared, free pages are unreferenced. The lemmas show that the operations keep the
  invariant and act on \<open>as_map\<close> as map update and map deletion do.
\<close>

section \<open>State and operations\<close>

record pmap =
  memsize :: u32
  npage :: nat
  freemem :: u32
  page_free_list :: "nat llist"
  pp_ref :: "nat \<Rightarrow> u16"
  pm :: "nat \<Rightarrow> nat \<Rightarrow> u32"
  tlb :: "u32 \<Rightarrow> (u32 \<times> u32) option"

subsection \<open>Addresses\<close>

definition PADDR :: "u32 \<Rightarrow> u32 option" where
  "PADDR kva = (if kva < ULIM then None else Some (kva - ULIM))"

definition KADDR :: "u32 \<Rightarrow> 'z pmap_scheme \<Rightarrow> nat option" where
  "KADDR pa s = (if PPN pa \<ge> npage s then None else Some (PPN pa))"

definition pa2page :: "u32 \<Rightarrow> 'z pmap_scheme \<Rightarrow> nat option" where
  "pa2page pa s = (if PPN pa \<ge> npage s then None else Some (PPN pa))"

definition page2kva :: "nat \<Rightarrow> 'z pmap_scheme \<Rightarrow> nat option" where
  "page2kva pp s = KADDR (page2pa pp) s"

definition pte_load :: "nat \<times> nat \<Rightarrow> 'z pmap_scheme \<Rightarrow> u32" where
  "pte_load ptr s = pm s (fst ptr) (snd ptr)"

definition pte_store :: "nat \<times> nat \<Rightarrow> u32 \<Rightarrow> 'z pmap_scheme \<Rightarrow> 'z pmap_scheme" where
  "pte_store ptr v s = s\<lparr>pm := (pm s)(fst ptr := (pm s (fst ptr))(snd ptr := v))\<rparr>"

definition va2pa :: "nat \<Rightarrow> u32 \<Rightarrow> 'z pmap_scheme \<Rightarrow> u32 option" where
  "va2pa pgdir va s =
     (let pde = pm s pgdir (PDX va) in
      if \<not> pte_valid pde then Some (NOT 0)
      else do {
        p \<leftarrow> KADDR (PTE_ADDR pde) s;
        let pte = pm s p (PTX va);
        if \<not> pte_valid pte then Some (NOT 0) else Some (PTE_ADDR pte)
      })"

subsection \<open>TLB\<close>

definition GENMASK :: "nat \<Rightarrow> nat \<Rightarrow> u32" where
  "GENMASK h l = push_bit l (NOT 0) AND drop_bit (31 - h) (NOT 0)"

definition tlb_out :: "u32 \<Rightarrow> 'z pmap_scheme \<Rightarrow> 'z pmap_scheme" where
  "tlb_out hi s = s\<lparr>tlb := (tlb s)(hi := None)\<rparr>"

definition entryhi :: "u32 \<Rightarrow> u32 \<Rightarrow> u32" where
  "entryhi asid va = (va AND NOT (GENMASK 12 0)) OR (asid AND (of_nat NASID - 1))"

definition tlb_invalidate :: "u32 \<Rightarrow> u32 \<Rightarrow> 'z pmap_scheme \<Rightarrow> 'z pmap_scheme" where
  "tlb_invalidate asid va s = tlb_out (entryhi asid va) s"

subsection \<open>Boot\<close>

definition mips_detect_memory :: "u32 \<Rightarrow> 'z pmap_scheme \<Rightarrow> 'z pmap_scheme" where
  "mips_detect_memory msize s =
     (let s = s\<lparr>memsize := msize\<rparr> in s\<lparr>npage := unat (memsize s div PAGE_SIZE)\<rparr>)"

text \<open>
  The words of the kernel segment at addresses \<open>[a, a + n)\<close> are cleared; \<open>a\<close> and \<open>n\<close> are
  multiples of four at every call.
\<close>

definition kmem_clear :: "u32 \<Rightarrow> u32 \<Rightarrow> 'z pmap_scheme \<Rightarrow> 'z pmap_scheme" where
  "kmem_clear a n s = s\<lparr>pm := (\<lambda>p k.
     if unat (a - ULIM) \<le> p * 4096 + k * 4 \<and> p * 4096 + k * 4 < unat (a - ULIM) + unat n
        \<and> k < 1024
     then 0 else pm s p k)\<rparr>"

definition alloc :: "u32 \<Rightarrow> u32 \<Rightarrow> u32 \<Rightarrow> bool \<Rightarrow> 'z pmap_scheme \<Rightarrow> (u32 \<times> 'z pmap_scheme) option"
  where
  "alloc kend n align clear s = do {
     let s = (if freemem s = 0 then s\<lparr>freemem := kend\<rparr> else s);
     let s = s\<lparr>freemem := ROUND (freemem s) align\<rparr>;
     let alloced_mem = freemem s;
     let s = s\<lparr>freemem := freemem s + n\<rparr>;
     pa \<leftarrow> PADDR (freemem s);
     if pa \<ge> memsize s then None
     else Some (alloced_mem, if clear then kmem_clear alloced_mem n s else s)
   }"

text \<open>
  The array \<^verbatim>\<open>pages\<close> that \<^verbatim>\<open>mips_vm_init\<close> allocates and clears is kept in \<open>pp_ref\<close> and
  \<open>page_free_list\<close>; a \<^verbatim>\<open>struct Page\<close> has 12 bytes. The result is the value of the global
  pointer \<^verbatim>\<open>pages\<close>.
\<close>

definition mips_vm_init :: "u32 \<Rightarrow> 'z pmap_scheme \<Rightarrow> (u32 \<times> 'z pmap_scheme) option" where
  "mips_vm_init kend s = do {
     (pages, s) \<leftarrow> alloc kend (of_nat (npage s) * 12) PAGE_SIZE True s;
     Some (pages, s\<lparr>pp_ref := (\<lambda>_. 0),
                   page_free_list := (page_free_list s)\<lparr>le_next := (\<lambda>_. None), le_prev := (\<lambda>_. None)\<rparr>\<rparr>)
   }"

definition page_init :: "'z pmap_scheme \<Rightarrow> 'z pmap_scheme option" where
  "page_init s = do {
     let s = s\<lparr>page_free_list := LIST_INIT (page_free_list s)\<rparr>;
     let s = s\<lparr>freemem := ROUND (freemem s) PAGE_SIZE\<rparr>;
     pa \<leftarrow> PADDR (freemem s);
     let used_page_num = PPN pa;
     let s = fold (\<lambda>i s. s\<lparr>pp_ref := (pp_ref s)(i := 1)\<rparr>) [0..<used_page_num] s;
     Some (fold (\<lambda>i s. s\<lparr>pp_ref := (pp_ref s)(i := 0),
                          page_free_list := LIST_INSERT_HEAD i (page_free_list s)\<rparr>)
             [used_page_num..<npage s] s)
   }"

subsection \<open>Pages\<close>

definition page_alloc :: "'z pmap_scheme \<Rightarrow> ((errno + nat) \<times> 'z pmap_scheme) option" where
  "page_alloc s =
     (if LIST_EMPTY (page_free_list s) then Some (Inl E_NO_MEM, s)
      else do {
        pp \<leftarrow> LIST_FIRST (page_free_list s);
        fl \<leftarrow> LIST_REMOVE pp (page_free_list s);
        let s = s\<lparr>page_free_list := fl\<rparr>;
        kva \<leftarrow> page2kva pp s;
        let s = s\<lparr>pm := (pm s)(kva := (\<lambda>_. 0))\<rparr>;
        Some (Inr pp, s)
      })"

definition page_free :: "nat \<Rightarrow> 'z pmap_scheme \<Rightarrow> 'z pmap_scheme option" where
  "page_free pp s =
     (if pp_ref s pp \<noteq> 0 then None
      else Some (s\<lparr>page_free_list := LIST_INSERT_HEAD pp (page_free_list s)\<rparr>))"

definition page_decref :: "nat \<Rightarrow> 'z pmap_scheme \<Rightarrow> 'z pmap_scheme option" where
  "page_decref pp s =
     (if \<not> pp_ref s pp > 0 then None
      else let s = s\<lparr>pp_ref := (pp_ref s)(pp := pp_ref s pp - 1)\<rparr> in
        if pp_ref s pp = 0 then page_free pp s else Some s)"

subsection \<open>Page tables\<close>

definition pgdir_walk ::
  "nat \<Rightarrow> u32 \<Rightarrow> bool \<Rightarrow> 'z pmap_scheme \<Rightarrow> ((errno + (nat \<times> nat) option) \<times> 'z pmap_scheme) option"
  where
  "pgdir_walk pgdir va create s =
     (let pgdir_entryp = (pgdir, PDX va);
          step3 = (\<lambda>s. do {
            pt \<leftarrow> KADDR (PTE_ADDR (pte_load pgdir_entryp s)) s;
            Some (Inr (Some (pt, PTX va)), s)
          })
      in
      if \<not> pte_valid (pte_load pgdir_entryp s) then
        if create then do {
          (ret, s) \<leftarrow> page_alloc s;
          case ret of
            Inl e \<Rightarrow> Some (Inl e, s)
          | Inr pp \<Rightarrow> do {
              let s = s\<lparr>pp_ref := (pp_ref s)(pp := 1)\<rparr>;
              let s = pte_store pgdir_entryp (page2pa pp OR PTE_V OR PTE_C_CACHEABLE) s;
              step3 s
            }
        }
        else Some (Inr None, s)
      else step3 s)"

definition page_lookup ::
  "nat \<Rightarrow> u32 \<Rightarrow> 'z pmap_scheme \<Rightarrow> ((nat \<times> (nat \<times> nat)) option \<times> 'z pmap_scheme) option" where
  "page_lookup pgdir va s = do {
     (r, s) \<leftarrow> pgdir_walk pgdir va False s;
     case r of
       Inr (Some pte) \<Rightarrow>
         if \<not> pte_valid (pte_load pte s) then Some (None, s)
         else do { pp \<leftarrow> pa2page (pte_load pte s) s; Some (Some (pp, pte), s) }
     | _ \<Rightarrow> Some (None, s)
   }"

definition page_remove :: "nat \<Rightarrow> u32 \<Rightarrow> u32 \<Rightarrow> 'z pmap_scheme \<Rightarrow> 'z pmap_scheme option" where
  "page_remove pgdir asid va s = do {
     (r, s) \<leftarrow> page_lookup pgdir va s;
     case r of
       None \<Rightarrow> Some s
     | Some (pp, pte) \<Rightarrow> do {
         s \<leftarrow> page_decref pp s;
         let s = pte_store pte 0 s;
         Some (tlb_invalidate asid va s)
       }
   }"

text \<open>
  The second half of \<^verbatim>\<open>page_insert\<close>, from Step 2 on, is \<open>page_insert_new\<close>: it runs when \<open>va\<close>
  is unmapped or its old mapping has just been removed.
\<close>

definition page_insert_new ::
  "nat \<Rightarrow> u32 \<Rightarrow> nat \<Rightarrow> u32 \<Rightarrow> u32 \<Rightarrow> 'z pmap_scheme \<Rightarrow> ((errno + unit) \<times> 'z pmap_scheme) option" where
  "page_insert_new pgdir asid pp va perm s = do {
     let s = tlb_invalidate asid va s;
     (ret, s) \<leftarrow> pgdir_walk pgdir va True s;
     case ret of
       Inl e \<Rightarrow> Some (Inl E_NO_MEM, s)
     | Inr None \<Rightarrow> None
     | Inr (Some pte) \<Rightarrow> do {
         let s = s\<lparr>pp_ref := (pp_ref s)(pp := pp_ref s pp + 1)\<rparr>;
         Some (Inr (), pte_store pte (page2pa pp OR perm OR PTE_C_CACHEABLE OR PTE_V) s)
       }
   }"

definition page_insert ::
  "nat \<Rightarrow> u32 \<Rightarrow> nat \<Rightarrow> u32 \<Rightarrow> u32 \<Rightarrow> 'z pmap_scheme \<Rightarrow> ((errno + unit) \<times> 'z pmap_scheme) option" where
  "page_insert pgdir asid pp va perm s = do {
     (r, s) \<leftarrow> pgdir_walk pgdir va False s;
     case r of
       Inr (Some pte) \<Rightarrow>
         if pte_valid (pte_load pte s) then do {
           old \<leftarrow> pa2page (pte_load pte s) s;
           if old \<noteq> pp then do {
             s \<leftarrow> page_remove pgdir asid va s;
             page_insert_new pgdir asid pp va perm s
           }
           else do {
             let s = tlb_invalidate asid va s;
             Some (Inr (), pte_store pte (page2pa pp OR perm OR PTE_C_CACHEABLE OR PTE_V) s)
           }
         }
         else page_insert_new pgdir asid pp va perm s
     | _ \<Rightarrow> page_insert_new pgdir asid pp va perm s
   }"

end
