(* ===== verification/Pmap_Inv.thy ===== *)
theory Pmap_Inv
  imports Pmap
begin

unbundle bit_operations_syntax

text \<open>
  Correctness of \<^verbatim>\<open>kern/pmap.c\<close>: the abstract address space of a page directory, the
  invariant of the page allocator and the page tables, and what each operation of
  \<open>Pmap\<close> does to both. Directory slots below \<^verbatim>\<open>PDX(UTOP)\<close> belong to the user part of an
  address space; those above it are shared or self-mapped and are not touched by the
  operations for addresses below \<^verbatim>\<open>UTOP\<close>.
\<close>

section \<open>Abstraction\<close>

definition has_tab :: "'z pmap_scheme \<Rightarrow> nat \<Rightarrow> nat \<Rightarrow> bool" where
  "has_tab s d i \<longleftrightarrow> pte_valid (pm s d i)"

definition tab :: "'z pmap_scheme \<Rightarrow> nat \<Rightarrow> nat \<Rightarrow> nat" where
  "tab s d i = PPN (pm s d i)"

definition upte :: "'z pmap_scheme \<Rightarrow> nat \<Rightarrow> nat \<Rightarrow> nat \<Rightarrow> u32" where
  "upte s d i j = pm s (tab s d i) j"

text \<open>The user part of the address space of directory \<open>d\<close>: page indices to valid entries.\<close>

definition as_map :: "'z pmap_scheme \<Rightarrow> nat \<Rightarrow> nat \<times> nat \<Rightarrow> u32 option" where
  "as_map s d = (\<lambda>(i, j).
     if i < 509 \<and> j < 1024 \<and> has_tab s d i \<and> pte_valid (upte s d i j)
     then Some (upte s d i j) else None)"

definition vaddr :: "u32 \<Rightarrow> nat \<times> nat" where
  "vaddr va = (PDX va, PTX va)"

text \<open>The entries of the directories \<open>D\<close> that refer to page \<open>p\<close>, and the page tables in use.\<close>

definition maps :: "'z pmap_scheme \<Rightarrow> nat set \<Rightarrow> nat \<Rightarrow> (nat \<times> nat \<times> nat) set" where
  "maps s D p = {(d, i, j). d \<in> D \<and> (\<exists>e. as_map s d (i, j) = Some e \<and> PPN e = p)}"

definition tabs :: "'z pmap_scheme \<Rightarrow> nat set \<Rightarrow> nat set" where
  "tabs s D = {t. \<exists>d \<in> D. \<exists>i < 509. has_tab s d i \<and> tab s d i = t}"

definition tabs_ok :: "'z pmap_scheme \<Rightarrow> nat set \<Rightarrow> bool" where
  "tabs_ok s D \<longleftrightarrow>
     (\<forall>d \<in> D. \<forall>i < 509. has_tab s d i \<longrightarrow> tab s d i < npage s \<and> tab s d i \<notin> D) \<and>
     (\<forall>d \<in> D. \<forall>i < 509. \<forall>d' \<in> D. \<forall>i' < 509.
        has_tab s d i \<and> has_tab s d' i' \<and> tab s d i = tab s d' i' \<longrightarrow> d = d' \<and> i = i')"

text \<open>
  \<open>X p\<close> counts the references to page \<open>p\<close> that are not entries of user page tables or
  page tables themselves: directories, and what the kernel took at boot.
\<close>

definition refs_ok :: "'z pmap_scheme \<Rightarrow> nat set \<Rightarrow> (nat \<Rightarrow> nat) \<Rightarrow> bool" where
  "refs_ok s D X \<longleftrightarrow>
     (\<forall>p < npage s. unat (pp_ref s p) =
        card (maps s D p) + (if p \<in> tabs s D then 1 else 0) + X p)"

definition free_ok :: "'z pmap_scheme \<Rightarrow> nat list \<Rightarrow> bool" where
  "free_ok s xs \<longleftrightarrow> lrep (page_free_list s) xs \<and> (\<forall>p \<in> set xs. p < npage s \<and> pp_ref s p = 0)"

text \<open>
  Isolation: a page that some address space maps is not a page table, and is not one of the
  directories or kernel pages counted in \<open>X\<close>.
\<close>

definition isolated :: "'z pmap_scheme \<Rightarrow> nat set \<Rightarrow> (nat \<Rightarrow> nat) \<Rightarrow> bool" where
  "isolated s D X \<longleftrightarrow> (\<forall>p. maps s D p \<noteq> {} \<longrightarrow> X p = 0 \<and> p \<notin> tabs s D)"

definition vm_inv :: "'z pmap_scheme \<Rightarrow> nat set \<Rightarrow> (nat \<Rightarrow> nat) \<Rightarrow> nat list \<Rightarrow> bool" where
  "vm_inv s D X xs \<longleftrightarrow>
     npage s \<le> 2 ^ 20 \<and> finite D \<and> (\<forall>d \<in> D. d < npage s \<and> 0 < X d) \<and>
     tabs_ok s D \<and>
     (\<forall>d \<in> D. \<forall>ij e. as_map s d ij = Some e \<longrightarrow> PPN e < npage s) \<and>
     refs_ok s D X \<and> free_ok s xs \<and> isolated s D X"

section \<open>Consequences of the invariant\<close>

lemma finite_maps: "finite D \<Longrightarrow> finite (maps s D p)"
proof -
  assume "finite D"
  moreover have "maps s D p \<subseteq> D \<times> {..<509} \<times> {..<1024}"
    by (auto simp: maps_def as_map_def split: if_splits)
  ultimately show ?thesis by (meson finite_SigmaI finite_lessThan finite_subset)
qed

lemma vm_invD:
  assumes "vm_inv s D X xs"
  shows "npage s \<le> 2 ^ 20" "finite D" "d \<in> D \<Longrightarrow> d < npage s" "d \<in> D \<Longrightarrow> 0 < X d"
    "d \<in> D \<Longrightarrow> as_map s d ij = Some e \<Longrightarrow> PPN e < npage s"
    "lrep (page_free_list s) xs" "p \<in> set xs \<Longrightarrow> p < npage s" "p \<in> set xs \<Longrightarrow> pp_ref s p = 0"
    "p < npage s \<Longrightarrow> unat (pp_ref s p) = card (maps s D p) + (if p \<in> tabs s D then 1 else 0) + X p"
    "d \<in> D \<Longrightarrow> i < 509 \<Longrightarrow> has_tab s d i \<Longrightarrow> tab s d i < npage s"
    "d \<in> D \<Longrightarrow> i < 509 \<Longrightarrow> has_tab s d i \<Longrightarrow> tab s d i \<notin> D"
    "d \<in> D \<Longrightarrow> i < 509 \<Longrightarrow> d' \<in> D \<Longrightarrow> i' < 509 \<Longrightarrow> has_tab s d i \<Longrightarrow> has_tab s d' i' \<Longrightarrow>
       tab s d i = tab s d' i' \<Longrightarrow> d = d' \<and> i = i'"
    "maps s D p \<noteq> {} \<Longrightarrow> X p = 0" "maps s D p \<noteq> {} \<Longrightarrow> p \<notin> tabs s D"
  using assms unfolding vm_inv_def tabs_ok_def refs_ok_def free_ok_def isolated_def
  by (simp, simp, blast, blast, blast, simp, blast, blast, blast, blast, blast, blast, blast, blast)

text \<open>A free page is no directory, no page table and mapped nowhere.\<close>

lemma free_unused:
  assumes "vm_inv s D X xs" and "p \<in> set xs"
  shows "p \<notin> D" "p \<notin> tabs s D" "maps s D p = {}" "X p = 0"
proof -
  from assms have "unat (pp_ref s p) = 0" by (simp add: vm_invD(8))
  with vm_invD(9) [OF assms(1) vm_invD(7) [OF assms]]
  have z: "card (maps s D p) = 0" "p \<notin> tabs s D" "X p = 0"
    by (auto split: if_splits)
  then show "p \<notin> tabs s D" "X p = 0" by simp_all
  from z(3) vm_invD(4) [OF assms(1), of p] show "p \<notin> D" by auto
  from z(1) finite_maps [OF vm_invD(2) [OF assms(1)], of s p] show "maps s D p = {}" by simp
qed

lemma vaddr_user: "va < UTOP \<Longrightarrow> PDX va < 509"
  using PDX_less_UTOP by simp

lemma as_map_vaddr:
  "va < UTOP \<Longrightarrow> as_map s d (vaddr va) =
     (if has_tab s d (PDX va) \<and> pte_valid (upte s d (PDX va) (PTX va))
      then Some (upte s d (PDX va) (PTX va)) else None)"
  by (simp add: as_map_def vaddr_def vaddr_user)

section \<open>Writing one entry of a page table\<close>

lemma pte_store_simps [simp]:
  "pm (pte_store ptr v s) = (pm s)(fst ptr := (pm s (fst ptr))(snd ptr := v))"
  "npage (pte_store ptr v s) = npage s" "pp_ref (pte_store ptr v s) = pp_ref s"
  "page_free_list (pte_store ptr v s) = page_free_list s" "tlb (pte_store ptr v s) = tlb s"
  "pmap.more (pte_store ptr v s) = pmap.more s"
  by (simp_all add: pte_store_def)

lemma tlb_invalidate_simps [simp]:
  "pm (tlb_invalidate a va s) = pm s" "npage (tlb_invalidate a va s) = npage s"
  "pp_ref (tlb_invalidate a va s) = pp_ref s"
  "page_free_list (tlb_invalidate a va s) = page_free_list s"
  "pmap.more (tlb_invalidate a va s) = pmap.more s"
  by (simp_all add: tlb_invalidate_def tlb_out_def)

lemma tlb_tlb_invalidate [simp]: "tlb (tlb_invalidate a va s) = (tlb s)(entryhi a va := None)"
  by (simp add: tlb_invalidate_def tlb_out_def)

text \<open>
  Changing the entry \<open>(i, j)\<close> of one directory to \<open>v\<close> leaves the tables alone and changes
  exactly that entry of the address space.
\<close>

lemma store_tabs:
  assumes "tabs_ok s D" "d \<in> D" "i < 509" "has_tab s d i" "d' \<in> D"
  shows "has_tab (pte_store (tab s d i, j) v s) d' k = has_tab s d' k"
    "tab (pte_store (tab s d i, j) v s) d' k = tab s d' k"
proof -
  have "tab s d i \<noteq> d'" using assms unfolding tabs_ok_def by metis
  then show "has_tab (pte_store (tab s d i, j) v s) d' k = has_tab s d' k"
    "tab (pte_store (tab s d i, j) v s) d' k = tab s d' k"
    by (simp_all add: has_tab_def tab_def)
qed

lemma store_as_map:
  assumes "tabs_ok s D" "d \<in> D" "i < 509" "j < 1024" "has_tab s d i" "d' \<in> D"
  shows "as_map (pte_store (tab s d i, j) v s) d' =
    (if d' = d then (as_map s d)((i, j) := if pte_valid v then Some v else None) else as_map s d')"
proof (rule ext)
  fix ij :: "nat \<times> nat"
  obtain i' j' where ij: "ij = (i', j')" by (cases ij)
  note st = store_tabs [OF assms(1-3,5,6), of j v]
  have up: "upte (pte_store (tab s d i, j) v s) d' i' j' =
      (if tab s d' i' = tab s d i \<and> j' = j then v else upte s d' i' j')"
    by (simp add: upte_def st)
  have eq: "tab s d' i' = tab s d i \<longleftrightarrow> d' = d \<and> i' = i" if "i' < 509" "has_tab s d' i'"
    using assms that unfolding tabs_ok_def by metis
  show "as_map (pte_store (tab s d i, j) v s) d' ij =
    (if d' = d then (as_map s d)((i, j) := if pte_valid v then Some v else None) else as_map s d') ij"
  proof (cases "i' < 509 \<and> has_tab s d' i'")
    case True
    then show ?thesis
      using assms(3-5) eq up st(1) [of i']
      by (cases "d' = d"; cases "i' = i"; cases "j' = j") (simp_all add: ij as_map_def)
  next
    case False
    then show ?thesis using assms(3,5) by (auto simp: ij as_map_def st)
  qed
qed

lemma store_maps:
  assumes "tabs_ok s D" "d \<in> D" "i < 509" "j < 1024" "has_tab s d i"
  shows "maps (pte_store (tab s d i, j) v s) D p =
    (if pte_valid v \<and> PPN v = p then insert (d, i, j) (maps s D p) else maps s D p - {(d, i, j)})"
  using assms(2) by (auto simp: maps_def store_as_map [OF assms] split: if_splits)

lemma store_tabs_set:
  assumes "tabs_ok s D" "d \<in> D" "i < 509" "has_tab s d i"
  shows "tabs (pte_store (tab s d i, j) v s) D = tabs s D"
  unfolding tabs_def by (rule Collect_cong) (simp add: store_tabs [OF assms] cong: bex_cong)

lemma store_tabs_ok:
  assumes "tabs_ok s D" "d \<in> D" "i < 509" "has_tab s d i"
  shows "tabs_ok (pte_store (tab s d i, j) v s) D"
  unfolding tabs_ok_def
  using assms(1) [unfolded tabs_ok_def]
  by (simp add: store_tabs [OF assms] del: pte_store_simps(1) cong: ball_cong)

text \<open>These notions only depend on the words of memory and the number of pages.\<close>

lemma as_map_cong: "pm s' = pm s \<Longrightarrow> as_map s' d = as_map s d"
  by (simp add: as_map_def has_tab_def upte_def tab_def fun_eq_iff)

lemma maps_cong:
  assumes "pm s' = pm s"
  shows "maps s' D p = maps s D p"
  by (simp add: maps_def as_map_cong [OF assms])

lemma tabs_cong: "pm s' = pm s \<Longrightarrow> tabs s' D = tabs s D"
  by (simp add: tabs_def has_tab_def tab_def)

lemma tabs_ok_cong:
  assumes "pm s' = pm s" and "npage s' = npage s"
  shows "tabs_ok s' D = tabs_ok s D"
  unfolding tabs_ok_def has_tab_def tab_def assms by (rule refl)

lemma vm_inv_cong:
  assumes "pm s' = pm s" "npage s' = npage s" "pp_ref s' = pp_ref s"
    "page_free_list s' = page_free_list s"
  shows "vm_inv s' D X xs = vm_inv s D X xs"
  using assms as_map_cong [OF assms(1)] maps_cong [OF assms(1)] tabs_cong [OF assms(1)]
    tabs_ok_cong [OF assms(1,2)]
  by (simp add: vm_inv_def refs_ok_def free_ok_def isolated_def)

lemma vm_inv_tlb [simp]: "vm_inv (tlb_invalidate a va s) D X xs = vm_inv s D X xs"
  by (rule vm_inv_cong) simp_all

lemma as_map_tlb [simp]: "as_map (tlb_invalidate a va s) = as_map s"
  by (rule ext) (rule as_map_cong, simp)

end
