(* ===== verification/Pmap_Ops.thy ===== *)
theory Pmap_Ops
  imports Pmap_Inv
begin

unbundle bit_operations_syntax

text \<open>
  What the operations of \<^verbatim>\<open>kern/pmap.c\<close> do, stated over the abstract address spaces
  \<open>as_map\<close> and the invariant \<open>vm_inv\<close>: lookup reads the map, removal deletes one key,
  insertion updates one key, no other address space changes, and the reference counts and
  the free list stay exact.
\<close>

section \<open>Page allocation\<close>

lemma KADDR_page: "p < npage s \<Longrightarrow> npage s \<le> 2 ^ 20 \<Longrightarrow> page2kva p s = Some p"
  using PPN_page2pa_or [of p 0] by (simp add: page2kva_def KADDR_def)

lemma pa2page_eq: "PPN e < npage s \<Longrightarrow> pa2page e s = Some (PPN e)"
  by (simp add: pa2page_def)

text \<open>Overwriting a page that is no directory and no table is invisible.\<close>

lemma clear_unused:
  assumes "p \<notin> D" "p \<notin> tabs s D"
  shows "d \<in> D \<Longrightarrow> has_tab (s\<lparr>pm := (pm s)(p := f)\<rparr>) d i = has_tab s d i"
    "d \<in> D \<Longrightarrow> tab (s\<lparr>pm := (pm s)(p := f)\<rparr>) d i = tab s d i"
    "d \<in> D \<Longrightarrow> as_map (s\<lparr>pm := (pm s)(p := f)\<rparr>) d = as_map s d"
proof -
  show 1: "has_tab (s\<lparr>pm := (pm s)(p := f)\<rparr>) d i = has_tab s d i"
    "tab (s\<lparr>pm := (pm s)(p := f)\<rparr>) d i = tab s d i" if "d \<in> D" for d i
    using that assms(1) by (auto simp: has_tab_def tab_def)
  have "upte (s\<lparr>pm := (pm s)(p := f)\<rparr>) d i j = upte s d i j"
    if "d \<in> D" "i < 509" "has_tab s d i" for i j
  proof -
    have "tab s d i \<noteq> p" using that assms(2) by (auto simp: tabs_def)
    then show ?thesis by (simp add: upte_def 1(2) [OF that(1)])
  qed
  then show "as_map (s\<lparr>pm := (pm s)(p := f)\<rparr>) d = as_map s d" if "d \<in> D"
    using that by (intro ext) (auto simp: as_map_def 1)
qed

lemma tabs_eqI:
  assumes "\<And>d i. d \<in> D \<Longrightarrow> i < 509 \<Longrightarrow> has_tab s' d i = has_tab s d i"
    "\<And>d i. d \<in> D \<Longrightarrow> i < 509 \<Longrightarrow> has_tab s d i \<Longrightarrow> tab s' d i = tab s d i"
  shows "tabs s' D = tabs s D"
  unfolding tabs_def by (rule Collect_cong) (use assms in metis)

lemma tabs_ok_eqI:
  assumes "\<And>d i. d \<in> D \<Longrightarrow> i < 509 \<Longrightarrow> has_tab s' d i = has_tab s d i"
    "\<And>d i. d \<in> D \<Longrightarrow> i < 509 \<Longrightarrow> has_tab s d i \<Longrightarrow> tab s' d i = tab s d i"
    "npage s' = npage s" "tabs_ok s D"
  shows "tabs_ok s' D"
  using assms(4) unfolding tabs_ok_def assms(3) using assms(1,2) by metis

lemma maps_eqI:
  assumes "\<And>d. d \<in> D \<Longrightarrow> as_map s' d = as_map s d"
  shows "maps s' D p = maps s D p"
  unfolding maps_def using assms by auto

text \<open>
  The invariant from its parts, when the address spaces and the tables are those of another
  state in which it holds.
\<close>

lemma vm_inv_eqI:
  assumes "vm_inv s D X xs"
    "\<And>d i. d \<in> D \<Longrightarrow> i < 509 \<Longrightarrow> has_tab s' d i = has_tab s d i"
    "\<And>d i. d \<in> D \<Longrightarrow> i < 509 \<Longrightarrow> has_tab s d i \<Longrightarrow> tab s' d i = tab s d i"
    "\<And>d. d \<in> D \<Longrightarrow> as_map s' d = as_map s d"
    "npage s' = npage s" "pp_ref s' = pp_ref s" "free_ok s' ys"
  shows "vm_inv s' D X ys"
proof -
  have 1: "tabs s' D = tabs s D" by (rule tabs_eqI) (use assms(2,3) in auto)
  have 2: "maps s' D p = maps s D p" for p by (rule maps_eqI) (use assms(4) in auto)
  have 3: "tabs_ok s' D"
    by (rule tabs_ok_eqI [OF assms(2,3,5)]) (use assms(1) in \<open>auto simp: vm_inv_def\<close>)
  show ?thesis
    using assms(1,4-7) 1 2 3 by (simp add: vm_inv_def refs_ok_def isolated_def)
qed

lemma page_alloc_empty: "vm_inv s D X [] \<Longrightarrow> page_alloc s = Some (Inl E_NO_MEM, s)"
  using lrep_EMPTY [OF vm_invD(6), of s D X "[]"] by (simp add: page_alloc_def)

lemma page_alloc_ok:
  assumes "vm_inv s D X (p # xs)"
  obtains fl where
    "page_alloc s = Some (Inr p, s\<lparr>page_free_list := fl, pm := (pm s)(p := (\<lambda>_. 0))\<rparr>)"
    "lrep fl xs"
proof -
  note l = vm_invD(6) [OF assms]
  obtain fl where fl: "LIST_REMOVE p (page_free_list s) = Some fl" "lrep fl xs"
    using lrep_REMOVE [of "page_free_list s" "[]" p xs] l by auto
  have "page2kva p (s\<lparr>page_free_list := fl\<rparr>) = Some p"
    using vm_invD(1,7) [OF assms] by (intro KADDR_page) simp_all
  with fl l show thesis
    by (intro that [of fl]) (simp_all add: page_alloc_def lrep_EMPTY lrep_FIRST)
qed

lemma page_alloc_inv:
  assumes "vm_inv s D X xs" and "page_alloc s = Some (r, s')"
  shows "(case r of Inl e \<Rightarrow> e = E_NO_MEM \<and> xs = [] \<and> s' = s
     | Inr p \<Rightarrow> (\<exists>ys. xs = p # ys \<and> vm_inv s' D X ys) \<and> pm s' p = (\<lambda>_. 0) \<and> pp_ref s' p = 0) \<and>
     (\<forall>d \<in> D. as_map s' d = as_map s d) \<and> npage s' = npage s \<and> pp_ref s' = pp_ref s \<and>
     tlb s' = tlb s \<and> pmap.more s' = pmap.more s"
proof (cases xs)
  case Nil
  with assms show ?thesis using page_alloc_empty by fastforce
next
  case (Cons p ys)
  with assms(1) obtain fl where fl: "page_alloc s =
      Some (Inr p, s\<lparr>page_free_list := fl, pm := (pm s)(p := (\<lambda>_. 0))\<rparr>)" "lrep fl ys"
    by (auto elim: page_alloc_ok)
  note u = free_unused [OF assms(1), of p]
  let ?s = "s\<lparr>page_free_list := fl\<rparr>"
  have t: "tabs ?s D = tabs s D" "as_map ?s d = as_map s d" for d
    by (rule tabs_cong, simp) (rule as_map_cong, simp)
  note c = clear_unused [of p D ?s, where f = "\<lambda>_. 0", unfolded t, simplified]
  have "free_ok s' ys" using fl assms vm_invD(7,8) [OF assms(1)] Cons
    by (auto simp: free_ok_def)
  then have "vm_inv s' D X ys"
    using fl(1) assms(2) u Cons
    by (intro vm_inv_eqI [OF assms(1)]) (auto simp: c has_tab_def tab_def)
  with fl assms(2) Cons u vm_invD(8) [OF assms(1), of p] show ?thesis by (auto simp: c)
qed

section \<open>Page tables\<close>

lemma free_distinct: "vm_inv s D X (p # xs) \<Longrightarrow> p \<notin> set xs"
  using lrep_distinct [OF vm_invD(6), of s D X "p # xs"] by simp

text \<open>
  A fresh page becomes the table of an empty directory slot: \<open>s'\<close> has one more table, \<open>p\<close>,
  in slot \<open>i\<close> of \<open>d\<close>.
\<close>

definition adds_tab :: "'z pmap_scheme \<Rightarrow> 'z pmap_scheme \<Rightarrow> nat set \<Rightarrow> nat \<Rightarrow> nat \<Rightarrow> nat \<Rightarrow> bool" where
  "adds_tab s s' D d i p \<longleftrightarrow>
     (\<forall>d' \<in> D. \<forall>i'. (has_tab s' d' i' \<longleftrightarrow> has_tab s d' i' \<or> (d' = d \<and> i' = i)) \<and>
        tab s' d' i' = (if d' = d \<and> i' = i then p else tab s d' i'))"

lemma adds_tabD:
  assumes "adds_tab s s' D d i p" "d' \<in> D"
  shows "has_tab s' d' i' \<longleftrightarrow> has_tab s d' i' \<or> (d' = d \<and> i' = i)"
    "tab s' d' i' = (if d' = d \<and> i' = i then p else tab s d' i')"
  using assms by (auto simp: adds_tab_def)

lemma tabs_memI: "d \<in> D \<Longrightarrow> i < 509 \<Longrightarrow> has_tab s d i \<Longrightarrow> tab s d i \<in> tabs s D"
  unfolding tabs_def by blast

lemma tabs_memE:
  assumes "t \<in> tabs s D"
  obtains d i where "d \<in> D" "i < 509" "has_tab s d i" "t = tab s d i"
  using assms unfolding tabs_def by blast

lemma adds_tab_tabs:
  assumes a: "adds_tab s s' D d i p" and d: "d \<in> D" "i < 509" "\<not> has_tab s d i"
  shows "tabs s' D = insert p (tabs s D)"
proof (intro set_eqI iffI)
  fix t assume "t \<in> tabs s' D"
  then obtain d' i' where 1: "d' \<in> D" "i' < 509" "has_tab s' d' i'" "t = tab s' d' i'"
    by (rule tabs_memE)
  then show "t \<in> insert p (tabs s D)"
    using adds_tabD [OF a 1(1), of i'] by (auto intro: tabs_memI)
next
  fix t assume "t \<in> insert p (tabs s D)"
  then consider "t = p" | "t \<in> tabs s D" by blast
  then show "t \<in> tabs s' D"
  proof cases
    case 1
    then show ?thesis using tabs_memI [OF d(1,2), of s'] adds_tabD [OF a d(1), of i] by simp
  next
    case 2
    then obtain d' i' where 2: "d' \<in> D" "i' < 509" "has_tab s d' i'" "t = tab s d' i'"
      by (rule tabs_memE)
    then show ?thesis
      using tabs_memI [OF 2(1,2), of s'] adds_tabD [OF a 2(1), of i'] d(3) by (auto split: if_splits)
  qed
qed

lemma adds_tab_ok:
  assumes a: "adds_tab s s' D d i p" and ok: "tabs_ok s D" "npage s' = npage s"
    and p: "p < npage s" "p \<notin> D" "p \<notin> tabs s D"
  shows "tabs_ok s' D"
  unfolding tabs_ok_def
proof (intro conjI ballI allI impI; (elim conjE)?)
  fix d' i' assume h: "d' \<in> D" "i' < 509" "has_tab s' d' i'"
  then show "tab s' d' i' < npage s'" "tab s' d' i' \<notin> D"
    using adds_tabD [OF a h(1), of i'] ok p unfolding tabs_ok_def by auto
next
  fix d1 i1 d2 i2
  assume h: "d1 \<in> D" "i1 < 509" "d2 \<in> D" "i2 < 509" "has_tab s' d1 i1" "has_tab s' d2 i2"
    "tab s' d1 i1 = tab s' d2 i2"
  have "p \<noteq> tab s d' i'" if "d' \<in> D" "i' < 509" "has_tab s d' i'" for d' i'
    using p(3) tabs_memI [OF that] by metis
  with h have "d1 = d2 \<and> i1 = i2"
    using adds_tabD [OF a h(1), of i1] adds_tabD [OF a h(3), of i2] ok(1) unfolding tabs_ok_def
    by (metis (no_types, lifting))
  then show "d1 = d2" "i1 = i2" by auto
qed

lemma adds_tab_as_map:
  assumes a: "adds_tab s s' D d i p" and ok: "tabs_ok s D" "d \<in> D" "\<not> has_tab s d i"
    and p: "p \<notin> tabs s D" "pm s' p = (\<lambda>_. 0)"
    and same: "\<And>q. q \<noteq> p \<Longrightarrow> q \<notin> D \<Longrightarrow> pm s' q = pm s q" and d': "d' \<in> D"
  shows "as_map s' d' = as_map s d'"
proof (rule ext)
  fix ij :: "nat \<times> nat"
  obtain i' j where ij: "ij = (i', j)" by (cases ij)
  show "as_map s' d' ij = as_map s d' ij"
  proof (cases "d' = d \<and> i' = i")
    case True
    then show ?thesis using ok(3) adds_tabD [OF a d'] p by (simp add: ij as_map_def upte_def)
  next
    case False
    have "upte s' d' i' j = upte s d' i' j" if "i' < 509" "has_tab s d' i'"
    proof -
      have "tab s d' i' \<noteq> p" "tab s d' i' \<notin> D"
        using p(1) tabs_memI [OF d' that] ok(1) d' that unfolding tabs_ok_def by metis+
      then show ?thesis using same adds_tabD(2) [OF a d', of i'] False by (simp add: upte_def)
    qed
    with False adds_tabD(1) [OF a d', of i'] show ?thesis by (auto simp: ij as_map_def)
  qed
qed

lemma new_table:
  fixes s s' :: "'z pmap_scheme"
  assumes inv: "vm_inv s D X (p # xs)" and d: "d \<in> D" "i < 509" "\<not> has_tab s d i"
    and s': "npage s' = npage s" "pp_ref s' = (pp_ref s)(p := 1)"
      "pm s' = (pm s)(p := (\<lambda>_. 0), d := (pm s d)(i := page2pa p OR PTE_V OR PTE_C_CACHEABLE))"
      "lrep (page_free_list s') xs"
  shows "vm_inv s' D X xs" "has_tab s' d i" "tab s' d i = p"
    "d' \<in> D \<Longrightarrow> as_map s' d' = as_map s d'"
proof -
  note u = free_unused [OF inv, of p, simplified]
  have p: "p < npage s" "p < 2 ^ 20" using vm_invD(1) [OF inv] vm_invD(7) [OF inv, of p] by auto
  have pd: "p \<noteq> d'" if "d' \<in> D" for d' using u(1) that by auto
  have a: "adds_tab s s' D d i p"
    unfolding adds_tab_def
  proof (intro ballI allI)
    fix d' i' assume "d' \<in> D"
    from pd [OF this] p(2)
    show "(has_tab s' d' i' \<longleftrightarrow> has_tab s d' i' \<or> (d' = d \<and> i' = i)) \<and>
        tab s' d' i' = (if d' = d \<and> i' = i then p else tab s d' i')"
      by (auto simp: has_tab_def tab_def s' PPN_page2pa_or or_less_4096)
  qed
  from inv have ok: "tabs_ok s D" by (simp add: vm_inv_def)
  show "has_tab s' d i" "tab s' d i = p" using adds_tabD [OF a d(1)] by auto
  have am: "as_map s' d' = as_map s d'" if "d' \<in> D" for d'
    by (rule adds_tab_as_map [OF a ok d(1,3) u(2)]) (use d(1) pd that in \<open>auto simp: s'\<close>)
  show "d' \<in> D \<Longrightarrow> as_map s' d' = as_map s d'" by (rule am)
  have mp: "maps s' D q = maps s D q" for q by (rule maps_eqI) (rule am)
  have "refs_ok s' D X"
    using vm_invD(9) [OF inv] u by (auto simp: refs_ok_def s' mp adds_tab_tabs [OF a d])
  moreover have "free_ok s' xs"
    using vm_invD(7,8) [OF inv] free_distinct [OF inv] by (auto simp: free_ok_def s')
  moreover have "isolated s' D X"
    using inv u(3) by (auto simp: vm_inv_def isolated_def mp adds_tab_tabs [OF a d])
  ultimately show "vm_inv s' D X xs"
    using inv adds_tab_ok [OF a ok s'(1) p(1) u(1,2)] am by (simp add: vm_inv_def s'(1))
qed

text \<open>\<open>pgdir_walk\<close> without and with \<open>create\<close>.\<close>

lemma pgdir_walk_find:
  assumes "vm_inv s D X xs" "d \<in> D" "va < UTOP"
  shows "pgdir_walk d va False s =
    Some (Inr (if has_tab s d (PDX va) then Some (tab s d (PDX va), PTX va) else None), s)"
  using vm_invD(10) [OF assms(1,2), of "PDX va"] vaddr_user [OF assms(3)]
  by (auto simp add: pgdir_walk_def Let_def pte_load_def has_tab_def tab_def KADDR_def)

lemma pgdir_walk_present:
  assumes "vm_inv s D X xs" "d \<in> D" "va < UTOP" "has_tab s d (PDX va)"
  shows "pgdir_walk d va c s = Some (Inr (Some (tab s d (PDX va), PTX va)), s)"
  using vm_invD(10) [OF assms(1,2), of "PDX va"] vaddr_user [OF assms(3)] assms(4)
  by (simp add: pgdir_walk_def Let_def pte_load_def has_tab_def tab_def KADDR_def)

lemma pgdir_walk_create_fail:
  assumes "vm_inv s D X []" "\<not> has_tab s d (PDX va)"
  shows "pgdir_walk d va True s = Some (Inl E_NO_MEM, s)"
  using assms page_alloc_empty [OF assms(1)]
  by (simp add: pgdir_walk_def pte_load_def has_tab_def)

lemma pgdir_walk_create:
  assumes inv: "vm_inv s D X (p # xs)" and d: "d \<in> D" "va < UTOP" "\<not> has_tab s d (PDX va)"
  obtains s' where "pgdir_walk d va True s = Some (Inr (Some (p, PTX va)), s')"
    "vm_inv s' D X xs" "has_tab s' d (PDX va)" "tab s' d (PDX va) = p"
    "\<And>d'. d' \<in> D \<Longrightarrow> as_map s' d' = as_map s d'" "npage s' = npage s" "tlb s' = tlb s"
    "pp_ref s' = (pp_ref s)(p := 1)" "pmap.more s' = pmap.more s"
proof -
  obtain fl where fl: "page_alloc s =
      Some (Inr p, s\<lparr>page_free_list := fl, pm := (pm s)(p := (\<lambda>_. 0))\<rparr>)" "lrep fl xs"
    using page_alloc_ok [OF inv] by blast
  have p: "p < npage s" "p < 2 ^ 20" "p \<noteq> d"
    using vm_invD(1) [OF inv] vm_invD(7) [OF inv, of p] free_unused(1) [OF inv, of p] d(1) by auto
  let ?s = "pte_store (d, PDX va) (page2pa p OR PTE_V OR PTE_C_CACHEABLE)
    (s\<lparr>page_free_list := fl, pm := (pm s)(p := (\<lambda>_. 0)), pp_ref := (pp_ref s)(p := 1)\<rparr>)"
  note n = new_table [OF inv d(1) vaddr_user [OF d(2)] d(3), of ?s]
  have 1: "pgdir_walk d va True s = Some (Inr (Some (p, PTX va)), ?s)"
    using fl d(3) p
    by (simp add: pgdir_walk_def Let_def pte_load_def has_tab_def KADDR_def PPN_page2pa_or or_less_4096)
  show thesis
    by (rule that [OF 1 n(1-4)]) (use fl p in \<open>simp_all add: fun_upd_twist\<close>)
qed

text \<open>\<^verbatim>\<open>page_lookup\<close> reads the address space.\<close>

lemma page_lookup_eq:
  assumes "vm_inv s D X xs" "d \<in> D" "va < UTOP"
  shows "page_lookup d va s =
    Some (map_option (\<lambda>e. (PPN e, (tab s d (PDX va), PTX va))) (as_map s d (vaddr va)), s)"
proof (cases "as_map s d (vaddr va)")
  case None
  with assms show ?thesis
    by (auto simp: page_lookup_def pgdir_walk_find [OF assms] as_map_vaddr pte_load_def upte_def
        split: if_splits)
next
  case (Some e)
  with assms vm_invD(5) [OF assms(1,2) Some] show ?thesis
    by (auto simp: page_lookup_def pgdir_walk_find [OF assms] as_map_vaddr pte_load_def upte_def
        pa2page_eq split: if_splits)
qed

section \<open>Changing one mapping\<close>

text \<open>Whether the entry of page \<open>(i, j)\<close> refers to page \<open>q\<close>, as a number.\<close>

definition points :: "u32 option \<Rightarrow> nat \<Rightarrow> nat" where
  "points oe q = (case oe of None \<Rightarrow> 0 | Some e \<Rightarrow> if PPN e = q then 1 else 0)"

lemma points_None [simp]: "points None q = 0"
  by (simp add: points_def)

lemma maps_mem: "d \<in> D \<Longrightarrow> (d, i, j) \<in> maps s D q \<longleftrightarrow> points (as_map s d (i, j)) q = 1"
  by (auto simp: maps_def points_def split: option.splits)

lemma store_maps_card:
  assumes "tabs_ok s D" "finite D" "d \<in> D" "i < 509" "j < 1024" "has_tab s d i"
  shows "card (maps (pte_store (tab s d i, j) v s) D q) + points (as_map s d (i, j)) q =
    card (maps s D q) + points (if pte_valid v then Some v else None) q"
proof -
  note f = finite_maps [OF assms(2), of s q]
  have "card (maps s D q) = card (maps s D q - {(d, i, j)}) + points (as_map s d (i, j)) q"
  proof (cases "(d, i, j) \<in> maps s D q")
    case True
    then show ?thesis using maps_mem [OF assms(3), of i j s q] card_Suc_Diff1 [OF f True] by simp
  next
    case False
    moreover have "points (as_map s d (i, j)) q = 0"
      using maps_mem [OF assms(3), of i j s q] False by (auto simp: points_def split: option.splits if_splits)
    ultimately show ?thesis by simp
  qed
  moreover have "card (insert (d, i, j) (maps s D q)) = Suc (card (maps s D q - {(d, i, j)}))"
    using f by (simp add: card.insert_remove)
  ultimately show ?thesis
    using store_maps [OF assms(1,3-6), of v q] by (auto simp: points_def)
qed

text \<open>
  The common part of mapping, unmapping and changing permissions: one entry is written, and
  the reference counts follow it.
\<close>

lemma store_inv:
  fixes s s' :: "'z pmap_scheme"
  assumes inv: "vm_inv s D X xs" and d: "d \<in> D" "i < 509" "j < 1024" "has_tab s d i"
    and s': "pm s' = pm (pte_store (tab s d i, j) v s)" "npage s' = npage s"
    and v: "pte_valid v \<Longrightarrow> PPN v < npage s \<and> X (PPN v) = 0 \<and> PPN v \<notin> tabs s D"
    and r: "\<And>q. q < npage s \<Longrightarrow> unat (pp_ref s' q) + points (as_map s d (i, j)) q =
        unat (pp_ref s q) + points (if pte_valid v then Some v else None) q"
    and fl: "free_ok s' ys"
  shows "vm_inv s' D X ys"
    "d' \<in> D \<Longrightarrow> as_map s' d' =
       (if d' = d then (as_map s d)((i, j) := if pte_valid v then Some v else None) else as_map s d')"
proof -
  let ?s = "pte_store (tab s d i, j) v s"
  from inv have ok: "tabs_ok s D" by (simp add: vm_inv_def)
  have am: "as_map s' d' =
     (if d' = d then (as_map s d)((i, j) := if pte_valid v then Some v else None) else as_map s d')"
    if "d' \<in> D" for d'
    using store_as_map [OF ok d that, of v] as_map_cong [OF s'(1), of d'] by simp
  show "d' \<in> D \<Longrightarrow> as_map s' d' =
       (if d' = d then (as_map s d)((i, j) := if pte_valid v then Some v else None) else as_map s d')"
    by (rule am)
  have "tabs_ok s' D"
    using store_tabs_ok [OF ok d(1,2,4), of j v] tabs_ok_cong [OF s'(1)] s'(2) by simp
  moreover have t: "tabs s' D = tabs s D"
    using store_tabs_set [OF ok d(1,2,4), of j v] tabs_cong [OF s'(1)] by simp
  moreover have "refs_ok s' D X"
    unfolding refs_ok_def
  proof (intro allI impI)
    fix q assume "q < npage s'"
    then have q: "q < npage s" using s'(2) by simp
    show "unat (pp_ref s' q) = card (maps s' D q) + (if q \<in> tabs s' D then 1 else 0) + X q"
      using store_maps_card [OF ok vm_invD(2) [OF inv] d, of v q] r [OF q] vm_invD(9) [OF inv q]
        maps_cong [OF s'(1), of D q] t by simp
  qed
  moreover have "\<forall>d' \<in> D. \<forall>ij e. as_map s' d' ij = Some e \<longrightarrow> PPN e < npage s'"
    using am vm_invD(5) [OF inv] v s'(2) d(1) by (auto split: if_splits)
  moreover have "isolated s' D X"
  proof -
    have "(pte_valid v \<and> PPN v = q) \<or> maps s D q \<noteq> {}" if ne: "maps s' D q \<noteq> {}" for q
    proof (cases "pte_valid v \<and> PPN v = q")
      case False
      then have "maps s' D q = maps s D q - {(d, i, j)}"
        using store_maps [OF ok d, of v q] maps_cong [OF s'(1), of D q] by (auto simp only: if_False)
      with ne show ?thesis by blast
    qed simp
    then show ?thesis
      unfolding isolated_def t using v vm_invD(13,14) [OF inv] by blast
  qed
  ultimately show "vm_inv s' D X ys"
    using inv fl by (simp add: vm_inv_def s'(2))
qed

lemma mapped_ref:
  assumes "vm_inv s D X xs" "d \<in> D" "as_map s d ij = Some e"
  shows "0 < unat (pp_ref s (PPN e))" "PPN e \<notin> set xs"
proof -
  obtain i j where ij: "ij = (i, j)" by (cases ij)
  have m: "(d, i, j) \<in> maps s D (PPN e)"
    using maps_mem [OF assms(2), of i j s] assms(3) by (simp add: ij points_def)
  then have "0 < card (maps s D (PPN e))"
    using finite_maps [OF vm_invD(2) [OF assms(1)]] by (auto simp: card_gt_0_iff)
  then show "0 < unat (pp_ref s (PPN e))"
    using vm_invD(9) [OF assms(1) vm_invD(5) [OF assms]] by simp
  then show "PPN e \<notin> set xs" using vm_invD(8) [OF assms(1), of "PPN e"] by auto
qed

lemma as_map_has_tab:
  "as_map s d (i, j) = Some e \<Longrightarrow> has_tab s d i \<and> i < 509 \<and> j < 1024 \<and> pte_valid e"
  by (auto simp: as_map_def split: if_splits)


section \<open>Removing a mapping\<close>

lemma page_decref_ok:
  assumes l: "lrep (page_free_list s) xs" and p: "0 < unat (pp_ref s p)" "p \<notin> set xs"
  obtains fl where
    "page_decref p s = Some (s\<lparr>pp_ref := (pp_ref s)(p := pp_ref s p - 1), page_free_list := fl\<rparr>)"
    "lrep fl (if unat (pp_ref s p) = 1 then p # xs else xs)"
proof -
  have pos: "pp_ref s p > 0" using p(1) by (simp add: word_less_nat_alt)
  have z: "pp_ref s p - 1 = 0 \<longleftrightarrow> unat (pp_ref s p) = 1"
    by (metis (no_types, lifting) eq_iff_diff_eq_0 unat_1 word_unat_eq_iff)
  let ?fl = "if unat (pp_ref s p) = 1 then LIST_INSERT_HEAD p (page_free_list s) else page_free_list s"
  have "page_decref p s =
      Some (s\<lparr>pp_ref := (pp_ref s)(p := pp_ref s p - 1), page_free_list := ?fl\<rparr>)"
    using pos z by (simp add: page_decref_def page_free_def)
  then show thesis
    using l p(2) by (intro that [of ?fl]) (simp_all add: lrep_INSERT_HEAD)
qed

lemma unat_minus_1: "0 < unat (w :: 'a::len word) \<Longrightarrow> unat (w - 1) = unat w - 1"
  by (metis Suc_pred' unat_minus_one unsigned_0 less_irrefl One_nat_def)

lemma unat_eq_Suc_0: "unat (w :: 'a::len word) = Suc 0 \<longleftrightarrow> w = 1"
  by (metis One_nat_def unat_1 word_unat_eq_iff)

lemma page_remove_absent:
  assumes "vm_inv s D X xs" "d \<in> D" "va < UTOP" "as_map s d (vaddr va) = None"
  shows "page_remove d asid va s = Some s"
  using assms by (simp add: page_remove_def page_lookup_eq [OF assms(1-3)])

lemma page_remove_present:
  assumes inv: "vm_inv s D X xs" and d: "d \<in> D" "va < UTOP"
    and e: "as_map s d (vaddr va) = Some e"
  shows "\<exists>s'. page_remove d asid va s = Some s' \<and>
    vm_inv s' D X (if unat (pp_ref s (PPN e)) = 1 then PPN e # xs else xs) \<and>
    (\<forall>d' \<in> D. as_map s' d' = (if d' = d then (as_map s d)(vaddr va := None) else as_map s d')) \<and>
    tlb s' = (tlb s)(entryhi asid va := None) \<and> npage s' = npage s \<and>
    pp_ref s' = (pp_ref s)(PPN e := pp_ref s (PPN e) - 1) \<and>
    (\<forall>d' \<in> D. \<forall>i. has_tab s' d' i = has_tab s d' i \<and> tab s' d' i = tab s d' i) \<and>
    pmap.more s' = pmap.more s"
proof -
  let ?i = "PDX va" and ?j = "PTX va" and ?p = "PPN e"
  let ?ys = "if unat (pp_ref s ?p) = 1 then ?p # xs else xs"
  have t: "has_tab s d ?i" "?i < 509" "?j < 1024"
    using e as_map_has_tab [of s d ?i ?j e] by (auto simp: vaddr_def)
  note p = vm_invD(5) [OF inv d(1) e] and r = mapped_ref [OF inv d(1) e]
  obtain fl where dec: "page_decref ?p s =
      Some (s\<lparr>pp_ref := (pp_ref s)(?p := pp_ref s ?p - 1), page_free_list := fl\<rparr>)"
    and fl: "lrep fl ?ys"
    using page_decref_ok [OF vm_invD(6) [OF inv] r] by blast
  define s' where "s' = tlb_invalidate asid va (pte_store (tab s d ?i, ?j) 0
      (s\<lparr>pp_ref := (pp_ref s)(?p := pp_ref s ?p - 1), page_free_list := fl\<rparr>))"
  have f: "free_ok s' ?ys"
    using fl vm_invD(7,8) [OF inv] p r by (auto simp: s'_def free_ok_def unat_minus_1 unat_eq_Suc_0)
  have "unat (pp_ref s' q) + points (as_map s d (?i, ?j)) q = unat (pp_ref s q)" for q
    using e r(1) by (auto simp: s'_def points_def vaddr_def unat_minus_1)
  then have st: "vm_inv s' D X ?ys" "d' \<in> D \<Longrightarrow> as_map s' d' =
       (if d' = d then (as_map s d)((?i, ?j) := None) else as_map s d')" for d'
    using store_inv [OF inv d(1) t(2,3,1), where s' = s' and v = 0 and ys = ?ys] f by (simp_all add: s'_def)
  have rm: "page_remove d asid va s = Some s'"
    using e dec by (simp add: page_remove_def page_lookup_eq [OF inv d] s'_def)
  have tt: "has_tab s' d' i = has_tab s d' i" "tab s' d' i = tab s d' i" if "d' \<in> D" for d' i
    using t vm_invD(11) [OF inv d(1) t(2,1)] that by (auto simp: s'_def has_tab_def tab_def)
  have "tlb s' = (tlb s)(entryhi asid va := None)" "npage s' = npage s"
    "pp_ref s' = (pp_ref s)(PPN e := pp_ref s (PPN e) - 1)" "pmap.more s' = pmap.more s"
    by (simp_all add: s'_def)
  with rm st tt show ?thesis by (intro exI [of _ s']) (simp add: vaddr_def)
qed

section \<open>Inserting a mapping\<close>

abbreviation mkpte :: "nat \<Rightarrow> u32 \<Rightarrow> u32" where
  "mkpte pp perm \<equiv> page2pa pp OR perm OR PTE_C_CACHEABLE OR PTE_V"

lemma mkpte_valid [simp]: "pte_valid (mkpte pp perm)"
  by (simp add: pte_valid_bit PTE_V_def bit_simps)

lemma mkpte_PPN: "pp < 2 ^ 20 \<Longrightarrow> perm < 4096 \<Longrightarrow> PPN (mkpte pp perm) = pp"
  by (simp add: PPN_page2pa_or or_less_4096)

lemma unat_plus_1_u16: "unat (w :: u16) < 65535 \<Longrightarrow> unat (w + 1) = unat w + 1"
  by (simp add: unat_word_ariths)

text \<open>
  Writing the entry of \<open>pp\<close> at an unmapped address whose table exists.
\<close>

lemma map_new:
  fixes s s' :: "'z pmap_scheme"
  assumes inv: "vm_inv s D X xs" and d: "d \<in> D" "va < UTOP" "has_tab s d (PDX va)"
    and e: "as_map s d (vaddr va) = None"
    and pp: "pp < npage s" "pp \<notin> set xs" "unat (pp_ref s pp) < 65535" "X pp = 0" "pp \<notin> tabs s D"
      "perm < 4096"
    and s': "s' = pte_store (tab s d (PDX va), PTX va) (mkpte pp perm)
      (s\<lparr>pp_ref := (pp_ref s)(pp := pp_ref s pp + 1)\<rparr>)"
  shows "vm_inv s' D X xs"
    "d' \<in> D \<Longrightarrow> as_map s' d' =
       (if d' = d then (as_map s d)(vaddr va \<mapsto> mkpte pp perm) else as_map s d')"
proof -
  have n: "PPN (mkpte pp perm) = pp"
    using pp(1,6) vm_invD(1) [OF inv] by (intro mkpte_PPN) auto
  have f: "free_ok s' xs"
    using vm_invD(6-8) [OF inv] pp(2) by (auto simp: s' free_ok_def)
  have "unat (pp_ref s' q) + points (as_map s d (PDX va, PTX va)) q =
      unat (pp_ref s q) + points (Some (mkpte pp perm)) q" for q
    using e pp(3) by (auto simp: s' vaddr_def points_def n unat_plus_1_u16)
  then show "vm_inv s' D X xs" "d' \<in> D \<Longrightarrow> as_map s' d' =
       (if d' = d then (as_map s d)(vaddr va \<mapsto> mkpte pp perm) else as_map s d')"
    using store_inv [OF inv d(1) vaddr_user [OF d(2)] PTX_less d(3), where s' = s' and v = "mkpte pp perm" and ys = xs] f
      n pp(1,4,5) by (simp_all add: s' vaddr_def)
qed

lemma page_insert_new_fail:
  assumes "vm_inv s D X []" "d \<in> D" "va < UTOP" "\<not> has_tab s d (PDX va)"
  shows "page_insert_new d asid pp va perm s = Some (Inl E_NO_MEM, tlb_invalidate asid va s)"
proof -
  have "pgdir_walk d va True (tlb_invalidate asid va s) = Some (Inl E_NO_MEM, tlb_invalidate asid va s)"
    using assms by (intro pgdir_walk_create_fail) (simp_all add: has_tab_def)
  then show ?thesis by (simp add: page_insert_new_def)
qed

lemma tabs_by_refs:
  assumes "vm_inv s D X xs" "vm_inv s' D X ys" "p < npage s" "npage s' = npage s"
    "pp_ref s' p = pp_ref s p" "\<forall>d \<in> D. as_map s' d = as_map s d"
  shows "p \<in> tabs s' D \<longleftrightarrow> p \<in> tabs s D"
  using vm_invD(9) [OF assms(1,3)] vm_invD(9) [OF assms(2), of p] assms(3-5)
    maps_eqI [of D s' s p] assms(6) by (auto split: if_splits)

lemma page_insert_new_ok:
  fixes s :: "'z pmap_scheme"
  assumes inv: "vm_inv s D X xs" and d: "d \<in> D" "va < UTOP" "has_tab s d (PDX va) \<or> xs \<noteq> []"
    and e: "as_map s d (vaddr va) = None"
    and pp: "pp < npage s" "pp \<notin> set xs" "unat (pp_ref s pp) < 65535" "X pp = 0" "pp \<notin> tabs s D"
      "perm < 4096"
  obtains s' where "page_insert_new d asid pp va perm s = Some (Inr (), s')"
    "vm_inv s' D X (if has_tab s d (PDX va) then xs else tl xs)"
    "\<And>d'. d' \<in> D \<Longrightarrow> as_map s' d' =
       (if d' = d then (as_map s d)(vaddr va \<mapsto> mkpte pp perm) else as_map s d')"
    "tlb s' = (tlb s)(entryhi asid va := None)" "npage s' = npage s"
    "pmap.more s' = pmap.more s"
proof -
  let ?t = "tlb_invalidate asid va s"
  have ht: "has_tab ?t = has_tab s" "tab ?t = tab s" by (intro ext; simp add: has_tab_def tab_def)+
  have tl: "tlb ?t = (tlb s)(entryhi asid va := None)" by (simp add: tlb_invalidate_def tlb_out_def)
  let ?ys = "if has_tab s d (PDX va) then xs else tl xs"
  have "\<exists>s1. pgdir_walk d va True ?t = Some (Inr (Some (tab s1 d (PDX va), PTX va)), s1) \<and>
      vm_inv s1 D X ?ys \<and> has_tab s1 d (PDX va) \<and> (\<forall>d' \<in> D. as_map s1 d' = as_map s d') \<and>
      npage s1 = npage s \<and> tlb s1 = tlb ?t \<and> pp_ref s1 pp = pp_ref s pp \<and> pmap.more s1 = pmap.more s"
  proof (cases "has_tab s d (PDX va)")
    case True
    then show ?thesis
      using pgdir_walk_present [of ?t D X xs d va True] inv d(1,2) by (auto simp: ht)
  next
    case False
    then obtain p ys where xs: "xs = p # ys" using d(3) by (cases xs) auto
    then have "p \<noteq> pp" using pp(2) by auto
    with False d(1,2) inv show ?thesis
      unfolding xs by (auto simp: ht intro: pgdir_walk_create [of ?t D X p ys d va])
  qed
  then obtain s1 where w: "pgdir_walk d va True ?t = Some (Inr (Some (tab s1 d (PDX va), PTX va)), s1)"
    and i1: "vm_inv s1 D X ?ys" and h1: "has_tab s1 d (PDX va)"
    and a1: "\<forall>d' \<in> D. as_map s1 d' = as_map s d'"
    and eq: "npage s1 = npage s" "tlb s1 = tlb ?t" "pp_ref s1 pp = pp_ref s pp"
      "pmap.more s1 = pmap.more s" by blast
  have pp': "pp < npage s1" "pp \<notin> set ?ys" "unat (pp_ref s1 pp) < 65535"
    using pp eq by (cases xs; simp)+
  have pt: "pp \<notin> tabs s1 D"
    using tabs_by_refs [OF inv i1 pp(1) eq(1,3) a1] pp(5) by simp
  have e1: "as_map s1 d (vaddr va) = None" using a1 d(1) e by simp
  note m = map_new [OF i1 d(1,2) h1 e1 pp' pp(4) pt pp(6) refl]
  show thesis
    by (rule that [OF _ m(1)]) (use w a1 d(1) eq tl m(2) in \<open>simp_all add: page_insert_new_def\<close>)
qed

lemma page_insert_missing:
  assumes "vm_inv s D X xs" "d \<in> D" "va < UTOP" "as_map s d (vaddr va) = None"
  shows "page_insert d asid pp va perm s = page_insert_new d asid pp va perm s"
  using assms
  by (auto simp: page_insert_def pgdir_walk_find [OF assms(1-3)] as_map_vaddr pte_load_def upte_def
      split: if_splits)

lemma page_insert_present:
  assumes "vm_inv s D X xs" "d \<in> D" "va < UTOP" "as_map s d (vaddr va) = Some e"
  shows "page_insert d asid pp va perm s =
    (if PPN e \<noteq> pp then Option.bind (page_remove d asid va s) (page_insert_new d asid pp va perm)
     else Some (Inr (), pte_store (tab s d (PDX va), PTX va) (mkpte pp perm) (tlb_invalidate asid va s)))"
  using assms(4) vm_invD(5) [OF assms(1,2,4)]
  by (auto simp: page_insert_def pgdir_walk_find [OF assms(1-3)] as_map_vaddr [OF assms(3)]
      pte_load_def upte_def pa2page_def split: if_splits)

lemma page_insert_same:
  assumes inv: "vm_inv s D X xs" and d: "d \<in> D" "va < UTOP"
    and e: "as_map s d (vaddr va) = Some e" and perm: "perm < 4096"
    and s': "s' = pte_store (tab s d (PDX va), PTX va) (mkpte (PPN e) perm) (tlb_invalidate asid va s)"
  shows "vm_inv s' D X xs"
    "d' \<in> D \<Longrightarrow> as_map s' d' =
       (if d' = d then (as_map s d)(vaddr va \<mapsto> mkpte (PPN e) perm) else as_map s d')"
proof -
  have n: "PPN (mkpte (PPN e) perm) = PPN e" using PPN_less perm by (intro mkpte_PPN) auto
  have t: "has_tab s d (PDX va)" using e as_map_has_tab [of s d] by (simp add: vaddr_def)
  have f: "free_ok s' xs" using inv by (simp add: s' vm_inv_def free_ok_def)
  have "(d, PDX va, PTX va) \<in> maps s D (PPN e)"
    using maps_mem [OF d(1), of "PDX va" "PTX va" s] e by (simp add: vaddr_def points_def)
  then have "maps s D (PPN e) \<noteq> {}" by blast
  then have nk: "X (PPN e) = 0" "PPN e \<notin> tabs s D" using vm_invD(13,14) [OF inv] by auto
  show "vm_inv s' D X xs" "d' \<in> D \<Longrightarrow> as_map s' d' =
       (if d' = d then (as_map s d)(vaddr va \<mapsto> mkpte (PPN e) perm) else as_map s d')"
    using store_inv [OF inv d(1) vaddr_user [OF d(2)] PTX_less t, where s' = s' and v = "mkpte (PPN e) perm" and ys = xs] f
      n e vm_invD(5) [OF inv d(1) e] nk by (simp_all add: s' vaddr_def points_def)
qed

lemma page_insert_no_mem:
  assumes "vm_inv s D X []" "d \<in> D" "va < UTOP" "\<not> has_tab s d (PDX va)"
  shows "page_insert d asid pp va perm s = Some (Inl E_NO_MEM, tlb_invalidate asid va s)"
  using assms page_insert_missing [OF assms(1-3)] page_insert_new_fail [OF assms]
  by (simp add: as_map_vaddr)

text \<open>
  A page to be mapped: a real page that is not free, not a page table, directory or kernel
  page, and whose counter has room.
\<close>

definition mappable :: "'z pmap_scheme \<Rightarrow> nat set \<Rightarrow> (nat \<Rightarrow> nat) \<Rightarrow> nat list \<Rightarrow> nat \<Rightarrow> bool" where
  "mappable s D X xs pp \<longleftrightarrow> pp < npage s \<and> pp \<notin> set xs \<and> unat (pp_ref s pp) < 65535 \<and>
     X pp = 0 \<and> pp \<notin> tabs s D"

lemma mapped_mappable:
  assumes "vm_inv s D X xs" "d \<in> D" "as_map s d ij = Some e" "unat (pp_ref s (PPN e)) < 65535"
  shows "mappable s D X xs (PPN e)"
proof -
  obtain i j where ij: "ij = (i, j)" by (cases ij)
  have "(d, i, j) \<in> maps s D (PPN e)"
    using maps_mem [OF assms(2), of i j s] assms(3) by (simp add: ij points_def)
  then have "maps s D (PPN e) \<noteq> {}" by blast
  then show ?thesis
    using vm_invD(13,14) [OF assms(1)] vm_invD(5) [OF assms(1-3)] mapped_ref(2) [OF assms(1-3)] assms(4)
    by (simp add: mappable_def)
qed

lemma page_insert_ok:
  fixes s :: "'z pmap_scheme"
  assumes inv: "vm_inv s D X xs" and d: "d \<in> D" "va < UTOP" "has_tab s d (PDX va) \<or> xs \<noteq> []"
    and pp: "mappable s D X xs pp" "perm < 4096"
  shows "\<exists>s' ys. page_insert d asid pp va perm s = Some (Inr (), s') \<and> vm_inv s' D X ys \<and>
    (\<forall>d' \<in> D. as_map s' d' =
       (if d' = d then (as_map s d)(vaddr va \<mapsto> mkpte pp perm) else as_map s d')) \<and>
    tlb s' = (tlb s)(entryhi asid va := None) \<and> npage s' = npage s \<and> pmap.more s' = pmap.more s"
proof (cases "as_map s d (vaddr va)")
  case None
  note p = pp(1) [unfolded mappable_def]
  from p page_insert_new_ok [OF inv d None _ _ _ _ _ pp(2), where pp = pp and asid = asid] show ?thesis
    unfolding page_insert_missing [OF inv d(1,2) None] by metis
next
  case (Some e)
  note i = page_insert_present [OF inv d(1,2) Some, of asid pp perm]
  show ?thesis
  proof (cases "PPN e = pp")
    case True
    then show ?thesis
      using i page_insert_same [OF inv d(1,2) Some pp(2) refl, where asid = asid]
      by (auto simp: tlb_invalidate_def tlb_out_def)
  next
    case False
    let ?zs = "if unat (pp_ref s (PPN e)) = 1 then PPN e # xs else xs"
    obtain s1 where r: "page_remove d asid va s = Some s1" "vm_inv s1 D X ?zs"
      "\<forall>d' \<in> D. as_map s1 d' = (if d' = d then (as_map s d)(vaddr va := None) else as_map s d')"
      "tlb s1 = (tlb s)(entryhi asid va := None)" "npage s1 = npage s"
      "pp_ref s1 = (pp_ref s)(PPN e := pp_ref s (PPN e) - 1)"
      "\<forall>d' \<in> D. \<forall>i. has_tab s1 d' i = has_tab s d' i \<and> tab s1 d' i = tab s d' i"
      "pmap.more s1 = pmap.more s"
      using page_remove_present [OF inv d(1,2) Some, of asid] by blast
    have ht: "has_tab s1 d (PDX va)"
      using r(7) d(1) as_map_has_tab [of s d "PDX va" "PTX va" e] Some by (simp add: vaddr_def)
    have "tabs s1 D = tabs s D" by (rule tabs_eqI) (use r(7) in auto)
    then have q: "as_map s1 d (vaddr va) = None" "pp < npage s1" "pp \<notin> set ?zs"
      "unat (pp_ref s1 pp) < 65535" "X pp = 0" "pp \<notin> tabs s1 D"
      using r(3) d(1) r(5,6) False pp(1) by (auto simp: mappable_def)
    obtain s2 where n: "page_insert_new d asid pp va perm s1 = Some (Inr (), s2)"
      "vm_inv s2 D X (if has_tab s1 d (PDX va) then ?zs else tl ?zs)"
      "\<And>d'. d' \<in> D \<Longrightarrow> as_map s2 d' =
         (if d' = d then (as_map s1 d)(vaddr va \<mapsto> mkpte pp perm) else as_map s1 d')"
      "tlb s2 = (tlb s1)(entryhi asid va := None)" "npage s2 = npage s1"
      "pmap.more s2 = pmap.more s1"
      by (rule page_insert_new_ok [OF r(2) d(1,2) disjI1 [OF ht] q pp(2), where asid = asid]) iprover
    show ?thesis
      using False i r n d(1) by auto
  qed
qed

end
