(* ===== verification/Address_Space.thy ===== *)
theory Address_Space
  imports Pmap_Ops
begin

unbundle bit_operations_syntax

text \<open>
  The interface that the rest of the kernel uses of \<^verbatim>\<open>kern/pmap.c\<close>, as the locale
  \<open>address_space\<close>: looking up, removing and inserting a mapping act on a finite map from
  addresses to entries, one map per page directory. It is interpreted on \<open>page_lookup\<close>,
  \<open>page_remove\<close> and \<open>page_insert\<close>. The theory also has the boot of the allocator
  (\<^verbatim>\<open>page_init\<close>), the creation of a new directory, and the properties of the component.
\<close>

section \<open>The contract\<close>

locale address_space =
  fixes okst :: "'s \<Rightarrow> bool"
    and dirs :: "'d set"
    and user :: "'v \<Rightarrow> bool"
    and key :: "'v \<Rightarrow> 'k"
    and view :: "'s \<Rightarrow> 'd \<Rightarrow> 'k \<Rightarrow> 'e option"
    and okpage :: "'s \<Rightarrow> 'p \<Rightarrow> bool"
    and okperm :: "'q \<Rightarrow> bool"
    and entry :: "'p \<Rightarrow> 'q \<Rightarrow> 'e"
    and page :: "'e \<Rightarrow> 'p"
    and lookup :: "'d \<Rightarrow> 'v \<Rightarrow> 's \<Rightarrow> 'p option option"
    and remove :: "'d \<Rightarrow> 'v \<Rightarrow> 's \<Rightarrow> 's option"
    and insert :: "'d \<Rightarrow> 'p \<Rightarrow> 'v \<Rightarrow> 'q \<Rightarrow> 's \<Rightarrow> ((errno + unit) \<times> 's) option"
  assumes lookup_view: "okst s \<Longrightarrow> d \<in> dirs \<Longrightarrow> user va \<Longrightarrow>
      lookup d va s = Some (map_option page (view s d (key va)))"
    and remove_view: "okst s \<Longrightarrow> d \<in> dirs \<Longrightarrow> user va \<Longrightarrow>
      \<exists>s'. remove d va s = Some s' \<and> okst s' \<and>
        (\<forall>d' \<in> dirs. view s' d' = (if d' = d then (view s d)(key va := None) else view s d'))"
    and insert_view: "okst s \<Longrightarrow> d \<in> dirs \<Longrightarrow> user va \<Longrightarrow> okpage s p \<Longrightarrow> okperm q \<Longrightarrow>
      \<exists>r s'. insert d p va q s = Some (r, s') \<and> okst s' \<and>
        (case r of
           Inl _ \<Rightarrow> \<forall>d' \<in> dirs. view s' d' = view s d'
         | Inr _ \<Rightarrow> \<forall>d' \<in> dirs. view s' d' =
             (if d' = d then (view s d)(key va \<mapsto> entry p q) else view s d'))"
    and page_entry: "okst s \<Longrightarrow> okpage s p \<Longrightarrow> okperm q \<Longrightarrow> page (entry p q) = p"
begin

text \<open>What was inserted is found; what was removed is not.\<close>

lemma lookup_insert:
  assumes "okst s" "d \<in> dirs" "user va" "okpage s p" "okperm q"
    and "insert d p va q s = Some (Inr (), s')"
  shows "okst s'" "lookup d va s' = Some (Some p)"
proof -
  from insert_view [OF assms(1-5)] assms(6)
  have 1: "okst s'" "view s' d = (view s d)(key va \<mapsto> entry p q)"
    using assms(2) by auto
  then show "okst s'" "lookup d va s' = Some (Some p)"
    using lookup_view [OF 1(1) assms(2,3)] page_entry [OF assms(1,4,5)] by simp_all
qed

lemma lookup_insert_other:
  assumes "okst s" "d \<in> dirs" "user va" "okpage s p" "okperm q"
    and "insert d p va q s = Some (r, s')" "d' \<in> dirs" "user va'" "d' \<noteq> d \<or> key va' \<noteq> key va"
  shows "lookup d' va' s' = lookup d' va' s"
proof -
  from insert_view [OF assms(1-5)] assms(6)
  have 1: "okst s'" "case r of Inl _ \<Rightarrow> \<forall>d' \<in> dirs. view s' d' = view s d'
         | Inr _ \<Rightarrow> \<forall>d' \<in> dirs. view s' d' =
             (if d' = d then (view s d)(key va \<mapsto> entry p q) else view s d')" by auto
  then have "view s' d' (key va') = view s d' (key va')"
    using assms(7,9) by (auto split: sum.splits)
  then show ?thesis
    using lookup_view [OF 1(1) assms(7,8)] lookup_view [OF assms(1,7,8)] by simp
qed

lemma lookup_remove:
  assumes "okst s" "d \<in> dirs" "user va" "remove d va s = Some s'"
  shows "okst s'" "lookup d va s' = Some None"
  using remove_view [OF assms(1-3)] assms(2-4) lookup_view [of s' d va] by auto

text \<open>
  A loop that removes the mappings at a list of addresses, as \<^verbatim>\<open>env_free\<close> and the user-level
  loops do, leaves exactly the other mappings.
\<close>

fun remove_all :: "'d \<Rightarrow> 'v list \<Rightarrow> 's \<Rightarrow> 's option" where
  "remove_all d [] s = Some s"
| "remove_all d (va # vas) s = Option.bind (remove d va s) (remove_all d vas)"

lemma remove_all_view:
  assumes "okst s" "d \<in> dirs" "\<forall>va \<in> set vas. user va"
  shows "\<exists>s'. remove_all d vas s = Some s' \<and> okst s' \<and>
    (\<forall>d' \<in> dirs. view s' d' =
       (if d' = d then (\<lambda>k. if k \<in> key ` set vas then None else view s d k) else view s d'))"
  using assms
proof (induction vas arbitrary: s)
  case Nil
  then show ?case by auto
next
  case (Cons va vas)
  from remove_view [OF Cons.prems(1,2), of va] Cons.prems(3) obtain s1 where
    s1: "remove d va s = Some s1" "okst s1"
      "\<forall>d' \<in> dirs. view s1 d' = (if d' = d then (view s d)(key va := None) else view s d')"
    by auto
  from Cons.IH [OF s1(2) Cons.prems(2)] Cons.prems(3) obtain s' where
    "remove_all d vas s1 = Some s'" "okst s'" "\<forall>d' \<in> dirs. view s' d' =
       (if d' = d then (\<lambda>k. if k \<in> key ` set vas then None else view s1 d k) else view s1 d')"
    by auto
  with s1 Cons.prems(2) show ?case by (auto simp: fun_eq_iff)
qed

text \<open>
  Sharing a page, as \<^verbatim>\<open>sys_mem_map\<close> does: the page found in one address space is inserted
  into another; afterwards both address spaces find the same page.
\<close>

lemma share:
  assumes "okst s" "d1 \<in> dirs" "d2 \<in> dirs" "user va1" "user va2" "d1 \<noteq> d2 \<or> key va1 \<noteq> key va2"
    and "lookup d1 va1 s = Some (Some p)" "okpage s p" "okperm q"
    and "insert d2 p va2 q s = Some (Inr (), s')"
  shows "lookup d1 va1 s' = Some (Some p)" "lookup d2 va2 s' = Some (Some p)"
  using lookup_insert(2) [OF assms(1,3,5,8,9,10)]
    lookup_insert_other [OF assms(1,3,5,8,9,10,2,4,6)] assms(7) by simp_all

end

section \<open>\<^verbatim>\<open>kern/pmap.c\<close> meets the contract\<close>

definition vm_ok :: "nat set \<Rightarrow> (nat \<Rightarrow> nat) \<Rightarrow> 'z pmap_scheme \<Rightarrow> bool" where
  "vm_ok D X s \<longleftrightarrow> (\<exists>xs. vm_inv s D X xs)"

definition vm_mappable :: "nat set \<Rightarrow> (nat \<Rightarrow> nat) \<Rightarrow> 'z pmap_scheme \<Rightarrow> nat \<Rightarrow> bool" where
  "vm_mappable D X s p \<longleftrightarrow> (\<forall>xs. vm_inv s D X xs \<longrightarrow> mappable s D X xs p)"

definition find_page :: "nat \<Rightarrow> u32 \<Rightarrow> 'z pmap_scheme \<Rightarrow> nat option option" where
  "find_page d va s = map_option (\<lambda>(r, _). map_option fst r) (page_lookup d va s)"

lemma vm_remove:
  assumes "vm_ok D X s" "d \<in> D" "va < UTOP"
  shows "\<exists>s'. page_remove d asid va s = Some s' \<and> vm_ok D X s' \<and>
    (\<forall>d' \<in> D. as_map s' d' = (if d' = d then (as_map s d)(vaddr va := None) else as_map s d'))"
proof -
  from assms(1) obtain xs where inv: "vm_inv s D X xs" by (auto simp: vm_ok_def)
  show ?thesis
  proof (cases "as_map s d (vaddr va)")
    case None
    then show ?thesis
      using page_remove_absent [OF inv assms(2,3), of asid] assms(1) by (auto simp: fun_eq_iff)
  next
    case (Some e)
    show ?thesis
      using page_remove_present [OF inv assms(2,3) Some, of asid] unfolding vm_ok_def by blast
  qed
qed

lemma vm_insert:
  assumes "vm_ok D X s" "d \<in> D" "va < UTOP" "vm_mappable D X s p" "perm < 4096"
  shows "\<exists>r s'. page_insert d asid p va perm s = Some (r, s') \<and> vm_ok D X s' \<and>
     (case r of
        Inl _ \<Rightarrow> \<forall>d' \<in> D. as_map s' d' = as_map s d'
      | Inr _ \<Rightarrow> \<forall>d' \<in> D. as_map s' d' =
          (if d' = d then (as_map s d)(vaddr va \<mapsto> mkpte p perm) else as_map s d'))"
proof -
  from assms(1,4) obtain xs where inv: "vm_inv s D X xs" and p: "mappable s D X xs p"
    by (auto simp: vm_ok_def vm_mappable_def)
  show ?thesis
  proof (cases "has_tab s d (PDX va) \<or> xs \<noteq> []")
    case True
    from page_insert_ok [OF inv assms(2,3) True p assms(5), of asid] obtain s' ys where
      "page_insert d asid p va perm s = Some (Inr (), s')" "vm_inv s' D X ys" "\<forall>d' \<in> D. as_map s' d' =
          (if d' = d then (as_map s d)(vaddr va \<mapsto> mkpte p perm) else as_map s d')"
      by blast
    then show ?thesis by (intro exI [of _ "Inr ()"] exI [of _ s']) (auto simp: vm_ok_def)
  next
    case False
    then show ?thesis
      using page_insert_no_mem [of s D X d va asid p perm] inv assms(1-3) by (auto simp: vm_ok_def)
  qed
qed

interpretation vm: address_space "vm_ok D X" D "\<lambda>va. va < UTOP" vaddr as_map "vm_mappable D X"
  "\<lambda>perm. perm < 4096" mkpte PPN find_page "\<lambda>d. page_remove d asid"
  "\<lambda>d. page_insert d asid"
  for D X asid
proof (unfold_locales, goal_cases)
  case (1 s d va)
  then show ?case
    by (auto simp: vm_ok_def find_page_def page_lookup_eq option.map_comp comp_def)
next
  case (2 s d va)
  then show ?case by (rule vm_remove)
next
  case (3 s d va p q)
  then show ?case by (rule vm_insert)
next
  case (4 s p q)
  then obtain xs where i: "vm_inv s D X xs" "mappable s D X xs p" by (auto simp: vm_ok_def vm_mappable_def)
  then show ?case using 4(3) vm_invD(1) [OF i(1)] by (auto intro!: mkpte_PPN simp: mappable_def)
qed

section \<open>Boot and new directories\<close>

text \<open>With no directory, the invariant only speaks about counters and the free list.\<close>

lemma vm_inv_no_dirs:
  "vm_inv s {} X xs \<longleftrightarrow> npage s \<le> 2 ^ 20 \<and> free_ok s xs \<and> (\<forall>p < npage s. unat (pp_ref s p) = X p)"
proof -
  have "maps s {} p = {}" "tabs s {} = {}" for p by (simp_all add: maps_def tabs_def)
  then show ?thesis by (auto simp: vm_inv_def tabs_ok_def refs_ok_def isolated_def)
qed

lemma fold_used:
  "fold (\<lambda>i s. s\<lparr>pp_ref := (pp_ref s)(i := 1)\<rparr>) [0..<n] s =
     s\<lparr>pp_ref := (\<lambda>p. if p < n then 1 else pp_ref s p)\<rparr>"
  by (induction n) (auto simp: fun_eq_iff less_Suc_eq)

lemma fold_free:
  "u \<le> n \<Longrightarrow> fold (\<lambda>i s. s\<lparr>pp_ref := (pp_ref s)(i := 0),
                          page_free_list := LIST_INSERT_HEAD i (page_free_list s)\<rparr>) [u..<n] s =
     s\<lparr>pp_ref := (\<lambda>p. if u \<le> p \<and> p < n then 0 else pp_ref s p),
       page_free_list := fold LIST_INSERT_HEAD [u..<n] (page_free_list s)\<rparr>"
proof (induction n rule: dec_induct)
  case base
  have "(\<lambda>p. if u \<le> p \<and> p < u then 0 else pp_ref s p) = pp_ref s" by (rule ext) auto
  then show ?case by simp
next
  case (step n)
  then show ?case by (auto simp: fun_eq_iff less_Suc_eq)
qed

text \<open>
  \<^verbatim>\<open>page_init\<close>: with the first \<open>u\<close> pages used at boot, the free list holds the other pages,
  highest first.
\<close>

lemma page_init_eq:
  assumes "PADDR (ROUND (freemem s) PAGE_SIZE) = Some pa" "u = PPN pa" "u \<le> npage s" "npage s \<le> 2 ^ 20"
  obtains s' where "page_init s = Some s'"
    "vm_inv s' {} (\<lambda>p. if p < u then 1 else 0) (rev [u..<npage s])"
    "npage s' = npage s" "pm s' = pm s" "tlb s' = tlb s" "memsize s' = memsize s"
    "freemem s' = ROUND (freemem s) PAGE_SIZE" "pmap.more s' = pmap.more s"
proof -
  let ?fl = "fold LIST_INSERT_HEAD [u..<npage s] (LIST_INIT (page_free_list s))"
  define s' where "s' = s\<lparr>freemem := ROUND (freemem s) PAGE_SIZE, page_free_list := ?fl,
    pp_ref := (\<lambda>p. if u \<le> p \<and> p < npage s then 0 else if p < u then 1 else pp_ref s p)\<rparr>"
  have "page_init s = Some s'"
    using assms(1,3) by (simp add: page_init_def Let_def assms(2) [symmetric] fold_used fold_free s'_def
        cong: if_cong)
  moreover have "lrep ?fl (rev [u..<npage s])"
    using ll.rep_fold_insert [OF lrep_INIT, of "[u..<npage s]"] by simp
  then have "vm_inv s' {} (\<lambda>p. if p < u then 1 else 0) (rev [u..<npage s])"
    using assms(3,4) by (auto simp: vm_inv_no_dirs free_ok_def s'_def)
  ultimately show thesis
    by (rule that) (simp_all add: s'_def)
qed

text \<open>
  A fresh page becomes a page directory, as in \<^verbatim>\<open>env_setup_vm\<close>: its user part is empty, and
  what is written into the shared slots does not matter.
\<close>

lemma vm_inv_new_dir:
  fixes s s' :: "'z pmap_scheme"
  assumes inv: "vm_inv s D X xs" and p: "p < npage s" "p \<notin> set xs" "pp_ref s p = 0"
    "p \<notin> D" "p \<notin> tabs s D" and z: "\<And>i. i < 509 \<Longrightarrow> \<not> pte_valid (pm s' p i)"
    and s': "npage s' = npage s" "pp_ref s' = (pp_ref s)(p := 1)"
      "\<And>q. q \<noteq> p \<Longrightarrow> pm s' q = pm s q" "page_free_list s' = page_free_list s"
  shows "vm_inv s' (insert p D) (X(p := 1)) xs" "as_map s' p = Map.empty"
    "d \<in> D \<Longrightarrow> as_map s' d = as_map s d"
proof -
  have n: "\<not> has_tab s' p i" if "i < 509" for i using z [OF that] by (simp add: has_tab_def)
  have np: "d \<noteq> p" if "d \<in> D" for d using that p(4) by auto
  have h: "has_tab s' d i = has_tab s d i" "tab s' d i = tab s d i" if "d \<in> D" for d i
    using np [OF that] by (simp_all add: has_tab_def tab_def s'(3))
  have ut: "upte s' d i j = upte s d i j" if "d \<in> D" "i < 509" "has_tab s d i" for d i j
    using tabs_memI [OF that] p(5) h(2) [OF that(1), of i] s'(3) by (metis upte_def)
  have am: "as_map s' d = as_map s d" if "d \<in> D" for d
    using h [OF that] ut [OF that] by (intro ext) (auto simp: as_map_def)
  have ap: "as_map s' p = Map.empty" using n by (intro ext) (auto simp: as_map_def)
  have mp: "maps s' (insert p D) q = maps s D q" for q
    using am ap unfolding maps_def by auto
  have tb: "tabs s' (insert p D) = tabs s D"
    unfolding tabs_def by (rule Collect_cong) (use n h in \<open>auto simp: \<close>)
  have "X p = 0" "maps s D p = {}"
    using vm_invD(9) [OF inv p(1)] p(3) finite_maps [OF vm_invD(2) [OF inv], of s p] by auto
  then have r: "refs_ok s' (insert p D) (X(p := 1))" "isolated s' (insert p D) (X(p := 1))"
    using vm_invD(9,13,14) [OF inv] p by (auto simp: refs_ok_def isolated_def s' mp tb)
  have "tabs_ok s' (insert p D)"
    unfolding tabs_ok_def
  proof (intro conjI ballI allI impI; (elim conjE)?)
    fix d i assume a: "d \<in> insert p D" "i < 509" "has_tab s' d i"
    then have b: "d \<in> D" "has_tab s d i" "tab s' d i = tab s d i" using n h by auto
    show "tab s' d i < npage s'" "tab s' d i \<notin> insert p D"
      using vm_invD(10,11) [OF inv b(1) a(2) b(2)] tabs_memI [OF b(1) a(2) b(2)] b(3) p(5) s'(1)
      by auto
  next
    fix d i d' i' assume a: "d \<in> insert p D" "i < 509" "d' \<in> insert p D" "i' < 509"
      "has_tab s' d i" "has_tab s' d' i'" "tab s' d i = tab s' d' i'"
    then have b: "d \<in> D" "has_tab s d i" "d' \<in> D" "has_tab s d' i'" "tab s d i = tab s d' i'"
      using n h by auto
    then show "d = d'" "i = i'" using vm_invD(12) [OF inv b(1) a(2) b(3) a(4)] by auto
  qed
  moreover have "free_ok s' xs"
    using vm_invD(6-8) [OF inv] p(2) by (auto simp: free_ok_def s')
  ultimately show "vm_inv s' (insert p D) (X(p := 1)) xs"
    using r inv am ap p by (auto simp: vm_inv_def s'(1))
  show "as_map s' p = Map.empty" "d \<in> D \<Longrightarrow> as_map s' d = as_map s d" by (rule ap, rule am)
qed

section \<open>Properties\<close>

text \<open>A small machine: pages 0 and 1 hold the kernel, page 2 is a directory, page 3 has just been
  taken by the kernel, and 4 to 7 are free.\<close>

definition pm_small :: pmap where
  "pm_small = \<lparr>memsize = 0x8000, npage = 8, freemem = 0x80002000,
     page_free_list = fold LIST_INSERT_HEAD [4..<8] (LIST_INIT llist_zero),
     pp_ref = (\<lambda>p. if p < 3 then 1 else 0), pm = (\<lambda>_ _. 0), tlb = (\<lambda>_. Some (0, 0))\<rparr>"

definition small_X :: "nat \<Rightarrow> nat" where
  "small_X p = (if p < 3 then 1 else 0)"

lemma vm_inv_blank:
  assumes "pm s = (\<lambda>_ _. 0)" "npage s \<le> 2 ^ 20" "finite D" "\<forall>d \<in> D. d < npage s \<and> 0 < X d"
    "free_ok s xs" "\<forall>p < npage s. unat (pp_ref s p) = X p"
  shows "vm_inv s D X xs"
proof -
  have h: "\<not> has_tab s d i" for d i by (simp add: has_tab_def assms(1))
  have "as_map s d = Map.empty" for d by (rule ext) (auto simp: as_map_def h)
  then have "maps s D p = {}" "tabs s D = {}" for p by (simp_all add: maps_def tabs_def h)
  moreover have "as_map s d = Map.empty" for d by (rule ext) (auto simp: as_map_def h)
  ultimately show ?thesis using assms h by (simp add: vm_inv_def tabs_ok_def refs_ok_def isolated_def)
qed

lemma pm_small_inv: "vm_inv pm_small {2} small_X [7, 6, 5, 4]"
proof (rule vm_inv_blank)
  have "lrep (page_free_list pm_small) (rev [4..<8] @ [])"
    unfolding pm_small_def by (simp only: pmap.simps) (rule ll.rep_fold_insert [OF lrep_INIT]; simp)
  moreover have "rev [4..<8] @ [] = [7, 6, 5, 4 :: nat]" by (simp add: upt_rec)
  ultimately show "free_ok pm_small [7, 6, 5, 4]" by (simp add: free_ok_def) (simp add: pm_small_def)
qed (simp_all add: pm_small_def small_X_def)

lemma pm_small_fields [simp]:
  "npage pm_small = 8" "pp_ref pm_small p = (if p < 3 then 1 else 0)" "tlb pm_small h = Some (0, 0)"
  "has_tab pm_small d i = False" "tabs pm_small D = {}"
  by (simp_all add: pm_small_def has_tab_def tabs_def)

lemma pm_small_as_map [simp]: "as_map pm_small d = Map.empty"
  by (rule ext) (auto simp: as_map_def)

text \<open>Mapping page 1 at one user address of the small machine.\<close>

lemma pm_small_mapped:
  obtains s1 ys where "page_insert 2 5 3 0x400000 PTE_D pm_small = Some (Inr (), s1)"
    "vm_inv s1 {2} small_X ys" "as_map s1 2 = [vaddr 0x400000 \<mapsto> mkpte 3 PTE_D]"
    "mappable s1 {2} small_X ys 3"
proof -
  have m: "mappable pm_small {2} small_X [7, 6, 5, 4] 3" "(0x400000 :: u32) < UTOP"
    by (simp_all add: mappable_def mos_consts small_X_def tabs_def)
  obtain s1 ys where 1: "page_insert 2 5 3 0x400000 PTE_D pm_small = Some (Inr (), s1)"
    "vm_inv s1 {2} small_X ys" "as_map s1 2 = [vaddr 0x400000 \<mapsto> mkpte 3 PTE_D]" "npage s1 = 8"
    using page_insert_ok [OF pm_small_inv _ m(2) _ m(1), of 2 PTE_D 5] by auto
  have "maps s1 {2} 3 \<subseteq> {(2, 1, 0)}"
    using 1(3) by (auto simp: maps_def vaddr_def PDX_eq PTX_eq split: if_splits)
  then have "card (maps s1 {2} 3) \<le> 1" using card_mono [of "{(2, 1, 0)}" "maps s1 {2} 3"] by simp
  with vm_invD(9) [OF 1(2), of 3] 1(4) have "unat (pp_ref s1 3) \<le> 3"
    by (simp add: small_X_def split: if_splits)
  moreover have "PPN (mkpte 3 PTE_D) = 3" by (rule mkpte_PPN) simp_all
  ultimately have "mappable s1 {2} small_X ys 3"
    using mapped_mappable [OF 1(2), of 2 "vaddr 0x400000" "mkpte 3 PTE_D"] 1(3) by simp
  then show thesis using that 1 by blast
qed

text \<open>
  C10. \<^verbatim>\<open>page_insert\<close> maps a page: for a user address, a page that is not free and whose
  counter has room, and permission bits within the low twelve, the call never panics. It
  succeeds exactly when the page table exists already or a page is free for it. Then the
  address space of the directory is updated at that one page and no other address space
  changes; on \<^verbatim>\<open>E_NO_MEM\<close> nothing changes. In every case the reference counts and the free
  list stay exact and the TLB entry of the address is flushed.
\<close>

theorem page_insert_correct:
  fixes s :: "'z pmap_scheme"
  assumes "vm_inv s D X xs" "d \<in> D" "va < UTOP" "mappable s D X xs pp" "perm < 4096"
  shows "\<exists>r s' ys. page_insert d asid pp va perm s = Some (r, s') \<and> vm_inv s' D X ys \<and>
    tlb s' = (tlb s)(entryhi asid va := None) \<and>
    (if has_tab s d (PDX va) \<or> xs \<noteq> [] then r = Inr () \<and>
       (\<forall>d' \<in> D. as_map s' d' =
          (if d' = d then (as_map s d)(vaddr va \<mapsto> mkpte pp perm) else as_map s d'))
     else r = Inl E_NO_MEM \<and> (\<forall>d' \<in> D. as_map s' d' = as_map s d'))"
proof (cases "has_tab s d (PDX va) \<or> xs \<noteq> []")
  case True
  from page_insert_ok [OF assms(1-3) True assms(4,5), of asid] show ?thesis
    unfolding if_P [OF True] by blast
next
  case False
  with assms have "vm_inv s D X []" "\<not> has_tab s d (PDX va)" by auto
  from page_insert_no_mem [OF this(1) assms(2,3) this(2)] False assms(1) show ?thesis
    by auto
qed

theorem page_insert_correct_witness:
  "\<exists>r s' ys. page_insert 2 5 3 0x400000 PTE_D pm_small = Some (r, s') \<and>
     vm_inv s' {2} small_X ys \<and> r = Inr () \<and>
     tlb s' = (tlb pm_small)(entryhi 5 0x400000 := None) \<and>
     as_map s' 2 = [vaddr 0x400000 \<mapsto> mkpte 3 PTE_D]"
  using page_insert_correct [OF pm_small_inv, of 2 "0x400000" 3 PTE_D 5]
  by (simp add: mappable_def mos_consts small_X_def)

text \<open>
  C11. \<^verbatim>\<open>page_remove\<close> unmaps one page and nothing else: it never panics, the address is
  unmapped afterwards and every other mapping of every address space is unchanged; the
  reference count of the page drops by one, and the page becomes free exactly when that was
  its last reference, so that it cannot be handed out while it is still mapped.
\<close>

theorem page_remove_correct:
  fixes s :: "'z pmap_scheme"
  assumes "vm_inv s D X xs" "d \<in> D" "va < UTOP"
  shows "\<exists>s' ys. page_remove d asid va s = Some s' \<and> vm_inv s' D X ys \<and>
    (\<forall>d' \<in> D. as_map s' d' = (if d' = d then (as_map s d)(vaddr va := None) else as_map s d')) \<and>
    (case as_map s d (vaddr va) of
       None \<Rightarrow> s' = s
     | Some e \<Rightarrow> tlb s' = (tlb s)(entryhi asid va := None) \<and>
         pp_ref s' = (pp_ref s)(PPN e := pp_ref s (PPN e) - 1) \<and>
         ys = (if unat (pp_ref s (PPN e)) = 1 then PPN e # xs else xs))"
proof (cases "as_map s d (vaddr va)")
  case None
  then show ?thesis
    using page_remove_absent [OF assms None, of asid] assms(1) by (auto simp: fun_eq_iff)
next
  case (Some e)
  show ?thesis
    using page_remove_present [OF assms Some, of asid] unfolding Some option.case by blast
qed

theorem page_remove_correct_witness:
  "\<exists>s1 s'. page_insert 2 5 3 0x400000 PTE_D pm_small = Some (Inr (), s1) \<and>
     page_remove 2 5 0x400000 s1 = Some s' \<and> as_map s1 2 (vaddr 0x400000) \<noteq> None \<and>
     as_map s' 2 = Map.empty"
proof (rule pm_small_mapped)
  fix s1 ys assume a: "page_insert 2 5 3 0x400000 PTE_D pm_small = Some (Inr (), s1)"
    "vm_inv s1 {2} small_X ys" "as_map s1 2 = [vaddr 0x400000 \<mapsto> mkpte 3 PTE_D]"
  show ?thesis
    using page_remove_correct [OF a(2), of 2 "0x400000" 5] a(1,3) by (auto simp: mos_consts)
qed

text \<open>
  C12. The interface of the page tables as the kernel uses it: a page inserted at a user
  address is the one \<^verbatim>\<open>page_lookup\<close> finds there, and a page that is shared by looking it up
  in one address space and inserting it into another, as \<^verbatim>\<open>sys_mem_map\<close> does, is found in
  both.
\<close>

theorem page_share:
  fixes s :: "'z pmap_scheme"
  assumes "vm_ok D X s" "d1 \<in> D" "d2 \<in> D" "va1 < UTOP" "va2 < UTOP"
    "d1 \<noteq> d2 \<or> vaddr va1 \<noteq> vaddr va2"
    "find_page d1 va1 s = Some (Some p)" "vm_mappable D X s p" "perm < 4096"
    "page_insert d2 asid p va2 perm s = Some (Inr (), s')"
  shows "find_page d1 va1 s' = Some (Some p) \<and> find_page d2 va2 s' = Some (Some p)"
  using vm.share [OF assms] by blast

theorem page_share_witness:
  "\<exists>s1 s'. page_insert 2 5 3 0x400000 PTE_D pm_small = Some (Inr (), s1) \<and>
     page_insert 2 5 3 0x401000 0 s1 = Some (Inr (), s') \<and>
     find_page 2 0x400000 s' = Some (Some 3) \<and> find_page 2 0x401000 s' = Some (Some 3)"
proof (rule pm_small_mapped)
  fix s1 ys assume a: "page_insert 2 5 3 0x400000 PTE_D pm_small = Some (Inr (), s1)"
    "vm_inv s1 {2} small_X ys" "as_map s1 2 = [vaddr 0x400000 \<mapsto> mkpte 3 PTE_D]"
    "mappable s1 {2} small_X ys 3"
  have u: "(0x400000 :: u32) < UTOP" "(0x401000 :: u32) < UTOP" by (simp_all add: mos_consts)
  have k: "vaddr 0x400000 \<noteq> vaddr 0x401000" by (simp add: vaddr_def PDX_eq PTX_eq)
  have t: "has_tab s1 2 (PDX 0x401000)"
    using a(3) as_map_has_tab [of s1 2 1 0 "mkpte 3 PTE_D"] by (simp add: vaddr_def PDX_eq PTX_eq)
  note m = a(4)
  obtain s' where s': "page_insert 2 5 3 0x401000 0 s1 = Some (Inr (), s')"
    using page_insert_ok [OF a(2) _ u(2) _ m, of 2 0 5] t by auto
  have f: "find_page 2 0x400000 s1 = Some (Some 3)"
    using page_lookup_eq [OF a(2) _ u(1), of 2] a(3) by (simp add: find_page_def mkpte_PPN)
  have v: "vm_mappable {2} small_X s1 3"
    using m a(2) lrep_unique vm_invD(6) unfolding vm_mappable_def by metis
  have "vm_ok {2} small_X s1" using a(2) by (auto simp: vm_ok_def)
  from page_share [OF this _ _ u _ f v _ s'] k a(1) s' show ?thesis by simp
qed

text \<open>
  \<^verbatim>\<open>page_alloc\<close> returns a zeroed page that no page table entry refers to, that is no
  page table and no directory, and takes it off the free list; it fails with \<^verbatim>\<open>E_NO_MEM\<close>
  exactly when the free list is empty, and it changes no address space.
\<close>

theorem page_alloc_correct:
  fixes s :: "'z pmap_scheme"
  assumes "vm_inv s D X xs"
  shows "\<exists>r s'. page_alloc s = Some (r, s') \<and> (\<forall>d \<in> D. as_map s' d = as_map s d) \<and>
    (case xs of
       [] \<Rightarrow> r = Inl E_NO_MEM \<and> s' = s
     | p # ys \<Rightarrow> r = Inr p \<and> vm_inv s' D X ys \<and> pm s' p = (\<lambda>_. 0) \<and>
         p \<notin> D \<and> p \<notin> tabs s' D \<and> maps s' D p = {} \<and> p \<notin> set ys)"
proof (cases xs)
  case Nil
  then show ?thesis using page_alloc_empty assms by fastforce
next
  case (Cons p ys)
  with assms obtain fl where
    a: "page_alloc s = Some (Inr p, s\<lparr>page_free_list := fl, pm := (pm s)(p := (\<lambda>_. 0))\<rparr>)"
    by (auto elim: page_alloc_ok)
  let ?s = "s\<lparr>page_free_list := fl, pm := (pm s)(p := (\<lambda>_. 0))\<rparr>"
  from page_alloc_inv [OF assms a] Cons
  have 1: "vm_inv ?s D X ys" "\<forall>d \<in> D. as_map ?s d = as_map s d" "pp_ref ?s p = 0" by auto
  have u: "p \<notin> D" "X p = 0" "p < npage ?s"
    using free_unused [OF assms, of p] vm_invD(7) [OF assms, of p] Cons by auto
  have 2: "maps ?s D p = {}" "p \<notin> tabs ?s D"
    using vm_invD(9) [OF 1(1) u(3)] u(2) 1(3) finite_maps [OF vm_invD(2) [OF assms], of ?s p]
    by (auto split: if_splits)
  from free_distinct assms Cons have "p \<notin> set ys" by metis
  with a 1 2 u(1) Cons show ?thesis by auto
qed

theorem page_alloc_correct_witness:
  "\<exists>s'. page_alloc pm_small = Some (Inr 7, s') \<and> pm s' 7 = (\<lambda>_. 0) \<and>
     vm_inv s' {2} small_X [6, 5, 4]"
  using page_alloc_correct [OF pm_small_inv] by auto

text \<open>
  Boot of the allocator: after \<^verbatim>\<open>page_init\<close> the pages below \<^verbatim>\<open>freemem\<close> carry one reference
  and every other page is on the free list exactly once.
\<close>

theorem page_init_correct:
  fixes s :: "'z pmap_scheme"
  assumes "PADDR (ROUND (freemem s) PAGE_SIZE) = Some pa" "PPN pa \<le> npage s" "npage s \<le> 2 ^ 20"
  shows "\<exists>s'. page_init s = Some s' \<and> lrep (page_free_list s') (rev [PPN pa..<npage s]) \<and>
    (\<forall>p < npage s. pp_ref s' p = (if p < PPN pa then 1 else 0)) \<and>
    vm_inv s' {} (\<lambda>p. if p < PPN pa then 1 else 0) (rev [PPN pa..<npage s])"
proof (rule page_init_eq [OF assms(1) refl assms(2,3)])
  fix s' assume a: "page_init s = Some s'" "npage s' = npage s"
    "vm_inv s' {} (\<lambda>p. if p < PPN pa then 1 else 0) (rev [PPN pa..<npage s])"
  have "pp_ref s' p = (if p < PPN pa then 1 else 0)" if "p < npage s" for p
  proof -
    have "unat (pp_ref s' p) = (if p < PPN pa then 1 else 0)"
      using a that by (simp add: vm_inv_no_dirs)
    then show ?thesis by (auto simp: unat_eq_Suc_0 unat_eq_0 split: if_splits)
  qed
  with a vm_invD(6) [OF a(3)] show ?thesis by blast
qed

theorem page_init_correct_witness:
  "\<exists>s'. page_init (pm_small\<lparr>page_free_list := llist_zero\<rparr>) = Some s' \<and>
     lrep (page_free_list s') [7, 6, 5, 4, 3, 2]"
proof -
  let ?s = "pm_small\<lparr>page_free_list := llist_zero\<rparr>"
  have "PADDR (ROUND (freemem ?s) PAGE_SIZE) = Some 0x2000" "PPN 0x2000 = 2"
    by (simp_all add: pm_small_def PADDR_def ROUND_def mos_consts PPN_eq)
  moreover have "rev [2..<8] = [7, 6, 5, 4, 3, 2 :: nat]" by (simp add: upt_rec)
  ultimately show ?thesis using page_init_correct [of ?s "0x2000"] by auto
qed

end
