(* ===== verification/Kmem.thy ===== *)
theory Kmem
  imports Pmap
begin

unbundle bit_operations_syntax

text \<open>
  Bytes of physical pages. Memory is kept as 32-bit words (\<open>pm\<close>); the machine is
  little-endian. \<open>page_put_bytes\<close> is what \<^verbatim>\<open>memcpy\<close> to an address inside one page does.
\<close>

definition word_byte :: "u32 \<Rightarrow> nat \<Rightarrow> u8" where
  "word_byte w i = ucast (drop_bit (8 * i) w)"

definition word_set_byte :: "u32 \<Rightarrow> nat \<Rightarrow> u8 \<Rightarrow> u32" where
  "word_set_byte w i b = (w AND NOT (push_bit (8 * i) 0xFF)) OR push_bit (8 * i) (ucast b)"

definition page_byte :: "'z pmap_scheme \<Rightarrow> nat \<Rightarrow> nat \<Rightarrow> u8" where
  "page_byte s p off = word_byte (pm s p (off div 4)) (off mod 4)"

definition page_put_byte :: "nat \<Rightarrow> nat \<Rightarrow> u8 \<Rightarrow> 'z pmap_scheme \<Rightarrow> 'z pmap_scheme" where
  "page_put_byte p off b s =
     s\<lparr>pm := (pm s)(p := (pm s p)(off div 4 := word_set_byte (pm s p (off div 4)) (off mod 4) b))\<rparr>"

fun page_put_bytes :: "nat \<Rightarrow> nat \<Rightarrow> u8 list \<Rightarrow> 'z pmap_scheme \<Rightarrow> 'z pmap_scheme" where
  "page_put_bytes p off [] s = s"
| "page_put_bytes p off (b # bs) s = page_put_bytes p (off + 1) bs (page_put_byte p off b s)"

definition page_get_bytes :: "'z pmap_scheme \<Rightarrow> nat \<Rightarrow> nat \<Rightarrow> nat \<Rightarrow> u8 list" where
  "page_get_bytes s p off n = map (page_byte s p) [off..<off + n]"

definition bytes_word :: "u8 list \<Rightarrow> u32" where
  "bytes_word bs = foldr (\<lambda>b w. push_bit 8 w OR ucast b) bs 0"

lemma mask8: "(0xFF :: u32) = mask 8"
  by (simp add: mask_eq_exp_minus_1)

lemma word_byte_set_same: "i < 4 \<Longrightarrow> word_byte (word_set_byte w i b) i = b"
  unfolding mask8 word_byte_def word_set_byte_def
  by (rule bit_word_eqI) (auto simp: bit_simps)

lemma word_byte_set_other:
  assumes "i < 4" "j < 4" "i \<noteq> j"
  shows "word_byte (word_set_byte w i b) j = word_byte w j"
proof (rule bit_word_eqI)
  fix n assume n: "n < LENGTH(8)"
  have "8 * j + n < 8 * i \<or> 8 \<le> 8 * j + n - 8 * i" using assms(3) n by (cases "j < i") auto
  then show "bit (word_byte (word_set_byte w i b) j) n = bit (word_byte w j) n"
    using n unfolding mask8 word_byte_def word_set_byte_def
    by (auto simp: bit_simps dest: bit_imp_le_length)
qed

lemma page_byte_put:
  "page_byte (page_put_byte p off b s) q o' =
     (if q = p \<and> o' = off then b else page_byte s q o')"
proof -
  have "o' = off" if "o' div 4 = off div 4" "o' mod 4 = off mod 4" using that by (metis div_mult_mod_eq)
  then show ?thesis
    by (auto simp: page_byte_def page_put_byte_def word_byte_set_same intro!: word_byte_set_other)
qed

text \<open>\<^verbatim>\<open>memcpy\<close> into a page: the bytes are there, and every other byte of memory is unchanged.\<close>

lemma page_byte_put_bytes:
  "page_byte (page_put_bytes p off bs s) q o' =
     (if q = p \<and> off \<le> o' \<and> o' < off + length bs then bs ! (o' - off) else page_byte s q o')"
proof (induction bs arbitrary: off s)
  case Nil
  then show ?case by auto
next
  case (Cons b bs)
  show ?case
    using Cons.IH [of "off + 1" "page_put_byte p off b s"]
    by (auto simp: page_byte_put nth_Cons')
qed

lemma page_put_bytes_more [simp]:
  "npage (page_put_bytes p off bs s) = npage s" "pp_ref (page_put_bytes p off bs s) = pp_ref s"
  "page_free_list (page_put_bytes p off bs s) = page_free_list s"
  "tlb (page_put_bytes p off bs s) = tlb s" "pmap.more (page_put_bytes p off bs s) = pmap.more s"
  by (induction bs arbitrary: off s) (simp_all add: page_put_byte_def)

lemma page_put_bytes_pm: "q \<noteq> p \<Longrightarrow> pm (page_put_bytes p off bs s) q = pm s q"
  by (induction bs arbitrary: off s) (simp_all add: page_put_byte_def)

end
