(* ===== verification/Elf.thy ===== *)
theory Elf
  imports Mmu
begin

unbundle bit_operations_syntax

text \<open>
  ELF images: \<^verbatim>\<open>lib/elfloader.c\<close> and the structures of \<^verbatim>\<open>include/elf.h\<close>. An image is the list
  of its bytes, and a read outside of it is \<open>None\<close>. The page-mapping callback of
  \<^verbatim>\<open>elf_load_seg\<close> is a function on an arbitrary state; the kernel instantiates it with
  \<open>load_icode_mapper\<close> and \<^verbatim>\<open>spawn\<close> with its own mapper. \<open>seg_calls\<close> is the list of callback
  invocations that a segment stands for, and \<open>elf_load_seg_calls\<close> shows that the two loops
  perform exactly those.
\<close>

section \<open>Headers\<close>

record Elf32_Ehdr =
  e_entry :: u32
  e_phoff :: u32
  e_phentsize :: u16
  e_phnum :: u16

record Elf32_Phdr =
  p_type :: u32
  p_offset :: u32
  p_vaddr :: u32
  p_filesz :: u32
  p_memsz :: u32
  p_flags :: u32

definition rd16 :: "u8 list \<Rightarrow> nat \<Rightarrow> u16 option" where
  "rd16 bs off = (if off + 2 \<le> length bs
     then Some (ucast (bs ! off) OR push_bit 8 (ucast (bs ! (off + 1)))) else None)"

definition rd32 :: "u8 list \<Rightarrow> nat \<Rightarrow> u32 option" where
  "rd32 bs off = (if off + 4 \<le> length bs
     then Some (ucast (bs ! off) OR push_bit 8 (ucast (bs ! (off + 1)))
       OR push_bit 16 (ucast (bs ! (off + 2))) OR push_bit 24 (ucast (bs ! (off + 3)))) else None)"

definition PT_LOAD :: u32 where [mos_consts]: "PT_LOAD = 1"
definition PF_W :: u32 where [mos_consts]: "PF_W = push_bit 1 1"

text \<open>\<^verbatim>\<open>sizeof(Elf32_Ehdr)\<close> is 52; the magic is 7f 45 4c 46 and type 2 an executable.\<close>

definition elf_from :: "u8 list \<Rightarrow> Elf32_Ehdr option" where
  "elf_from binary =
     (if length binary \<ge> 52 \<and> binary ! 0 = 0x7f \<and> binary ! 1 = 0x45 \<and> binary ! 2 = 0x4c \<and>
         binary ! 3 = 0x46 \<and> rd16 binary 16 = Some 2
      then do {
        entry \<leftarrow> rd32 binary 24;
        phoff \<leftarrow> rd32 binary 28;
        phentsize \<leftarrow> rd16 binary 42;
        phnum \<leftarrow> rd16 binary 44;
        Some \<lparr>e_entry = entry, e_phoff = phoff, e_phentsize = phentsize, e_phnum = phnum\<rparr>
      }
      else None)"

definition elf_phdr :: "u8 list \<Rightarrow> nat \<Rightarrow> Elf32_Phdr option" where
  "elf_phdr binary off = do {
     ty \<leftarrow> rd32 binary off;
     offset \<leftarrow> rd32 binary (off + 4);
     vaddr \<leftarrow> rd32 binary (off + 8);
     filesz \<leftarrow> rd32 binary (off + 16);
     memsz \<leftarrow> rd32 binary (off + 20);
     flags \<leftarrow> rd32 binary (off + 24);
     Some \<lparr>p_type = ty, p_offset = offset, p_vaddr = vaddr, p_filesz = filesz, p_memsz = memsz,
           p_flags = flags\<rparr>
   }"

text \<open>\<^verbatim>\<open>ELF_FOREACH_PHDR_OFF\<close>: the offsets of the program headers.\<close>

definition ELF_FOREACH_PHDR_OFF :: "Elf32_Ehdr \<Rightarrow> u32 list" where
  "ELF_FOREACH_PHDR_OFF ehdr =
     map (\<lambda>k. e_phoff ehdr + of_nat k * ucast (e_phentsize ehdr)) [0..<unat (e_phnum ehdr)]"

section \<open>Loading a segment\<close>

text \<open>The callback gets the address, the offset, the permission, the source bytes and the length.\<close>

type_synonym 's elf_mapper =
  "u32 \<Rightarrow> u32 \<Rightarrow> u32 \<Rightarrow> u8 list option \<Rightarrow> u32 \<Rightarrow> 's \<Rightarrow> ((errno + unit) \<times> 's) option"

definition slice :: "u8 list \<Rightarrow> nat \<Rightarrow> nat \<Rightarrow> u8 list option" where
  "slice bs off n = (if off + n \<le> length bs then Some (take n (drop off bs)) else None)"

definition seg_perm :: "Elf32_Phdr \<Rightarrow> u32" where
  "seg_perm ph = (if p_flags ph AND PF_W \<noteq> 0 then PTE_V OR PTE_D else PTE_V)"

partial_function (option) load_file ::
  "'s elf_mapper \<Rightarrow> u32 \<Rightarrow> u32 \<Rightarrow> u8 list \<Rightarrow> u32 \<Rightarrow> u32 \<Rightarrow> 's \<Rightarrow> ((errno + u32) \<times> 's) option" where
  "load_file map_page va perm bin bin_size i s =
     (if i < bin_size then
        (case slice bin (unat i) (unat (min (bin_size - i) PAGE_SIZE)) of
           None \<Rightarrow> None
         | Some src \<Rightarrow>
             (case map_page (va + i) 0 perm (Some src) (min (bin_size - i) PAGE_SIZE) s of
                None \<Rightarrow> None
              | Some (r, s') \<Rightarrow>
                  (case r of
                     Inl e \<Rightarrow> Some (Inl e, s')
                   | Inr _ \<Rightarrow> load_file map_page va perm bin bin_size (i + PAGE_SIZE) s')))
      else Some (Inr i, s))"

partial_function (option) load_zero ::
  "'s elf_mapper \<Rightarrow> u32 \<Rightarrow> u32 \<Rightarrow> u32 \<Rightarrow> u32 \<Rightarrow> 's \<Rightarrow> ((errno + unit) \<times> 's) option" where
  "load_zero map_page va perm sgsize i s =
     (if i < sgsize then
        (case map_page (va + i) 0 perm None (min (sgsize - i) PAGE_SIZE) s of
           None \<Rightarrow> None
         | Some (r, s') \<Rightarrow>
             (case r of
                Inl e \<Rightarrow> Some (Inl e, s')
              | Inr _ \<Rightarrow> load_zero map_page va perm sgsize (i + PAGE_SIZE) s'))
      else Some (Inr (), s))"

definition elf_load_seg ::
  "Elf32_Phdr \<Rightarrow> u8 list \<Rightarrow> 's elf_mapper \<Rightarrow> 's \<Rightarrow> ((errno + unit) \<times> 's) option" where
  "elf_load_seg ph bin map_page s =
     (let va = p_vaddr ph;
          bin_size = p_filesz ph;
          sgsize = p_memsz ph;
          perm = seg_perm ph;
          offset = va - ROUNDDOWN va PAGE_SIZE;
          first = min bin_size (PAGE_SIZE - offset)
      in do {
        (r, s) \<leftarrow> (if offset \<noteq> 0 then do {
                    src \<leftarrow> slice bin 0 (unat first);
                    map_page va offset perm (Some src) first s
                  } else Some (Inr (), s));
        case r of
          Inl e \<Rightarrow> Some (Inl e, s)
        | Inr _ \<Rightarrow> do {
            (r, s) \<leftarrow> load_file map_page va perm bin bin_size (if offset \<noteq> 0 then first else 0) s;
            case r of
              Inl e \<Rightarrow> Some (Inl e, s)
            | Inr i \<Rightarrow> load_zero map_page va perm sgsize i s
          }
      })"

section \<open>The callback invocations of a segment\<close>

text \<open>The values of the loop counter, and its value after the loop.\<close>

function steps :: "nat \<Rightarrow> nat \<Rightarrow> nat list" where
  "steps i lim = (if i < lim then i # steps (i + 4096) lim else [])"
  by auto
termination by (relation "measure (\<lambda>(i, lim). lim - i)") auto

declare steps.simps [simp del]

definition steps_end :: "nat \<Rightarrow> nat \<Rightarrow> nat" where
  "steps_end i lim = i + 4096 * length (steps i lim)"

lemma steps_nil [simp]: "lim \<le> i \<Longrightarrow> steps i lim = []"
  by (subst steps.simps) simp

lemma steps_cons: "i < lim \<Longrightarrow> steps i lim = i # steps (i + 4096) lim"
  by (subst steps.simps) simp

lemma steps_end_nil [simp]: "lim \<le> i \<Longrightarrow> steps_end i lim = i"
  by (simp add: steps_end_def)

lemma steps_end_cons: "i < lim \<Longrightarrow> steps_end i lim = steps_end (i + 4096) lim"
  by (simp add: steps_end_def steps_cons)

type_synonym seg_call = "u32 \<times> u32 \<times> u8 list option \<times> u32"

definition call :: "'s elf_mapper \<Rightarrow> u32 \<Rightarrow> seg_call \<Rightarrow> 's \<Rightarrow> ((errno + unit) \<times> 's) option" where
  "call map_page perm c = (case c of (va, off, src, n) \<Rightarrow> map_page va off perm src n)"

definition file_calls :: "u32 \<Rightarrow> u8 list \<Rightarrow> nat \<Rightarrow> nat \<Rightarrow> seg_call list" where
  "file_calls va bin lim i = map (\<lambda>i. let n = min (lim - i) 4096 in
     (va + of_nat i, 0, Some (take n (drop i bin)), of_nat n)) (steps i lim)"

definition zero_calls :: "u32 \<Rightarrow> nat \<Rightarrow> nat \<Rightarrow> seg_call list" where
  "zero_calls va lim i = map (\<lambda>i. (va + of_nat i, 0, None, of_nat (min (lim - i) 4096))) (steps i lim)"

definition seg_off :: "Elf32_Phdr \<Rightarrow> nat" where
  "seg_off ph = unat (p_vaddr ph) mod 4096"

definition seg_first :: "Elf32_Phdr \<Rightarrow> nat" where
  "seg_first ph = (if seg_off ph \<noteq> 0 then min (unat (p_filesz ph)) (4096 - seg_off ph) else 0)"

definition seg_calls :: "Elf32_Phdr \<Rightarrow> u8 list \<Rightarrow> seg_call list" where
  "seg_calls ph bin =
     (if seg_off ph \<noteq> 0
      then [(p_vaddr ph, of_nat (seg_off ph), Some (take (seg_first ph) bin), of_nat (seg_first ph))]
      else []) @
     file_calls (p_vaddr ph) bin (unat (p_filesz ph)) (seg_first ph) @
     zero_calls (p_vaddr ph) (unat (p_memsz ph)) (steps_end (seg_first ph) (unat (p_filesz ph)))"

text \<open>Words below \<open>2 ^ 32\<close> and the loop counter.\<close>

lemma word_min_sub:
  assumes "i < lim" "lim < 2 ^ 32"
  shows "min ((of_nat lim :: u32) - of_nat i) PAGE_SIZE = of_nat (min (lim - i) 4096)"
proof -
  have 1: "(of_nat lim :: u32) - of_nat i = of_nat (lim - i)" using assms(1) by (simp add: of_nat_diff)
  have "unat (of_nat (lim - i) :: u32) = lim - i" using assms by (intro unat_of_nat_u32) simp
  then show ?thesis
    unfolding 1 PAGE_SIZE_def by (simp add: min_def word_le_nat_alt)
qed

lemma of_nat_less_u32: "i < 2 ^ 32 \<Longrightarrow> lim < 2 ^ 32 \<Longrightarrow> (of_nat i :: u32) < of_nat lim \<longleftrightarrow> i < lim"
  by (simp add: word_less_nat_alt unat_of_nat_u32)

lemma load_file_eq:
  assumes "lim + 4096 \<le> 2 ^ 32" "lim \<le> length bin" "i < 2 ^ 32"
  shows "load_file m va perm bin (of_nat lim) (of_nat i) s =
    (case tryfold (call m perm) (file_calls va bin lim i) s of
       None \<Rightarrow> None
     | Some (Inl e, s') \<Rightarrow> Some (Inl e, s')
     | Some (Inr _, s') \<Rightarrow> Some (Inr (of_nat (steps_end i lim)), s'))"
  using assms(3)
proof (induction "lim - i" arbitrary: i s rule: less_induct)
  case less
  have lim: "lim < 2 ^ 32" using assms(1) by simp
  show ?case
  proof (cases "i < lim")
    case False
    then show ?thesis
      using less.prems lim
      by (subst load_file.simps) (simp add: of_nat_less_u32 file_calls_def)
  next
    case True
    let ?n = "min (lim - i) 4096"
    have n: "unat (of_nat ?n :: u32) = ?n" using lim by (intro unat_of_nat_u32) simp
    have sl: "slice bin (unat (of_nat i :: u32)) ?n = Some (take ?n (drop i bin))"
      using True assms(2) less.prems by (simp add: slice_def unat_of_nat_u32)
    have nx: "(of_nat i :: u32) + PAGE_SIZE = of_nat (i + 4096)" by (simp add: PAGE_SIZE_def)
    have IH: "load_file m va perm bin (of_nat lim) (of_nat (i + 4096)) s' =
      (case tryfold (call m perm) (file_calls va bin lim (i + 4096)) s' of
         None \<Rightarrow> None
       | Some (Inl e, s'') \<Rightarrow> Some (Inl e, s'')
       | Some (Inr _, s'') \<Rightarrow> Some (Inr (of_nat (steps_end (i + 4096) lim)), s''))" for s'
      using True assms(1) by (intro less.hyps) auto
    have fc: "file_calls va bin lim i =
        (va + of_nat i, 0, Some (take ?n (drop i bin)), of_nat ?n) # file_calls va bin lim (i + 4096)"
      using True by (simp add: file_calls_def steps_cons Let_def)
    show ?thesis
      unfolding fc steps_end_cons [OF True]
      using True less.prems lim
      by (subst load_file.simps)
        (simp add: of_nat_less_u32 word_min_sub n sl nx IH call_def del: of_nat_add
          split: option.split sum.split prod.split)
  qed
qed

lemma load_zero_eq:
  assumes "lim + 4096 \<le> 2 ^ 32" "i < 2 ^ 32"
  shows "load_zero m va perm (of_nat lim) (of_nat i) s =
    tryfold (call m perm) (zero_calls va lim i) s"
  using assms(2)
proof (induction "lim - i" arbitrary: i s rule: less_induct)
  case less
  have lim: "lim < 2 ^ 32" using assms(1) by simp
  show ?case
  proof (cases "i < lim")
    case False
    then show ?thesis
      using less.prems lim
      by (subst load_zero.simps) (simp add: of_nat_less_u32 zero_calls_def)
  next
    case True
    have nx: "(of_nat i :: u32) + PAGE_SIZE = of_nat (i + 4096)" by (simp add: PAGE_SIZE_def)
    have IH: "load_zero m va perm (of_nat lim) (of_nat (i + 4096)) s' =
      tryfold (call m perm) (zero_calls va lim (i + 4096)) s'" for s'
      using True assms(1) by (intro less.hyps) auto
    have zc: "zero_calls va lim i =
        (va + of_nat i, 0, None, of_nat (min (lim - i) 4096)) # zero_calls va lim (i + 4096)"
      using True by (simp add: zero_calls_def steps_cons)
    show ?thesis
      unfolding zc
      using True less.prems lim
      by (subst load_zero.simps)
        (simp add: of_nat_less_u32 word_min_sub nx IH call_def del: of_nat_add
          split: option.split sum.split prod.split)
  qed
qed

lemma page_offset: "va - ROUNDDOWN va PAGE_SIZE = of_nat (unat va mod 4096)"
proof -
  have m: "(0xFFF :: u32) = mask 12" by (simp add: mask_eq_exp_minus_1)
  have "(va AND NOT 0xFFF) + (va AND 0xFFF) = (va AND NOT 0xFFF) OR (va AND 0xFFF)"
    by (rule disjunctive_add) (auto simp: bit_simps)
  also have "\<dots> = va" by (rule bit_word_eqI) (auto simp: bit_simps)
  finally have "va - ROUNDDOWN va PAGE_SIZE = va AND 0xFFF"
    by (simp add: ROUNDDOWN_def PAGE_SIZE_def algebra_simps)
  moreover have "va AND 0xFFF = of_nat (unat (va AND 0xFFF))" by simp
  ultimately show ?thesis by (simp only: unat_and_4095)
qed

lemma steps_map: "steps i lim = map (\<lambda>k. i + 4096 * k) [0..<(lim - i + 4095) div 4096]"
proof (induction "lim - i" arbitrary: i rule: less_induct)
  case less
  show ?case
  proof (cases "i < lim")
    case True
    have "(lim - i + 4095) div 4096 = Suc ((lim - (i + 4096) + 4095) div 4096)"
      using True by (cases "lim - i \<le> 4096") auto
    moreover have "map (\<lambda>k. i + 4096 * k) [0..<Suc n] =
        i # map (\<lambda>k. i + 4096 + 4096 * k) [0..<n]" for n
      by (induction n) auto
    ultimately show ?thesis using less.hyps [of "i + 4096"] True by (simp add: steps_cons)
  qed simp
qed

lemma steps_end_eq: "steps_end i lim = i + 4096 * ((lim - i + 4095) div 4096)"
  by (simp add: steps_end_def steps_map)

lemma steps_end_bounds: "lim \<le> steps_end i lim" "steps_end i lim < max i lim + 4096"
  by (simp_all add: steps_end_eq)

lemma steps_append:
  assumes "lim \<le> lim'"
  shows "steps i lim @ steps (steps_end i lim) lim' = steps i lim'"
proof (induction "lim - i" arbitrary: i rule: less_induct)
  case less
  show ?case
  proof (cases "i < lim")
    case True
    then show ?thesis
      using less.hyps [of "i + 4096"] assms by (simp add: steps_cons steps_end_cons)
  qed simp
qed

text \<open>The two loops perform exactly the invocations of \<open>seg_calls\<close>.\<close>

definition seg_ok :: "Elf32_Phdr \<Rightarrow> u8 list \<Rightarrow> bool" where
  "seg_ok ph bin \<longleftrightarrow> unat (p_filesz ph) + 4096 \<le> 2 ^ 32 \<and> unat (p_memsz ph) + 4096 \<le> 2 ^ 32 \<and>
     unat (p_filesz ph) \<le> length bin"

lemma seg_off_less: "seg_off ph < 4096"
  by (simp add: seg_off_def)

lemma first_word:
  assumes "seg_off ph \<noteq> 0"
  shows "min (p_filesz ph) (PAGE_SIZE - of_nat (seg_off ph)) = of_nat (seg_first ph)"
proof -
  have "PAGE_SIZE - of_nat (seg_off ph) = (of_nat (4096 - seg_off ph) :: u32)"
    using seg_off_less [of ph] by (simp add: PAGE_SIZE_def of_nat_diff)
  moreover have "unat (of_nat (4096 - seg_off ph) :: u32) = 4096 - seg_off ph"
    by (intro unat_of_nat_u32) simp
  ultimately show ?thesis
    using assms by (simp add: seg_first_def min_def word_le_nat_alt)
qed

lemma elf_load_seg_calls:
  assumes "seg_ok ph bin"
  shows "elf_load_seg ph bin m s = tryfold (call m (seg_perm ph)) (seg_calls ph bin) s"
proof -
  let ?f = "unat (p_filesz ph)" and ?z = "unat (p_memsz ph)" and ?i = "seg_first ph"
  have b: "?f + 4096 \<le> 2 ^ 32" "?z + 4096 \<le> 2 ^ 32" "?f \<le> length bin"
    using assms by (simp_all add: seg_ok_def)
  have i: "?i \<le> ?f" "?i < 2 ^ 32" using b(1) by (auto simp: seg_first_def)
  have e: "steps_end ?i ?f < 2 ^ 32" using steps_end_bounds(2) [of ?i ?f] i(1) b(1) by simp
  have "unat (of_nat (seg_off ph) :: u32) = seg_off ph"
    using seg_off_less [of ph] by (intro unat_of_nat_u32) simp
  then have off: "of_nat (seg_off ph) = (0 :: u32) \<longleftrightarrow> seg_off ph = 0"
    using unat_0_iff [of "of_nat (seg_off ph) :: u32"] by simp
  have sl: "slice bin 0 ?i = Some (take ?i bin)" using i b by (simp add: slice_def)
  have u: "unat (of_nat ?i :: u32) = ?i" using i(2) by (rule unat_of_nat_u32)
  have f: "load_file m va p bin (p_filesz ph) (of_nat ?i) s' = 
    (case tryfold (call m p) (file_calls va bin ?f ?i) s' of
       None \<Rightarrow> None
     | Some (Inl e, s') \<Rightarrow> Some (Inl e, s')
     | Some (Inr _, s') \<Rightarrow> Some (Inr (of_nat (steps_end ?i ?f)), s'))" for va p s'
    using load_file_eq [OF b(1,3) i(2), of m va p s'] by simp
  have z: "load_zero m va p (p_memsz ph) (of_nat (steps_end ?i ?f)) s' =
     tryfold (call m p) (zero_calls va ?z (steps_end ?i ?f)) s'" for va p s'
    using load_zero_eq [OF b(2) e, of m va p s'] by simp
  show ?thesis
  proof (cases "seg_off ph = 0")
    case True
    then have "?i = 0" by (simp add: seg_first_def)
    with True f z show ?thesis
      unfolding elf_load_seg_def Let_def page_offset seg_calls_def
      by (simp add: seg_off_def [symmetric] tryfold_append split: option.split sum.split prod.split)
  next
    case False
    then show ?thesis
      unfolding elf_load_seg_def Let_def page_offset seg_calls_def
      by (simp add: seg_off_def [symmetric] off first_word u sl f z call_def [of m "seg_perm ph" "(_, _)"]
          tryfold_append split: option.split sum.split prod.split)
  qed
qed

section \<open>What a segment load delivers\<close>

definition call_bytes :: "seg_call \<Rightarrow> u8 list" where
  "call_bytes c = (case c of (_, _, src, _) \<Rightarrow> (case src of None \<Rightarrow> [] | Some bs \<Rightarrow> bs))"

definition call_page :: "seg_call \<Rightarrow> nat" where
  "call_page c = VPN (fst c)"

lemma call_bytes_simps [simp]: "call_bytes (va, off, Some bs, n) = bs" "call_bytes (va, off, None, n) = []"
  by (simp_all add: call_bytes_def)

lemma zero_calls_bytes: "concat (map call_bytes (zero_calls va lim i)) = []"
  by (simp add: zero_calls_def call_bytes_def)

lemma file_calls_bytes:
  "lim \<le> length bin \<Longrightarrow> concat (map call_bytes (file_calls va bin lim i)) = take (lim - i) (drop i bin)"
proof (induction "lim - i" arbitrary: i rule: less_induct)
  case less
  show ?case
  proof (cases "i < lim")
    case True
    have "take (min (lim - i) 4096) (drop i bin) @ take (lim - (i + 4096)) (drop (i + 4096) bin) =
        take (lim - i) (drop i bin)"
      using take_add [of "min (lim - i) 4096" "lim - (i + 4096)" "drop i bin"] True
      by (cases "lim - i \<le> 4096") (auto simp: add.commute)
    moreover have "file_calls va bin lim i =
        (va + of_nat i, 0, Some (take (min (lim - i) 4096) (drop i bin)), of_nat (min (lim - i) 4096))
          # file_calls va bin lim (i + 4096)"
      using True by (simp add: file_calls_def steps_cons Let_def)
    ultimately show ?thesis
      using less.hyps [of "i + 4096"] less.prems True by (simp add: call_bytes_def)
  qed (simp add: file_calls_def)
qed

lemma seg_calls_bytes:
  assumes "unat (p_filesz ph) \<le> length bin"
  shows "concat (map call_bytes (seg_calls ph bin)) = take (unat (p_filesz ph)) bin"
proof -
  let ?f = "unat (p_filesz ph)" and ?i = "seg_first ph"
  have i: "?i \<le> ?f" by (auto simp: seg_first_def)
  have "take ?i bin @ take (?f - ?i) (drop ?i bin) = take ?f bin"
    using take_add [of ?i "?f - ?i" bin] i by simp
  moreover have "?i = 0" if "seg_off ph = 0" using that by (simp add: seg_first_def)
  ultimately show ?thesis
    using file_calls_bytes [OF assms, of "p_vaddr ph" ?i]
    by (simp add: seg_calls_def zero_calls_bytes del: concat_eq_Nil_conv)
qed

lemma VPN_step:
  assumes "(unat va + i) mod 4096 = 0" "unat va + (i + 4096 * k) < 2 ^ 32"
  shows "VPN (va + of_nat (i + 4096 * k)) = (unat va + i) div 4096 + k"
proof -
  have u: "unat (of_nat (i + 4096 * k) :: u32) = i + 4096 * k"
    using assms(2) by (intro unat_of_nat_u32) simp
  have "unat (va + of_nat (i + 4096 * k)) = unat va + (i + 4096 * k)"
    using assms(2) by (simp only: unat_word_ariths u) simp
  then show ?thesis
    using assms(1) by (simp add: VPN_eq)
qed

lemma step_pages:
  assumes "(unat va + i) mod 4096 = 0" "unat va + lim \<le> 2 ^ 32" "i \<le> lim"
  shows "map (\<lambda>j. VPN (va + of_nat j)) (steps i lim) =
    [(unat va + i) div 4096..<(unat va + lim + 4095) div 4096]"
proof -
  let ?n = "(lim - i + 4095) div 4096" and ?b = "(unat va + i) div 4096"
  have "VPN (va + of_nat (i + 4096 * k)) = ?b + k" if "k < ?n" for k
  proof -
    have "Suc k * 4096 \<le> lim - i + 4095"
      using that by (simp add: Suc_le_eq [symmetric] less_eq_div_iff_mult_less_eq)
    then have "i + 4096 * k < lim" by simp
    then show ?thesis using assms(1,2) by (intro VPN_step) auto
  qed
  then have "map (\<lambda>j. VPN (va + of_nat j)) (steps i lim) = map (\<lambda>k. ?b + k) [0..<?n]"
    by (simp add: steps_map)
  also have "\<dots> = [?b..<?b + ?n]" by (simp add: map_add_upt add.commute)
  also have "?b + ?n = (unat va + lim + 4095) div 4096"
  proof -
    obtain c where c: "unat va + i = 4096 * c" using assms(1) by auto
    then have "unat va + lim + 4095 = 4096 * c + (lim - i + 4095)" using assms(3) by simp
    then show ?thesis using c by simp
  qed
  finally show ?thesis .
qed

text \<open>
  A segment whose first, partial page is filled from the file, or that needs no zero pages
  after the file part.
\<close>

definition seg_fits :: "Elf32_Phdr \<Rightarrow> bool" where
  "seg_fits ph \<longleftrightarrow> seg_off ph = 0 \<or> 4096 - seg_off ph \<le> unat (p_filesz ph) \<or>
     unat (p_memsz ph) \<le> unat (p_filesz ph)"

definition seg_size :: "Elf32_Phdr \<Rightarrow> nat" where
  "seg_size ph = max (unat (p_filesz ph)) (unat (p_memsz ph))"

lemma loop_pages:
  assumes "unat (p_vaddr ph) + seg_size ph \<le> 2 ^ 32"
    "(unat (p_vaddr ph) + seg_first ph) mod 4096 = 0"
  shows "map call_page (file_calls (p_vaddr ph) bin (unat (p_filesz ph)) (seg_first ph) @
      zero_calls (p_vaddr ph) (unat (p_memsz ph)) (steps_end (seg_first ph) (unat (p_filesz ph)))) =
    [(unat (p_vaddr ph) + seg_first ph) div 4096..<(unat (p_vaddr ph) + seg_size ph + 4095) div 4096]"
proof -
  let ?f = "unat (p_filesz ph)" and ?z = "unat (p_memsz ph)" and ?i = "seg_first ph"
  have "?i \<le> ?f" by (auto simp: seg_first_def)
  moreover have "steps ?i ?f @ steps (steps_end ?i ?f) ?z = steps ?i (seg_size ph)"
    using steps_append [of ?f ?z ?i] steps_end_bounds(1) [of ?f ?i]
    by (cases "?f \<le> ?z") (auto simp: seg_size_def max_def)
  moreover have "map call_page (file_calls (p_vaddr ph) bin ?f ?i @ zero_calls (p_vaddr ph) ?z (steps_end ?i ?f)) =
     map (\<lambda>j. VPN (p_vaddr ph + of_nat j)) (steps ?i ?f @ steps (steps_end ?i ?f) ?z)"
    by (simp add: file_calls_def zero_calls_def call_page_def Let_def)
  ultimately show ?thesis
    using step_pages [OF assms(2,1)] by (simp add: seg_size_def)
qed

lemma seg_calls_pages:
  assumes "seg_fits ph" "unat (p_vaddr ph) + seg_size ph \<le> 2 ^ 32"
  shows "map call_page (seg_calls ph bin) =
    [VPN (p_vaddr ph)..<(unat (p_vaddr ph) + seg_size ph + 4095) div 4096]"
proof (cases "seg_off ph = 0")
  case True
  then show ?thesis
    using loop_pages [OF assms(2), of bin]
    by (simp add: seg_calls_def seg_first_def VPN_eq) (simp add: seg_off_def)
next
  case False
  let ?v = "unat (p_vaddr ph)"
  show ?thesis
  proof (cases "4096 - seg_off ph \<le> unat (p_filesz ph)")
    case True
    then have i: "seg_first ph = 4096 - ?v mod 4096" using False by (simp add: seg_first_def seg_off_def)
    have "?v = 4096 * (?v div 4096) + ?v mod 4096" "seg_first ph + ?v mod 4096 = 4096"
      using i by (simp_all add: less_imp_le)
    then have "?v + seg_first ph = 4096 * Suc (?v div 4096)" unfolding mult_Suc_right by linarith
    then have m: "(?v + seg_first ph) mod 4096 = 0" "(?v + seg_first ph) div 4096 = Suc (?v div 4096)"
      by simp_all
    have "?v + seg_first ph \<le> ?v + seg_size ph + 4095" using True i by (simp add: seg_size_def seg_off_def)
    from div_le_mono [OF this, of 4096] m(2)
    have "Suc (?v div 4096) \<le> (?v + seg_size ph + 4095) div 4096" by simp
    then show ?thesis
      using loop_pages [OF assms(2) m(1), of bin] False m(2)
      by (simp add: seg_calls_def call_page_def VPN_eq upt_conv_Cons)
  next
    case False': False
    then have zs: "unat (p_memsz ph) \<le> unat (p_filesz ph)" "seg_first ph = unat (p_filesz ph)"
      using assms(1) False by (auto simp: seg_fits_def seg_first_def)
    moreover have "(?v + seg_size ph + 4095) div 4096 = Suc (?v div 4096)"
    proof (rule div_nat_eqI)
      have "?v = 4096 * (?v div 4096) + ?v mod 4096" by simp
      moreover have "0 < ?v mod 4096" "?v mod 4096 + seg_size ph < 4096"
        using False False' zs(1) by (simp_all add: seg_size_def seg_off_def)
      ultimately show "4096 * Suc (?v div 4096) \<le> ?v + seg_size ph + 4095"
        "?v + seg_size ph + 4095 < 4096 * Suc (Suc (?v div 4096))"
        unfolding mult_Suc_right by linarith+
    qed
    ultimately show ?thesis
      using False zs by (simp add: seg_calls_def call_page_def VPN_eq file_calls_def zero_calls_def)
  qed
qed

section \<open>Properties\<close>



text \<open>
  Without that condition the loader loses data: when a segment starts inside a page, its
  file part ends inside the same page and a zero part follows that starts in that page, the
  second invocation of the callback is for the page of the first one again, with no source
  bytes. A mapper that maps a fresh page per call, as \<^verbatim>\<open>load_icode_mapper\<close> does, then replaces
  the page that held the file bytes by a zeroed one.
\<close>

theorem elf_load_seg_remaps_first_page:
  assumes "seg_ok ph bin" "seg_off ph \<noteq> 0" "unat (p_filesz ph) < 4096 - seg_off ph"
    "unat (p_filesz ph) < unat (p_memsz ph)" "unat (p_vaddr ph) + unat (p_filesz ph) < 2 ^ 32"
  shows "\<exists>first rest. seg_calls ph bin = first # rest \<and> call_bytes first = take (unat (p_filesz ph)) bin \<and>
     (\<exists>second rest'. rest = second # rest' \<and> call_page second = call_page first \<and>
        fst (snd (snd second)) = None) \<and>
     elf_load_seg ph bin m s = tryfold (call m (seg_perm ph)) (seg_calls ph bin) s"
proof -
  let ?v = "unat (p_vaddr ph)" and ?f = "unat (p_filesz ph)"
  have i: "seg_first ph = ?f" using assms(2,3) by (simp add: seg_first_def)
  have "unat (of_nat ?f :: u32) = ?f" using assms(5) by (intro unat_of_nat_u32) simp
  then have u: "unat (p_vaddr ph + of_nat ?f) = ?v + ?f"
    using assms(5) by (simp only: unat_word_ariths) simp
  have "(?v + ?f) div 4096 = ?v div 4096"
  proof (rule div_nat_eqI)
    have "?v = 4096 * (?v div 4096) + ?v mod 4096" by simp
    moreover have "?v mod 4096 + ?f < 4096" using assms(3) by (simp add: seg_off_def)
    ultimately show "4096 * (?v div 4096) \<le> ?v + ?f" "?v + ?f < 4096 * Suc (?v div 4096)"
      unfolding mult_Suc_right by linarith+
  qed
  then have p: "VPN (p_vaddr ph + of_nat ?f) = VPN (p_vaddr ph)" using u by (simp add: VPN_eq)
  have "seg_calls ph bin = (p_vaddr ph, of_nat (seg_off ph), Some (take ?f bin), of_nat ?f) #
      zero_calls (p_vaddr ph) (unat (p_memsz ph)) ?f"
    using assms(2) by (simp add: seg_calls_def i file_calls_def)
  then show ?thesis
    using elf_load_seg_calls [OF assms(1)] assms(4) p
    by (simp add: zero_calls_def steps_cons call_page_def)
qed

theorem elf_load_seg_remaps_first_page_witness:
  "\<exists>second. fst (snd (snd second)) = None \<and> call_page second = 1024 \<and>
     second \<in> set (seg_calls \<lparr>p_type = 1, p_offset = 0, p_vaddr = 0x400100, p_filesz = 3,
       p_memsz = 0x10, p_flags = 2\<rparr> [1, 2, 3])"
proof -
  let ?ph = "\<lparr>p_type = 1, p_offset = 0, p_vaddr = 0x400100, p_filesz = 3, p_memsz = 0x10,
    p_flags = 2\<rparr>"
  have f: "seg_calls ?ph [1, 2, 3] = c # r \<Longrightarrow> call_page c = 1024" for c r
    by (auto simp: seg_calls_def seg_off_def call_page_def VPN_eq)
  obtain c d r where "seg_calls ?ph [1, 2, 3] = c # d # r" "call_page d = call_page c"
    "fst (snd (snd d)) = None"
    using elf_load_seg_remaps_first_page [of ?ph "[1, 2, 3]", where m = "\<lambda>_ _ _ _ _ s. Some (Inr (), s)" and s = "()"]
    by (auto simp: seg_ok_def seg_off_def)
  with f show ?thesis by (intro exI [of _ d]) auto
qed

end
