(* ===== verification/Env.thy ===== *)
theory Env
  imports Address_Space Kmem Elf
begin

unbundle bit_operations_syntax

text \<open>
  Environments (processes) and the scheduler: \<^verbatim>\<open>kern/env.c\<close>, \<^verbatim>\<open>kern/sched.c\<close>,
  \<^verbatim>\<open>include/env.h\<close> and the trap frame of \<^verbatim>\<open>include/trap.h\<close>.

  The kernel state \<open>kern\<close> extends the memory state \<open>pmap\<close> by the global variables of the
  kernel. A \<^verbatim>\<open>struct Env *\<close> is the index of the slot in \<^verbatim>\<open>envs\<close>; the intrusive links
  \<^verbatim>\<open>env_link\<close> and \<^verbatim>\<open>env_sched_link\<close> live in the list records \<open>env_free_list\<close> and
  \<open>env_sched_list\<close>. \<open>kstack_tf\<close> is the trap frame just below \<^verbatim>\<open>KSTACKTOP\<close>; \<open>user_tf\<close> and
  \<open>user_asid\<close> are what \<^verbatim>\<open>env_pop_tf\<close> or the return from an exception loads into the processor.
  \<open>kout\<close> collects the output of the kernel, oldest first. \<open>None\<close> is a panic, a failed
  assertion or an access outside of the objects of the kernel.
\<close>

section \<open>State\<close>

record Trapframe =
  regs :: "nat \<Rightarrow> u32"
  cp0_status :: u32
  tf_hi :: u32
  tf_lo :: u32
  cp0_badvaddr :: u32
  cp0_cause :: u32
  cp0_epc :: u32

record Env =
  env_tf :: Trapframe
  env_id :: u32
  env_asid :: u32
  env_parent_id :: u32
  env_status :: u32
  env_pgdir :: nat
  env_pri :: u32
  env_ipc_value :: u32
  env_ipc_from :: u32
  env_ipc_recving :: u32
  env_ipc_dstva :: u32
  env_ipc_perm :: u32
  env_user_tlb_mod_entry :: u32
  env_runs :: u32
  waiting_return_value :: u32
  return_value :: u32

record Job =
  job_id :: nat
  job_status :: nat
  job_envid :: u32
  job_cmd :: "u8 list"

datatype kmsg =
    Putc u8
  | Msg_free_env u32 u32
  | Msg_killed
  | Msg_destroying u32 u32
  | Msg_job nat bool u32 "u8 list"
  | Msg_not_running u32
  | Msg_no_job int
  | Dev_write u32 nat u32

record kern = pmap +
  envs :: "nat \<Rightarrow> Env"
  curenv :: "nat option"
  env_free_list :: "nat llist"
  env_sched_list :: "nat tailq"
  base_pgdir :: nat
  asid_bitmap :: "nat \<Rightarrow> u32"
  mkenvid_i :: u32
  jobs :: "nat \<Rightarrow> Job"
  jobCnt :: nat
  sched_count :: u32
  cur_pgdir :: nat
  kstack_tf :: Trapframe
  user_tf :: Trapframe
  user_asid :: u32
  kout :: "kmsg list"

definition NENV :: nat where [mos_consts]: "NENV = 1024"
definition ENV_FREE :: u32 where [mos_consts]: "ENV_FREE = 0"
definition ENV_RUNNABLE :: u32 where [mos_consts]: "ENV_RUNNABLE = 1"
definition ENV_NOT_RUNNABLE :: u32 where [mos_consts]: "ENV_NOT_RUNNABLE = 2"

definition ENVX :: "u32 \<Rightarrow> nat" where
  "ENVX envid = unat (envid AND (of_nat NENV - 1))"

definition upd_env :: "nat \<Rightarrow> (Env \<Rightarrow> Env) \<Rightarrow> kern \<Rightarrow> kern" where
  "upd_env e f s = s\<lparr>envs := (envs s)(e := f (envs s e))\<rparr>"

definition printk :: "kmsg \<Rightarrow> kern \<Rightarrow> kern" where
  "printk m s = s\<lparr>kout := kout s @ [m]\<rparr>"

section \<open>ASIDs and identifiers\<close>

definition asid_used :: "(nat \<Rightarrow> u32) \<Rightarrow> nat \<Rightarrow> bool" where
  "asid_used bm i \<longleftrightarrow> bm (i div 32) AND push_bit (i mod 32) 1 \<noteq> 0"

definition asid_alloc :: "kern \<Rightarrow> (errno + u32) \<times> kern" where
  "asid_alloc s =
     (case find (\<lambda>i. \<not> asid_used (asid_bitmap s) i) [0..<NASID] of
        None \<Rightarrow> (Inl E_NO_FREE_ENV, s)
      | Some i \<Rightarrow> (Inr (of_nat i), s\<lparr>asid_bitmap := (asid_bitmap s)
            (i div 32 := asid_bitmap s (i div 32) OR push_bit (i mod 32) 1)\<rparr>))"

definition asid_free :: "u32 \<Rightarrow> kern \<Rightarrow> kern" where
  "asid_free i s =
     (let index = unat (drop_bit 5 i); inner = unat (i AND 31) in
      s\<lparr>asid_bitmap := (asid_bitmap s)
          (index := asid_bitmap s index AND NOT (push_bit inner 1))\<rparr>)"

definition mkenvid :: "nat \<Rightarrow> kern \<Rightarrow> u32 \<times> kern" where
  "mkenvid e s = (let s = s\<lparr>mkenvid_i := mkenvid_i s + 1\<rparr> in
     (push_bit 11 (mkenvid_i s) OR of_nat e, s))"

text \<open>
  \<^verbatim>\<open>envid2env\<close>: with \<^verbatim>\<open>envid == 0\<close> the result is \<^verbatim>\<open>curenv\<close>, which every caller dereferences,
  so that a null \<^verbatim>\<open>curenv\<close> is an invalid access.
\<close>

definition envid2env :: "u32 \<Rightarrow> bool \<Rightarrow> kern \<Rightarrow> (errno + nat) option" where
  "envid2env envid checkperm s =
     (if envid = 0 then map_option Inr (curenv s)
      else let e = ENVX envid in
        if env_status (envs s e) = ENV_FREE \<or> env_id (envs s e) \<noteq> envid then Some (Inl E_BAD_ENV)
        else if checkperm then do {
          c \<leftarrow> curenv s;
          if env_id (envs s e) \<noteq> env_id (envs s c) \<and> env_parent_id (envs s e) \<noteq> env_id (envs s c)
          then Some (Inl E_BAD_ENV) else Some (Inr e)
        }
        else Some (Inr e))"

section \<open>Initialisation\<close>

definition map_segment :: "nat \<Rightarrow> u32 \<Rightarrow> u32 \<Rightarrow> u32 \<Rightarrow> u32 \<Rightarrow> u32 \<Rightarrow> kern \<Rightarrow> kern option" where
  "map_segment pgdir asid pa va sz perm s =
     (if pa mod PAGE_SIZE \<noteq> 0 \<or> va mod PAGE_SIZE \<noteq> 0 \<or> sz mod PAGE_SIZE \<noteq> 0 then None
      else mfold (\<lambda>k s. do {
             let i = of_nat k * PAGE_SIZE;
             pp \<leftarrow> pa2page (pa + i) s;
             (_, s) \<leftarrow> page_insert pgdir asid pp (va + i) (perm OR PTE_V) s;
             Some s
           }) [0..<unat (sz div PAGE_SIZE)] s)"

text \<open>
  The kernel addresses of the arrays \<^verbatim>\<open>pages\<close> (from \<^verbatim>\<open>mips_vm_init\<close>) and \<^verbatim>\<open>envs\<close> (from the
  linker) are parameters; \<^verbatim>\<open>sizeof(struct Page)\<close> is 12 and \<^verbatim>\<open>sizeof(struct Env)\<close> is 228.
\<close>

definition env_init :: "u32 \<Rightarrow> u32 \<Rightarrow> kern \<Rightarrow> kern option" where
  "env_init pages_addr envs_addr s = do {
     let s = s\<lparr>env_free_list := LIST_INIT (env_free_list s),
               env_sched_list := TAILQ_INIT (env_sched_list s)\<rparr>;
     let s = fold (\<lambda>i s.
          let s = upd_env i (\<lambda>e. e\<lparr>env_status := ENV_FREE\<rparr>) s in
          s\<lparr>env_free_list := LIST_INSERT_HEAD i (env_free_list s)\<rparr>) (rev [0..<NENV]) s;
     (r, s) \<leftarrow> page_alloc s;
     case r of
       Inl _ \<Rightarrow> None
     | Inr p \<Rightarrow> do {
         let s = s\<lparr>pp_ref := (pp_ref s)(p := pp_ref s p + 1)\<rparr>;
         kva \<leftarrow> page2kva p s;
         let s = s\<lparr>base_pgdir := kva\<rparr>;
         pa \<leftarrow> PADDR pages_addr;
         s \<leftarrow> map_segment (base_pgdir s) 0 pa UPAGES (ROUND (of_nat (npage s) * 12) PAGE_SIZE) PTE_G s;
         pa \<leftarrow> PADDR envs_addr;
         map_segment (base_pgdir s) 0 pa UENVS (ROUND (of_nat NENV * 228) PAGE_SIZE) PTE_G s
       }
   }"

definition env_setup_vm :: "nat \<Rightarrow> kern \<Rightarrow> ((errno + unit) \<times> kern) option" where
  "env_setup_vm e s = do {
     (r, s) \<leftarrow> page_alloc s;
     case r of
       Inl err \<Rightarrow> Some (Inl err, s)
     | Inr p \<Rightarrow> do {
         let s = s\<lparr>pp_ref := (pp_ref s)(p := pp_ref s p + 1)\<rparr>;
         kva \<leftarrow> page2kva p s;
         let s = upd_env e (\<lambda>v. v\<lparr>env_pgdir := kva\<rparr>) s;
         let s = s\<lparr>pm := (pm s)(kva := (\<lambda>k.
              if PDX UTOP \<le> k \<and> k < PDX UVPT then pm s (base_pgdir s) k else pm s kva k))\<rparr>;
         Some (Inr (), pte_store (kva, PDX UVPT) (page2pa kva OR PTE_V) s)
       }
   }"

definition STATUS_user :: u32 where [mos_consts]: "STATUS_user = 0x8000 OR 0x0001 OR 0x0002 OR 0x0010"

definition env_alloc :: "u32 \<Rightarrow> kern \<Rightarrow> ((errno + nat) \<times> kern) option" where
  "env_alloc parent_id s =
     (if LIST_EMPTY (env_free_list s) then Some (Inl E_NO_FREE_ENV, s)
      else do {
        e \<leftarrow> LIST_FIRST (env_free_list s);
        (r, s) \<leftarrow> env_setup_vm e s;
        case r of
          Inl err \<Rightarrow> Some (Inl err, s)
        | Inr _ \<Rightarrow> do {
            let s = upd_env e (\<lambda>v. v\<lparr>env_user_tlb_mod_entry := 0, env_runs := 0\<rparr>) s;
            let (r, s) = asid_alloc s;
            case r of
              Inl err \<Rightarrow> Some (Inl err, s)
            | Inr asid \<Rightarrow> do {
                let s = upd_env e (\<lambda>v. v\<lparr>env_asid := asid\<rparr>) s;
                let (id, s) = mkenvid e s;
                let s = upd_env e (\<lambda>v. v\<lparr>env_id := id, env_parent_id := parent_id,
                   env_tf := (env_tf v)\<lparr>cp0_status := STATUS_user,
                     regs := (regs (env_tf v))(29 := USTACKTOP - 4 - 4)\<rparr>\<rparr>) s;
                fl \<leftarrow> LIST_REMOVE e (env_free_list s);
                Some (Inr e, s\<lparr>env_free_list := fl\<rparr>)
              }
          }
      })"

section \<open>Loading a program\<close>

text \<open>
  The copy stays within the page: \<^verbatim>\<open>offset + len\<close> is not larger than \<^verbatim>\<open>PAGE_SIZE\<close> (the
  precondition of the function); a copy that would leave the page is \<open>None\<close>.
\<close>

definition load_icode_mapper :: "nat \<Rightarrow> kern elf_mapper" where
  "load_icode_mapper env va offset perm src len s = do {
     (r, s) \<leftarrow> page_alloc s;
     case r of
       Inl err \<Rightarrow> Some (Inl err, s)
     | Inr p \<Rightarrow> do {
         s \<leftarrow> (case src of
                None \<Rightarrow> Some s
              | Some bs \<Rightarrow> do {
                  kva \<leftarrow> page2kva p s;
                  if unat offset + length bs \<le> 4096 then Some (page_put_bytes kva (unat offset) bs s)
                  else None
                });
         page_insert (env_pgdir (envs s env)) (env_asid (envs s env)) p va perm s
       }
   }"

definition load_icode :: "nat \<Rightarrow> u8 list \<Rightarrow> kern \<Rightarrow> kern option" where
  "load_icode e binary s = do {
     ehdr \<leftarrow> elf_from binary;
     s \<leftarrow> mfold (\<lambda>ph_off s. do {
            ph \<leftarrow> elf_phdr binary (unat ph_off);
            if p_type ph = PT_LOAD then do {
              (r, s) \<leftarrow> elf_load_seg ph (drop (unat (p_offset ph)) binary) (load_icode_mapper e) s;
              case r of Inl _ \<Rightarrow> None | Inr _ \<Rightarrow> Some s
            }
            else Some s
          }) (ELF_FOREACH_PHDR_OFF ehdr) s;
     Some (upd_env e (\<lambda>v. v\<lparr>env_tf := (env_tf v)\<lparr>cp0_epc := e_entry ehdr\<rparr>\<rparr>) s)
   }"

text \<open>
  The result of \<^verbatim>\<open>env_alloc\<close> is not looked at; when it fails, \<^verbatim>\<open>e\<close> is uninitialised.
\<close>

definition env_create :: "u8 list \<Rightarrow> u32 \<Rightarrow> kern \<Rightarrow> (nat \<times> kern) option" where
  "env_create binary priority s = do {
     (r, s) \<leftarrow> env_alloc 0 s;
     case r of
       Inl _ \<Rightarrow> None
     | Inr e \<Rightarrow> do {
         let s = upd_env e (\<lambda>v. v\<lparr>env_pri := priority, env_status := ENV_RUNNABLE\<rparr>) s;
         s \<leftarrow> load_icode e binary s;
         Some (e, s\<lparr>env_sched_list := TAILQ_INSERT_HEAD e (env_sched_list s)\<rparr>)
       }
   }"

section \<open>Running\<close>

definition env_run :: "nat \<Rightarrow> kern \<Rightarrow> kern option" where
  "env_run e s =
     (if env_status (envs s e) \<noteq> ENV_RUNNABLE then None
      else
        let s = (case curenv s of None \<Rightarrow> s | Some c \<Rightarrow> upd_env c (\<lambda>v. v\<lparr>env_tf := kstack_tf s\<rparr>) s);
            s = s\<lparr>curenv := Some e\<rparr>;
            s = upd_env e (\<lambda>v. v\<lparr>env_runs := env_runs v + 1\<rparr>) s;
            s = s\<lparr>cur_pgdir := env_pgdir (envs s e)\<rparr>
        in Some (s\<lparr>user_tf := env_tf (envs s e), user_asid := env_asid (envs s e)\<rparr>))"

definition schedule :: "bool \<Rightarrow> kern \<Rightarrow> kern option" where
  "schedule yield s = do {
     let runnable = (\<lambda>e. env_status (envs s e) = ENV_RUNNABLE);
     (e, s) \<leftarrow>
       (if yield \<or> sched_count s = 0 \<or> (case curenv s of None \<Rightarrow> True | Some e \<Rightarrow> \<not> runnable e) then do {
          s \<leftarrow> (case curenv s of
                 None \<Rightarrow> Some s
               | Some e \<Rightarrow>
                   if runnable e then do {
                     q \<leftarrow> TAILQ_REMOVE e (env_sched_list s);
                     q \<leftarrow> TAILQ_INSERT_TAIL e q;
                     Some (s\<lparr>env_sched_list := q\<rparr>)
                   }
                   else Some s);
          if TAILQ_EMPTY (env_sched_list s) then None
          else do {
            e \<leftarrow> TAILQ_FIRST (env_sched_list s);
            Some (e, s\<lparr>sched_count := env_pri (envs s e)\<rparr>)
          }
        }
        else map_option (\<lambda>e. (e, s)) (curenv s));
     env_run e (s\<lparr>sched_count := sched_count s - 1\<rparr>)
   }"

section \<open>Freeing an environment\<close>

text \<open>One slot of the page directory: its mappings, then its table.\<close>

definition env_free_pde :: "nat \<Rightarrow> nat \<Rightarrow> kern \<Rightarrow> kern option" where
  "env_free_pde e pdeno s =
     (let d = env_pgdir (envs s e); asid = env_asid (envs s e) in
      if \<not> pte_valid (pm s d pdeno) then Some s
      else do {
        let pa = PTE_ADDR (pm s d pdeno);
        pt \<leftarrow> KADDR pa s;
        s \<leftarrow> mfold (\<lambda>pteno s.
               if pte_valid (pm s pt pteno)
               then page_remove d asid (push_bit 22 (of_nat pdeno) OR push_bit 12 (of_nat pteno)) s
               else Some s) [0..<Suc (PTX (NOT 0))] s;
        let s = pte_store (d, pdeno) 0 s;
        pp \<leftarrow> pa2page pa s;
        s \<leftarrow> page_decref pp s;
        Some (tlb_invalidate asid (UVPT + push_bit 12 (of_nat pdeno)) s)
      })"

definition env_free :: "nat \<Rightarrow> kern \<Rightarrow> kern option" where
  "env_free e s = do {
     let s = printk (Msg_free_env (case curenv s of None \<Rightarrow> 0 | Some c \<Rightarrow> env_id (envs s c))
                       (env_id (envs s e))) s;
     s \<leftarrow> mfold (env_free_pde e) [0..<PDX UTOP] s;
     pp \<leftarrow> pa2page (page2pa (env_pgdir (envs s e))) s;
     s \<leftarrow> page_decref pp s;
     let s = asid_free (env_asid (envs s e)) s;
     let s = tlb_invalidate (env_asid (envs s e)) (UVPT + push_bit 12 (of_nat (PDX UVPT))) s;
     let s = upd_env e (\<lambda>v. v\<lparr>env_status := ENV_FREE\<rparr>) s;
     let s = s\<lparr>env_free_list := LIST_INSERT_HEAD e (env_free_list s)\<rparr>;
     q \<leftarrow> TAILQ_REMOVE e (env_sched_list s);
     Some (s\<lparr>env_sched_list := q\<rparr>)
   }"

definition env_destroy :: "nat \<Rightarrow> kern \<Rightarrow> (unit ctl \<times> kern) option" where
  "env_destroy e s = do {
     s \<leftarrow> env_free e s;
     if curenv s = Some e then do {
       s \<leftarrow> schedule True (printk Msg_killed (s\<lparr>curenv := None\<rparr>));
       Some (Switched, s)
     }
     else Some (Returns (), s)
   }"

section \<open>Background jobs of the shell\<close>

text \<open>
  The array \<^verbatim>\<open>jobs\<close> has 32 entries with 1024 bytes for the command; a write behind them is
  \<open>None\<close>. The command is the C string without its terminating zero.
\<close>

definition env_create_job :: "u32 \<Rightarrow> u8 list \<Rightarrow> kern \<Rightarrow> kern option" where
  "env_create_job envid cmd s =
     (if jobCnt s \<ge> 32 \<or> length cmd \<ge> 1024 then None
      else Some (s\<lparr>jobs := (jobs s)(jobCnt s :=
               \<lparr>job_id = jobCnt s + 1, job_status = 1, job_envid = envid, job_cmd = cmd\<rparr>),
             jobCnt := jobCnt s + 1\<rparr>))"

definition env_print_jobs :: "kern \<Rightarrow> kern" where
  "env_print_jobs s = fold (\<lambda>i s. let j = jobs s i in
     printk (Msg_job (job_id j) (job_status j = 1) (job_envid j) (job_cmd j)) s) [0..<jobCnt s] s"

definition env_set_job_done :: "u32 \<Rightarrow> kern \<Rightarrow> kern" where
  "env_set_job_done envid s =
     (case find (\<lambda>i. job_envid (jobs s i) = envid) [0..<jobCnt s] of
        None \<Rightarrow> s
      | Some i \<Rightarrow> s\<lparr>jobs := (jobs s)(i := (jobs s i)\<lparr>job_status := 0\<rparr>)\<rparr>)"

definition env_fg_job :: "u32 \<Rightarrow> kern \<Rightarrow> u32" where
  "env_fg_job jobId s =
     (case find (\<lambda>i. int (job_id (jobs s i)) = sint jobId) [0..<jobCnt s] of
        None \<Rightarrow> - 1
      | Some i \<Rightarrow> job_envid (jobs s i))"

definition env_kill_job :: "u32 \<Rightarrow> kern \<Rightarrow> (unit ctl \<times> kern) option" where
  "env_kill_job jobId s =
     (case find (\<lambda>i. int (job_id (jobs s i)) = sint jobId) [0..<jobCnt s] of
        None \<Rightarrow> Some (Returns (), printk (Msg_no_job (sint jobId)) s)
      | Some i \<Rightarrow>
          let e = ENVX (job_envid (jobs s i)) in
          if env_status (envs s e) \<noteq> ENV_RUNNABLE
          then Some (Returns (), printk (Msg_not_running (job_envid (jobs s i))) s)
          else do {
            (c, s) \<leftarrow> env_destroy e s;
            case c of
              Switched \<Rightarrow> Some (Switched, s)
            | Returns _ \<Rightarrow>
                Some (Returns (), s\<lparr>jobs := (jobs s)(i := (jobs s i)\<lparr>job_status := 0\<rparr>)\<rparr>)
          })"

end
