(* ===== verification/Pmap_Free.thy ===== *)
theory Pmap_Free
  imports Address_Space
begin

unbundle bit_operations_syntax

text \<open>
  Taking an address space down, as \<^verbatim>\<open>env_free\<close> does: all mappings of a directory slot are
  removed, then its page table is released, and in the end the directory itself. The lemmas
  are about the page tables alone; \<open>Env_Inv\<close> applies them to \<^verbatim>\<open>env_free\<close>.
\<close>

section \<open>The address of an entry\<close>

lemma unat_push_bit_u32:
  assumes "i * 2 ^ k < 2 ^ 32"
  shows "unat (push_bit k (of_nat i) :: u32) = i * 2 ^ k"
proof -
  have "push_bit k (of_nat i :: u32) = of_nat (i * 2 ^ k)" by (simp add: push_bit_eq_mult)
  then show ?thesis using unat_of_nat_u32 [OF assms] by metis
qed

lemma slot_va_unat:
  assumes "i < 1024" "j < 1024"
  shows "unat (push_bit 22 (of_nat i) OR push_bit 12 (of_nat j) :: u32) = i * 2 ^ 22 + j * 2 ^ 12"
proof -
  have i: "unat (push_bit 22 (of_nat i) :: u32) = i * 2 ^ 22"
    using assms(1) by (intro unat_push_bit_u32) simp
  have j: "unat (push_bit 12 (of_nat j) :: u32) = j * 2 ^ 12"
    using assms(2) by (intro unat_push_bit_u32) simp
  have d: "drop_bit 22 (push_bit 12 (of_nat j) :: u32) = 0"
    using assms(2) j by (intro drop_bit_lt) simp
  have "\<not> bit (push_bit 22 (of_nat i) :: u32) n \<or> \<not> bit (push_bit 12 (of_nat j) :: u32) n" for n
  proof (cases "n < 22")
    case False
    then have "bit (push_bit 12 (of_nat j) :: u32) n \<longleftrightarrow> bit (drop_bit 22 (push_bit 12 (of_nat j) :: u32)) (n - 22)"
      by (simp only: bit_drop_bit_eq) simp
    then show ?thesis unfolding d by simp
  qed (simp add: bit_simps)
  then have "push_bit 22 (of_nat i) OR push_bit 12 (of_nat j) =
      (push_bit 22 (of_nat i) + push_bit 12 (of_nat j) :: u32)"
    by (simp only: disjunctive_add)
  then show ?thesis
    using assms i j by (simp only: unat_word_ariths) simp
qed

lemma slot_va:
  assumes "i < 509" "j < 1024"
  shows "PDX (push_bit 22 (of_nat i) OR push_bit 12 (of_nat j)) = i"
    "PTX (push_bit 22 (of_nat i) OR push_bit 12 (of_nat j)) = j"
    "push_bit 22 (of_nat i) OR push_bit 12 (of_nat j) < UTOP"
proof -
  note u = slot_va_unat [of i j]
  have "i * 4194304 + j * 4096 < 509 * 4194304" using assms by linarith
  then show "push_bit 22 (of_nat i) OR push_bit 12 (of_nat j) < UTOP"
    using u assms by (simp add: word_less_nat_alt mos_consts)
  have "(i * 4194304 + j * 4096) div 4194304 = i" using assms(2) by (intro div_nat_eqI) simp_all
  then show "PDX (push_bit 22 (of_nat i) OR push_bit 12 (of_nat j)) = i"
    using u assms by (simp add: PDX_eq)
  have "(i * 4194304 + j * 4096) div 4096 = i * 1024 + j" by simp
  then show "PTX (push_bit 22 (of_nat i) OR push_bit 12 (of_nat j)) = j"
    using u assms by (simp add: PTX_eq)
qed

section \<open>Emptying a slot\<close>

definition same_tabs :: "'z pmap_scheme \<Rightarrow> 'z pmap_scheme \<Rightarrow> nat set \<Rightarrow> bool" where
  "same_tabs s s' D \<longleftrightarrow> (\<forall>d \<in> D. \<forall>i. has_tab s' d i = has_tab s d i \<and> tab s' d i = tab s d i)"

definition free_slot_step :: "nat \<Rightarrow> u32 \<Rightarrow> nat \<Rightarrow> nat \<Rightarrow> nat \<Rightarrow> 'z pmap_scheme \<Rightarrow> 'z pmap_scheme option" where
  "free_slot_step d asid pt i j s =
     (if pte_valid (pm s pt j)
      then page_remove d asid (push_bit 22 (of_nat i) OR push_bit 12 (of_nat j)) s
      else Some s)"

lemma free_slot_step_ok:
  fixes s :: "'z pmap_scheme"
  assumes inv: "vm_inv s D X xs" and d: "d \<in> D" "i < 509" "j < 1024" "has_tab s d i"
  shows "\<exists>s' ys. free_slot_step d asid (tab s d i) i j s = Some s' \<and> vm_inv s' D X ys \<and>
    (\<forall>d' \<in> D. as_map s' d' = (if d' = d then (as_map s d)((i, j) := None) else as_map s d')) \<and>
    same_tabs s s' D \<and> npage s' = npage s \<and> pmap.more s' = pmap.more s"
proof -
  let ?va = "push_bit 22 (of_nat i) OR push_bit 12 (of_nat j) :: u32"
  note va = slot_va [OF d(2,3)]
  have k: "vaddr ?va = (i, j)" using va by (simp add: vaddr_def)
  have am: "as_map s d (i, j) = (if pte_valid (pm s (tab s d i) j) then Some (pm s (tab s d i) j) else None)"
    using d by (simp add: as_map_def upte_def)
  show ?thesis
  proof (cases "pte_valid (pm s (tab s d i) j)")
    case True
    then have e: "as_map s d (vaddr ?va) = Some (pm s (tab s d i) j)" using am k by simp
    show ?thesis
      using page_remove_present [OF inv d(1) va(3) e, of asid] True k
      unfolding free_slot_step_def same_tabs_def by auto
  next
    case False
    then show ?thesis
      using inv am by (auto simp: free_slot_step_def same_tabs_def fun_eq_iff)
  qed
qed

lemma free_slot_loop:
  fixes s :: "'z pmap_scheme"
  assumes inv: "vm_inv s D X xs" and d: "d \<in> D" "i < 509" "has_tab s d i" and n: "n \<le> 1024"
  shows "\<exists>s' ys. mfold (free_slot_step d asid (tab s d i) i) [0..<n] s = Some s' \<and> vm_inv s' D X ys \<and>
    (\<forall>d' \<in> D. as_map s' d' = (if d' = d then (\<lambda>(a, b). if a = i \<and> b < n then None else as_map s d (a, b))
       else as_map s d')) \<and>
    same_tabs s s' D \<and> npage s' = npage s \<and> pmap.more s' = pmap.more s"
  using n
proof (induction n)
  case 0
  then show ?case using inv by (auto simp: same_tabs_def)
next
  case (Suc n)
  then obtain s1 ys where s1: "mfold (free_slot_step d asid (tab s d i) i) [0..<n] s = Some s1"
    "vm_inv s1 D X ys" "\<forall>d' \<in> D. as_map s1 d' =
      (if d' = d then (\<lambda>(a, b). if a = i \<and> b < n then None else as_map s d (a, b)) else as_map s d')"
    "same_tabs s s1 D" "npage s1 = npage s" "pmap.more s1 = pmap.more s" by auto
  have t: "has_tab s1 d i" "tab s1 d i = tab s d i" using s1(4) d by (auto simp: same_tabs_def)
  from free_slot_step_ok [OF s1(2) d(1,2) _ t(1), of n asid] Suc.prems t(2) obtain s2 zs where
    s2: "free_slot_step d asid (tab s d i) i n s1 = Some s2" "vm_inv s2 D X zs"
      "\<forall>d' \<in> D. as_map s2 d' = (if d' = d then (as_map s1 d)((i, n) := None) else as_map s1 d')"
      "same_tabs s1 s2 D" "npage s2 = npage s1" "pmap.more s2 = pmap.more s1" by auto
  have "as_map s2 d' = (if d' = d then (\<lambda>(a, b). if a = i \<and> b < Suc n then None else as_map s d (a, b))
       else as_map s d')" if "d' \<in> D" for d'
    using s1(3) s2(3) that d(1) by (auto simp: fun_eq_iff less_Suc_eq)
  with s1 s2 show ?case by (auto simp: mfold_append same_tabs_def)
qed

section \<open>Releasing a table and a directory\<close>

lemma tabs_ok_mono:
  assumes "tabs_ok s D" "D' \<subseteq> D" "npage s' = npage s"
    "\<And>d i. d \<in> D' \<Longrightarrow> i < 509 \<Longrightarrow> has_tab s' d i \<Longrightarrow> has_tab s d i \<and> tab s' d i = tab s d i"
  shows "tabs_ok s' D'"
  unfolding tabs_ok_def assms(3)
proof (intro conjI ballI allI impI; (elim conjE)?)
  fix d i assume a: "d \<in> D'" "i < 509" "has_tab s' d i"
  then show "tab s' d i < npage s" "tab s' d i \<notin> D'"
    using assms(4) [OF a] assms(1,2) unfolding tabs_ok_def by (metis subsetD)+
next
  fix d i d' i' assume a: "d \<in> D'" "i < 509" "d' \<in> D'" "i' < 509" "has_tab s' d i" "has_tab s' d' i'"
    "tab s' d i = tab s' d' i'"
  then have "d = d' \<and> i = i'"
    using assms(4) [OF a(1,2,5)] assms(4) [OF a(3,4,6)] assms(1,2) unfolding tabs_ok_def
    by (metis subsetD)
  then show "d = d'" "i = i'" by auto
qed

lemma vm_inv_drop_table:
  fixes s s' :: "'z pmap_scheme"
  assumes inv: "vm_inv s D X xs" and d: "d \<in> D" "i < 509" "has_tab s d i"
    and e: "\<forall>j. as_map s d (i, j) = None"
    and s': "npage s' = npage s" "pp_ref s' = (pp_ref s)(tab s d i := pp_ref s (tab s d i) - 1)"
      "pm s' = (pm s)(d := (pm s d)(i := 0))" "lrep (page_free_list s') ys"
      "ys = (if unat (pp_ref s (tab s d i)) = 1 then tab s d i # xs else xs)"
  shows "vm_inv s' D X ys" "d' \<in> D \<Longrightarrow> as_map s' d' = as_map s d'"
    "d' \<in> D \<Longrightarrow> has_tab s' d' i' \<longleftrightarrow> has_tab s d' i' \<and> \<not> (d' = d \<and> i' = i)"
proof -
  let ?p = "tab s d i"
  note ok = vm_invD(10-12) [OF inv]
  have ht: "has_tab s' d' i' \<longleftrightarrow> has_tab s d' i' \<and> \<not> (d' = d \<and> i' = i)" for d' i'
    by (auto simp: has_tab_def s')
  have tb: "tab s' d' i' = tab s d' i'" if "\<not> (d' = d \<and> i' = i)" for d' i'
    using that by (auto simp: tab_def s')
  have ut: "upte s' d' i' j = upte s d' i' j" if "d' \<in> D" "i' < 509" "has_tab s d' i'" "\<not> (d' = d \<and> i' = i)"
    for d' i' j
    using ok(2) [OF that(1-3)] d(1) tb [OF that(4)] by (auto simp: upte_def s')
  have am: "as_map s' d' = as_map s d'" if "d' \<in> D" for d'
  proof (rule ext)
    fix ij :: "nat \<times> nat"
    obtain i' j where ij: "ij = (i', j)" by (cases ij)
    show "as_map s' d' ij = as_map s d' ij"
      using ht [of d' i'] ut [OF that, of i'] e by (cases "d' = d \<and> i' = i") (auto simp: ij as_map_def)
  qed
  show "d' \<in> D \<Longrightarrow> as_map s' d' = as_map s d'" by (rule am)
  show "d' \<in> D \<Longrightarrow> has_tab s' d' i' \<longleftrightarrow> has_tab s d' i' \<and> \<not> (d' = d \<and> i' = i)" by (rule ht)
  have mp: "maps s' D q = maps s D q" for q by (rule maps_eqI) (rule am)
  have ts: "tabs s' D = tabs s D - {?p}"
  proof (intro set_eqI iffI)
    fix t assume "t \<in> tabs s' D"
    then obtain a b where 1: "a \<in> D" "b < 509" "has_tab s' a b" "t = tab s' a b" by (rule tabs_memE)
    then have 2: "has_tab s a b" "\<not> (a = d \<and> b = i)" using ht by auto
    then show "t \<in> tabs s D - {?p}"
      using tabs_memI [OF 1(1,2) 2(1)] tb [OF 2(2)] 1(4) ok(3) [OF 1(1,2) d(1,2) 2(1) d(3)] by auto
  next
    fix t assume a: "t \<in> tabs s D - {?p}"
    then obtain a b where 1: "a \<in> D" "b < 509" "has_tab s a b" "t = tab s a b"
      by (auto elim: tabs_memE)
    then have "\<not> (a = d \<and> b = i)" using a by auto
    then show "t \<in> tabs s' D" using tabs_memI [OF 1(1,2), of s'] ht tb 1 by auto
  qed
  have tok: "tabs_ok s' D"
    by (rule tabs_ok_mono [of s D]) (use inv ht tb s'(1) in \<open>auto simp: vm_inv_def\<close>)
  have p: "?p < npage s" "?p \<in> tabs s D" using ok(1) [OF d] tabs_memI [OF d] by auto
  have pos: "0 < unat (pp_ref s ?p)" using vm_invD(9) [OF inv p(1)] p(2) by simp
  have "refs_ok s' D X"
    unfolding refs_ok_def mp ts s'(1,2)
    using vm_invD(9) [OF inv] p pos by (auto simp: unat_minus_1)
  moreover have "free_ok s' ys"
    using s'(4,5) vm_invD(7,8) [OF inv] p(1) pos
    by (auto simp: free_ok_def s'(1,2) unat_eq_Suc_0 split: if_splits)
  moreover have "isolated s' D X"
    using vm_invD(13,14) [OF inv] by (simp add: isolated_def mp ts)
  ultimately show "vm_inv s' D X ys"
    using inv am tok by (simp add: vm_inv_def s'(1))
qed

lemma vm_inv_drop_dir:
  fixes s s' :: "'z pmap_scheme"
  assumes inv: "vm_inv s D X xs" and d: "d \<in> D" "\<forall>i < 509. \<not> has_tab s d i"
    and s': "npage s' = npage s" "pp_ref s' = (pp_ref s)(d := pp_ref s d - 1)"
      "pm s' = pm s" "lrep (page_free_list s') ys"
      "ys = (if unat (pp_ref s d) = 1 then d # xs else xs)"
  shows "vm_inv s' (D - {d}) (X(d := X d - 1)) ys" "as_map s' = as_map s"
proof -
  show am: "as_map s' = as_map s" by (rule ext) (rule as_map_cong [OF s'(3)])
  have ht: "has_tab s' = has_tab s" "tab s' = tab s" by (intro ext; simp add: has_tab_def tab_def s'(3))+
  have none: "as_map s d = Map.empty" using d(2) by (intro ext) (auto simp: as_map_def)
  then have mp: "maps s' (D - {d}) q = maps s D q" for q
    unfolding maps_def am by auto
  have ts: "tabs s' (D - {d}) = tabs s D"
    unfolding tabs_def ht using d(2) by blast
  note X = vm_invD(4) [OF inv d(1)] and r = vm_invD(9) [OF inv] and dn = vm_invD(3) [OF inv d(1)]
  have pos: "0 < unat (pp_ref s d)" using r [OF dn] X by simp
  have "refs_ok s' (D - {d}) (X(d := X d - 1))"
    unfolding refs_ok_def mp ts s'(1,2) using r X pos by (auto simp: unat_minus_1)
  moreover have "tabs_ok s' (D - {d})"
    by (rule tabs_ok_mono [of s D]) (use inv ht s'(1) in \<open>auto simp: vm_inv_def\<close>)
  moreover have "free_ok s' ys"
    using s'(4,5) vm_invD(7,8) [OF inv] dn pos
    by (auto simp: free_ok_def s'(1,2) unat_eq_Suc_0 split: if_splits)
  moreover have "isolated s' (D - {d}) (X(d := X d - 1))"
    using vm_invD(13,14) [OF inv] by (auto simp: isolated_def mp ts)
  ultimately show "vm_inv s' (D - {d}) (X(d := X d - 1)) ys"
    using inv by (auto simp: vm_inv_def s'(1) am)
qed

end
