(* ===== verification/Env_Inv.thy ===== *)
theory Env_Inv
  imports Env Pmap_Free
begin

unbundle bit_operations_syntax

text \<open>
  The invariant of the kernel, \<open>kinv\<close>, and its preservation by the operations of
  \<^verbatim>\<open>kern/env.c\<close> and \<^verbatim>\<open>kern/sched.c\<close>. It contains the invariant that \<^verbatim>\<open>kern/env.c\<close> states of
  the scheduling queue (an environment is in \<^verbatim>\<open>env_sched_list\<close> exactly when it is runnable),
  the one of the free list, the exactness of the page reference counts over the address
  spaces of all live environments, and the uniqueness of directories, ASIDs and identifiers.
\<close>

section \<open>The state\<close>

text \<open>Two kernel states that agree on the part beyond the memory state.\<close>

lemma kern_more:
  assumes "pmap.more s' = pmap.more s"
  shows "envs s' = envs s" "curenv s' = curenv s" "env_free_list s' = env_free_list s"
    "env_sched_list s' = env_sched_list s" "base_pgdir s' = base_pgdir s"
    "asid_bitmap s' = asid_bitmap s" "mkenvid_i s' = mkenvid_i s" "jobs s' = jobs s"
    "jobCnt s' = jobCnt s" "sched_count s' = sched_count s" "cur_pgdir s' = cur_pgdir s"
    "kstack_tf s' = kstack_tf s" "user_tf s' = user_tf s" "user_asid s' = user_asid s"
    "kout s' = kout s"
  using assms by (cases s; cases s'; simp)+

lemma upd_env_simps [simp]:
  "envs (upd_env e f s) = (envs s)(e := f (envs s e))"
  "curenv (upd_env e f s) = curenv s" "env_free_list (upd_env e f s) = env_free_list s"
  "env_sched_list (upd_env e f s) = env_sched_list s" "asid_bitmap (upd_env e f s) = asid_bitmap s"
  "base_pgdir (upd_env e f s) = base_pgdir s" "mkenvid_i (upd_env e f s) = mkenvid_i s"
  "cur_pgdir (upd_env e f s) = cur_pgdir s" "kstack_tf (upd_env e f s) = kstack_tf s"
  "sched_count (upd_env e f s) = sched_count s" "kout (upd_env e f s) = kout s"
  "jobs (upd_env e f s) = jobs s" "jobCnt (upd_env e f s) = jobCnt s"
  "user_tf (upd_env e f s) = user_tf s" "user_asid (upd_env e f s) = user_asid s"
  "npage (upd_env e f s) = npage s" "pp_ref (upd_env e f s) = pp_ref s" "pm (upd_env e f s) = pm s"
  "page_free_list (upd_env e f s) = page_free_list s" "tlb (upd_env e f s) = tlb s"
  by (simp_all add: upd_env_def)

lemma printk_simps [simp]:
  "envs (printk m s) = envs s" "curenv (printk m s) = curenv s"
  "env_free_list (printk m s) = env_free_list s" "env_sched_list (printk m s) = env_sched_list s"
  "asid_bitmap (printk m s) = asid_bitmap s" "base_pgdir (printk m s) = base_pgdir s"
  "mkenvid_i (printk m s) = mkenvid_i s" "cur_pgdir (printk m s) = cur_pgdir s"
  "kstack_tf (printk m s) = kstack_tf s" "sched_count (printk m s) = sched_count s"
  "kout (printk m s) = kout s @ [m]" "jobs (printk m s) = jobs s" "jobCnt (printk m s) = jobCnt s"
  "user_tf (printk m s) = user_tf s" "user_asid (printk m s) = user_asid s"
  "npage (printk m s) = npage s" "pp_ref (printk m s) = pp_ref s" "pm (printk m s) = pm s"
  "page_free_list (printk m s) = page_free_list s" "tlb (printk m s) = tlb s"
  by (simp_all add: printk_def)

lemma env_status_distinct [simp]:
  "ENV_FREE \<noteq> ENV_RUNNABLE" "ENV_RUNNABLE \<noteq> ENV_FREE" "ENV_FREE \<noteq> ENV_NOT_RUNNABLE"
  "ENV_NOT_RUNNABLE \<noteq> ENV_FREE" "ENV_RUNNABLE \<noteq> ENV_NOT_RUNNABLE" "ENV_NOT_RUNNABLE \<noteq> ENV_RUNNABLE"
  by (simp_all add: mos_consts)

section \<open>The invariant\<close>

definition live :: "kern \<Rightarrow> nat set" where
  "live s = {e. e < NENV \<and> env_status (envs s e) \<noteq> ENV_FREE}"

definition pgdir_of :: "kern \<Rightarrow> nat \<Rightarrow> nat" where
  "pgdir_of s e = env_pgdir (envs s e)"

definition asid_of :: "kern \<Rightarrow> nat \<Rightarrow> nat" where
  "asid_of s e = unat (env_asid (envs s e))"

definition dirs :: "kern \<Rightarrow> nat set" where
  "dirs s = pgdir_of s ` live s"

definition mem_ok :: "kern \<Rightarrow> bool" where
  "mem_ok s \<longleftrightarrow> (\<exists>X xs. vm_inv s (dirs s) X xs) \<and> inj_on (pgdir_of s) (live s)"

definition free_envs_ok :: "kern \<Rightarrow> bool" where
  "free_envs_ok s \<longleftrightarrow> (\<exists>fl. lrep (env_free_list s) fl \<and> set fl = {e. e < NENV \<and> env_status (envs s e) = ENV_FREE})"

definition sched_ok :: "kern \<Rightarrow> nat list \<Rightarrow> bool" where
  "sched_ok s q \<longleftrightarrow> tqrep (env_sched_list s) q \<and>
     set q = {e. e < NENV \<and> env_status (envs s e) = ENV_RUNNABLE}"

definition asids_ok :: "kern \<Rightarrow> bool" where
  "asids_ok s \<longleftrightarrow> inj_on (asid_of s) (live s) \<and>
     (\<forall>e \<in> live s. asid_of s e < NASID \<and> asid_used (asid_bitmap s) (asid_of s e))"

definition ids_ok :: "kern \<Rightarrow> bool" where
  "ids_ok s \<longleftrightarrow> (\<forall>e \<in> live s. ENVX (env_id (envs s e)) = e)"

definition cur_ok :: "kern \<Rightarrow> bool" where
  "cur_ok s \<longleftrightarrow> (case curenv s of None \<Rightarrow> True | Some c \<Rightarrow> c \<in> live s \<and> cur_pgdir s = pgdir_of s c)"

definition kinv0 :: "kern \<Rightarrow> nat list \<Rightarrow> bool" where
  "kinv0 s q \<longleftrightarrow> mem_ok s \<and> free_envs_ok s \<and> sched_ok s q \<and> asids_ok s \<and> ids_ok s"

definition kinv :: "kern \<Rightarrow> nat list \<Rightarrow> bool" where
  "kinv s q \<longleftrightarrow> kinv0 s q \<and> cur_ok s"

text \<open>
  The fields of an environment that the invariant speaks about; an operation that leaves
  them, the memory and the lists alone keeps the invariant.
\<close>

definition env_core :: "Env \<Rightarrow> u32 \<times> nat \<times> u32 \<times> u32" where
  "env_core v = (env_status v, env_pgdir v, env_asid v, env_id v)"

text \<open>The fields that the messages between environments use.\<close>

definition ipc_core :: "Env \<Rightarrow> u32 \<times> u32 \<times> u32" where
  "ipc_core v = (env_ipc_recving v, waiting_return_value v, env_ipc_dstva v)"

definition same_core :: "kern \<Rightarrow> kern \<Rightarrow> bool" where
  "same_core s s' \<longleftrightarrow> (\<forall>e. env_core (envs s' e) = env_core (envs s e)) \<and>
     env_free_list s' = env_free_list s \<and> asid_bitmap s' = asid_bitmap s \<and>
     npage s' = npage s \<and> pp_ref s' = pp_ref s \<and> pm s' = pm s \<and> page_free_list s' = page_free_list s"

lemma same_core_refl [simp]: "same_core s s"
  by (simp add: same_core_def)

lemma same_core_live:
  assumes "\<forall>e. env_core (envs s' e) = env_core (envs s e)"
  shows "live s' = live s" "pgdir_of s' = pgdir_of s" "asid_of s' = asid_of s" "dirs s' = dirs s"
    "env_status (envs s' e) = env_status (envs s e)" "env_id (envs s' e) = env_id (envs s e)"
proof -
  have c: "env_status (envs s' e) = env_status (envs s e)" "env_pgdir (envs s' e) = env_pgdir (envs s e)"
    "env_asid (envs s' e) = env_asid (envs s e)" "env_id (envs s' e) = env_id (envs s e)" for e
    using spec [OF assms, of e] by (auto simp: env_core_def)
  show "live s' = live s" by (simp add: live_def c)
  moreover show "pgdir_of s' = pgdir_of s" by (rule ext) (simp add: pgdir_of_def c)
  ultimately show "dirs s' = dirs s" by (simp add: dirs_def)
  show "asid_of s' = asid_of s" by (rule ext) (simp add: asid_of_def c)
  show "env_status (envs s' e) = env_status (envs s e)" "env_id (envs s' e) = env_id (envs s e)"
    by (rule c)+
qed

lemma same_core_ok:
  assumes "same_core s s'"
  shows "mem_ok s' = mem_ok s" "free_envs_ok s' = free_envs_ok s" "asids_ok s' = asids_ok s"
    "ids_ok s' = ids_ok s" "env_sched_list s' = env_sched_list s \<Longrightarrow> sched_ok s' q = sched_ok s q"
proof -
  from assms have c: "\<forall>e. env_core (envs s' e) = env_core (envs s e)" by (simp add: same_core_def)
  note l = same_core_live [OF c]
  have "vm_inv s' (dirs s) X xs = vm_inv s (dirs s) X xs" for X xs
    using assms by (intro vm_inv_cong) (auto simp: same_core_def)
  then show "mem_ok s' = mem_ok s" by (simp add: mem_ok_def l)
  show "free_envs_ok s' = free_envs_ok s" "asids_ok s' = asids_ok s" "ids_ok s' = ids_ok s"
    using assms by (simp_all add: free_envs_ok_def asids_ok_def ids_ok_def l same_core_def)
  show "env_sched_list s' = env_sched_list s \<Longrightarrow> sched_ok s' q = sched_ok s q"
    by (simp add: sched_ok_def l)
qed

lemma kinv0_frame:
  assumes "same_core s s'" "env_sched_list s' = env_sched_list s"
  shows "kinv0 s' q = kinv0 s q"
  using same_core_ok [OF assms(1)] assms(2) by (simp add: kinv0_def)

lemma kinv_frame:
  assumes "same_core s s'" "env_sched_list s' = env_sched_list s" "curenv s' = curenv s"
    "cur_pgdir s' = cur_pgdir s"
  shows "kinv s' q = kinv s q"
  using kinv0_frame [OF assms(1,2)] same_core_live [of s' s] assms
  by (auto simp: kinv_def cur_ok_def same_core_def split: option.splits)

lemma same_core_upd_env:
  "env_core (f (envs s e)) = env_core (envs s e) \<Longrightarrow> same_core s (upd_env e f s)"
  by (auto simp: same_core_def)

lemma runnable_mem: "sched_ok s q \<Longrightarrow> e \<in> set q \<longleftrightarrow> e < NENV \<and> env_status (envs s e) = ENV_RUNNABLE"
  by (auto simp: sched_ok_def)

lemma runnable_live: "e < NENV \<Longrightarrow> env_status (envs s e) = ENV_RUNNABLE \<Longrightarrow> e \<in> live s"
  by (simp add: live_def)

lemma kinv0_distinct: "kinv0 s q \<Longrightarrow> distinct q"
  using tqrep_distinct by (auto simp: kinv0_def sched_ok_def)

section \<open>Running and scheduling\<close>

text \<open>
  What a switch does to the environments: the trap frame of the one that ran is saved, and
  nothing else but the run counters changes; the processor continues with the saved frame of
  the new one.
\<close>

definition switched :: "kern \<Rightarrow> kern \<Rightarrow> bool" where
  "switched s s' \<longleftrightarrow> (\<forall>e. \<exists>n. envs s' e = (envs s e)\<lparr>env_tf := (if curenv s = Some e then kstack_tf s
      else env_tf (envs s e)), env_runs := n\<rparr>) \<and>
     (\<exists>e. curenv s' = Some e \<and> user_tf s' = env_tf (envs s' e) \<and> user_asid s' = env_asid (envs s' e) \<and>
        cur_pgdir s' = env_pgdir (envs s' e))"

lemma switched_from:
  assumes "envs s1 = envs s" "curenv s1 = curenv s" "kstack_tf s1 = kstack_tf s"
  shows "switched s1 s' = switched s s'"
  unfolding switched_def assms ..

lemma switched_ipc: "switched s s' \<Longrightarrow> ipc_core (envs s' e) = ipc_core (envs s e)"
  by (auto simp: switched_def ipc_core_def dest: spec [of _ e])

lemma env_run_ok:
  assumes inv: "kinv0 s q" and e: "e < NENV" "env_status (envs s e) = ENV_RUNNABLE"
  shows "\<exists>s'. env_run e s = Some s' \<and> kinv s' q \<and> curenv s' = Some e \<and> same_core s s' \<and>
    env_sched_list s' = env_sched_list s \<and> sched_count s' = sched_count s \<and> kout s' = kout s \<and>
    cur_pgdir s' = env_pgdir (envs s e) \<and> user_asid s' = env_asid (envs s e) \<and>
    (curenv s \<noteq> Some e \<longrightarrow> user_tf s' = env_tf (envs s e)) \<and>
    (curenv s = Some e \<longrightarrow> user_tf s' = kstack_tf s) \<and>
    (\<forall>c. curenv s = Some c \<longrightarrow> env_tf (envs s' c) = kstack_tf s) \<and> switched s s'"
proof -
  let ?s0 = "case curenv s of None \<Rightarrow> s | Some c \<Rightarrow> upd_env c (\<lambda>v. v\<lparr>env_tf := kstack_tf s\<rparr>) s"
  let ?s1 = "upd_env e (\<lambda>v. v\<lparr>env_runs := env_runs v + 1\<rparr>) (?s0\<lparr>curenv := Some e\<rparr>)"
  define s' where "s' = ?s1\<lparr>cur_pgdir := env_pgdir (envs ?s1 e), user_tf := env_tf (envs ?s1 e),
    user_asid := env_asid (envs ?s1 e)\<rparr>"
  have run: "env_run e s = Some s'"
    using e(2) by (simp add: env_run_def s'_def Let_def)
  have core: "same_core s s'"
    by (auto simp: same_core_def s'_def env_core_def split: option.splits)
  have q: "env_sched_list s' = env_sched_list s" by (simp add: s'_def split: option.split)
  have "kinv0 s' q" using kinv0_frame [OF core q] inv by simp
  moreover have "cur_ok s'"
    using e by (auto simp: cur_ok_def s'_def live_def pgdir_of_def split: option.splits)
  moreover have "\<exists>n. envs s' x = (envs s x)\<lparr>env_tf := (if curenv s = Some x then kstack_tf s
      else env_tf (envs s x)), env_runs := n\<rparr>" for x
    by (intro exI [of _ "if x = e then env_runs (envs s x) + 1 else env_runs (envs s x)"])
      (auto simp: s'_def split: option.splits)
  then have "switched s s'" by (auto simp: switched_def s'_def)
  ultimately show ?thesis
    using run core q by (auto simp: kinv_def s'_def split: option.splits)
qed

text \<open>What \<^verbatim>\<open>schedule\<close> picks: the queue after the rotation and the environment.\<close>

definition resched :: "kern \<Rightarrow> bool \<Rightarrow> bool" where
  "resched s yield \<longleftrightarrow> yield \<or> sched_count s = 0 \<or>
     (case curenv s of None \<Rightarrow> True | Some c \<Rightarrow> env_status (envs s c) \<noteq> ENV_RUNNABLE)"

definition rotated :: "kern \<Rightarrow> nat list \<Rightarrow> nat list" where
  "rotated s q = (case curenv s of
     None \<Rightarrow> q
   | Some c \<Rightarrow> if env_status (envs s c) = ENV_RUNNABLE then remove1 c q @ [c] else q)"

definition next_env :: "kern \<Rightarrow> bool \<Rightarrow> nat list \<Rightarrow> nat" where
  "next_env s yield q = (if resched s yield then hd (rotated s q) else the (curenv s))"

lemma kinv0_queue:
  assumes "kinv0 s q" "tqrep l q'" "set q' = set q"
  shows "kinv0 (s\<lparr>env_sched_list := l, sched_count := n\<rparr>) q'"
proof -
  let ?s = "s\<lparr>env_sched_list := l, sched_count := n\<rparr>"
  have "same_core s ?s" by (simp add: same_core_def)
  from same_core_ok(1-4) [OF this] assms show ?thesis
    by (simp add: kinv0_def sched_ok_def)
qed

lemma rotated_queue:
  assumes "kinv0 s q" and "\<forall>c. curenv s = Some c \<longrightarrow> c < NENV"
  obtains l where "tqrep l (rotated s q)" "set (rotated s q) = set q"
    "(case curenv s of
        None \<Rightarrow> Some s
      | Some e \<Rightarrow>
          if env_status (envs s e) = ENV_RUNNABLE then do {
            l \<leftarrow> TAILQ_REMOVE e (env_sched_list s);
            l \<leftarrow> TAILQ_INSERT_TAIL e l;
            Some (s\<lparr>env_sched_list := l\<rparr>)
          }
          else Some s) = Some (s\<lparr>env_sched_list := l\<rparr>)"
proof (cases "\<exists>c. curenv s = Some c \<and> env_status (envs s c) = ENV_RUNNABLE")
  case True
  then obtain c where c: "curenv s = Some c" "env_status (envs s c) = ENV_RUNNABLE" by auto
  with assms have m: "c \<in> set q" and t: "tqrep (env_sched_list s) q"
    by (auto simp: kinv0_def sched_ok_def)
  from tq.rep_rotate [OF t m] obtain h h' where
    "TAILQ_REMOVE c (env_sched_list s) = Some h" "TAILQ_INSERT_TAIL c h = Some h'"
    "tqrep h' (remove1 c q @ [c])" by blast
  moreover have "set (remove1 c q @ [c]) = set q"
    using m tqrep_distinct [OF t] by auto
  ultimately show thesis
    using c by (intro that [of h']) (simp_all add: rotated_def)
next
  case False
  then have "rotated s q = q" by (auto simp: rotated_def split: option.splits)
  with False assms(1) show thesis
    by (intro that [of "env_sched_list s"]) (auto simp: kinv0_def sched_ok_def split: option.splits)
qed

definition cur_bound :: "kern \<Rightarrow> bool" where
  "cur_bound s \<longleftrightarrow> (\<forall>c. curenv s = Some c \<longrightarrow> c < NENV)"

lemma kinv_cur_bound: "kinv s q \<Longrightarrow> cur_bound s"
  by (auto simp: kinv_def cur_ok_def cur_bound_def live_def)

lemma schedule_ok:
  assumes inv: "kinv0 s q" and c: "cur_bound s" and q: "q \<noteq> []"
  shows "\<exists>s'. schedule yield s = Some s' \<and>
    kinv s' (if resched s yield then rotated s q else q) \<and>
    curenv s' = Some (next_env s yield q) \<and> next_env s yield q \<in> set q \<and> same_core s s' \<and>
    sched_count s' =
      (if resched s yield then env_pri (envs s (next_env s yield q)) else sched_count s) - 1 \<and>
    kout s' = kout s \<and> switched s s'"
proof (cases "resched s yield")
  case True
  from c have c': "\<forall>c. curenv s = Some c \<longrightarrow> c < NENV" by (simp add: cur_bound_def)
  obtain l where l: "tqrep l (rotated s q)" "set (rotated s q) = set q"
    and r: "(case curenv s of None \<Rightarrow> Some s | Some e \<Rightarrow>
          if env_status (envs s e) = ENV_RUNNABLE then do {
            l \<leftarrow> TAILQ_REMOVE e (env_sched_list s);
            l \<leftarrow> TAILQ_INSERT_TAIL e l;
            Some (s\<lparr>env_sched_list := l\<rparr>)
          } else Some s) = Some (s\<lparr>env_sched_list := l\<rparr>)"
    by (rule rotated_queue [OF inv c']) (rule that)
  let ?e = "next_env s yield q"
  have ne: "rotated s q \<noteq> []" using l(2) q by auto
  have e: "?e = hd (rotated s q)" using True by (simp add: next_env_def)
  have eq: "?e \<in> set q" using hd_in_set [OF ne] unfolding e l(2) .
  have f: "TAILQ_FIRST l = Some ?e" "\<not> TAILQ_EMPTY l"
    using tqrep_FIRST [OF l(1)] tqrep_EMPTY [OF l(1)] ne e by (auto split: list.splits)
  let ?s = "s\<lparr>env_sched_list := l, sched_count := env_pri (envs s ?e) - 1\<rparr>"
  have "schedule yield s = env_run ?e ?s"
    using True r f unfolding schedule_def resched_def Let_def by simp
  moreover have k: "kinv0 ?s (rotated s q)" by (rule kinv0_queue [OF inv l])
  moreover have "?e < NENV" "env_status (envs ?s ?e) = ENV_RUNNABLE"
    using eq inv by (auto simp: kinv0_def sched_ok_def)
  ultimately obtain s' where s': "schedule yield s = Some s'" "kinv s' (rotated s q)"
    "curenv s' = Some ?e" "same_core ?s s'" "sched_count s' = env_pri (envs s ?e) - 1" "kout s' = kout s"
    "switched ?s s'"
    using env_run_ok [of ?s "rotated s q" ?e] by auto
  moreover have "same_core s s'" using s'(4) by (simp add: same_core_def)
  moreover have "switched s s'" using s'(7) switched_from [of ?s s s'] by simp
  ultimately show ?thesis using True eq by auto
next
  case False
  then obtain c where c': "curenv s = Some c" "env_status (envs s c) = ENV_RUNNABLE"
    by (auto simp: resched_def split: option.splits)
  let ?s = "s\<lparr>sched_count := sched_count s - 1\<rparr>"
  have "schedule yield s = env_run c ?s"
    using False c' unfolding schedule_def resched_def Let_def by simp
  moreover have k: "kinv0 ?s q" using kinv0_frame [of s ?s q] inv by (simp add: same_core_def)
  moreover have "c < NENV" using c c' by (simp add: cur_bound_def)
  moreover have "c \<in> set q" using inv c' \<open>c < NENV\<close> by (auto simp: kinv0_def sched_ok_def)
  ultimately show ?thesis
    using env_run_ok [of ?s q c] c' False switched_from [of ?s s]
    by (auto simp: next_env_def same_core_def)
qed

text \<open>With no runnable environment \<^verbatim>\<open>schedule\<close> panics.\<close>

lemma schedule_none:
  assumes inv: "kinv0 s []" and c: "cur_bound s"
  shows "schedule yield s = None"
proof -
  have nr: "env_status (envs s e) \<noteq> ENV_RUNNABLE" if "e < NENV" for e
    using inv that by (auto simp: kinv0_def sched_ok_def)
  have "TAILQ_EMPTY (env_sched_list s)"
    using inv tqrep_EMPTY by (auto simp: kinv0_def sched_ok_def)
  with nr c show ?thesis
    by (auto simp: schedule_def cur_bound_def Let_def split: option.splits)
qed

text \<open>Round robin: repeated yields run the environments of the queue in turn.\<close>

lemma yields:
  assumes "kinv s q" "curenv s = Some (hd q)" "q \<noteq> []"
  shows "\<exists>s'. mfold (\<lambda>_. schedule True) [0..<k] s = Some s' \<and> kinv s' (rotate k q) \<and>
    curenv s' = Some (hd (rotate k q)) \<and> same_core s s'"
proof (induction k)
  case 0
  then show ?case using assms by simp
next
  case (Suc k)
  then obtain s1 where s1: "mfold (\<lambda>_. schedule True) [0..<k] s = Some s1" "kinv s1 (rotate k q)"
    "curenv s1 = Some (hd (rotate k q))" "same_core s s1" by blast
  let ?r = "rotate k q"
  have ne: "?r \<noteq> []" using assms(3) by simp
  then have m: "hd ?r \<in> set ?r" by (rule hd_in_set)
  have run: "env_status (envs s1 (hd ?r)) = ENV_RUNNABLE"
    using s1(2) m by (auto simp: kinv_def kinv0_def sched_ok_def)
  have "remove1 (hd ?r) ?r @ [hd ?r] = rotate1 ?r" using ne by (cases ?r) auto
  then have rot: "rotated s1 ?r = rotate (Suc k) q" using s1(3) run by (simp add: rotated_def)
  have "resched s1 True" by (simp add: resched_def)
  with schedule_ok [of s1 ?r True] s1(2) ne kinv_cur_bound [OF s1(2)] rot obtain s2 where
    "schedule True s1 = Some s2" "kinv s2 (rotate (Suc k) q)" "curenv s2 = Some (hd (rotate (Suc k) q))"
    "same_core s1 s2" by (auto simp: kinv_def next_env_def)
  with s1(1,4) show ?case by (auto simp: mfold_append same_core_def)
qed

section \<open>Freeing an environment\<close>

lemma PTX_all_ones [simp]: "PTX (- 1) = 1023"
  by (simp add: PTX_eq unsigned_minus_1_eq_mask mask_eq_exp_minus_1)

lemma env_free_pde_eq:
  "env_free_pde e i s =
     (let d = env_pgdir (envs s e); asid = env_asid (envs s e) in
      if \<not> has_tab s d i then Some s
      else do {
        pt \<leftarrow> KADDR (PTE_ADDR (pm s d i)) s;
        s1 \<leftarrow> mfold (free_slot_step d asid pt i) [0..<1024] s;
        let s1 = pte_store (d, i) 0 s1;
        pp \<leftarrow> pa2page (PTE_ADDR (pm s d i)) s1;
        s1 \<leftarrow> page_decref pp s1;
        Some (tlb_invalidate asid (UVPT + push_bit 12 (of_nat i)) s1)
      })"
  by (simp add: env_free_pde_def free_slot_step_def [abs_def] has_tab_def Let_def del: upt_Suc)

text \<open>What the loop of \<^verbatim>\<open>env_free\<close> keeps while it empties directory \<open>d\<close>.\<close>

definition other_as :: "'z pmap_scheme \<Rightarrow> 'z pmap_scheme \<Rightarrow> nat set \<Rightarrow> nat \<Rightarrow> bool" where
  "other_as s s' D d \<longleftrightarrow> (\<forall>d' \<in> D. d' \<noteq> d \<longrightarrow> as_map s' d' = as_map s d') \<and> npage s' = npage s \<and>
     pmap.more s' = pmap.more s"

lemma other_as_trans: "other_as s s1 D d \<Longrightarrow> other_as s1 s2 D d \<Longrightarrow> other_as s s2 D d"
  by (simp add: other_as_def)

lemma free_table_ok:
  fixes s :: "'z pmap_scheme"
  assumes inv: "vm_inv s D X xs" and d: "d \<in> D" "i < 509" "has_tab s d i"
    and e: "\<forall>j. as_map s d (i, j) = None"
  shows "\<exists>s' ys. page_decref (tab s d i) (pte_store (d, i) 0 s) = Some s' \<and> vm_inv s' D X ys \<and>
    other_as s s' D d \<and> (\<forall>i'. has_tab s' d i' \<longleftrightarrow> has_tab s d i' \<and> i' \<noteq> i)"
proof -
  let ?p = "tab s d i" and ?s = "pte_store (d, i) 0 s"
  have p: "?p < npage s" "?p \<in> tabs s D"
    using vm_invD(10) [OF inv d] tabs_memI [OF d] by auto
  have pos: "0 < unat (pp_ref s ?p)" using vm_invD(9) [OF inv p(1)] p(2) by simp
  have nf: "?p \<notin> set xs" using free_unused(2) [OF inv, of ?p] p(2) by blast
  obtain fl where fl: "page_decref ?p ?s = Some (?s\<lparr>pp_ref := (pp_ref s)(?p := pp_ref s ?p - 1),
      page_free_list := fl\<rparr>)" "lrep fl (if unat (pp_ref s ?p) = 1 then ?p # xs else xs)"
    using page_decref_ok [of ?s xs ?p] pos nf vm_invD(6) [OF inv] by auto
  let ?s' = "?s\<lparr>pp_ref := (pp_ref s)(?p := pp_ref s ?p - 1), page_free_list := fl\<rparr>"
  note dt = vm_inv_drop_table [OF inv d e, of ?s']
  have "vm_inv ?s' D X (if unat (pp_ref s ?p) = 1 then ?p # xs else xs)"
    by (rule dt(1)) (use fl in simp_all)
  moreover have "as_map ?s' d' = as_map s d'" if "d' \<in> D" for d'
    by (rule dt(2)) (use fl that in simp_all)
  moreover have "has_tab ?s' d i' \<longleftrightarrow> has_tab s d i' \<and> \<not> (d = d \<and> i' = i)" for i'
    by (rule dt(3)) (use fl d(1) in simp_all)
  ultimately show ?thesis using fl(1) by (auto simp: other_as_def)
qed

lemma env_free_pde_ok:
  assumes inv: "vm_inv s D X xs" and d: "env_pgdir (envs s e) \<in> D" "i < 509"
  shows "\<exists>s' ys. env_free_pde e i s = Some s' \<and> vm_inv s' D X ys \<and>
    other_as s s' D (env_pgdir (envs s e)) \<and>
    (\<forall>i'. has_tab s' (env_pgdir (envs s e)) i' \<longleftrightarrow> has_tab s (env_pgdir (envs s e)) i' \<and> i' \<noteq> i)"
proof (cases "has_tab s (env_pgdir (envs s e)) i")
  case False
  then show ?thesis using inv by (auto simp: env_free_pde_eq Let_def other_as_def)
next
  case True
  let ?d = "env_pgdir (envs s e)" and ?asid = "env_asid (envs s e)"
  have p: "PPN (pm s ?d i) = tab s ?d i" "tab s ?d i < npage s"
    using vm_invD(10) [OF inv d True] by (simp_all add: tab_def)
  from free_slot_loop [OF inv d True, of 1024 ?asid] obtain s1 ys where
    s1: "mfold (free_slot_step ?d ?asid (tab s ?d i) i) [0..<1024] s = Some s1" "vm_inv s1 D X ys"
      "\<forall>d' \<in> D. as_map s1 d' = (if d' = ?d then (\<lambda>(a, b). if a = i \<and> b < 1024 then None
          else as_map s ?d (a, b)) else as_map s d')"
      "same_tabs s s1 D" "npage s1 = npage s" "pmap.more s1 = pmap.more s" by auto
  have t: "has_tab s1 ?d i' = has_tab s ?d i'" "tab s1 ?d i = tab s ?d i" for i'
    using s1(4) d(1) by (auto simp: same_tabs_def)
  have "as_map s1 ?d (i, j) = None" for j
  proof (cases "j < 1024")
    case False
    then show ?thesis by (simp add: as_map_def)
  qed (use s1(3) d(1) in auto)
  with free_table_ok [OF s1(2) d] True t obtain s2 zs where
    s2: "page_decref (tab s ?d i) (pte_store (?d, i) 0 s1) = Some s2" "vm_inv s2 D X zs"
      "other_as s1 s2 D ?d" "\<forall>i'. has_tab s2 ?d i' \<longleftrightarrow> has_tab s ?d i' \<and> i' \<noteq> i" by auto
  have "env_free_pde e i s = Some (tlb_invalidate ?asid (UVPT + push_bit 12 (of_nat i)) s2)"
    using True s1(1) s2(1) p s1(5)
    by (simp add: env_free_pde_eq Let_def KADDR_def pa2page_def)
  moreover have "has_tab (tlb_invalidate a v s2) ?d = has_tab s2 ?d" for a v
    by (rule ext) (simp add: has_tab_def)
  moreover have "other_as s (tlb_invalidate a v s2) D ?d" for a v
    using s1(3,5,6) s2(3) by (simp add: other_as_def)
  ultimately show ?thesis
    using s2(2,4) by (intro exI [of _ "tlb_invalidate ?asid (UVPT + push_bit 12 (of_nat i)) s2"]
        exI [of _ zs]) simp
qed

lemma env_free_loop:
  assumes inv: "vm_inv s D X xs" and d: "env_pgdir (envs s e) \<in> D" and n: "n \<le> 509"
  shows "\<exists>s' ys. mfold (env_free_pde e) [0..<n] s = Some s' \<and> vm_inv s' D X ys \<and>
    other_as s s' D (env_pgdir (envs s e)) \<and>
    (\<forall>i'. has_tab s' (env_pgdir (envs s e)) i' \<longleftrightarrow> has_tab s (env_pgdir (envs s e)) i' \<and> n \<le> i')"
  using n
proof (induction n)
  case 0
  then show ?case using inv by (auto simp: other_as_def)
next
  case (Suc n)
  let ?d = "env_pgdir (envs s e)"
  from Suc obtain s1 ys where s1: "mfold (env_free_pde e) [0..<n] s = Some s1" "vm_inv s1 D X ys"
    "other_as s s1 D ?d" "\<forall>i'. has_tab s1 ?d i' \<longleftrightarrow> has_tab s ?d i' \<and> n \<le> i'" by auto
  have ev: "envs s1 = envs s" using s1(3) by (auto simp: other_as_def intro: kern_more)
  from env_free_pde_ok [OF s1(2), of e n] Suc.prems d ev obtain s2 zs where
    s2: "env_free_pde e n s1 = Some s2" "vm_inv s2 D X zs" "other_as s1 s2 D ?d"
      "\<forall>i'. has_tab s2 ?d i' \<longleftrightarrow> has_tab s1 ?d i' \<and> i' \<noteq> n" by auto
  have "has_tab s2 ?d i' \<longleftrightarrow> has_tab s ?d i' \<and> Suc n \<le> i'" for i'
    using spec [OF s1(4), of i'] spec [OF s2(4), of i'] by auto
  moreover have "mfold (env_free_pde e) [0..<Suc n] s = Some s2"
    using s1(1) s2(1) by (simp add: mfold_append)
  ultimately show ?case using s2(2) other_as_trans [OF s1(3) s2(3)] by blast
qed

lemma asid_used_bit: "asid_used bm i \<longleftrightarrow> bit (bm (i div 32)) (i mod 32)"
  using word_and_pow2_neq_0 [of "bm (i div 32)" "i mod 32"] by (simp add: asid_used_def)

lemma asid_free_used:
  "asid_used (asid_bitmap (asid_free a s)) k \<longleftrightarrow> asid_used (asid_bitmap s) k \<and> k \<noteq> unat a"
proof -
  have i: "unat (drop_bit 5 a) = unat a div 32" by (simp add: unat_drop_bit)
  have j: "unat (a AND 31) = unat a mod 32"
    using unat_and_mask [of a 5] by (simp add: mask_eq_exp_minus_1)
  have "k = unat a" if "k div 32 = unat a div 32" "k mod 32 = unat a mod 32"
    using that by (metis div_mult_mod_eq)
  then show ?thesis
    by (auto simp: asid_used_bit asid_free_def Let_def i j bit_simps)
qed

lemma asid_free_simps [simp]:
  "envs (asid_free a s) = envs s" "curenv (asid_free a s) = curenv s"
  "env_free_list (asid_free a s) = env_free_list s" "env_sched_list (asid_free a s) = env_sched_list s"
  "cur_pgdir (asid_free a s) = cur_pgdir s" "base_pgdir (asid_free a s) = base_pgdir s"
  "npage (asid_free a s) = npage s" "pp_ref (asid_free a s) = pp_ref s" "pm (asid_free a s) = pm s"
  "page_free_list (asid_free a s) = page_free_list s" "kstack_tf (asid_free a s) = kstack_tf s"
  "sched_count (asid_free a s) = sched_count s" "jobs (asid_free a s) = jobs s"
  "jobCnt (asid_free a s) = jobCnt s" "kout (asid_free a s) = kout s"
  by (simp_all add: asid_free_def Let_def)

text \<open>The memory part of \<^verbatim>\<open>env_free\<close>: the whole user part of the address space is released.\<close>

lemma env_free_mem:
  assumes inv: "vm_inv s D X xs" and d: "env_pgdir (envs s e) \<in> D"
  shows "\<exists>s1 s2 ys. mfold (env_free_pde e) [0..<509] s = Some s1 \<and>
    pa2page (page2pa (env_pgdir (envs s e))) s1 = Some (env_pgdir (envs s e)) \<and>
    page_decref (env_pgdir (envs s e)) s1 = Some s2 \<and>
    vm_inv s2 (D - {env_pgdir (envs s e)}) (X(env_pgdir (envs s e) := X (env_pgdir (envs s e)) - 1)) ys \<and>
    other_as s s2 D (env_pgdir (envs s e)) \<and> pmap.more s1 = pmap.more s"
proof -
  let ?d = "env_pgdir (envs s e)"
  from env_free_loop [OF inv d, of 509] obtain s1 ys where
    s1: "mfold (env_free_pde e) [0..<509] s = Some s1" "vm_inv s1 D X ys" "other_as s s1 D ?d"
      "\<forall>i. has_tab s1 ?d i \<longleftrightarrow> has_tab s ?d i \<and> 509 \<le> i" by auto
  have dn: "?d < npage s1" "?d < 2 ^ 20" using vm_invD(1) [OF s1(2)] vm_invD(3) [OF s1(2) d] by auto
  have nt: "\<forall>i < 509. \<not> has_tab s1 ?d i" using s1(4) by auto
  have pos: "0 < unat (pp_ref s1 ?d)"
    using vm_invD(9) [OF s1(2) dn(1)] vm_invD(4) [OF s1(2) d] by simp
  have nf: "?d \<notin> set ys" using free_unused(1) [OF s1(2), of ?d] d by blast
  obtain fl where fl: "page_decref ?d s1 =
      Some (s1\<lparr>pp_ref := (pp_ref s1)(?d := pp_ref s1 ?d - 1), page_free_list := fl\<rparr>)"
    "lrep fl (if unat (pp_ref s1 ?d) = 1 then ?d # ys else ys)"
    using page_decref_ok [OF vm_invD(6) [OF s1(2)] pos nf] by blast
  let ?s2 = "s1\<lparr>pp_ref := (pp_ref s1)(?d := pp_ref s1 ?d - 1), page_free_list := fl\<rparr>"
  note dd = vm_inv_drop_dir [OF s1(2) d nt, of ?s2]
  have 1: "vm_inv ?s2 (D - {?d}) (X(?d := X ?d - 1)) (if unat (pp_ref s1 ?d) = 1 then ?d # ys else ys)"
    by (rule dd(1)) (use fl(2) in simp_all)
  have "as_map ?s2 = as_map s1" by (rule dd(2)) (use fl(2) in simp_all)
  then have 2: "other_as s ?s2 D ?d" using s1(3) by (simp add: other_as_def)
  have "pa2page (page2pa ?d) s1 = Some ?d"
    using PPN_page2pa_or [OF dn(2), of 0] dn(1) by (simp add: pa2page_def)
  then show ?thesis using s1(1,3) fl(1) 1 2 unfolding other_as_def by blast
qed

text \<open>
  The kernel state after \<^verbatim>\<open>env_free\<close>, given the memory state \<open>m\<close> and the two lists.
\<close>

lemma kinv0_freed:
  fixes s s' :: kern
  assumes inv: "kinv0 s q" and e: "e \<in> live s"
    and vm: "vm_inv s' (dirs s - {pgdir_of s e}) Y ys"
    and s': "envs s' = (envs s)(e := (envs s e)\<lparr>env_status := ENV_FREE\<rparr>)"
      "env_free_list s' = LIST_INSERT_HEAD e (env_free_list s)"
      "asid_bitmap s' = asid_bitmap (asid_free (env_asid (envs s e)) s)"
      "tqrep (env_sched_list s') q'" "set q' = set q - {e}"
  shows "kinv0 s' q'" "live s' = live s - {e}" "dirs s' = dirs s - {pgdir_of s e}"
proof -
  from e have en: "e < NENV" "env_status (envs s e) \<noteq> ENV_FREE" by (auto simp: live_def)
  show l: "live s' = live s - {e}" using en by (auto simp: live_def s')
  have p: "pgdir_of s' = pgdir_of s" "asid_of s' = asid_of s"
    by (auto simp: pgdir_of_def asid_of_def s')
  from inv have inj: "inj_on (pgdir_of s) (live s)" "inj_on (asid_of s) (live s)"
    by (auto simp: kinv0_def mem_ok_def asids_ok_def)
  show ds: "dirs s' = dirs s - {pgdir_of s e}"
    using inj(1) e by (auto simp: dirs_def l p inj_on_def)
  have "mem_ok s'" using vm inj(1) by (auto simp: mem_ok_def ds l p intro: inj_on_subset)
  moreover have "free_envs_ok s'"
  proof -
    from inv obtain fl where fl: "lrep (env_free_list s) fl"
      "set fl = {e. e < NENV \<and> env_status (envs s e) = ENV_FREE}"
      by (auto simp: kinv0_def free_envs_ok_def)
    have "lrep (LIST_INSERT_HEAD e (env_free_list s)) (e # fl)"
      using fl en by (intro lrep_INSERT_HEAD) auto
    moreover have "set (e # fl) = {e. e < NENV \<and> env_status (envs s' e) = ENV_FREE}"
      using fl(2) en by (auto simp: s')
    ultimately show ?thesis unfolding free_envs_ok_def s'(2) by blast
  qed
  moreover have "sched_ok s' q'"
    using inv s'(4,5) by (auto simp: kinv0_def sched_ok_def s'(1))
  moreover have "asids_ok s'"
    using inv e inj(2) unfolding asids_ok_def l p s'(3) kinv0_def
    by (auto simp: asid_free_used asid_of_def inj_on_def)
  moreover have "ids_ok s'" using inv by (auto simp: kinv0_def ids_ok_def l s'(1))
  ultimately show "kinv0 s' q'" by (simp add: kinv0_def)
qed

definition env_free_tail :: "nat \<Rightarrow> kern \<Rightarrow> kern" where
  "env_free_tail e s =
     (let s = asid_free (env_asid (envs s e)) s;
          s = tlb_invalidate (env_asid (envs s e)) (UVPT + push_bit 12 (of_nat (PDX UVPT))) s;
          s = upd_env e (\<lambda>v. v\<lparr>env_status := ENV_FREE\<rparr>) s
      in s\<lparr>env_free_list := LIST_INSERT_HEAD e (env_free_list s)\<rparr>)"

lemma tlb_invalidate_kern [simp]:
  "envs (tlb_invalidate a v s) = envs s" "curenv (tlb_invalidate a v s) = curenv s"
  "env_free_list (tlb_invalidate a v s) = env_free_list s"
  "env_sched_list (tlb_invalidate a v s) = env_sched_list s"
  "asid_bitmap (tlb_invalidate a v s) = asid_bitmap s" "cur_pgdir (tlb_invalidate a v s) = cur_pgdir s"
  "kstack_tf (tlb_invalidate a v s) = kstack_tf s" "jobs (tlb_invalidate a v s) = jobs s"
  "jobCnt (tlb_invalidate a v s) = jobCnt s" "base_pgdir (tlb_invalidate a v s) = base_pgdir s"
  "mkenvid_i (tlb_invalidate a v s) = mkenvid_i s" "sched_count (tlb_invalidate a v s) = sched_count s"
  by (simp_all add: tlb_invalidate_def tlb_out_def)

lemma env_free_tail_simps [simp]:
  "envs (env_free_tail e s) = (envs s)(e := (envs s e)\<lparr>env_status := ENV_FREE\<rparr>)"
  "env_free_list (env_free_tail e s) = LIST_INSERT_HEAD e (env_free_list s)"
  "env_sched_list (env_free_tail e s) = env_sched_list s"
  "asid_bitmap (env_free_tail e s) = asid_bitmap (asid_free (env_asid (envs s e)) s)"
  "curenv (env_free_tail e s) = curenv s" "cur_pgdir (env_free_tail e s) = cur_pgdir s"
  "kstack_tf (env_free_tail e s) = kstack_tf s" "jobs (env_free_tail e s) = jobs s"
  "jobCnt (env_free_tail e s) = jobCnt s" "base_pgdir (env_free_tail e s) = base_pgdir s"
  "pm (env_free_tail e s) = pm s" "npage (env_free_tail e s) = npage s"
  "pp_ref (env_free_tail e s) = pp_ref s" "page_free_list (env_free_tail e s) = page_free_list s"
  by (simp_all add: env_free_tail_def Let_def)

lemma asid_free_bitmap_cong:
  "asid_bitmap s = asid_bitmap s' \<Longrightarrow> asid_bitmap (asid_free a s) = asid_bitmap (asid_free a s')"
  by (simp add: asid_free_def Let_def)

lemma env_free_ok:
  assumes inv: "kinv0 s q" and e: "e \<in> set q"
  shows "\<exists>s'. env_free e s = Some s' \<and> kinv0 s' (remove1 e q) \<and>
    envs s' = (envs s)(e := (envs s e)\<lparr>env_status := ENV_FREE\<rparr>) \<and>
    (\<forall>d \<in> dirs s'. as_map s' d = as_map s d) \<and> dirs s' = dirs s - {pgdir_of s e} \<and>
    curenv s' = curenv s \<and> cur_pgdir s' = cur_pgdir s \<and> kstack_tf s' = kstack_tf s \<and>
    jobs s' = jobs s \<and> jobCnt s' = jobCnt s"
proof -
  let ?d = "pgdir_of s e"
  define s0 where "s0 = printk (Msg_free_env (case curenv s of None \<Rightarrow> 0 | Some c \<Rightarrow> env_id (envs s c))
    (env_id (envs s e))) s"
  have e': "e \<in> live s" "?d \<in> dirs s" using inv e by (auto simp: kinv0_def sched_ok_def live_def dirs_def)
  from inv obtain X xs where vm: "vm_inv s (dirs s) X xs" by (auto simp: kinv0_def mem_ok_def)
  then have "vm_inv s0 (dirs s) X xs" using vm_inv_cong [of s0 s] by (simp add: s0_def)
  from env_free_mem [OF this, of e] e'(2) obtain s1 s2 ys where
    m: "mfold (env_free_pde e) [0..<509] s0 = Some s1" "pa2page (page2pa ?d) s1 = Some ?d"
      "page_decref ?d s1 = Some s2" "vm_inv s2 (dirs s - {?d}) (X(?d := X ?d - 1)) ys"
      "other_as s0 s2 (dirs s) ?d" "pmap.more s1 = pmap.more s0"
    by (auto simp: s0_def pgdir_of_def)
  note k1 = kern_more [OF m(6)]
  from m(5) have "pmap.more s2 = pmap.more s0" by (simp add: other_as_def)
  note k2 = kern_more [OF this]
  from inv have t: "tqrep (env_sched_list s) q" by (simp add: kinv0_def sched_ok_def)
  from tq.rep_remove_mem [OF t e] obtain l where
    l: "TAILQ_REMOVE e (env_sched_list s) = Some l" "tqrep l (remove1 e q)" by blast
  define s' where "s' = (env_free_tail e s2)\<lparr>env_sched_list := l\<rparr>"
  have "env_free e s = Some s'"
    using m(1-3) l(1) k1(1) k2(1,4)
    by (simp add: env_free_def s0_def [symmetric] pgdir_of_def s'_def env_free_tail_def Let_def)
      (simp add: s0_def)
  moreover have vm': "vm_inv s' (dirs s - {?d}) (X(?d := X ?d - 1)) ys"
    using m(4) vm_inv_cong [of s' s2] by (simp add: s'_def)
  have bm: "asid_bitmap s' = asid_bitmap (asid_free (env_asid (envs s e)) s)"
    using k2(1,6) by (auto simp: s'_def s0_def intro: asid_free_bitmap_cong)
  have ev: "envs s' = (envs s)(e := (envs s e)\<lparr>env_status := ENV_FREE\<rparr>)"
    "env_free_list s' = LIST_INSERT_HEAD e (env_free_list s)" "tqrep (env_sched_list s') (remove1 e q)"
    using k2 l(2) by (simp_all add: s'_def s0_def)
  have "set (remove1 e q) = set q - {e}" using tqrep_distinct [OF t] by simp
  note fr = kinv0_freed [OF inv e'(1) vm' ev(1,2) bm ev(3) this]
  moreover have "as_map s' d = as_map s d" if "d \<in> dirs s'" for d
  proof -
    have "as_map s' d = as_map s2 d" by (rule as_map_cong) (simp add: s'_def)
    also have "\<dots> = as_map s0 d" using m(5) that fr(3) by (simp add: other_as_def)
    also have "\<dots> = as_map s d" by (rule as_map_cong) (simp add: s0_def)
    finally show ?thesis .
  qed
  ultimately show ?thesis using k2 fr(1,3) by (auto simp: s'_def s0_def)
qed

lemma env_destroy_ok:
  assumes inv: "kinv s q" and e: "e \<in> set q" and more: "curenv s = Some e \<Longrightarrow> remove1 e q \<noteq> []"
  shows "\<exists>c s' q'. env_destroy e s = Some (c, s') \<and> kinv s' q' \<and>
    (c = Switched \<longleftrightarrow> curenv s = Some e) \<and> env_status (envs s' e) = ENV_FREE \<and>
    set q' = set q - {e} \<and> (\<forall>d \<in> dirs s'. as_map s' d = as_map s d) \<and>
    (curenv s \<noteq> Some e \<longrightarrow> q' = remove1 e q \<and> jobs s' = jobs s \<and> jobCnt s' = jobCnt s \<and> curenv s' = curenv s) \<and>
    (curenv s = Some e \<longrightarrow> (\<exists>c. curenv s' = Some c \<and> env_status (envs s' c) = ENV_RUNNABLE)) \<and>
    (\<forall>x. ipc_core (envs s' x) = ipc_core (envs s x) \<and> (x \<noteq> e \<longrightarrow> env_status (envs s' x) = env_status (envs s x)))"
proof -
  from inv have inv0: "kinv0 s q" by (simp add: kinv_def)
  from env_free_ok [OF inv0 e] obtain s1 where s1: "env_free e s = Some s1" "kinv0 s1 (remove1 e q)"
    "envs s1 = (envs s)(e := (envs s e)\<lparr>env_status := ENV_FREE\<rparr>)"
    "\<forall>d \<in> dirs s1. as_map s1 d = as_map s d" "curenv s1 = curenv s" "cur_pgdir s1 = cur_pgdir s"
    "jobs s1 = jobs s" "jobCnt s1 = jobCnt s" by blast
  have sq: "set (remove1 e q) = set q - {e}" using kinv0_distinct [OF inv0] by simp
  show ?thesis
  proof (cases "curenv s = Some e")
    case False
    have "cur_ok s1"
      using inv False s1(3,5,6)
      by (auto simp: kinv_def cur_ok_def live_def pgdir_of_def split: option.splits)
    then show ?thesis using False s1 sq by (auto simp: env_destroy_def kinv_def ipc_core_def)
  next
    case True
    let ?s = "printk Msg_killed (s1\<lparr>curenv := None\<rparr>)"
    have c: "same_core s1 ?s" by (simp add: same_core_def)
    have k: "kinv0 ?s (remove1 e q)" using kinv0_frame [OF c] s1(2) by simp
    have rs: "resched ?s True" "rotated ?s (remove1 e q) = remove1 e q" by (auto simp: resched_def rotated_def)
    from schedule_ok [OF k _ more [OF True], of True] rs obtain s2 where
      s2: "schedule True ?s = Some s2" "kinv s2 (remove1 e q)" "same_core ?s s2" "switched ?s s2"
        "\<exists>c. curenv s2 = Some c \<and> c \<in> set (remove1 e q)"
      by (auto simp: cur_bound_def)
    from s2(3) have core: "\<forall>e. env_core (envs s2 e) = env_core (envs s1 e)" "pm s2 = pm s1"
      by (simp_all add: same_core_def)
    have "as_map s2 d = as_map s d" if "d \<in> dirs s2" for d
      using same_core_live(4) [OF core(1)] as_map_cong [OF core(2), of d] s1(4) that by auto
    moreover have "env_status (envs s2 e) = ENV_FREE"
      using same_core_live(5) [OF core(1)] s1(3) by simp
    moreover have "ipc_core (envs s2 x) = ipc_core (envs s x)"
      "x \<noteq> e \<Longrightarrow> env_status (envs s2 x) = env_status (envs s x)" for x
      using switched_ipc [OF s2(4), of x] same_core_live(5) [OF core(1)] s1(3) by (auto simp: ipc_core_def)
    moreover have "\<exists>c. curenv s2 = Some c \<and> env_status (envs s2 c) = ENV_RUNNABLE"
      using s2(2,5) by (auto simp: kinv_def kinv0_def sched_ok_def simp del: set_remove1_eq)
    ultimately show ?thesis using True s1(1,5) s2(1,2) sq by (auto simp: env_destroy_def)
  qed
qed

section \<open>Allocating an environment\<close>

lemma asid_alloc_fail:
  "asid_alloc s = (Inl err, s') \<Longrightarrow> s' = s \<and> err = E_NO_FREE_ENV \<and> (\<forall>i < NASID. asid_used (asid_bitmap s) i)"
  by (auto simp: asid_alloc_def find_None_iff split: option.splits)

lemma asid_alloc_ok:
  assumes "asid_alloc s = (Inr a, s')"
  shows "unat a < NASID" "\<not> asid_used (asid_bitmap s) (unat a)"
    "asid_used (asid_bitmap s') k \<longleftrightarrow> asid_used (asid_bitmap s) k \<or> k = unat a"
    "s' = s\<lparr>asid_bitmap := asid_bitmap s'\<rparr>"
proof -
  from assms obtain i where i: "find (\<lambda>i. \<not> asid_used (asid_bitmap s) i) [0..<NASID] = Some i"
    and a: "a = of_nat i" and s': "s' = s\<lparr>asid_bitmap := (asid_bitmap s)
            (i div 32 := asid_bitmap s (i div 32) OR push_bit (i mod 32) 1)\<rparr>"
    by (auto simp: asid_alloc_def split: option.splits)
  from i have n: "i < NASID" "\<not> asid_used (asid_bitmap s) i"
    by (auto simp: find_Some_iff)
  have u: "unat a = i" unfolding a using n(1) by (intro unat_of_nat_u32) (simp add: NASID_def)
  show "unat a < NASID" "\<not> asid_used (asid_bitmap s) (unat a)" using n u by simp_all
  have "k = i" if "k div 32 = i div 32" "k mod 32 = i mod 32" using that by (metis div_mult_mod_eq)
  then show "asid_used (asid_bitmap s') k \<longleftrightarrow> asid_used (asid_bitmap s) k \<or> k = unat a"
    by (auto simp: asid_used_bit s' u bit_simps)
  show "s' = s\<lparr>asid_bitmap := asid_bitmap s'\<rparr>" by (simp add: s')
qed

lemma ENVX_eq: "ENVX envid = unat envid mod 1024"
  using unat_and_1023 [of envid] by (simp add: ENVX_def NENV_def)

lemma ENVX_less [simp]: "ENVX envid < NENV"
  by (simp add: ENVX_eq NENV_def)

lemma ENVX_mkenvid:
  assumes "e < NENV"
  shows "ENVX (push_bit 11 i OR of_nat e) = e"
proof -
  have m: "(1023 :: u32) = mask 10" by (simp add: mask_eq_exp_minus_1)
  have "(push_bit 11 i OR of_nat e) AND 1023 = (of_nat e :: u32) AND 1023"
    unfolding m by (rule bit_word_eqI) (auto simp: bit_simps)
  then have "ENVX (push_bit 11 i OR of_nat e) = unat (of_nat e :: u32) mod 1024"
    using unat_and_1023 [of "of_nat e"] by (simp add: ENVX_def NENV_def)
  also have "\<dots> = e" using assms unat_of_nat_u32 [of e] by (simp add: NENV_def)
  finally show ?thesis .
qed

text \<open>\<^verbatim>\<open>mkenvid\<close> puts the slot into the low bits: identifiers of distinct slots differ.\<close>

lemma mkenvid_inj:
  assumes "e < NENV" "e' < NENV" "e \<noteq> e'"
  shows "fst (mkenvid e s) \<noteq> fst (mkenvid e' s')"
  using assms ENVX_mkenvid by (auto simp: mkenvid_def Let_def) metis

text \<open>A directory without tables can be left out of the invariant without changing counts.\<close>

lemma vm_inv_forget_dir:
  fixes s :: "'z pmap_scheme"
  assumes inv: "vm_inv s D X xs" and d: "\<forall>i < 509. \<not> has_tab s d i"
  shows "vm_inv s (D - {d}) X xs"
proof -
  have "as_map s d = Map.empty" using d by (intro ext) (auto simp: as_map_def)
  then have mp: "maps s (D - {d}) q = maps s D q" for q unfolding maps_def by auto
  have ts: "tabs s (D - {d}) = tabs s D" unfolding tabs_def using d by blast
  have "tabs_ok s (D - {d})"
    by (rule tabs_ok_mono [of s D]) (use inv in \<open>auto simp: vm_inv_def\<close>)
  then show ?thesis using inv by (auto simp: vm_inv_def refs_ok_def isolated_def mp ts)
qed

end
