(* ===== verification/Env_Alloc.thy ===== *)
theory Env_Alloc
  imports Env_Inv
begin

unbundle bit_operations_syntax

text \<open>
  \<^verbatim>\<open>env_setup_vm\<close> and \<^verbatim>\<open>env_alloc\<close> on states that satisfy the kernel invariant: a fresh
  address space whose user part is empty and whose upper part is the shared one, a fresh ASID
  and a fresh identifier; and what happens on each failing path.
\<close>

lemma clear_page_inv:
  fixes s :: "'z pmap_scheme"
  assumes "vm_inv s D X (p # xs)" "page_alloc s = Some (Inr p, s1)"
  shows "vm_inv s1 D X xs" "pm s1 p = (\<lambda>_. 0)" "pp_ref s1 = pp_ref s" "pp_ref s1 p = 0" "npage s1 = npage s"
    "pmap.more s1 = pmap.more s" "p \<notin> D" "p \<notin> tabs s1 D" "p \<notin> set xs" "p < npage s1"
    "d \<in> D \<Longrightarrow> as_map s1 d = as_map s d"
proof -
  from page_alloc_inv [OF assms]
  show 1: "vm_inv s1 D X xs" "pm s1 p = (\<lambda>_. 0)" "pp_ref s1 = pp_ref s" "pp_ref s1 p = 0" "npage s1 = npage s"
    "pmap.more s1 = pmap.more s" "d \<in> D \<Longrightarrow> as_map s1 d = as_map s d" by auto
  show "p \<notin> D" "p \<notin> set xs" using free_unused(1) [OF assms(1), of p] free_distinct [OF assms(1)] by auto
  show n: "p < npage s1" using vm_invD(7) [OF assms(1), of p] 1(5) by simp
  have "X p = 0" using free_unused(4) [OF assms(1), of p] by simp
  with vm_invD(9) [OF 1(1) n] 1(4) show "p \<notin> tabs s1 D" by (auto split: if_splits)
qed

lemma env_setup_vm_fail:
  "vm_inv s D X [] \<Longrightarrow> env_setup_vm e s = Some (Inl E_NO_MEM, s)"
  by (simp add: env_setup_vm_def page_alloc_empty)

lemma env_setup_vm_ok:
  assumes inv: "vm_inv s D X (p # xs)"
  shows "\<exists>s'. env_setup_vm e s = Some (Inr (), s') \<and> vm_inv s' (insert p D) (X(p := 1)) xs \<and>
    as_map s' p = Map.empty \<and> (\<forall>i < 509. \<not> has_tab s' p i) \<and> (\<forall>d \<in> D. as_map s' d = as_map s d) \<and>
    pmap.more s' = pmap.more (upd_env e (\<lambda>v. v\<lparr>env_pgdir := p\<rparr>) s) \<and> p \<notin> D \<and> npage s' = npage s \<and>
    pm s' p (PDX UVPT) = page2pa p OR PTE_V \<and>
    (p \<noteq> base_pgdir s \<longrightarrow> (\<forall>k. PDX UTOP \<le> k \<and> k < PDX UVPT \<longrightarrow> pm s' p k = pm s (base_pgdir s) k))"
proof -
  obtain fl where pa: "page_alloc s =
      Some (Inr p, s\<lparr>page_free_list := fl, pm := (pm s)(p := (\<lambda>_. 0))\<rparr>)" "lrep fl xs"
    by (rule page_alloc_ok [OF inv])
  define s1 where "s1 = s\<lparr>page_free_list := fl, pm := (pm s)(p := (\<lambda>_. 0))\<rparr>"
  note c = clear_page_inv [OF inv pa(1) [folded s1_def]]
  let ?s2 = "s1\<lparr>pp_ref := (pp_ref s1)(p := pp_ref s1 p + 1)\<rparr>"
  have kva: "page2kva p ?s2 = Some p"
    using c(10) vm_invD(1) [OF c(1)] by (intro KADDR_page) simp_all
  let ?s3 = "upd_env e (\<lambda>v. v\<lparr>env_pgdir := p\<rparr>) ?s2"
  define s' where "s' = pte_store (p, PDX UVPT) (page2pa p OR PTE_V) (?s3\<lparr>pm := (pm ?s3)(p := (\<lambda>k.
     if PDX UTOP \<le> k \<and> k < PDX UVPT then pm ?s3 (base_pgdir ?s3) k else pm ?s3 p k))\<rparr>)"
  have run: "env_setup_vm e s = Some (Inr (), s')"
    using kva by (simp add: env_setup_vm_def pa(1) s1_def [symmetric] s'_def Let_def)
  have z: "\<not> pte_valid (pm s' p i)" if "i < 509" for i
    using that by (simp add: s'_def s1_def)
  have f: "npage s' = npage s1" "pp_ref s' = (pp_ref s1)(p := 1)" "\<And>q. q \<noteq> p \<Longrightarrow> pm s' q = pm s1 q"
    "page_free_list s' = page_free_list s1"
    by (simp_all add: s'_def c(4))
  note new = vm_inv_new_dir [OF c(1,10,9,4,7,8) z f]
  have am: "as_map s' d = as_map s d" if "d \<in> D" for d
    using new(3) [of d] that c(11) [OF that] by simp
  have "pmap.more s' = pmap.more (upd_env e (\<lambda>v. v\<lparr>env_pgdir := p\<rparr>) s)"
    by (cases s) (simp add: s'_def s1_def upd_env_def pte_store_def)
  moreover have "pm s' p (PDX UVPT) = page2pa p OR PTE_V" "npage s' = npage s"
    by (simp_all add: s'_def s1_def)
  moreover have "pm s' p k = pm s (base_pgdir s) k"
    if "p \<noteq> base_pgdir s" "PDX UTOP \<le> k" "k < PDX UVPT" for k
    using that by (simp add: s'_def s1_def upd_env_def)
  ultimately show ?thesis using run new(1,2) am c(7) z by (auto simp: has_tab_def)
qed

section \<open>\<^verbatim>\<open>env_alloc\<close>\<close>

text \<open>The part of \<^verbatim>\<open>env_alloc\<close> after \<^verbatim>\<open>env_setup_vm\<close>.\<close>

definition env_alloc_tail :: "u32 \<Rightarrow> nat \<Rightarrow> kern \<Rightarrow> ((errno + nat) \<times> kern) option" where
  "env_alloc_tail parent_id e s = do {
     let s = upd_env e (\<lambda>v. v\<lparr>env_user_tlb_mod_entry := 0, env_runs := 0\<rparr>) s;
     let (r, s) = asid_alloc s;
     case r of
       Inl err \<Rightarrow> Some (Inl err, s)
     | Inr asid \<Rightarrow> do {
         let s = upd_env e (\<lambda>v. v\<lparr>env_asid := asid\<rparr>) s;
         let (id, s) = mkenvid e s;
         let s = upd_env e (\<lambda>v. v\<lparr>env_id := id, env_parent_id := parent_id,
            env_tf := (env_tf v)\<lparr>cp0_status := STATUS_user,
              regs := (regs (env_tf v))(29 := USTACKTOP - 4 - 4)\<rparr>\<rparr>) s;
         fl \<leftarrow> LIST_REMOVE e (env_free_list s);
         Some (Inr e, s\<lparr>env_free_list := fl\<rparr>)
       }
   }"

lemma env_alloc_eq:
  "env_alloc parent_id s =
     (if LIST_EMPTY (env_free_list s) then Some (Inl E_NO_FREE_ENV, s)
      else do {
        e \<leftarrow> LIST_FIRST (env_free_list s);
        (r, s) \<leftarrow> env_setup_vm e s;
        case r of Inl err \<Rightarrow> Some (Inl err, s) | Inr _ \<Rightarrow> env_alloc_tail parent_id e s
      })"
  unfolding env_alloc_def env_alloc_tail_def by (rule refl)

text \<open>A slot that has been taken from the free list and given its resources, but is not yet live.\<close>

definition fresh_env :: "kern \<Rightarrow> kern \<Rightarrow> nat \<Rightarrow> u32 \<Rightarrow> bool" where
  "fresh_env s s' e parent_id \<longleftrightarrow>
     e < NENV \<and> env_status (envs s e) = ENV_FREE \<and> env_status (envs s' e) = ENV_FREE \<and>
     (\<forall>e'. e' \<noteq> e \<longrightarrow> envs s' e' = envs s e') \<and>
     (\<exists>X xs. vm_inv s' (insert (pgdir_of s' e) (dirs s)) X xs) \<and> pgdir_of s' e \<notin> dirs s \<and>
     as_map s' (pgdir_of s' e) = Map.empty \<and> (\<forall>d \<in> dirs s. as_map s' d = as_map s d) \<and>
     (\<exists>fl. lrep (env_free_list s') fl \<and>
        set fl = {e. e < NENV \<and> env_status (envs s e) = ENV_FREE} - {e}) \<and>
     asid_of s' e < NASID \<and> \<not> asid_used (asid_bitmap s) (asid_of s' e) \<and>
     (\<forall>k. asid_used (asid_bitmap s') k \<longleftrightarrow> asid_used (asid_bitmap s) k \<or> k = asid_of s' e) \<and>
     ENVX (env_id (envs s' e)) = e \<and> env_parent_id (envs s' e) = parent_id \<and>
     env_user_tlb_mod_entry (envs s' e) = 0 \<and>
     env_sched_list s' = env_sched_list s \<and> curenv s' = curenv s \<and> cur_pgdir s' = cur_pgdir s \<and>
     kstack_tf s' = kstack_tf s \<and> ipc_core (envs s' e) = ipc_core (envs s e)"

lemma env_alloc_tail_ok:
  assumes tail: "env_alloc_tail parent_id f s = Some (Inr e, s')" and fl: "lrep (env_free_list s) (f # es)"
  shows "e = f" "lrep (env_free_list s') es" "\<forall>e'. e' \<noteq> f \<longrightarrow> envs s' e' = envs s e'"
    "env_status (envs s' f) = env_status (envs s f)" "pgdir_of s' f = pgdir_of s f"
    "asid_of s' f < NASID" "\<not> asid_used (asid_bitmap s) (asid_of s' f)"
    "\<forall>k. asid_used (asid_bitmap s') k \<longleftrightarrow> asid_used (asid_bitmap s) k \<or> k = asid_of s' f"
    "env_id (envs s' f) = push_bit 11 (mkenvid_i s + 1) OR of_nat f"
    "env_parent_id (envs s' f) = parent_id" "env_user_tlb_mod_entry (envs s' f) = 0"
    "env_sched_list s' = env_sched_list s" "curenv s' = curenv s" "cur_pgdir s' = cur_pgdir s"
    "kstack_tf s' = kstack_tf s" "pm s' = pm s" "npage s' = npage s" "pp_ref s' = pp_ref s"
    "page_free_list s' = page_free_list s" "ipc_core (envs s' f) = ipc_core (envs s f)"
proof -
  let ?s2 = "upd_env f (\<lambda>v. v\<lparr>env_user_tlb_mod_entry := 0, env_runs := 0\<rparr>) s"
  obtain a s3 where a: "asid_alloc ?s2 = (Inr a, s3)"
    using tail by (cases "asid_alloc ?s2"; cases "fst (asid_alloc ?s2)") (auto simp: env_alloc_tail_def)
  note aa = asid_alloc_ok [OF a]
  obtain bm where bm: "s3 = ?s2\<lparr>asid_bitmap := bm\<rparr>" using aa(4) by blast
  obtain fl' where fl': "LIST_REMOVE f (env_free_list s) = Some fl'" "lrep fl' es"
    using lrep_REMOVE [of "env_free_list s" "[]" f es] fl by auto
  define v where "v = (envs ?s2 f)\<lparr>env_asid := a, env_id := push_bit 11 (mkenvid_i s + 1) OR of_nat f,
    env_parent_id := parent_id, env_tf := (env_tf (envs ?s2 f))\<lparr>cp0_status := STATUS_user,
      regs := (regs (env_tf (envs ?s2 f)))(29 := USTACKTOP - 4 - 4)\<rparr>\<rparr>"
  have "env_alloc_tail parent_id f s = Some (Inr f, s\<lparr>asid_bitmap := bm, mkenvid_i := mkenvid_i s + 1,
      envs := (envs s)(f := v), env_free_list := fl'\<rparr>)"
    using fl'(1) a
    by (simp add: env_alloc_tail_def Let_def bm mkenvid_def v_def upd_env_def)
  with tail have e: "e = f" and s': "s' = s\<lparr>asid_bitmap := bm, mkenvid_i := mkenvid_i s + 1,
      envs := (envs s)(f := v), env_free_list := fl'\<rparr>" by auto
  show "e = f" by (rule e)
  show "lrep (env_free_list s') es" "\<forall>e'. e' \<noteq> f \<longrightarrow> envs s' e' = envs s e'"
    "env_status (envs s' f) = env_status (envs s f)" "pgdir_of s' f = pgdir_of s f"
    "env_id (envs s' f) = push_bit 11 (mkenvid_i s + 1) OR of_nat f"
    "env_parent_id (envs s' f) = parent_id" "env_user_tlb_mod_entry (envs s' f) = 0"
    "env_sched_list s' = env_sched_list s" "curenv s' = curenv s" "cur_pgdir s' = cur_pgdir s"
    "kstack_tf s' = kstack_tf s" "pm s' = pm s" "npage s' = npage s" "pp_ref s' = pp_ref s"
    "page_free_list s' = page_free_list s" "ipc_core (envs s' f) = ipc_core (envs s f)"
    using fl'(2) by (simp_all add: s' v_def pgdir_of_def ipc_core_def)
  have "asid_of s' f = unat a" by (simp add: s' v_def asid_of_def)
  then show "asid_of s' f < NASID" "\<not> asid_used (asid_bitmap s) (asid_of s' f)"
    "\<forall>k. asid_used (asid_bitmap s') k \<longleftrightarrow> asid_used (asid_bitmap s) k \<or> k = asid_of s' f"
    using aa(1-3) by (simp_all add: bm s')
qed

lemma env_alloc_ok:
  assumes inv: "kinv0 s q" and r: "env_alloc parent_id s = Some (Inr e, s')"
  shows "fresh_env s s' e parent_id"
proof -
  from inv obtain fl where fl: "lrep (env_free_list s) fl"
    "set fl = {e. e < NENV \<and> env_status (envs s e) = ENV_FREE}"
    by (auto simp: kinv0_def free_envs_ok_def)
  from inv obtain X xs where vm: "vm_inv s (dirs s) X xs" by (auto simp: kinv0_def mem_ok_def)
  from r fl(1) obtain f es where es: "fl = f # es"
    by (cases fl) (auto simp: env_alloc_eq lrep_EMPTY)
  have first: "\<not> LIST_EMPTY (env_free_list s)" "LIST_FIRST (env_free_list s) = Some f"
    using fl(1) es by (simp_all add: lrep_EMPTY lrep_FIRST)
  obtain p ps where xs: "xs = p # ps"
    using r first vm by (cases xs) (auto simp: env_alloc_eq env_setup_vm_fail)
  from env_setup_vm_ok [OF vm [unfolded xs], of f] obtain s1 where
    s1: "env_setup_vm f s = Some (Inr (), s1)" "vm_inv s1 (insert p (dirs s)) (X(p := 1)) ps"
      "as_map s1 p = Map.empty" "\<forall>d \<in> dirs s. as_map s1 d = as_map s d"
      "pmap.more s1 = pmap.more (upd_env f (\<lambda>v. v\<lparr>env_pgdir := p\<rparr>) s)" "p \<notin> dirs s" by blast
  note k1 = kern_more [OF s1(5), simplified]
  from r first s1(1) have tail: "env_alloc_tail parent_id f s1 = Some (Inr e, s')"
    by (simp add: env_alloc_eq)
  note ta = env_alloc_tail_ok [OF tail, of es]
  have l1: "lrep (env_free_list s1) (f # es)" using k1(3) fl(1) es by simp
  note ta = ta [OF l1]
  have f: "f < NENV" "env_status (envs s f) = ENV_FREE" "distinct fl"
    using fl es lrep_distinct [OF fl(1)] by auto
  have pd: "pgdir_of s' f = p" using ta(5) k1(1) by (simp add: pgdir_of_def)
  have am: "as_map s' d = as_map s1 d" for d by (rule as_map_cong) (rule ta(16))
  have "vm_inv s' (insert p (dirs s)) (X(p := 1)) ps"
    using vm_inv_cong [of s' s1] ta(16-19) s1(2) by simp
  moreover have "set es = {e. e < NENV \<and> env_status (envs s e) = ENV_FREE} - {f}"
    using fl(2) f(3) es by auto
  ultimately show ?thesis
    unfolding fresh_env_def ta(1) pd
    using ta(2-4,6-15,20) k1 f s1(3,4,6) am ENVX_mkenvid [OF f(1)]
    by (intro conjI) (auto simp: ta(9) ipc_core_def)
qed

text \<open>Giving the new slot a status makes it live; the invariant holds again.\<close>

lemma kinv0_new:
  fixes s s1 s' :: kern
  assumes inv: "kinv0 s q" and f: "fresh_env s s1 e pid"
    and st: "env_status (envs s' e) = ENV_RUNNABLE \<or> env_status (envs s' e) = ENV_NOT_RUNNABLE"
    and s': "\<forall>e'. e' \<noteq> e \<longrightarrow> envs s' e' = envs s1 e'" "pgdir_of s' e = pgdir_of s1 e"
      "asid_of s' e = asid_of s1 e" "env_id (envs s' e) = env_id (envs s1 e)"
      "\<And>D X xs. vm_inv s1 D X xs \<Longrightarrow> \<exists>X xs. vm_inv s' D X xs"
      "env_free_list s' = env_free_list s1" "asid_bitmap s' = asid_bitmap s1"
      "tqrep (env_sched_list s') q'"
      "set q' = (if env_status (envs s' e) = ENV_RUNNABLE then insert e (set q) else set q)"
  shows "kinv0 s' q'" "live s' = insert e (live s)" "dirs s' = insert (pgdir_of s1 e) (dirs s)"
proof -
  note fe = f [unfolded fresh_env_def]
  have e: "e < NENV" "e \<notin> live s" using fe by (auto simp: live_def)
  have ev: "envs s' e' = envs s e'" if "e' \<noteq> e" for e' using s'(1) fe that by simp
  have fr: "env_status (envs s' x) = ENV_FREE \<longleftrightarrow> env_status (envs s x) = ENV_FREE \<and> x \<noteq> e" for x
    using ev [of x] st by (cases "x = e") auto
  show l: "live s' = insert e (live s)"
    using e(1) by (auto simp: live_def fr)
  have p: "pgdir_of s' e' = pgdir_of s e'" "asid_of s' e' = asid_of s e'" if "e' \<in> live s" for e'
  proof -
    have "e' \<noteq> e" using e(2) that by auto
    from ev [OF this] show "pgdir_of s' e' = pgdir_of s e'" "asid_of s' e' = asid_of s e'"
      by (simp_all add: pgdir_of_def asid_of_def)
  qed
  show d: "dirs s' = insert (pgdir_of s1 e) (dirs s)"
    unfolding dirs_def l using p s'(2) by auto
  from inv have inj: "inj_on (pgdir_of s) (live s)" "inj_on (asid_of s) (live s)"
    "\<forall>e \<in> live s. asid_of s e < NASID \<and> asid_used (asid_bitmap s) (asid_of s e)"
    by (auto simp: kinv0_def mem_ok_def asids_ok_def)
  have "inj_on (pgdir_of s') (live s')"
    unfolding l inj_on_insert using inj(1) p(1) s'(2) fe
    by (auto simp: inj_on_def dirs_def)
  then have "mem_ok s'" using s'(5) fe d unfolding mem_ok_def by metis
  moreover have "asids_ok s'"
    unfolding asids_ok_def l s'(7) inj_on_insert using inj(2,3) p(2) s'(3) fe
    by (auto simp: inj_on_def)
  moreover have "ids_ok s'"
    using inv fe s'(4) ev e(2) unfolding ids_ok_def l kinv0_def by (metis insert_iff)
  moreover have "free_envs_ok s'"
  proof -
    have "{e. e < NENV \<and> env_status (envs s' e) = ENV_FREE} =
        {e. e < NENV \<and> env_status (envs s e) = ENV_FREE} - {e}"
      by (auto simp: fr)
    then show ?thesis using fe s'(6) unfolding free_envs_ok_def by simp
  qed
  moreover have "sched_ok s' q'"
  proof -
    have qs: "x \<in> set q \<longleftrightarrow> x < NENV \<and> env_status (envs s x) = ENV_RUNNABLE" for x
      using inv by (simp add: kinv0_def sched_ok_def)
    have es: "env_status (envs s e) = ENV_FREE" using fe by simp
    have "x \<in> set q' \<longleftrightarrow> x < NENV \<and> env_status (envs s' x) = ENV_RUNNABLE" for x
      using s'(9) qs [of x] es e(1) ev [of x] by (cases "x = e") auto
    then have "set q' = {e. e < NENV \<and> env_status (envs s' e) = ENV_RUNNABLE}" by blast
    with s'(8) show ?thesis by (simp add: sched_ok_def)
  qed
  ultimately show "kinv0 s' q'" by (simp add: kinv0_def)
qed

text \<open>The failing paths keep the invariant; when the ASIDs run out, the directory page stays held.\<close>

lemma env_alloc_error:
  assumes inv: "kinv0 s q" and r: "env_alloc parent_id s = Some (Inl err, s')"
  shows "kinv0 s' q \<and> (err = E_NO_FREE_ENV \<or> err = E_NO_MEM) \<and> live s' = live s \<and>
    (\<forall>e \<in> live s. envs s' e = envs s e) \<and> (\<forall>d \<in> dirs s. as_map s' d = as_map s d) \<and>
    curenv s' = curenv s \<and> cur_pgdir s' = cur_pgdir s \<and> kstack_tf s' = kstack_tf s \<and>
    (\<forall>x. ipc_core (envs s' x) = ipc_core (envs s x) \<and> env_status (envs s' x) = env_status (envs s x))"
proof -
  from inv obtain fl where fl: "lrep (env_free_list s) fl"
    "set fl = {e. e < NENV \<and> env_status (envs s e) = ENV_FREE}"
    by (auto simp: kinv0_def free_envs_ok_def)
  from inv obtain X xs where vm: "vm_inv s (dirs s) X xs" and inj: "inj_on (pgdir_of s) (live s)"
    by (auto simp: kinv0_def mem_ok_def)
  show ?thesis
  proof (cases fl)
    case Nil
    then show ?thesis using r fl(1) inv by (auto simp: env_alloc_eq lrep_EMPTY)
  next
    case (Cons f es)
    then have first: "\<not> LIST_EMPTY (env_free_list s)" "LIST_FIRST (env_free_list s) = Some f"
      using fl(1) by (simp_all add: lrep_EMPTY lrep_FIRST)
    show ?thesis
    proof (cases xs)
      case Nil
      then show ?thesis using r first inv vm by (auto simp: env_alloc_eq env_setup_vm_fail)
    next
      case xs: (Cons p ps)
      from env_setup_vm_ok [OF vm [unfolded xs], of f] obtain s1 where
        s1: "env_setup_vm f s = Some (Inr (), s1)" "vm_inv s1 (insert p (dirs s)) (X(p := 1)) ps"
          "\<forall>d \<in> dirs s. as_map s1 d = as_map s d" "\<forall>i < 509. \<not> has_tab s1 p i" "p \<notin> dirs s"
          "pmap.more s1 = pmap.more (upd_env f (\<lambda>v. v\<lparr>env_pgdir := p\<rparr>) s)" by blast
      note k1 = kern_more [OF s1(6), simplified]
      have ff: "f \<notin> live s" "env_status (envs s f) = ENV_FREE" using fl(2) Cons by (auto simp: live_def)
      let ?s2 = "upd_env f (\<lambda>v. v\<lparr>env_user_tlb_mod_entry := 0, env_runs := 0\<rparr>) s1"
      have tail: "env_alloc_tail parent_id f s1 = Some (Inl err, s')"
        using r first s1(1) by (simp add: env_alloc_eq)
      obtain a s3 where a: "asid_alloc ?s2 = (a, s3)" by fastforce
      have "\<exists>err'. a = Inl err'"
        using tail a by (cases a) (auto simp: env_alloc_tail_def Let_def mkenvid_def split: bind_splits)
      then obtain err' where "a = Inl err'" by blast
      with tail a asid_alloc_fail [of ?s2 err' s3] have aa: "s' = ?s2" "err = E_NO_FREE_ENV"
        by (auto simp: env_alloc_tail_def)
      have v: "vm_inv s' (dirs s) (X(p := 1)) ps"
        using vm_inv_forget_dir [OF s1(2,4)] s1(5) vm_inv_cong [of s' s1] by (simp add: aa(1))
      have st: "env_status (envs s' e) = env_status (envs s e)" for e by (simp add: aa(1) k1(1))
      have l: "live s' = live s" by (simp add: live_def st)
      have ev: "\<forall>e \<in> live s. envs s' e = envs s e" using ff(1) by (auto simp: aa(1) k1(1))
      then have pp: "pgdir_of s' e = pgdir_of s e" "asid_of s' e = asid_of s e" if "e \<in> live s" for e
        using that by (auto simp: pgdir_of_def asid_of_def)
      have d: "dirs s' = dirs s" unfolding dirs_def l using pp(1) by auto
      have "mem_ok s'" using v inj pp(1) unfolding mem_ok_def d l by (auto cong: inj_on_cong)
      moreover have "asids_ok s'"
        using inv pp(2) unfolding asids_ok_def l kinv0_def by (auto simp: aa(1) k1(6) cong: inj_on_cong)
      moreover have "ids_ok s'" using inv ev unfolding ids_ok_def l kinv0_def by auto
      moreover have ls: "env_free_list s' = env_free_list s" "env_sched_list s' = env_sched_list s"
        by (simp_all add: aa(1) k1)
      have "free_envs_ok s'" "sched_ok s' q"
        using inv ls by (simp_all add: kinv0_def free_envs_ok_def sched_ok_def st)
      moreover have "as_map s' d = as_map s1 d" for d by (rule as_map_cong) (simp add: aa(1))
      moreover have "ipc_core (envs s' x) = ipc_core (envs s x)" for x by (simp add: aa(1) k1(1) ipc_core_def)
      ultimately show ?thesis using aa(2) l ev s1(3) st k1 by (simp add: kinv0_def aa(1))
    qed
  qed
qed

lemma env_alloc_total:
  assumes inv: "kinv0 s q"
  shows "\<exists>r s'. env_alloc parent_id s = Some (r, s')"
proof -
  from inv obtain fl where fl: "lrep (env_free_list s) fl" by (auto simp: kinv0_def free_envs_ok_def)
  from inv obtain X xs where vm: "vm_inv s (dirs s) X xs" by (auto simp: kinv0_def mem_ok_def)
  show ?thesis
  proof (cases fl)
    case Nil
    then show ?thesis using fl by (simp add: env_alloc_eq lrep_EMPTY)
  next
    case (Cons f es)
    then have first: "\<not> LIST_EMPTY (env_free_list s)" "LIST_FIRST (env_free_list s) = Some f"
      using fl by (simp_all add: lrep_EMPTY lrep_FIRST)
    show ?thesis
    proof (cases xs)
      case Nil
      then show ?thesis using first vm by (simp add: env_alloc_eq env_setup_vm_fail)
    next
      case xs: (Cons p ps)
      from env_setup_vm_ok [OF vm [unfolded xs], of f] obtain s1 where
        s1: "env_setup_vm f s = Some (Inr (), s1)"
          "pmap.more s1 = pmap.more (upd_env f (\<lambda>v. v\<lparr>env_pgdir := p\<rparr>) s)" by blast
      have l1: "env_free_list s1 = env_free_list s" using kern_more(3) [OF s1(2)] by simp
      obtain fl' where fl': "LIST_REMOVE f (env_free_list s) = Some fl'"
        using lrep_REMOVE [of "env_free_list s" "[]" f es] fl Cons by auto
      let ?s2 = "upd_env f (\<lambda>v. v\<lparr>env_user_tlb_mod_entry := 0, env_runs := 0\<rparr>) s1"
      obtain a s3 where a: "asid_alloc ?s2 = (a, s3)" by fastforce
      have "env_free_list s3 = env_free_list s"
        using a l1 by (auto simp: asid_alloc_def split: option.splits)
      then show ?thesis
        using first s1(1) a fl'
        by (cases a) (auto simp: env_alloc_eq env_alloc_tail_def Let_def mkenvid_def)
    qed
  qed
qed

end
