(* ===== verification/Tlbex.thy ===== *)
theory Tlbex
  imports Env_Alloc
begin

unbundle bit_operations_syntax

text \<open>
  TLB exceptions: \<^verbatim>\<open>kern/tlbex.c\<close>, and the accesses of the kernel to memory of the current
  environment. Such an access goes through the TLB; when the page is missing, the refill
  handler allocates it. A kernel store to a page without \<^verbatim>\<open>PTE_D\<close> raises a TLB modification
  exception inside the kernel, and a misaligned access an address error: both are \<open>None\<close>.
\<close>

definition passive_alloc :: "u32 \<Rightarrow> nat \<Rightarrow> u32 \<Rightarrow> kern \<Rightarrow> kern option" where
  "passive_alloc va pgdir asid s =
     (if va < UTEMP then None
      else if va \<ge> USTACKTOP \<and> va < USTACKTOP + PAGE_SIZE then None
      else if va \<ge> UENVS \<and> va < UPAGES then None
      else if va \<ge> UPAGES \<and> va < UVPT then None
      else if va \<ge> ULIM then None
      else do {
        (r, s) \<leftarrow> page_alloc s;
        case r of
          Inl _ \<Rightarrow> None
        | Inr p \<Rightarrow> do {
            (r, s) \<leftarrow> page_insert pgdir asid p (PTE_ADDR va) (if va \<ge> UVPT \<and> va < ULIM then 0 else PTE_D) s;
            case r of Inl _ \<Rightarrow> None | Inr _ \<Rightarrow> Some s
          }
      })"

text \<open>The loop of \<^verbatim>\<open>_do_tlb_refill\<close>; the result is the place of the entry.\<close>

partial_function (option) refill_loop :: "u32 \<Rightarrow> u32 \<Rightarrow> kern \<Rightarrow> ((nat \<times> nat) \<times> kern) option" where
  "refill_loop va asid s =
     (case page_lookup (cur_pgdir s) va s of
        None \<Rightarrow> None
      | Some (r, s) \<Rightarrow>
          (case r of
             Some (_, ppte) \<Rightarrow> Some (ppte, s)
           | None \<Rightarrow>
               (case passive_alloc va (cur_pgdir s) asid s of
                  None \<Rightarrow> None
                | Some s \<Rightarrow> refill_loop va asid s)))"

definition do_tlb_refill :: "u32 \<Rightarrow> u32 \<Rightarrow> kern \<Rightarrow> ((u32 \<times> u32) \<times> kern) option" where
  "do_tlb_refill va asid s = do {
     let s = tlb_invalidate asid va s;
     ((pt, k), s) \<leftarrow> refill_loop va asid s;
     let k = k - k mod 2;
     Some ((drop_bit 6 (pm s pt k), drop_bit 6 (pm s pt (k + 1))), s)
   }"

section \<open>Kernel access to user memory\<close>

definition user_pte :: "u32 \<Rightarrow> kern \<Rightarrow> (u32 \<times> kern) option" where
  "user_pte va s = do {
     ((pt, k), s) \<leftarrow> refill_loop va (user_asid s) s;
     Some (pm s pt k, s)
   }"

definition kload32 :: "u32 \<Rightarrow> kern \<Rightarrow> (u32 \<times> kern) option" where
  "kload32 va s =
     (if unat va mod 4 \<noteq> 0 then None
      else if va < ULIM then do {
        (pte, s) \<leftarrow> user_pte va s;
        Some (pm s (PPN pte) (unat va mod 4096 div 4), s)
      }
      else if va < 0xA0000000 \<and> PPN (va - ULIM) < npage s
      then Some (pm s (PPN (va - ULIM)) (unat va mod 4096 div 4), s)
      else None)"

definition kload8 :: "u32 \<Rightarrow> kern \<Rightarrow> (u8 \<times> kern) option" where
  "kload8 va s =
     (if va < ULIM then do {
        (pte, s) \<leftarrow> user_pte va s;
        Some (page_byte s (PPN pte) (unat va mod 4096), s)
      }
      else if va < 0xA0000000 \<and> PPN (va - ULIM) < npage s
      then Some (page_byte s (PPN (va - ULIM)) (unat va mod 4096), s)
      else None)"

text \<open>Stores go to user addresses only; the callers check the range.\<close>

definition kstore32 :: "u32 \<Rightarrow> u32 \<Rightarrow> kern \<Rightarrow> kern option" where
  "kstore32 va w s =
     (if unat va mod 4 \<noteq> 0 \<or> va \<ge> ULIM then None
      else do {
        (pte, s) \<leftarrow> user_pte va s;
        if pte AND PTE_D = 0 then None
        else Some (pte_store (PPN pte, unat va mod 4096 div 4) w s)
      })"

definition kstore8 :: "u32 \<Rightarrow> u8 \<Rightarrow> kern \<Rightarrow> kern option" where
  "kstore8 va b s =
     (if va \<ge> ULIM then None
      else do {
        (pte, s) \<leftarrow> user_pte va s;
        if pte AND PTE_D = 0 then None
        else Some (page_put_byte (PPN pte) (unat va mod 4096) b s)
      })"

fun kloads8 :: "u32 \<Rightarrow> nat \<Rightarrow> kern \<Rightarrow> (u8 list \<times> kern) option" where
  "kloads8 va 0 s = Some ([], s)"
| "kloads8 va (Suc n) s = do {
     (b, s) \<leftarrow> kload8 va s;
     (bs, s) \<leftarrow> kloads8 (va + 1) n s;
     Some (b # bs, s)
   }"

fun kstores32 :: "u32 \<Rightarrow> u32 list \<Rightarrow> kern \<Rightarrow> kern option" where
  "kstores32 va [] s = Some s"
| "kstores32 va (w # ws) s = Option.bind (kstore32 va w s) (kstores32 (va + 4) ws)"

fun kloads32 :: "u32 \<Rightarrow> nat \<Rightarrow> kern \<Rightarrow> (u32 list \<times> kern) option" where
  "kloads32 va 0 s = Some ([], s)"
| "kloads32 va (Suc n) s = do {
     (w, s) \<leftarrow> kload32 va s;
     (ws, s) \<leftarrow> kloads32 (va + 4) n s;
     Some (w # ws, s)
   }"

text \<open>A trap frame in memory: 32 registers and 6 special registers, 152 bytes.\<close>

definition tf_words :: "Trapframe \<Rightarrow> u32 list" where
  "tf_words tf = map (regs tf) [0..<32] @
     [cp0_status tf, tf_hi tf, tf_lo tf, cp0_badvaddr tf, cp0_cause tf, cp0_epc tf]"

definition words_tf :: "u32 list \<Rightarrow> Trapframe" where
  "words_tf ws = \<lparr>regs = (\<lambda>i. if i < 32 then ws ! i else 0), cp0_status = ws ! 32, tf_hi = ws ! 33,
     tf_lo = ws ! 34, cp0_badvaddr = ws ! 35, cp0_cause = ws ! 36, cp0_epc = ws ! 37\<rparr>"

section \<open>TLB modification exceptions\<close>

text \<open>
  The trap frame \<^verbatim>\<open>tf\<close> of the exception is the one below \<^verbatim>\<open>KSTACKTOP\<close>. The store to the
  exception stack is a store to the current address space.
\<close>

definition do_tlb_mod :: "kern \<Rightarrow> kern option" where
  "do_tlb_mod s = do {
     let tmp_tf = kstack_tf s;
     let sp = regs tmp_tf 29;
     let sp = (if sp < USTACKTOP \<or> sp \<ge> UXSTACKTOP then UXSTACKTOP else sp);
     let sp = sp - 152;
     s \<leftarrow> kstores32 sp (tf_words tmp_tf) s;
     (_, s) \<leftarrow> page_lookup (cur_pgdir s) (cp0_badvaddr tmp_tf) s;
     c \<leftarrow> curenv s;
     let entry = env_user_tlb_mod_entry (envs s c);
     if entry \<noteq> 0 then
       Some (s\<lparr>kstack_tf := (kstack_tf s)\<lparr>regs := (regs tmp_tf)(4 := sp, 29 := sp - 4),
                cp0_epc := entry\<rparr>\<rparr>)
     else None
   }"

end
