(* ===== verification/Syscall.thy ===== *)
theory Syscall
  imports Tlbex
begin

unbundle bit_operations_syntax

text \<open>
  The system calls: \<^verbatim>\<open>kern/syscall_all.c\<close>, with \<^verbatim>\<open>printcharc\<close> and \<^verbatim>\<open>scancharc\<close> of
  \<^verbatim>\<open>kern/machine.c\<close> and the device access functions of \<^verbatim>\<open>include/io.h\<close>. Each call is a function
  on the kernel state whose result is a value or an error code for register \<^verbatim>\<open>$v0\<close>, or a
  switch to another environment. A call whose C function is \<^verbatim>\<open>void\<close> yields 0 here; its callers
  do not use the register. What the devices return is the parameter \<open>hw\<close>.
\<close>

record hw =
  hw_read :: "u32 \<Rightarrow> nat \<Rightarrow> u32"

type_synonym sysres = "((errno + u32) ctl \<times> kern) option"

abbreviation ret :: "u32 \<Rightarrow> kern \<Rightarrow> sysres" where
  "ret v s \<equiv> Some (Returns (Inr v), s)"

abbreviation err :: "errno \<Rightarrow> kern \<Rightarrow> sysres" where
  "err e s \<equiv> Some (Returns (Inl e), s)"

section \<open>Console and devices\<close>

definition MALTA_SERIAL_DATA :: u32 where [mos_consts]: "MALTA_SERIAL_DATA = MALTA_SERIAL_BASE + 0"
definition MALTA_SERIAL_LSR :: u32 where [mos_consts]: "MALTA_SERIAL_LSR = MALTA_SERIAL_BASE + 5"

text \<open>The wait of \<^verbatim>\<open>printcharc\<close> for the transmitter is taken to end.\<close>

definition printcharc :: "u8 \<Rightarrow> kern \<Rightarrow> kern" where
  "printcharc ch s = (let s = (if ch = 0x0A then printk (Putc 0x0D) s else s) in printk (Putc ch) s)"

definition scancharc :: "hw \<Rightarrow> u32" where
  "scancharc h =
     (if ucast (hw_read h MALTA_SERIAL_LSR 1) AND (0x1 :: u8) \<noteq> 0
      then ucast (ucast (hw_read h MALTA_SERIAL_DATA 1) :: u8) else 0)"

definition sys_putchar :: "u32 \<Rightarrow> kern \<Rightarrow> sysres" where
  "sys_putchar c s = ret 0 (printcharc (ucast c) s)"

definition sys_print_cons :: "u32 \<Rightarrow> u32 \<Rightarrow> kern \<Rightarrow> sysres" where
  "sys_print_cons ptr num s =
     (if ptr + num > UTOP \<or> ptr \<ge> UTOP \<or> ptr > ptr + num then err E_INVAL s
      else do {
        s \<leftarrow> mfold (\<lambda>i s. do { (b, s) \<leftarrow> kload8 (ptr + of_nat i) s; Some (printcharc b s) })
               [0..<unat num] s;
        ret 0 s
      })"

definition sys_cgetc :: "hw \<Rightarrow> kern \<Rightarrow> sysres" where
  "sys_cgetc h s = ret (scancharc h) s"

definition kload16 :: "u32 \<Rightarrow> kern \<Rightarrow> (u16 \<times> kern) option" where
  "kload16 va s =
     (if unat va mod 2 \<noteq> 0 then None
      else do {
        (a, s) \<leftarrow> kload8 va s;
        (b, s) \<leftarrow> kload8 (va + 1) s;
        Some (ucast a OR push_bit 8 (ucast b), s)
      })"

definition kstore16 :: "u32 \<Rightarrow> u16 \<Rightarrow> kern \<Rightarrow> kern option" where
  "kstore16 va w s =
     (if unat va mod 2 \<noteq> 0 then None
      else do {
        s \<leftarrow> kstore8 va (ucast w) s;
        kstore8 (va + 1) (ucast (drop_bit 8 w)) s
      })"

definition sys_write_dev :: "u32 \<Rightarrow> u32 \<Rightarrow> u32 \<Rightarrow> kern \<Rightarrow> sysres" where
  "sys_write_dev va pa len s =
     (if is_illegal_va_range va len then err E_INVAL s
      else if \<not> dev_range pa len then err E_INVAL s
      else if len = 1 then do { (b, s) \<leftarrow> kload8 va s; ret 0 (printk (Dev_write pa 1 (ucast b)) s) }
      else if len = 2 then do { (w, s) \<leftarrow> kload16 va s; ret 0 (printk (Dev_write pa 2 (ucast w)) s) }
      else if len = 4 then do { (w, s) \<leftarrow> kload32 va s; ret 0 (printk (Dev_write pa 4 w) s) }
      else err E_INVAL s)"

definition sys_read_dev :: "hw \<Rightarrow> u32 \<Rightarrow> u32 \<Rightarrow> u32 \<Rightarrow> kern \<Rightarrow> sysres" where
  "sys_read_dev h va pa len s =
     (if is_illegal_va_range va len then err E_INVAL s
      else if \<not> dev_range pa len then err E_INVAL s
      else if len = 1 then do { s \<leftarrow> kstore8 va (ucast (hw_read h pa 1)) s; ret 0 s }
      else if len = 2 then do { s \<leftarrow> kstore16 va (ucast (hw_read h pa 2)) s; ret 0 s }
      else if len = 4 then do { s \<leftarrow> kstore32 va (hw_read h pa 4) s; ret 0 s }
      else err E_INVAL s)"

section \<open>Environments\<close>

definition sys_getenvid :: "kern \<Rightarrow> sysres" where
  "sys_getenvid s = do { c \<leftarrow> curenv s; ret (env_id (envs s c)) s }"

definition sys_yield :: "kern \<Rightarrow> sysres" where
  "sys_yield s = do { s \<leftarrow> schedule True s; Some (Switched, s) }"

definition sys_env_destroy :: "u32 \<Rightarrow> kern \<Rightarrow> sysres" where
  "sys_env_destroy envid s = do {
     r \<leftarrow> envid2env envid True s;
     case r of
       Inl e \<Rightarrow> err e s
     | Inr e \<Rightarrow> do {
         c \<leftarrow> curenv s;
         (ctl, s) \<leftarrow> env_destroy e (printk (Msg_destroying (env_id (envs s c)) (env_id (envs s e))) s);
         case ctl of Switched \<Rightarrow> Some (Switched, s) | Returns _ \<Rightarrow> ret 0 s
       }
   }"

definition sys_exofork :: "kern \<Rightarrow> sysres" where
  "sys_exofork s = do {
     c \<leftarrow> curenv s;
     (r, s) \<leftarrow> env_alloc (env_id (envs s c)) s;
     case r of
       Inl e \<Rightarrow> err e s
     | Inr e \<Rightarrow> do {
         let s = upd_env e (\<lambda>v. v\<lparr>env_tf := kstack_tf s\<rparr>) s;
         let s = upd_env e (\<lambda>v. v\<lparr>env_tf := (env_tf v)\<lparr>regs := (regs (env_tf v))(2 := 0)\<rparr>\<rparr>) s;
         let s = upd_env e (\<lambda>v. v\<lparr>env_status := ENV_NOT_RUNNABLE, env_pri := env_pri (envs s c)\<rparr>) s;
         ret (env_id (envs s e)) s
       }
   }"

definition sys_set_env_status :: "u32 \<Rightarrow> u32 \<Rightarrow> kern \<Rightarrow> sysres" where
  "sys_set_env_status envid status s =
     (if status \<noteq> ENV_RUNNABLE \<and> status \<noteq> ENV_NOT_RUNNABLE then err E_INVAL s
      else do {
        r \<leftarrow> envid2env envid True s;
        case r of
          Inl e \<Rightarrow> err e s
        | Inr e \<Rightarrow> do {
            s \<leftarrow> (if env_status (envs s e) \<noteq> status then
                   if status = ENV_RUNNABLE then do {
                     q \<leftarrow> TAILQ_INSERT_TAIL e (env_sched_list s);
                     Some (s\<lparr>env_sched_list := q\<rparr>)
                   }
                   else do {
                     q \<leftarrow> TAILQ_REMOVE e (env_sched_list s);
                     Some (s\<lparr>env_sched_list := q\<rparr>)
                   }
                 else Some s);
            ret 0 (upd_env e (\<lambda>v. v\<lparr>env_status := status\<rparr>) s)
          }
      })"

definition sys_set_tlb_mod_entry :: "u32 \<Rightarrow> u32 \<Rightarrow> kern \<Rightarrow> sysres" where
  "sys_set_tlb_mod_entry envid func s = do {
     r \<leftarrow> envid2env envid True s;
     case r of
       Inl e \<Rightarrow> err e s
     | Inr e \<Rightarrow> ret 0 (upd_env e (\<lambda>v. v\<lparr>env_user_tlb_mod_entry := func\<rparr>) s)
   }"

definition sys_set_trapframe :: "u32 \<Rightarrow> u32 \<Rightarrow> kern \<Rightarrow> sysres" where
  "sys_set_trapframe envid tf s =
     (if is_illegal_va_range tf 152 then err E_INVAL s
      else do {
        r \<leftarrow> envid2env envid True s;
        case r of
          Inl e \<Rightarrow> err e s
        | Inr e \<Rightarrow> do {
            (ws, s) \<leftarrow> kloads32 tf 38 s;
            if curenv s = Some e
            then ret (regs (words_tf ws) 2) (s\<lparr>kstack_tf := words_tf ws\<rparr>)
            else ret 0 (upd_env e (\<lambda>v. v\<lparr>env_tf := words_tf ws\<rparr>) s)
          }
      })"

section \<open>Memory\<close>

definition sys_mem_alloc :: "u32 \<Rightarrow> u32 \<Rightarrow> u32 \<Rightarrow> kern \<Rightarrow> sysres" where
  "sys_mem_alloc envid va perm s =
     (if is_illegal_va va then err E_INVAL s
      else do {
        r \<leftarrow> envid2env envid True s;
        case r of
          Inl e \<Rightarrow> err e s
        | Inr env \<Rightarrow> do {
            (r, s) \<leftarrow> page_alloc s;
            case r of
              Inl e \<Rightarrow> err e s
            | Inr pp \<Rightarrow> do {
                (r, s) \<leftarrow> page_insert (env_pgdir (envs s env)) (env_asid (envs s env)) pp va perm s;
                case r of Inl e \<Rightarrow> err e s | Inr _ \<Rightarrow> ret 0 s
              }
          }
      })"

definition sys_mem_map :: "u32 \<Rightarrow> u32 \<Rightarrow> u32 \<Rightarrow> u32 \<Rightarrow> u32 \<Rightarrow> kern \<Rightarrow> sysres" where
  "sys_mem_map srcid srcva dstid dstva perm s =
     (if is_illegal_va srcva \<or> is_illegal_va dstva then err E_INVAL s
      else do {
        r \<leftarrow> envid2env srcid True s;
        case r of
          Inl e \<Rightarrow> err e s
        | Inr srcenv \<Rightarrow> do {
            r \<leftarrow> envid2env dstid True s;
            case r of
              Inl e \<Rightarrow> err e s
            | Inr dstenv \<Rightarrow> do {
                (r, s) \<leftarrow> page_lookup (env_pgdir (envs s srcenv)) srcva s;
                case r of
                  None \<Rightarrow> err E_INVAL s
                | Some (pp, _) \<Rightarrow> do {
                    (r, s) \<leftarrow> page_insert (env_pgdir (envs s dstenv)) (env_asid (envs s dstenv)) pp dstva perm s;
                    case r of Inl e \<Rightarrow> err e s | Inr _ \<Rightarrow> ret 0 s
                  }
              }
          }
      })"

definition sys_mem_unmap :: "u32 \<Rightarrow> u32 \<Rightarrow> kern \<Rightarrow> sysres" where
  "sys_mem_unmap envid va s =
     (if is_illegal_va va then err E_INVAL s
      else do {
        r \<leftarrow> envid2env envid True s;
        case r of
          Inl e \<Rightarrow> err e s
        | Inr e \<Rightarrow> do {
            s \<leftarrow> page_remove (env_pgdir (envs s e)) (env_asid (envs s e)) va s;
            ret 0 s
          }
      })"

section \<open>Messages\<close>

definition block_current :: "(Env \<Rightarrow> Env) \<Rightarrow> kern \<Rightarrow> sysres" where
  "block_current f s = do {
     c \<leftarrow> curenv s;
     let s = upd_env c f s;
     let s = upd_env c (\<lambda>v. v\<lparr>env_status := ENV_NOT_RUNNABLE\<rparr>) s;
     q \<leftarrow> TAILQ_REMOVE c (env_sched_list s);
     let s = s\<lparr>env_sched_list := q\<rparr>;
     let s = s\<lparr>kstack_tf := (kstack_tf s)\<lparr>regs := (regs (kstack_tf s))(2 := 0)\<rparr>\<rparr>;
     s \<leftarrow> schedule True s;
     Some (Switched, s)
   }"

definition sys_ipc_recv :: "u32 \<Rightarrow> kern \<Rightarrow> sysres" where
  "sys_ipc_recv dstva s =
     (if dstva \<noteq> 0 \<and> is_illegal_va dstva then err E_INVAL s
      else block_current (\<lambda>v. v\<lparr>env_ipc_recving := 1, env_ipc_dstva := dstva\<rparr>) s)"

definition sys_recv_return_value :: "kern \<Rightarrow> sysres" where
  "sys_recv_return_value s = block_current (\<lambda>v. v\<lparr>waiting_return_value := 1\<rparr>) s"

text \<open>The common end of the two send calls: wake the receiver up, then map the page.\<close>

definition deliver :: "nat \<Rightarrow> (Env \<Rightarrow> Env) \<Rightarrow> u32 \<Rightarrow> u32 \<Rightarrow> kern \<Rightarrow> sysres" where
  "deliver e f srcva perm s = do {
     c \<leftarrow> curenv s;
     let s = upd_env e f s;
     let s = upd_env e (\<lambda>v. v\<lparr>env_status := ENV_RUNNABLE\<rparr>) s;
     q \<leftarrow> TAILQ_INSERT_TAIL e (env_sched_list s);
     let s = s\<lparr>env_sched_list := q\<rparr>;
     if srcva \<noteq> 0 then do {
       (r, s) \<leftarrow> page_lookup (env_pgdir (envs s c)) srcva s;
       case r of
         None \<Rightarrow> err E_INVAL s
       | Some (p, _) \<Rightarrow> do {
           (r, s) \<leftarrow> page_insert (env_pgdir (envs s e)) (env_asid (envs s e)) p
                      (env_ipc_dstva (envs s e)) perm s;
           case r of Inl e \<Rightarrow> err e s | Inr _ \<Rightarrow> ret 0 s
         }
     }
     else ret 0 s
   }"

definition sys_ipc_try_send :: "u32 \<Rightarrow> u32 \<Rightarrow> u32 \<Rightarrow> u32 \<Rightarrow> kern \<Rightarrow> sysres" where
  "sys_ipc_try_send envid val srcva perm s =
     (if srcva \<noteq> 0 \<and> is_illegal_va srcva then err E_INVAL s
      else do {
        r \<leftarrow> envid2env envid False s;
        case r of
          Inl e \<Rightarrow> err e s
        | Inr e \<Rightarrow>
            if env_ipc_recving (envs s e) \<noteq> 1 then err E_IPC_NOT_RECV s
            else do {
              c \<leftarrow> curenv s;
              deliver e (\<lambda>v. v\<lparr>env_ipc_value := val, env_ipc_from := env_id (envs s c),
                env_ipc_perm := PTE_V OR perm, env_ipc_recving := 0\<rparr>) srcva perm s
            }
      })"

definition sys_send_return_value :: "u32 \<Rightarrow> u32 \<Rightarrow> u32 \<Rightarrow> u32 \<Rightarrow> kern \<Rightarrow> sysres" where
  "sys_send_return_value envid val srcva perm s =
     (if srcva \<noteq> 0 \<and> is_illegal_va srcva then err E_INVAL s
      else do {
        r \<leftarrow> envid2env envid False s;
        case r of
          Inl e \<Rightarrow> err e s
        | Inr e \<Rightarrow>
            if waiting_return_value (envs s e) \<noteq> 1 then err E_IPC_NOT_RECV s
            else do {
              c \<leftarrow> curenv s;
              deliver e (\<lambda>v. v\<lparr>env_ipc_value := val, env_ipc_from := env_id (envs s c),
                env_ipc_perm := PTE_V OR perm, env_ipc_recving := 0, waiting_return_value := 0,
                return_value := val\<rparr>) srcva perm s
            }
      })"

section \<open>Jobs and panic\<close>

text \<open>\<^verbatim>\<open>strcpy\<close> from user memory into the 1024 bytes of a job.\<close>

fun kstring :: "u32 \<Rightarrow> nat \<Rightarrow> kern \<Rightarrow> (u8 list \<times> kern) option" where
  "kstring va 0 s = None"
| "kstring va (Suc n) s = do {
     (b, s) \<leftarrow> kload8 va s;
     if b = 0 then Some ([], s)
     else do { (bs, s) \<leftarrow> kstring (va + 1) n s; Some (b # bs, s) }
   }"

definition sys_create_job :: "u32 \<Rightarrow> u32 \<Rightarrow> kern \<Rightarrow> sysres" where
  "sys_create_job envid cmd s = do {
     (bs, s) \<leftarrow> kstring cmd 1024 s;
     s \<leftarrow> env_create_job envid bs s;
     ret 0 s
   }"

definition sys_print_jobs :: "kern \<Rightarrow> sysres" where
  "sys_print_jobs s = ret 0 (env_print_jobs s)"

definition sys_set_job_done :: "u32 \<Rightarrow> kern \<Rightarrow> sysres" where
  "sys_set_job_done envid s = ret 0 (env_set_job_done envid s)"

definition sys_fg_job :: "u32 \<Rightarrow> kern \<Rightarrow> sysres" where
  "sys_fg_job jobId s = ret (env_fg_job jobId s) s"

definition sys_kill_job :: "u32 \<Rightarrow> kern \<Rightarrow> sysres" where
  "sys_kill_job jobId s = do {
     (c, s) \<leftarrow> env_kill_job jobId s;
     case c of Switched \<Rightarrow> Some (Switched, s) | Returns _ \<Rightarrow> ret 0 s
   }"

definition sys_panic :: "u32 \<Rightarrow> kern \<Rightarrow> sysres" where
  "sys_panic msg s = None"

section \<open>Dispatch\<close>

definition MAX_SYSNO :: nat where [mos_consts]: "MAX_SYSNO = 25"

definition syscall_table ::
  "nat \<Rightarrow> hw \<Rightarrow> u32 \<Rightarrow> u32 \<Rightarrow> u32 \<Rightarrow> u32 \<Rightarrow> u32 \<Rightarrow> kern \<Rightarrow> sysres" where
  "syscall_table n h a1 a2 a3 a4 a5 =
     (if n = 0 then sys_putchar a1
      else if n = 1 then sys_print_cons a1 a2
      else if n = 2 then sys_getenvid
      else if n = 3 then sys_yield
      else if n = 4 then sys_env_destroy a1
      else if n = 5 then sys_set_tlb_mod_entry a1 a2
      else if n = 6 then sys_mem_alloc a1 a2 a3
      else if n = 7 then sys_mem_map a1 a2 a3 a4 a5
      else if n = 8 then sys_mem_unmap a1 a2
      else if n = 9 then sys_exofork
      else if n = 10 then sys_set_env_status a1 a2
      else if n = 11 then sys_set_trapframe a1 a2
      else if n = 12 then sys_panic a1
      else if n = 13 then sys_ipc_try_send a1 a2 a3 a4
      else if n = 14 then sys_ipc_recv a1
      else if n = 15 then sys_cgetc h
      else if n = 16 then sys_write_dev a1 a2 a3
      else if n = 17 then sys_read_dev h a1 a2 a3
      else if n = 18 then sys_create_job a1 a2
      else if n = 19 then sys_print_jobs
      else if n = 20 then sys_set_job_done a1
      else if n = 21 then sys_fg_job a1
      else if n = 22 then sys_kill_job a1
      else if n = 23 then sys_send_return_value a1 a2 a3 a4
      else sys_recv_return_value)"

definition ret_word :: "errno + u32 \<Rightarrow> u32" where
  "ret_word r = (case r of Inl e \<Rightarrow> of_int (- errcode e) | Inr v \<Rightarrow> v)"

definition set_v0 :: "u32 \<Rightarrow> kern \<Rightarrow> kern" where
  "set_v0 v s = s\<lparr>kstack_tf := (kstack_tf s)\<lparr>regs := (regs (kstack_tf s))(2 := v)\<rparr>\<rparr>"

definition do_syscall :: "hw \<Rightarrow> kern \<Rightarrow> (unit ctl \<times> kern) option" where
  "do_syscall h s =
     (let tf = kstack_tf s; sysno = sint (regs tf 4) in
      if sysno < 0 \<or> sysno \<ge> int MAX_SYSNO
      then Some (Returns (), set_v0 (ret_word (Inl E_NO_SYS)) s)
      else do {
        let s = s\<lparr>kstack_tf := tf\<lparr>cp0_epc := cp0_epc tf + 4\<rparr>\<rparr>;
        (arg4, s) \<leftarrow> kload32 (regs tf 29 + 16) s;
        (arg5, s) \<leftarrow> kload32 (regs tf 29 + 20) s;
        (r, s) \<leftarrow> syscall_table (nat sysno) h (regs tf 5) (regs tf 6) (regs tf 7) arg4 arg5 s;
        case r of
          Returns v \<Rightarrow> Some (Returns (), set_v0 (ret_word v) s)
        | Switched \<Rightarrow> Some (Switched, s)
      })"

end
