(* ===== verification/Syscall_Inv.thy ===== *)
theory Syscall_Inv
  imports Syscall
begin

unbundle bit_operations_syntax

text \<open>
  The system calls on states that satisfy the kernel invariant: what each of them does to the
  address spaces and the scheduling queue, that it keeps the invariant, and which permission
  checks protect an environment from the others.
\<close>

section \<open>Identifiers and permissions\<close>

lemma envid2env_ok:
  assumes "kinv s q" "envid2env envid cp s = Some (Inr e)"
  shows "e \<in> live s"
  using assms ENVX_less [of envid]
  by (auto simp: kinv_def cur_ok_def envid2env_def Let_def live_def simp del: ENVX_less
      split: option.splits if_splits bind_splits)

text \<open>The environments that the current one may operate on: itself and its children.\<close>

definition may_control :: "kern \<Rightarrow> nat \<Rightarrow> bool" where
  "may_control s e \<longleftrightarrow> (\<exists>c. curenv s = Some c \<and>
     (e = c \<or> env_id (envs s e) = env_id (envs s c) \<or> env_parent_id (envs s e) = env_id (envs s c)))"

lemma envid2env_perm:
  "envid2env envid True s = Some (Inr e) \<Longrightarrow> may_control s e"
  by (auto simp: envid2env_def may_control_def Let_def split: if_splits bind_splits option.splits)

lemma envid2env_some: "curenv s = Some c \<Longrightarrow> \<exists>r. envid2env envid cp s = Some r"
  by (auto simp: envid2env_def Let_def)

lemma envid2env_err: "envid2env envid cp s = Some (Inl e) \<Longrightarrow> e = E_BAD_ENV"
  by (auto simp: envid2env_def Let_def split: if_splits bind_splits option.splits)

section \<open>Memory calls\<close>

lemma legal_va: "\<not> is_illegal_va va \<Longrightarrow> va < UTOP"
  by (simp add: is_illegal_va_def not_le)

lemma kinv_vm:
  assumes inv: "kinv s q" and m: "pmap.more s' = pmap.more s" and vm: "vm_inv s' (dirs s) X xs"
  shows "kinv s' q" "dirs s' = dirs s" "live s' = live s"
proof -
  note k = kern_more [OF m]
  have l: "live s' = live s" "pgdir_of s' = pgdir_of s" "asid_of s' = asid_of s"
    by (auto simp: live_def pgdir_of_def asid_of_def k)
  then show d: "dirs s' = dirs s" by (simp add: dirs_def)
  show "live s' = live s" by (rule l)
  from inv vm have "mem_ok s'" by (auto simp: kinv_def kinv0_def mem_ok_def l d)
  moreover from inv have "cur_ok s'"
    unfolding kinv_def cur_ok_def k l by blast
  ultimately show "kinv s' q"
    using inv by (simp add: kinv_def kinv0_def free_envs_ok_def sched_ok_def asids_ok_def ids_ok_def l k)
qed

lemma live_dir: "e \<in> live s \<Longrightarrow> env_pgdir (envs s e) \<in> dirs s"
  by (auto simp: dirs_def pgdir_of_def)

definition refs_room :: "kern \<Rightarrow> bool" where
  "refs_room s \<longleftrightarrow> (\<forall>p < npage s. unat (pp_ref s p) < 65535)"

text \<open>The abstract effect of a memory call on the address spaces.\<close>

definition maps_to :: "kern \<Rightarrow> kern \<Rightarrow> nat \<Rightarrow> u32 \<Rightarrow> u32 option \<Rightarrow> bool" where
  "maps_to s s' e va oe \<longleftrightarrow> (\<forall>d \<in> dirs s. as_map s' d =
     (if d = env_pgdir (envs s e) then (as_map s d)(vaddr va := oe) else as_map s d))"

definition same_as :: "kern \<Rightarrow> kern \<Rightarrow> bool" where
  "same_as s s' \<longleftrightarrow> (\<forall>d \<in> dirs s. as_map s' d = as_map s d)"

lemma mem_alloc_step:
  assumes inv: "kinv s q" and e: "e \<in> live s" and va: "va < UTOP" and perm: "perm < 4096"
    and pa: "page_alloc s = Some (Inr pp, s1)"
  shows "\<exists>r s'. page_insert (env_pgdir (envs s1 e)) asid pp va perm s1 = Some (r, s') \<and>
    kinv s' q \<and> pmap.more s' = pmap.more s \<and>
    (case r of Inl er \<Rightarrow> er = E_NO_MEM \<and> same_as s s'
     | Inr _ \<Rightarrow> maps_to s s' e va (Some (mkpte pp perm)) \<and> maps s (dirs s) pp = {})"
proof -
  from inv obtain X xs where vm: "vm_inv s (dirs s) X xs" by (auto simp: kinv_def kinv0_def mem_ok_def)
  from page_alloc_inv [OF vm pa] obtain ys where xs: "xs = pp # ys" and
    s1: "vm_inv s1 (dirs s) X ys" "\<forall>d \<in> dirs s. as_map s1 d = as_map s d" "npage s1 = npage s"
      "pmap.more s1 = pmap.more s" by auto
  note c = clear_page_inv [OF vm [unfolded xs] pa]
  have X: "X pp = 0" "maps s (dirs s) pp = {}" using free_unused(3,4) [OF vm, of pp] xs by auto
  note k = kern_more [OF s1(4)]
  let ?d = "env_pgdir (envs s e)"
  have d: "?d \<in> dirs s" by (rule live_dir [OF e])
  have mp: "mappable s1 (dirs s) X ys pp" using c(4,8,9,10) X by (simp add: mappable_def)
  show ?thesis
  proof (cases "has_tab s1 ?d (PDX va) \<or> ys \<noteq> []")
    case True
    from page_insert_ok [OF s1(1) d va True mp perm, of asid] obtain s' zs where
      s': "page_insert ?d asid pp va perm s1 = Some (Inr (), s')" "vm_inv s' (dirs s) X zs"
        "\<forall>d' \<in> dirs s. as_map s' d' =
          (if d' = ?d then (as_map s1 ?d)(vaddr va \<mapsto> mkpte pp perm) else as_map s1 d')"
        "pmap.more s' = pmap.more s1" by blast
    have m: "pmap.more s' = pmap.more s" using s'(4) s1(4) by simp
    show ?thesis
      using s'(1) kinv_vm(1) [OF inv m s'(2)] s'(3) s1(2) d X(2) m
      by (auto simp: k maps_to_def)
  next
    case False
    let ?s' = "tlb_invalidate asid va s1"
    have "page_insert ?d asid pp va perm s1 = Some (Inl E_NO_MEM, ?s')"
      using page_insert_no_mem [of s1 "dirs s" X ?d va] s1(1) d va False by simp
    moreover have "kinv ?s' q"
      by (rule kinv_vm(1) [OF inv, of _ X ys]) (use s1 in simp_all)
    ultimately show ?thesis using s1(2,4) by (auto simp: k same_as_def)
  qed
qed

lemma mem_map_step:
  assumes inv: "kinv s q" and e: "e \<in> live s" and va: "va < UTOP" and perm: "perm < 4096"
    and src: "d \<in> dirs s" "as_map s d ij = Some pte" and room: "refs_room s"
  shows "\<exists>r s'. page_insert (env_pgdir (envs s e)) (env_asid (envs s e)) (PPN pte) va perm s = Some (r, s') \<and>
    kinv s' q \<and> pmap.more s' = pmap.more s \<and>
    (case r of Inl er \<Rightarrow> er = E_NO_MEM \<and> same_as s s'
     | Inr _ \<Rightarrow> maps_to s s' e va (Some (mkpte (PPN pte) perm)))"
proof -
  from inv obtain X xs where vm: "vm_inv s (dirs s) X xs" by (auto simp: kinv_def kinv0_def mem_ok_def)
  let ?d = "env_pgdir (envs s e)" and ?a = "env_asid (envs s e)"
  have d: "?d \<in> dirs s" by (rule live_dir [OF e])
  have mp: "mappable s (dirs s) X xs (PPN pte)"
    using mapped_mappable [OF vm src] room vm_invD(5) [OF vm src] by (simp add: refs_room_def)
  show ?thesis
  proof (cases "has_tab s ?d (PDX va) \<or> xs \<noteq> []")
    case True
    from page_insert_ok [OF vm d va True mp perm, of ?a] obtain s' zs where
      s': "page_insert ?d ?a (PPN pte) va perm s = Some (Inr (), s')" "vm_inv s' (dirs s) X zs"
        "\<forall>d' \<in> dirs s. as_map s' d' =
          (if d' = ?d then (as_map s ?d)(vaddr va \<mapsto> mkpte (PPN pte) perm) else as_map s d')"
        "pmap.more s' = pmap.more s" by blast
    show ?thesis
      using s'(1) kinv_vm(1) [OF inv s'(4,2)] s'(3,4) by (auto simp: maps_to_def)
  next
    case False
    have "kinv (tlb_invalidate ?a va s) q"
      by (rule kinv_vm(1) [OF inv, of _ X xs]) (use vm in simp_all)
    then show ?thesis
      using page_insert_no_mem [of s "dirs s" X ?d va ?a "PPN pte" perm] vm d va False
      by (auto simp: same_as_def)
  qed
qed

lemma unmap_step:
  assumes inv: "kinv s q" and e: "e \<in> live s" and va: "va < UTOP"
  shows "\<exists>s'. page_remove (env_pgdir (envs s e)) (env_asid (envs s e)) va s = Some s' \<and> kinv s' q \<and>
    pmap.more s' = pmap.more s \<and> maps_to s s' e va None"
proof -
  from inv obtain X xs where vm: "vm_inv s (dirs s) X xs" by (auto simp: kinv_def kinv0_def mem_ok_def)
  let ?d = "env_pgdir (envs s e)" and ?a = "env_asid (envs s e)"
  have d: "?d \<in> dirs s" by (rule live_dir [OF e])
  show ?thesis
  proof (cases "as_map s ?d (vaddr va)")
    case None
    then show ?thesis
      using page_remove_absent [OF vm d va None, of ?a] inv by (auto simp: maps_to_def fun_eq_iff)
  next
    case (Some pte)
    from page_remove_present [OF vm d va Some, of ?a] obtain s' ys where
      s': "page_remove ?d ?a va s = Some s'" "vm_inv s' (dirs s) X ys"
        "\<forall>d' \<in> dirs s. as_map s' d' = (if d' = ?d then (as_map s ?d)(vaddr va := None) else as_map s d')"
        "pmap.more s' = pmap.more s" by blast
    then show ?thesis
      using kinv_vm(1) [OF inv s'(4,2)] by (auto simp: maps_to_def)
  qed
qed

text \<open>
  The whole calls. The error code tells which check failed, and a call that fails changes no
  address space.
\<close>

lemma sys_mem_alloc_ok:
  assumes inv: "kinv s q" and c: "curenv s = Some c" and perm: "perm < 4096"
  shows "\<exists>r s'. sys_mem_alloc envid va perm s = Some (Returns r, s') \<and> kinv s' q \<and>
    pmap.more s' = pmap.more s \<and>
    (case r of
       Inr v \<Rightarrow> v = 0 \<and> \<not> is_illegal_va va \<and>
         (\<exists>e pp. envid2env envid True s = Some (Inr e) \<and> may_control s e \<and>
            maps s (dirs s) pp = {} \<and> maps_to s s' e va (Some (mkpte pp perm)))
     | Inl er \<Rightarrow> same_as s s' \<and>
         (if is_illegal_va va then er = E_INVAL
          else if envid2env envid True s = Some (Inl E_BAD_ENV) then er = E_BAD_ENV else er = E_NO_MEM))"
proof (cases "is_illegal_va va")
  case True
  then show ?thesis using inv by (simp add: sys_mem_alloc_def same_as_def)
next
  case legal: False
  obtain r where r: "envid2env envid True s = Some r" using envid2env_some [OF c] by blast
  show ?thesis
  proof (cases r)
    case (Inl e)
    with r envid2env_err [of envid True s e] inv legal show ?thesis
      by (simp add: sys_mem_alloc_def same_as_def)
  next
    case (Inr e)
    with r have e: "envid2env envid True s = Some (Inr e)" by simp
    note l = envid2env_ok [OF inv e]
    from inv obtain X xs where vm: "vm_inv s (dirs s) X xs" by (auto simp: kinv_def kinv0_def mem_ok_def)
    show ?thesis
    proof (cases xs)
      case Nil
      with vm page_alloc_empty [of s "dirs s" X] inv legal e show ?thesis
        by (simp add: sys_mem_alloc_def same_as_def)
    next
      case (Cons pp ys)
      with vm obtain fl where pa:
        "page_alloc s = Some (Inr pp, s\<lparr>page_free_list := fl, pm := (pm s)(pp := (\<lambda>_. 0))\<rparr>)"
        by (auto elim: page_alloc_ok)
      from mem_alloc_step [OF inv l legal_va [OF legal] perm pa, of "env_asid (envs s e)"] obtain r s' where
        st: "page_insert (env_pgdir (envs s e)) (env_asid (envs s e)) pp va perm
            (s\<lparr>page_free_list := fl, pm := (pm s)(pp := (\<lambda>_. 0))\<rparr>) = Some (r, s')"
          "kinv s' q" "pmap.more s' = pmap.more s"
          "case r of Inl er \<Rightarrow> er = E_NO_MEM \<and> same_as s s'
           | Inr _ \<Rightarrow> maps_to s s' e va (Some (mkpte pp perm)) \<and> maps s (dirs s) pp = {}"
        by auto
      show ?thesis
        using st legal e pa envid2env_perm [OF e]
        by (cases r) (auto simp: sys_mem_alloc_def)
    qed
  qed
qed

lemma sys_mem_map_ok:
  assumes inv: "kinv s q" and c: "curenv s = Some c" and perm: "perm < 4096" and room: "refs_room s"
  shows "\<exists>r s'. sys_mem_map srcid srcva dstid dstva perm s = Some (Returns r, s') \<and> kinv s' q \<and>
    pmap.more s' = pmap.more s \<and>
    (case r of
       Inr v \<Rightarrow> v = 0 \<and> \<not> is_illegal_va srcva \<and> \<not> is_illegal_va dstva \<and>
         (\<exists>e1 e2 pte. envid2env srcid True s = Some (Inr e1) \<and> may_control s e1 \<and>
            envid2env dstid True s = Some (Inr e2) \<and> may_control s e2 \<and>
            as_map s (pgdir_of s e1) (vaddr srcva) = Some pte \<and>
            maps_to s s' e2 dstva (Some (mkpte (PPN pte) perm)))
     | Inl er \<Rightarrow> same_as s s' \<and> er \<in> {E_INVAL, E_BAD_ENV, E_NO_MEM})"
proof (cases "is_illegal_va srcva \<or> is_illegal_va dstva")
  case True
  then show ?thesis using inv by (auto simp: sys_mem_map_def same_as_def)
next
  case legal: False
  obtain r1 r2 where r: "envid2env srcid True s = Some r1" "envid2env dstid True s = Some r2"
    using envid2env_some [OF c] by blast
  show ?thesis
  proof (cases "(\<exists>e. r1 = Inl e) \<or> (\<exists>e. r2 = Inl e)")
    case True
    with r envid2env_err [of srcid True s] envid2env_err [of dstid True s] inv legal show ?thesis
      by (cases r1) (auto simp: sys_mem_map_def same_as_def)
  next
    case False
    then obtain e1 e2 where e: "envid2env srcid True s = Some (Inr e1)" "envid2env dstid True s = Some (Inr e2)"
      using r by (cases r1; cases r2) auto
    note l = envid2env_ok [OF inv e(1)] envid2env_ok [OF inv e(2)]
    from inv obtain X xs where vm: "vm_inv s (dirs s) X xs" by (auto simp: kinv_def kinv0_def mem_ok_def)
    note pl = page_lookup_eq [OF vm live_dir [OF l(1)] legal_va, of srcva]
    show ?thesis
    proof (cases "as_map s (pgdir_of s e1) (vaddr srcva)")
      case None
      then show ?thesis using pl legal e inv by (auto simp: sys_mem_map_def same_as_def pgdir_of_def)
    next
      case (Some pte)
      have va: "dstva < UTOP" using legal legal_va by blast
      have "pgdir_of s e1 \<in> dirs s" using l(1) by (simp add: dirs_def)
      from mem_map_step [OF inv l(2) va perm this Some room] obtain r s' where
        st: "page_insert (env_pgdir (envs s e2)) (env_asid (envs s e2)) (PPN pte) dstva perm s = Some (r, s')"
          "kinv s' q" "pmap.more s' = pmap.more s"
          "case r of Inl er \<Rightarrow> er = E_NO_MEM \<and> same_as s s'
           | Inr _ \<Rightarrow> maps_to s s' e2 dstva (Some (mkpte (PPN pte) perm))"
        by blast
      have "page_lookup (env_pgdir (envs s e1)) srcva s =
          Some (Some (PPN pte, tab s (env_pgdir (envs s e1)) (PDX srcva), PTX srcva), s)"
        using pl Some legal by (simp add: pgdir_of_def)
      then show ?thesis
        using st legal e Some envid2env_perm [OF e(1)] envid2env_perm [OF e(2)]
        by (cases r) (auto simp: sys_mem_map_def)
    qed
  qed
qed

lemma sys_mem_unmap_ok:
  assumes inv: "kinv s q" and c: "curenv s = Some c"
  shows "\<exists>r s'. sys_mem_unmap envid va s = Some (Returns r, s') \<and> kinv s' q \<and>
    pmap.more s' = pmap.more s \<and>
    (case r of
       Inr v \<Rightarrow> v = 0 \<and> \<not> is_illegal_va va \<and>
         (\<exists>e. envid2env envid True s = Some (Inr e) \<and> may_control s e \<and> maps_to s s' e va None)
     | Inl er \<Rightarrow> s' = s \<and> er = (if is_illegal_va va then E_INVAL else E_BAD_ENV))"
proof (cases "is_illegal_va va")
  case True
  then show ?thesis using inv by (simp add: sys_mem_unmap_def)
next
  case legal: False
  obtain r where r: "envid2env envid True s = Some r" using envid2env_some [OF c] by blast
  show ?thesis
  proof (cases r)
    case (Inl e)
    with r envid2env_err [of envid True s e] inv legal show ?thesis by (simp add: sys_mem_unmap_def)
  next
    case (Inr e)
    with r have e: "envid2env envid True s = Some (Inr e)" by simp
    from unmap_step [OF inv envid2env_ok [OF inv e] legal_va [OF legal]] obtain s' where
      "page_remove (env_pgdir (envs s e)) (env_asid (envs s e)) va s = Some s'" "kinv s' q"
      "pmap.more s' = pmap.more s" "maps_to s s' e va None" by blast
    with e legal envid2env_perm [OF e] show ?thesis by (auto simp: sys_mem_unmap_def)
  qed
qed

end
