(* ===== verification/Env_Calls.thy ===== *)
theory Env_Calls
  imports Syscall_Inv
begin

unbundle bit_operations_syntax

text \<open>
  The system calls that create, stop, wake and destroy environments, and the messages between
  them: each keeps the kernel invariant, in particular that \<^verbatim>\<open>env_sched_list\<close> holds exactly the
  runnable environments.
\<close>

section \<open>Changing the status of an environment\<close>

lemma kinv0_status:
  fixes s s' :: kern
  assumes inv: "kinv0 s q" and e: "e \<in> live s"
    and v: "envs s' = (envs s)(e := v)" "env_core v = (st, env_pgdir (envs s e), env_asid (envs s e), env_id (envs s e))"
      "st = ENV_RUNNABLE \<or> st = ENV_NOT_RUNNABLE"
    and m: "npage s' = npage s" "pp_ref s' = pp_ref s" "pm s' = pm s" "page_free_list s' = page_free_list s"
      "env_free_list s' = env_free_list s" "asid_bitmap s' = asid_bitmap s"
    and q: "tqrep (env_sched_list s') q'" "set q' = (if st = ENV_RUNNABLE then insert e (set q) else set q - {e})"
  shows "kinv0 s' q'" "live s' = live s" "dirs s' = dirs s" "pgdir_of s' = pgdir_of s"
proof -
  from v(2) have vf: "env_status v = st" "env_pgdir v = env_pgdir (envs s e)"
    "env_asid v = env_asid (envs s e)" "env_id v = env_id (envs s e)" by (simp_all add: env_core_def)
  have f: "pgdir_of s' = pgdir_of s" "asid_of s' = asid_of s"
    by (auto simp: pgdir_of_def asid_of_def v(1) vf)
  have id: "env_id (envs s' x) = env_id (envs s x)" for x by (simp add: v(1) vf)
  have nf: "env_status (envs s e) \<noteq> ENV_FREE" "st \<noteq> ENV_FREE" "e < NENV"
    using e v(3) by (auto simp: live_def)
  then have fr: "env_status (envs s' x) = ENV_FREE \<longleftrightarrow> env_status (envs s x) = ENV_FREE" for x
    by (simp add: v(1) vf)
  then show l: "live s' = live s" by (simp add: live_def)
  with f show d: "dirs s' = dirs s" by (simp add: dirs_def)
  show "pgdir_of s' = pgdir_of s" by (rule f)
  have vm: "vm_inv s' D X xs = vm_inv s D X xs" for D X xs by (rule vm_inv_cong) (rule m)+
  have "x \<in> set q' \<longleftrightarrow> x < NENV \<and> env_status (envs s' x) = ENV_RUNNABLE" for x
    using inv q(2) nf by (cases "x = e") (auto simp: kinv0_def sched_ok_def v(1) vf)
  then have "sched_ok s' q'" using q(1) by (auto simp: sched_ok_def)
  with inv show "kinv0 s' q'"
    by (simp add: kinv0_def mem_ok_def free_envs_ok_def asids_ok_def ids_ok_def vm l d f id fr m)
qed

lemma cur_ok_status:
  assumes "cur_ok s" "live s' = live s" "pgdir_of s' = pgdir_of s" "curenv s' = curenv s" "cur_pgdir s' = cur_pgdir s"
  shows "cur_ok s'"
  using assms(1) unfolding cur_ok_def assms(2-5) .

text \<open>
  The status of an environment is one of the three of \<^verbatim>\<open>include/env.h\<close>, and an environment that
  waits for a message or for the value of a child is not runnable and waits for one of them only;
  the calls that block it make it so. \<^verbatim>\<open>sys_ipc_try_send\<close> and \<^verbatim>\<open>sys_send_return_value\<close> rely on it: they put the receiver into
  the queue without looking at its status.
\<close>

definition waiting :: "Env \<Rightarrow> bool" where
  "waiting v \<longleftrightarrow> env_ipc_recving v = 1 \<or> waiting_return_value v = 1"

definition status_ok :: "Env \<Rightarrow> bool" where
  "status_ok v \<longleftrightarrow>
     (env_status v = ENV_FREE \<or> env_status v = ENV_RUNNABLE) \<and> \<not> waiting v \<or>
     env_status v = ENV_NOT_RUNNABLE \<and> \<not> (env_ipc_recving v = 1 \<and> waiting_return_value v = 1)"

definition waits_ok :: "kern \<Rightarrow> bool" where
  "waits_ok s \<longleftrightarrow> (\<forall>e < NENV. status_ok (envs s e))"

lemma waits_okD:
  "waits_ok s \<Longrightarrow> e \<in> live s \<Longrightarrow> env_status (envs s e) = ENV_RUNNABLE \<or> env_status (envs s e) = ENV_NOT_RUNNABLE"
  "waits_ok s \<Longrightarrow> e \<in> live s \<Longrightarrow> waiting (envs s e) \<Longrightarrow> env_status (envs s e) = ENV_NOT_RUNNABLE"
  "waits_ok s \<Longrightarrow> e \<in> live s \<Longrightarrow> env_ipc_recving (envs s e) = 1 \<Longrightarrow> waiting_return_value (envs s e) \<noteq> 1"
  by (auto simp: waits_ok_def status_ok_def live_def waiting_def)

lemma waits_ok_more: "pmap.more s' = pmap.more s \<Longrightarrow> waits_ok s' = waits_ok s"
  using kern_more(1) [of s' s] by (simp add: waits_ok_def)

lemma waits_ok_upd:
  "waits_ok s \<Longrightarrow> envs s' = (envs s)(e := v) \<Longrightarrow> status_ok v \<Longrightarrow> waits_ok s'"
  by (simp add: waits_ok_def)

section \<open>Setting the status\<close>

text \<open>Taking an environment out of the queue, and putting it in, as its status changes.\<close>

definition moved :: "kern \<Rightarrow> kern \<Rightarrow> nat \<Rightarrow> Env \<Rightarrow> nat tailq \<Rightarrow> bool" where
  "moved s s' e v h \<longleftrightarrow> envs s' = (envs s)(e := v) \<and> env_sched_list s' = h \<and>
     npage s' = npage s \<and> pp_ref s' = pp_ref s \<and> pm s' = pm s \<and> page_free_list s' = page_free_list s \<and>
     env_free_list s' = env_free_list s \<and> asid_bitmap s' = asid_bitmap s"

lemma kinv0_block:
  assumes inv: "kinv0 s q" and e: "e \<in> set q"
    and v: "env_core v = (ENV_NOT_RUNNABLE, env_pgdir (envs s e), env_asid (envs s e), env_id (envs s e))"
  shows "\<exists>h. TAILQ_REMOVE e (env_sched_list s) = Some h \<and>
    (\<forall>s'. moved s s' e v h \<longrightarrow> kinv0 s' (remove1 e q))"
proof -
  from inv have t: "tqrep (env_sched_list s) q" by (simp add: kinv0_def sched_ok_def)
  from tq.rep_remove_mem [OF t e] obtain h where
    h: "TAILQ_REMOVE e (env_sched_list s) = Some h" "tqrep h (remove1 e q)" by blast
  have l: "e \<in> live s" using inv e by (auto simp: kinv0_def sched_ok_def live_def)
  have "kinv0 s' (remove1 e q)" if "moved s s' e v h" for s'
    by (rule kinv0_status(1) [OF inv l _ v]) (use that h(2) kinv0_distinct [OF inv] in \<open>simp_all add: moved_def\<close>)
  with h(1) show ?thesis by blast
qed

lemma kinv0_wake:
  assumes inv: "kinv0 s q" and e: "e \<in> live s" "env_status (envs s e) \<noteq> ENV_RUNNABLE"
    and v: "env_core v = (ENV_RUNNABLE, env_pgdir (envs s e), env_asid (envs s e), env_id (envs s e))"
  shows "\<exists>h. TAILQ_INSERT_TAIL e (env_sched_list s) = Some h \<and>
    (\<forall>s'. moved s s' e v h \<longrightarrow> kinv0 s' (q @ [e]))"
proof -
  from inv have t: "tqrep (env_sched_list s) q" by (simp add: kinv0_def sched_ok_def)
  have "e \<notin> set q" using inv e(2) by (auto simp: kinv0_def sched_ok_def)
  from tq.rep_insert_tail [OF t this] obtain h where
    h: "TAILQ_INSERT_TAIL e (env_sched_list s) = Some h" "tqrep h (q @ [e])" by blast
  have "kinv0 s' (q @ [e])" if "moved s s' e v h" for s'
    by (rule kinv0_status(1) [OF inv e(1) _ v]) (use that h(2) in \<open>simp_all add: moved_def\<close>)
  with h(1) show ?thesis by blast
qed

definition queue_after :: "kern \<Rightarrow> nat list \<Rightarrow> nat \<Rightarrow> u32 \<Rightarrow> nat list" where
  "queue_after s q e status =
     (if env_status (envs s e) = status then q
      else if status = ENV_RUNNABLE then q @ [e] else remove1 e q)"

lemma set_status_step:
  assumes inv: "kinv s q" and w: "waits_ok s" and l: "e \<in> live s"
    and st: "status = ENV_RUNNABLE \<or> status = ENV_NOT_RUNNABLE"
  shows "\<exists>h. (if env_status (envs s e) \<noteq> status then
       if status = ENV_RUNNABLE then do {
         q \<leftarrow> TAILQ_INSERT_TAIL e (env_sched_list s);
         Some (s\<lparr>env_sched_list := q\<rparr>)
       }
       else do {
         q \<leftarrow> TAILQ_REMOVE e (env_sched_list s);
         Some (s\<lparr>env_sched_list := q\<rparr>)
       }
     else Some s) = Some (s\<lparr>env_sched_list := h\<rparr>) \<and>
     kinv (upd_env e (\<lambda>v. v\<lparr>env_status := status\<rparr>) (s\<lparr>env_sched_list := h\<rparr>)) (queue_after s q e status)"
proof -
  let ?v = "(envs s e)\<lparr>env_status := status\<rparr>"
  let ?s = "\<lambda>h. upd_env e (\<lambda>v. v\<lparr>env_status := status\<rparr>) (s\<lparr>env_sched_list := h\<rparr>)"
  from inv have inv0: "kinv0 s q" and cur: "cur_ok s" by (simp_all add: kinv_def)
  have v: "env_core ?v = (status, env_pgdir (envs s e), env_asid (envs s e), env_id (envs s e))"
    by (simp add: env_core_def)
  have mem: "e \<in> set q \<longleftrightarrow> env_status (envs s e) = ENV_RUNNABLE"
    using inv0 l by (auto simp: kinv0_def sched_ok_def live_def)
  have mv: "moved s (?s h) e ?v h" for h by (simp add: moved_def)
  have c: "cur_ok (?s h)" for h
    using cur l st by (auto simp: cur_ok_def live_def pgdir_of_def split: option.splits)
  show ?thesis
  proof (cases "env_status (envs s e) = status")
    case True
    then have "?v = envs s e" by (cases "envs s e") simp
    then have "?s (env_sched_list s) = s" by (simp add: upd_env_def)
    with True inv show ?thesis by (intro exI [of _ "env_sched_list s"]) (simp add: queue_after_def)
  next
    case False
    show ?thesis
    proof (cases "status = ENV_RUNNABLE")
      case True
      with False have "env_status (envs s e) \<noteq> ENV_RUNNABLE" by simp
      from kinv0_wake [OF inv0 l this v [unfolded True]] obtain h where
        "TAILQ_INSERT_TAIL e (env_sched_list s) = Some h" "kinv0 (?s h) (q @ [e])"
        using mv unfolding True by blast
      with True False c [of h] show ?thesis
        by (intro exI [of _ h]) (simp add: kinv_def queue_after_def)
    next
      case nr: False
      with False st waits_okD(1) [OF w l] mem have "e \<in> set q" "status = ENV_NOT_RUNNABLE" by auto
      from kinv0_block [OF inv0 this(1) v [unfolded this(2)]] obtain h where
        "TAILQ_REMOVE e (env_sched_list s) = Some h" "kinv0 (?s h) (remove1 e q)"
        using mv unfolding \<open>status = ENV_NOT_RUNNABLE\<close> by blast
      with nr False c [of h] show ?thesis
        by (intro exI [of _ h]) (simp add: kinv_def queue_after_def)
    qed
  qed
qed

lemma sys_set_env_status_ok:
  assumes inv: "kinv s q" and w: "waits_ok s" and c: "curenv s = Some c"
  shows "\<exists>r s' q'. sys_set_env_status envid status s = Some (Returns r, s') \<and> kinv s' q' \<and>
    (case r of
       Inr v \<Rightarrow> v = 0 \<and> (status = ENV_RUNNABLE \<or> status = ENV_NOT_RUNNABLE) \<and>
         (\<exists>e h. envid2env envid True s = Some (Inr e) \<and> may_control s e \<and> q' = queue_after s q e status \<and>
            s' = upd_env e (\<lambda>v. v\<lparr>env_status := status\<rparr>) (s\<lparr>env_sched_list := h\<rparr>))
     | Inl er \<Rightarrow> s' = s \<and> q' = q \<and>
         er = (if status = ENV_RUNNABLE \<or> status = ENV_NOT_RUNNABLE then E_BAD_ENV else E_INVAL))"
proof (cases "status = ENV_RUNNABLE \<or> status = ENV_NOT_RUNNABLE")
  case False
  then show ?thesis using inv by (simp add: sys_set_env_status_def)
next
  case st: True
  then have ng: "\<not> (status \<noteq> ENV_RUNNABLE \<and> status \<noteq> ENV_NOT_RUNNABLE)" by blast
  obtain r where r: "envid2env envid True s = Some r" using envid2env_some [OF c] by blast
  show ?thesis
  proof (cases r)
    case (Inl e)
    with r envid2env_err [of envid True s e] inv st show ?thesis by (auto simp: sys_set_env_status_def)
  next
    case (Inr e)
    with r have e: "envid2env envid True s = Some (Inr e)" by simp
    from set_status_step [OF inv w envid2env_ok [OF inv e] st] obtain h where
      h: "(if env_status (envs s e) \<noteq> status then
         if status = ENV_RUNNABLE then do {
           q \<leftarrow> TAILQ_INSERT_TAIL e (env_sched_list s);
           Some (s\<lparr>env_sched_list := q\<rparr>)
         }
         else do {
           q \<leftarrow> TAILQ_REMOVE e (env_sched_list s);
           Some (s\<lparr>env_sched_list := q\<rparr>)
         }
       else Some s) = Some (s\<lparr>env_sched_list := h\<rparr>)"
      and k: "kinv (upd_env e (\<lambda>v. v\<lparr>env_status := status\<rparr>) (s\<lparr>env_sched_list := h\<rparr>)) (queue_after s q e status)"
      by blast
    have "sys_set_env_status envid status s =
      ret 0 (upd_env e (\<lambda>v. v\<lparr>env_status := status\<rparr>) (s\<lparr>env_sched_list := h\<rparr>))"
      unfolding sys_set_env_status_def if_not_P [OF ng] e bind.bind_lunit sum.case h ..
    with k st e envid2env_perm [OF e] show ?thesis by auto
  qed
qed

section \<open>Forking\<close>

definition child_tf :: "Trapframe \<Rightarrow> Trapframe" where
  "child_tf tf = tf\<lparr>regs := (regs tf)(2 := 0)\<rparr>"

text \<open>
  \<^verbatim>\<open>sys_exofork\<close>: the child is a new environment with an empty user address space, a copy of
  the registers of the caller except that it sees 0 as the result, and it is not runnable.
\<close>

definition forked :: "kern \<Rightarrow> kern \<Rightarrow> nat \<Rightarrow> nat \<Rightarrow> bool" where
  "forked s s' c e \<longleftrightarrow> e \<notin> live s \<and> live s' = insert e (live s) \<and>
     (\<forall>e'. e' \<noteq> e \<longrightarrow> envs s' e' = envs s e') \<and>
     ENVX (env_id (envs s' e)) = e \<and> env_parent_id (envs s' e) = env_id (envs s c) \<and>
     env_status (envs s' e) = ENV_NOT_RUNNABLE \<and> env_pri (envs s' e) = env_pri (envs s c) \<and>
     env_tf (envs s' e) = child_tf (kstack_tf s) \<and> as_map s' (pgdir_of s' e) = Map.empty \<and>
     pgdir_of s' e \<notin> dirs s \<and> same_as s s' \<and> ipc_core (envs s' e) = ipc_core (envs s e)"

lemma sys_exofork_ok:
  assumes inv: "kinv s q" and c: "curenv s = Some c"
  shows "\<exists>r s'. sys_exofork s = Some (Returns r, s') \<and> kinv s' q \<and> curenv s' = curenv s \<and>
    (case r of
       Inl er \<Rightarrow> (er = E_NO_FREE_ENV \<or> er = E_NO_MEM) \<and> live s' = live s \<and>
         (\<forall>e \<in> live s. envs s' e = envs s e) \<and> same_as s s' \<and>
         (\<forall>x. ipc_core (envs s' x) = ipc_core (envs s x) \<and> env_status (envs s' x) = env_status (envs s x))
     | Inr v \<Rightarrow> (\<exists>e. forked s s' c e \<and> v = env_id (envs s' e)))"
proof -
  from inv have inv0: "kinv0 s q" and cur: "c \<in> live s" "cur_pgdir s = pgdir_of s c"
    using c by (auto simp: kinv_def cur_ok_def)
  from env_alloc_total [OF inv0] obtain r s1 where
    ea: "env_alloc (env_id (envs s c)) s = Some (r, s1)" by blast
  show ?thesis
  proof (cases r)
    case (Inl er)
    from env_alloc_error [OF inv0 ea [unfolded Inl]] have
      e: "kinv0 s1 q" "er = E_NO_FREE_ENV \<or> er = E_NO_MEM" "live s1 = live s"
        "\<forall>e \<in> live s. envs s1 e = envs s e" "\<forall>d \<in> dirs s. as_map s1 d = as_map s d"
        "curenv s1 = curenv s" "cur_pgdir s1 = cur_pgdir s"
        "\<forall>x. ipc_core (envs s1 x) = ipc_core (envs s x) \<and> env_status (envs s1 x) = env_status (envs s x)"
      by auto
    have "cur_ok s1" using c cur e by (simp add: cur_ok_def pgdir_of_def)
    with e Inl ea c show ?thesis by (auto simp: sys_exofork_def kinv_def same_as_def)
  next
    case (Inr e)
    note fe = env_alloc_ok [OF inv0 ea [unfolded Inr]]
    note f = fe [unfolded fresh_env_def]
    have ne: "e \<noteq> c" using f cur(1) by (auto simp: live_def)
    let ?v = "(envs s1 e)\<lparr>env_tf := child_tf (kstack_tf s1), env_status := ENV_NOT_RUNNABLE,
      env_pri := env_pri (envs s1 c)\<rparr>"
    define s' where "s' = s1\<lparr>envs := (envs s1)(e := ?v)\<rparr>"
    have run: "sys_exofork s = ret (env_id (envs s' e)) s'"
      using c ea Inr ne by (simp add: sys_exofork_def upd_env_def child_tf_def s'_def Let_def)
    have vm: "vm_inv s' D X xs = vm_inv s1 D X xs" for D X xs
      by (rule vm_inv_cong) (simp_all add: s'_def)
    have am: "as_map s' d = as_map s1 d" for d by (rule as_map_cong) (simp add: s'_def)
    have k: "kinv0 s' q" "live s' = insert e (live s)" "dirs s' = insert (pgdir_of s1 e) (dirs s)"
      by (rule kinv0_new [OF inv0 fe];
          use f inv0 vm in \<open>auto simp: s'_def pgdir_of_def asid_of_def kinv0_def sched_ok_def\<close>)+
    have "cur_ok s'"
      using c cur f ne k(2) by (auto simp: cur_ok_def s'_def pgdir_of_def)
    moreover have "forked s s' c e"
      unfolding forked_def using f k(2) am ne
      by (auto simp: s'_def live_def same_as_def pgdir_of_def ipc_core_def)
    moreover have "curenv s' = curenv s" using f by (simp add: s'_def)
    ultimately show ?thesis using run k(1) unfolding kinv_def by auto
  qed
qed

section \<open>Blocking the caller\<close>

text \<open>
  The caller leaves the queue with the given changes to its slot, its result register is 0, and
  the next environment of the queue runs.
\<close>

lemma block_current_ok:
  assumes inv: "kinv s q" and c: "curenv s = Some c" and m: "c \<in> set q" and more: "remove1 c q \<noteq> []"
    and f: "env_core (f (envs s c)) = env_core (envs s c)"
  shows "\<exists>s' n. block_current f s = Some (Switched, s') \<and> kinv s' (remove1 c q) \<and>
    curenv s' = Some (hd (remove1 c q)) \<and>
    envs s' c = (f (envs s c))\<lparr>env_status := ENV_NOT_RUNNABLE, env_tf := child_tf (kstack_tf s), env_runs := n\<rparr> \<and>
    (\<forall>e. e \<noteq> c \<longrightarrow> (\<exists>n. envs s' e = (envs s e)\<lparr>env_runs := n\<rparr>)) \<and> dirs s' = dirs s \<and> same_as s s' \<and>
    npage s' = npage s \<and> pp_ref s' = pp_ref s"
proof -
  from inv have inv0: "kinv0 s q" by (simp add: kinv_def)
  let ?v = "(f (envs s c))\<lparr>env_status := ENV_NOT_RUNNABLE\<rparr>"
  have v: "env_core ?v = (ENV_NOT_RUNNABLE, env_pgdir (envs s c), env_asid (envs s c), env_id (envs s c))"
    using f by (simp add: env_core_def)
  from kinv0_block [OF inv0 m v] obtain h where
    h: "TAILQ_REMOVE c (env_sched_list s) = Some h" "\<And>s'. moved s s' c ?v h \<Longrightarrow> kinv0 s' (remove1 c q)" by blast
  define s1 where "s1 = (upd_env c (\<lambda>v. v\<lparr>env_status := ENV_NOT_RUNNABLE\<rparr>) (upd_env c f s))
    \<lparr>env_sched_list := h, kstack_tf := child_tf (kstack_tf s)\<rparr>"
  have ev: "envs s1 = (envs s)(c := ?v)" by (simp add: s1_def)
  have k: "kinv0 s1 (remove1 c q)" by (rule h(2)) (simp add: moved_def s1_def)
  have cur: "curenv s1 = Some c" "kstack_tf s1 = child_tf (kstack_tf s)" using c by (simp_all add: s1_def)
  have lv: "c \<in> live s" using inv c by (auto simp: kinv_def cur_ok_def)
  have b: "cur_bound s1" using cur(1) lv by (simp add: cur_bound_def live_def)
  have nr: "env_status (envs s1 c) = ENV_NOT_RUNNABLE" by (simp add: ev)
  have r: "resched s1 True" "rotated s1 (remove1 c q) = remove1 c q"
    using cur nr by (simp_all add: resched_def rotated_def)
  have "next_env s1 True (remove1 c q) = hd (remove1 c q)" using r by (simp add: next_env_def)
  with schedule_ok [OF k b more, of True] r obtain s' where
    s': "schedule True s1 = Some s'" "kinv s' (remove1 c q)" "curenv s' = Some (hd (remove1 c q))"
      "same_core s1 s'" "switched s1 s'" by auto
  have run: "block_current f s = Some (Switched, s')"
    using c h(1) s'(1) by (simp add: block_current_def s1_def child_tf_def Let_def)
  have sw: "\<exists>n. envs s' e = (envs s1 e)\<lparr>env_tf := (if curenv s1 = Some e then kstack_tf s1
      else env_tf (envs s1 e)), env_runs := n\<rparr>" for e using s'(5) by (auto simp: switched_def)
  from sw [of c] obtain n where n: "envs s' c = ?v\<lparr>env_tf := child_tf (kstack_tf s), env_runs := n\<rparr>"
    using cur ev by auto
  have o: "\<exists>n. envs s' e = (envs s e)\<lparr>env_runs := n\<rparr>" if "e \<noteq> c" for e
    using sw [of e] cur that by (simp add: ev)
  have mem: "pm s' = pm s" "npage s' = npage s" "pp_ref s' = pp_ref s"
    using s'(4) by (simp_all add: same_core_def s1_def)
  from mem(1) have am: "as_map s' d = as_map s d" for d by (rule as_map_cong)
  have co: "\<forall>e. env_core (envs s' e) = env_core (envs s1 e)" using s'(4) by (simp add: same_core_def)
  have "dirs s1 = dirs s"
    by (rule kinv0_status(3) [OF inv0 lv ev v]) (use h k in \<open>auto simp: s1_def kinv0_def sched_ok_def kinv0_distinct [OF inv0]\<close>)
  then have "dirs s' = dirs s" using same_core_live(4) [OF co] by simp
  then show ?thesis using run s'(2,3) n o am mem(2,3) by (auto simp: same_as_def)
qed

section \<open>Sending\<close>

text \<open>
  The address at which a page is to be mapped was checked by \<^verbatim>\<open>sys_ipc_recv\<close>, or is still 0.
\<close>

definition dst_ok :: "kern \<Rightarrow> bool" where
  "dst_ok s \<longleftrightarrow> (\<forall>e. env_ipc_dstva (envs s e) < UTOP)"

text \<open>
  The effect of a message to environment \<open>e\<close>, from the current environment \<open>c\<close>: the receiver
  gets its changes \<open>f\<close>, is runnable and last in the queue, and the page at \<open>srcva\<close> of the sender
  is mapped at the address that the receiver asked for. With an error the receiver is woken all
  the same, but no address space changes.
\<close>

definition delivered :: "kern \<Rightarrow> kern \<Rightarrow> nat \<Rightarrow> nat \<Rightarrow> (Env \<Rightarrow> Env) \<Rightarrow> u32 \<Rightarrow> u32 \<Rightarrow> errno + u32 \<Rightarrow> bool" where
  "delivered s s' c e f srcva perm r \<longleftrightarrow>
     envs s' = (envs s)(e := (f (envs s e))\<lparr>env_status := ENV_RUNNABLE\<rparr>) \<and>
     curenv s' = curenv s \<and> dirs s' = dirs s \<and>
     (case r of
        Inr v \<Rightarrow> v = 0 \<and>
          (if srcva = 0 then same_as s s'
           else (\<exists>pte. as_map s (pgdir_of s c) (vaddr srcva) = Some pte \<and>
                  maps_to s s' e (env_ipc_dstva (envs s e)) (Some (mkpte (PPN pte) perm))))
      | Inl er \<Rightarrow> srcva \<noteq> 0 \<and> same_as s s' \<and>
          er = (if as_map s (pgdir_of s c) (vaddr srcva) = None then E_INVAL else E_NO_MEM))"

lemma deliver_ok:
  assumes inv: "kinv s q" and c: "curenv s = Some c"
    and e: "e \<in> live s" "env_status (envs s e) = ENV_NOT_RUNNABLE" "env_ipc_dstva (envs s e) < UTOP"
    and f: "env_core (f (envs s e)) = env_core (envs s e)"
      "env_ipc_dstva (f (envs s e)) = env_ipc_dstva (envs s e)"
    and src: "srcva = 0 \<or> \<not> is_illegal_va srcva" and perm: "perm < 4096" and room: "refs_room s"
  shows "\<exists>r s'. deliver e f srcva perm s = Some (Returns r, s') \<and> kinv s' (q @ [e]) \<and>
    delivered s s' c e f srcva perm r"
proof -
  from inv have inv0: "kinv0 s q" and cur: "cur_ok s" by (simp_all add: kinv_def)
  let ?v = "(f (envs s e))\<lparr>env_status := ENV_RUNNABLE\<rparr>"
  have v: "env_core ?v = (ENV_RUNNABLE, env_pgdir (envs s e), env_asid (envs s e), env_id (envs s e))"
    using f by (simp add: env_core_def)
  from kinv0_wake [OF inv0 e(1) _ v] e(2) obtain h where
    h: "TAILQ_INSERT_TAIL e (env_sched_list s) = Some h" "\<And>s'. moved s s' e ?v h \<Longrightarrow> kinv0 s' (q @ [e])" by auto
  define s1 where "s1 = (upd_env e (\<lambda>v. v\<lparr>env_status := ENV_RUNNABLE\<rparr>) (upd_env e f s))\<lparr>env_sched_list := h\<rparr>"
  have ev: "envs s1 = (envs s)(e := ?v)" and cu: "curenv s1 = curenv s" "cur_pgdir s1 = cur_pgdir s"
    by (simp_all add: s1_def)
  have k0: "kinv0 s1 (q @ [e])" by (rule h(2)) (simp add: moved_def s1_def)
  have "tqrep (env_sched_list s1) (q @ [e])" using k0 by (simp add: kinv0_def sched_ok_def)
  note st = kinv0_status(2-4) [OF inv0 e(1) ev v _ _ _ _ _ _ _ this]
  have st: "live s1 = live s" "dirs s1 = dirs s" "pgdir_of s1 = pgdir_of s"
    by (rule st; simp add: s1_def)+
  have k: "kinv s1 (q @ [e])" using k0 cur_ok_status [OF cur st(1,3) cu] by (simp add: kinv_def)
  have am: "as_map s1 d = as_map s d" for d by (rule as_map_cong) (simp add: s1_def)
  have room1: "refs_room s1" using room by (simp add: refs_room_def s1_def)
  have pd: "env_pgdir (envs s1 x) = pgdir_of s x" for x using st(3) by (metis pgdir_of_def)
  have dst: "env_ipc_dstva (envs s1 e) = env_ipc_dstva (envs s e)" using f(2) by (simp add: ev)
  have cl: "c \<in> live s" using inv c by (auto simp: kinv_def cur_ok_def)
  have run: "deliver e f srcva perm s = (if srcva \<noteq> 0 then do {
       (r, s) \<leftarrow> page_lookup (pgdir_of s c) srcva s1;
       case r of
         None \<Rightarrow> err E_INVAL s
       | Some (p, _) \<Rightarrow> do {
           (r, s) \<leftarrow> page_insert (env_pgdir (envs s e)) (env_asid (envs s e)) p (env_ipc_dstva (envs s e)) perm s;
           case r of Inl e \<Rightarrow> err e s | Inr _ \<Rightarrow> ret 0 s
         }
     } else ret 0 s1)"
    unfolding pd [of c, symmetric] using c h(1) by (simp add: deliver_def s1_def Let_def cong: if_cong)
  show ?thesis
  proof (cases "srcva = 0")
    case True
    then show ?thesis
      using run k ev cu st(2) am by (auto simp: delivered_def same_as_def)
  next
    case False
    with src have sv: "srcva < UTOP" using legal_va by blast
    from k obtain X xs where vm: "vm_inv s1 (dirs s1) X xs" by (auto simp: kinv_def kinv0_def mem_ok_def)
    have cd: "pgdir_of s c \<in> dirs s1" using cl st(2) by (simp add: dirs_def)
    note pl = page_lookup_eq [OF vm cd sv]
    show ?thesis
    proof (cases "as_map s (pgdir_of s c) (vaddr srcva)")
      case None
      then show ?thesis
        using run pl False k ev cu st(2) am by (auto simp: delivered_def same_as_def pd)
    next
      case (Some pte)
      have e1: "e \<in> live s1" using e(1) st(1) by simp
      have "as_map s1 (pgdir_of s c) (vaddr srcva) = Some pte" using Some am by simp
      from mem_map_step [OF k e1 e(3) perm cd this room1] obtain r s' where
        pi: "page_insert (env_pgdir (envs s1 e)) (env_asid (envs s1 e)) (PPN pte) (env_ipc_dstva (envs s e)) perm s1
            = Some (r, s')" "kinv s' (q @ [e])" "pmap.more s' = pmap.more s1"
          "case r of Inl er \<Rightarrow> er = E_NO_MEM \<and> same_as s1 s'
           | Inr _ \<Rightarrow> maps_to s1 s' e (env_ipc_dstva (envs s e)) (Some (mkpte (PPN pte) perm))"
        by blast
      have eq: "maps_to s1 s' = maps_to s s'" "same_as s1 s' = same_as s s'"
        by (auto simp: fun_eq_iff maps_to_def same_as_def st(2) pd am pgdir_of_def)
      note km = kern_more [OF pi(3)]
      have "dirs s' = dirs s" using st km(1) by (simp add: dirs_def live_def pgdir_of_def fun_eq_iff)
      moreover have "deliver e f srcva perm s = (case r of Inl e \<Rightarrow> err e s' | Inr _ \<Rightarrow> ret 0 s')"
        using run False pl Some am pi(1) by (simp add: pd dst)
      ultimately show ?thesis
        using pi(2,4) False Some ev cu(1) km eq by (cases r) (auto simp: delivered_def)
    qed
  qed
qed

end
