(* ===== verification/Tlbex_Inv.thy ===== *)
theory Tlbex_Inv
  imports Env_Calls
begin

unbundle bit_operations_syntax

text \<open>
  The TLB refill handler and the kernel's accesses to user memory keep the kernel invariant.
  The loop of \<^verbatim>\<open>_do_tlb_refill\<close> runs at most twice: once \<^verbatim>\<open>passive_alloc\<close> has mapped a page, the
  lookup finds it.
\<close>

section \<open>Refill\<close>

lemma PTE_ADDR_div: "unat (PTE_ADDR va) div 4096 = unat va div 4096"
  using PPN_PTE_ADDR [of va] by (simp add: PPN_eq)

lemma vaddr_PTE_ADDR: "vaddr (PTE_ADDR va) = vaddr va"
proof -
  have "unat w div 4194304 = unat w div 4096 div 1024" for w :: u32 by (simp add: div_mult2_eq [symmetric])
  then show ?thesis by (simp add: vaddr_def PDX_eq PTX_eq PTE_ADDR_div)
qed

lemma PTE_ADDR_UTOP: "va < UTOP \<Longrightarrow> PTE_ADDR va < UTOP"
proof -
  assume "va < UTOP"
  moreover have "n < 521216 * 4096" if "n div 4096 = m div 4096" "m < 521216 * 4096" for n m :: nat
    using that by (metis div_less_iff_less_mult zero_less_numeral)
  ultimately show ?thesis
    using PTE_ADDR_div [of va] by (simp add: mos_consts word_less_nat_alt)
qed

lemma user_lookup:
  assumes "kinv s q" "curenv s = Some c" "va < UTOP"
  shows "page_lookup (cur_pgdir s) va s = Some (map_option (\<lambda>e. (PPN e, (tab s (pgdir_of s c) (PDX va), PTX va)))
      (as_map s (pgdir_of s c) (vaddr va)), s)"
    "c \<in> live s" "cur_pgdir s = pgdir_of s c" "pgdir_of s c \<in> dirs s"
proof -
  from assms show c: "c \<in> live s" "cur_pgdir s = pgdir_of s c" by (auto simp: kinv_def cur_ok_def)
  then show d: "pgdir_of s c \<in> dirs s" by (simp add: dirs_def)
  from assms(1) obtain X xs where vm: "vm_inv s (dirs s) X xs" by (auto simp: kinv_def kinv0_def mem_ok_def)
  show "page_lookup (cur_pgdir s) va s = Some (map_option (\<lambda>e. (PPN e, (tab s (pgdir_of s c) (PDX va), PTX va)))
      (as_map s (pgdir_of s c) (vaddr va)), s)"
    unfolding c(2) by (rule page_lookup_eq [OF vm d assms(3)])
qed

definition passive_va :: "u32 \<Rightarrow> bool" where
  "passive_va va \<longleftrightarrow> UTEMP \<le> va \<and> va < UTOP \<and> \<not> (USTACKTOP \<le> va \<and> va < USTACKTOP + PAGE_SIZE)"

lemma passive_alloc_user:
  assumes "va < UTOP"
  shows "passive_alloc va pgdir asid s = (if passive_va va then do {
        (r, s) \<leftarrow> page_alloc s;
        case r of
          Inl _ \<Rightarrow> None
        | Inr p \<Rightarrow> do {
            (r, s) \<leftarrow> page_insert pgdir asid p (PTE_ADDR va) PTE_D s;
            case r of Inl _ \<Rightarrow> None | Inr _ \<Rightarrow> Some s
          }
      } else None)"
proof -
  have e: "(va \<ge> UENVS) = False" "(va \<ge> UPAGES) = False" "(va \<ge> UVPT) = False" "(va \<ge> ULIM) = False"
    using assms by (simp_all add: mos_consts word_le_nat_alt word_less_nat_alt)
  have g: "passive_va va \<longleftrightarrow> \<not> va < UTEMP \<and> \<not> (USTACKTOP \<le> va \<and> va < USTACKTOP + PAGE_SIZE)"
    using assms by (simp add: passive_va_def not_less)
  show ?thesis
    unfolding passive_alloc_def g e simp_thms if_False
    by (cases "va < UTEMP"; cases "USTACKTOP \<le> va \<and> va < USTACKTOP + PAGE_SIZE") auto
qed

lemma passive_alloc_ok:
  assumes inv: "kinv s q" and c: "curenv s = Some c" and va: "va < UTOP"
    and r: "passive_alloc va (cur_pgdir s) asid s = Some s'"
  shows "\<exists>pp. passive_va va \<and> kinv s' q \<and> pmap.more s' = pmap.more s \<and> maps s (dirs s) pp = {} \<and>
    maps_to s s' c va (Some (mkpte pp PTE_D))"
proof -
  note cu = user_lookup(2,3) [OF inv c va]
  from r have pv: "passive_va va" by (simp add: passive_alloc_user [OF va] split: if_splits)
  from inv obtain X xs where vm: "vm_inv s (dirs s) X xs" by (auto simp: kinv_def kinv0_def mem_ok_def)
  show ?thesis
  proof (cases xs)
    case Nil
    then show ?thesis using r pv vm by (simp add: passive_alloc_user [OF va] page_alloc_empty)
  next
    case (Cons pp ys)
    with vm obtain s1 where pa: "page_alloc s = Some (Inr pp, s1)" by (auto elim: page_alloc_ok)
    from page_alloc_inv [OF vm pa] have "pmap.more s1 = pmap.more s" by simp
    note km = kern_more(1) [OF this]
    from mem_alloc_step [OF inv cu(1) PTE_ADDR_UTOP [OF va] _ pa, of PTE_D asid] obtain r' s2 where
      "page_insert (cur_pgdir s) asid pp (PTE_ADDR va) PTE_D s1 = Some (r', s2)" "kinv s2 q"
      "pmap.more s2 = pmap.more s"
      "case r' of Inl er \<Rightarrow> er = E_NO_MEM \<and> same_as s s2
       | Inr _ \<Rightarrow> maps_to s s2 c (PTE_ADDR va) (Some (mkpte pp PTE_D)) \<and> maps s (dirs s) pp = {}"
      by (auto simp: cu(2) pgdir_of_def km)
    then show ?thesis
      using r pv pa by (cases r') (auto simp: passive_alloc_user [OF va] maps_to_def vaddr_PTE_ADDR)
  qed
qed

text \<open>
  The effect on the address spaces: none when the address is mapped, and a fresh page of the
  current one otherwise.
\<close>

definition faulted :: "kern \<Rightarrow> kern \<Rightarrow> nat \<Rightarrow> u32 \<Rightarrow> bool" where
  "faulted s s' c va \<longleftrightarrow>
     (if as_map s (pgdir_of s c) (vaddr va) = None
      then passive_va va \<and> (\<exists>pp. maps s (dirs s) pp = {} \<and> maps_to s s' c va (Some (mkpte pp PTE_D)))
      else s' = s)"

lemma refill_loop_ok:
  assumes inv: "kinv s q" and c: "curenv s = Some c" and va: "va < UTOP"
    and r: "refill_loop va asid s = Some (ptr, s')"
  shows "kinv s' q \<and> pmap.more s' = pmap.more s \<and> faulted s s' c va \<and>
    ptr = (tab s' (pgdir_of s c) (PDX va), PTX va) \<and>
    as_map s' (pgdir_of s c) (vaddr va) = Some (pm s' (fst ptr) (snd ptr))"
proof -
  have found: "refill_loop va asid s1 = Some ((tab s1 (pgdir_of s c) (PDX va), PTX va), s1) \<and>
      e = pm s1 (tab s1 (pgdir_of s c) (PDX va)) (PTX va)"
    if k: "kinv s1 q" and m: "pmap.more s1 = pmap.more s" and e: "as_map s1 (pgdir_of s c) (vaddr va) = Some e" for s1 e
  proof -
    note km = kern_more [OF m]
    have cs: "curenv s1 = Some c" "pgdir_of s1 c = pgdir_of s c" using c km by (simp_all add: pgdir_of_def)
    have "refill_loop va asid s1 = Some ((tab s1 (pgdir_of s c) (PDX va), PTX va), s1)"
      by (subst refill_loop.simps) (use user_lookup(1) [OF k cs(1) va] e cs(2) in simp)
    moreover have "e = pm s1 (tab s1 (pgdir_of s c) (PDX va)) (PTX va)"
      using e va by (simp add: as_map_vaddr upte_def split: if_splits)
    ultimately show ?thesis by blast
  qed
  show ?thesis
  proof (cases "as_map s (pgdir_of s c) (vaddr va)")
    case (Some e)
    from found [OF inv refl Some] r inv Some show ?thesis by (auto simp: faulted_def)
  next
    case None
    from r None user_lookup(1) [OF inv c va] obtain s1 where
      pa: "passive_alloc va (cur_pgdir s) asid s = Some s1" and r1: "refill_loop va asid s1 = Some (ptr, s')"
      by (subst (asm) refill_loop.simps) (auto split: option.splits)
    from passive_alloc_ok [OF inv c va pa] obtain pp where
      p: "passive_va va" "kinv s1 q" "pmap.more s1 = pmap.more s" "maps s (dirs s) pp = {}"
        "maps_to s s1 c va (Some (mkpte pp PTE_D))" by blast
    have "as_map s1 (pgdir_of s c) (vaddr va) = Some (mkpte pp PTE_D)"
      using p(5) user_lookup(4) [OF inv c va] by (simp add: maps_to_def pgdir_of_def)
    from found [OF p(2,3) this] this r1 p None show ?thesis by (auto simp: faulted_def)
  qed
qed

text \<open>The loop ends: the refill succeeds on a mapped address and, with two free pages, on every
  address that may be allocated.\<close>

definition free_pages :: "kern \<Rightarrow> nat \<Rightarrow> bool" where
  "free_pages s n \<longleftrightarrow> (\<exists>xs. lrep (page_free_list s) xs \<and> n \<le> length xs)"

lemma passive_alloc_total:
  assumes inv: "kinv s q" and c: "curenv s = Some c" and va: "passive_va va" and f: "free_pages s 2"
  shows "\<exists>s'. passive_alloc va (cur_pgdir s) asid s = Some s'"
proof -
  from va have u: "va < UTOP" by (simp add: passive_va_def)
  note cu = user_lookup(2-4) [OF inv c u]
  from inv obtain X xs where vm: "vm_inv s (dirs s) X xs" by (auto simp: kinv_def kinv0_def mem_ok_def)
  have "2 \<le> length xs" using f vm_invD(6) [OF vm] lrep_unique by (auto simp: free_pages_def)
  then obtain p p2 ys where xs: "xs = p # p2 # ys" by (cases xs; cases "tl xs") auto
  with vm obtain s1 where pa: "page_alloc s = Some (Inr p, s1)" by (auto elim: page_alloc_ok)
  note cp = clear_page_inv [OF vm [unfolded xs] pa]
  have X: "X p = 0" using free_unused(4) [OF vm, of p] xs by simp
  have mp: "mappable s1 (dirs s) X (p2 # ys) p" using cp(4,8,9,10) X by (simp add: mappable_def)
  from page_insert_ok [OF cp(1) cu(3) PTE_ADDR_UTOP [OF u] _ mp flags_less_4096(2), of asid]
  obtain s' where "page_insert (pgdir_of s c) asid p (PTE_ADDR va) PTE_D s1 = Some (Inr (), s')" by auto
  then show ?thesis using pa va cu(2) by (simp add: passive_alloc_user [OF u])
qed

lemma refill_loop_total:
  assumes inv: "kinv s q" and c: "curenv s = Some c" and va: "va < UTOP"
    and ok: "as_map s (pgdir_of s c) (vaddr va) \<noteq> None \<or> passive_va va \<and> free_pages s 2"
  shows "\<exists>r. refill_loop va asid s = Some r"
proof (cases "as_map s (pgdir_of s c) (vaddr va)")
  case (Some e)
  then show ?thesis
    by (subst refill_loop.simps) (simp add: user_lookup(1) [OF inv c va])
next
  case None
  with ok passive_alloc_total [OF inv c] obtain s1 where
    pa: "passive_alloc va (cur_pgdir s) asid s = Some s1" by blast
  from passive_alloc_ok [OF inv c va pa] obtain pp where
    p: "kinv s1 q" "pmap.more s1 = pmap.more s" "maps_to s s1 c va (Some (mkpte pp PTE_D))" by blast
  note km = kern_more [OF p(2)]
  have c1: "curenv s1 = Some c" "pgdir_of s1 c = pgdir_of s c" using c km by (simp_all add: pgdir_of_def)
  have "as_map s1 (pgdir_of s1 c) (vaddr va) = Some (mkpte pp PTE_D)"
    using p(3) user_lookup(4) [OF inv c va] c1 by (simp add: maps_to_def pgdir_of_def)
  then have "\<exists>r. refill_loop va asid s1 = Some r"
    by (subst refill_loop.simps) (simp add: user_lookup(1) [OF p(1) c1(1) va])
  then show ?thesis
    by (subst refill_loop.simps) (simp add: user_lookup(1) [OF inv c va] None pa)
qed

section \<open>Access to user memory\<close>

text \<open>
  A write to a page that is mapped somewhere changes no address space and keeps the invariant:
  such a page is never a page table or a directory.
\<close>

definition data_write :: "kern \<Rightarrow> kern \<Rightarrow> nat \<Rightarrow> bool" where
  "data_write s s' p \<longleftrightarrow> (\<exists>f. s' = s\<lparr>pm := (pm s)(p := f)\<rparr>)"

lemma data_write_ok:
  assumes inv: "kinv s q" and d: "d \<in> dirs s" "as_map s d ij = Some e" and w: "data_write s s' (PPN e)"
  shows "kinv s' q \<and> pmap.more s' = pmap.more s \<and> same_as s s'"
proof -
  from inv obtain X xs where vm: "vm_inv s (dirs s) X xs" by (auto simp: kinv_def kinv0_def mem_ok_def)
  from w obtain f where s': "s' = s\<lparr>pm := (pm s)(PPN e := f)\<rparr>" by (auto simp: data_write_def)
  obtain i j where ij: "ij = (i, j)" by (cases ij)
  have "(d, i, j) \<in> maps s (dirs s) (PPN e)"
    using maps_mem [OF d(1), of i j s] d(2) by (simp add: ij points_def)
  then have m: "maps s (dirs s) (PPN e) \<noteq> {}" by blast
  have "PPN e \<notin> dirs s" using vm_invD(13) [OF vm m] vm_invD(4) [OF vm, of "PPN e"] by auto
  note cu = clear_unused [OF this vm_invD(14) [OF vm m], of _ f]
  have more: "pmap.more s' = pmap.more s" by (simp add: s')
  have "vm_inv s' (dirs s) X xs"
    by (rule vm_inv_eqI [OF vm]) (use cu vm in \<open>simp_all add: s' free_ok_def vm_inv_def\<close>)
  from kinv_vm(1) [OF inv more this] more cu show ?thesis by (simp add: same_as_def s')
qed

lemma user_pte_ok:
  assumes inv: "kinv s q" and c: "curenv s = Some c" and va: "va < UTOP"
    and r: "user_pte va s = Some (pte, s')"
  shows "kinv s' q \<and> pmap.more s' = pmap.more s \<and> as_map s' (pgdir_of s' c) (vaddr va) = Some pte \<and>
    pgdir_of s' c \<in> dirs s'"
proof -
  from r obtain ptr where rl: "refill_loop va (user_asid s) s = Some (ptr, s')" "pte = pm s' (fst ptr) (snd ptr)"
    by (auto simp: user_pte_def split: bind_splits)
  from refill_loop_ok [OF inv c va rl(1)] rl(2) have
    k: "kinv s' q" "pmap.more s' = pmap.more s" "as_map s' (pgdir_of s c) (vaddr va) = Some pte" by auto
  note km = kern_more [OF k(2)]
  have "curenv s' = Some c" "pgdir_of s' c = pgdir_of s c" using c km by (simp_all add: pgdir_of_def)
  with k user_lookup(4) [OF k(1) this(1) va] show ?thesis by simp
qed

text \<open>A relation that all accesses of the kernel to user memory satisfy.\<close>

definition kmem_step :: "kern \<Rightarrow> kern \<Rightarrow> nat list \<Rightarrow> bool" where
  "kmem_step s s' q \<longleftrightarrow> kinv s' q \<and> pmap.more s' = pmap.more s"

lemma kmem_stepD:
  assumes "kmem_step s s' q" "curenv s = Some c"
  shows "kinv s' q" "curenv s' = Some c"
  using assms kern_more(2) [of s' s] by (auto simp: kmem_step_def)

lemma kmem_step_trans: "kmem_step s s1 q \<Longrightarrow> kmem_step s1 s2 q \<Longrightarrow> kmem_step s s2 q"
  by (simp add: kmem_step_def)

definition readable :: "u32 \<Rightarrow> bool" where
  "readable va \<longleftrightarrow> va < UTOP \<or> ULIM \<le> va"

lemma kload32_step:
  assumes "kinv s q" "curenv s = Some c" "readable va" "kload32 va s = Some (w, s')"
  shows "kmem_step s s' q"
proof (cases "va < UTOP")
  case True
  then have "va < ULIM" by (simp add: mos_consts word_less_nat_alt)
  with assms(4) obtain pte where "user_pte va s = Some (pte, s')"
    by (auto simp: kload32_def split: if_splits bind_splits)
  from user_pte_ok [OF assms(1,2) True this] show ?thesis by (simp add: kmem_step_def)
next
  case False
  with assms(3) have "\<not> va < ULIM" by (auto simp: readable_def)
  with assms(4) have "s' = s" unfolding kload32_def by (simp split: if_splits)
  with assms(1) show ?thesis by (simp add: kmem_step_def)
qed

lemma kload8_step:
  assumes "kinv s q" "curenv s = Some c" "readable va" "kload8 va s = Some (w, s')"
  shows "kmem_step s s' q"
proof (cases "va < UTOP")
  case True
  then have "va < ULIM" by (simp add: mos_consts word_less_nat_alt)
  with assms(4) obtain pte where "user_pte va s = Some (pte, s')"
    by (auto simp: kload8_def split: if_splits bind_splits)
  from user_pte_ok [OF assms(1,2) True this] show ?thesis by (simp add: kmem_step_def)
next
  case False
  with assms(3) have "\<not> va < ULIM" by (auto simp: readable_def)
  with assms(4) have "s' = s" unfolding kload8_def by (simp split: if_splits)
  with assms(1) show ?thesis by (simp add: kmem_step_def)
qed

lemma kload16_step:
  assumes "kinv s q" "curenv s = Some c" "readable va" "readable (va + 1)" "kload16 va s = Some (w, s')"
  shows "kmem_step s s' q"
proof -
  from assms(5) obtain a b s1 where l: "kload8 va s = Some (a, s1)" "kload8 (va + 1) s1 = Some (b, s')"
    by (auto simp: kload16_def split: if_splits bind_splits)
  note 1 = kload8_step [OF assms(1-3) l(1)]
  from kload8_step [OF kmem_stepD [OF 1 assms(2)] assms(4) l(2)] 1 show ?thesis by (blast intro: kmem_step_trans)
qed

lemma kstore32_step:
  assumes "kinv s q" "curenv s = Some c" "va < UTOP" "kstore32 va w s = Some s'"
  shows "kmem_step s s' q"
proof -
  from assms(4) obtain pte s1 where p: "user_pte va s = Some (pte, s1)"
    and s': "s' = pte_store (PPN pte, unat va mod 4096 div 4) w s1"
    by (auto simp: kstore32_def split: if_splits bind_splits)
  from user_pte_ok [OF assms(1-3) p] have
    k: "kinv s1 q" "pmap.more s1 = pmap.more s" "as_map s1 (pgdir_of s1 c) (vaddr va) = Some pte"
      "pgdir_of s1 c \<in> dirs s1" by auto
  have "data_write s1 s' (PPN pte)" by (auto simp: data_write_def s' pte_store_def)
  from data_write_ok [OF k(1,4,3) this] k(2) show ?thesis by (simp add: kmem_step_def)
qed

lemma kstore8_step:
  assumes "kinv s q" "curenv s = Some c" "va < UTOP" "kstore8 va w s = Some s'"
  shows "kmem_step s s' q"
proof -
  from assms(4) obtain pte s1 where p: "user_pte va s = Some (pte, s1)"
    and s': "s' = page_put_byte (PPN pte) (unat va mod 4096) w s1"
    by (auto simp: kstore8_def split: if_splits bind_splits)
  from user_pte_ok [OF assms(1-3) p] have
    k: "kinv s1 q" "pmap.more s1 = pmap.more s" "as_map s1 (pgdir_of s1 c) (vaddr va) = Some pte"
      "pgdir_of s1 c \<in> dirs s1" by auto
  have "data_write s1 s' (PPN pte)" by (auto simp: data_write_def s' page_put_byte_def)
  from data_write_ok [OF k(1,4,3) this] k(2) show ?thesis by (simp add: kmem_step_def)
qed

lemma kstore16_step:
  assumes "kinv s q" "curenv s = Some c" "va < UTOP" "va + 1 < UTOP" "kstore16 va w s = Some s'"
  shows "kmem_step s s' q"
proof -
  from assms(5) obtain s1 where l: "kstore8 va (ucast w) s = Some s1"
      "kstore8 (va + 1) (ucast (drop_bit 8 w)) s1 = Some s'"
    by (auto simp: kstore16_def split: if_splits bind_splits)
  note 1 = kstore8_step [OF assms(1-3) l(1)]
  from kstore8_step [OF kmem_stepD [OF 1 assms(2)] assms(4) l(2)] 1 show ?thesis by (blast intro: kmem_step_trans)
qed

lemma kloads32_step:
  assumes "kinv s q" "curenv s = Some c" "\<forall>i < n. readable (va + 4 * of_nat i)" "kloads32 va n s = Some (ws, s')"
  shows "kmem_step s s' q"
  using assms
proof (induction va n s arbitrary: ws s' rule: kloads32.induct)
  case (1 va s)
  then show ?case by (auto simp: kmem_step_def)
next
  case (2 va n s)
  from "2.prems"(4) obtain w s1 ws' where l: "kload32 va s = Some (w, s1)" "kloads32 (va + 4) n s1 = Some (ws', s')"
    by (auto split: bind_splits)
  have r0: "readable va" using "2.prems"(3) by force
  note 1 = kload32_step [OF "2.prems"(1,2) r0 l(1)]
  have "readable (va + 4 + 4 * of_nat i)" if "i < n" for i
    using "2.prems"(3) [rule_format, of "Suc i"] that by (simp add: algebra_simps)
  with "2.IH" [OF l(1) refl kmem_stepD [OF 1 "2.prems"(2)] _ l(2)] 1 show ?case
    by (blast intro: kmem_step_trans)
qed

lemma kstring_step:
  assumes "kinv s q" "curenv s = Some c" "\<forall>i < n. readable (va + of_nat i)" "kstring va n s = Some (ws, s')"
  shows "kmem_step s s' q"
  using assms
proof (induction va n s arbitrary: ws s' rule: kstring.induct)
  case (1 va s)
  then show ?case by simp
next
  case (2 va n s)
  from "2.prems"(4) obtain b s1 where l: "kload8 va s = Some (b, s1)" by (auto split: bind_splits)
  have r0: "readable va" using "2.prems"(3) by force
  note 1 = kload8_step [OF "2.prems"(1,2) r0 l]
  show ?case
  proof (cases "b = 0")
    case True
    then show ?thesis using 1 l "2.prems"(4) by simp
  next
    case False
    with l "2.prems"(4) obtain ws' where l2: "kstring (va + 1) n s1 = Some (ws', s')"
      by (auto split: bind_splits)
    have "readable (va + 1 + of_nat i)" if "i < n" for i
      using "2.prems"(3) [rule_format, of "Suc i"] that by (simp add: algebra_simps)
    with "2.IH" [OF l refl False kmem_stepD [OF 1 "2.prems"(2)] _ l2] 1 show ?thesis
      by (blast intro: kmem_step_trans)
  qed
qed

end
