(* ===== verification/Kernel.thy ===== *)
theory Kernel
  imports Tlbex_Inv
begin

unbundle bit_operations_syntax

text \<open>
  The kernel as a whole: traps of a running environment (system calls, timer interrupts, TLB
  misses) as steps on the kernel state, and the invariant that every reachable state satisfies.
\<close>

section \<open>The invariant between traps\<close>

definition running :: "kern \<Rightarrow> bool" where
  "running s \<longleftrightarrow> (\<exists>c. curenv s = Some c \<and> env_status (envs s c) = ENV_RUNNABLE)"

definition ok :: "kern \<Rightarrow> nat list \<Rightarrow> bool" where
  "ok s q \<longleftrightarrow> kinv s q \<and> waits_ok s \<and> dst_ok s \<and> running s"

lemma okD:
  assumes "ok s q"
  shows "kinv s q" "waits_ok s" "dst_ok s" "running s"
    "\<exists>c. curenv s = Some c \<and> c \<in> set q \<and> c \<in> live s \<and> env_status (envs s c) = ENV_RUNNABLE"
  using assms by (auto simp: ok_def running_def kinv_def kinv0_def sched_ok_def cur_ok_def live_def)

text \<open>
  The message fields stay and no environment becomes runnable that was not: the two parts of the
  invariant that speak about messages are kept.
\<close>

lemma waits_dst_keep:
  assumes "waits_ok s" "dst_ok s" and x: "\<And>x. ipc_core (envs s' x) = ipc_core (envs s x)"
    "\<And>x. env_status (envs s' x) \<noteq> env_status (envs s x) \<Longrightarrow>
       env_status (envs s' x) = ENV_FREE \<and> env_status (envs s x) = ENV_RUNNABLE \<or>
       env_status (envs s' x) = ENV_NOT_RUNNABLE \<and> env_status (envs s x) = ENV_FREE"
  shows "waits_ok s'" "dst_ok s'"
proof -
  have i: "env_ipc_recving (envs s' x) = env_ipc_recving (envs s x)"
    "waiting_return_value (envs s' x) = waiting_return_value (envs s x)"
    "env_ipc_dstva (envs s' x) = env_ipc_dstva (envs s x)" for x
    using x(1) [of x] by (simp_all add: ipc_core_def)
  show "dst_ok s'" using assms(2) by (simp add: dst_ok_def i)
  have "status_ok (envs s' x)" if "x < NENV" for x
  proof (cases "env_status (envs s' x) = env_status (envs s x)")
    case True
    with assms(1) that show ?thesis by (simp add: waits_ok_def status_ok_def waiting_def i)
  next
    case False
    from x(2) [OF this] assms(1) that show ?thesis
      by (auto simp: waits_ok_def status_ok_def waiting_def i dest!: spec [of _ x])
  qed
  then show "waits_ok s'" by (simp add: waits_ok_def)
qed

lemma ok_frame:
  assumes "ok s q" "same_core s s'" "env_sched_list s' = env_sched_list s" "curenv s' = curenv s"
    "cur_pgdir s' = cur_pgdir s" "\<And>x. ipc_core (envs s' x) = ipc_core (envs s x)"
  shows "ok s' q"
proof -
  have "env_status (envs s' x) = env_status (envs s x)" for x
    using same_core_live(5) assms(2) by (simp add: same_core_def)
  with waits_dst_keep [OF okD(2,3) [OF assms(1)] assms(6)] okD(4) [OF assms(1)] assms(4)
  have "waits_ok s'" "dst_ok s'" "running s'" by (auto simp: running_def)
  with assms kinv_frame [OF assms(2-5)] show ?thesis by (simp add: ok_def)
qed

lemma ok_more: "ok s q \<Longrightarrow> kinv s' q' \<Longrightarrow> pmap.more s' = pmap.more s \<Longrightarrow> ok s' q'"
  using kern_more(1,2) [of s' s] by (simp add: ok_def waits_ok_def dst_ok_def running_def)

lemma ok_kmem: "ok s q \<Longrightarrow> kmem_step s s' q \<Longrightarrow> ok s' q"
  by (auto simp: kmem_step_def intro: ok_more)

lemma ok_same_envs:
  assumes "ok s q" "envs s' = envs s" "curenv s' = curenv s" "cur_pgdir s' = cur_pgdir s"
    "env_sched_list s' = env_sched_list s" "env_free_list s' = env_free_list s" "asid_bitmap s' = asid_bitmap s"
    "npage s' = npage s" "pp_ref s' = pp_ref s" "pm s' = pm s" "page_free_list s' = page_free_list s"
  shows "ok s' q"
  by (rule ok_frame [OF assms(1)]) (simp_all add: same_core_def assms)

lemma ok_printk: "ok s q \<Longrightarrow> ok (printk m s) q"
  by (rule ok_same_envs) simp_all

lemma ok_printcharc: "ok s q \<Longrightarrow> ok (printcharc b s) q"
  by (simp add: printcharc_def ok_printk)

lemma ok_upd_env:
  assumes "ok s q" "env_core (f (envs s e)) = env_core (envs s e)" "ipc_core (f (envs s e)) = ipc_core (envs s e)"
  shows "ok (upd_env e f s) q"
  by (rule ok_frame [OF assms(1) same_core_upd_env [of f s e, OF assms(2)]]) (simp_all add: assms(3))

section \<open>Each call keeps it\<close>

lemma yield_ok:
  assumes "ok s q" "schedule b s = Some s'"
  shows "\<exists>q'. ok s' q'"
proof (cases "q = []")
  case True
  with assms(1) have "kinv0 s []" "cur_bound s" by (auto simp: ok_def kinv_def intro: kinv_cur_bound)
  from schedule_none [OF this] assms(2) show ?thesis by simp
next
  case False
  with assms schedule_ok [of s q b] kinv_cur_bound [of s q] have
    k: "kinv s' (if resched s b then rotated s q else q)" "\<exists>c. curenv s' = Some c \<and> c \<in> set q" "same_core s s'" "switched s s'"
    by (auto simp: ok_def kinv_def)
  have st: "env_status (envs s' x) = env_status (envs s x)" for x
    using same_core_live(5) k(3) by (simp add: same_core_def)
  have "running s'" using k(2) okD(1) [OF assms(1)] by (auto simp: running_def st kinv_def kinv0_def sched_ok_def)
  with waits_dst_keep [OF okD(2,3) [OF assms(1)] switched_ipc [OF k(4)]] k st show ?thesis
    by (auto simp: ok_def)
qed

lemma destroy_ok:
  assumes ok: "ok s q" and e: "e \<in> set q" and d: "env_destroy e s = Some (c, s')"
  shows "\<exists>q'. ok s' q'"
proof (cases "curenv s = Some e \<and> remove1 e q = []")
  case True
  from ok e have "kinv0 s q" by (simp add: ok_def kinv_def)
  from env_free_ok [OF this e] True obtain s1 where s1: "env_free e s = Some s1" "kinv0 s1 []" "curenv s1 = curenv s"
    by auto
  let ?s = "printk Msg_killed (s1\<lparr>curenv := None\<rparr>)"
  have "kinv0 ?s []" using kinv0_frame [of s1 ?s "[]"] s1(2) by (simp add: same_core_def)
  from schedule_none [OF this] have "schedule True ?s = None" by (simp add: cur_bound_def)
  with d s1 True show ?thesis by (simp add: env_destroy_def)
next
  case False
  with env_destroy_ok [OF okD(1) [OF ok] e] d obtain q' where
    k: "kinv s' q'" "\<forall>x. ipc_core (envs s' x) = ipc_core (envs s x) \<and>
        (x \<noteq> e \<longrightarrow> env_status (envs s' x) = env_status (envs s x))" "env_status (envs s' e) = ENV_FREE"
      "curenv s \<noteq> Some e \<longrightarrow> curenv s' = curenv s" "curenv s = Some e \<longrightarrow> running s'" by (auto simp: running_def)
  have "running s'"
  proof (cases "curenv s = Some e")
    case True
    then show ?thesis using k(5) by simp
  next
    case False
    then show ?thesis using k(2,4) okD(4) [OF ok] by (auto simp: running_def)
  qed
  moreover have rn: "env_status (envs s e) = ENV_RUNNABLE"
    using e okD(1) [OF ok] by (auto simp: kinv_def kinv0_def sched_ok_def)
  have ic: "ipc_core (envs s' x) = ipc_core (envs s x)" for x using k(2) by blast
  have st: "env_status (envs s' x) = ENV_FREE \<and> env_status (envs s x) = ENV_RUNNABLE"
    if "env_status (envs s' x) \<noteq> env_status (envs s x)" for x
    using k(2,3) rn that by (cases "x = e") auto
  have "waits_ok s'" "dst_ok s'"
    using waits_dst_keep [OF okD(2,3) [OF ok] ic] st by blast+
  ultimately show ?thesis using k(1) by (auto simp: ok_def)
qed


lemma exofork_ok:
  assumes ok: "ok s q" and r: "sys_exofork s = Some (r, s')"
  shows "ok s' q"
proof -
  from okD(5) [OF ok] obtain c where c: "curenv s = Some c" "c \<in> live s" by blast
  from sys_exofork_ok [OF okD(1) [OF ok] c(1)] r obtain v where
    k: "kinv s' q" "curenv s' = curenv s"
      "case v of
       Inl er \<Rightarrow> (er = E_NO_FREE_ENV \<or> er = E_NO_MEM) \<and> live s' = live s \<and>
         (\<forall>e \<in> live s. envs s' e = envs s e) \<and> same_as s s' \<and>
         (\<forall>x. ipc_core (envs s' x) = ipc_core (envs s x) \<and> env_status (envs s' x) = env_status (envs s x))
     | Inr v \<Rightarrow> (\<exists>e. forked s s' c e \<and> v = env_id (envs s' e))" by auto
  have x: "ipc_core (envs s' x) = ipc_core (envs s x)"
    "env_status (envs s' x) \<noteq> env_status (envs s x) \<Longrightarrow>
       env_status (envs s' x) = ENV_NOT_RUNNABLE \<and> env_status (envs s x) = ENV_FREE" for x
  proof -
    have "ipc_core (envs s' x) = ipc_core (envs s x) \<and> (env_status (envs s' x) = env_status (envs s x) \<or>
      env_status (envs s' x) = ENV_NOT_RUNNABLE \<and> env_status (envs s x) = ENV_FREE)"
    proof (cases v)
      case (Inl er)
      then show ?thesis using k(3) by simp
    next
      case (Inr w)
      then obtain e where f: "forked s s' c e" using k(3) by auto
      then have "e \<in> live s'" "e \<notin> live s" by (auto simp: forked_def)
      then have "env_status (envs s e) = ENV_FREE" by (auto simp: live_def)
      with f show ?thesis by (cases "x = e") (auto simp: forked_def)
    qed
    then show "ipc_core (envs s' x) = ipc_core (envs s x)"
      "env_status (envs s' x) \<noteq> env_status (envs s x) \<Longrightarrow>
         env_status (envs s' x) = ENV_NOT_RUNNABLE \<and> env_status (envs s x) = ENV_FREE"
      by blast+
  qed
  have "envs s' c = envs s c" using k(3) c(2) by (cases v) (auto simp: forked_def, metis)
  with c k(2) okD(4) [OF ok] have "running s'" by (auto simp: running_def)
  moreover have "waits_ok s'" "dst_ok s'"
    by (rule waits_dst_keep [OF okD(2,3) [OF ok]]; use x in metis)+
  ultimately show ?thesis using k(1) by (simp add: ok_def)
qed

lemma set_env_status_ok:
  assumes ok: "ok s q" and r: "sys_set_env_status envid status s = Some (r, s')"
    and safe: "\<And>e. envid2env envid True s = Some (Inr e) \<Longrightarrow>
      (status = ENV_RUNNABLE \<longrightarrow> \<not> waiting (envs s e)) \<and> (status = ENV_NOT_RUNNABLE \<longrightarrow> curenv s \<noteq> Some e)"
  shows "\<exists>q'. ok s' q'"
proof -
  from okD(5) [OF ok] obtain c where c: "curenv s = Some c" by blast
  from sys_set_env_status_ok [OF okD(1,2) [OF ok] c, of envid status] obtain v s1 q' where
    k1: "sys_set_env_status envid status s = Some (Returns v, s1)" "kinv s1 q'"
     "case v of
       Inr v \<Rightarrow> v = 0 \<and> (status = ENV_RUNNABLE \<or> status = ENV_NOT_RUNNABLE) \<and>
         (\<exists>e h. envid2env envid True s = Some (Inr e) \<and> may_control s e \<and> q' = queue_after s q e status \<and>
            s1 = upd_env e (\<lambda>v. v\<lparr>env_status := status\<rparr>) (s\<lparr>env_sched_list := h\<rparr>))
     | Inl er \<Rightarrow> s1 = s \<and> q' = q \<and>
         er = (if status = ENV_RUNNABLE \<or> status = ENV_NOT_RUNNABLE then E_BAD_ENV else E_INVAL)"
    by blast
  from r k1(1) have "s1 = s'" by simp
  note k = k1(2,3) [unfolded this]
  show ?thesis
  proof (cases v)
    case (Inl er)
    then show ?thesis using k(2) ok by auto
  next
    case (Inr w)
    with k(2) obtain e h where e: "envid2env envid True s = Some (Inr e)" "status = ENV_RUNNABLE \<or> status = ENV_NOT_RUNNABLE"
      "s' = upd_env e (\<lambda>v. v\<lparr>env_status := status\<rparr>) (s\<lparr>env_sched_list := h\<rparr>)" by auto
    have "waits_ok s'"
      by (rule waits_ok_upd [OF okD(2) [OF ok], of s' e "(envs s e)\<lparr>env_status := status\<rparr>"])
        (use safe [OF e(1)] e(2,3) waits_okD(3) [OF okD(2) [OF ok] envid2env_ok [OF okD(1) [OF ok] e(1)]]
          in \<open>auto simp: status_ok_def waiting_def\<close>)
    moreover have "dst_ok s'" using okD(3) [OF ok] e(3) by (simp add: dst_ok_def)
    moreover have "running s'" using okD(4) [OF ok] safe [OF e(1)] e(2,3) by (auto simp: running_def)
    ultimately show ?thesis using k(1) by (auto simp: ok_def)
  qed
qed

lemma block_ok:
  assumes ok: "ok s q" and r: "block_current f s = Some (r, s')"
    and f: "\<And>v. env_core (f v) = env_core v" "\<And>v. env_ipc_dstva v < UTOP \<Longrightarrow> env_ipc_dstva (f v) < UTOP"
      "\<And>v. \<not> waiting v \<Longrightarrow> \<not> (env_ipc_recving (f v) = 1 \<and> waiting_return_value (f v) = 1)"
  shows "\<exists>q'. ok s' q'"
proof -
  from okD(5) [OF ok] obtain c where c: "curenv s = Some c" "c \<in> set q" "c \<in> live s"
    "env_status (envs s c) = ENV_RUNNABLE" by blast
  then have nw: "\<not> waiting (envs s c)" using waits_okD(2) [OF okD(2) [OF ok] c(3)] by auto
  note k0 = okD(1) [OF ok]
  show ?thesis
  proof (cases "remove1 c q = []")
    case True
    let ?v = "(f (envs s c))\<lparr>env_status := ENV_NOT_RUNNABLE\<rparr>"
    have v: "env_core ?v = (ENV_NOT_RUNNABLE, env_pgdir (envs s c), env_asid (envs s c), env_id (envs s c))"
      using f(1) [of "envs s c"] by (simp add: env_core_def)
    from k0 kinv0_block [OF _ c(2) v] obtain h where h: "TAILQ_REMOVE c (env_sched_list s) = Some h"
      "\<And>s'. moved s s' c ?v h \<Longrightarrow> kinv0 s' []" unfolding True kinv_def by blast
    let ?s = "(upd_env c (\<lambda>v. v\<lparr>env_status := ENV_NOT_RUNNABLE\<rparr>) (upd_env c f s))\<lparr>env_sched_list := h,
      kstack_tf := (kstack_tf s)\<lparr>regs := (regs (kstack_tf s))(2 := 0)\<rparr>\<rparr>"
    have "kinv0 ?s []" by (rule h(2)) (simp add: moved_def)
    moreover have "cur_bound ?s" using c by (simp add: cur_bound_def live_def)
    ultimately have "schedule True ?s = None" by (rule schedule_none)
    with r c(1) h(1) show ?thesis by (simp add: block_current_def Let_def)
  next
    case False
    from block_current_ok [OF k0 c(1,2) False, of f] f(1) r obtain n where
      k: "kinv s' (remove1 c q)" "curenv s' = Some (hd (remove1 c q))"
        "envs s' c = (f (envs s c))\<lparr>env_status := ENV_NOT_RUNNABLE, env_tf := child_tf (kstack_tf s), env_runs := n\<rparr>"
        "\<forall>e. e \<noteq> c \<longrightarrow> (\<exists>n. envs s' e = (envs s e)\<lparr>env_runs := n\<rparr>)" by auto
    have o: "\<exists>n. envs s' e = (envs s e)\<lparr>env_runs := n\<rparr>" if "e \<noteq> c" for e using k(4) that by blast
    have "status_ok (envs s' e)" if "e < NENV" for e
      using that k(3) o [of e] okD(2) [OF ok] f(3) [OF nw] by (cases "e = c") (auto simp: status_ok_def waits_ok_def waiting_def)
    moreover have "env_ipc_dstva (envs s' e) < UTOP" for e
      using k(3) o [of e] okD(3) [OF ok] f(2) by (cases "e = c") (auto simp: dst_ok_def)
    moreover have "hd (remove1 c q) \<in> set (remove1 c q)" using False by (rule hd_in_set)
    then have "running s'"
      using k(1,2) by (auto simp: running_def kinv_def kinv0_def sched_ok_def)
    ultimately show ?thesis using k(1) by (auto simp: ok_def waits_ok_def dst_ok_def)
  qed
qed

lemma deliver_keep:
  assumes ok: "ok s q" and r: "deliver e f srcva perm s = Some (r, s')"
    and e: "e \<in> live s" "waiting (envs s e)" and src: "srcva = 0 \<or> \<not> is_illegal_va srcva"
    and perm: "perm < 4096" and room: "refs_room s"
    and f: "env_core (f (envs s e)) = env_core (envs s e)"
      "env_ipc_dstva (f (envs s e)) = env_ipc_dstva (envs s e)" "\<not> waiting (f (envs s e))"
  shows "\<exists>q'. ok s' q'"
proof -
  from okD(5) [OF ok] obtain c where c: "curenv s = Some c" by blast
  have d: "env_ipc_dstva (envs s e) < UTOP" using okD(3) [OF ok] by (simp add: dst_ok_def)
  note nr = waits_okD(2) [OF okD(2) [OF ok] e]
  from deliver_ok [OF okD(1) [OF ok] c e(1) nr d, of f srcva perm] f(1,2) src perm room r obtain v where
    k: "kinv s' (q @ [e])" "delivered s s' c e f srcva perm v" by auto
  have ev: "envs s' = (envs s)(e := (f (envs s e))\<lparr>env_status := ENV_RUNNABLE\<rparr>)" "curenv s' = curenv s"
    using k(2) by (simp_all add: delivered_def)
  have "waits_ok s'" by (rule waits_ok_upd [OF okD(2) [OF ok] ev(1)]) (use f(3) in \<open>simp add: status_ok_def waiting_def\<close>)
  moreover have "dst_ok s'" using okD(3) [OF ok] f(2) by (simp add: dst_ok_def ev)
  moreover have "running s'" using okD(4) [OF ok] by (auto simp: running_def ev)
  ultimately show ?thesis using k(1) by (auto simp: ok_def)
qed

lemma mfold_keep:
  assumes "mfold f xs s = Some s'" "P s" "\<And>x s s'. x \<in> set xs \<Longrightarrow> P s \<Longrightarrow> f x s = Some s' \<Longrightarrow> P s'"
  shows "P s'"
  using assms
proof (induction xs arbitrary: s)
  case (Cons x xs)
  from Cons.prems(1) obtain s1 where s1: "f x s = Some s1" "mfold f xs s1 = Some s'" by (auto split: bind_splits)
  show ?case
    by (rule Cons.IH [OF s1(2)]) (use Cons.prems(2,3) s1(1) in auto)
qed simp

lemma UTOP_ULIM: "va < UTOP \<Longrightarrow> va < ULIM"
  by (simp add: mos_consts word_less_nat_alt)

lemma kload8_ok:
  assumes "ok s q" "readable va" "kload8 va s = Some (b, s')"
  shows "ok s' q"
proof -
  from okD(5) [OF assms(1)] obtain c where "curenv s = Some c" by blast
  from kload8_step [OF okD(1) [OF assms(1)] this assms(2,3)] assms(1) show ?thesis by (rule ok_kmem [rotated])
qed

lemma range_user:
  fixes p n :: u32
  assumes "p + n \<le> UTOP" "p \<le> p + n" "i < unat n"
  shows "p + of_nat i < UTOP"
proof -
  have "unat n < 2 ^ 32" using unsigned_less [of n, where ?'a = nat] by simp
  with assms(2) have n: "unat p + unat n < 2 ^ 32"
    by (simp add: word_le_nat_alt unat_plus_if' split: if_splits)
  then have "unat (p + n) = unat p + unat n" by (simp add: unat_plus_if')
  moreover have "unat (of_nat i :: u32) = i" using assms(3) n by (intro unat_of_nat_u32) simp
  then have "unat (p + of_nat i) = unat p + i" using assms(3) n by (simp add: unat_plus_if')
  ultimately show ?thesis using assms(1,3) by (simp add: word_less_nat_alt word_le_nat_alt)
qed

lemma print_cons_ok:
  assumes ok: "ok s q" and r: "sys_print_cons ptr num s = Some (r, s')"
  shows "ok s' q"
proof (cases "ptr + num > UTOP \<or> ptr \<ge> UTOP \<or> ptr > ptr + num")
  case True
  with r ok show ?thesis by (auto simp: sys_print_cons_def)
next
  case False
  let ?f = "\<lambda>i s. do { (b, s) \<leftarrow> kload8 (ptr + of_nat i) s; Some (printcharc b s) }"
  from False r have m: "mfold ?f [0..<unat num] s = Some s'"
    by (auto simp: sys_print_cons_def split: bind_splits)
  from m ok show ?thesis
  proof (rule mfold_keep)
    fix i s s' assume i: "i \<in> set [0..<unat num]" and o: "ok s q" and f: "?f i s = Some s'"
    from f obtain b s1 where l: "kload8 (ptr + of_nat i) s = Some (b, s1)" and s': "s' = printcharc b s1"
      by (auto split: bind_splits)
    have "readable (ptr + of_nat i)"
      using range_user [of ptr num i] False i by (auto simp: readable_def not_less not_le)
    from ok_printcharc [OF kload8_ok [OF o this l]] show "ok s' q" by (simp add: s')
  qed
qed

text \<open>The addresses that the device calls and \<^verbatim>\<open>sys_set_trapframe\<close> touch are below \<^verbatim>\<open>UTOP\<close>.\<close>

lemma legal_range:
  assumes "\<not> is_illegal_va_range va len" "i < unat len"
  shows "va + of_nat i < UTOP"
proof -
  have "len \<noteq> 0" using assms(2) by auto
  with assms(1) have "va \<le> va + len" "va + len \<le> UTOP" by (auto simp: is_illegal_va_range_def not_less)
  with range_user [OF _ _ assms(2)] show ?thesis by blast
qed

lemma write_dev_ok:
  assumes ok: "ok s q" and r: "sys_write_dev va pa len s = Some (r, s')"
  shows "ok s' q"
proof (cases "is_illegal_va_range va len \<or> \<not> dev_range pa len \<or> len \<notin> {1, 2, 4}")
  case True
  with r ok show ?thesis by (auto simp: sys_write_dev_def split: if_splits)
next
  case False
  from okD(5) [OF ok] obtain c where c: "curenv s = Some c" by blast
  note lr = legal_range [of va len]
  have rd: "readable va" using lr [of 0] False by (auto simp: readable_def)
  have st: "kload8 va s = Some (b, s1) \<Longrightarrow> ok s1 q" "kload32 va s = Some (w, s1) \<Longrightarrow> ok s1 q" for b w s1
    using kload8_step [OF okD(1) [OF ok] c rd] kload32_step [OF okD(1) [OF ok] c rd] ok_kmem [OF ok] by blast+
  have st16: "ok s1 q" if "kload16 va s = Some (w, s1)" "len = 2" for w s1
  proof -
    have "readable (va + 1)" using lr [of 1] False that(2) by (auto simp: readable_def)
    from kload16_step [OF okD(1) [OF ok] c rd this that(1)] show ?thesis by (rule ok_kmem [OF ok])
  qed
  consider "len = 1" | "len = 2" | "len = 4" using False by auto
  then show ?thesis
  proof cases
    case 1
    with False r obtain b s1 where "kload8 va s = Some (b, s1)" "s' = printk (Dev_write pa 1 (ucast b)) s1"
      by (auto simp: sys_write_dev_def split: bind_splits)
    with st(1) ok_printk show ?thesis by blast
  next
    case 2
    with False r obtain b s1 where "kload16 va s = Some (b, s1)" "s' = printk (Dev_write pa 2 (ucast b)) s1"
      by (auto simp: sys_write_dev_def split: bind_splits)
    with st16 2 ok_printk show ?thesis by blast
  next
    case 3
    with False r obtain b s1 where "kload32 va s = Some (b, s1)" "s' = printk (Dev_write pa 4 b) s1"
      by (auto simp: sys_write_dev_def split: bind_splits)
    with st(2) ok_printk show ?thesis by blast
  qed
qed

lemma read_dev_ok:
  assumes ok: "ok s q" and r: "sys_read_dev h va pa len s = Some (r, s')"
  shows "ok s' q"
proof (cases "is_illegal_va_range va len \<or> \<not> dev_range pa len \<or> len \<notin> {1, 2, 4}")
  case True
  with r ok show ?thesis by (auto simp: sys_read_dev_def split: if_splits)
next
  case False
  from okD(5) [OF ok] obtain c where c: "curenv s = Some c" by blast
  note lr = legal_range [of va len]
  have ud: "va < UTOP" using lr [of 0] False by auto
  consider "len = 1" | "len = 2" | "len = 4" using False by auto
  then show ?thesis
  proof cases
    case 1
    with False r have "kstore8 va (ucast (hw_read h pa 1)) s = Some s'"
      by (auto simp: sys_read_dev_def split: bind_splits)
    from kstore8_step [OF okD(1) [OF ok] c ud this] show ?thesis by (rule ok_kmem [OF ok])
  next
    case 2
    with False r have st: "kstore16 va (ucast (hw_read h pa 2)) s = Some s'"
      by (auto simp: sys_read_dev_def split: bind_splits)
    have "va + 1 < UTOP" using lr [of 1] False 2 by auto
    from kstore16_step [OF okD(1) [OF ok] c ud this st] show ?thesis by (rule ok_kmem [OF ok])
  next
    case 3
    with False r have "kstore32 va (hw_read h pa 4) s = Some s'"
      by (auto simp: sys_read_dev_def split: bind_splits)
    from kstore32_step [OF okD(1) [OF ok] c ud this] show ?thesis by (rule ok_kmem [OF ok])
  qed
qed

lemma set_trapframe_ok:
  assumes ok: "ok s q" and r: "sys_set_trapframe envid tf s = Some (r, s')"
  shows "ok s' q"
proof (cases "is_illegal_va_range tf 152")
  case True
  with r ok show ?thesis by (simp add: sys_set_trapframe_def)
next
  case False
  from okD(5) [OF ok] obtain c where c: "curenv s = Some c" by blast
  obtain v where v: "envid2env envid True s = Some v" using envid2env_some [OF c] by blast
  show ?thesis
  proof (cases v)
    case (Inl e)
    with r v ok False show ?thesis by (simp add: sys_set_trapframe_def)
  next
    case (Inr e)
    with r v False obtain ws s1 where l: "kloads32 tf 38 s = Some (ws, s1)"
      and s': "s' = (if curenv s1 = Some e then s1\<lparr>kstack_tf := words_tf ws\<rparr>
        else upd_env e (\<lambda>v. v\<lparr>env_tf := words_tf ws\<rparr>) s1)"
      by (auto simp: sys_set_trapframe_def split: bind_splits if_splits)
    have "readable (tf + 4 * of_nat i)" if "i < 38" for i
    proof -
      have "tf + of_nat (4 * i) < UTOP" by (rule legal_range [OF False]) (use that in simp)
      then show ?thesis by (simp add: readable_def)
    qed
    with kloads32_step [OF okD(1) [OF ok] c _ l] have "kmem_step s s1 q" by blast
    from ok_kmem [OF ok this] have o1: "ok s1 q" .
    have "ok (s1\<lparr>kstack_tf := words_tf ws\<rparr>) q" by (rule ok_same_envs [OF o1]) simp_all
    moreover have "ok (upd_env e (\<lambda>v. v\<lparr>env_tf := words_tf ws\<rparr>) s1) q"
      by (rule ok_upd_env [OF o1]) (simp_all add: env_core_def ipc_core_def)
    ultimately show ?thesis by (simp add: s')
  qed
qed

lemma mem_alloc_keep:
  assumes ok: "ok s q" and r: "sys_mem_alloc envid va perm s = Some (r, s')" "perm < 4096"
  shows "ok s' q"
proof -
  from okD(5) [OF ok] obtain c where c: "curenv s = Some c" by blast
  from sys_mem_alloc_ok [OF okD(1) [OF ok] c r(2), of envid va] r(1) show ?thesis
    using ok_more [OF ok] by auto
qed

lemma mem_map_keep:
  assumes ok: "ok s q" and r: "sys_mem_map srcid srcva dstid dstva perm s = Some (r, s')" "perm < 4096" "refs_room s"
  shows "ok s' q"
proof -
  from okD(5) [OF ok] obtain c where c: "curenv s = Some c" by blast
  from sys_mem_map_ok [OF okD(1) [OF ok] c r(2,3), of srcid srcva dstid dstva] r(1) show ?thesis
    using ok_more [OF ok] by auto
qed

lemma mem_unmap_keep:
  assumes ok: "ok s q" and r: "sys_mem_unmap envid va s = Some (r, s')"
  shows "ok s' q"
proof -
  from okD(5) [OF ok] obtain c where c: "curenv s = Some c" by blast
  from sys_mem_unmap_ok [OF okD(1) [OF ok] c, of envid va] r(1) show ?thesis
    using ok_more [OF ok] by auto
qed

lemma env_destroy_keep:
  assumes ok: "ok s q" and r: "sys_env_destroy envid s = Some (r, s')"
    and safe: "\<And>e. envid2env envid True s = Some (Inr e) \<Longrightarrow> env_status (envs s e) = ENV_RUNNABLE"
  shows "\<exists>q'. ok s' q'"
proof -
  from okD(5) [OF ok] obtain c where c: "curenv s = Some c" by blast
  obtain v where v: "envid2env envid True s = Some v" using envid2env_some [OF c] by blast
  show ?thesis
  proof (cases v)
    case (Inl e)
    with r v ok show ?thesis by (auto simp: sys_env_destroy_def)
  next
    case (Inr e)
    let ?s = "printk (Msg_destroying (env_id (envs s c)) (env_id (envs s e))) s"
    from Inr v c r obtain ct where d: "env_destroy e ?s = Some (ct, s')"
      by (auto simp: sys_env_destroy_def split: bind_splits ctl.splits)
    have e: "envid2env envid True s = Some (Inr e)" using v Inr by simp
    have "e \<in> set q"
      using envid2env_ok [OF okD(1) [OF ok] e] safe [OF e] okD(1) [OF ok]
      by (auto simp: kinv_def kinv0_def sched_ok_def live_def)
    from destroy_ok [OF ok_printk [OF ok] this d] show ?thesis .
  qed
qed

lemma kill_job_keep:
  assumes ok: "ok s q" and r: "sys_kill_job jobId s = Some (r, s')"
  shows "\<exists>q'. ok s' q'"
proof (cases "find (\<lambda>i. int (job_id (jobs s i)) = sint jobId) [0..<jobCnt s]")
  case None
  with r ok_printk [OF ok] show ?thesis by (auto simp: sys_kill_job_def env_kill_job_def)
next
  case (Some i)
  let ?e = "ENVX (job_envid (jobs s i))"
  show ?thesis
  proof (cases "env_status (envs s ?e) = ENV_RUNNABLE")
    case False
    with r Some ok_printk [OF ok] show ?thesis by (auto simp: sys_kill_job_def env_kill_job_def)
  next
    case True
    from r obtain cc where "env_kill_job jobId s = Some (cc, s')"
      by (auto simp: sys_kill_job_def split: bind_splits ctl.splits)
    with True Some have kj: "do { (c, s) \<leftarrow> env_destroy ?e s; case c of Switched \<Rightarrow> Some (Switched, s)
        | Returns _ \<Rightarrow> Some (Returns (), s\<lparr>jobs := (jobs s)(i := (jobs s i)\<lparr>job_status := 0\<rparr>)\<rparr>) } = Some (cc, s')"
      by (simp add: env_kill_job_def Let_def)
    then obtain ct s1 where d: "env_destroy ?e s = Some (ct, s1)" by (cases "env_destroy ?e s") auto
    with kj have s': "s' = s1 \<or> s' = s1\<lparr>jobs := (jobs s1)(i := (jobs s1 i)\<lparr>job_status := 0\<rparr>)\<rparr>"
      by (cases ct) auto
    have "?e \<in> set q" using True okD(1) [OF ok] by (auto simp: kinv_def kinv0_def sched_ok_def)
    from destroy_ok [OF ok this d] obtain q' where o1: "ok s1 q'" by blast
    then have "ok (s1\<lparr>jobs := (jobs s1)(i := (jobs s1 i)\<lparr>job_status := 0\<rparr>)\<rparr>) q'"
      by (rule ok_same_envs) simp_all
    with o1 s' show ?thesis by auto
  qed
qed

lemma create_job_keep:
  assumes ok: "ok s q" and r: "sys_create_job envid cmd s = Some (r, s')" "\<forall>i < 1024. readable (cmd + of_nat i)"
  shows "ok s' q"
proof -
  from okD(5) [OF ok] obtain c where c: "curenv s = Some c" by blast
  from r(1) obtain bs s1 where l: "kstring cmd 1024 s = Some (bs, s1)" and s': "env_create_job envid bs s1 = Some s'"
    by (auto simp: sys_create_job_def split: bind_splits)
  have "ok s1 q" by (rule ok_kmem [OF ok kstring_step [OF okD(1) [OF ok] c r(2) l]])
  then show ?thesis
    by (rule ok_same_envs) (use s' in \<open>auto simp: env_create_job_def split: if_splits\<close>)
qed

lemma try_send_keep:
  assumes ok: "ok s q" and r: "sys_ipc_try_send envid val srcva perm s = Some (r, s')" "perm < 4096" "refs_room s"
  shows "\<exists>q'. ok s' q'"
proof (cases "srcva \<noteq> 0 \<and> is_illegal_va srcva")
  case True
  with r ok show ?thesis by (auto simp: sys_ipc_try_send_def)
next
  case False
  from okD(5) [OF ok] obtain c where c: "curenv s = Some c" by blast
  obtain v where v: "envid2env envid False s = Some v" using envid2env_some [OF c] by blast
  show ?thesis
  proof (cases "\<exists>e. v = Inr e \<and> env_ipc_recving (envs s e) = 1")
    case True
    then obtain e where e: "v = Inr e" "env_ipc_recving (envs s e) = 1" by blast
    let ?f = "\<lambda>v. v\<lparr>env_ipc_value := val, env_ipc_from := env_id (envs s c),
                env_ipc_perm := PTE_V OR perm, env_ipc_recving := 0\<rparr>"
    have d: "deliver e ?f srcva perm s = Some (r, s')"
      using r(1) v c e False by (auto simp: sys_ipc_try_send_def split: if_splits)
    have w: "waiting (envs s e)" using e by (simp add: waiting_def)
    have l: "e \<in> live s" using envid2env_ok [OF okD(1) [OF ok]] v e(1) by blast
    show ?thesis
      by (rule deliver_keep [OF ok d l w _ r(2,3)])
        (use False waits_okD(3) [OF okD(2) [OF ok] l e(2)] in \<open>auto simp: env_core_def waiting_def\<close>)
  next
    case nr: False
    with r v False ok show ?thesis by (cases v) (auto simp: sys_ipc_try_send_def split: if_splits)
  qed
qed

lemma send_return_value_keep:
  assumes ok: "ok s q" and r: "sys_send_return_value envid val srcva perm s = Some (r, s')" "perm < 4096" "refs_room s"
  shows "\<exists>q'. ok s' q'"
proof (cases "srcva \<noteq> 0 \<and> is_illegal_va srcva")
  case True
  with r ok show ?thesis by (auto simp: sys_send_return_value_def)
next
  case False
  from okD(5) [OF ok] obtain c where c: "curenv s = Some c" by blast
  obtain v where v: "envid2env envid False s = Some v" using envid2env_some [OF c] by blast
  show ?thesis
  proof (cases "\<exists>e. v = Inr e \<and> waiting_return_value (envs s e) = 1")
    case True
    then obtain e where e: "v = Inr e" "waiting_return_value (envs s e) = 1" by blast
    let ?f = "\<lambda>v. v\<lparr>env_ipc_value := val, env_ipc_from := env_id (envs s c),
                env_ipc_perm := PTE_V OR perm, env_ipc_recving := 0, waiting_return_value := 0,
                return_value := val\<rparr>"
    have d: "deliver e ?f srcva perm s = Some (r, s')"
      using r(1) v c e False by (auto simp: sys_send_return_value_def split: if_splits)
    have w: "waiting (envs s e)" using e by (simp add: waiting_def)
    have l: "e \<in> live s" using envid2env_ok [OF okD(1) [OF ok]] v e(1) by blast
    show ?thesis
      by (rule deliver_keep [OF ok d l w _ r(2,3)])
        (use False in \<open>auto simp: env_core_def waiting_def\<close>)
  next
    case nr: False
    with r v False ok show ?thesis by (cases v) (auto simp: sys_send_return_value_def split: if_splits)
  qed
qed

lemma recv_keep:
  assumes "ok s q"
  shows "sys_ipc_recv dstva s = Some (r, s') \<Longrightarrow> \<exists>q'. ok s' q'"
    "sys_recv_return_value s = Some (r, s') \<Longrightarrow> \<exists>q'. ok s' q'"
proof -
  assume r: "sys_ipc_recv dstva s = Some (r, s')"
  show "\<exists>q'. ok s' q'"
  proof (cases "dstva \<noteq> 0 \<and> is_illegal_va dstva")
    case True
    with r assms show ?thesis by (auto simp: sys_ipc_recv_def)
  next
    case False
    have "dstva < UTOP" using False legal_va [of dstva] by (cases "dstva = 0") (auto simp: mos_consts)
    with block_ok [OF assms, of "\<lambda>v. v\<lparr>env_ipc_recving := 1, env_ipc_dstva := dstva\<rparr>"] r False show ?thesis
      by (auto simp: sys_ipc_recv_def env_core_def waiting_def)
  qed
next
  assume "sys_recv_return_value s = Some (r, s')"
  with block_ok [OF assms, of "\<lambda>v. v\<lparr>waiting_return_value := 1\<rparr>"] show "\<exists>q'. ok s' q'"
    by (auto simp: sys_recv_return_value_def env_core_def waiting_def)
qed

lemma set_tlb_mod_entry_keep:
  assumes ok: "ok s q" and r: "sys_set_tlb_mod_entry envid func s = Some (r, s')"
  shows "ok s' q"
proof -
  from okD(5) [OF ok] obtain c where c: "curenv s = Some c" by blast
  obtain v where v: "envid2env envid True s = Some v" using envid2env_some [OF c] by blast
  have "ok (upd_env e (\<lambda>v. v\<lparr>env_user_tlb_mod_entry := func\<rparr>) s) q" for e
    by (rule ok_upd_env [OF ok]) (simp_all add: env_core_def ipc_core_def)
  with r v ok show ?thesis by (cases v) (auto simp: sys_set_tlb_mod_entry_def)
qed

lemma print_jobs_keep: "ok s q \<Longrightarrow> ok (env_print_jobs s) q"
proof -
  have "ok (fold (\<lambda>i s. let j = jobs s i in
     printk (Msg_job (job_id j) (job_status j = 1) (job_envid j) (job_cmd j)) s) xs s) q" if "ok s q" for xs
    using that by (induction xs arbitrary: s) (simp_all add: Let_def ok_printk)
  then show "ok s q \<Longrightarrow> ?thesis" by (simp add: env_print_jobs_def)
qed

lemma set_job_done_keep: "ok s q \<Longrightarrow> ok (env_set_job_done envid s) q"
  by (erule ok_same_envs) (auto simp: env_set_job_done_def split: option.split)

section \<open>Dispatch\<close>

text \<open>
  The arguments under which the calls keep the invariant. The kernel does not check them: the
  permission bits are \<^verbatim>\<open>OR\<close>ed into the page table entry as they are, \<^verbatim>\<open>env_free\<close> takes the
  environment out of the queue whether or not it is there, \<^verbatim>\<open>sys_set_env_status\<close> wakes an
  environment that waits for a message, and the command of a job is read from any address.
\<close>

definition args_safe :: "nat \<Rightarrow> u32 \<Rightarrow> u32 \<Rightarrow> u32 \<Rightarrow> u32 \<Rightarrow> u32 \<Rightarrow> kern \<Rightarrow> bool" where
  "args_safe n a1 a2 a3 a4 a5 s \<longleftrightarrow>
     (n = 6 \<longrightarrow> a3 < 4096) \<and> (n = 7 \<longrightarrow> a5 < 4096) \<and> (n = 13 \<or> n = 23 \<longrightarrow> a4 < 4096) \<and>
     (n = 4 \<longrightarrow> (\<forall>e < NENV. envid2env a1 True s = Some (Inr e) \<longrightarrow> env_status (envs s e) = ENV_RUNNABLE)) \<and>
     (n = 10 \<longrightarrow> (\<forall>e < NENV. envid2env a1 True s = Some (Inr e) \<longrightarrow>
        (a2 = ENV_RUNNABLE \<longrightarrow> \<not> waiting (envs s e)) \<and> (a2 = ENV_NOT_RUNNABLE \<longrightarrow> curenv s \<noteq> Some e))) \<and>
     (n = 18 \<longrightarrow> (\<forall>i < 1024. readable (a2 + of_nat i)))"

lemma envid2env_bound: "ok s q \<Longrightarrow> envid2env a cp s = Some (Inr e) \<Longrightarrow> e < NENV"
  using envid2env_ok [OF okD(1)] by (auto simp: live_def)

lemma syscall_table_keep:
  assumes ok: "ok s q" and room: "refs_room s" and safe: "args_safe n a1 a2 a3 a4 a5 s"
    and r: "syscall_table n h a1 a2 a3 a4 a5 s = Some (r, s')"
  shows "\<exists>q'. ok s' q'"
proof -
  note b = envid2env_bound [OF ok]
  have s4: "env_status (envs s e) = ENV_RUNNABLE" if "n = 4" "envid2env a1 True s = Some (Inr e)" for e
    using safe that b by (auto simp: args_safe_def)
  have s10: "(a2 = ENV_RUNNABLE \<longrightarrow> \<not> waiting (envs s e)) \<and> (a2 = ENV_NOT_RUNNABLE \<longrightarrow> curenv s \<noteq> Some e)"
    if "n = 10" "envid2env a1 True s = Some (Inr e)" for e
    using safe that b by (auto simp: args_safe_def)
  have p: "n = 6 \<Longrightarrow> a3 < 4096" "n = 7 \<Longrightarrow> a5 < 4096" "n = 13 \<Longrightarrow> a4 < 4096" "n = 23 \<Longrightarrow> a4 < 4096"
    "n = 18 \<Longrightarrow> \<forall>i < 1024. readable (a2 + of_nat i)"
    using safe by (auto simp: args_safe_def)
  note r = r [unfolded syscall_table_def]
  have c0: ?thesis if "n = 0" using that r ok_printcharc [OF ok] by (auto simp: sys_putchar_def)
  have c1: ?thesis if "n = 1" using that r print_cons_ok [OF ok] by (auto intro: exI [of _ q])
  have c2: ?thesis if "n = 2" using that r ok by (auto simp: sys_getenvid_def split: bind_splits)
  have c3: ?thesis if "n = 3" using that r yield_ok [OF ok] by (auto simp: sys_yield_def split: bind_splits)
  have c4: ?thesis if "n = 4" using that r env_destroy_keep [OF ok _ s4] by simp
  have c5: ?thesis if "n = 5" using that r set_tlb_mod_entry_keep [OF ok] by (auto intro: exI [of _ q])
  have c6: ?thesis if "n = 6" using that r mem_alloc_keep [OF ok _ p(1)] by (auto intro: exI [of _ q])
  have c7: ?thesis if "n = 7" using that r mem_map_keep [OF ok _ p(2) room] by (auto intro: exI [of _ q])
  have c8: ?thesis if "n = 8" using that r mem_unmap_keep [OF ok] by (auto intro: exI [of _ q])
  have c9: ?thesis if "n = 9" using that r exofork_ok [OF ok] by (auto intro: exI [of _ q])
  have c10: ?thesis if "n = 10" using that r set_env_status_ok [OF ok _ s10] by simp
  have c11: ?thesis if "n = 11" using that r set_trapframe_ok [OF ok] by (auto intro: exI [of _ q])
  have c12: ?thesis if "n = 12" using that r by (simp add: sys_panic_def)
  have c13: ?thesis if "n = 13" using that r try_send_keep [OF ok _ p(3) room] by simp
  have c14: ?thesis if "n = 14" using that r recv_keep(1) [OF ok] by simp
  have c15: ?thesis if "n = 15" using that r ok by (auto simp: sys_cgetc_def)
  have c16: ?thesis if "n = 16" using that r write_dev_ok [OF ok] by (auto intro: exI [of _ q])
  have c17: ?thesis if "n = 17" using that r read_dev_ok [OF ok] by (auto intro: exI [of _ q])
  have c18: ?thesis if "n = 18" using that r create_job_keep [OF ok _ p(5)] by (auto intro: exI [of _ q])
  have c19: ?thesis if "n = 19" using that r print_jobs_keep [OF ok] by (auto simp: sys_print_jobs_def)
  have c20: ?thesis if "n = 20" using that r set_job_done_keep [OF ok] by (auto simp: sys_set_job_done_def)
  have c21: ?thesis if "n = 21" using that r ok by (auto simp: sys_fg_job_def)
  have c22: ?thesis if "n = 22" using that r kill_job_keep [OF ok] by simp
  have c23: ?thesis if "n = 23" using that r send_return_value_keep [OF ok _ p(4) room] by simp
  have c24: ?thesis if "24 \<le> n" using that r recv_keep(2) [OF ok] by (simp split: if_splits)
  note low = c0 c1 c2 c3 c4 c5 c6 c7 and mid = c8 c9 c10 c11 c12 c13 c14 c15
    and high = c16 c17 c18 c19 c20 c21 c22 c23
  show ?thesis
  proof (cases "24 \<le> n")
    case True
    then show ?thesis by (rule c24)
  next
    case False
    then have "n \<in> set [0..<24]" by simp
    then show ?thesis using low mid high by (auto simp: upt_rec)
  qed
qed

text \<open>
  \<^verbatim>\<open>do_syscall\<close> as a whole: the trap frame decides the call, and the arguments that it reads from
  the stack are loaded through the page table of the caller.
\<close>

definition call_safe :: "kern \<Rightarrow> bool" where
  "call_safe s \<longleftrightarrow> readable (regs (kstack_tf s) 29 + 16) \<and> readable (regs (kstack_tf s) 29 + 20) \<and>
     (\<forall>a4 s1 a5 s2. kload32 (regs (kstack_tf s) 29 + 16)
           (s\<lparr>kstack_tf := (kstack_tf s)\<lparr>cp0_epc := cp0_epc (kstack_tf s) + 4\<rparr>\<rparr>) = Some (a4, s1) \<longrightarrow>
        kload32 (regs (kstack_tf s) 29 + 20) s1 = Some (a5, s2) \<longrightarrow>
        refs_room s2 \<and> args_safe (nat (sint (regs (kstack_tf s) 4)))
          (regs (kstack_tf s) 5) (regs (kstack_tf s) 6) (regs (kstack_tf s) 7) a4 a5 s2)"

lemma do_syscall_keep:
  assumes ok: "ok s q" and safe: "call_safe s" and r: "do_syscall h s = Some (r, s')"
  shows "\<exists>q'. ok s' q'"
proof -
  let ?tf = "kstack_tf s"
  have v0: "ok (set_v0 v s1) q'" if "ok s1 q'" for v s1 q'
    by (rule ok_same_envs [OF that]) (simp_all add: set_v0_def)
  show ?thesis
  proof (cases "sint (regs ?tf 4) < 0 \<or> sint (regs ?tf 4) \<ge> int MAX_SYSNO")
    case True
    with r v0 [OF ok] show ?thesis by (auto simp: do_syscall_def Let_def)
  next
    case False
    let ?s0 = "s\<lparr>kstack_tf := ?tf\<lparr>cp0_epc := cp0_epc ?tf + 4\<rparr>\<rparr>"
    have o0: "ok ?s0 q" by (rule ok_same_envs [OF ok]) simp_all
    from False r obtain a4 s1 a5 s2 v s3 where
      l: "kload32 (regs ?tf 29 + 16) ?s0 = Some (a4, s1)" "kload32 (regs ?tf 29 + 20) s1 = Some (a5, s2)"
      and c: "syscall_table (nat (sint (regs ?tf 4))) h (regs ?tf 5) (regs ?tf 6) (regs ?tf 7) a4 a5 s2 = Some (v, s3)"
      and s'': "(case v of Returns v \<Rightarrow> Some (Returns (), set_v0 (ret_word v) s3) | Switched \<Rightarrow> Some (Switched, s3)) = Some (r, s')"
      by (auto simp: do_syscall_def Let_def split: bind_splits)
    from s'' have s': "s' = s3 \<or> (\<exists>w. s' = set_v0 w s3)" by (cases v) auto
    have rd: "readable (regs ?tf 29 + 16)" "readable (regs ?tf 29 + 20)" using safe by (auto simp: call_safe_def)
    from okD(5) [OF o0] obtain c0 where c0: "curenv ?s0 = Some c0" by blast
    note k1 = kload32_step [OF okD(1) [OF o0] c0 rd(1) l(1)]
    have o1: "ok s1 q" by (rule ok_kmem [OF o0 k1])
    have o2: "ok s2 q" by (rule ok_kmem [OF o1 kload32_step [OF kmem_stepD [OF k1 c0] rd(2) l(2)]])
    from safe l have "refs_room s2" "args_safe (nat (sint (regs ?tf 4))) (regs ?tf 5) (regs ?tf 6) (regs ?tf 7) a4 a5 s2"
      unfolding call_safe_def by blast+
    from syscall_table_keep [OF o2 this c] obtain q' where "ok s3 q'" by blast
    with s' v0 show ?thesis by blast
  qed
qed

section \<open>Runs of the kernel\<close>

text \<open>
  A step: the running environment computes, so that the next trap finds another trap frame on
  the kernel stack, and then makes a system call, writes to a page without \<^verbatim>\<open>PTE_D\<close>, or is stopped by a timer interrupt or a
  TLB miss.
\<close>

inductive kstep :: "kern \<Rightarrow> kern \<Rightarrow> bool" where
  Syscall: "call_safe (s\<lparr>kstack_tf := tf\<rparr>) \<Longrightarrow> do_syscall h (s\<lparr>kstack_tf := tf\<rparr>) = Some (r, s') \<Longrightarrow> kstep s s'"
| Timer: "schedule False (s\<lparr>kstack_tf := tf\<rparr>) = Some s' \<Longrightarrow> kstep s s'"
| Mod: "do_tlb_mod (s\<lparr>kstack_tf := tf\<rparr>) = Some s' \<Longrightarrow> kstep s s'"
| Refill: "va < UTOP \<Longrightarrow> do_tlb_refill va asid (s\<lparr>kstack_tf := tf\<rparr>) = Some (r, s') \<Longrightarrow> kstep s s'"

inductive_cases kstepE: "kstep s s'"

lemma refill_keep:
  assumes ok: "ok s q" and va: "va < UTOP" and r: "do_tlb_refill va asid s = Some (r, s')"
  shows "ok s' q"
proof -
  let ?s = "tlb_invalidate asid va s"
  have o: "ok ?s q" by (rule ok_same_envs [OF ok]) simp_all
  from r obtain ptr where l: "refill_loop va asid ?s = Some (ptr, s')"
    by (auto simp: do_tlb_refill_def Let_def split: bind_splits)
  from okD(5) [OF o] obtain c where c: "curenv ?s = Some c" by blast
  from refill_loop_ok [OF okD(1) [OF o] c va l] show ?thesis using ok_more [OF o] by blast
qed

lemma kstores32_step:
  assumes "kinv s q" "curenv s = Some c" "\<forall>i < length ws. va + 4 * of_nat i < UTOP" "kstores32 va ws s = Some s'"
  shows "kmem_step s s' q"
  using assms
proof (induction va ws s arbitrary: s' rule: kstores32.induct)
  case (1 va s)
  then show ?case by (auto simp: kmem_step_def)
next
  case (2 va w ws s)
  from "2.prems"(4) obtain s1 where l: "kstore32 va w s = Some s1" "kstores32 (va + 4) ws s1 = Some s'"
    by (auto split: bind_splits)
  have r0: "va < UTOP" using "2.prems"(3) by force
  note 1 = kstore32_step [OF "2.prems"(1,2) r0 l(1)]
  have "va + 4 + 4 * of_nat i < UTOP" if "i < length ws" for i
    using "2.prems"(3) [rule_format, of "Suc i"] that by (simp add: algebra_simps)
  with "2.IH" [OF l(1) kmem_stepD [OF 1 "2.prems"(2)] _ l(2)] 1 show ?case
    by (blast intro: kmem_step_trans)
qed

lemma page_lookup_state: "page_lookup d va s = Some (r, s') \<Longrightarrow> s' = s"
  by (auto simp: page_lookup_def pgdir_walk_def Let_def split: bind_splits if_splits sum.splits option.splits)

text \<open>The exception stack lies below \<^verbatim>\<open>UTOP\<close>, so that the saved frame does too.\<close>

lemma tlb_mod_sp:
  fixes p :: u32
  assumes "i < 38" "USTACKTOP \<le> p" "p \<le> UTOP"
  shows "p - 152 + 4 * of_nat i < UTOP"
proof -
  have p: "2134892544 \<le> unat p" "unat p \<le> 2134900736"
    using assms(2,3) by (simp_all add: mos_consts word_le_nat_alt)
  have u: "unat (p - 152) = unat p - 152"
    using p(1) by (subst unat_sub) (simp_all add: word_le_nat_alt)
  have i: "unat (4 * of_nat i :: u32) = 4 * i"
    using unat_of_nat_u32 [of "4 * i"] assms by simp
  have "unat (p - 152 + 4 * of_nat i) = unat p - 152 + 4 * i"
    using p assms(1) by (simp add: unat_plus_if' u i)
  then show ?thesis using p assms(1) by (simp add: word_less_nat_alt mos_consts)
qed

lemma tlb_mod_keep:
  assumes ok: "ok s q" and r: "do_tlb_mod s = Some s'"
  shows "ok s' q"
proof -
  let ?tf = "kstack_tf s"
  define p where "p = (if regs ?tf 29 < USTACKTOP \<or> regs ?tf 29 \<ge> UXSTACKTOP then UXSTACKTOP else regs ?tf 29)"
  have pb: "USTACKTOP \<le> p" "p \<le> UTOP" by (auto simp: p_def mos_consts word_le_nat_alt word_less_nat_alt)
  from okD(5) [OF ok] obtain c where c: "curenv s = Some c" by blast
  note r = r [unfolded do_tlb_mod_def Let_def p_def [symmetric]]
  from r obtain s1 where l1: "kstores32 (p - 152) (tf_words ?tf) s = Some s1"
    by (cases "kstores32 (p - 152) (tf_words ?tf) s") auto
  from r l1 obtain x s2 where l2: "page_lookup (cur_pgdir s1) (cp0_badvaddr ?tf) s1 = Some (x, s2)"
    by (cases "page_lookup (cur_pgdir s1) (cp0_badvaddr ?tf) s1") auto
  from r l1 l2 have s': "\<exists>tf. s' = s2\<lparr>kstack_tf := tf\<rparr>" by (auto split: bind_splits if_split_asm)
  have "\<forall>i < length (tf_words ?tf). p - 152 + 4 * of_nat i < UTOP"
    using tlb_mod_sp [OF _ pb] by (simp add: tf_words_def)
  from ok_kmem [OF ok kstores32_step [OF okD(1) [OF ok] c this l1]] have "ok s2 q"
    using page_lookup_state [OF l2] by simp
  then show ?thesis using s' ok_same_envs [of s2 q s'] by auto
qed

lemma kstep_keep:
  assumes ok: "ok s q" and st: "kstep s s'"
  shows "\<exists>q'. ok s' q'"
proof -
  have tf: "ok (s\<lparr>kstack_tf := tf\<rparr>) q" for tf by (rule ok_same_envs [OF ok]) simp_all
  from st show ?thesis
  proof (cases rule: kstep.cases)
    case (Syscall tf h r)
    from do_syscall_keep [OF tf this] show ?thesis .
  next
    case (Timer tf)
    from yield_ok [OF tf this] show ?thesis .
  next
    case (Mod tf)
    from tlb_mod_keep [OF tf this] show ?thesis by blast
  next
    case (Refill va asid tf r)
    from refill_keep [OF tf this] show ?thesis by blast
  qed
qed

lemma reachable_ok:
  assumes "kstep\<^sup>*\<^sup>* s s'" "ok s q"
  shows "\<exists>q'. ok s' q'"
  using assms
proof (induction arbitrary: q rule: converse_rtranclp_induct)
  case base
  then show ?case by blast
next
  case (step y z)
  from kstep_keep [OF step.prems step.hyps(1)] step.IH show ?case by blast
qed

end
