(* ===== verification/Kernel_Props.thy ===== *)
theory Kernel_Props
  imports Kernel
begin

unbundle bit_operations_syntax

text \<open>
  The properties of the kernel, each with a small machine on which its hypotheses hold: three
  environments, of which 0 runs, 1 waits for a message and 2 is runnable; 1 and 2 are children
  of 0.
\<close>

section \<open>A small machine\<close>

definition tf_zero :: Trapframe where
  "tf_zero = \<lparr>regs = (\<lambda>_. 0), cp0_status = 0, tf_hi = 0, tf_lo = 0, cp0_badvaddr = 0, cp0_cause = 0, cp0_epc = 0\<rparr>"

definition env_zero :: Env where
  "env_zero = \<lparr>env_tf = tf_zero, env_id = 0, env_asid = 0, env_parent_id = 0, env_status = 0, env_pgdir = 0,
     env_pri = 1, env_ipc_value = 0, env_ipc_from = 0, env_ipc_recving = 0, env_ipc_dstva = 0, env_ipc_perm = 0,
     env_user_tlb_mod_entry = 0, env_runs = 0, waiting_return_value = 0, return_value = 0\<rparr>"

definition small_envs :: "nat \<Rightarrow> Env" where
  "small_envs =
     (\<lambda>_. env_zero)(0 := env_zero\<lparr>env_id := 0x800, env_asid := 0, env_status := 1, env_pgdir := 2\<rparr>,
       1 := env_zero\<lparr>env_id := 0x1001, env_asid := 1, env_parent_id := 0x800, env_status := 2, env_pgdir := 3,
              env_ipc_recving := 1, env_ipc_dstva := 0x400000\<rparr>,
       2 := env_zero\<lparr>env_id := 0x1802, env_asid := 2, env_parent_id := 0x800, env_status := 1, env_pgdir := 4\<rparr>)"

definition kern_small :: kern where
  "kern_small = \<lparr>memsize = 0x10000, npage = 16, freemem = 0x80002000,
     page_free_list = fold LIST_INSERT_HEAD [5..<16] (LIST_INIT llist_zero),
     pp_ref = (\<lambda>p. if p < 5 then 1 else 0), pm = (\<lambda>_ _. 0), tlb = (\<lambda>_. None),
     envs = small_envs, curenv = Some 0,
     env_free_list = fold LIST_INSERT_HEAD [3..<NENV] (LIST_INIT llist_zero),
     env_sched_list = TAILQ_INSERT_HEAD 0 (TAILQ_INSERT_HEAD 2 (TAILQ_INIT tailq_zero)),
     base_pgdir = 1, asid_bitmap = (\<lambda>i. if i = 0 then 7 else 0), mkenvid_i = 3,
     jobs = (\<lambda>_. \<lparr>job_id = 0, job_status = 0, job_envid = 0, job_cmd = []\<rparr>), jobCnt = 0,
     sched_count = 1, cur_pgdir = 2, kstack_tf = tf_zero, user_tf = tf_zero, user_asid = 0, kout = []\<rparr>"

lemma small_env [simp]:
  "small_envs 0 = env_zero\<lparr>env_id := 0x800, env_asid := 0, env_status := 1, env_pgdir := 2\<rparr>"
  "small_envs 1 = env_zero\<lparr>env_id := 0x1001, env_asid := 1, env_parent_id := 0x800, env_status := 2, env_pgdir := 3,
              env_ipc_recving := 1, env_ipc_dstva := 0x400000\<rparr>"
  "small_envs (Suc 0) = env_zero\<lparr>env_id := 0x1001, env_asid := 1, env_parent_id := 0x800, env_status := 2, env_pgdir := 3,
              env_ipc_recving := 1, env_ipc_dstva := 0x400000\<rparr>"
  "small_envs 2 = env_zero\<lparr>env_id := 0x1802, env_asid := 2, env_parent_id := 0x800, env_status := 1, env_pgdir := 4\<rparr>"
  "3 \<le> e \<Longrightarrow> small_envs e = env_zero"
  by (simp_all add: small_envs_def)

lemma small_cases: "e = 0 \<or> e = 1 \<or> e = 2 \<or> 3 \<le> (e :: nat)"
  by auto

lemma kern_small_simps [simp]:
  "npage kern_small = 16" "pp_ref kern_small = (\<lambda>p. if p < 5 then 1 else 0)" "pm kern_small = (\<lambda>_ _. 0)"
  "envs kern_small = small_envs" "curenv kern_small = Some 0" "cur_pgdir kern_small = 2"
  "sched_count kern_small = 1" "kstack_tf kern_small = tf_zero" "mkenvid_i kern_small = 3"
  "jobCnt kern_small = 0" "asid_bitmap kern_small = (\<lambda>i. if i = 0 then 7 else 0)"
  "env_sched_list kern_small = TAILQ_INSERT_HEAD 0 (TAILQ_INSERT_HEAD 2 (TAILQ_INIT tailq_zero))"
  by (simp_all add: kern_small_def)

lemma small_status:
  "env_status (small_envs e) = (if e = 0 \<or> e = 2 then 1 else if e = 1 then 2 else 0)"
  using small_cases [of e] by (auto simp: env_zero_def)

lemma small_live: "live kern_small = {0, 1, 2}"
  by (auto simp: live_def small_status mos_consts split: if_splits)

lemma small_dirs: "dirs kern_small = {2, 3, 4}"
  by (simp add: dirs_def small_live pgdir_of_def insert_commute)

lemma small_free: "lrep (page_free_list kern_small) (rev [5..<16])"
proof -
  have "lrep (fold LIST_INSERT_HEAD [5..<16] (LIST_INIT llist_zero)) (rev [5..<16] @ [])"
    by (rule ll.rep_fold_insert [OF lrep_INIT]) simp_all
  then show ?thesis by (simp add: kern_small_def)
qed

lemma small_vm: "vm_inv kern_small {2, 3, 4} (\<lambda>p. if p < 5 then 1 else 0) (rev [5..<16])"
  by (rule vm_inv_blank) (use small_free in \<open>auto simp: free_ok_def\<close>)

lemma kern_small_kinv: "kinv kern_small [0, 2]"
proof -
  have "lrep (fold LIST_INSERT_HEAD [3..<NENV] (LIST_INIT llist_zero)) (rev [3..<NENV] @ [])"
    by (rule ll.rep_fold_insert [OF lrep_INIT]) simp_all
  then have fl: "lrep (env_free_list kern_small) (rev [3..<NENV])" by (simp add: kern_small_def)
  have "mem_ok kern_small"
    using small_vm by (auto simp: mem_ok_def small_live small_dirs inj_on_def pgdir_of_def env_zero_def)
  moreover have "free_envs_ok kern_small"
    unfolding free_envs_ok_def
    by (rule exI, rule conjI, rule fl) (auto simp: small_status ENV_FREE_def split: if_splits)
  moreover have "tqrep (env_sched_list kern_small) [0, 2]"
    unfolding kern_small_simps by (intro tqrep_INSERT_HEAD tqrep_INIT) simp_all
  moreover have "{e. e < NENV \<and> env_status (small_envs e) = ENV_RUNNABLE} = {0, 2}"
    unfolding small_status by (auto simp: mos_consts split: if_splits)
  ultimately have "mem_ok kern_small" "free_envs_ok kern_small" "sched_ok kern_small [0, 2]"
    by (simp_all add: sched_ok_def)
  moreover have a: "asid_of kern_small 0 = 0" "asid_of kern_small (Suc 0) = 1" "asid_of kern_small 2 = 2"
    by (simp_all add: asid_of_def env_zero_def)
  have "asids_ok kern_small"
    unfolding asids_ok_def small_live by (simp add: inj_on_def a asid_used_def NASID_def)
  moreover have "ids_ok kern_small"
    by (auto simp: ids_ok_def small_live ENVX_eq env_zero_def)
  moreover have "cur_ok kern_small"
    by (simp add: cur_ok_def small_live pgdir_of_def env_zero_def)
  ultimately show ?thesis by (simp add: kinv_def kinv0_def)
qed

lemma kern_small_waits: "waits_ok kern_small" "dst_ok kern_small" "running kern_small" "refs_room kern_small"
proof -
  have "status_ok (small_envs e)" for e
    using small_cases [of e] by (auto simp: status_ok_def waiting_def env_zero_def mos_consts)
  then show "waits_ok kern_small" by (simp add: waits_ok_def)
  have "env_ipc_dstva (small_envs e) < UTOP" for e
    using small_cases [of e] by (auto simp: env_zero_def mos_consts)
  then show "dst_ok kern_small" by (simp add: dst_ok_def)
  show "running kern_small" by (simp add: running_def env_zero_def mos_consts)
  show "refs_room kern_small" by (simp add: refs_room_def)
qed

lemma kern_small_ok: "ok kern_small [0, 2]"
  using kern_small_kinv kern_small_waits by (simp add: ok_def)

section \<open>Runs\<close>


lemma small_timer: "\<exists>s'. schedule False (kern_small\<lparr>kstack_tf := tf_zero\<rparr>) = Some s' \<and> curenv s' = Some 0"
proof -
  let ?s = "kern_small\<lparr>kstack_tf := tf_zero\<rparr>"
  have "ok ?s [0, 2]" by (rule ok_same_envs [OF kern_small_ok]) simp_all
  then have "kinv0 ?s [0, 2]" "cur_bound ?s" by (auto simp: ok_def kinv_def intro: kinv_cur_bound)
  from schedule_ok [OF this, of False] show ?thesis
    by (auto simp: next_env_def resched_def env_zero_def mos_consts)
qed



lemma small_refill:
  "\<exists>ptr s' pp. kstep kern_small s' \<and> do_tlb_refill 0x400000 0 (kern_small\<lparr>kstack_tf := tf_zero\<rparr>) = Some (ptr, s') \<and>
    as_map s' 2 (vaddr 0x400000) = Some (mkpte pp PTE_D) \<and> live s' = {0, 1, 2} \<and> pgdir_of s' 0 = 2"
proof -
  let ?s = "tlb_invalidate 0 0x400000 (kern_small\<lparr>kstack_tf := tf_zero\<rparr>)"
  have "ok ?s [0, 2]" by (rule ok_same_envs [OF kern_small_ok]) simp_all
  then have inv: "kinv ?s [0, 2]" by (simp add: ok_def)
  have c: "curenv ?s = Some 0" by simp
  have u: "(0x400000 :: u32) < UTOP" and pv: "passive_va 0x400000" by (simp_all add: passive_va_def mos_consts)
  have f: "free_pages ?s 2"
    unfolding free_pages_def by (rule exI [of _ "rev [5..<16]"]) (use small_free in simp)
  from refill_loop_total [OF inv c u] pv f obtain ptr s' where
    l: "refill_loop 0x400000 0 ?s = Some (ptr, s')" by fastforce
  from refill_loop_ok [OF inv c u l] have k: "pmap.more s' = pmap.more ?s" "faulted ?s s' 0 0x400000" by auto
  have d: "dirs ?s = {2, 3, 4}" "pgdir_of ?s 0 = 2" "env_pgdir (envs ?s 0) = 2"
    using small_dirs by (simp_all add: dirs_def live_def pgdir_of_def env_zero_def)
  have "as_map ?s 2 (vaddr 0x400000) = None" by (simp add: as_map_def vaddr_def has_tab_def)
  with k(2) d obtain pp where p: "as_map s' 2 (vaddr 0x400000) = Some (mkpte pp PTE_D)"
    by (auto simp: faulted_def maps_to_def)
  note km = kern_more [OF k(1)]
  have "do_tlb_refill 0x400000 0 (kern_small\<lparr>kstack_tf := tf_zero\<rparr>) =
      Some ((drop_bit 6 (pm s' (fst ptr) (snd ptr - snd ptr mod 2)),
        drop_bit 6 (pm s' (fst ptr) (snd ptr - snd ptr mod 2 + 1))), s')"
    using l by (simp add: do_tlb_refill_def Let_def split: prod.split)
  moreover from this have "kstep kern_small s'" by (rule Refill [OF u])
  moreover have "live s' = {0, 1, 2}" "pgdir_of s' 0 = 2"
    using small_live km(1) d by (simp_all add: live_def pgdir_of_def)
  ultimately show ?thesis using p by blast
qed


end
