(* ===== verification/Call_Props.thy ===== *)
theory Call_Props
  imports Kernel_Props
begin

unbundle bit_operations_syntax

text \<open>
  What the single system calls do, on every branch: memory, environments, messages, and which
  environments a caller can affect.
\<close>

section \<open>Memory\<close>

text \<open>
  C18. \<^verbatim>\<open>sys_mem_alloc\<close> always returns. On success exactly one page of exactly one address space
  changes, that of an environment the caller may control (itself or a child), and the page
  mapped there was mapped nowhere before; the result is \<^verbatim>\<open>E_INVAL\<close> exactly for an illegal address,
  then \<^verbatim>\<open>E_BAD_ENV\<close> for an environment that does not exist or is not the caller's, and \<^verbatim>\<open>E_NO_MEM\<close>
  otherwise, and no error changes any address space.
\<close>

theorem sys_mem_alloc_correct:
  assumes "kinv s q" "curenv s = Some c" "perm < 4096"
  shows "\<exists>r s'. sys_mem_alloc envid va perm s = Some (Returns r, s') \<and> kinv s' q \<and>
    (case r of
       Inr v \<Rightarrow> v = 0 \<and> \<not> is_illegal_va va \<and>
         (\<exists>e pp. envid2env envid True s = Some (Inr e) \<and> may_control s e \<and>
            maps s (dirs s) pp = {} \<and> maps_to s s' e va (Some (mkpte pp perm)))
     | Inl er \<Rightarrow> same_as s s' \<and>
         (if is_illegal_va va then er = E_INVAL
          else if envid2env envid True s = Some (Inl E_BAD_ENV) then er = E_BAD_ENV else er = E_NO_MEM))"
  using sys_mem_alloc_ok [OF assms, of envid va] by blast

theorem sys_mem_alloc_correct_witness:
  "\<exists>r s'. sys_mem_alloc 0x1802 0x400000 PTE_D kern_small = Some (Returns r, s') \<and> kinv s' [0, 2] \<and>
     (r = Inr 0 \<or> r = Inl E_NO_MEM)"
proof -
  have l: "\<not> is_illegal_va 0x400000" by (simp add: is_illegal_va_def mos_consts)
  have e: "envid2env 0x1802 True kern_small = Some (Inr 2)"
    by (simp add: envid2env_def ENVX_eq env_zero_def mos_consts)
  from sys_mem_alloc_correct [OF kern_small_kinv, of 0 PTE_D "0x1802" "0x400000"] l e show ?thesis
    by (simp, elim exE conjE) (rename_tac r s', case_tac r, auto)
qed



text \<open>
  \<^verbatim>\<open>sys_mem_unmap\<close> always returns. On success the address is unmapped in the one address space
  of an environment that the caller may control, and every other mapping is unchanged; on an
  error the state of the kernel is unchanged.
\<close>

theorem sys_mem_unmap_correct:
  assumes "kinv s q" "curenv s = Some c"
  shows "\<exists>r s'. sys_mem_unmap envid va s = Some (Returns r, s') \<and> kinv s' q \<and>
    (case r of
       Inr v \<Rightarrow> v = 0 \<and> \<not> is_illegal_va va \<and>
         (\<exists>e. envid2env envid True s = Some (Inr e) \<and> may_control s e \<and> maps_to s s' e va None)
     | Inl er \<Rightarrow> s' = s \<and> er = (if is_illegal_va va then E_INVAL else E_BAD_ENV))"
  using sys_mem_unmap_ok [OF assms, of envid va] by blast

theorem sys_mem_unmap_correct_witness:
  "\<exists>r s'. sys_mem_unmap 0x1001 0x400000 kern_small = Some (Returns r, s') \<and> kinv s' [0, 2]"
  using sys_mem_unmap_correct [OF kern_small_kinv, of 0 "0x1001" "0x400000"] by auto

definition refused :: "kern \<Rightarrow> sysres \<Rightarrow> bool" where
  "refused s r \<longleftrightarrow> r = err E_BAD_ENV s \<or> r = err E_INVAL s"

lemma stranger_refused:
  assumes "curenv s = Some c" "\<not> may_control s (ENVX envid)" "envid \<noteq> 0"
  shows "envid2env envid True s = Some (Inl E_BAD_ENV)"
  using assms by (auto simp: envid2env_def may_control_def Let_def)



section \<open>Environments\<close>

text \<open>
  C16. \<^verbatim>\<open>sys_exofork\<close> always returns. It fails with \<^verbatim>\<open>E_NO_FREE_ENV\<close> or \<^verbatim>\<open>E_NO_MEM\<close>, leaving every live
  environment and address space unchanged, or it returns the identifier of one new environment:
  a child of the caller in a formerly free slot, not runnable, with an empty user address space
  in a fresh directory, and with the registers of the caller except that its result is 0.
\<close>

theorem sys_exofork_correct:
  assumes "kinv s q" "curenv s = Some c"
  shows "\<exists>r s'. sys_exofork s = Some (Returns r, s') \<and> kinv s' q \<and> curenv s' = curenv s \<and>
    (case r of
       Inl er \<Rightarrow> (er = E_NO_FREE_ENV \<or> er = E_NO_MEM) \<and> live s' = live s \<and>
         (\<forall>e \<in> live s. envs s' e = envs s e) \<and> same_as s s'
     | Inr v \<Rightarrow> (\<exists>e. forked s s' c e \<and> v = env_id (envs s' e)))"
proof -
  from sys_exofork_ok [OF assms] obtain r s' where
    "sys_exofork s = Some (Returns r, s')" "kinv s' q" "curenv s' = curenv s"
    "case r of
       Inl er \<Rightarrow> (er = E_NO_FREE_ENV \<or> er = E_NO_MEM) \<and> live s' = live s \<and>
         (\<forall>e \<in> live s. envs s' e = envs s e) \<and> same_as s s' \<and>
         (\<forall>x. ipc_core (envs s' x) = ipc_core (envs s x) \<and> env_status (envs s' x) = env_status (envs s x))
     | Inr v \<Rightarrow> (\<exists>e. forked s s' c e \<and> v = env_id (envs s' e))" by blast
  then show ?thesis by (cases r) auto
qed

theorem sys_exofork_correct_witness:
  "\<exists>r s'. sys_exofork kern_small = Some (Returns r, s') \<and> kinv s' [0, 2] \<and> curenv s' = Some 0"
  using sys_exofork_correct [OF kern_small_kinv, of 0] by auto

text \<open>
  C20. \<^verbatim>\<open>sys_set_env_status\<close> keeps the invariant of the scheduling queue: an environment that becomes
  runnable is appended, one that stops is taken out, one whose status stays keeps its place, and
  any other status or a foreign environment is refused without effect.
\<close>

theorem sys_set_env_status_correct:
  assumes "kinv s q" "waits_ok s" "curenv s = Some c"
  shows "\<exists>r s' q'. sys_set_env_status envid status s = Some (Returns r, s') \<and> kinv s' q' \<and>
    (case r of
       Inr v \<Rightarrow> v = 0 \<and> (status = ENV_RUNNABLE \<or> status = ENV_NOT_RUNNABLE) \<and>
         (\<exists>e. envid2env envid True s = Some (Inr e) \<and> may_control s e \<and>
            envs s' = (envs s)(e := (envs s e)\<lparr>env_status := status\<rparr>) \<and>
            q' = (if env_status (envs s e) = status then q
                  else if status = ENV_RUNNABLE then q @ [e] else remove1 e q))
     | Inl er \<Rightarrow> s' = s \<and> q' = q \<and>
         er = (if status = ENV_RUNNABLE \<or> status = ENV_NOT_RUNNABLE then E_BAD_ENV else E_INVAL))"
proof -
  from sys_set_env_status_ok [OF assms, of envid status] obtain r s' q' where
    k: "sys_set_env_status envid status s = Some (Returns r, s')" "kinv s' q'"
    "case r of
       Inr v \<Rightarrow> v = 0 \<and> (status = ENV_RUNNABLE \<or> status = ENV_NOT_RUNNABLE) \<and>
         (\<exists>e h. envid2env envid True s = Some (Inr e) \<and> may_control s e \<and> q' = queue_after s q e status \<and>
            s' = upd_env e (\<lambda>v. v\<lparr>env_status := status\<rparr>) (s\<lparr>env_sched_list := h\<rparr>))
     | Inl er \<Rightarrow> s' = s \<and> q' = q \<and>
         er = (if status = ENV_RUNNABLE \<or> status = ENV_NOT_RUNNABLE then E_BAD_ENV else E_INVAL)" by blast
  have "case r of
       Inr v \<Rightarrow> v = 0 \<and> (status = ENV_RUNNABLE \<or> status = ENV_NOT_RUNNABLE) \<and>
         (\<exists>e. envid2env envid True s = Some (Inr e) \<and> may_control s e \<and>
            envs s' = (envs s)(e := (envs s e)\<lparr>env_status := status\<rparr>) \<and>
            q' = (if env_status (envs s e) = status then q
                  else if status = ENV_RUNNABLE then q @ [e] else remove1 e q))
     | Inl er \<Rightarrow> s' = s \<and> q' = q \<and>
         er = (if status = ENV_RUNNABLE \<or> status = ENV_NOT_RUNNABLE then E_BAD_ENV else E_INVAL)"
  proof (cases r)
    case (Inl er)
    then show ?thesis using k(3) by simp
  next
    case (Inr v)
    with k(3) obtain e h where e: "v = 0" "status = ENV_RUNNABLE \<or> status = ENV_NOT_RUNNABLE"
      "envid2env envid True s = Some (Inr e)" "may_control s e" "q' = queue_after s q e status"
      "s' = upd_env e (\<lambda>v. v\<lparr>env_status := status\<rparr>) (s\<lparr>env_sched_list := h\<rparr>)" by auto
    have "envs s' = (envs s)(e := (envs s e)\<lparr>env_status := status\<rparr>)" by (simp add: e(6))
    then show ?thesis using Inr e(1-5) unfolding queue_after_def by auto
  qed
  with k(1,2) show ?thesis by blast
qed

theorem sys_set_env_status_correct_witness:
  "\<exists>s'. sys_set_env_status 0x1802 ENV_NOT_RUNNABLE kern_small = Some (Returns (Inr 0), s') \<and> kinv s' [0]"
proof -
  have e: "envid2env 0x1802 True kern_small = Some (Inr 2)" "env_status (small_envs 2) = ENV_RUNNABLE"
    by (simp_all add: envid2env_def ENVX_eq env_zero_def mos_consts)
  have "sys_set_env_status 0x1802 ENV_NOT_RUNNABLE kern_small \<noteq> Some (Returns (Inl E_BAD_ENV), kern_small)"
    using e by (auto simp: sys_set_env_status_def split: bind_splits if_splits)
  with sys_set_env_status_correct [OF kern_small_kinv kern_small_waits(1), of 0 "0x1802" ENV_NOT_RUNNABLE] e show ?thesis
    by (simp, elim exE conjE) (rename_tac r s' q', case_tac r, auto simp: ENV_RUNNABLE_def ENV_NOT_RUNNABLE_def)
qed

section \<open>Messages\<close>

text \<open>
  C14. \<^verbatim>\<open>sys_ipc_try_send\<close> to an environment that waits for a message: the receiver gets the value,
  the sender's identifier and the permission, stops waiting, becomes runnable and is appended to
  the queue; no other environment changes. The page at \<^verbatim>\<open>srcva\<close>, if one is sent, is mapped at the
  address that the receiver asked for and no other mapping changes. If the page is not mapped at
  the sender or memory runs out the error is returned, but the receiver has been woken.
\<close>

theorem sys_ipc_try_send_correct:
  assumes "kinv s q" "waits_ok s" "dst_ok s" "curenv s = Some c"
    "envid2env envid False s = Some (Inr e)" "env_ipc_recving (envs s e) = 1"
    "srcva = 0 \<or> \<not> is_illegal_va srcva" "perm < 4096" "refs_room s"
  shows "\<exists>r s'. sys_ipc_try_send envid val srcva perm s = Some (Returns r, s') \<and> kinv s' (q @ [e]) \<and>
    envs s' = (envs s)(e := (envs s e)\<lparr>env_ipc_value := val, env_ipc_from := env_id (envs s c),
       env_ipc_perm := PTE_V OR perm, env_ipc_recving := 0, env_status := ENV_RUNNABLE\<rparr>) \<and>
    (case r of
       Inr v \<Rightarrow> v = 0 \<and> (if srcva = 0 then same_as s s'
         else (\<exists>pte. as_map s (pgdir_of s c) (vaddr srcva) = Some pte \<and>
                maps_to s s' e (env_ipc_dstva (envs s e)) (Some (mkpte (PPN pte) perm))))
     | Inl er \<Rightarrow> srcva \<noteq> 0 \<and> same_as s s' \<and>
         er = (if as_map s (pgdir_of s c) (vaddr srcva) = None then E_INVAL else E_NO_MEM))"
proof -
  let ?f = "\<lambda>v. v\<lparr>env_ipc_value := val, env_ipc_from := env_id (envs s c),
                env_ipc_perm := PTE_V OR perm, env_ipc_recving := 0\<rparr>"
  have l: "e \<in> live s" by (rule envid2env_ok [OF assms(1,5)])
  have nr: "env_status (envs s e) = ENV_NOT_RUNNABLE"
    by (rule waits_okD(2) [OF assms(2) l]) (simp add: waiting_def assms(6))
  have d: "env_ipc_dstva (envs s e) < UTOP" using assms(3) by (simp add: dst_ok_def)
  have run: "sys_ipc_try_send envid val srcva perm s = deliver e ?f srcva perm s"
    using assms(4-7) by (auto simp: sys_ipc_try_send_def)
  from deliver_ok [OF assms(1,4) l nr d, of ?f srcva perm] assms(7-9) obtain r s' where
    k: "deliver e ?f srcva perm s = Some (Returns r, s')" "kinv s' (q @ [e])" "delivered s s' c e ?f srcva perm r"
    by (auto simp: env_core_def)
  show ?thesis
    by (rule exI [of _ r], rule exI [of _ s']) (use k run in \<open>simp add: delivered_def\<close>)
qed

lemma small_envid1: "envid2env 0x1001 False kern_small = Some (Inr 1)"
  by (simp add: envid2env_def ENVX_eq env_zero_def mos_consts)

theorem sys_ipc_try_send_correct_witness:
  "\<exists>r s'. sys_ipc_try_send 0x1001 42 0 0 kern_small = Some (Returns r, s') \<and> kinv s' [0, 2, 1] \<and>
     env_ipc_value (envs s' 1) = 42"
proof -
  have "env_ipc_recving (envs kern_small 1) = 1" by simp
  from sys_ipc_try_send_correct [OF kern_small_kinv kern_small_waits(1,2) _ small_envid1 this _ _ kern_small_waits(4),
      of 0 0 0 42]
  show ?thesis by (auto simp del: One_nat_def)
qed

text \<open>
  \<^verbatim>\<open>sys_ipc_recv\<close> blocks the caller: it leaves the queue, waits with the given address, will see
  0 as the result of the call, and the next environment of the queue runs. No address space
  changes. An illegal address is refused with \<^verbatim>\<open>E_INVAL\<close>.
\<close>

theorem sys_ipc_recv_correct:
  assumes "kinv s q" "curenv s = Some c" "c \<in> set q" "remove1 c q \<noteq> []"
  shows "if dstva \<noteq> 0 \<and> is_illegal_va dstva then sys_ipc_recv dstva s = Some (Returns (Inl E_INVAL), s)
    else (\<exists>s'. sys_ipc_recv dstva s = Some (Switched, s') \<and> kinv s' (remove1 c q) \<and>
      curenv s' = Some (hd (remove1 c q)) \<and> env_status (envs s' c) = ENV_NOT_RUNNABLE \<and>
      env_ipc_recving (envs s' c) = 1 \<and> env_ipc_dstva (envs s' c) = dstva \<and>
      env_tf (envs s' c) = child_tf (kstack_tf s) \<and> same_as s s' \<and>
      (\<forall>e. e \<noteq> c \<longrightarrow> (\<exists>n. envs s' e = (envs s e)\<lparr>env_runs := n\<rparr>)))"
proof (cases "dstva \<noteq> 0 \<and> is_illegal_va dstva")
  case True
  then show ?thesis by (simp add: sys_ipc_recv_def)
next
  case False
  let ?f = "\<lambda>v. v\<lparr>env_ipc_recving := 1, env_ipc_dstva := dstva\<rparr>"
  from block_current_ok [OF assms, of ?f] obtain s' n where
    k: "block_current ?f s = Some (Switched, s')" "kinv s' (remove1 c q)" "curenv s' = Some (hd (remove1 c q))"
      "envs s' c = (?f (envs s c))\<lparr>env_status := ENV_NOT_RUNNABLE, env_tf := child_tf (kstack_tf s), env_runs := n\<rparr>"
      "\<forall>e. e \<noteq> c \<longrightarrow> (\<exists>n. envs s' e = (envs s e)\<lparr>env_runs := n\<rparr>)" "same_as s s'"
    by (auto simp: env_core_def)
  have "sys_ipc_recv dstva s = Some (Switched, s')" using k(1) False by (auto simp: sys_ipc_recv_def)
  then show ?thesis unfolding if_not_P [OF False] by (intro exI [of _ s']) (simp add: k)
qed

theorem sys_ipc_recv_correct_witness:
  "\<exists>s'. sys_ipc_recv 0x400000 kern_small = Some (Switched, s') \<and> curenv s' = Some 2 \<and>
     env_ipc_recving (envs s' 0) = 1"
proof -
  have "\<not> is_illegal_va 0x400000" by (simp add: is_illegal_va_def mos_consts)
  with sys_ipc_recv_correct [OF kern_small_kinv, of 0 "0x400000"] show ?thesis by auto
qed

text \<open>
  C15. The value of a child: when an environment waits in \<^verbatim>\<open>sys_recv_return_value\<close> and the
  environment that runs next sends it a value with \<^verbatim>\<open>sys_send_return_value\<close>, the waiting one has
  that value, is runnable again and last in the queue, and no longer waits.
\<close>

theorem return_value_rendezvous:
  assumes "ok s q" "curenv s = Some c" "remove1 c q \<noteq> []" "env_id (envs s c) \<noteq> 0" "refs_room s"
  shows "\<exists>s1 s2. sys_recv_return_value s = Some (Switched, s1) \<and>
    sys_send_return_value (env_id (envs s c)) val 0 0 s1 = Some (Returns (Inr 0), s2) \<and>
    kinv s2 (remove1 c q @ [c]) \<and> return_value (envs s2 c) = val \<and> waiting_return_value (envs s2 c) = 0 \<and>
    env_status (envs s2 c) = ENV_RUNNABLE"
proof -
  let ?g = "\<lambda>v. v\<lparr>waiting_return_value := 1\<rparr>"
  from okD(5) [OF assms(1)] assms(2) have c: "c \<in> set q" "c \<in> live s" by auto
  from block_current_ok [OF okD(1) [OF assms(1)] assms(2) c(1) assms(3), of ?g] obtain s1 n where
    k: "block_current ?g s = Some (Switched, s1)" "kinv s1 (remove1 c q)" "curenv s1 = Some (hd (remove1 c q))"
      "envs s1 c = (?g (envs s c))\<lparr>env_status := ENV_NOT_RUNNABLE, env_tf := child_tf (kstack_tf s), env_runs := n\<rparr>"
      "npage s1 = npage s" "pp_ref s1 = pp_ref s"
    by (auto simp: env_core_def)
  have st: "env_status (envs s1 c) = ENV_NOT_RUNNABLE" "waiting_return_value (envs s1 c) = 1"
    "env_id (envs s1 c) = env_id (envs s c)" by (simp_all add: k(4))
  have id: "ENVX (env_id (envs s c)) = c"
    using okD(1) [OF assms(1)] c(2) by (auto simp: kinv_def kinv0_def ids_ok_def)
  have e: "envid2env (env_id (envs s c)) False s1 = Some (Inr c)"
    using assms(4) st by (simp add: envid2env_def id)
  have l: "c \<in> live s1" using st(1) c(2) by (simp add: live_def)
  have d: "env_ipc_dstva (envs s1 c) < UTOP" using okD(3) [OF assms(1)] by (simp add: k(4) dst_ok_def)
  let ?h = "hd (remove1 c q)"
  let ?f = "\<lambda>v. v\<lparr>env_ipc_value := val, env_ipc_from := env_id (envs s1 ?h),
                env_ipc_perm := PTE_V OR 0, env_ipc_recving := 0, waiting_return_value := 0,
                return_value := val\<rparr>"
  have room: "refs_room s1" using assms(5) by (simp add: refs_room_def k(5,6))
  have run: "sys_send_return_value (env_id (envs s c)) val 0 0 s1 = deliver c ?f 0 0 s1"
    using e st(2) k(3) by (simp add: sys_send_return_value_def)
  from deliver_ok [OF k(2,3) l st(1) d, of ?f 0 0] room obtain r s2 where
    d2: "deliver c ?f 0 0 s1 = Some (Returns r, s2)" "kinv s2 (remove1 c q @ [c])" "delivered s1 s2 ?h c ?f 0 0 r"
    by (auto simp: env_core_def)
  have "r = Inr 0" using d2(3) by (cases r) (auto simp: delivered_def)
  moreover have "envs s2 c = (?f (envs s1 c))\<lparr>env_status := ENV_RUNNABLE\<rparr>" using d2(3) by (simp add: delivered_def)
  moreover have "sys_recv_return_value s = Some (Switched, s1)" using k(1) by (simp add: sys_recv_return_value_def)
  ultimately show ?thesis
    using d2(1,2) run by (intro exI [of _ s1] exI [of _ s2]) simp
qed

theorem return_value_rendezvous_witness:
  "\<exists>s1 s2. sys_recv_return_value kern_small = Some (Switched, s1) \<and>
     sys_send_return_value 0x800 7 0 0 s1 = Some (Returns (Inr 0), s2) \<and> return_value (envs s2 0) = 7"
proof -
  have "env_id (envs kern_small 0) = 0x800" by simp
  with return_value_rendezvous [OF kern_small_ok _ _ _ kern_small_waits(4), of 0 7] show ?thesis by auto
qed

text \<open>
  C17. Destroying a runnable environment: it never panics unless the environment is the running one
  and the last that is runnable. Its slot is free afterwards, it is out of the queue, and no
  mapping of any other address space changes; when it destroys itself another one runs.
\<close>

theorem env_destroy_correct:
  assumes "kinv s q" "e \<in> set q" "curenv s = Some e \<Longrightarrow> remove1 e q \<noteq> []"
  shows "\<exists>r s' q'. env_destroy e s = Some (r, s') \<and> kinv s' q' \<and> env_status (envs s' e) = ENV_FREE \<and>
    set q' = set q - {e} \<and> (r = Switched \<longleftrightarrow> curenv s = Some e) \<and>
    (\<forall>d \<in> dirs s'. as_map s' d = as_map s d)"
  using env_destroy_ok [OF assms] by blast

theorem env_destroy_correct_witness:
  "\<exists>s' q'. env_destroy 0 kern_small = Some (Switched, s') \<and> set q' = {2} \<and> kinv s' q'"
  using env_destroy_correct [OF kern_small_kinv, of 0] by auto

end
