(* ===== verification/Sched_Props.thy ===== *)
theory Sched_Props
  imports Call_Props
begin

unbundle bit_operations_syntax

text \<open>
  Properties of the scheduler, of identifiers and of the TLB refill, and inputs on which the
  kernel leaves its invariant.
\<close>

section \<open>Scheduling\<close>

text \<open>
  C4. Round robin and liveness: with the environment at the head of the queue running, the \<open>k\<close>-th
  next yield runs the environment \<open>k\<close> places further in the queue, cyclically. Hence every
  runnable environment runs within as many yields as there are runnable environments.
\<close>

theorem schedule_round_robin:
  assumes "kinv s q" "curenv s = Some (hd q)" "q \<noteq> []"
  shows "\<exists>s'. mfold (\<lambda>_. schedule True) [0..<k] s = Some s' \<and> kinv s' (rotate k q) \<and>
    curenv s' = Some (q ! (k mod length q))"
proof -
  from yields [OF assms, of k] obtain s' where
    s': "mfold (\<lambda>_. schedule True) [0..<k] s = Some s'" "kinv s' (rotate k q)" "curenv s' = Some (hd (rotate k q))"
    by blast
  have "hd (rotate k q) = q ! (k mod length q)" using assms(3) by (rule hd_rotate_conv_nth)
  with s' show ?thesis by simp
qed

theorem schedule_round_robin_witness:
  "\<exists>s'. mfold (\<lambda>_. schedule True) [0..<3] kern_small = Some s' \<and> curenv s' = Some 2"
  using schedule_round_robin [OF kern_small_kinv, of 3] by (auto simp: numeral_2_eq_2 [symmetric])

text \<open>Ticks of the timer while the time slice lasts.\<close>

lemma tick:
  assumes "kinv s q" "curenv s = Some c" "env_status (envs s c) = ENV_RUNNABLE" "sched_count s \<noteq> 0"
  shows "\<exists>s'. schedule False s = Some s' \<and> kinv s' q \<and> curenv s' = Some c \<and>
    sched_count s' = sched_count s - 1 \<and> same_core s s' \<and> env_pri (envs s' e) = env_pri (envs s e)"
proof -
  have r: "\<not> resched s False" using assms(2-4) by (simp add: resched_def)
  have "c \<in> set q" using assms(1-3) by (auto simp: kinv_def kinv0_def sched_ok_def cur_ok_def live_def)
  then have "q \<noteq> []" by auto
  with schedule_ok [of s q False] assms(1) kinv_cur_bound [OF assms(1)] obtain s' where
    s': "schedule False s = Some s'" "kinv s' q" "curenv s' = Some (next_env s False q)" "same_core s s'"
      "sched_count s' = sched_count s - 1" "switched s s'"
    using r by (auto simp: kinv_def)
  have "next_env s False q = c" using r assms(2) by (simp add: next_env_def)
  moreover have "env_pri (envs s' e) = env_pri (envs s e)"
    using s'(6) by (auto simp: switched_def dest: spec [of _ e])
  ultimately show ?thesis using s' by auto
qed

lemma ticks:
  assumes "kinv s q" "curenv s = Some c" "env_status (envs s c) = ENV_RUNNABLE" "k \<le> unat (sched_count s)"
  shows "\<exists>s'. mfold (\<lambda>_. schedule False) [0..<k] s = Some s' \<and> kinv s' q \<and> curenv s' = Some c \<and>
    sched_count s' = sched_count s - of_nat k \<and> (\<forall>e. env_status (envs s' e) = env_status (envs s e)) \<and>
    (\<forall>e. env_pri (envs s' e) = env_pri (envs s e))"
  using assms(4)
proof (induction k)
  case 0
  then show ?case using assms(1,2) by simp
next
  case (Suc k)
  then obtain s1 where s1: "mfold (\<lambda>_. schedule False) [0..<k] s = Some s1" "kinv s1 q" "curenv s1 = Some c"
    "sched_count s1 = sched_count s - of_nat k" "\<forall>e. env_status (envs s1 e) = env_status (envs s e)"
    "\<forall>e. env_pri (envs s1 e) = env_pri (envs s e)" by auto
  have "unat (of_nat k :: u32) = k" using Suc.prems unsigned_less [of "sched_count s", where ?'a = nat]
    by (intro unat_of_nat_u32) simp
  then have n0: "sched_count s1 \<noteq> 0" using s1(4) Suc.prems by auto
  from tick [OF s1(2,3) _ n0] s1(5) assms(3) obtain s2 where
    s2: "schedule False s1 = Some s2" "kinv s2 q" "curenv s2 = Some c" "sched_count s2 = sched_count s1 - 1" "same_core s1 s2"
    by auto
  have "env_status (envs s2 e) = env_status (envs s1 e)" for e
    using same_core_live(5) s2(5) by (simp add: same_core_def)
  moreover have "env_pri (envs s2 e) = env_pri (envs s1 e)" for e
    using tick [OF s1(2,3) _ n0, of e] s1(5) assms(3) s2(1) by auto
  moreover have "sched_count s2 = sched_count s - of_nat (Suc k)" unfolding s2(4) s1(4) by simp
  ultimately show ?case using s1 s2 by (simp add: mfold_append)
qed

text \<open>
  Time slices: the running environment keeps the processor for the \<^verbatim>\<open>count\<close> timer ticks of its
  slice, and on the next tick it goes to the end of the queue, the environment now first in the
  queue runs and gets a slice of its priority (the tick itself counts).
\<close>

theorem schedule_time_slice:
  assumes "kinv s q" "curenv s = Some c" "env_status (envs s c) = ENV_RUNNABLE"
  shows "\<exists>s1 s2. mfold (\<lambda>_. schedule False) [0..<unat (sched_count s)] s = Some s1 \<and> curenv s1 = Some c \<and>
    schedule False s1 = Some s2 \<and> kinv s2 (remove1 c q @ [c]) \<and> curenv s2 = Some (hd (remove1 c q @ [c])) \<and>
    sched_count s2 = env_pri (envs s (hd (remove1 c q @ [c]))) - 1"
proof -
  from ticks [OF assms order_refl] obtain s1 where s1:
    "mfold (\<lambda>_. schedule False) [0..<unat (sched_count s)] s = Some s1" "kinv s1 q" "curenv s1 = Some c"
    "sched_count s1 = 0" "\<forall>e. env_status (envs s1 e) = env_status (envs s e)"
    "\<forall>e. env_pri (envs s1 e) = env_pri (envs s e)" by auto
  have r: "resched s1 False" "rotated s1 q = remove1 c q @ [c]"
    using s1(3-5) assms(3) by (simp_all add: resched_def rotated_def)
  have "c \<in> set q" using assms by (auto simp: kinv_def kinv0_def sched_ok_def cur_ok_def live_def)
  then have "q \<noteq> []" by auto
  with schedule_ok [of s1 q False] s1(2) kinv_cur_bound [OF s1(2)] r obtain s2 where
    "schedule False s1 = Some s2" "kinv s2 (remove1 c q @ [c])" "curenv s2 = Some (hd (remove1 c q @ [c]))"
    "sched_count s2 = env_pri (envs s1 (hd (remove1 c q @ [c]))) - 1"
    by (auto simp: kinv_def next_env_def)
  with s1 show ?thesis by auto
qed

theorem schedule_time_slice_witness:
  "\<exists>s1 s2. mfold (\<lambda>_. schedule False) [0..<1] kern_small = Some s1 \<and> curenv s1 = Some 0 \<and>
     schedule False s1 = Some s2 \<and> curenv s2 = Some 2"
proof -
  have "env_status (envs kern_small 0) = ENV_RUNNABLE" by (simp add: env_zero_def mos_consts)
  from schedule_time_slice [OF kern_small_kinv _ this] show ?thesis by auto
qed

text \<open>
  \<^verbatim>\<open>schedule\<close> panics exactly when no environment is runnable.
\<close>

theorem schedule_panics_iff:
  assumes "kinv s q"
  shows "schedule yield s = None \<longleftrightarrow> (\<forall>e < NENV. env_status (envs s e) \<noteq> ENV_RUNNABLE)"
proof (cases "q = []")
  case True
  with assms have "kinv0 s []" by (simp add: kinv_def)
  with schedule_none [OF this kinv_cur_bound [OF assms]] show ?thesis by (auto simp: kinv0_def sched_ok_def)
next
  case False
  with assms schedule_ok [of s q yield] kinv_cur_bound [OF assms] have "schedule yield s \<noteq> None" by (auto simp: kinv_def)
  moreover obtain e where "e \<in> set q" using False by (cases q) auto
  then have "e < NENV \<and> env_status (envs s e) = ENV_RUNNABLE"
    using assms by (auto simp: kinv_def kinv0_def sched_ok_def)
  ultimately show ?thesis by blast
qed

theorem schedule_panics_iff_witness: "schedule True kern_small \<noteq> None"
proof -
  have "\<not> (\<forall>e < NENV. env_status (envs kern_small e) \<noteq> ENV_RUNNABLE)"
    by (auto simp: env_zero_def mos_consts intro!: exI [of _ 0])
  then show ?thesis using schedule_panics_iff [OF kern_small_kinv, of True] by blast
qed

section \<open>Identifiers\<close>

text \<open>
  Identifiers: \<^verbatim>\<open>envid2env\<close> finds a live environment by its identifier, takes 0 for the caller,
  and refuses every other word with \<^verbatim>\<open>E_BAD_ENV\<close>, in particular the identifiers of environments
  that no longer exist; two live environments never share an identifier.
\<close>

theorem envid2env_correct:
  assumes "kinv s q" "curenv s = Some c"
  shows "(envid2env envid False s = Some (Inr e) \<longleftrightarrow>
      e \<in> live s \<and> (if envid = 0 then e = c else env_id (envs s e) = envid)) \<and>
    ((\<nexists>e. envid2env envid False s = Some (Inr e)) \<longleftrightarrow> envid2env envid False s = Some (Inl E_BAD_ENV)) \<and>
    inj_on (\<lambda>e. env_id (envs s e)) (live s)"
proof -
  have ids: "e \<in> live s \<Longrightarrow> ENVX (env_id (envs s e)) = e" for e
    using assms(1) by (simp add: kinv_def kinv0_def ids_ok_def)
  have cl: "c \<in> live s" using assms by (auto simp: kinv_def cur_ok_def)
  have "envid2env envid False s = Some (Inr e) \<longleftrightarrow>
      e \<in> live s \<and> (if envid = 0 then e = c else env_id (envs s e) = envid)"
    using assms(2) cl ids [of e] ENVX_less [of envid]
    by (auto simp: envid2env_def Let_def live_def split: if_splits)
  moreover have "inj_on (\<lambda>e. env_id (envs s e)) (live s)"
    by (rule inj_on_inverseI [of _ ENVX]) (rule ids)
  moreover from envid2env_some [OF assms(2), of envid False] obtain r where "envid2env envid False s = Some r" by blast
  then have "(\<nexists>e. envid2env envid False s = Some (Inr e)) \<longleftrightarrow> envid2env envid False s = Some (Inl E_BAD_ENV)"
    using envid2env_err [of envid False s] by (cases r) auto
  ultimately show ?thesis by blast
qed

theorem envid2env_correct_witness:
  "envid2env 0x1802 False kern_small = Some (Inr 2) \<and> envid2env 0x2802 False kern_small = Some (Inl E_BAD_ENV)"
proof -
  have l: "2 \<in> live kern_small" by (simp add: small_live)
  have id: "env_id (small_envs 2) = 0x1802" by simp
  have "envid2env 0x1802 False kern_small = Some (Inr 2)"
    using envid2env_correct [OF kern_small_kinv, of 0 "0x1802" 2] l id by simp
  moreover have "envid2env 0x2802 False kern_small \<noteq> Some (Inr e)" for e
    using envid2env_correct [OF kern_small_kinv, of 0 "0x2802" e] by (auto simp: small_live)
  then have "envid2env 0x2802 False kern_small = Some (Inl E_BAD_ENV)"
    using envid2env_correct [OF kern_small_kinv, of 0 "0x2802" 0] by simp
  ultimately show ?thesis by blast
qed

section \<open>TLB refill\<close>

text \<open>
  C13. The refill loop terminates: on a mapped address at once and without changing an address
  space, and on an unmapped address in the part of the address space that is allocated on
  demand, given two free pages, after mapping one page that was mapped nowhere, writable, in the
  address space of the running environment and nothing else. The entry it finds is the mapping
  of the address.
\<close>

theorem refill_terminates:
  assumes "kinv s q" "curenv s = Some c" "va < UTOP"
    "as_map s (pgdir_of s c) (vaddr va) \<noteq> None \<or> passive_va va \<and> free_pages s 2"
  shows "\<exists>pt k s'. refill_loop va asid s = Some ((pt, k), s') \<and> kinv s' q \<and>
    as_map s' (pgdir_of s c) (vaddr va) = Some (pm s' pt k) \<and>
    (if as_map s (pgdir_of s c) (vaddr va) = None
     then (\<exists>pp. maps s (dirs s) pp = {} \<and> maps_to s s' c va (Some (mkpte pp PTE_D))) else s' = s)"
proof -
  from refill_loop_total [OF assms, of asid] obtain pt k s' where
    r: "refill_loop va asid s = Some ((pt, k), s')" by fastforce
  from refill_loop_ok [OF assms(1-3) r] r show ?thesis by (auto simp: faulted_def)
qed

theorem refill_terminates_witness:
  "\<exists>pt k s'. refill_loop 0x400000 0 kern_small = Some ((pt, k), s') \<and>
     as_map s' 2 (vaddr 0x400000) = Some (pm s' pt k)"
proof -
  have u: "(0x400000 :: u32) < UTOP" "passive_va 0x400000" by (simp_all add: passive_va_def mos_consts)
  have f: "free_pages kern_small 2"
    unfolding free_pages_def by (rule exI [of _ "rev [5..<16]"]) (use small_free in simp)
  have "pgdir_of kern_small 0 = 2" by (simp add: pgdir_of_def)
  with refill_terminates [OF kern_small_kinv _ u(1), of 0 0] u(2) f show ?thesis by auto
qed

section \<open>Inputs outside of the contract\<close>

text \<open>
  The range check of the device calls wraps around: the last word of the 32-bit physical
  address space, far outside of both devices, passes it, so that \<^verbatim>\<open>sys_write_dev\<close> stores there.
\<close>

theorem write_dev_range_wraps:
  assumes "kload32 va s = Some (w, s')" "\<not> is_illegal_va_range va 4"
  shows "sys_write_dev va 0xFFFFFFFC 4 s = Some (Returns (Inr 0), printk (Dev_write 0xFFFFFFFC 4 w) s')"
  using assms by (simp add: sys_write_dev_def dev_range_def mos_consts)

theorem write_dev_range_wraps_witness:
  "\<exists>w s'. sys_write_dev 0x400000 0xFFFFFFFC 4 kern_small = Some (Returns (Inr 0), printk (Dev_write 0xFFFFFFFC 4 w) s')"
proof -
  have u: "(0x400000 :: u32) < UTOP" "passive_va 0x400000" "(0x400000 :: u32) < ULIM"
    by (simp_all add: passive_va_def mos_consts)
  have f: "free_pages kern_small 2"
    unfolding free_pages_def by (rule exI [of _ "rev [5..<16]"]) (use small_free in simp)
  from refill_loop_total [OF kern_small_kinv _ u(1), of 0 "user_asid kern_small"] u(2) f obtain pt k s' where
    "refill_loop 0x400000 (user_asid kern_small) kern_small = Some ((pt, k), s')" by auto
  then have "\<exists>w s'. kload32 0x400000 kern_small = Some (w, s')"
    using u(3) by (simp add: kload32_def user_pte_def)
  moreover have "\<not> is_illegal_va_range 0x400000 4" by (simp add: is_illegal_va_range_def mos_consts)
  ultimately show ?thesis using write_dev_range_wraps by blast
qed

text \<open>
  A parent that sets a child runnable while the child waits for a message breaks the
  scheduling queue: the next message to the child inserts it a second time, its link then points
  to itself, and the queue is no list any more.
\<close>

theorem wake_then_send_corrupts_queue:
  "\<exists>s1 s2. sys_set_env_status 0x1001 ENV_RUNNABLE kern_small = Some (Returns (Inr 0), s1) \<and>
     sys_ipc_try_send 0x1001 0 0 0 s1 = Some (Returns (Inr 0), s2) \<and> \<not> (\<exists>q. tqrep (env_sched_list s2) q)"
proof -
  let ?q0 = "TAILQ_INSERT_HEAD 0 (TAILQ_INSERT_HEAD 2 (TAILQ_INIT tailq_zero)) :: nat tailq"
  define q1 where "q1 = the (TAILQ_INSERT_TAIL 1 ?q0)"
  define q2 where "q2 = the (TAILQ_INSERT_TAIL 1 q1)"
  define s1 where "s1 = upd_env 1 (\<lambda>v. v\<lparr>env_status := ENV_RUNNABLE\<rparr>) (kern_small\<lparr>env_sched_list := q1\<rparr>)"
  have q1: "TAILQ_INSERT_TAIL 1 ?q0 = Some q1"
    by (simp add: q1_def TAILQ_INSERT_TAIL_def TAILQ_INSERT_HEAD_def TAILQ_INIT_def tailq_zero_def Let_def)
  have q2: "TAILQ_INSERT_TAIL 1 q1 = Some q2" "lh_first q2 = Some 0" "le_next q2 0 = Some 2" "le_next q2 2 = Some 1"
    "le_next q2 1 = Some 1"
    by (simp_all add: q2_def q1_def TAILQ_INSERT_TAIL_def TAILQ_INSERT_HEAD_def TAILQ_INIT_def tailq_zero_def Let_def)
  have e: "envid2env 0x1001 True kern_small = Some (Inr 1)"
    by (simp add: envid2env_def ENVX_eq env_zero_def mos_consts)
  have 1: "sys_set_env_status 0x1001 ENV_RUNNABLE kern_small = Some (Returns (Inr 0), s1)"
    using e q1 by (simp add: sys_set_env_status_def s1_def env_zero_def mos_consts)
  have "envid2env 0x1001 False s1 = Some (Inr 1)"
    by (simp add: envid2env_def ENVX_eq env_zero_def s1_def)
  then have 2: "\<exists>s2. sys_ipc_try_send 0x1001 0 0 0 s1 = Some (Returns (Inr 0), s2) \<and> env_sched_list s2 = q2"
    using q2(1) by (simp add: sys_ipc_try_send_def deliver_def s1_def Let_def)
  have "\<not> tqrep q2 q" for q
  proof
    assume "tqrep q2 q"
    then have d: "distinct q" and c: "lchain q2 LHead (Some 0) q" by (simp_all add: tqrep_def lrep_def q2(2))
    from c q2(3-5) obtain r where "q = 0 # 2 # 1 # 1 # r"
      by (cases q; cases "tl q"; cases "tl (tl q)"; cases "tl (tl (tl q))") auto
    with d show False by simp
  qed
  with 1 2 show ?thesis by blast
qed

end
