(* ===== verification/CString.thy ===== *)
theory CString
  imports Prelude
begin

unbundle bit_operations_syntax

text \<open>
  The string library of the kernel and of the user programs (\<^verbatim>\<open>lib/string.c\<close>), on a byte
  memory indexed by 32-bit addresses; pointer arithmetic wraps. A loop is a
  \<open>partial_function\<close> into \<open>option\<close>: a loop that does not end, or a word access at an address
  that is not a multiple of four, is \<open>None\<close>. The lemmas show that the routines return, and
  relate them to byte strings (\<open>cstr\<close>) and to plain byte-wise copies (\<open>blit\<close>, \<open>fill\<close>).
\<close>

type_synonym mem = "u32 \<Rightarrow> u8"

section \<open>Word accesses\<close>

definition ld32 :: "mem \<Rightarrow> u32 \<Rightarrow> u32" where
  "ld32 m a = ucast (m a) OR push_bit 8 (ucast (m (a + 1))) OR push_bit 16 (ucast (m (a + 2)))
     OR push_bit 24 (ucast (m (a + 3)))"

definition st32 :: "mem \<Rightarrow> u32 \<Rightarrow> u32 \<Rightarrow> mem" where
  "st32 m a w = m(a := ucast w, a + 1 := ucast (drop_bit 8 w), a + 2 := ucast (drop_bit 16 w),
     a + 3 := ucast (drop_bit 24 w))"

section \<open>memcpy and memset\<close>

partial_function (option) copy_bytes :: "u32 \<Rightarrow> u32 \<Rightarrow> u32 \<Rightarrow> mem \<Rightarrow> (u32 \<times> u32 \<times> mem) option" where
  "copy_bytes dst src lim m =
     (if dst < lim then copy_bytes (dst + 1) (src + 1) lim (m(dst := m src))
      else Some (dst, src, m))"

partial_function (option) copy_head :: "u32 \<Rightarrow> u32 \<Rightarrow> u32 \<Rightarrow> mem \<Rightarrow> (u32 \<times> u32 \<times> mem) option" where
  "copy_head dst src lim m =
     (if dst AND 3 \<noteq> 0 \<and> dst < lim then copy_head (dst + 1) (src + 1) lim (m(dst := m src))
      else Some (dst, src, m))"

partial_function (option) copy_words :: "u32 \<Rightarrow> u32 \<Rightarrow> u32 \<Rightarrow> mem \<Rightarrow> (u32 \<times> u32 \<times> mem) option" where
  "copy_words dst src lim m =
     (if dst + 4 \<le> lim then
        (if dst AND 3 \<noteq> 0 \<or> src AND 3 \<noteq> 0 then None
         else copy_words (dst + 4) (src + 4) lim (st32 m dst (ld32 m src)))
      else Some (dst, src, m))"

definition memcpy :: "u32 \<Rightarrow> u32 \<Rightarrow> u32 \<Rightarrow> mem \<Rightarrow> (u32 \<times> mem) option" where
  "memcpy dst src n m =
     (let dstaddr = dst; lim = dst + n in
      if src AND 3 \<noteq> dst AND 3 then do {
        (_, _, m) \<leftarrow> copy_bytes dst src lim m;
        Some (dstaddr, m)
      } else do {
        (dst, src, m) \<leftarrow> copy_head dst src lim m;
        (dst, src, m) \<leftarrow> copy_words dst src lim m;
        (_, _, m) \<leftarrow> copy_bytes dst src lim m;
        Some (dstaddr, m)
      })"

partial_function (option) fill_head :: "u32 \<Rightarrow> u8 \<Rightarrow> u32 \<Rightarrow> mem \<Rightarrow> (u32 \<times> mem) option" where
  "fill_head dst byte lim m =
     (if dst AND 3 \<noteq> 0 \<and> dst < lim then fill_head (dst + 1) byte lim (m(dst := byte))
      else Some (dst, m))"

partial_function (option) fill_words :: "u32 \<Rightarrow> u32 \<Rightarrow> u32 \<Rightarrow> mem \<Rightarrow> (u32 \<times> mem) option" where
  "fill_words dst word lim m =
     (if dst + 4 \<le> lim then
        (if dst AND 3 \<noteq> 0 then None else fill_words (dst + 4) word lim (st32 m dst word))
      else Some (dst, m))"

partial_function (option) fill_bytes :: "u32 \<Rightarrow> u8 \<Rightarrow> u32 \<Rightarrow> mem \<Rightarrow> (u32 \<times> mem) option" where
  "fill_bytes dst byte lim m =
     (if dst < lim then fill_bytes (dst + 1) byte lim (m(dst := byte)) else Some (dst, m))"

definition memset :: "u32 \<Rightarrow> u32 \<Rightarrow> u32 \<Rightarrow> mem \<Rightarrow> (u32 \<times> mem) option" where
  "memset dst c n m =
     (let dstaddr = dst; lim = dst + n; byte = ucast (c AND 0xFF) :: u8;
          word = ucast byte OR push_bit 8 (ucast byte) OR push_bit 16 (ucast byte)
            OR push_bit 24 (ucast byte) in
      do {
        (dst, m) \<leftarrow> fill_head dst byte lim m;
        (dst, m) \<leftarrow> fill_words dst word lim m;
        (_, m) \<leftarrow> fill_bytes dst byte lim m;
        Some (dstaddr, m)
      })"

section \<open>Strings\<close>

partial_function (option) strlen_loop :: "u32 \<Rightarrow> u32 \<Rightarrow> mem \<Rightarrow> u32 option" where
  "strlen_loop s n m = (if m s \<noteq> 0 then strlen_loop (s + 1) (n + 1) m else Some n)"

definition strlen :: "u32 \<Rightarrow> mem \<Rightarrow> u32 option" where
  "strlen s m = strlen_loop s 0 m"

partial_function (option) strcpy_loop :: "u32 \<Rightarrow> u32 \<Rightarrow> mem \<Rightarrow> mem option" where
  "strcpy_loop dst src m =
     (let m' = m(dst := m src) in
      if m src \<noteq> 0 then strcpy_loop (dst + 1) (src + 1) m' else Some m')"

definition strcpy :: "u32 \<Rightarrow> u32 \<Rightarrow> mem \<Rightarrow> (u32 \<times> mem) option" where
  "strcpy dst src m = map_option (Pair dst) (strcpy_loop dst src m)"

text \<open>
  \<^verbatim>\<open>char\<close> is signed on this target: \<^verbatim>\<open>*s == c\<close> compares the sign-extended byte, and
  \<^verbatim>\<open>(u_int)*p\<close> in \<^verbatim>\<open>strcmp\<close> sign-extends before it compares.
\<close>

partial_function (option) strchr :: "u32 \<Rightarrow> u32 \<Rightarrow> mem \<Rightarrow> u32 option" where
  "strchr s c m =
     (if m s \<noteq> 0 then (if scast (m s) = c then Some s else strchr (s + 1) c m) else Some 0)"

partial_function (option) strcmp_scan :: "u32 \<Rightarrow> u32 \<Rightarrow> mem \<Rightarrow> (u32 \<times> u32) option" where
  "strcmp_scan p q m =
     (if m p \<noteq> 0 \<and> m p = m q then strcmp_scan (p + 1) (q + 1) m else Some (p, q))"

definition strcmp :: "u32 \<Rightarrow> u32 \<Rightarrow> mem \<Rightarrow> int option" where
  "strcmp p q m = do {
     (p, q) \<leftarrow> strcmp_scan p q m;
     Some (if (scast (m p) :: u32) < scast (m q) then - 1
           else if (scast (m p) :: u32) > scast (m q) then 1
           else 0)
   }"

section \<open>Copies are byte-wise copies\<close>

definition blit :: "u32 \<Rightarrow> u32 \<Rightarrow> nat \<Rightarrow> mem \<Rightarrow> mem" where
  "blit d s n m = (\<lambda>a. if unat (a - d) < n then m (s + (a - d)) else m a)"

definition fill :: "u32 \<Rightarrow> u8 \<Rightarrow> nat \<Rightarrow> mem \<Rightarrow> mem" where
  "fill d b n m = (\<lambda>a. if unat (a - d) < n then b else m a)"

text \<open>No byte that is read lies in the range that is written.\<close>

definition apart :: "u32 \<Rightarrow> u32 \<Rightarrow> nat \<Rightarrow> bool" where
  "apart d s n \<longleftrightarrow> (\<forall>j < n. n \<le> unat (s + of_nat j - d))"

lemma blit_0 [simp]: "blit d s 0 m = m"
  by (simp add: blit_def)

lemma fill_0 [simp]: "fill d b 0 m = m"
  by (simp add: fill_def)

lemma unat_diff_add:
  fixes a d :: u32
  assumes "k \<le> unat (a - d)"
  shows "unat (a - (d + of_nat k)) = unat (a - d) - k"
proof -
  have k: "unat (of_nat k :: u32) = k"
    using assms unsigned_less [of "a - d", where ?'a = nat] by (simp add: unat_of_nat_u32)
  have "a - (d + of_nat k) = (a - d) - of_nat k" by simp
  moreover have "of_nat k \<le> a - d" using assms k by (simp add: word_le_nat_alt)
  ultimately show ?thesis using k by (simp only: unat_sub)
qed

lemma unat_diff_wrap:
  fixes a d :: u32
  assumes "unat (a - d) < k" "k + n \<le> 2 ^ 32"
  shows "n \<le> unat (a - (d + of_nat k))"
proof -
  define x where "x = a - d"
  have eq: "a - (d + of_nat k) = x - of_nat k" by (simp add: x_def)
  show ?thesis
  proof (cases "k = 2 ^ 32")
    case True
    with assms(2) show ?thesis by simp
  next
    case False
    with assms(2) have "k < 2 ^ 32" by linarith
    then have k: "unat (of_nat k :: u32) = k" by (simp add: unat_of_nat_u32)
    have "unat (x - of_nat k) = (2 ^ 32 + unat x - k)"
      using assms(1) k by (simp add: unat_sub_if' x_def)
    then show ?thesis using assms(2) by (simp only: eq)
  qed
qed

lemma blit_blit:
  assumes "apart d s (k + n)" "k + n \<le> 2 ^ 32"
  shows "blit (d + of_nat k) (s + of_nat k) n (blit d s k m) = blit d s (k + n) m"
proof
  fix a :: u32
  show "blit (d + of_nat k) (s + of_nat k) n (blit d s k m) a = blit d s (k + n) m a"
  proof (cases "unat (a - d) < k")
    case True
    then have "\<not> unat (a - (d + of_nat k)) < n" using unat_diff_wrap assms(2) not_less by blast
    with True show ?thesis by (simp add: blit_def)
  next
    case F: False
    then have e: "unat (a - (d + of_nat k)) = unat (a - d) - k" by (intro unat_diff_add) simp
    show ?thesis
    proof (cases "unat (a - d) < k + n")
      case True
      have src: "s + of_nat k + (a - (d + of_nat k)) = s + (a - d)" by simp
      have "k + n \<le> unat (s + of_nat (unat (a - d)) - d)" using assms(1) True by (auto simp: apart_def)
      then have "\<not> unat (s + (a - d) - d) < k" by simp
      moreover have "unat (a - d) - k < n" using True F by linarith
      ultimately show ?thesis using True F unfolding blit_def src e by simp
    next
      case False
      with F have "\<not> unat (a - d) - k < n" by linarith
      with False F show ?thesis unfolding blit_def e by simp
    qed
  qed
qed

lemma fill_fill:
  assumes "k + n \<le> 2 ^ 32"
  shows "fill (d + of_nat k) b n (fill d b k m) = fill d b (k + n) m"
proof
  fix a :: u32
  show "fill (d + of_nat k) b n (fill d b k m) a = fill d b (k + n) m a"
    using unat_diff_wrap [of a d k n] unat_diff_add [of k a d] assms
    by (cases "unat (a - d) < k") (auto simp: fill_def)
qed

lemma apart_mono:
  assumes "apart d s (k + n)" "k + n \<le> 2 ^ 32"
  shows "apart d s k" "apart (d + of_nat k) (s + of_nat k) n"
proof -
  show "apart d s k" using assms(1) unfolding apart_def by (metis add_leE trans_less_add1)
  show "apart (d + of_nat k) (s + of_nat k) n"
    unfolding apart_def
  proof (intro allI impI)
    fix j assume j: "j < n"
    have "k + n \<le> unat (s + of_nat (k + j) - d)"
      by (rule assms(1) [unfolded apart_def, rule_format]) (simp add: j)
    then have "unat (s + of_nat (k + j) - (d + of_nat k)) = unat (s + of_nat (k + j) - d) - k"
      by (intro unat_diff_add) simp
    with \<open>k + n \<le> unat (s + of_nat (k + j) - d)\<close>
    have "n \<le> unat (s + of_nat (k + j) - (d + of_nat k))" by linarith
    then show "n \<le> unat (s + of_nat k + of_nat j - (d + of_nat k))" by (simp add: add.assoc)
  qed
qed

lemma unat_lt4: "unat (x :: u32) < 4 \<longleftrightarrow> x = 0 \<or> x = 1 \<or> x = 2 \<or> x = 3"
proof -
  have "unat x < 4 \<longleftrightarrow> unat x = 0 \<or> unat x = 1 \<or> unat x = 2 \<or> unat x = 3" by auto
  then show ?thesis by (simp add: word_unat_eq_iff)
qed

lemma ld32_bytes:
  "ucast (ld32 m a) = m a" "ucast (drop_bit 8 (ld32 m a)) = m (a + 1)"
  "ucast (drop_bit 16 (ld32 m a)) = m (a + 2)" "ucast (drop_bit 24 (ld32 m a)) = m (a + 3)"
  unfolding ld32_def
  by (rule bit_word_eqI; auto simp: bit_simps dest: bit_imp_le_length)+

lemma st32_ld32_from:
  "st32 m d (ld32 f s) = (\<lambda>a. if unat (a - d) < 4 then f (s + (a - d)) else m a)"
proof
  fix a
  have "a - d = 0 \<longleftrightarrow> a = d" "a - d = 1 \<longleftrightarrow> a = d + 1" "a - d = 2 \<longleftrightarrow> a = d + 2" "a - d = 3 \<longleftrightarrow> a = d + 3"
    by (auto simp: algebra_simps)
  then show "st32 m d (ld32 f s) a = (if unat (a - d) < 4 then f (s + (a - d)) else m a)"
    by (auto simp: st32_def ld32_bytes unat_lt4)
qed

lemma st32_ld32: "st32 m d (ld32 m s) = blit d s 4 m"
  unfolding st32_ld32_from blit_def ..

lemma ld32_st32 [simp]: "ld32 (st32 m a w) a = w"
proof (rule bit_word_eqI)
  fix n assume "n < LENGTH(32)"
  then consider "n < 8" | "8 \<le> n" "n < 16" | "16 \<le> n" "n < 24" | "24 \<le> n" "n < 32" by fastforce
  then show "bit (ld32 (st32 m a w) a) n = bit w n"
    by cases (auto simp: ld32_def st32_def bit_simps)
qed


lemma st32_other: "4 \<le> unat (x - a) \<Longrightarrow> st32 m a w x = m x"
  by (auto simp: st32_def)

lemma ld32_cong:
  assumes "\<And>i. i < 4 \<Longrightarrow> m (a + i) = m' (a + i)"
  shows "ld32 m a = ld32 m' a"
  using assms [of 0] assms [of 1] assms [of 2] assms [of 3] by (simp add: ld32_def)

lemma ptr_add:
  assumes "unat (dst :: u32) + (k + n) = unat (lim :: u32)"
  shows "unat (dst + of_nat k) + n = unat lim" "k + n \<le> 2 ^ 32"
proof -
  have lt: "unat dst + (k + n) < 2 ^ 32" using assms unsigned_less [of lim, where ?'a = nat] by simp
  then have k: "unat (of_nat k :: u32) = k" by (intro unat_of_nat_u32) simp
  have "unat (dst + of_nat k) = unat dst + k"
    using lt k by (simp add: unat_word_ariths)
  then show "unat (dst + of_nat k) + n = unat lim" using assms by simp
  show "k + n \<le> 2 ^ 32" using lt by simp
qed

lemma ptr_less: "unat dst + n = unat (lim :: u32) \<Longrightarrow> dst < lim \<longleftrightarrow> 0 < n"
  by (auto simp: word_less_nat_alt)

lemma blit_1: "m(dst := m src) = blit dst src 1 m"
  by (rule ext) (auto simp: blit_def unat_eq_0)

lemma fill_1: "m(dst := b) = fill dst b 1 m"
  by (rule ext) (auto simp: fill_def unat_eq_0)

lemma copy_bytes_blit:
  assumes "unat dst + n = unat lim" "apart dst src n"
  shows "copy_bytes dst src lim m = Some (lim, src + of_nat n, blit dst src n m)"
  using assms
proof (induction n arbitrary: dst src m)
  case 0
  then have "dst = lim" by (simp add: word_unat_eq_iff)
  then show ?case by (simp add: copy_bytes.simps)
next
  case (Suc n)
  have lim: "unat dst + (1 + n) = unat lim" using Suc.prems(1) by simp
  note p = ptr_add [OF lim]
  have ap: "apart dst src (1 + n)" using Suc.prems(2) by simp
  have "blit (dst + 1) (src + 1) n (blit dst src 1 m) = blit dst src (Suc n) m"
    using blit_blit [OF ap p(2)] by simp
  then show ?case
    using Suc.IH [of "dst + 1" "src + 1"] p(1) apart_mono(2) [OF ap p(2)] ptr_less [OF lim]
    by (subst copy_bytes.simps) (simp add: blit_1 [of m dst src, simplified] algebra_simps)
qed

lemma copy_head_blit:
  assumes "unat dst + n = unat lim" "apart dst src n"
  shows "\<exists>k\<le>n. copy_head dst src lim m = Some (dst + of_nat k, src + of_nat k, blit dst src k m) \<and>
           (k = n \<or> (dst + of_nat k) AND 3 = 0)"
  using assms
proof (induction n arbitrary: dst src m)
  case 0
  then have "dst = lim" by (simp add: word_unat_eq_iff)
  then show ?case by (simp add: copy_head.simps)
next
  case (Suc n)
  have lim: "unat dst + (1 + n) = unat lim" using Suc.prems(1) by simp
  note p = ptr_add [OF lim]
  have ap: "apart dst src (1 + n)" using Suc.prems(2) by simp
  show ?case
  proof (cases "dst AND 3 = 0")
    case True
    then show ?thesis by (intro exI [of _ 0]) (simp add: copy_head.simps)
  next
    case False
    obtain k where k: "k \<le> n"
      "copy_head (dst + 1) (src + 1) lim (blit dst src 1 m) =
         Some (dst + 1 + of_nat k, src + 1 + of_nat k, blit (dst + 1) (src + 1) k (blit dst src 1 m))"
      "k = n \<or> (dst + 1 + of_nat k) AND 3 = 0"
      using Suc.IH [of "dst + 1" "src + 1"] p(1) apart_mono(2) [OF ap p(2)] by auto
    have b: "1 + k \<le> 2 ^ 32" using k(1) p(2) by simp
    have "1 + n = (1 + k) + (n - k)" using k(1) by simp
    then have "apart dst src (1 + k)" using apart_mono(1) [of dst src "1 + k" "n - k"] ap p(2) by simp
    then have "blit (dst + 1) (src + 1) k (blit dst src 1 m) = blit dst src (Suc k) m"
      using blit_blit [of dst src 1 k m] b by simp
    then show ?thesis
      using False k ptr_less [OF lim] blit_1 [of m dst src]
      by (intro exI [of _ "Suc k"]) (subst copy_head.simps, simp add: algebra_simps)
  qed
qed

lemma ptr_word:
  assumes "unat (dst :: u32) + n = unat lim" "unat lim < 2 ^ 32 - 4"
  shows "dst + 4 \<le> lim \<longleftrightarrow> 4 \<le> n"
proof -
  have "unat (dst + 4) = unat dst + 4" using assms by (simp add: unat_word_ariths)
  then show ?thesis using assms(1) by (auto simp: word_le_nat_alt)
qed

lemma and_3_add_4 [simp]: "((a :: u32) + 4) AND 3 = a AND 3"
proof -
  have m: "(3 :: u32) = mask 2" by (simp add: mask_eq_exp_minus_1)
  have "unat (a + 4) mod 4 = unat a mod 4" by (simp add: unat_word_ariths mod_mod_cancel)
  then show ?thesis unfolding m by (simp add: word_unat_eq_iff unat_and_mask)
qed

lemma and_3_add: "(a :: u32) AND 3 = b AND 3 \<Longrightarrow> (c + a) AND 3 = (c + b) AND 3"
proof -
  assume e: "a AND 3 = b AND 3"
  have m: "(3 :: u32) = mask 2" by (simp add: mask_eq_exp_minus_1)
  have "unat a mod 4 = unat b mod 4" using e unfolding m by (metis unat_and_mask power2_eq_square num_double numeral_times_numeral)
  then have "unat (c + a) mod 4 = unat (c + b) mod 4"
    by (simp add: unat_word_ariths mod_mod_cancel) (metis mod_add_right_eq)
  then show ?thesis unfolding m by (simp add: word_unat_eq_iff unat_and_mask)
qed

lemma copy_words_blit:
  assumes "unat dst + n = unat lim" "unat lim < 2 ^ 32 - 4" "apart dst src n"
    "n < 4 \<or> dst AND 3 = 0 \<and> src AND 3 = 0"
  shows "\<exists>k\<le>n. n - k < 4 \<and>
           copy_words dst src lim m = Some (dst + of_nat k, src + of_nat k, blit dst src k m)"
  using assms
proof (induction n arbitrary: dst src m rule: less_induct)
  case (less n)
  note pw = ptr_word [OF less.prems(1,2)]
  show ?case
  proof (cases "n < 4")
    case True
    then show ?thesis using pw by (intro exI [of _ 0]) (simp add: copy_words.simps)
  next
    case False
    then obtain j where n: "n = 4 + j" by (metis le_Suc_ex linorder_not_less)
    have lim: "unat dst + (4 + j) = unat lim" using less.prems(1) n by simp
    note p = ptr_add [OF lim]
    have ap: "apart dst src (4 + j)" using less.prems(3) n by simp
    obtain k where k: "k \<le> j" "j - k < 4"
      "copy_words (dst + 4) (src + 4) lim (blit dst src 4 m) =
         Some (dst + 4 + of_nat k, src + 4 + of_nat k, blit (dst + 4) (src + 4) k (blit dst src 4 m))"
      using less.IH [of j "dst + 4" "src + 4"] p(1) apart_mono(2) [OF ap p(2)] less.prems(2,4) n False
      by auto
    have "4 + j = (4 + k) + (j - k)" using k(1) by simp
    then have "apart dst src (4 + k)" using apart_mono(1) [of dst src "4 + k" "j - k"] ap p(2) by simp
    then have "blit (dst + 4) (src + 4) k (blit dst src 4 m) = blit dst src (4 + k) m"
      using blit_blit [of dst src 4 k m] k(1) p(2) by simp
    then show ?thesis
      using False k pw n less.prems(4)
      by (intro exI [of _ "4 + k"]) (subst copy_words.simps, simp add: st32_ld32 algebra_simps)
  qed
qed

lemma memcpy_blit:
  assumes "unat dst + n < 2 ^ 32 - 4" "apart dst src n"
  shows "memcpy dst src (of_nat n) m = Some (dst, blit dst src n m)"
proof -
  define lim where "lim = dst + of_nat n"
  have lim: "unat dst + n = unat lim" using assms(1) by (simp add: lim_def unat_word_ariths unat_of_nat)
  then have b: "unat lim < 2 ^ 32 - 4" using assms(1) by simp
  show ?thesis
  proof (cases "src AND 3 = dst AND 3")
    case False
    then show ?thesis using copy_bytes_blit [OF lim assms(2)] by (simp add: memcpy_def lim_def)
  next
    case al: True
    obtain i where i: "i \<le> n" "copy_head dst src lim m = Some (dst + of_nat i, src + of_nat i, blit dst src i m)"
      "i = n \<or> (dst + of_nat i) AND 3 = 0"
      using copy_head_blit [OF lim assms(2)] by blast
    obtain j where j: "n = i + j" using i(1) le_Suc_ex by blast
    have lim1: "unat dst + (i + j) = unat lim" using lim j by simp
    note p1 = ptr_add [OF lim1]
    have ap1: "apart (dst + of_nat i) (src + of_nat i) j" using apart_mono(2) p1(2) assms(2) j by blast
    have "(src + of_nat i) AND 3 = (dst + of_nat i) AND 3"
      using al by (metis add.commute and_3_add)
    then have "j < 4 \<or> (dst + of_nat i) AND 3 = 0 \<and> (src + of_nat i) AND 3 = 0"
      using i(3) j by auto
    then obtain k where k: "k \<le> j"
      "copy_words (dst + of_nat i) (src + of_nat i) lim (blit dst src i m) =
         Some (dst + of_nat i + of_nat k, src + of_nat i + of_nat k,
               blit (dst + of_nat i) (src + of_nat i) k (blit dst src i m))"
      using copy_words_blit [OF p1(1) b ap1] by blast
    obtain l where l: "j = k + l" using k(1) le_Suc_ex by blast
    have lim2: "unat dst + ((i + k) + l) = unat lim" using lim1 l by simp
    note p2 = ptr_add [OF lim2]
    have ap: "apart dst src ((i + k) + l)" using assms(2) j l by (simp add: add.assoc)
    have m1: "blit (dst + of_nat i) (src + of_nat i) k (blit dst src i m) = blit dst src (i + k) m"
      using blit_blit apart_mono(1) [OF ap p2(2)] p2(2) by (metis add_leD1)
    have m2: "blit (dst + of_nat (i + k)) (src + of_nat (i + k)) l (blit dst src (i + k) m) = blit dst src n m"
      using blit_blit [OF ap p2(2)] j l by (simp add: add.assoc)
    have d: "dst + of_nat i + of_nat k = dst + of_nat (i + k)"
      "src + of_nat i + of_nat k = src + of_nat (i + k)" by simp_all
    have "copy_words (dst + of_nat i) (src + of_nat i) lim (blit dst src i m) =
        Some (dst + of_nat (i + k), src + of_nat (i + k), blit dst src (i + k) m)"
      using k(2) by (simp only: d m1)
    moreover have "copy_bytes (dst + of_nat (i + k)) (src + of_nat (i + k)) lim (blit dst src (i + k) m) =
        Some (lim, src + of_nat (i + k) + of_nat l, blit dst src n m)"
      using copy_bytes_blit [OF p2(1) apart_mono(2) [OF ap p2(2)], of "blit dst src (i + k) m"]
      by (simp only: m2)
    ultimately show ?thesis
      by (simp add: memcpy_def lim_def [symmetric] al i(2) del: of_nat_add)
  qed
qed

section \<open>Fills\<close>

lemma fill_bytes_fill:
  "unat dst + n = unat lim \<Longrightarrow> fill_bytes dst b lim m = Some (lim, fill dst b n m)"
proof (induction n arbitrary: dst m)
  case 0
  then have "dst = lim" by (simp add: word_unat_eq_iff)
  then show ?case by (simp add: fill_bytes.simps)
next
  case (Suc n)
  have lim: "unat dst + (1 + n) = unat lim" using Suc.prems by simp
  note p = ptr_add [OF lim]
  have "fill (dst + 1) b n (fill dst b 1 m) = fill dst b (Suc n) m"
    using fill_fill [OF p(2)] by simp
  then show ?case
    using Suc.IH [of "dst + 1"] p(1) ptr_less [OF lim]
    by (subst fill_bytes.simps) (simp add: fill_1)
qed

lemma fill_head_fill:
  "unat dst + n = unat lim \<Longrightarrow>
     \<exists>k\<le>n. fill_head dst b lim m = Some (dst + of_nat k, fill dst b k m) \<and>
       (k = n \<or> (dst + of_nat k) AND 3 = 0)"
proof (induction n arbitrary: dst m)
  case 0
  then have "dst = lim" by (simp add: word_unat_eq_iff)
  then show ?case by (simp add: fill_head.simps)
next
  case (Suc n)
  have lim: "unat dst + (1 + n) = unat lim" using Suc.prems by simp
  note p = ptr_add [OF lim]
  show ?case
  proof (cases "dst AND 3 = 0")
    case True
    then show ?thesis by (intro exI [of _ 0]) (simp add: fill_head.simps)
  next
    case False
    obtain k where k: "k \<le> n"
      "fill_head (dst + 1) b lim (fill dst b 1 m) =
         Some (dst + 1 + of_nat k, fill (dst + 1) b k (fill dst b 1 m))"
      "k = n \<or> (dst + 1 + of_nat k) AND 3 = 0"
      using Suc.IH [of "dst + 1"] p(1) by auto
    have "fill (dst + 1) b k (fill dst b 1 m) = fill dst b (Suc k) m"
      using fill_fill [of 1 k dst b m] k(1) p(2) by simp
    then show ?thesis
      using False k ptr_less [OF lim]
      by (intro exI [of _ "Suc k"]) (subst fill_head.simps, simp add: fill_1 algebra_simps)
  qed
qed

definition splat :: "u8 \<Rightarrow> u32" where
  "splat b = ucast b OR push_bit 8 (ucast b) OR push_bit 16 (ucast b) OR push_bit 24 (ucast b)"

lemma st32_splat: "st32 m d (splat b) = fill d b 4 m"
proof
  fix a
  have "splat b = ld32 (\<lambda>_. b) 0" by (simp add: splat_def ld32_def)
  then have b: "ucast (splat b) = b" "ucast (drop_bit 8 (splat b)) = b"
    "ucast (drop_bit 16 (splat b)) = b" "ucast (drop_bit 24 (splat b)) = b"
    by (simp_all add: ld32_bytes)
  have "a - d = 0 \<longleftrightarrow> a = d" "a - d = 1 \<longleftrightarrow> a = d + 1" "a - d = 2 \<longleftrightarrow> a = d + 2" "a - d = 3 \<longleftrightarrow> a = d + 3"
    by (auto simp: algebra_simps)
  then show "st32 m d (splat b) a = fill d b 4 m a"
    by (auto simp: st32_def b fill_def unat_lt4)
qed

lemma fill_words_fill:
  assumes "unat dst + n = unat lim" "unat lim < 2 ^ 32 - 4" "n < 4 \<or> dst AND 3 = 0"
  shows "\<exists>k\<le>n. n - k < 4 \<and> fill_words dst (splat b) lim m = Some (dst + of_nat k, fill dst b k m)"
  using assms
proof (induction n arbitrary: dst m rule: less_induct)
  case (less n)
  note pw = ptr_word [OF less.prems(1,2)]
  show ?case
  proof (cases "n < 4")
    case True
    then show ?thesis using pw by (intro exI [of _ 0]) (simp add: fill_words.simps)
  next
    case False
    then obtain j where n: "n = 4 + j" by (metis le_Suc_ex linorder_not_less)
    have lim: "unat dst + (4 + j) = unat lim" using less.prems(1) n by simp
    note p = ptr_add [OF lim]
    obtain k where k: "k \<le> j" "j - k < 4"
      "fill_words (dst + 4) (splat b) lim (fill dst b 4 m) =
         Some (dst + 4 + of_nat k, fill (dst + 4) b k (fill dst b 4 m))"
      using less.IH [of j "dst + 4"] p(1) less.prems(2,3) n False by auto
    have "fill (dst + 4) b k (fill dst b 4 m) = fill dst b (4 + k) m"
      using fill_fill [of 4 k dst b m] k(1) p(2) by simp
    then show ?thesis
      using False k pw n less.prems(3)
      by (intro exI [of _ "4 + k"]) (subst fill_words.simps, simp add: st32_splat algebra_simps)
  qed
qed

lemma memset_fill:
  assumes "unat dst + n < 2 ^ 32 - 4"
  shows "memset dst c (of_nat n) m = Some (dst, fill dst (ucast c) n m)"
proof -
  define lim where "lim = dst + of_nat n"
  define b :: u8 where "b = ucast (c AND 0xFF)"
  have ff: "(0xFF :: u32) = mask 8" by (simp add: mask_eq_exp_minus_1)
  have bc: "b = ucast c" unfolding b_def ff by (intro bit_word_eqI) (simp add: bit_simps)
  have lim: "unat dst + n = unat lim" using assms by (simp add: lim_def unat_word_ariths unat_of_nat)
  then have lb: "unat lim < 2 ^ 32 - 4" using assms by simp
  obtain i where i: "i \<le> n" "fill_head dst b lim m = Some (dst + of_nat i, fill dst b i m)"
    "i = n \<or> (dst + of_nat i) AND 3 = 0"
    using fill_head_fill [OF lim] by blast
  obtain j where j: "n = i + j" using i(1) le_Suc_ex by blast
  have lim1: "unat dst + (i + j) = unat lim" using lim j by simp
  note p1 = ptr_add [OF lim1]
  have "j < 4 \<or> (dst + of_nat i) AND 3 = 0" using i(3) j by auto
  then obtain k where k: "k \<le> j"
    "fill_words (dst + of_nat i) (splat b) lim (fill dst b i m) =
       Some (dst + of_nat i + of_nat k, fill (dst + of_nat i) b k (fill dst b i m))"
    using fill_words_fill [OF p1(1) lb] by blast
  obtain l where l: "j = k + l" using k(1) le_Suc_ex by blast
  have lim2: "unat dst + ((i + k) + l) = unat lim" using lim1 l by simp
  note p2 = ptr_add [OF lim2]
  have "dst + of_nat i + of_nat k = dst + of_nat (i + k)" by simp
  moreover have "fill (dst + of_nat i) b k (fill dst b i m) = fill dst b (i + k) m"
    using fill_fill p2(2) by (metis add_leD1)
  ultimately have k2: "fill_words (dst + of_nat i) (splat b) lim (fill dst b i m) =
      Some (dst + of_nat (i + k), fill dst b (i + k) m)"
    using k(2) by (simp only:)
  have "fill (dst + of_nat (i + k)) b l (fill dst b (i + k) m) = fill dst b n m"
    using fill_fill [OF p2(2)] j l by (simp add: add.assoc)
  then have "fill_bytes (dst + of_nat (i + k)) b lim (fill dst b (i + k) m) = Some (lim, fill dst b n m)"
    using fill_bytes_fill [OF p2(1)] by (simp only:)
  then show ?thesis
    using k2 by (simp add: memset_def lim_def [symmetric] b_def [symmetric] splat_def [symmetric] i(2)
        bc [symmetric] Let_def del: of_nat_add)
qed

section \<open>Strings and byte lists\<close>

text \<open>The bytes \<open>bs\<close>, none of them zero, stand at \<open>s\<close> with a zero byte after them.\<close>

fun cstr :: "mem \<Rightarrow> u32 \<Rightarrow> u8 list \<Rightarrow> bool" where
  "cstr m s [] \<longleftrightarrow> m s = 0"
| "cstr m s (b # bs) \<longleftrightarrow> b \<noteq> 0 \<and> m s = b \<and> cstr m (s + 1) bs"

lemma cstr_unique: "cstr m s bs \<Longrightarrow> cstr m s cs \<Longrightarrow> bs = cs"
proof (induction bs arbitrary: s cs)
  case Nil
  then show ?case by (cases cs) auto
next
  case (Cons b bs)
  then show ?case by (cases cs) auto
qed

lemma cstr_cong:
  "(\<And>i. i \<le> length bs \<Longrightarrow> m (s + of_nat i) = m' (s + of_nat i)) \<Longrightarrow> cstr m s bs = cstr m' s bs"
proof (induction bs arbitrary: s)
  case Nil
  then show ?case by simp
next
  case (Cons b bs)
  have "cstr m (s + 1) bs = cstr m' (s + 1) bs"
    using Cons.prems [of "Suc _"] by (intro Cons.IH) (simp add: algebra_simps)
  then show ?case using Cons.prems [of 0] by simp
qed

lemma strlen_loop_cstr: "cstr m s bs \<Longrightarrow> strlen_loop s n m = Some (n + of_nat (length bs))"
  by (induction bs arbitrary: s n) (subst strlen_loop.simps, simp)+

lemma strlen_cstr: "cstr m s bs \<Longrightarrow> strlen s m = Some (of_nat (length bs))"
  by (simp add: strlen_def strlen_loop_cstr)

fun find_index :: "u8 \<Rightarrow> u8 list \<Rightarrow> nat option" where
  "find_index c [] = None"
| "find_index c (b # bs) = (if b = c then Some 0 else map_option Suc (find_index c bs))"

lemma scast_u8_inject [simp]: "(scast (a :: u8) :: u32) = scast b \<longleftrightarrow> a = b"
proof
  assume "(scast a :: u32) = scast b"
  then have e: "(ucast (scast a :: u32) :: u8) = ucast (scast b :: u32)" by simp
  have "ucast (scast x :: u32) = x" for x :: u8 by (rule bit_word_eqI) (auto simp: bit_simps)
  then show "a = b" using e by simp
qed simp

lemma strchr_cstr:
  "cstr m s bs \<Longrightarrow>
     strchr s (scast c) m = Some (case find_index c bs of None \<Rightarrow> 0 | Some i \<Rightarrow> s + of_nat i)"
proof (induction bs arbitrary: s)
  case Nil
  then show ?case by (simp add: strchr.simps)
next
  case (Cons b bs)
  then show ?case by (subst strchr.simps) (auto split: option.splits simp: algebra_simps)
qed

text \<open>The order of \<^verbatim>\<open>strcmp\<close>: lexicographic on unsigned bytes.\<close>

fun lexcmp :: "u8 list \<Rightarrow> u8 list \<Rightarrow> int" where
  "lexcmp [] [] = 0"
| "lexcmp [] (c # cs) = - 1"
| "lexcmp (b # bs) [] = 1"
| "lexcmp (b # bs) (c # cs) = (if b = c then lexcmp bs cs else if b < c then - 1 else 1)"

lemma lexcmp_0 [simp]: "lexcmp bs cs = 0 \<longleftrightarrow> bs = cs"
  by (induction bs cs rule: lexcmp.induct) auto

lemma mod_if_128: "0 \<le> k \<Longrightarrow> k < 256 \<Longrightarrow> (k + 128) mod 256 = (if k < 128 then k + 128 else k - 128)" for k :: int
proof (cases "k < 128")
  case False
  assume "0 \<le> k" "k < 256"
  have "(k + 128) mod 256 = ((k - 128) + 256) mod 256" by (simp add: add.commute)
  also have "\<dots> = (k - 128) mod 256" by (rule mod_add_self2)
  also have "\<dots> = k - 128" using False \<open>k < 256\<close> by (intro mod_pos_pos_trivial) simp_all
  finally show ?thesis using False by simp
qed simp

lemma scast_u8_less: "(scast (a :: u8) :: u32) < scast b \<longleftrightarrow> a < b"
proof -
  have s: "uint (scast x :: u32) = (if uint x < 128 then uint x else uint x + (2 ^ 32 - 256))" for x :: u8
  proof -
    have x: "0 \<le> uint x" "uint x < 256" using uint_bounded [of x] by simp_all
    have "sint x = (uint x + 128) mod 256 - 128"
      by (simp add: sint_uint signed_take_bit_eq_take_bit_shift take_bit_eq_mod)
    also have "\<dots> = (if uint x < 128 then uint x else uint x - 256)"
      using x by (simp add: mod_if_128)
    finally have i: "sint x = (if uint x < 128 then uint x else uint x - 256)" .
    have "uint (scast x :: u32) = sint x mod 2 ^ 32"
      by (simp only: scast_eq uint_word_of_int_eq take_bit_eq_mod) simp
    then show ?thesis
    proof (cases "uint x < 128")
      case False
      have "(uint x - 256) mod 2 ^ 32 = ((uint x - 256) + 2 ^ 32) mod (2 ^ 32 :: int)"
        by (rule mod_add_self2 [symmetric])
      also have "\<dots> = (uint x - 256) + 2 ^ 32" using x False by (intro mod_pos_pos_trivial) simp_all
      finally show ?thesis using i False \<open>uint (scast x :: u32) = sint x mod 2 ^ 32\<close> by simp
    qed (use x i in simp)
  qed
  have "uint x < 256" "0 \<le> uint x" for x :: u8 using uint_bounded [of x] by simp_all
  then show ?thesis by (auto simp: word_less_def s)
qed

lemma strcmp_cstr:
  assumes "cstr m p bs" "cstr m q cs"
  shows "strcmp p q m = Some (lexcmp bs cs)"
proof -
  have "\<exists>p' q'. strcmp_scan p q m = Some (p', q') \<and>
      lexcmp bs cs = (if m p' < m q' then - 1 else if m q' < m p' then 1 else 0)"
    using assms
  proof (induction bs cs arbitrary: p q rule: lexcmp.induct)
    case (4 b bs c cs)
    then show ?case
      by (cases "b = c") (auto simp: strcmp_scan.simps [of p q])
  qed (auto simp: strcmp_scan.simps word_gt_0)
  then show ?thesis by (auto simp: strcmp_def scast_u8_less)
qed

lemma blit_Suc:
  assumes "apart d s (Suc n)" "Suc n \<le> 2 ^ 32"
  shows "blit (d + 1) (s + 1) n (m(d := m s)) = blit d s (Suc n) m"
  using blit_blit [of d s 1 n m] assms by (simp add: blit_1)

lemma strcpy_loop_blit:
  "cstr m src bs \<Longrightarrow> apart dst src (Suc (length bs)) \<Longrightarrow> Suc (length bs) \<le> 2 ^ 32 \<Longrightarrow>
     strcpy_loop dst src m = Some (blit dst src (Suc (length bs)) m)"
proof (induction bs arbitrary: dst src m)
  case Nil
  then show ?case using blit_1 [of m dst src] by (subst strcpy_loop.simps) simp
next
  case (Cons b bs)
  let ?m = "m(dst := m src)"
  have ap: "apart dst src (1 + Suc (length bs))" using Cons.prems(2) by simp
  have b: "1 + Suc (length bs) \<le> 2 ^ 32" using Cons.prems(3) by simp
  have "cstr ?m (src + 1) bs = cstr m (src + 1) bs"
  proof (rule cstr_cong)
    fix i assume i: "i \<le> length bs"
    have "Suc (length (b # bs)) \<le> unat (src + of_nat (Suc i) - dst)"
      by (rule Cons.prems(2) [unfolded apart_def, rule_format]) (use i in simp)
    then have "src + of_nat (Suc i) \<noteq> dst" by auto
    then show "?m (src + 1 + of_nat i) = m (src + 1 + of_nat i)" by (simp add: algebra_simps)
  qed
  then have "strcpy_loop (dst + 1) (src + 1) ?m = Some (blit (dst + 1) (src + 1) (Suc (length bs)) ?m)"
    using Cons.prems apart_mono(2) [OF ap b] by (intro Cons.IH) (simp_all del: fun_upd_apply)
  also have "\<dots> = Some (blit dst src (Suc (length (b # bs))) m)"
    using blit_Suc [of dst src "Suc (length bs)" m] Cons.prems by simp
  finally show ?case using Cons.prems(1) by (subst strcpy_loop.simps) (simp add: Let_def)
qed

lemma strcpy_blit:
  "cstr m src bs \<Longrightarrow> apart dst src (Suc (length bs)) \<Longrightarrow> Suc (length bs) \<le> 2 ^ 32 \<Longrightarrow>
     strcpy dst src m = Some (dst, blit dst src (Suc (length bs)) m)"
  by (simp add: strcpy_def strcpy_loop_blit)

lemma apart_above:
  assumes "unat dst + n \<le> unat src" "unat src + n \<le> 2 ^ 32"
  shows "apart dst src n"
  unfolding apart_def
proof (intro allI impI)
  fix j assume j: "j < n"
  have o: "unat (of_nat j :: u32) = j" using j assms(2) by (intro unat_of_nat_u32) linarith
  have u: "unat (src + of_nat j) = unat src + j"
    using assms(2) j by (simp add: unat_word_ariths o)
  have "dst \<le> src + of_nat j" using assms(1) by (simp add: word_le_nat_alt u)
  then have "unat (src + of_nat j - dst) = unat src + j - unat dst" by (simp add: unat_sub u)
  then show "n \<le> unat (src + of_nat j - dst)" using assms(1) by simp
qed

section \<open>Properties\<close>

text \<open>
  C24. \<^verbatim>\<open>memcpy\<close> and \<^verbatim>\<open>memset\<close> return and do what a byte-by-byte loop does, for every
  alignment of source and destination and every length: the \<open>n\<close> bytes at the destination
  are the source bytes (the fill byte), every other byte of memory is unchanged. The source
  and the destination do not overlap, and the destination ends below the last word of the
  address space, where \<^verbatim>\<open>dst + 4\<close> would wrap.
\<close>

theorem memcpy_memset_correct:
  assumes "unat dst + n < 2 ^ 32 - 4" "apart dst src n"
  shows "memcpy dst src (of_nat n) m =
           Some (dst, \<lambda>a. if unat (a - dst) < n then m (src + (a - dst)) else m a) \<and>
         memset dst c (of_nat n) m = Some (dst, \<lambda>a. if unat (a - dst) < n then ucast c else m a)"
  using memcpy_blit [OF assms, of m] memset_fill [OF assms(1), of c m]
  by (simp_all add: blit_def fill_def)

theorem memcpy_memset_correct_witness:
  "memcpy 0x1001 0x2001 7 (\<lambda>a. ucast a) =
     Some (0x1001, \<lambda>a. if unat (a - 0x1001) < 7 then ucast (0x2001 + (a - 0x1001)) else ucast a)"
proof -
  have "apart 0x1001 0x2001 7" by (rule apart_above) simp_all
  from memcpy_memset_correct [OF _ this, of "\<lambda>a. ucast a"] show ?thesis by simp
qed

lemma cstr_blit:
  assumes "cstr m src bs" "length bs < n" "n \<le> 2 ^ 32"
  shows "cstr (blit dst src n m) dst bs"
proof -
  have "cstr (\<lambda>a. m (src + (a - dst))) dst bs"
    using assms(1)
  proof (induction bs arbitrary: src dst)
    case (Cons b bs)
    have e: "src + 1 + (a - (dst + 1)) = src + (a - dst)" for a by simp
    have "cstr (\<lambda>a. m (src + 1 + (a - (dst + 1)))) (dst + 1) bs"
      using Cons.IH [of "src + 1" "dst + 1"] Cons.prems by (simp only: cstr.simps)
    then show ?case using Cons.prems unfolding e by simp
  qed simp
  moreover have "unat (of_nat i :: u32) < n" if "i \<le> length bs" for i
    using that assms(2,3) by (simp add: unat_of_nat_u32)
  ultimately show ?thesis
    by (subst cstr_cong [where m' = "\<lambda>a. m (src + (a - dst))"]) (auto simp: blit_def)
qed

text \<open>
  C25. The string functions on zero-terminated strings: \<^verbatim>\<open>strlen\<close> is the number of bytes,
  \<^verbatim>\<open>strcmp\<close> is the lexicographic order of the unsigned bytes (although \<^verbatim>\<open>char\<close> is signed) and
  is zero exactly for equal strings, \<^verbatim>\<open>strchr\<close> finds the first occurrence, and \<^verbatim>\<open>strcpy\<close>
  leaves the same string at the destination when the two do not overlap.
\<close>

theorem string_functions_correct:
  assumes "cstr m p bs" "cstr m q cs" "apart dst p (Suc (length bs))" "length bs < 2 ^ 32"
  shows "strlen p m = Some (of_nat (length bs)) \<and>
     strcmp p q m = Some (lexcmp bs cs) \<and> (lexcmp bs cs = 0 \<longleftrightarrow> bs = cs) \<and>
     strchr p (scast c) m = Some (case find_index c bs of None \<Rightarrow> 0 | Some i \<Rightarrow> p + of_nat i) \<and>
     (\<exists>m'. strcpy dst p m = Some (dst, m') \<and> cstr m' dst bs)"
  using strlen_cstr [OF assms(1)] strcmp_cstr [OF assms(1,2)] strchr_cstr [OF assms(1)]
    strcpy_blit [OF assms(1,3)] cstr_blit [OF assms(1), of "Suc (length bs)"] assms(4)
  by simp_all

theorem string_functions_correct_witness:
  "strcmp 0x100 0x200 ((\<lambda>_. 0)(0x100 := 0x61, 0x200 := 0x62)) = Some (- 1)"
proof -
  have "apart 0x80 0x100 (Suc (length [0x61 :: u8]))" by (rule apart_above) simp_all
  from string_functions_correct [of "(\<lambda>_. 0)(0x100 := 0x61, 0x200 := 0x62)" "0x100" "[0x61]" "0x200" "[0x62]", OF _ _ this]
  show ?thesis by simp
qed

end
