(* ===== verification/Print.thy ===== *)
theory Print
  imports CString
begin

text \<open>
  Formatted output (\<^verbatim>\<open>lib/print.c\<close>, shared by kernel and user programs) and its three
  sinks: the kernel console (\<^verbatim>\<open>kern/printk.c\<close>), the buffered user console
  (\<^verbatim>\<open>user/lib/debugf.c\<close>) and a file descriptor (\<^verbatim>\<open>user/lib/fprintf.c\<close>).

  The callback \<^verbatim>\<open>out\<close> is a state transformer on the sink's data that may panic. A format
  string is the list of its bytes up to the terminating zero; the variable arguments are
  the list of argument words (\<^verbatim>\<open>int\<close>, \<^verbatim>\<open>long\<close> and pointers are 32 bits wide), and taking one
  from the empty list is \<open>None\<close>. The local array \<^verbatim>\<open>buf\<close> of \<^verbatim>\<open>print_num\<close> is a list of
  optional bytes: \<open>None\<close> is a byte not yet written. A write outside the array and the output
  of a byte never written are \<open>None\<close> outcomes, which the lemmas exclude.
\<close>

type_synonym 's sink = "u8 list \<Rightarrow> 's \<Rightarrow> 's option"
type_synonym cbuf = "u8 option list"

section \<open>print\_char and print\_str\<close>

fun out_times :: "'s sink \<Rightarrow> u8 \<Rightarrow> nat \<Rightarrow> 's \<Rightarrow> 's option" where
  "out_times out c 0 d = Some d"
| "out_times out c (Suc n) d = do { d \<leftarrow> out [c] d; out_times out c n d }"

definition print_char :: "'s sink \<Rightarrow> u8 \<Rightarrow> int \<Rightarrow> bool \<Rightarrow> 's \<Rightarrow> 's option" where
  "print_char out c len ladjust d =
     (let len = (if len < 1 then 1 else len) in
      if ladjust then do { d \<leftarrow> out [c] d; out_times out 0x20 (nat (len - 1)) d }
      else do { d \<leftarrow> out_times out 0x20 (nat (len - 1)) d; out [c] d })"

text \<open>The bytes up to the first zero; \<open>None\<close> when the scan never ends.\<close>

partial_function (option) scan_str :: "mem \<Rightarrow> u32 \<Rightarrow> u8 list option" where
  "scan_str m s =
     (if m s = 0 then Some [] else do { bs \<leftarrow> scan_str m (s + 1); Some (m s # bs) })"

definition print_str :: "'s sink \<Rightarrow> mem \<Rightarrow> u32 \<Rightarrow> int \<Rightarrow> bool \<Rightarrow> 's \<Rightarrow> 's option" where
  "print_str out m s len ladjust d = do {
     bs \<leftarrow> scan_str m s;
     let n = int (length bs);
     let len = (if len < n then n else len);
     if ladjust then do { d \<leftarrow> out bs d; out_times out 0x20 (nat (len - n)) d }
     else do { d \<leftarrow> out_times out 0x20 (nat (len - n)) d; out bs d }
   }"

section \<open>print\_num\<close>

definition buf_put :: "nat \<Rightarrow> u8 \<Rightarrow> cbuf \<Rightarrow> cbuf option" where
  "buf_put i c buf = (if i < length buf then Some (buf[i := Some c]) else None)"

definition buf_get :: "nat \<Rightarrow> cbuf \<Rightarrow> u8 option" where
  "buf_get i buf = (if i < length buf then buf ! i else None)"

definition digit_char :: "u32 \<Rightarrow> bool \<Rightarrow> u8" where
  "digit_char tmp upcase =
     (if tmp \<le> 9 then 0x30 + ucast tmp
      else if upcase then 0x41 + ucast tmp - 10
      else 0x61 + ucast tmp - 10)"

partial_function (option) put_digits ::
  "u32 \<Rightarrow> u32 \<Rightarrow> bool \<Rightarrow> nat \<Rightarrow> cbuf \<Rightarrow> (nat \<times> cbuf) option" where
  "put_digits u base upcase p buf = do {
     buf \<leftarrow> buf_put p (digit_char (u mod base) upcase) buf;
     (if u div base \<noteq> 0 then put_digits (u div base) base upcase (p + 1) buf
      else Some (p + 1, buf))
   }"

text \<open>\<^verbatim>\<open>for (i = from; i < to; i++) buf[i] = c\<close>.\<close>

fun pad_buf :: "nat \<Rightarrow> nat \<Rightarrow> u8 \<Rightarrow> cbuf \<Rightarrow> cbuf option" where
  "pad_buf i 0 c buf = Some buf"
| "pad_buf i (Suc n) c buf = do { buf \<leftarrow> buf_put i c buf; pad_buf (i + 1) n c buf }"

function reverse_buf :: "nat \<Rightarrow> nat \<Rightarrow> cbuf \<Rightarrow> cbuf option" where
  "reverse_buf begn en buf =
     (if begn < en then do {
        tmp \<leftarrow> buf_get begn buf;
        e \<leftarrow> buf_get en buf;
        buf \<leftarrow> buf_put begn e buf;
        buf \<leftarrow> buf_put en tmp buf;
        reverse_buf (begn + 1) (en - 1) buf
      } else Some buf)"
  by pat_completeness auto
termination
  by (relation "measure (\<lambda>(b, e, _). e - b)") auto

declare reverse_buf.simps [simp del]

text \<open>The first half: the digits in reverse order, and the sign.\<close>

definition num_chars :: "u32 \<Rightarrow> u32 \<Rightarrow> bool \<Rightarrow> bool \<Rightarrow> cbuf \<Rightarrow> (nat \<times> cbuf) option" where
  "num_chars u base neg_flag upcase buf = do {
     (p, buf) \<leftarrow> put_digits u base upcase 0 buf;
     if neg_flag then do { buf \<leftarrow> buf_put p 0x2D buf; Some (p + 1, buf) } else Some (p, buf)
   }"

text \<open>The second half: the padding, the reversal, and the output of \<open>n\<close> characters.\<close>

definition num_finish :: "'s sink \<Rightarrow> bool \<Rightarrow> nat \<Rightarrow> nat \<Rightarrow> bool \<Rightarrow> u8 \<Rightarrow> cbuf \<Rightarrow> 's \<Rightarrow> 's option" where
  "num_finish out neg_flag actual n ladjust padc buf d = do {
     let padc = (if ladjust then 0x20 else padc);
     buf \<leftarrow> (if neg_flag \<and> \<not> ladjust \<and> padc = 0x30
            then do {
              buf \<leftarrow> pad_buf (actual - 1) (n - actual) padc buf;
              buf_put (n - 1) 0x2D buf
            }
            else pad_buf actual (n - actual) padc buf);
     buf \<leftarrow> reverse_buf 0 (if ladjust then actual - 1 else n - 1) buf;
     bs \<leftarrow> those (take n buf);
     out bs d
   }"

definition print_num ::
  "'s sink \<Rightarrow> u32 \<Rightarrow> u32 \<Rightarrow> bool \<Rightarrow> int \<Rightarrow> bool \<Rightarrow> u8 \<Rightarrow> bool \<Rightarrow> 's \<Rightarrow> 's option" where
  "print_num out u base neg_flag len ladjust padc upcase d = do {
     (actual, buf) \<leftarrow> num_chars u base neg_flag upcase (replicate (nat (len + 70)) None);
     let len = (if len < int actual then int actual else len);
     num_finish out neg_flag actual (nat len) ladjust padc buf d
   }"

section \<open>vprintfmt\<close>

text \<open>\<^verbatim>\<open>width\<close> is computed in 32 bits and read as a signed number.\<close>

fun get_width :: "u32 \<Rightarrow> u8 list \<Rightarrow> u32 \<times> u8 list" where
  "get_width w [] = (w, [])"
| "get_width w (c # fmt) =
     (if 0x30 \<le> c \<and> c \<le> 0x39 then get_width (w * 10 + (ucast c - 0x30)) fmt else (w, c # fmt))"

fun opt_flag :: "u8 \<Rightarrow> u8 list \<Rightarrow> bool \<times> u8 list" where
  "opt_flag f [] = (False, [])"
| "opt_flag f (c # fmt) = (if c = f then (True, fmt) else (False, c # fmt))"

definition va_arg :: "u32 list \<Rightarrow> (u32 \<times> u32 list) option" where
  "va_arg ap = (case ap of [] \<Rightarrow> None | w # ap \<Rightarrow> Some (w, ap))"

text \<open>The \<^verbatim>\<open>switch\<close> on the conversion character.\<close>

definition convert ::
  "'s sink \<Rightarrow> mem \<Rightarrow> u8 \<Rightarrow> int \<Rightarrow> bool \<Rightarrow> u8 \<Rightarrow> u32 list \<Rightarrow> 's \<Rightarrow> (u32 list \<times> 's) option" where
  "convert out m c width ladjust padc ap d =
     (if c = 0x62 then do {
        (num, ap) \<leftarrow> va_arg ap;
        d \<leftarrow> print_num out num 2 False width ladjust padc False d;
        Some (ap, d)
      } else if c = 0x64 \<or> c = 0x44 then do {
        (num, ap) \<leftarrow> va_arg ap;
        d \<leftarrow> (if sint num < 0 then print_num out (- num) 10 True width ladjust padc False d
              else print_num out num 10 False width ladjust padc False d);
        Some (ap, d)
      } else if c = 0x6F \<or> c = 0x4F then do {
        (num, ap) \<leftarrow> va_arg ap;
        d \<leftarrow> print_num out num 8 False width ladjust padc False d;
        Some (ap, d)
      } else if c = 0x75 \<or> c = 0x55 then do {
        (num, ap) \<leftarrow> va_arg ap;
        d \<leftarrow> print_num out num 10 False width ladjust padc False d;
        Some (ap, d)
      } else if c = 0x78 then do {
        (num, ap) \<leftarrow> va_arg ap;
        d \<leftarrow> print_num out num 16 False width ladjust padc False d;
        Some (ap, d)
      } else if c = 0x58 then do {
        (num, ap) \<leftarrow> va_arg ap;
        d \<leftarrow> print_num out num 16 False width ladjust padc True d;
        Some (ap, d)
      } else if c = 0x63 then do {
        (w, ap) \<leftarrow> va_arg ap;
        d \<leftarrow> print_char out (ucast w) width ladjust d;
        Some (ap, d)
      } else if c = 0x73 then do {
        (s, ap) \<leftarrow> va_arg ap;
        d \<leftarrow> print_str out m s width ladjust d;
        Some (ap, d)
      } else do {
        d \<leftarrow> out [c] d;
        Some (ap, d)
      })"

text \<open>The flags, the padding character, the width and the \<^verbatim>\<open>l\<close> modifier after a \<^verbatim>\<open>%\<close>.\<close>

definition spec_head :: "u8 list \<Rightarrow> bool \<times> u8 \<times> int \<times> u8 list" where
  "spec_head fmt =
     (let (ladjust, fmt) = opt_flag 0x2D fmt;
          (zero, fmt) = opt_flag 0x30 fmt;
          (width, fmt) = get_width 0 fmt;
          (_, fmt) = opt_flag 0x6C fmt
      in (ladjust, if zero then 0x30 else 0x20, sint width, fmt))"

lemma opt_flag_length: "length (snd (opt_flag f fmt)) \<le> length fmt"
  by (cases "(f, fmt)" rule: opt_flag.cases) auto

lemma get_width_length: "length (snd (get_width w fmt)) \<le> length fmt"
  by (induction w fmt rule: get_width.induct) auto

lemma spec_head_length:
  assumes "spec_head fmt = (l, p, w, fmt')"
  shows "length fmt' \<le> length fmt"
proof -
  obtain la f1 z f2 wd f3 lg where f: "opt_flag 0x2D fmt = (la, f1)" "opt_flag 0x30 f1 = (z, f2)"
    "get_width 0 f2 = (wd, f3)" "opt_flag 0x6C f3 = (lg, fmt')"
    using assms by (auto simp: spec_head_def split: prod.splits)
  have "length fmt' \<le> length f3" using opt_flag_length [where f = "0x6C" and fmt = f3] f(4) by simp
  also have "\<dots> \<le> length f2" using get_width_length [where w = 0 and fmt = f2] f(3) by simp
  also have "\<dots> \<le> length f1" using opt_flag_length [where f = "0x30" and fmt = f1] f(2) by simp
  also have "\<dots> \<le> length fmt" using opt_flag_length [where f = "0x2D" and fmt = fmt] f(1) by simp
  finally show ?thesis .
qed

lemma dropWhile_rest: "dropWhile P xs = c # r \<Longrightarrow> length r < length xs"
  using length_dropWhile_le [of P xs] by simp

function vprintfmt :: "'s sink \<Rightarrow> mem \<Rightarrow> u8 list \<Rightarrow> u32 list \<Rightarrow> 's \<Rightarrow> 's option" where
  "vprintfmt out m fmt ap d = do {
     d \<leftarrow> out (takeWhile (\<lambda>c. c \<noteq> 0x25) fmt) d;
     (case dropWhile (\<lambda>c. c \<noteq> 0x25) fmt of
        [] \<Rightarrow> Some d
      | _ # fmt \<Rightarrow>
          (case spec_head fmt of
             (ladjust, padc, width, []) \<Rightarrow> vprintfmt out m [] ap d
           | (ladjust, padc, width, c # fmt) \<Rightarrow> do {
               (ap, d) \<leftarrow> convert out m c width ladjust padc ap d;
               vprintfmt out m fmt ap d
             }))
   }"
  by pat_completeness auto
termination
  by (relation "measure (\<lambda>(_, _, fmt, _, _). length fmt)")
    (auto dest!: spec_head_length [OF sym] dropWhile_rest)

declare vprintfmt.simps [simp del]

section \<open>The sinks\<close>

text \<open>The kernel console: \<^verbatim>\<open>printcharc\<close> sends a carriage return before each line feed.\<close>

definition console_putc :: "u8 \<Rightarrow> u8 list \<Rightarrow> u8 list" where
  "console_putc ch con = con @ (if ch = 0x0A then [0x0D, ch] else [ch])"

definition outputk :: "u8 list sink" where
  "outputk buf con = Some (fold console_putc buf con)"

definition printk_out :: "mem \<Rightarrow> u8 list \<Rightarrow> u32 list \<Rightarrow> u8 list \<Rightarrow> u8 list option" where
  "printk_out m fmt ap con = vprintfmt outputk m fmt ap con"

text \<open>
  The buffered user console. The system call \<^verbatim>\<open>syscall_print_cons\<close> is an argument: it takes
  the bytes and the state of the system and returns its result and the new state.
\<close>

definition BUF_LEN :: nat where [mos_consts]: "BUF_LEN = 1024"

record 'k debug_ctx =
  db_buf :: "u8 list"
  db_pos :: nat
  db_sys :: 'k

type_synonym 'k print_cons = "u8 list \<Rightarrow> 'k \<Rightarrow> int \<times> 'k"

definition debug_flush :: "'k print_cons \<Rightarrow> 'k debug_ctx \<Rightarrow> 'k debug_ctx option" where
  "debug_flush pc ctx =
     (if db_pos ctx = 0 then Some ctx
      else (case pc (take (db_pos ctx) (db_buf ctx)) (db_sys ctx) of
              (r, k) \<Rightarrow> if r \<noteq> 0 then None else Some (ctx\<lparr>db_sys := k, db_pos := 0\<rparr>)))"

text \<open>\<^verbatim>\<open>memcpy(ctx->buf + pos, s, n)\<close>; writing outside \<^verbatim>\<open>buf\<close> is \<open>None\<close>.\<close>

definition put_at :: "nat \<Rightarrow> u8 list \<Rightarrow> u8 list \<Rightarrow> u8 list option" where
  "put_at pos bs buf =
     (if pos + length bs \<le> length buf then Some (take pos buf @ bs @ drop (pos + length bs) buf)
      else None)"

lemma debug_flush_pos: "debug_flush pc ctx = Some ctx' \<Longrightarrow> db_pos ctx' = 0"
  by (auto simp: debug_flush_def split: if_splits prod.splits)

function debug_output :: "'k print_cons \<Rightarrow> u8 list \<Rightarrow> 'k debug_ctx \<Rightarrow> 'k debug_ctx option" where
  "debug_output pc s ctx =
     (if db_pos ctx + length s > BUF_LEN then do {
        let n = BUF_LEN - db_pos ctx;
        buf \<leftarrow> put_at (db_pos ctx) (take n s) (db_buf ctx);
        ctx \<leftarrow> debug_flush pc (ctx\<lparr>db_buf := buf, db_pos := BUF_LEN\<rparr>);
        debug_output pc (drop n s) ctx
      } else do {
        buf \<leftarrow> put_at (db_pos ctx) s (db_buf ctx);
        Some (ctx\<lparr>db_buf := buf, db_pos := db_pos ctx + length s\<rparr>)
      })"
  by pat_completeness auto
termination
  by (relation "measures [\<lambda>(_, s, _). length s, \<lambda>(_, _, ctx). db_pos ctx]")
    (auto dest!: debug_flush_pos simp: BUF_LEN_def)

declare debug_output.simps [simp del]

lemma debug_output_more:
  "BUF_LEN < db_pos ctx + length s \<Longrightarrow> debug_output pc s ctx = do {
     buf \<leftarrow> put_at (db_pos ctx) (take (BUF_LEN - db_pos ctx) s) (db_buf ctx);
     ctx' \<leftarrow> debug_flush pc (ctx\<lparr>db_buf := buf, db_pos := BUF_LEN\<rparr>);
     debug_output pc (drop (BUF_LEN - db_pos ctx) s) ctx'
   }"
  by (subst debug_output.simps) (simp add: Let_def)

lemma debug_output_fits:
  "\<not> BUF_LEN < db_pos ctx + length s \<Longrightarrow> debug_output pc s ctx = do {
     buf \<leftarrow> put_at (db_pos ctx) s (db_buf ctx);
     Some (ctx\<lparr>db_buf := buf, db_pos := db_pos ctx + length s\<rparr>)
   }"
  by (subst debug_output.simps) simp

definition vdebugf :: "'k print_cons \<Rightarrow> u8 list \<Rightarrow> mem \<Rightarrow> u8 list \<Rightarrow> u32 list \<Rightarrow> 'k \<Rightarrow> 'k option" where
  "vdebugf pc stack m fmt ap k = do {
     ctx \<leftarrow> vprintfmt (debug_output pc) m fmt ap \<lparr>db_buf = stack, db_pos = 0, db_sys = k\<rparr>;
     ctx \<leftarrow> debug_flush pc ctx;
     Some (db_sys ctx)
   }"

text \<open>Output to a file descriptor; \<^verbatim>\<open>write\<close> is an argument.\<close>

record 'k print_ctx =
  pr_fd :: int
  pr_ret :: int
  pr_sys :: 'k

definition print_output :: "(int \<Rightarrow> u8 list \<Rightarrow> 'k \<Rightarrow> int \<times> 'k) \<Rightarrow> 'k print_ctx sink" where
  "print_output wr s ctx =
     (if pr_ret ctx < 0 then Some ctx
      else (case wr (pr_fd ctx) s (pr_sys ctx) of
              (r, k) \<Rightarrow> Some (if r < 0 then ctx\<lparr>pr_ret := r, pr_sys := k\<rparr>
                             else ctx\<lparr>pr_ret := pr_ret ctx + r, pr_sys := k\<rparr>)))"

definition vfprintf ::
  "(int \<Rightarrow> u8 list \<Rightarrow> 'k \<Rightarrow> int \<times> 'k) \<Rightarrow> int \<Rightarrow> mem \<Rightarrow> u8 list \<Rightarrow> u32 list \<Rightarrow> 'k \<Rightarrow> (int \<times> 'k) option" where
  "vfprintf wr fd m fmt ap k = do {
     ctx \<leftarrow> vprintfmt (print_output wr) m fmt ap \<lparr>pr_fd = fd, pr_ret = 0, pr_sys = k\<rparr>;
     Some (pr_ret ctx, pr_sys ctx)
   }"

section \<open>The number formatter against its specification\<close>

text \<open>The digits of \<open>u\<close> in \<open>base\<close>, least significant first.\<close>

function digits_rev :: "bool \<Rightarrow> u32 \<Rightarrow> u32 \<Rightarrow> u8 list" where
  "digits_rev upcase base u =
     digit_char (u mod base) upcase #
     (if u div base = 0 \<or> base \<le> 1 then [] else digits_rev upcase base (u div base))"
  by pat_completeness auto
termination
proof (relation "measure (\<lambda>(_, _, u). unat u)")
  show "wf (measure (\<lambda>(_ :: bool, _ :: u32, u :: u32). unat u))" by simp
next
  fix up base and u :: u32
  assume "\<not> (u div base = 0 \<or> base \<le> 1)"
  then have "1 < base" "u div base \<noteq> 0" by auto
  then have "1 < unat base" by (simp add: word_less_nat_alt)
  moreover have "u \<noteq> 0" using \<open>u div base \<noteq> 0\<close> by auto
  then have "0 < unat u" by (simp add: unat_gt_0)
  ultimately show "((up, base, u div base), (up, base, u)) \<in> measure (\<lambda>(_, _, u). unat u)"
    by (simp add: unat_div)
qed

declare digits_rev.simps [simp del]

definition fmt_num :: "u32 \<Rightarrow> u32 \<Rightarrow> bool \<Rightarrow> int \<Rightarrow> bool \<Rightarrow> u8 \<Rightarrow> bool \<Rightarrow> u8 list option" where
  "fmt_num u base neg len ladjust padc upcase =
     (let num = rev (digits_rev upcase base u); sign = (if neg then [0x2D] else []);
          fill = nat len - length (sign @ num) in
      if len + 70 < int (length (sign @ num)) then None
      else Some (if ladjust then sign @ num @ replicate fill 0x20
                 else if neg \<and> padc = 0x30 then sign @ replicate fill padc @ num
                 else replicate fill padc @ sign @ num))"

definition cb :: "u8 list \<Rightarrow> nat \<Rightarrow> cbuf" where
  "cb xs k = map Some xs @ replicate k None"

lemma cb_length [simp]: "length (cb xs k) = length xs + k"
  by (simp add: cb_def)

lemma buf_put_new [simp]: "buf_put (length xs) c (cb xs (Suc k)) = Some (cb (xs @ [c]) k)"
  by (simp add: buf_put_def cb_def list_update_append)

lemma buf_put_full [simp]: "buf_put (length xs) c (cb xs 0) = None"
  by (simp add: buf_put_def)

lemma buf_put_old: "i < length xs \<Longrightarrow> buf_put i c (cb xs k) = Some (cb (xs[i := c]) k)"
  by (simp add: buf_put_def cb_def list_update_append map_update)

lemma buf_get_old: "i < length xs \<Longrightarrow> buf_get i (cb xs k) = Some (xs ! i)"
  by (simp add: buf_get_def cb_def nth_append)

lemma put_digits_cb:
  assumes "1 < base"
  shows "put_digits u base up (length xs) (cb xs k) =
     (if length (digits_rev up base u) \<le> k
      then Some (length xs + length (digits_rev up base u),
             cb (xs @ digits_rev up base u) (k - length (digits_rev up base u)))
      else None)"
  using assms
proof (induction up base u arbitrary: xs k rule: digits_rev.induct)
  case (1 up base u)
  have b: "\<not> base \<le> 1" using 1(2) by simp
  show ?case
  proof (cases k)
    case 0
    then show ?thesis by (simp add: put_digits.simps digits_rev.simps [of up base u])
  next
    case (Suc k')
    have p: "put_digits u base up (length xs) (cb xs k) =
       (if u div base \<noteq> 0 then put_digits (u div base) base up (length xs + 1)
           (cb (xs @ [digit_char (u mod base) up]) k')
        else Some (length xs + 1, cb (xs @ [digit_char (u mod base) up]) k'))"
      by (subst put_digits.simps) (simp add: Suc)
    show ?thesis
    proof (cases "u div base = 0")
      case True
      then show ?thesis unfolding p by (simp add: digits_rev.simps [of up base u] Suc)
    next
      case False
      with b have "\<not> (u div base = 0 \<or> base \<le> 1)" by simp
      from 1(1) [OF this 1(2), of "xs @ [digit_char (u mod base) up]" k'] False b show ?thesis
        unfolding p by (simp add: digits_rev.simps [of up base u] Suc)
    qed
  qed
qed

lemma pad_buf_cb: "n \<le> k \<Longrightarrow> pad_buf (length xs) n c (cb xs k) = Some (cb (xs @ replicate n c) (k - n))"
proof (induction n arbitrary: xs k)
  case (Suc n)
  then obtain k' where k: "k = Suc k'" by (cases k) auto
  show ?case using Suc.IH [of k' "xs @ [c]"] Suc.prems k by (simp add: replicate_app_Cons_same)
qed simp

lemma those_map_Some [simp]: "those (map Some xs) = Some xs"
  by (induction xs) auto

lemma pad_sign_cb:
  assumes "m \<le> k"
  shows "Option.bind (pad_buf (length ds) m c (cb (ds @ [x]) k)) (buf_put (length ds + m) x) =
     Some (cb (ds @ replicate m c @ [x]) (k - m))"
proof (cases m)
  case 0
  have "(ds @ [x])[length ds := x] = ds @ [x]" by (simp add: list_update_append)
  then show ?thesis using 0 by (simp add: buf_put_old)
next
  case (Suc m')
  then obtain k' where k: "k = Suc k'" using assms by (cases k) auto
  have "buf_put (length ds) c (cb (ds @ [x]) k) = Some (cb (ds @ [c]) k)"
    by (simp add: buf_put_old list_update_append)
  moreover have "pad_buf (Suc (length ds)) m' c (cb (ds @ [c]) k) = Some (cb (ds @ [c] @ replicate m' c) (Suc (k' - m')))"
    using pad_buf_cb [of m' k "ds @ [c]" c] assms Suc k by (simp add: Suc_diff_le)
  ultimately show ?thesis
    using buf_put_new [of "ds @ [c] @ replicate m' c" x "k' - m'"] Suc k by (simp add: add.commute)
qed

lemma swap_ends:
  "buf_get (length xs) (cb (xs @ a # mid @ b # ys) k) = Some a"
  "buf_get (Suc (length xs + length mid)) (cb (xs @ a # mid @ b # ys) k) = Some b"
  "buf_put (length xs) c (cb (xs @ a # mid @ b # ys) k) = Some (cb (xs @ c # mid @ b # ys) k)"
  "buf_put (Suc (length xs + length mid)) c (cb (xs @ a # mid @ b # ys) k) = Some (cb (xs @ a # mid @ c # ys) k)"
  using nth_append_length [of "xs @ a # mid" b ys] list_update_length [of "xs @ a # mid" b ys c]
  by (simp_all add: buf_get_old buf_put_old)

lemma reverse_buf_cb:
  "mid \<noteq> [] \<Longrightarrow>
     reverse_buf (length xs) (length xs + length mid - 1) (cb (xs @ mid @ ys) k) = Some (cb (xs @ rev mid @ ys) k)"
proof (induction "length mid" arbitrary: xs mid ys rule: less_induct)
  case less
  from less.prems obtain a m1 where m1: "mid = a # m1" by (cases mid) auto
  show ?case
  proof (cases m1 rule: rev_cases)
    case Nil
    then show ?thesis using m1 by (simp add: reverse_buf.simps)
  next
    case (snoc m2 b)
    have r: "reverse_buf (length xs) (length xs + length mid - 1) (cb (xs @ mid @ ys) k) =
      reverse_buf (Suc (length xs)) (length xs + length m2) (cb (xs @ b # m2 @ a # ys) k)"
      by (subst reverse_buf.simps) (simp add: m1 snoc swap_ends)
    show ?thesis
    proof (cases "m2 = []")
      case True
      then show ?thesis unfolding r by (simp add: reverse_buf.simps m1 snoc)
    next
      case False
      have "length m2 < length mid" using m1 snoc by simp
      from less.hyps [OF this False, of "xs @ [b]" "a # ys"] show ?thesis
        unfolding r by (simp add: m1 snoc)
    qed
  qed
qed

lemma digits_rev_ne: "digits_rev up base u \<noteq> []"
  by (subst digits_rev.simps) simp

lemma cb_take: "n = length xs \<Longrightarrow> those (take n (cb xs k)) = Some xs"
  by (simp add: cb_def)

lemma num_chars_cb:
  fixes u base :: u32 and neg up :: bool
  assumes "1 < base"
  defines "cs \<equiv> digits_rev up base u @ (if neg then [0x2D] else [])"
  shows "num_chars u base neg up (replicate K None) =
     (if length cs \<le> K then Some (length cs, cb cs (K - length cs)) else None)"
proof -
  let ?ds = "digits_rev up base u"
  have ps: "put_digits u base up 0 (replicate K None) =
      (if length ?ds \<le> K then Some (length ?ds, cb ?ds (K - length ?ds)) else None)"
    using put_digits_cb [OF assms(1), of u up "[]" K] by (simp add: cb_def)
  show ?thesis
  proof (cases "length ?ds < K")
    case True
    then obtain k where k: "K - length ?ds = Suc k" by (metis Suc_diff_Suc)
    then have "k = K - Suc (length ?ds)" by simp
    with k True show ?thesis by (auto simp: num_chars_def ps cs_def)
  next
    case False
    then show ?thesis by (auto simp: num_chars_def ps cs_def)
  qed
qed

lemma num_finish_cb:
  fixes ds :: "u8 list" and neg :: bool
  assumes "f \<le> k" "ds \<noteq> []"
  defines "sg \<equiv> (if neg then [0x2D] else [])"
  defines "a \<equiv> length ds + length sg"
  shows "num_finish out neg a (a + f) ladjust padc (cb (ds @ sg) k) d =
     out (if ladjust then sg @ rev ds @ replicate f 0x20
          else if neg \<and> padc = 0x30 then sg @ replicate f padc @ rev ds
          else replicate f padc @ sg @ rev ds) d"
proof (cases "neg \<and> \<not> ladjust \<and> padc = 0x30")
  case True
  then have sg: "sg = [0x2D]" and a: "a = Suc (length ds)" by (simp_all add: sg_def a_def)
  have "Option.bind (pad_buf (length ds) f padc (cb (ds @ [0x2D]) k)) (buf_put (length ds + f) 0x2D) =
      Some (cb (ds @ replicate f padc @ [0x2D]) (k - f))"
    by (rule pad_sign_cb [OF assms(1)])
  then show ?thesis
    using True reverse_buf_cb [of "ds @ replicate f padc @ [0x2D]" "[]" "[]" "k - f"]
    by (simp add: num_finish_def a sg cb_take)
next
  case False
  have sg: "rev sg = sg" by (simp add: sg_def)
  have pad: "pad_buf a f pc (cb (ds @ sg) k) = Some (cb (ds @ sg @ replicate f pc) (k - f))" for pc
    using pad_buf_cb [OF assms(1), of "ds @ sg" pc] by (simp add: a_def)
  have r: "reverse_buf 0 (a + f - Suc 0) (cb (ds @ sg @ replicate f padc) (k - f)) =
      Some (cb (replicate f padc @ sg @ rev ds) (k - f))"
    using reverse_buf_cb [of "ds @ sg @ replicate f padc" "[]" "[]" "k - f"] assms(2)
    by (simp add: a_def sg add.assoc)
  have l: "reverse_buf 0 (a - Suc 0) (cb (ds @ sg @ replicate f 0x20) (k - f)) =
      Some (cb (sg @ rev ds @ replicate f 0x20) (k - f))"
    using reverse_buf_cb [of "ds @ sg" "[]" "replicate f 0x20" "k - f"] assms(2)
    by (simp add: a_def sg)
  have t: "those (take (a + f) (cb (replicate f padc @ sg @ rev ds) (k - f))) = Some (replicate f padc @ sg @ rev ds)"
    "those (take (a + f) (cb (sg @ rev ds @ replicate f 0x20) (k - f))) = Some (sg @ rev ds @ replicate f 0x20)"
    by (rule cb_take, simp add: a_def)+
  show ?thesis
    using False by (auto simp: num_finish_def Let_def pad r l t)
qed

lemma print_num_fmt:
  assumes "1 < base"
  shows "print_num out u base neg len ladjust padc up d =
     (case fmt_num u base neg len ladjust padc up of None \<Rightarrow> None | Some bs \<Rightarrow> out bs d)"
proof -
  define ds where "ds = digits_rev up base u"
  define sg where "sg = (if neg then [0x2D :: u8] else [])"
  define a where "a = length ds + length sg"
  define f where "f = nat len - a"
  have ne: "ds \<noteq> []" unfolding ds_def by (rule digits_rev_ne)
  have pos: "0 < a" using ne by (simp add: a_def)
  have n: "nat (if len < int a then int a else len) = a + f" by (auto simp: f_def)
  have fit: "len + 70 < int a \<longleftrightarrow> \<not> a \<le> nat (len + 70)" using pos by linarith
  have nc: "num_chars u base neg up (replicate (nat (len + 70)) None) =
      (if a \<le> nat (len + 70) then Some (a, cb (ds @ sg) (nat (len + 70) - a)) else None)"
    using num_chars_cb [OF assms, where up = up and u = u and neg = neg and K = "nat (len + 70)"]
    unfolding ds_def [symmetric] sg_def [symmetric] by (simp add: a_def)
  have fmt: "fmt_num u base neg len ladjust padc up =
      (if a \<le> nat (len + 70) then Some (if ladjust then sg @ rev ds @ replicate f 0x20
         else if neg \<and> padc = 0x30 then sg @ replicate f padc @ rev ds
         else replicate f padc @ sg @ rev ds) else None)"
    unfolding fmt_num_def Let_def ds_def [symmetric] sg_def [symmetric]
    using fit by (simp add: a_def f_def add.commute)
  show ?thesis
  proof (cases "a \<le> nat (len + 70)")
    case True
    then have "f \<le> nat (len + 70) - a" by (auto simp: f_def)
    from num_finish_cb [OF this ne, of out neg ladjust padc d] True show ?thesis
      unfolding sg_def [symmetric] a_def [symmetric]
      by (simp add: print_num_def nc fmt n Let_def)
  next
    case False
    then show ?thesis by (simp add: print_num_def nc fmt)
  qed
qed

section \<open>The formatter against a list of bytes\<close>

definition fmt_field :: "u8 list \<Rightarrow> int \<Rightarrow> bool \<Rightarrow> u8 list" where
  "fmt_field bs len ladjust =
     (let sp = replicate (nat len - length bs) 0x20 in if ladjust then bs @ sp else sp @ bs)"

definition fmt_conv :: "mem \<Rightarrow> u8 \<Rightarrow> int \<Rightarrow> bool \<Rightarrow> u8 \<Rightarrow> u32 \<Rightarrow> u8 list option" where
  "fmt_conv m c width ladjust padc w =
     (if c = 0x62 then fmt_num w 2 False width ladjust padc False
      else if c \<in> {0x64, 0x44}
      then fmt_num (if sint w < 0 then - w else w) 10 (sint w < 0) width ladjust padc False
      else if c \<in> {0x6F, 0x4F} then fmt_num w 8 False width ladjust padc False
      else if c \<in> {0x75, 0x55} then fmt_num w 10 False width ladjust padc False
      else if c \<in> {0x78, 0x58} then fmt_num w 16 False width ladjust padc (c = 0x58)
      else if c = 0x63 then Some (fmt_field [ucast w] width ladjust)
      else map_option (\<lambda>bs. fmt_field bs width ladjust) (scan_str m w))"

definition takes_arg :: "u8 \<Rightarrow> bool" where
  "takes_arg c \<longleftrightarrow> c \<in> {0x62, 0x64, 0x44, 0x6F, 0x4F, 0x75, 0x55, 0x78, 0x58, 0x63, 0x73}"

function fmt_text :: "mem \<Rightarrow> u8 list \<Rightarrow> u32 list \<Rightarrow> u8 list option" where
  "fmt_text m fmt ap =
     (case dropWhile (\<lambda>c. c \<noteq> 0x25) fmt of
        [] \<Rightarrow> Some fmt
      | _ # rest \<Rightarrow>
          (case spec_head rest of
             (_, _, _, []) \<Rightarrow> Some (takeWhile (\<lambda>c. c \<noteq> 0x25) fmt)
           | (ladjust, padc, width, c # rest) \<Rightarrow> do {
               (bs, ap) \<leftarrow> (if takes_arg c
                 then (case ap of [] \<Rightarrow> None
                       | w # ap \<Rightarrow> map_option (\<lambda>bs. (bs, ap)) (fmt_conv m c width ladjust padc w))
                 else Some ([c], ap));
               tl \<leftarrow> fmt_text m rest ap;
               Some (takeWhile (\<lambda>c. c \<noteq> 0x25) fmt @ bs @ tl)
             }))"
  by pat_completeness auto
termination
  by (relation "measure (\<lambda>(_, fmt, _). length fmt)")
    (auto dest!: spec_head_length [OF sym] dropWhile_rest)

declare fmt_text.simps [simp del]

text \<open>
  A sink that only sees the bytes: how the text is cut into calls of the callback does not
  matter to it, on the states \<open>wf\<close> that it keeps.
\<close>

locale stream_sink =
  fixes out :: "'s sink" and wf :: "'s \<Rightarrow> bool"
  assumes out_nil: "wf d \<Longrightarrow> out [] d = Some d"
    and out_append: "wf d \<Longrightarrow> out (xs @ ys) d = Option.bind (out xs d) (out ys)"
    and out_wf: "wf d \<Longrightarrow> out xs d = Some d' \<Longrightarrow> wf d'"
begin

lemma out_times_stream: "wf d \<Longrightarrow> out_times out c n d = out (replicate n c) d"
proof (induction n arbitrary: d)
  case 0
  then show ?case by (simp add: out_nil)
next
  case (Suc n)
  then show ?case using out_append [of d "[c]" "replicate n c"] out_wf [of d "[c]"]
    by (cases "out [c] d") auto
qed

lemma out_then_times:
  assumes "wf d"
  shows "Option.bind (out bs d) (out_times out c n) = out (bs @ replicate n c) d"
  using assms out_wf [OF assms] by (cases "out bs d") (auto simp: out_append out_times_stream)

lemma times_then_out:
  "wf d \<Longrightarrow> Option.bind (out_times out c n d) (out bs) = out (replicate n c @ bs) d"
  by (simp add: out_append out_times_stream)

lemma print_char_stream:
  "wf d \<Longrightarrow> print_char out c len ladjust d = out (fmt_field [c] len ladjust) d"
  using out_then_times [of d "[c]" "0x20"] times_then_out [of d "0x20" _ "[c]"]
  by (auto simp: print_char_def fmt_field_def Let_def nat_diff_distrib out_nil)

lemma print_str_stream:
  "wf d \<Longrightarrow> print_str out m s len ladjust d =
     Option.bind (scan_str m s) (\<lambda>bs. out (fmt_field bs len ladjust) d)"
  by (cases "scan_str m s")
    (auto simp: print_str_def fmt_field_def Let_def out_then_times times_then_out nat_diff_distrib out_nil)

lemma convert_stream:
  assumes "wf d"
  shows "convert out m c width ladjust padc ap d =
     (if takes_arg c
      then (case ap of [] \<Rightarrow> None
            | w # ap \<Rightarrow> Option.bind (fmt_conv m c width ladjust padc w)
                (\<lambda>bs. map_option (Pair ap) (out bs d)))
      else map_option (Pair ap) (out [c] d))"
proof -
  have bm: "Option.bind x (\<lambda>y. Some (p, y)) = map_option (Pair p) x" for x :: "'s option" and p :: "u32 list"
    by (cases x) auto
  have n: "print_num out u base neg len ladjust padc up d =
      Option.bind (fmt_num u base neg len ladjust padc up) (\<lambda>bs. out bs d)" if "1 < base" for u base neg len up
    by (cases "fmt_num u base neg len ladjust padc up") (simp_all add: print_num_fmt [OF that])
  have mb: "map_option (Pair p) (Option.bind x f) = Option.bind x (\<lambda>y. map_option (Pair p) (f y))"
    for x :: "u8 list option" and f :: "u8 list \<Rightarrow> 's option" and p :: "u32 list"
    by (cases x) auto
  have mo: "Option.bind (map_option f x) g = Option.bind x (\<lambda>y. g (f y))"
    for x :: "u8 list option" and f :: "u8 list \<Rightarrow> u8 list" and g :: "u8 list \<Rightarrow> (u32 list \<times> 's) option"
    by (cases x) auto
  show ?thesis
    using assms
    by (cases ap) (auto simp: convert_def takes_arg_def fmt_conv_def va_arg_def n bm mb mo print_char_stream
        print_str_stream)
qed

lemma vprintfmt_stream:
  "wf d \<Longrightarrow> vprintfmt out m fmt ap d = Option.bind (fmt_text m fmt ap) (\<lambda>bs. out bs d)"
proof (induction m fmt ap arbitrary: d rule: fmt_text.induct)
  case (1 m fmt ap)
  let ?lit = "takeWhile (\<lambda>c. c \<noteq> 0x25) fmt"
  note d = \<open>wf d\<close>
  show ?case
  proof (cases "dropWhile (\<lambda>c. c \<noteq> 0x25) fmt")
    case Nil
    then have lit: "?lit = fmt" by (metis append_Nil2 takeWhile_dropWhile_id)
    show ?thesis unfolding vprintfmt.simps [of out m fmt] fmt_text.simps [of m fmt] Nil lit by simp
  next
    case (Cons p rest)
    obtain l pc w tail where h: "spec_head rest = (l, pc, w, tail)" by (metis prod_cases4)
    note unf = vprintfmt.simps [of out m fmt] fmt_text.simps [of m fmt] Cons list.case h prod.case
    show ?thesis
    proof (cases tail)
      case Nil
      have "vprintfmt out m [] ap d' = Some d'" if "wf d'" for d'
        using out_nil [OF that] by (simp add: vprintfmt.simps)
      then show ?thesis
        using out_wf [OF d, of ?lit] unfolding unf Nil by (cases "out ?lit d") simp_all
    next
      case t: (Cons c fmt')
      note IH = 1(1) [OF Cons h [symmetric] refl refl t]
      show ?thesis
      proof (cases "out ?lit d")
        case None
        then have "out (?lit @ bs) d = None" for bs by (simp add: out_append [OF d])
        then show ?thesis unfolding unf t None by (auto split: bind_splits)
      next
        case (Some d1)
        note w1 = out_wf [OF d Some]
        have app: "out (?lit @ bs @ tl) d = Option.bind (out bs d1) (out tl)" for bs tl
          using Some by (simp add: out_append [OF d] out_append [OF w1])
        have step: "Option.bind (map_option (Pair ap') (out bs d1)) (\<lambda>(x, y). vprintfmt out m fmt' x y) =
            Option.bind (Option.bind (fmt_text m fmt' ap') (\<lambda>tl. Some (?lit @ bs @ tl))) (\<lambda>bs. out bs d)"
          if "\<And>d'. wf d' \<Longrightarrow> vprintfmt out m fmt' ap' d' = Option.bind (fmt_text m fmt' ap') (\<lambda>bs. out bs d')"
          for ap' bs
          using that out_wf [OF w1, of bs]
          by (cases "out bs d1"; cases "fmt_text m fmt' ap'") (auto simp: app)
        show ?thesis
        proof (cases "takes_arg c")
          case False
          then show ?thesis
            using step [of ap "[c]"] IH unfolding unf t Some convert_stream [OF w1] bind.bind_lunit by simp
        next
          case ta: True
          show ?thesis
          proof (cases ap)
            case Nil
            then show ?thesis
              using ta unfolding unf t Some convert_stream [OF w1] bind.bind_lunit by simp
          next
            case (Cons a ap')
            then show ?thesis
              using ta step [of ap'] IH unfolding unf t Some convert_stream [OF w1] bind.bind_lunit
              by (cases "fmt_conv m c w l pc a") simp_all
          qed
        qed
      qed
    qed
  qed
qed

end

section \<open>The kernel console and the user console as streams\<close>

interpretation kout: stream_sink outputk "\<lambda>_. True"
  by unfold_locales (auto simp: outputk_def)

definition crlf :: "u8 list \<Rightarrow> u8 list" where
  "crlf bs = concat (map (\<lambda>b. if b = 0x0A then [0x0D, b] else [b]) bs)"

lemma outputk_crlf: "outputk bs con = Some (con @ crlf bs)"
proof -
  have "fold console_putc bs con = con @ crlf bs"
    by (induction bs arbitrary: con) (auto simp: console_putc_def crlf_def)
  then show ?thesis by (simp add: outputk_def)
qed

definition debug_wf :: "'k debug_ctx \<Rightarrow> bool" where
  "debug_wf ctx \<longleftrightarrow> length (db_buf ctx) = BUF_LEN \<and> db_pos ctx \<le> BUF_LEN"

lemma put_at_append:
  assumes "pos \<le> length buf"
  shows "put_at pos (xs @ ys) buf = Option.bind (put_at pos xs buf) (put_at (pos + length xs) ys)"
proof (cases "pos + length xs + length ys \<le> length buf")
  case True
  then show ?thesis using assms by (simp add: put_at_def ac_simps)
next
  case False
  then show ?thesis using assms by (auto simp: put_at_def)
qed

lemma put_at_length: "put_at pos bs buf = Some buf' \<Longrightarrow> length buf' = length buf"
  by (auto simp: put_at_def split: if_splits)

lemma debug_flush_wf: "debug_wf ctx \<Longrightarrow> debug_flush pc ctx = Some ctx' \<Longrightarrow> debug_wf ctx'"
  by (auto simp: debug_flush_def debug_wf_def split: if_splits prod.splits)

lemma debug_output_wf: "debug_wf ctx \<Longrightarrow> debug_output pc s ctx = Some ctx' \<Longrightarrow> debug_wf ctx'"
proof (induction pc s ctx rule: debug_output.induct)
  case (1 pc s ctx)
  show ?case
  proof (cases "BUF_LEN < db_pos ctx + length s")
    case True
    then obtain buf ctx1 where b: "put_at (db_pos ctx) (take (BUF_LEN - db_pos ctx) s) (db_buf ctx) = Some buf"
      and f: "debug_flush pc (ctx\<lparr>db_buf := buf, db_pos := BUF_LEN\<rparr>) = Some ctx1"
      and r: "debug_output pc (drop (BUF_LEN - db_pos ctx) s) ctx1 = Some ctx'"
      using "1.prems"(2) by (auto simp: debug_output_more split: bind_splits)
    have "debug_wf ctx1"
      using debug_flush_wf [OF _ f] put_at_length [OF b] "1.prems"(1) by (simp add: debug_wf_def)
    from "1.IH" [OF True refl b f this r] show ?thesis .
  next
    case False
    then show ?thesis
      using "1.prems" by (auto simp: debug_output_fits debug_wf_def split: bind_splits dest: put_at_length)
  qed
qed

lemma debug_output_append:
  "debug_wf ctx \<Longrightarrow> debug_output pc (xs @ ys) ctx = Option.bind (debug_output pc xs ctx) (debug_output pc ys)"
proof (induction pc xs ctx rule: debug_output.induct)
  case (1 pc xs ctx)
  let ?n = "BUF_LEN - db_pos ctx"
  have pos: "db_pos ctx \<le> length (db_buf ctx)" "db_pos ctx \<le> BUF_LEN"
    using "1.prems" by (simp_all add: debug_wf_def)
  show ?case
  proof (cases "BUF_LEN < db_pos ctx + length xs")
    case True
    then have e: "?n - length xs = 0" "BUF_LEN < db_pos ctx + (length xs + length ys)" by simp_all
    have IH: "debug_output pc (drop ?n xs @ ys) c = Option.bind (debug_output pc (drop ?n xs) c) (debug_output pc ys)"
      if "put_at (db_pos ctx) (take ?n xs) (db_buf ctx) = Some b"
        "debug_flush pc (ctx\<lparr>db_buf := b, db_pos := BUF_LEN\<rparr>) = Some c" for b c
    proof (rule "1.IH" [OF True refl that])
      show "debug_wf c" using debug_flush_wf [OF _ that(2)] put_at_length [OF that(1)] "1.prems"
        by (simp add: debug_wf_def)
    qed
    have m: "BUF_LEN < db_pos ctx + length (xs @ ys)" using e(2) by simp
    show ?thesis
      using e(1) IH unfolding debug_output_more [OF True] debug_output_more [OF m]
      by (auto split: bind_splits)
  next
    case False
    let ?m = "BUF_LEN - (db_pos ctx + length xs)"
    have tk: "take ?n (xs @ ys) = xs @ take ?m ys" "drop ?n (xs @ ys) = drop ?m ys"
      using False by simp_all
    show ?thesis
    proof (cases "BUF_LEN < db_pos ctx + length (xs @ ys)")
      case True
      show ?thesis
        using True unfolding debug_output_more [OF True] debug_output_fits [OF False] tk put_at_append [OF pos(1)]
        by (auto simp: debug_output_more add.assoc split: bind_splits)
    next
      case F: False
      show ?thesis
        using F unfolding debug_output_fits [OF F] debug_output_fits [OF False] put_at_append [OF pos(1)]
        by (auto simp: debug_output_fits add.assoc split: bind_splits)
    qed
  qed
qed

interpretation dout: stream_sink "debug_output pc" debug_wf for pc
proof
  fix d :: "'a debug_ctx" assume w: "debug_wf d"
  then show "debug_output pc [] d = Some d"
    by (auto simp: debug_output_fits debug_wf_def put_at_def)
qed (auto simp: debug_output_append debug_output_wf)

end
