(* ===== verification/Print_Props.thy ===== *)
theory Print_Props
  imports Print
begin

text \<open>
  What formatted output promises: the text is the one a reference formatter gives, the
  local buffer of \<^verbatim>\<open>print_num\<close> is never overrun, numbers can be read back, and the buffering
  of the user console does not show.
\<close>

section \<open>Digits\<close>

definition digit_val :: "u8 \<Rightarrow> nat" where
  "digit_val c = (if c \<le> 0x39 then unat c - 0x30 else if c \<le> 0x46 then unat c - 0x37 else unat c - 0x57)"

definition num_value :: "nat \<Rightarrow> u8 list \<Rightarrow> nat" where
  "num_value base bs = foldl (\<lambda>n c. n * base + digit_val c) 0 bs"

lemma digit_val_char:
  assumes "unat t < 16"
  shows "digit_val (digit_char t up) = unat t"
proof -
  have "\<forall>n \<in> set [0..<16]. digit_val (digit_char (of_nat n) up) = n"
    by (cases up) (simp_all add: digit_val_def digit_char_def upt_rec)
  then have "digit_val (digit_char (of_nat (unat t)) up) = unat t" by (rule bspec) (use assms in simp)
  then show ?thesis by simp
qed

lemma num_value_digits:
  "1 < base \<Longrightarrow> base \<le> 16 \<Longrightarrow> num_value (unat base) (rev (digits_rev up base u)) = unat u"
proof (induction up base u rule: digits_rev.induct)
  case (1 up base u)
  have b: "\<not> base \<le> 1" "1 < unat base" "unat base \<le> 16"
    using 1(2,3) by (simp_all add: word_less_nat_alt word_le_nat_alt)
  have "unat (u mod base) < unat base" using b(2) by (simp add: unat_mod)
  then have d: "digit_val (digit_char (u mod base) up) = unat u mod unat base"
    using digit_val_char b(3) by (simp add: unat_mod)
  show ?case
  proof (cases "u div base = 0")
    case True
    then have "unat u div unat base = 0" by (metis unat_div unat_0)
    then have "unat u mod unat base = unat u" using b(2) by (simp add: div_eq_0_iff)
    then show ?thesis using True d by (subst digits_rev.simps) (simp add: num_value_def)
  next
    case False
    then have "num_value (unat base) (rev (digits_rev up base (u div base))) = unat (u div base)"
      using 1(1) [OF _ 1(2,3)] b by simp
    then show ?thesis using False b(1) d
      by (subst digits_rev.simps) (simp add: num_value_def unat_div)
  qed
qed

lemma digits_rev_length: "1 < base \<Longrightarrow> unat u < 2 ^ k \<Longrightarrow> 0 < k \<Longrightarrow> length (digits_rev up base u) \<le> k"
proof (induction up base u arbitrary: k rule: digits_rev.induct)
  case (1 up base u)
  show ?case
  proof (cases "u div base = 0 \<or> base \<le> 1")
    case True
    then show ?thesis using 1(4) by (subst digits_rev.simps) auto
  next
    case False
    have b: "2 \<le> unat base" using 1(2) by (simp add: word_less_nat_alt)
    obtain j where k: "k = Suc j" using 1(4) by (cases k) auto
    have "unat (u div base) * 2 \<le> unat (u div base) * unat base" using b by simp
    also have "\<dots> \<le> unat u" by (simp add: unat_div)
    finally have lt: "unat (u div base) < 2 ^ j" using 1(3) k by simp
    moreover have "0 < j" using lt False by (cases j) (auto simp: unat_eq_0)
    ultimately have "length (digits_rev up base (u div base)) \<le> j"
      using 1(1) [OF False 1(2)] by blast
    then show ?thesis using False k by (subst digits_rev.simps) simp
  qed
qed

lemma digits_rev_32: "1 < base \<Longrightarrow> length (digits_rev up base u) \<le> 32"
  using digits_rev_length [of base u 32 up] unsigned_less [of u, where ?'a = nat] by simp

section \<open>The user console\<close>

text \<open>\<^verbatim>\<open>sys_print_cons\<close> on a legal address range: every byte goes to the console.\<close>

definition print_cons_ok :: "u8 list print_cons" where
  "print_cons_ok bs con = (0, fold console_putc bs con)"

definition shown :: "u8 list debug_ctx \<Rightarrow> u8 list" where
  "shown ctx = db_sys ctx @ crlf (take (db_pos ctx) (db_buf ctx))"

lemma fold_putc: "fold console_putc bs con = con @ crlf bs"
  using outputk_crlf [of bs con] by (simp add: outputk_def)

lemma crlf_append [simp]: "crlf (xs @ ys) = crlf xs @ crlf ys"
  by (simp add: crlf_def)

lemma crlf_Nil [simp]: "crlf [] = []"
  by (simp add: crlf_def)

lemma debug_flush_ok:
  "debug_wf ctx \<Longrightarrow> \<exists>ctx'. debug_flush print_cons_ok ctx = Some ctx' \<and> debug_wf ctx' \<and> db_pos ctx' = 0 \<and>
     db_sys ctx' = shown ctx"
  by (auto simp: debug_flush_def print_cons_ok_def debug_wf_def shown_def fold_putc)

lemma debug_output_ok:
  "debug_wf ctx \<Longrightarrow> \<exists>ctx'. debug_output print_cons_ok s ctx = Some ctx' \<and> debug_wf ctx' \<and>
     shown ctx' = shown ctx @ crlf s"
proof (induction "print_cons_ok" s ctx rule: debug_output.induct)
  case (1 s ctx)
  let ?n = "BUF_LEN - db_pos ctx"
  have w: "length (db_buf ctx) = BUF_LEN" "db_pos ctx \<le> BUF_LEN" using "1.prems" by (simp_all add: debug_wf_def)
  show ?case
  proof (cases "BUF_LEN < db_pos ctx + length s")
    case True
    define buf where "buf = take (db_pos ctx) (db_buf ctx) @ take ?n s"
    have b: "put_at (db_pos ctx) (take ?n s) (db_buf ctx) = Some buf"
      using True w by (simp add: put_at_def buf_def)
    have lb: "length buf = BUF_LEN" using put_at_length [OF b] w by simp
    let ?c = "ctx\<lparr>db_buf := buf, db_pos := BUF_LEN\<rparr>"
    have "debug_wf ?c" using lb by (simp add: debug_wf_def)
    then obtain c where c: "debug_flush print_cons_ok ?c = Some c" "debug_wf c" "db_pos c = 0" "db_sys c = shown ?c"
      using debug_flush_ok by blast
    have "shown c = shown ?c" using c(3,4) by (simp add: shown_def)
    also have "\<dots> = shown ctx @ crlf (take ?n s)" using lb w by (simp add: shown_def buf_def)
    finally have sc: "shown c = shown ctx @ crlf (take ?n s)" .
    have "crlf (take ?n s) @ crlf (drop ?n s) = crlf s" by (metis append_take_drop_id crlf_append)
    then show ?thesis
      using "1.hyps" [OF True refl b c(1,2)] sc unfolding debug_output_more [OF True] by (auto simp: b c(1))
  next
    case False
    then show ?thesis
      using w unfolding debug_output_fits [OF False] by (auto simp: put_at_def debug_wf_def shown_def)
  qed
qed

lemma printk_out_text:
  "printk_out m fmt ap con = map_option (\<lambda>bs. con @ crlf bs) (fmt_text m fmt ap)"
  using kout.vprintfmt_stream [where d = con and m = m and fmt = fmt and ap = ap]
  by (cases "fmt_text m fmt ap") (simp_all add: printk_out_def outputk_crlf)

lemma vdebugf_text:
  assumes "length stack = BUF_LEN"
  shows "vdebugf print_cons_ok stack m fmt ap con = map_option (\<lambda>bs. con @ crlf bs) (fmt_text m fmt ap)"
proof -
  let ?c = "\<lparr>db_buf = stack, db_pos = 0, db_sys = con\<rparr>"
  have w: "debug_wf ?c" using assms by (simp add: debug_wf_def)
  show ?thesis
  proof (cases "fmt_text m fmt ap")
    case None
    then show ?thesis using dout.vprintfmt_stream [OF w] by (simp add: vdebugf_def)
  next
    case (Some bs)
    obtain c where c: "debug_output print_cons_ok bs ?c = Some c" "debug_wf c" "shown c = con @ crlf bs"
      using debug_output_ok [OF w, of bs] by (auto simp: shown_def)
    obtain c' where "debug_flush print_cons_ok c = Some c'" "db_sys c' = shown c"
      using debug_flush_ok [OF c(2)] by blast
    then show ?thesis using dout.vprintfmt_stream [OF w] Some c by (simp add: vdebugf_def)
  qed
qed

section \<open>Properties\<close>

text \<open>
  C26. \<^verbatim>\<open>printk\<close> shows on the console exactly the text of the reference formatter (literal
  text, each conversion padded to its width, carriage return before line feed), for every
  format and every argument list; it fails only where the reference has no text, that is
  when an argument is missing or a string has no end. \<^verbatim>\<open>debugf\<close> of the user library shows the
  same text: whatever its 1024-byte buffer held before, and the points where the buffer is
  flushed, change nothing of what is shown.
\<close>

theorem console_output_correct:
  assumes "length stack = BUF_LEN"
  shows "printk_out m fmt ap con = map_option (\<lambda>bs. con @ crlf bs) (fmt_text m fmt ap) \<and>
     vdebugf print_cons_ok stack m fmt ap con = printk_out m fmt ap con"
  using printk_out_text vdebugf_text [OF assms] by simp_all

theorem console_output_correct_witness:
  "vdebugf print_cons_ok (replicate 1024 7) (\<lambda>_. 0) [0x78, 0x3D, 0x25, 0x34, 0x64, 0x0A] [- 12] [] =
     Some [0x78, 0x3D, 0x20, 0x2D, 0x31, 0x32, 0x0D, 0x0A]"
proof -
  have len: "length (replicate 1024 (7 :: u8)) = BUF_LEN" by (simp add: BUF_LEN_def)
  note * = console_output_correct [OF len, THEN conjunct2, of "\<lambda>_. 0" "[0x78, 0x3D, 0x25, 0x34, 0x64, 0x0A]" "[- 12]" "[]"]
  show ?thesis
    unfolding * console_output_correct [OF len, THEN conjunct1]
    by (simp add: fmt_text.simps spec_head_def fmt_conv_def takes_arg_def fmt_num_def digits_rev.simps
        digit_char_def crlf_def Let_def word_le_nat_alt)
qed

text \<open>
  C27. For a width that is not negative \<^verbatim>\<open>print_num\<close> never writes or reads outside its local
  array of \<^verbatim>\<open>length + 70\<close> bytes, in any base, with or without sign and for every 32-bit
  number: it hands one block to the sink, as long as the width or the number with its sign,
  whichever is more, and no number needs more than 33 characters.
\<close>

theorem print_num_bounds:
  assumes "1 < base" "0 \<le> len"
  shows "\<exists>bs. (\<forall>d. print_num out u base neg len ladjust padc up d = out bs d) \<and>
     length bs = max (nat len) (length (digits_rev up base u) + (if neg then 1 else 0)) \<and>
     length (digits_rev up base u) + (if neg then 1 else 0) \<le> 33"
proof -
  have l: "length (digits_rev up base u) \<le> 32" by (rule digits_rev_32 [OF assms(1)])
  have "\<exists>bs. fmt_num u base neg len ladjust padc up = Some bs \<and>
      length bs = max (nat len) (length (digits_rev up base u) + (if neg then 1 else 0))"
    using l assms(2) by (cases neg) (simp_all add: fmt_num_def Let_def max_def)
  then obtain bs where bs: "fmt_num u base neg len ladjust padc up = Some bs"
    "length bs = max (nat len) (length (digits_rev up base u) + (if neg then 1 else 0))" by blast
  then show ?thesis using l by (intro exI [of _ bs]) (simp add: print_num_fmt [OF assms(1)])
qed

theorem print_num_bounds_witness:
  "\<exists>bs. (\<forall>d. print_num (\<lambda>bs d. Some (d @ bs)) 0xFFFFFFFF 2 True 5 False 0x30 False d = Some (d @ bs)) \<and>
     length bs \<le> 33"
  using print_num_bounds [of 2 5 "\<lambda>bs d. Some (d @ bs)" "0xFFFFFFFF" True False "0x30" False] by auto

text \<open>
  C28. What \<^verbatim>\<open>print_num\<close> prints can be read back: without sign and width, the block that
  reaches the sink is a numeral whose value in that base is the number printed, in lower and
  upper case.
\<close>

theorem print_num_roundtrip:
  assumes "1 < base" "base \<le> 16"
  shows "\<exists>bs. (\<forall>out d. print_num out u base False 0 ladjust padc up d = out bs (d :: 's)) \<and>
     num_value (unat base) bs = unat u"
proof -
  have "fmt_num u base False 0 ladjust padc up = Some (rev (digits_rev up base u))"
    using digits_rev_32 [OF assms(1), of up u] by (auto simp: fmt_num_def Let_def)
  then show ?thesis
    using num_value_digits [OF assms]
    by (intro exI [of _ "rev (digits_rev up base u)"]) (simp add: print_num_fmt [OF assms(1)])
qed

theorem print_num_roundtrip_witness:
  "\<exists>bs. (\<forall>out d. print_num out 0xBEEF 16 False 0 False 0x20 True d = out bs (d :: nat)) \<and>
     num_value 16 bs = 0xBEEF"
  using print_num_roundtrip [where base = 16 and u = "0xBEEF" and 's = nat] by simp

end
