(* ===== verification/Shell.thy ===== *)
theory Shell
  imports Print
begin

text \<open>
  The shell \<^verbatim>\<open>user/sh.c\<close>. The tokenizer works in place on a byte memory, as the code does:
  it returns pointers into the line and overwrites separators with zero bytes. The command
  interpreter runs in one process: every call that leaves the program (\<^verbatim>\<open>open\<close>, \<^verbatim>\<open>fork\<close>,
  \<^verbatim>\<open>spawn\<close>, the system calls) appends an event to the log \<open>sh_log\<close> and takes its result from
  the list of answers \<open>sh_ans\<close>, so that a statement about all lists of answers is a statement
  about every environment, both sides of each \<^verbatim>\<open>fork\<close> included. \<open>None\<close> is an access outside
  an array, a scan that never ends, a missing answer, or exhausted fuel.
\<close>

unbundle bit_operations_syntax

section \<open>Open modes\<close>

definition O_RDONLY :: u32 where [mos_consts]: "O_RDONLY = 0x0000"
definition O_WRONLY :: u32 where [mos_consts]: "O_WRONLY = 0x0001"
definition O_RDWR :: u32 where [mos_consts]: "O_RDWR = 0x0002"
definition O_ACCMODE :: u32 where [mos_consts]: "O_ACCMODE = 0x0003"
definition O_CREAT :: u32 where [mos_consts]: "O_CREAT = 0x0100"
definition O_TRUNC :: u32 where [mos_consts]: "O_TRUNC = 0x0200"
definition O_MKDIR :: u32 where [mos_consts]: "O_MKDIR = 0x0800"

section \<open>Tokens\<close>

text \<open>
  \<^verbatim>\<open>strchr(WHITESPACE, *s)\<close> and \<^verbatim>\<open>strchr(SYMBOLS, *s)\<close>: this \<^verbatim>\<open>strchr\<close> does not find the
  terminating zero byte.
\<close>

definition WHITESPACE :: "u8 list" where
  "WHITESPACE = [0x20, 0x09, 0x0D, 0x0A]"

definition SYMBOLS :: "u8 list" where
  "SYMBOLS = [0x3C, 0x7C, 0x3E, 0x26, 0x3B, 0x28, 0x29]"

definition is_ws :: "u8 \<Rightarrow> bool" where
  "is_ws c \<longleftrightarrow> c \<in> set WHITESPACE"

definition is_sym :: "u8 \<Rightarrow> bool" where
  "is_sym c \<longleftrightarrow> c \<in> set SYMBOLS"

partial_function (option) skip_ws :: "u32 \<Rightarrow> mem \<Rightarrow> (u32 \<times> mem) option" where
  "skip_ws s m = (if is_ws (m s) then skip_ws (s + 1) (m(s := 0)) else Some (s, m))"

partial_function (option) scan_to :: "u8 \<Rightarrow> u32 \<Rightarrow> mem \<Rightarrow> u32 option" where
  "scan_to q s m = (if m s \<noteq> 0 \<and> m s \<noteq> q then scan_to q (s + 1) m else Some s)"

partial_function (option) scan_word :: "u32 \<Rightarrow> mem \<Rightarrow> u32 option" where
  "scan_word s m =
     (if m s \<noteq> 0 \<and> \<not> is_ws (m s) \<and> \<not> is_sym (m s) then scan_word (s + 1) m else Some s)"

text \<open>The token after the white space: its kind, \<^verbatim>\<open>*p1\<close>, \<^verbatim>\<open>*p2\<close> and the memory.\<close>

definition token_at :: "u32 \<Rightarrow> mem \<Rightarrow> ((u8 \<times> u32 \<times> u32) \<times> mem) option" where
  "token_at s m =
     (if m s = 0x22 then do {
        let p1 = s + 1;
        s \<leftarrow> scan_to 0x22 p1 m;
        Some ((0x77, p1, s + 1), m(s := 0))
      }
      else if m s = 0x60 then do {
        let m = m(s := 0);
        let p1 = s + 1;
        s \<leftarrow> scan_to 0x60 p1 m;
        Some ((0x66, p1, s + 1), m(s := 0))
      }
      else if m s = 0 then Some ((0, 0, 0), m)
      else if is_sym (m s) then do {
        let t = m s;
        let (s', t) = (if m (s + 1) = t \<and> t = 0x26 then (s + 1, 0x61)
                       else if m (s + 1) = t \<and> t = 0x7C then (s + 1, 0x6F)
                       else if m (s + 1) = t \<and> t = 0x3E then (s + 1, 0x7A)
                       else (s, t));
        Some ((t, s, s' + 1), m(s' := 0))
      }
      else do {
        s' \<leftarrow> scan_word s m;
        Some ((0x77, s, s'), m)
      })"

definition gettoken1 :: "u32 \<Rightarrow> mem \<Rightarrow> ((u8 \<times> u32 \<times> u32) \<times> mem) option" where
  "gettoken1 s m =
     (if s = 0 then Some ((0, 0, 0), m)
      else do {
        (s, m) \<leftarrow> skip_ws s m;
        token_at s m
      })"

section \<open>The state of a shell process\<close>

datatype event =
    Open "u8 list" u32
  | Dup int int
  | Close int
  | Pipe
  | Fork
  | Wait int
  | Spawn "u8 list list"
  | Fstat int
  | Stat "u8 list"
  | Seek int int
  | Read int
  | Write int "u8 list"
  | Recv_return_value
  | Send_return_value int
  | Create_job int "u8 list"
  | Print_jobs
  | Fg_job int
  | Kill_job int
  | Printf string "int list" "u8 list list"
  | Debugf string "int list" "u8 list list"
  | Close_all
  | Exit

record shell =
  sh_mem :: mem
  sh_c :: u8
  sh_nc :: u8
  sh_np1 :: u32
  sh_np2 :: u32
  sh_flag :: bool
  sh_job_flag :: bool
  sh_cmd :: u32
  sh_log :: "event list"
  sh_ans :: "int list"

datatype 'a outcome = Ret 'a | Exited

definition log_ev :: "event \<Rightarrow> shell \<Rightarrow> shell" where
  "log_ev e s = s\<lparr>sh_log := sh_log s @ [e]\<rparr>"

definition call :: "event \<Rightarrow> (int \<Rightarrow> shell \<Rightarrow> 'b option) \<Rightarrow> shell \<Rightarrow> 'b option" where
  "call e k s = (case sh_ans s of [] \<Rightarrow> None | r # rs \<Rightarrow> k r (log_ev e (s\<lparr>sh_ans := rs\<rparr>)))"

text \<open>A value the program reads that is not the result of a call: a field another program
  writes, an array a call fills in, a local variable that was never set.\<close>

definition answer :: "(int \<Rightarrow> shell \<Rightarrow> 'b option) \<Rightarrow> shell \<Rightarrow> 'b option" where
  "answer k s = (case sh_ans s of [] \<Rightarrow> None | r # rs \<Rightarrow> k r (s\<lparr>sh_ans := rs\<rparr>))"

definition sh_exit :: "shell \<Rightarrow> ('a outcome \<times> shell) option" where
  "sh_exit s = Some (Exited, log_ev Exit s)"

definition str_at :: "shell \<Rightarrow> u32 \<Rightarrow> u8 list option" where
  "str_at s p = scan_str (sh_mem s) p"

text \<open>\<^verbatim>\<open>gettoken(s, 0)\<close> with a line, and \<^verbatim>\<open>gettoken(0, &t)\<close> for the next token.\<close>

definition gettoken_start :: "u32 \<Rightarrow> shell \<Rightarrow> shell option" where
  "gettoken_start p s = do {
     ((nc, np1, np2), m) \<leftarrow> gettoken1 p (sh_mem s);
     Some (s\<lparr>sh_mem := m, sh_nc := nc, sh_np1 := np1, sh_np2 := np2\<rparr>)
   }"

definition gettoken :: "shell \<Rightarrow> ((u8 \<times> u32) \<times> shell) option" where
  "gettoken s = do {
     let c = sh_nc s;
     let t = sh_np1 s;
     ((nc, np1, np2), m) \<leftarrow> gettoken1 (sh_np2 s) (sh_mem s);
     Some ((c, t), s\<lparr>sh_mem := m, sh_c := c, sh_nc := nc, sh_np1 := np1, sh_np2 := np2\<rparr>)
   }"

section \<open>Built-in commands and history\<close>

definition lit :: "string \<Rightarrow> u8 list" where
  "lit str = map of_char str"

definition nl :: "string \<Rightarrow> string" where
  "nl str = str @ [CHR 0x0A]"

text \<open>The messages are logged as their format (\<open>nl\<close> adds the newline) and arguments.\<close>

definition execute_jobs :: "shell \<Rightarrow> shell" where
  "execute_jobs s = log_ev Print_jobs s"

definition execute_fg :: "int \<Rightarrow> shell \<Rightarrow> shell option" where
  "execute_fg jobId = call (Fg_job jobId) (\<lambda>envid s.
     if envid = - 1 then Some (log_ev (Printf (nl ''fg: job (%d) do not exist'') [jobId] []) s)
     else answer (\<lambda>st s.
       if st \<noteq> 1 then Some (log_ev (Printf (nl ''fg: (0x%08x) not running'') [envid] []) s)
       else Some (log_ev (Wait envid) s)) s)"

definition execute_kill :: "int \<Rightarrow> shell \<Rightarrow> shell" where
  "execute_kill jobId s = log_ev (Kill_job jobId) s"

definition history_file :: "u8 list" where
  "history_file = lit ''.mosh_history''"

definition create_history :: "shell \<Rightarrow> shell option" where
  "create_history = call (Open history_file O_CREAT) (\<lambda>fd s.
     if fd < 0 then Some (log_ev (Printf (nl ''create history file failed'') [] []) s) else Some s)"

definition save_history_cmd :: "u32 \<Rightarrow> shell \<Rightarrow> shell option" where
  "save_history_cmd cmd = call (Open history_file O_WRONLY) (\<lambda>fd s.
     let s = (if fd < 0 then log_ev (Printf (nl ''open history file failed'') [] []) s else s) in
     call (Stat history_file) (\<lambda>_.
       answer (\<lambda>size.
         call (Seek fd size) (\<lambda>_ s. do {
           bs \<leftarrow> str_at s cmd;
           call (Write fd bs) (\<lambda>_.
             call (Write fd [0x0A]) (\<lambda>_.
               call (Close fd) (\<lambda>_ s. Some s))) s
         }))) s)"

text \<open>The loop of \<^verbatim>\<open>print_history\<close>: a negative result of \<^verbatim>\<open>read\<close> does not end it.\<close>

fun print_history_loop :: "int \<Rightarrow> int list \<Rightarrow> shell \<Rightarrow> shell option" where
  "print_history_loop fd [] s = None"
| "print_history_loop fd (r # rs) s =
     (let s = log_ev (Read fd) s in
      if r = 0 then call (Close fd) (\<lambda>_ s. Some s) (s\<lparr>sh_ans := rs\<rparr>)
      else (case rs of
              [] \<Rightarrow> None
            | ch # rs \<Rightarrow> print_history_loop fd rs (log_ev (Printf ''%c'' [ch] []) s)))"

definition print_history :: "shell \<Rightarrow> shell option" where
  "print_history = call (Open history_file O_RDONLY) (\<lambda>fd s.
     let s = (if fd < 0 then log_ev (Printf (nl ''open history file failed'') [] []) s else s) in
     print_history_loop fd (sh_ans s) s)"

text \<open>\<^verbatim>\<open>jobId\<close> is a 32-bit \<^verbatim>\<open>int\<close>; \<^verbatim>\<open>*s - '0'\<close> is signed. A null pointer is \<open>None\<close>.\<close>

partial_function (option) parse_job_loop :: "u32 \<Rightarrow> u32 \<Rightarrow> mem \<Rightarrow> u32 option" where
  "parse_job_loop jobId p m =
     (if m p \<noteq> 0 then parse_job_loop (jobId * 10 + (scast (m p) - 0x30)) (p + 1) m else Some jobId)"

definition parseJobId :: "u32 \<Rightarrow> shell \<Rightarrow> int option" where
  "parseJobId p s =
     (if p = 0 then None else map_option sint (parse_job_loop 0 p (sh_mem s)))"

section \<open>The command interpreter\<close>

definition MAXARGS :: nat where [mos_consts]: "MAXARGS = 128"

type_synonym argv = "u32 option list"

definition fail :: "string \<Rightarrow> u8 list list \<Rightarrow> shell \<Rightarrow> ('a outcome \<times> shell) option" where
  "fail fmt args s = sh_exit (log_ev (Debugf (nl fmt) [] args) s)"

text \<open>
  The redirections \<^verbatim>\<open><\<close> and \<^verbatim>\<open>>\<close>: open, duplicate onto the descriptor, close. The message for
  a failed \<^verbatim>\<open><\<close> has a \<^verbatim>\<open>%s\<close> and no argument: it prints the string at whatever address is
  in the argument register.
\<close>

definition redirect_in ::
  "(shell \<Rightarrow> ('a outcome \<times> shell) option) \<Rightarrow> shell \<Rightarrow> ('a outcome \<times> shell) option" where
  "redirect_in k s = do {
     ((c, t), s) \<leftarrow> gettoken s;
     if c \<noteq> 0x77 then fail ''syntax error: < not followed by word'' [] s
     else do {
       path \<leftarrow> str_at s t;
       call (Open path O_RDONLY) (\<lambda>fd s.
         if fd < 0
         then answer (\<lambda>a s. do { junk \<leftarrow> str_at s (of_int a); fail ''failed to open %s'' [junk] s }) s
         else call (Dup fd 0) (\<lambda>r s.
           if r < 0 then fail ''failed to duplicate file to <stdin>'' [] s
           else call (Close fd) (\<lambda>_ s. k s) s) s) s
     }
   }"

definition redirect_out ::
  "(shell \<Rightarrow> ('a outcome \<times> shell) option) \<Rightarrow> shell \<Rightarrow> ('a outcome \<times> shell) option" where
  "redirect_out k s = do {
     ((c, t), s) \<leftarrow> gettoken s;
     if c \<noteq> 0x77 then fail ''syntax error: > not followed by word'' [] s
     else do {
       path \<leftarrow> str_at s t;
       call (Open path O_TRUNC) (\<lambda>fd s.
         if fd < 0 then fail ''failed to open %s'' [path] s
         else call (Dup fd 1) (\<lambda>r s.
           if r < 0 then fail ''failed to duplicate file to <stdout>'' [] s
           else call (Close fd) (\<lambda>_ s. k s) s) s) s
     }
   }"

text \<open>The redirection \<^verbatim>\<open>>>\<close>: the descriptor is moved to the end of the file first.\<close>

definition append_to ::
  "(shell \<Rightarrow> ('a outcome \<times> shell) option) \<Rightarrow> shell \<Rightarrow> ('a outcome \<times> shell) option" where
  "append_to k s = do {
     ((c, t), s) \<leftarrow> gettoken s;
     if c \<noteq> 0x77 then fail ''syntax error: > not followed by word'' [] s
     else do {
       path \<leftarrow> str_at s t;
       call (Open path (O_RDONLY OR O_WRONLY OR O_CREAT)) (\<lambda>fd s.
         if fd < 0 then fail ''failed to open %s'' [path] s
         else call (Fstat fd) (\<lambda>r s.
           if r < 0 then fail ''failed to fstat %s'' [path] s
           else answer (\<lambda>size.
             call (Seek fd size) (\<lambda>_.
               call (Dup fd 1) (\<lambda>r s.
                 if r < 0 then fail ''failed to duplicate file to <stdout>'' [] s
                 else call (Close fd) (\<lambda>_ s. k s) s))) s) s) s
     }
   }"

text \<open>
  The end of \<^verbatim>\<open>runcmd\<close>, with the words of the command: the built-in commands, and the
  external ones with what is reported to the parent shell.
\<close>

definition run_argv :: "u32 list \<Rightarrow> int \<Rightarrow> shell \<Rightarrow> (unit outcome \<times> shell) option" where
  "run_argv argv rightpipe s = do {
     args \<leftarrow> those (map (str_at s) argv);
     let arg1 = (case argv of _ # p # _ \<Rightarrow> p | _ \<Rightarrow> 0);
     if hd args = lit ''jobs'' then sh_exit (execute_jobs s)
     else if hd args = lit ''fg'' then do {
       jobId \<leftarrow> parseJobId arg1 s;
       s \<leftarrow> execute_fg jobId s;
       sh_exit s
     }
     else if hd args = lit ''kill'' then do {
       jobId \<leftarrow> parseJobId arg1 s;
       sh_exit (execute_kill jobId s)
     }
     else if hd args = lit ''history'' then do {
       s \<leftarrow> print_history s;
       sh_exit s
     }
     else call (Spawn args) (\<lambda>child s.
       let finish = (\<lambda>s. sh_exit (log_ev Close_all
             (if rightpipe \<noteq> 0 then log_ev (Wait rightpipe) s else s))) in
       if child < 0 then finish (log_ev (Debugf (nl ''spawn %s: %d'') [child] [hd args]) s)
       else if sh_flag s
       then call Recv_return_value (\<lambda>_. answer (\<lambda>rv.
              call (Send_return_value rv) (\<lambda>_ s. finish s))) s
       else if sh_job_flag s
       then do {
         cmd \<leftarrow> str_at s (sh_cmd s);
         call Recv_return_value (\<lambda>_ s. finish s) (log_ev (Create_job child cmd) s)
       }
       else call Recv_return_value (\<lambda>_ s. finish s) s) s
   }"

text \<open>
  \<open>parse_loop n argc argv rightpipe mark\<close> is the loop of \<^verbatim>\<open>parsecmd\<close> with its local \<^verbatim>\<open>argc\<close>,
  \<open>runcmd n p\<close> the command at \<open>p\<close>; \<open>n\<close> bounds the depth of both. The result of the loop is
  \<^verbatim>\<open>argc\<close> with the arrays it has filled.
\<close>

fun parse_loop ::
  "nat \<Rightarrow> nat \<Rightarrow> argv \<Rightarrow> int \<Rightarrow> bool \<Rightarrow> shell \<Rightarrow> ((nat \<times> argv \<times> int) outcome \<times> shell) option"
and runcmd :: "nat \<Rightarrow> u32 \<Rightarrow> shell \<Rightarrow> (unit outcome \<times> shell) option" where
  "parse_loop 0 argc argv rp mark s = None"
| "parse_loop (Suc n) argc argv rp mark s = do {
     ((c, t), s) \<leftarrow> gettoken s;
     let s = s\<lparr>sh_flag := False\<rparr>;
     if c = 0 then Some (Ret (if mark then argc else 0, argv, rp), s)
     else if c = 0x77 then
       (let s = s\<lparr>sh_job_flag := False\<rparr> in
        if argc \<ge> MAXARGS then fail ''too many arguments'' [] s
        else parse_loop n (argc + 1) (argv[argc := Some t]) rp mark s)
     else if c = 0x3C then redirect_in (parse_loop n argc argv rp mark) s
     else if c = 0x3E then redirect_out (parse_loop n argc argv rp mark) s
     else if c = 0x7C then
       call Pipe (\<lambda>r s.
         if r < 0 then fail ''failed to create pipe'' [] s
         else answer (\<lambda>p0. answer (\<lambda>p1. call Fork (\<lambda>child.
           if child = 0
           then call (Dup p0 0) (\<lambda>_. call (Close p0) (\<lambda>_. call (Close p1) (\<lambda>_.
                  parse_loop n 0 argv child True)))
           else call (Dup p1 1) (\<lambda>_. call (Close p1) (\<lambda>_. call (Close p0) (\<lambda>_ s.
                  Some (Ret (argc, argv, child), s))))))) s) s
     else if c = 0x3B then
       call Fork (\<lambda>child s.
         if child = 0 then Some (Ret (argc, argv, rp), s)
         else parse_loop n 0 argv rp True (log_ev (Wait child) s)) s
     else if c = 0x26 then
       call Fork (\<lambda>child s.
         if child = 0 then Some (Ret (argc, argv, rp), s)
         else parse_loop n 0 argv rp True s) (s\<lparr>sh_job_flag := True\<rparr>)
     else if c = 0x61 then
       call Fork (\<lambda>child s.
         if child = 0 then Some (Ret (if mark then argc else 0, argv, rp), s)
         else call Recv_return_value (\<lambda>_. answer (\<lambda>rv.
           parse_loop n 0 argv rp (rv = 0))) s) (s\<lparr>sh_flag := True\<rparr>)
     else if c = 0x6F then
       call Fork (\<lambda>child s.
         if child = 0 then Some (Ret (if mark then argc else 0, argv, rp), s)
         else call Recv_return_value (\<lambda>_. answer (\<lambda>rv.
           parse_loop n 0 argv rp (rv \<noteq> 0))) s) (s\<lparr>sh_flag := True\<rparr>)
     else if c = 0x7A then append_to (parse_loop n argc argv rp mark) s
     else if c = 0x66 then do {
       (r, s) \<leftarrow> runcmd n t s;
       (case r of Exited \<Rightarrow> Some (Exited, s) | Ret _ \<Rightarrow> parse_loop n argc argv rp mark s)
     }
     else parse_loop n argc argv rp mark s
   }"
| "runcmd 0 p s = None"
| "runcmd (Suc n) p s = do {
     e \<leftarrow> scan_to 0x23 p (sh_mem s);
     s \<leftarrow> gettoken_start p (s\<lparr>sh_mem := (sh_mem s)(e := 0)\<rparr>);
     (r, s) \<leftarrow> parse_loop n 0 (replicate MAXARGS None) 0 True s;
     (case r of
        Exited \<Rightarrow> Some (Exited, s)
      | Ret (argc, argv, rp) \<Rightarrow>
          if argc = 0 then
            (let k = (\<lambda>v s. if v \<noteq> 0 then call (Send_return_value 0) (\<lambda>_ s. Some (Ret (), s)) s
                            else Some (Ret (), s)) in
             case argv ! 0 of None \<Rightarrow> answer k s | Some a \<Rightarrow> k (uint a) s)
          else if argc \<ge> MAXARGS then None
          else run_argv (take argc (map the argv)) rp s)
   }"

section \<open>Reading a line, and one round of the main loop\<close>

text \<open>
  \<^verbatim>\<open>readline\<close>: \<open>i\<close> is an \<^verbatim>\<open>int\<close> that is set back by the erase characters; \<^verbatim>\<open>buf[i]\<close> is looked
  at with the new \<open>i\<close>, which may be \<open>- 1\<close>. The input is the list of results of \<^verbatim>\<open>read\<close>, each
  with the byte it delivers. The outcome is the rest of the input, with whether the program
  has exited.
\<close>

definition at_buf :: "u32 \<Rightarrow> int \<Rightarrow> u32" where
  "at_buf buf i = buf + of_int i"

fun drain_line :: "u32 \<Rightarrow> (int \<times> u8) list \<Rightarrow> mem \<Rightarrow> ((int \<times> u8) list \<times> mem) option" where
  "drain_line buf [] m = None"
| "drain_line buf ((r, ch) # inp) m =
     (if r = 1
      then (let m = m(buf := ch) in
            if ch \<noteq> 0x0D \<and> ch \<noteq> 0x0A then drain_line buf inp m else Some (inp, m(buf := 0)))
      else Some (inp, m(buf := 0)))"

fun readline_loop ::
  "u32 \<Rightarrow> u32 \<Rightarrow> int \<Rightarrow> (int \<times> u8) list \<Rightarrow> mem \<Rightarrow> event list \<Rightarrow>
     ((int \<times> u8) list outcome \<times> mem \<times> event list) option" where
  "readline_loop buf n i inp m out =
     (if of_int i < n then
        (case inp of
           [] \<Rightarrow> None
         | (r, ch) # inp \<Rightarrow>
             if r \<noteq> 1 then
               Some (Exited, m, out @ (if r < 0 then [Debugf (nl ''read error: %d'') [r] []] else []) @ [Exit])
             else
               (let m = m(at_buf buf i := ch);
                    erase = (ch = 0x08 \<or> ch = 0x7F);
                    i = (if erase then (if i > 0 then i - 2 else - 1) else i);
                    out = (if erase \<and> m (at_buf buf i) \<noteq> 0x08
                           then out @ [Printf [CHR 0x08] [] []] else out) in
                if m (at_buf buf i) = 0x0D \<or> m (at_buf buf i) = 0x0A
                then Some (Ret inp, m(at_buf buf i := 0), out)
                else readline_loop buf n (i + 1) inp m out))
      else (case drain_line buf inp m of
              None \<Rightarrow> None
            | Some (inp, m) \<Rightarrow> Some (Ret inp, m, out @ [Debugf (nl ''line too long'') [] []])))"

declare readline_loop.simps [simp del]

definition readline :: "u32 \<Rightarrow> u32 \<Rightarrow> (int \<times> u8) list \<Rightarrow> mem \<Rightarrow>
     ((int \<times> u8) list outcome \<times> mem \<times> event list) option" where
  "readline buf n inp m = readline_loop buf n 0 inp m []"

text \<open>
  One round of the loop of \<^verbatim>\<open>main\<close> at the line buffer \<open>buf\<close>: the prompt, the line, the echo,
  and the child that saves the line in the history, copies it to \<^verbatim>\<open>cmd\<close> and runs it.
\<close>

definition main_round ::
  "nat \<Rightarrow> bool \<Rightarrow> bool \<Rightarrow> u32 \<Rightarrow> (int \<times> u8) list \<Rightarrow> shell \<Rightarrow> ((int \<times> u8) list outcome \<times> shell) option" where
  "main_round n interactive echocmds buf inp s = do {
     let s = (if interactive then log_ev (Printf (CHR 0x0A # ''$ '') [] []) s else s);
     (r, m, out) \<leftarrow> readline buf 1024 inp (sh_mem s);
     let s = s\<lparr>sh_mem := m, sh_log := sh_log s @ out\<rparr>;
     (case r of
        Exited \<Rightarrow> Some (Exited, s)
      | Ret inp \<Rightarrow>
          if m buf = 0x23 then Some (Ret inp, s)
          else do {
            line \<leftarrow> str_at s buf;
            let s = (if echocmds then log_ev (Printf (nl ''# %s'') [] [line]) s else s);
            call Fork (\<lambda>r s.
              if r < 0 then None
              else if r = 0 then do {
                s \<leftarrow> save_history_cmd buf s;
                (_, m) \<leftarrow> strcpy (sh_cmd s) buf (sh_mem s);
                (r, s) \<leftarrow> runcmd n buf (s\<lparr>sh_mem := m\<rparr>);
                (case r of Exited \<Rightarrow> Some (Exited, s) | Ret _ \<Rightarrow> sh_exit s)
              }
              else Some (Ret inp, log_ev (Wait r) s)) s
          })
   }"

section \<open>The tokenizer against a lexer on byte lists\<close>

definition word_char :: "u8 \<Rightarrow> bool" where
  "word_char c \<longleftrightarrow> \<not> is_ws c \<and> \<not> is_sym c"

text \<open>
  The lexer: the kind of the next token, its text, and the rest of the line. The rest is
  \<open>None\<close> when a quotation has no closing mark.
\<close>

definition lex_quote :: "u8 \<Rightarrow> u8 list \<Rightarrow> u8 list \<times> u8 list option" where
  "lex_quote q bs =
     (takeWhile (\<lambda>c. c \<noteq> q) bs,
      case dropWhile (\<lambda>c. c \<noteq> q) bs of [] \<Rightarrow> None | _ # rest \<Rightarrow> Some rest)"

definition lex_symbol :: "u8 \<Rightarrow> u8 list \<Rightarrow> u8 \<times> u8 list \<times> u8 list" where
  "lex_symbol c bs =
     (case bs of
        d # rest \<Rightarrow> if d = c \<and> c = 0x26 then (0x61, [c, c], rest)
                   else if d = c \<and> c = 0x7C then (0x6F, [c, c], rest)
                   else if d = c \<and> c = 0x3E then (0x7A, [c, c], rest)
                   else (c, [c], bs)
      | [] \<Rightarrow> (c, [c], []))"

definition lex_token :: "u8 list \<Rightarrow> u8 \<times> u8 list \<times> u8 list option" where
  "lex_token bs =
     (case dropWhile is_ws bs of
        [] \<Rightarrow> (0, [], Some [])
      | c # rest \<Rightarrow>
          if c = 0x22 then (0x77, lex_quote 0x22 rest)
          else if c = 0x60 then (0x66, lex_quote 0x60 rest)
          else if is_sym c then (case lex_symbol c rest of (k, t, r) \<Rightarrow> (k, t, Some r))
          else (0x77, takeWhile word_char (c # rest), Some (dropWhile word_char (c # rest))))"

end
