(* ===== verification/Shell_Lex.thy ===== *)
theory Shell_Lex
  imports Shell
begin

text \<open>
  The in-place tokenizer of the shell and the lexer on byte lists: what \<^verbatim>\<open>_gettoken\<close> returns,
  which bytes it overwrites, and where it leaves the line.
\<close>

section \<open>Strings in memory\<close>

definition fits :: "u32 \<Rightarrow> nat \<Rightarrow> bool" where
  "fits s n \<longleftrightarrow> unat s + n < 2 ^ 32"

definition text_at :: "mem \<Rightarrow> u32 \<Rightarrow> u8 list \<Rightarrow> bool" where
  "text_at m p bs \<longleftrightarrow> (\<forall>i < length bs. m (p + of_nat i) = bs ! i)"

lemma text_at_Nil [simp]: "text_at m p []"
  by (simp add: text_at_def)

lemma text_at_Cons [simp]: "text_at m p (b # bs) \<longleftrightarrow> m p = b \<and> text_at m (p + 1) bs"
  unfolding text_at_def by (auto simp: less_Suc_eq_0_disj algebra_simps all_conj_distrib)

lemma cstr_append:
  "cstr m p (xs @ ys) \<longleftrightarrow> 0 \<notin> set xs \<and> text_at m p xs \<and> cstr m (p + of_nat (length xs)) ys"
  by (induction xs arbitrary: p) (auto simp: algebra_simps)

lemma cstr_text: "cstr m p bs \<longleftrightarrow> 0 \<notin> set bs \<and> text_at m p bs \<and> m (p + of_nat (length bs)) = 0"
  using cstr_append [of m p bs "[]"] by simp

lemma fits_mono: "fits s n \<Longrightarrow> k \<le> n \<Longrightarrow> fits s k"
  by (simp add: fits_def)

lemma fits_unat: "fits s n \<Longrightarrow> i \<le> n \<Longrightarrow> unat (s + of_nat i) = unat s + i"
  by (simp add: fits_def unat_word_ariths unat_of_nat)

lemma fits_add: "fits s n \<Longrightarrow> k \<le> n \<Longrightarrow> fits (s + of_nat k) (n - k)"
  using fits_unat [of s n k] by (simp add: fits_def)

lemma fits_eq: "fits s n \<Longrightarrow> i \<le> n \<Longrightarrow> j \<le> n \<Longrightarrow> s + of_nat i = s + of_nat j \<longleftrightarrow> i = j"
  by (metis add_left_cancel fits_unat)

lemma fits_diff: "fits s n \<Longrightarrow> i \<le> n \<Longrightarrow> unat (s + of_nat i - s) = i"
  by (simp add: fits_def unat_of_nat)

lemma cstr_upd_before:
  assumes "cstr m (s + 1) bs" "fits s (Suc (length bs))"
  shows "cstr (m(s := x)) (s + 1) bs"
proof -
  have "s + 1 + of_nat i \<noteq> s" if "i \<le> length bs" for i
    using fits_eq [OF assms(2), of "Suc i" 0] that by (simp add: algebra_simps)
  then show ?thesis using assms(1) by (subst cstr_cong [where m' = m]) auto
qed

section \<open>The loops\<close>

lemma skip_ws_cstr:
  "cstr m s bs \<Longrightarrow> fits s (length bs) \<Longrightarrow>
     skip_ws s m = Some (s + of_nat (length (takeWhile is_ws bs)), fill s 0 (length (takeWhile is_ws bs)) m) \<and>
     cstr (fill s 0 (length (takeWhile is_ws bs)) m) (s + of_nat (length (takeWhile is_ws bs))) (dropWhile is_ws bs)"
proof (induction bs arbitrary: s m)
  case Nil
  then show ?case by (simp add: skip_ws.simps is_ws_def WHITESPACE_def)
next
  case (Cons b bs)
  show ?case
  proof (cases "is_ws b")
    case False
    then show ?thesis using Cons.prems by (simp add: skip_ws.simps)
  next
    case True
    let ?w = "takeWhile is_ws bs"
    have c: "cstr (m(s := 0)) (s + 1) bs" using Cons.prems by (intro cstr_upd_before) simp_all
    have f: "fits (s + 1) (length bs)" using fits_add [OF Cons.prems(2), of 1] by simp
    have "length ?w \<le> length bs" by (rule length_takeWhile_le)
    then have "1 + length ?w \<le> 2 ^ 32" using Cons.prems(2) by (simp add: fits_def)
    from fill_fill [OF this, of s 0 m] have
      "fill (s + 1) 0 (length ?w) (m(s := 0)) = fill s 0 (Suc (length ?w)) m" by (simp add: fill_1)
    with Cons.IH [OF c f] True Cons.prems(1) show ?thesis
      by (subst skip_ws.simps) (simp add: algebra_simps del: fun_upd_apply)
  qed
qed

lemma scan_to_cstr:
  "cstr m s bs \<Longrightarrow> scan_to q s m = Some (s + of_nat (length (takeWhile (\<lambda>c. c \<noteq> q) bs)))"
proof (induction bs arbitrary: s)
  case (Cons b bs)
  then show ?case by (subst scan_to.simps) (auto simp: algebra_simps)
qed (simp add: scan_to.simps)

lemma scan_word_cstr:
  "cstr m s bs \<Longrightarrow> scan_word s m = Some (s + of_nat (length (takeWhile word_char bs)))"
proof (induction bs arbitrary: s)
  case (Cons b bs)
  then show ?case by (subst scan_word.simps) (auto simp: word_char_def [of b] algebra_simps)
qed (simp add: scan_word.simps)

lemma fill_out: "n \<le> unat (a - s) \<Longrightarrow> fill s x n m a = m a"
  by (simp add: fill_def)

section \<open>The token\<close>

lemma token_quote:
  assumes "cstr m (s + 1) bs" "fits s (Suc (length bs))" "m s = q" "q = 0x22 \<or> q = 0x60"
  defines "t \<equiv> takeWhile (\<lambda>c. c \<noteq> q) bs"
  defines "e \<equiv> s + 1 + of_nat (length t)"
  defines "m0 \<equiv> (if q = 0x60 then m(s := 0) else m)"
  shows "token_at s m = Some ((if q = 0x22 then 0x77 else 0x66, s + 1, e + 1), m0(e := 0))"
    and "cstr (m0(e := 0)) (s + 1) t"
    and "dropWhile (\<lambda>c. c \<noteq> q) bs = c # rest \<Longrightarrow> cstr (m0(e := 0)) (e + 1) rest"
proof -
  have c0: "cstr m0 (s + 1) bs" using assms(1,2) by (simp add: m0_def cstr_upd_before del: fun_upd_apply)
  note sc = scan_to_cstr [OF c0, of q, folded t_def e_def]
  show "token_at s m = Some ((if q = 0x22 then 0x77 else 0x66, s + 1, e + 1), m0(e := 0))"
    using assms(3,4) sc by (auto simp: token_at_def m0_def simp del: fun_upd_apply)
  obtain r where bs: "bs = t @ r" and r: "r = dropWhile (\<lambda>c. c \<noteq> q) bs"
    by (simp add: t_def)
  have f1: "fits (s + 1) (length bs)" using fits_add [OF assms(2), of 1] by simp
  have t: "0 \<notin> set t" "text_at m0 (s + 1) t" "cstr m0 e r"
    using c0 unfolding bs cstr_append e_def by simp_all
  have "text_at (m0(e := 0)) (s + 1) t"
    using t(2) fits_eq [OF f1, of _ "length t"] bs by (auto simp: text_at_def e_def)
  then show "cstr (m0(e := 0)) (s + 1) t" using t(1) by (simp add: cstr_text e_def)
  assume "dropWhile (\<lambda>c. c \<noteq> q) bs = c # rest"
  then have rest: "r = c # rest" using r by simp
  have "fits e (length r)" using fits_add [OF f1, of "length t"] bs by (simp add: e_def)
  then show "cstr (m0(e := 0)) (e + 1) rest"
    using t(3) rest by (intro cstr_upd_before) simp_all
qed

lemma gettoken1_token_at:
  assumes "cstr m s bs" "fits s (length bs)" "s \<noteq> 0"
  defines "k \<equiv> length (takeWhile is_ws bs)"
  shows "gettoken1 s m = token_at (s + of_nat k) (fill s 0 k m)"
  using skip_ws_cstr [OF assms(1,2)] assms(3) by (simp add: gettoken1_def k_def)

lemma is_sym_not: "is_sym c \<Longrightarrow> c \<noteq> 0 \<and> c \<noteq> 0x22 \<and> c \<noteq> 0x60 \<and> \<not> is_ws c"
  by (auto simp: is_sym_def SYMBOLS_def is_ws_def WHITESPACE_def)

lemma lex_symbol_length:
  assumes "is_sym c" "lex_symbol c bs = (k, t, r)"
  shows "0 < length t" "length t + length r = Suc (length bs)" "k \<noteq> 0" "k \<notin> {0x77, 0x66}"
  using assms by (auto simp: lex_symbol_def is_sym_def SYMBOLS_def split: list.splits if_splits)

lemma token_sym:
  assumes "cstr m s (c # bs)" "fits s (Suc (length bs))" "is_sym c" "lex_symbol c bs = (k, t, r)"
  shows "token_at s m = Some ((k, s, s + of_nat (length t)), m(s + of_nat (length t) - 1 := 0))"
    and "cstr (m(s + of_nat (length t) - 1 := 0)) (s + of_nat (length t)) r"
proof -
  note ns = is_sym_not [OF assms(3)]
  have m: "m s = c" "cstr m (s + 1) bs" using assms(1) by simp_all
  have m1: "m (s + 1) = (case bs of [] \<Rightarrow> 0 | d # _ \<Rightarrow> d)" using m(2) by (cases bs) auto
  have f1: "fits (s + 1) (length bs)" using fits_add [OF assms(2), of 1] by simp
  show "token_at s m = Some ((k, s, s + of_nat (length t)), m(s + of_nat (length t) - 1 := 0))"
    using ns assms(3,4) m1 m(1) by (cases bs) (auto simp: token_at_def lex_symbol_def Let_def split: if_splits)
  show "cstr (m(s + of_nat (length t) - 1 := 0)) (s + of_nat (length t)) r"
  proof (cases "length t = 1")
    case True
    then have "r = bs" using assms(4) by (auto simp: lex_symbol_def split: list.splits if_splits)
    then show ?thesis using True m(2) assms(2) by (simp add: cstr_upd_before del: fun_upd_apply)
  next
    case False
    then have t: "length t = 2" "bs = c # r" using assms(4) by (auto simp: lex_symbol_def split: list.splits if_splits)
    have "s + of_nat (length t) - 1 = s + 1" "s + of_nat (length t) = s + 1 + 1" by (simp_all add: t)
    moreover have "cstr (m(s + 1 := 0)) (s + 1 + 1) r"
      by (rule cstr_upd_before) (use m(2) t f1 in simp_all)
    ultimately show ?thesis by (simp only:)
  qed
qed

lemma token_word:
  assumes "cstr m s (c # bs)" "\<not> is_ws c" "\<not> is_sym c" "c \<noteq> 0x22" "c \<noteq> 0x60"
  defines "t \<equiv> takeWhile word_char (c # bs)"
  shows "token_at s m = Some ((0x77, s, s + of_nat (length t)), m)"
    and "text_at m s t" and "cstr m (s + of_nat (length t)) (dropWhile word_char (c # bs))"
proof -
  have "c # bs = t @ dropWhile word_char (c # bs)" by (simp add: t_def)
  then have "cstr m s (t @ dropWhile word_char (c # bs))" using assms(1) by metis
  then show "text_at m s t" "cstr m (s + of_nat (length t)) (dropWhile word_char (c # bs))"
    unfolding cstr_append by simp_all
  show "token_at s m = Some ((0x77, s, s + of_nat (length t)), m)"
    using assms(1-5) scan_word_cstr [OF assms(1)] unfolding t_def by (auto simp: token_at_def)
qed

text \<open>What a token promises: its bounds, its text, and the rest of the line.\<close>

definition token_ok :: "mem \<Rightarrow> u32 \<Rightarrow> u8 list \<Rightarrow> u8 \<times> u8 list \<times> u8 list option \<Rightarrow> u32 \<Rightarrow> u32 \<Rightarrow> bool" where
  "token_ok m s bs lx p1 p2 \<longleftrightarrow>
     (case lx of (k, t, rest) \<Rightarrow>
        if k = 0 then p1 = 0 \<and> p2 = 0
        else unat s \<le> unat p1 \<and> unat p1 + length t \<le> unat s + length bs \<and>
          (k \<in> {0x77, 0x66} \<longrightarrow> text_at m p1 t) \<and>
          (case rest of
             None \<Rightarrow> p2 = s + of_nat (Suc (length bs))
           | Some r \<Rightarrow> length r < length bs \<and> p2 = s + of_nat (length bs - length r) \<and> cstr m p2 r))"

lemma unat_le_out: "unat (a - s) \<le> n \<or> m' a = m a \<Longrightarrow> n < unat (a - s) \<Longrightarrow> m' a = m a"
  by auto

lemma upd_frame:
  assumes "fits s n" "i \<le> n" "n < unat (a - s)"
  shows "a \<noteq> s + of_nat i"
  using fits_diff [OF assms(1,2)] assms(2,3) by auto

lemma token_at_lex:
  assumes c: "cstr m s bs" and f: "fits s (Suc (length bs))" and w: "bs = [] \<or> \<not> is_ws (hd bs)"
  shows "\<exists>p1 p2 m'. token_at s m = Some ((fst (lex_token bs), p1, p2), m') \<and> token_ok m' s bs (lex_token bs) p1 p2 \<and>
     (\<forall>a. length bs < unat (a - s) \<longrightarrow> m' a = m a)"
proof (cases bs)
  case Nil
  then show ?thesis using c by (simp add: token_at_def lex_token_def token_ok_def is_sym_def SYMBOLS_def)
next
  case (Cons b rest)
  have f1: "fits s (length bs)" using f by (rule fits_mono) simp
  have u1: "unat (s + 1) = unat s + 1" using fits_unat [OF f, of 1] by simp
  have lx: "dropWhile is_ws bs = b # rest" using w Cons by simp
  show ?thesis
  proof (cases "b = 0x22 \<or> b = 0x60")
    case True
    define t where "t = takeWhile (\<lambda>c. c \<noteq> b) rest"
    define e where "e = s + 1 + of_nat (length t)"
    define m0 where "m0 = (if b = 0x60 then m(s := 0) else m)"
    have cr: "cstr m (s + 1) rest" "m s = b" using c Cons by simp_all
    have fr: "fits s (Suc (length rest))" using f1 Cons by simp
    note tq = token_quote [OF cr(1) fr cr(2) True, folded t_def, folded e_def, folded m0_def]
    have k: "lex_token bs = (if b = 0x22 then 0x77 else 0x66, lex_quote b rest)"
      using True lx by (auto simp: lex_token_def)
    have lt: "length t \<le> length rest" unfolding t_def by (rule length_takeWhile_le)
    have e: "e = s + of_nat (Suc (length t))" by (simp add: e_def)
    have fr': "(m0(e := 0)) a = m a" if "length bs < unat (a - s)" for a
      using upd_frame [OF f1 _ that, of "Suc (length t)"] upd_frame [OF f1 _ that, of 0] lt Cons
      by (auto simp: e m0_def)
    have tx: "text_at (m0(e := 0)) (s + 1) t" using tq(2) unfolding cstr_text by blast
    have ok: "token_ok (m0(e := 0)) s bs (lex_token bs) (s + 1) (e + 1)"
    proof (cases "dropWhile (\<lambda>c. c \<noteq> b) rest")
      case Nil
      then have "t = rest" unfolding t_def by (metis append_Nil2 takeWhile_dropWhile_id)
      then show ?thesis
        using Cons u1 tx True unfolding k lex_quote_def t_def [symmetric] token_ok_def Nil
        by (auto simp: e)
    next
      case (Cons q' r)
      have rl: "length rest = length t + Suc (length r)"
        unfolding t_def by (metis Cons length_Cons length_append takeWhile_dropWhile_id)
      then have "e + 1 = s + of_nat (length bs - length r)" using \<open>bs = b # rest\<close> by (simp add: e)
      then show ?thesis
        using rl \<open>bs = b # rest\<close> u1 tx True tq(3) [OF Cons]
        unfolding k lex_quote_def t_def [symmetric] token_ok_def Cons by auto
    qed
    show ?thesis using tq(1) ok fr' by (intro exI conjI) (auto simp: k)
  next
    case nq: False
    show ?thesis
    proof (cases "is_sym b")
      case True
      obtain k t r where ls: "lex_symbol b rest = (k, t, r)" by (metis prod_cases3)
      have cr: "cstr m s (b # rest)" and fr: "fits s (Suc (length rest))" using c f1 Cons by simp_all
      note ts = token_sym [OF cr fr True ls] and ll = lex_symbol_length [OF True ls]
      have k: "lex_token bs = (k, t, Some r)" using True nq lx ls by (auto simp: lex_token_def)
      obtain i where i: "length t = Suc i" using ll(1) by (cases "length t") auto
      have fr': "(m(s + of_nat (length t) - 1 := 0)) a = m a" if "length bs < unat (a - s)" for a
        using upd_frame [OF f1 _ that, of i] ll(2) i Cons by auto
      have "length t = length bs - length r" "length r < length bs"
        using ll(2) i Cons by simp_all
      then have "token_ok (m(s + of_nat (length t) - 1 := 0)) s bs (lex_token bs) s (s + of_nat (length t))"
        using ll ts(2) by (auto simp: token_ok_def k)
      then show ?thesis using ts(1) fr' by (intro exI conjI) (auto simp: k)
    next
      case False
      have nw: "\<not> is_ws b" using w Cons by simp
      have cr: "cstr m s (b # rest)" using c Cons by simp
      define t where "t = takeWhile word_char (b # rest)"
      define r where "r = dropWhile word_char (b # rest)"
      have nb: "b \<noteq> 0x22" "b \<noteq> 0x60" using nq by auto
      note tw = token_word [OF cr nw False nb, folded t_def r_def]
      have k: "lex_token bs = (0x77, t, Some r)"
        using False nb lx by (simp add: lex_token_def t_def r_def)
      have l: "length t + length r = length bs"
        unfolding Cons t_def r_def by (metis length_append takeWhile_dropWhile_id)
      have "0 < length t" using nw False by (simp add: word_char_def t_def)
      then have "length t = length bs - length r" "length r < length bs" using l by linarith+
      then have "token_ok m s bs (lex_token bs) s (s + of_nat (length t))"
        unfolding k using l tw(2,3) by (simp add: token_ok_def)
      then show ?thesis using tw(1) unfolding k by (intro exI conjI) auto
    qed
  qed
qed

lemma lex_skip: "lex_token (dropWhile is_ws bs) = lex_token bs"
  by (simp add: lex_token_def)

lemma token_ok_shift:
  assumes "token_ok m (s + of_nat k) b2 lx p1 p2" "length bs = k + length b2"
    "unat (s + of_nat k) = unat s + k"
  shows "token_ok m s bs lx p1 p2"
proof -
  obtain kd t rest where lx: "lx = (kd, t, rest)" by (metis prod_cases3)
  have a: "s + of_nat k + of_nat (Suc (length b2)) = s + of_nat (Suc (length bs))"
    by (simp add: assms(2))
  have b: "s + of_nat k + of_nat (length b2 - length r) = s + of_nat (length bs - length r)"
    if "length r < length b2" for r :: "u8 list"
  proof -
    have "length bs - length r = k + (length b2 - length r)" using that assms(2) by simp
    then show ?thesis by (simp only: of_nat_add add.assoc)
  qed
  show ?thesis
  proof (cases rest)
    case None
    then show ?thesis
      using assms unfolding token_ok_def lx a prod.case by auto
  next
    case (Some r)
    have "p2 = s + of_nat (length bs - length r)" if "length r < length b2"
      "p2 = s + of_nat k + of_nat (length b2 - length r)"
      using that(2) unfolding b [OF that(1)] .
    then show ?thesis
      using assms unfolding token_ok_def lx Some prod.case option.case by (cases "kd = 0") (simp_all only: if_True if_False, auto)
  qed
qed

lemma gettoken1_lex:
  assumes "cstr m s bs" "fits s (Suc (length bs))" "s \<noteq> 0"
  shows "\<exists>p1 p2 m'. gettoken1 s m = Some ((fst (lex_token bs), p1, p2), m') \<and>
     token_ok m' s bs (lex_token bs) p1 p2 \<and> (\<forall>a. length bs < unat (a - s) \<longrightarrow> m' a = m a)"
proof -
  define k where "k = length (takeWhile is_ws bs)"
  define b2 where "b2 = dropWhile is_ws bs"
  have l: "length bs = k + length b2"
    unfolding k_def b2_def by (metis length_append takeWhile_dropWhile_id)
  have f: "fits s (length bs)" using assms(2) by (rule fits_mono) simp
  have c2: "cstr (fill s 0 k m) (s + of_nat k) b2"
    using skip_ws_cstr [OF assms(1) f] by (simp add: k_def b2_def)
  have f2: "fits (s + of_nat k) (Suc (length b2))" using fits_add [OF assms(2), of k] l by (simp add: Suc_diff_le)
  have us: "unat (s + of_nat k) = unat s + k" using fits_unat [OF f, of k] l by simp
  have "b2 = [] \<or> \<not> is_ws (hd b2)" unfolding b2_def using hd_dropWhile by blast
  from token_at_lex [OF c2 f2 this] obtain p1 p2 m' where
    t: "token_at (s + of_nat k) (fill s 0 k m) = Some ((fst (lex_token bs), p1, p2), m')"
    "token_ok m' (s + of_nat k) b2 (lex_token bs) p1 p2"
    "\<And>a. length b2 < unat (a - (s + of_nat k)) \<Longrightarrow> m' a = fill s 0 k m a"
    unfolding b2_def lex_skip by blast
  have "m' a = m a" if "length bs < unat (a - s)" for a
    using t(3) [of a] unat_diff_add [of k a s] that l by (simp add: fill_out)
  moreover have "token_ok m' s bs (lex_token bs) p1 p2" by (rule token_ok_shift [OF t(2) l us])
  moreover have "gettoken1 s m = Some ((fst (lex_token bs), p1, p2), m')"
    using gettoken1_token_at [OF assms(1) f assms(3)] t(1) by (simp add: k_def)
  ultimately show ?thesis by blast
qed

section \<open>Lines of plain words\<close>

definition plain :: "u8 list \<Rightarrow> bool" where
  "plain bs \<longleftrightarrow> (\<forall>c \<in> set bs. \<not> is_sym c \<and> c \<noteq> 0x22 \<and> c \<noteq> 0x60 \<and> c \<noteq> 0x23)"

function words :: "u8 list \<Rightarrow> u8 list list" where
  "words bs =
     (case dropWhile is_ws bs of
        [] \<Rightarrow> []
      | c # r \<Rightarrow> if is_sym c then [] else takeWhile word_char (c # r) # words (dropWhile word_char (c # r)))"
  by pat_completeness auto
termination
proof (relation "measure length")
  fix bs :: "u8 list" and c r
  assume d: "dropWhile is_ws bs = c # r" and s: "\<not> is_sym c"
  have "\<not> is_ws c" using d by (metis hd_dropWhile list.distinct(1) list.sel(1))
  then have "length (dropWhile word_char (c # r)) \<le> length r"
    using s by (simp add: word_char_def length_dropWhile_le)
  then show "(dropWhile word_char (c # r), bs) \<in> measure length"
    using dropWhile_rest [OF d] by simp
qed simp

declare words.simps [simp del]

lemma plain_drop: "plain bs \<Longrightarrow> plain (dropWhile P bs)"
  by (auto simp: plain_def dest: set_dropWhileD)

text \<open>On a plain line the tokenizer steps from word to word.\<close>

lemma gettoken1_plain:
  assumes "cstr m s bs" "fits s (length bs)" "s \<noteq> 0" "plain bs"
  defines "k \<equiv> length (takeWhile is_ws bs)"
  shows "words bs = [] \<Longrightarrow> gettoken1 s m = Some ((0, 0, 0), fill s 0 k m)"
    and "words bs = w # ws \<Longrightarrow> \<exists>r. gettoken1 s m =
             Some ((0x77, s + of_nat k, s + of_nat (k + length w)), fill s 0 k m) \<and>
           length bs = k + length w + length r \<and> 0 < length w \<and> 0 \<notin> set w \<and> plain r \<and> words r = ws \<and>
           text_at (fill s 0 k m) (s + of_nat k) w \<and>
           cstr (fill s 0 k m) (s + of_nat (k + length w)) r \<and> (r = [] \<or> is_ws (hd r))"
proof -
  define b2 where "b2 = dropWhile is_ws bs"
  have c2: "cstr (fill s 0 k m) (s + of_nat k) b2"
    using skip_ws_cstr [OF assms(1,2)] by (simp add: k_def b2_def)
  note g = gettoken1_token_at [OF assms(1-3), folded k_def]
  have l: "length bs = k + length b2"
    unfolding k_def b2_def by (metis length_append takeWhile_dropWhile_id)
  have p2: "plain b2" unfolding b2_def by (rule plain_drop [OF assms(4)])
  show "gettoken1 s m = Some ((0, 0, 0), fill s 0 k m)" if "words bs = []"
  proof -
    have "b2 = []" using that p2 words.simps [of bs] unfolding b2_def [symmetric]
      by (auto simp: plain_def split: list.splits if_splits)
    then show ?thesis using c2 g by (simp add: token_at_def is_sym_def SYMBOLS_def)
  qed
  assume w: "words bs = w # ws"
  then obtain c r0 where b2: "b2 = c # r0"
    using words.simps [of bs] unfolding b2_def [symmetric] by (cases b2) auto
  have nc: "\<not> is_sym c" "c \<noteq> 0x22" "c \<noteq> 0x60" using p2 b2 by (auto simp: plain_def)
  have nw: "\<not> is_ws c" using b2 unfolding b2_def by (metis hd_dropWhile list.distinct(1) list.sel(1))
  define r where "r = dropWhile word_char (c # r0)"
  have wr: "w = takeWhile word_char (c # r0)" "words r = ws"
    using w words.simps [of bs] nc unfolding b2_def [symmetric] b2 r_def by auto
  have wne: "0 < length w" using nw nc(1) by (simp add: wr(1) word_char_def)
  have lr: "length (c # r0) = length w + length r"
    unfolding wr(1) r_def by (metis length_append takeWhile_dropWhile_id)
  have pr: "plain r" unfolding r_def b2 [symmetric] by (rule plain_drop [OF p2])
  have hr: "r = [] \<or> is_ws (hd r)"
  proof (cases r)
    case (Cons d r1)
    then have "\<not> word_char d" unfolding r_def by (metis hd_dropWhile list.distinct(1) list.sel(1))
    then show ?thesis using pr Cons by (auto simp: word_char_def plain_def)
  qed simp
  have c3: "cstr (fill s 0 k m) (s + of_nat k) (c # r0)" using c2 b2 by simp
  note tw = token_word [OF c3 nw nc, folded wr(1) r_def]
  have "0 \<notin> set w"
    using c3 set_takeWhileD [of 0 word_char "c # r0"] unfolding cstr_text wr(1) by blast
  then show "\<exists>r. gettoken1 s m =
             Some ((0x77, s + of_nat k, s + of_nat (k + length w)), fill s 0 k m) \<and>
           length bs = k + length w + length r \<and> 0 < length w \<and> 0 \<notin> set w \<and> plain r \<and> words r = ws \<and>
           text_at (fill s 0 k m) (s + of_nat k) w \<and>
           cstr (fill s 0 k m) (s + of_nat (k + length w)) r \<and> (r = [] \<or> is_ws (hd r))"
    using tw g l b2 lr pr wr(2) hr wne by (intro exI [of _ r]) (simp add: algebra_simps)
qed

end
