(* ===== verification/Shell_Props.thy ===== *)
theory Shell_Props
  imports Shell_Lex
begin

text \<open>
  The shell on command lines: the tokenizer, a plain command from the line to \<^verbatim>\<open>spawn\<close>, and
  two places where the code goes wrong.
\<close>

section \<open>Parsing plain words\<close>

lemma fill_before:
  assumes "unat a < unat p" "fits p k"
  shows "fill p x k m a = m a"
proof -
  have "unat (a - p) = 2 ^ 32 + unat a - unat p"
    using assms(1) by (simp add: unat_sub_if')
  then have "k \<le> unat (a - p)" using assms by (simp add: fits_def)
  then show ?thesis by (rule fill_out)
qed

definition held :: "mem \<Rightarrow> nat \<Rightarrow> (u32 \<times> u8 list) list \<Rightarrow> bool" where
  "held m lim ds \<longleftrightarrow> (\<forall>(p, w) \<in> set ds. cstr m p w \<and> unat p + length w < lim)"

text \<open>The words still to come: the token read ahead, then those of the rest of the line.\<close>

definition ahead :: "shell \<Rightarrow> (u32 \<times> u8 list) list \<Rightarrow> u8 list list \<Rightarrow> bool" where
  "ahead s ds ws \<longleftrightarrow>
     (case ws of
        [] \<Rightarrow> sh_nc s = 0 \<and> sh_np2 s = 0 \<and> held (sh_mem s) (2 ^ 32) ds
      | w # ws \<Rightarrow>
          sh_nc s = 0x77 \<and> sh_np2 s = sh_np1 s + of_nat (length w) \<and> sh_np2 s \<noteq> 0 \<and> 0 \<notin> set w \<and>
          text_at (sh_mem s) (sh_np1 s) w \<and> held (sh_mem s) (unat (sh_np1 s)) ds \<and>
          (\<exists>r. cstr (sh_mem s) (sh_np2 s) r \<and> fits (sh_np1 s) (length w + length r) \<and> plain r \<and>
               words r = ws \<and> (r = [] \<or> is_ws (hd r))))"

lemma ahead_flags:
  "ahead (s\<lparr>sh_flag := f, sh_job_flag := j\<rparr>) ds ws = ahead s ds ws"
  by (cases ws) (simp_all add: ahead_def)

lemma held_fill:
  assumes "held m lim ds" "lim \<le> unat p" "fits p k"
  shows "held (fill p x k m) lim ds"
  unfolding held_def
proof (intro ballI)
  fix e assume "e \<in> set ds"
  obtain q w where e: "e = (q, w)" by (cases e)
  with \<open>e \<in> set ds\<close> assms(1) have q: "cstr m q w" "unat q + length w < lim" by (auto simp: held_def)
  have "cstr (fill p x k m) q w = cstr m q w"
  proof (rule cstr_cong)
    fix i assume "i \<le> length w"
    then have "unat (q + of_nat i) < unat p"
      using q(2) assms(2) unsigned_less [of p, where ?'a = nat]
      by (subst fits_unat [where n = "length w"]) (simp_all add: fits_def)
    then show "fill p x k m (q + of_nat i) = m (q + of_nat i)" using fill_before assms(3) by blast
  qed
  with q e show "case e of (p', w) \<Rightarrow> cstr (fill p x k m) p' w \<and> unat p' + length w < lim" by simp
qed

lemma held_mono: "held m lim ds \<Longrightarrow> lim \<le> lim' \<Longrightarrow> held m lim' ds"
  by (force simp: held_def)

lemma gettoken_ahead:
  assumes "ahead s ds (w # ws)"
  shows "\<exists>s'. gettoken s = Some ((0x77, sh_np1 s), s') \<and> ahead s' (ds @ [(sh_np1 s, w)]) ws \<and>
     sh_log s' = sh_log s \<and> sh_ans s' = sh_ans s \<and> sh_cmd s' = sh_cmd s"
proof -
  let ?p = "sh_np1 s" and ?q = "sh_np2 s"
  from assms obtain r where r: "cstr (sh_mem s) ?q r" "fits ?p (length w + length r)" "plain r"
    "words r = ws" "r = [] \<or> is_ws (hd r)"
    and a: "sh_nc s = 0x77" "?q = ?p + of_nat (length w)" "?q \<noteq> 0" "0 \<notin> set w"
    "text_at (sh_mem s) ?p w" "held (sh_mem s) (unat ?p) ds"
    unfolding ahead_def list.case by blast
  define k where "k = length (takeWhile is_ws r)"
  define m' where "m' = fill ?q 0 k (sh_mem s)"
  have uq: "unat ?q = unat ?p + length w" using fits_unat [OF r(2), of "length w"] a(2) by simp
  have fq: "fits ?q (length r)" using fits_add [OF r(2), of "length w"] a(2) by simp
  have kl: "k \<le> length r" unfolding k_def by (rule length_takeWhile_le)
  have fk: "fits ?q k" using fits_mono [OF fq kl] .
  have wt: "text_at m' ?p w"
    unfolding text_at_def
  proof (intro allI impI)
    fix i assume i: "i < length w"
    then have "unat (?p + of_nat i) < unat ?q" using fits_unat [OF r(2), of i] uq by simp
    then show "m' (?p + of_nat i) = w ! i"
      using fill_before [OF _ fk] a(5) i by (simp add: m'_def text_at_def)
  qed
  have "m' ?q = 0"
  proof (cases r)
    case Nil
    then show ?thesis using r(1) by (simp add: m'_def k_def)
  next
    case (Cons c r')
    then have "0 < k" using r(5) by (simp add: k_def)
    then show ?thesis by (simp add: m'_def fill_def)
  qed
  then have cw: "cstr m' ?p w" using wt a(2,4) by (simp add: cstr_text)
  have lt: "unat ?p + length w < 2 ^ 32" using r(2) by (simp add: fits_def)
  have hd0: "held m' (unat ?p) ds" unfolding m'_def using held_fill [OF a(6) _ fk] uq by simp
  have hds: "held m' lim (ds @ [(?p, w)])" if "unat ?p + length w < lim" for lim
    using held_mono [OF hd0, of lim] that cw by (auto simp: held_def)
  show ?thesis
  proof (cases ws)
    case Nil
    have "gettoken1 ?q (sh_mem s) = Some ((0, 0, 0), m')"
      unfolding m'_def k_def using gettoken1_plain(1) [OF r(1) fq a(3) r(3)] r(4) Nil by simp
    then show ?thesis using Nil a(1) hds [OF lt] by (simp add: gettoken_def ahead_def)
  next
    case (Cons w' ws')
    then have "words r = w' # ws'" using r(4) by simp
    from gettoken1_plain(2) [OF r(1) fq a(3) r(3) this] obtain r' where
      g: "gettoken1 ?q (sh_mem s) = Some ((0x77, ?q + of_nat k, ?q + of_nat (k + length w')), m')"
      and r': "length r = k + length w' + length r'" "0 < length w'" "0 \<notin> set w'" "plain r'" "words r' = ws'"
        "text_at m' (?q + of_nat k) w'" "cstr m' (?q + of_nat (k + length w')) r'" "r' = [] \<or> is_ws (hd r')"
      unfolding m'_def k_def by blast
    have k0: "0 < k"
    proof (cases r)
      case Nil
      then show ?thesis using r'(1,2) by simp
    next
      case (Cons c r1)
      then show ?thesis using r(5) by (simp add: k_def)
    qed
    have u1: "unat (?q + of_nat k) = unat ?q + k" using fits_unat [OF fq kl] .
    have f1: "fits (?q + of_nat k) (length w' + length r')" using fits_add [OF fq kl] r'(1) by simp
    have "unat (?q + of_nat (k + length w')) = unat ?q + (k + length w')"
      using fits_unat [OF fq, of "k + length w'"] r'(1) by simp
    then have nz: "?q + of_nat (k + length w') \<noteq> 0" using r'(2) by (metis add_is_0 unat_0 less_numeral_extra(3))
    have sp: "?q + of_nat (k + length w') = ?q + of_nat k + of_nat (length w')" by simp
    have "held m' (unat (?q + of_nat k)) (ds @ [(?p, w)])" using hds [of "unat (?q + of_nat k)"] uq u1 k0 by simp
    then show ?thesis
      using Cons a(1) g r' f1 nz unfolding sp by (auto simp: gettoken_def ahead_def)
  qed
qed

text \<open>The pointers of the words that have been read stand at the front of \<^verbatim>\<open>argv\<close>.\<close>

definition argv_holds :: "argv \<Rightarrow> (u32 \<times> u8 list) list \<Rightarrow> bool" where
  "argv_holds argv ds \<longleftrightarrow> length argv = MAXARGS \<and> length ds \<le> MAXARGS \<and>
     take (length ds) argv = map (Some \<circ> fst) ds"

lemma argv_holds_snoc:
  "argv_holds argv ds \<Longrightarrow> length ds < MAXARGS \<Longrightarrow> argv_holds (argv[length ds := Some p]) (ds @ [(p, w)])"
  by (simp add: argv_holds_def take_Suc_conv_app_nth)

lemma parse_plain:
  assumes "ahead s ds ws" "argv_holds argv ds" "length ds + length ws \<le> MAXARGS" "length ws < n"
  shows "\<exists>argv' ds' s'. parse_loop n (length ds) argv rp True s = Some (Ret (length ds + length ws, argv', rp), s') \<and>
     argv_holds argv' ds' \<and> map snd ds' = map snd ds @ ws \<and> held (sh_mem s') (2 ^ 32) ds' \<and>
     \<not> sh_flag s' \<and> (sh_job_flag s' \<longrightarrow> ws = [] \<and> sh_job_flag s) \<and>
     sh_log s' = sh_log s \<and> sh_ans s' = sh_ans s \<and> sh_cmd s' = sh_cmd s"
  using assms
proof (induction ws arbitrary: s ds argv n)
  case Nil
  obtain n' where n: "n = Suc n'" using Nil.prems(4) by (cases n) auto
  have "gettoken s = Some ((0, sh_np1 s), s\<lparr>sh_c := 0, sh_nc := 0, sh_np1 := 0, sh_np2 := 0\<rparr>)"
    using Nil.prems(1) by (simp add: gettoken_def ahead_def gettoken1_def)
  then show ?case
    using Nil.prems(1,2) by (intro exI [of _ argv] exI [of _ ds]) (auto simp: n ahead_def)
next
  case (Cons w ws)
  obtain n' where n: "n = Suc n'" using Cons.prems(4) by (cases n) auto
  obtain s1 where g: "gettoken s = Some ((0x77, sh_np1 s), s1)" "ahead s1 (ds @ [(sh_np1 s, w)]) ws"
    "sh_log s1 = sh_log s" "sh_ans s1 = sh_ans s" "sh_cmd s1 = sh_cmd s"
    using gettoken_ahead [OF Cons.prems(1)] by blast
  let ?s = "s1\<lparr>sh_flag := False, sh_job_flag := False\<rparr>"
  have lt: "length ds < MAXARGS" using Cons.prems(3) by simp
  have ah: "ahead ?s (ds @ [(sh_np1 s, w)]) ws" using g(2) by (simp add: ahead_flags)
  have st: "parse_loop n (length ds) argv rp True s =
      parse_loop n' (length (ds @ [(sh_np1 s, w)])) (argv[length ds := Some (sh_np1 s)]) rp True ?s"
    using lt by (simp add: n g(1))
  show ?case
    unfolding st
    using Cons.IH [OF ah argv_holds_snoc [OF Cons.prems(2) lt], of n'] Cons.prems(3,4) g(3-5) by (auto simp: n)
qed

lemma scan_str_cstr: "cstr m p w \<Longrightarrow> scan_str m p = Some w"
  by (induction w arbitrary: p) (subst scan_str.simps, simp)+

lemma held_strings:
  "held (sh_mem s) lim ds \<Longrightarrow> those (map (str_at s) (map fst ds)) = Some (map snd ds)"
  by (induction ds) (auto simp: held_def str_at_def scan_str_cstr)

lemma gettoken_start_plain:
  assumes "cstr (sh_mem s) p bs" "fits p (length bs)" "p \<noteq> 0" "plain bs" "words bs \<noteq> []"
  shows "\<exists>s'. gettoken_start p s = Some s' \<and> ahead s' [] (words bs) \<and> sh_log s' = sh_log s \<and>
     sh_ans s' = sh_ans s \<and> sh_cmd s' = sh_cmd s"
proof -
  obtain w ws where w: "words bs = w # ws" using assms(5) by (cases "words bs") auto
  define k where "k = length (takeWhile is_ws bs)"
  from gettoken1_plain(2) [OF assms(1-4) w, folded k_def] obtain r where
    g: "gettoken1 p (sh_mem s) = Some ((0x77, p + of_nat k, p + of_nat (k + length w)), fill p 0 k (sh_mem s))"
    and r: "length bs = k + length w + length r" "0 < length w" "0 \<notin> set w" "plain r" "words r = ws"
      "text_at (fill p 0 k (sh_mem s)) (p + of_nat k) w"
      "cstr (fill p 0 k (sh_mem s)) (p + of_nat (k + length w)) r" "r = [] \<or> is_ws (hd r)"
    by blast
  have "unat (p + of_nat (k + length w)) = unat p + (k + length w)"
    using fits_unat [OF assms(2), of "k + length w"] r(1) by simp
  then have nz: "p + of_nat (k + length w) \<noteq> 0" using r(2) by (metis add_is_0 unat_0 less_numeral_extra(3))
  have f: "fits (p + of_nat k) (length w + length r)" using fits_add [OF assms(2), of k] r(1) by simp
  have sp: "p + of_nat (k + length w) = p + of_nat k + of_nat (length w)" by simp
  show ?thesis
    using g r f nz w unfolding sp by (auto simp: gettoken_start_def ahead_def held_def)
qed

text \<open>From the line to the words of the command.\<close>

lemma runcmd_plain:
  assumes "cstr (sh_mem s) p bs" "fits p (length bs)" "p \<noteq> 0" "plain bs" "words bs \<noteq> []"
    "length (words bs) \<le> MAXARGS" "length (words bs) + 2 \<le> n"
  shows "\<exists>ptrs s'. those (map (str_at s') ptrs) = Some (words bs) \<and> \<not> sh_flag s' \<and> \<not> sh_job_flag s' \<and>
     sh_log s' = sh_log s \<and> sh_ans s' = sh_ans s \<and> sh_cmd s' = sh_cmd s \<and>
     runcmd n p s = (if length (words bs) \<ge> MAXARGS then None else run_argv ptrs 0 s')"
proof -
  obtain n' where n: "n = Suc n'" "length (words bs) < n'" using assms(7) by (cases n) auto
  have tk: "takeWhile (\<lambda>c. c \<noteq> 0x23) bs = bs" using assms(4) by (auto simp: plain_def)
  have e: "scan_to 0x23 p (sh_mem s) = Some (p + of_nat (length bs))"
    using scan_to_cstr [OF assms(1), of "0x23"] unfolding tk .
  have z: "(sh_mem s)(p + of_nat (length bs) := 0) = sh_mem s" using assms(1) by (auto simp: cstr_text)
  obtain s1 where s1: "gettoken_start p s = Some s1" "ahead s1 [] (words bs)" "sh_log s1 = sh_log s"
    "sh_ans s1 = sh_ans s" "sh_cmd s1 = sh_cmd s"
    using gettoken_start_plain [OF assms(1-5)] by blast
  have "argv_holds (replicate MAXARGS None) []" by (simp add: argv_holds_def)
  from parse_plain [OF s1(2) this _ n(2), of 0] assms(6) obtain argv ds s2 where
    p: "parse_loop n' 0 (replicate MAXARGS None) 0 True s1 = Some (Ret (length (words bs), argv, 0), s2)"
    "argv_holds argv ds" "map snd ds = words bs" "held (sh_mem s2) (2 ^ 32) ds" "\<not> sh_flag s2"
    "\<not> sh_job_flag s2" "sh_log s2 = sh_log s1" "sh_ans s2 = sh_ans s1" "sh_cmd s2 = sh_cmd s1"
    using assms(5) by auto
  have "length ds = length (words bs)" using p(3) by (metis length_map)
  then have "take (length (words bs)) (map the argv) = map fst ds"
    using p(2) unfolding take_map by (simp add: argv_holds_def)
  then have "runcmd n p s = (if length (words bs) \<ge> MAXARGS then None else run_argv (map fst ds) 0 s2)"
    using assms(5) by (simp add: n e z s1(1) p(1))
  then show ?thesis using held_strings [OF p(4)] p s1 by (intro exI [of _ "map fst ds"] exI [of _ s2]) auto
qed

section \<open>Properties\<close>



text \<open>
  C22. A plain command (words separated by white space, without operators, quotes and
  comment) reaches \<^verbatim>\<open>spawn\<close> with exactly its words as arguments, in order and
  zero-terminated: \<^verbatim>\<open>runcmd\<close> spawns it, waits for its return value, closes all descriptors
  and exits. The parser returns for every number of words up to 127, with a depth of two
  more than the words.
\<close>

theorem simple_command_runs:
  assumes "cstr (sh_mem s) p bs" "unat p + length bs < 2 ^ 32" "p \<noteq> 0" "plain bs"
    and "words bs \<noteq> []" "length (words bs) < 128" "length (words bs) + 2 \<le> n"
    and "hd (words bs) \<notin> {lit ''jobs'', lit ''fg'', lit ''kill'', lit ''history''}"
    and "sh_ans s = child # r # rest" "0 \<le> child"
  shows "\<exists>s'. runcmd n p s = Some (Exited, s') \<and> sh_ans s' = rest \<and>
     sh_log s' = sh_log s @ [Spawn (words bs), Recv_return_value, Close_all, Exit]"
proof -
  obtain ptrs s1 where r: "those (map (str_at s1) ptrs) = Some (words bs)" "\<not> sh_flag s1" "\<not> sh_job_flag s1"
    "sh_log s1 = sh_log s" "sh_ans s1 = sh_ans s" "runcmd n p s = run_argv ptrs 0 s1"
    using runcmd_plain [of s p bs n] assms by (auto simp: fits_def MAXARGS_def)
  then show ?thesis
    using assms(8-10) by (auto simp: run_argv_def call_def log_ev_def sh_exit_def Let_def)
qed

theorem simple_command_runs_witness:
  "\<exists>s'. runcmd 9 0x1000 \<lparr>sh_mem = (\<lambda>_. 0)(0x1000 := 0x6C, 0x1001 := 0x73, 0x1002 := 0x20, 0x1003 := 0x2F),
      sh_c = 0, sh_nc = 0, sh_np1 = 0, sh_np2 = 0, sh_flag = False, sh_job_flag = False, sh_cmd = 0x2000,
      sh_log = [], sh_ans = [5, 0]\<rparr> = Some (Exited, s') \<and>
     sh_log s' = [Spawn [[0x6C, 0x73], [0x2F]], Recv_return_value, Close_all, Exit]"
proof -
  let ?s = "\<lparr>sh_mem = (\<lambda>_. 0)(0x1000 := 0x6C, 0x1001 := 0x73, 0x1002 := 0x20, 0x1003 := 0x2F),
      sh_c = 0, sh_nc = 0, sh_np1 = 0, sh_np2 = 0, sh_flag = False, sh_job_flag = False, sh_cmd = 0x2000,
      sh_log = [], sh_ans = [5, 0]\<rparr>"
  note d = is_ws_def WHITESPACE_def is_sym_def SYMBOLS_def word_char_def
  have c: "cstr (sh_mem ?s) 0x1000 [0x6C, 0x73, 0x20, 0x2F]" by simp
  have p: "plain [0x6C, 0x73, 0x20, 0x2F]" by (simp add: plain_def d)
  have w: "words [0x6C, 0x73, 0x20, 0x2F] = [[0x6C, 0x73], [0x2F]]"
    by (simp add: words.simps d)
  have "\<exists>s'. runcmd 9 0x1000 ?s = Some (Exited, s') \<and> sh_ans s' = [] \<and>
      sh_log s' = sh_log ?s @ [Spawn [[0x6C, 0x73], [0x2F]], Recv_return_value, Close_all, Exit]"
    using simple_command_runs [OF c _ _ p, of 9 5 0 "[]"] unfolding w by (simp add: lit_def)
  then show ?thesis by auto
qed

text \<open>
  A command word directly before \<^verbatim>\<open>&&\<close>, \<^verbatim>\<open>||\<close> or \<^verbatim>\<open>>>\<close> is spoiled: the tokenizer ends it
  by overwriting only the second character of the operator, so that once the operator has
  been read the word at the pointer it returned ends in the first one.
\<close>

theorem double_operator_joins_word:
  assumes "cstr m s (w @ c # c # rest)" "unat s + length w + length rest + 3 < 2 ^ 32" "s \<noteq> 0"
    and "w \<noteq> []" "\<forall>x \<in> set w. word_char x" "hd w \<notin> {0x22, 0x60}" "c \<in> {0x26, 0x7C, 0x3E}"
  shows "\<exists>p2 k q1 q2 m'. gettoken1 s m = Some ((0x77, s, p2), m) \<and>
     gettoken1 p2 m = Some ((k, q1, q2), m') \<and> k \<in> {0x61, 0x6F, 0x7A} \<and> cstr m' s (w @ [c])"
proof -
  obtain x w' where w: "w = x # w'" using assms(4) by (cases w) auto
  have sym: "is_sym c" using assms(7) by (auto simp: is_sym_def SYMBOLS_def)
  have nwc: "\<not> word_char c" using sym by (simp add: word_char_def)
  have x: "\<not> is_ws x" "\<not> is_sym x" "x \<noteq> 0x22" "x \<noteq> 0x60" using assms(5,6) w by (auto simp: word_char_def)
  let ?p = "s + of_nat (length w)"
  have f: "fits s (Suc (Suc (length w + length rest)))" using assms(2) by (simp add: fits_def)
  have t: "takeWhile word_char (x # w' @ c # c # rest) = w"
    using assms(5) nwc unfolding w append_Cons [symmetric] by (subst takeWhile_append2) auto
  have c0: "cstr m s (x # w' @ c # c # rest)" using assms(1) w by simp
  have g1: "gettoken1 s m = Some ((0x77, s, ?p), m)"
    using gettoken1_token_at [OF c0 _ assms(3)] token_word(1) [OF c0 x] f x(1) unfolding t
    by (simp add: w fits_def)
  have cw: "0 \<notin> set w" "text_at m s w" "cstr m ?p (c # c # rest)" using assms(1) unfolding cstr_append by simp_all
  have up: "unat ?p = unat s + length w" using fits_unat [OF f, of "length w"] by simp
  then have p0: "?p \<noteq> 0" using w by (metis add_is_0 length_Cons nat.distinct(1) unat_0)
  have fp: "fits ?p (Suc (length (c # rest)))" using fits_add [OF f, of "length w"] by simp
  obtain k where ls: "lex_symbol c (c # rest) = (k, [c, c], rest)" "k \<in> {0x61, 0x6F, 0x7A}"
    using assms(7) by (auto simp: lex_symbol_def)
  have nws: "\<not> is_ws c" using is_sym_not [OF sym] by simp
  have g2: "gettoken1 ?p m = Some ((k, ?p, ?p + 2), m(?p + 1 := 0))"
    using gettoken1_token_at [OF cw(3) _ p0] token_sym(1) [OF cw(3) fp sym ls(1)] fp nws by (simp add: algebra_simps)
  have "text_at (m(?p + 1 := 0)) s w"
    unfolding text_at_def
  proof (intro allI impI)
    fix i assume i: "i < length w"
    have "s + of_nat i \<noteq> s + of_nat (Suc (length w))" using fits_eq [OF f, of i "Suc (length w)"] i by simp
    then show "(m(?p + 1 := 0)) (s + of_nat i) = w ! i" using cw(2) i by (auto simp: text_at_def algebra_simps)
  qed
  then have "cstr (m(?p + 1 := 0)) s (w @ [c])" using cw is_sym_not [OF sym] unfolding cstr_append by simp
  then show ?thesis using g1 g2 ls(2) by blast
qed

theorem double_operator_joins_word_witness:
  "\<exists>p2 k q1 q2 m'. gettoken1 0x1000 ((\<lambda>_. 0)(0x1000 := 0x6C, 0x1001 := 0x73, 0x1002 := 0x26, 0x1003 := 0x26)) =
       Some ((0x77, 0x1000, p2), (\<lambda>_. 0)(0x1000 := 0x6C, 0x1001 := 0x73, 0x1002 := 0x26, 0x1003 := 0x26)) \<and>
     gettoken1 p2 ((\<lambda>_. 0)(0x1000 := 0x6C, 0x1001 := 0x73, 0x1002 := 0x26, 0x1003 := 0x26)) = Some ((k, q1, q2), m') \<and>
     cstr m' 0x1000 [0x6C, 0x73, 0x26]"
proof -
  let ?m = "(\<lambda>_. 0)(0x1000 := 0x6C, 0x1001 := 0x73, 0x1002 := 0x26, 0x1003 := 0x26) :: mem"
  have "cstr ?m 0x1000 ([0x6C, 0x73] @ 0x26 # 0x26 # [])" by simp
  from double_operator_joins_word [OF this] show ?thesis
    by (force simp: word_char_def is_ws_def WHITESPACE_def is_sym_def SYMBOLS_def)
qed

end
