(* ===== verification/Fs.thy ===== *)
theory Fs
  imports CString Mmu
begin

unbundle bit_operations_syntax

text \<open>
  The file system server's core, \<^verbatim>\<open>fs/fs.c\<close>, in the server's own address space: a byte
  memory, the page table entries of its pages as \<^verbatim>\<open>vpt\<close> shows them, and the disk as
  sectors of 512 bytes. Structures are read and written at their field offsets
  (\<^verbatim>\<open>user/include/fs.h\<close>); a \<^verbatim>\<open>struct File *\<close> is an address. An access to a page that is not
  mapped, a panic and a failed assertion are \<open>None\<close>.

  The three memory system calls are what \<^verbatim>\<open>kern/syscall_all.c\<close> makes of the server's own
  space: \<^verbatim>\<open>syscall_mem_alloc\<close> maps a zeroed page, unless the kernel has no page left, which
  the answers \<open>f_oom\<close> decide; \<^verbatim>\<open>syscall_mem_map\<close> of a page onto itself replaces its permission
  bits; \<^verbatim>\<open>syscall_mem_unmap\<close> clears the entry. \<open>disk_read\<close> and \<open>disk_write\<close> move whole sectors.
\<close>

section \<open>Constants\<close>

definition BLOCK_SIZE :: u32 where [mos_consts]: "BLOCK_SIZE = 4096"
definition BLOCK_SIZE_BIT :: u32 where [mos_consts]: "BLOCK_SIZE_BIT = 32768"
definition MAXNAMELEN :: nat where [mos_consts]: "MAXNAMELEN = 128"
definition NDIRECT :: u32 where [mos_consts]: "NDIRECT = 10"
definition NINDIRECT :: u32 where [mos_consts]: "NINDIRECT = 1024"
definition FILE_STRUCT_SIZE :: u32 where [mos_consts]: "FILE_STRUCT_SIZE = 256"
definition FILE2BLK :: nat where [mos_consts]: "FILE2BLK = 16"
definition FTYPE_REG :: u32 where [mos_consts]: "FTYPE_REG = 0"
definition FTYPE_DIR :: u32 where [mos_consts]: "FTYPE_DIR = 1"
definition FS_MAGIC :: u32 where [mos_consts]: "FS_MAGIC = 0x68286097"
definition DISKMAP :: u32 where [mos_consts]: "DISKMAP = 0x10000000"
definition DISKMAX :: u32 where [mos_consts]: "DISKMAX = 0x40000000"
definition PTE_DIRTY :: u32 where [mos_consts]: "PTE_DIRTY = 0x0004"
definition SECT_SIZE :: nat where [mos_consts]: "SECT_SIZE = 512"
definition SECT2BLK :: u32 where [mos_consts]: "SECT2BLK = 8"

section \<open>State and accesses\<close>

record fsrv =
  f_mem :: mem
  f_pte :: "nat \<Rightarrow> u32"
  f_disk :: "u32 \<Rightarrow> nat \<Rightarrow> u8"
  f_oom :: "nat \<Rightarrow> bool"
  f_calls :: nat
  super :: u32
  bitmap :: u32

definition va_is_mapped :: "fsrv \<Rightarrow> u32 \<Rightarrow> bool" where
  "va_is_mapped s va \<longleftrightarrow> f_pte s (VPN va) AND PTE_V \<noteq> 0"

definition va_is_dirty :: "fsrv \<Rightarrow> u32 \<Rightarrow> bool" where
  "va_is_dirty s va \<longleftrightarrow> f_pte s (VPN va) AND PTE_DIRTY \<noteq> 0"

definition rd8 :: "u32 \<Rightarrow> fsrv \<Rightarrow> u8 option" where
  "rd8 a s = (if va_is_mapped s a then Some (f_mem s a) else None)"

definition rd32 :: "u32 \<Rightarrow> fsrv \<Rightarrow> u32 option" where
  "rd32 a s = (if va_is_mapped s a then Some (ld32 (f_mem s) a) else None)"

definition wr8 :: "u32 \<Rightarrow> u8 \<Rightarrow> fsrv \<Rightarrow> fsrv option" where
  "wr8 a b s = (if va_is_mapped s a then Some (s\<lparr>f_mem := (f_mem s)(a := b)\<rparr>) else None)"

definition wr32 :: "u32 \<Rightarrow> u32 \<Rightarrow> fsrv \<Rightarrow> fsrv option" where
  "wr32 a w s = (if va_is_mapped s a then Some (s\<lparr>f_mem := st32 (f_mem s) a w\<rparr>) else None)"

text \<open>\<^verbatim>\<open>strcpy\<close> of a string without zero bytes, and the comparison \<^verbatim>\<open>strcmp(name, p) == 0\<close>.\<close>

fun wr_str :: "u32 \<Rightarrow> u8 list \<Rightarrow> fsrv \<Rightarrow> fsrv option" where
  "wr_str a [] s = wr8 a 0 s"
| "wr_str a (b # bs) s = do { s \<leftarrow> wr8 a b s; wr_str (a + 1) bs s }"

fun name_eq :: "u8 list \<Rightarrow> u32 \<Rightarrow> fsrv \<Rightarrow> bool option" where
  "name_eq [] a s = do { b \<leftarrow> rd8 a s; Some (b = 0) }"
| "name_eq (c # cs) a s = do { b \<leftarrow> rd8 a s; if b = c then name_eq cs (a + 1) s else Some False }"

section \<open>System calls and the disk\<close>

definition mem_alloc :: "u32 \<Rightarrow> u32 \<Rightarrow> fsrv \<Rightarrow> (errno + unit) \<times> fsrv" where
  "mem_alloc va perm s =
     (if is_illegal_va va then (Inl E_INVAL, s)
      else if f_oom s (f_calls s) then (Inl E_NO_MEM, s\<lparr>f_calls := f_calls s + 1\<rparr>)
      else (Inr (), s\<lparr>f_calls := f_calls s + 1,
              f_pte := (f_pte s)(VPN va := perm OR PTE_C_CACHEABLE OR PTE_V),
              f_mem := fill (PTE_ADDR va) 0 4096 (f_mem s)\<rparr>))"

definition mem_map_self :: "u32 \<Rightarrow> u32 \<Rightarrow> fsrv \<Rightarrow> (errno + unit) \<times> fsrv" where
  "mem_map_self va perm s =
     (if is_illegal_va va \<or> \<not> va_is_mapped s va then (Inl E_INVAL, s)
      else (Inr (), s\<lparr>f_pte := (f_pte s)(VPN va := perm OR PTE_C_CACHEABLE OR PTE_V)\<rparr>))"

definition mem_unmap :: "u32 \<Rightarrow> fsrv \<Rightarrow> (errno + unit) \<times> fsrv" where
  "mem_unmap va s =
     (if is_illegal_va va then (Inl E_INVAL, s)
      else (Inr (), s\<lparr>f_pte := (f_pte s)(VPN va := 0)\<rparr>))"

definition disk_write :: "u32 \<Rightarrow> u32 \<Rightarrow> u32 \<Rightarrow> fsrv \<Rightarrow> fsrv" where
  "disk_write secno src nsecs s =
     s\<lparr>f_disk := (\<lambda>sec off. if sec - secno < nsecs \<and> off < SECT_SIZE
        then f_mem s (src + (sec - secno) * 512 + of_nat off) else f_disk s sec off)\<rparr>"

definition disk_read :: "u32 \<Rightarrow> u32 \<Rightarrow> u32 \<Rightarrow> fsrv \<Rightarrow> fsrv" where
  "disk_read secno dst nsecs s =
     s\<lparr>f_mem := (\<lambda>a. if unat (a - dst) < SECT_SIZE * unat nsecs
        then f_disk s (secno + of_nat (unat (a - dst) div SECT_SIZE)) (unat (a - dst) mod SECT_SIZE)
        else f_mem s a)\<rparr>"

section \<open>The block cache\<close>

definition disk_addr :: "u32 \<Rightarrow> u32" where
  "disk_addr blockno = DISKMAP + blockno * BLOCK_SIZE"

text \<open>The address of the cached block, \<open>0\<close> when it is not in memory.\<close>

definition block_is_mapped :: "u32 \<Rightarrow> fsrv \<Rightarrow> u32" where
  "block_is_mapped blockno s =
     (let va = disk_addr blockno in if va_is_mapped s va then va else 0)"

definition block_is_dirty :: "u32 \<Rightarrow> fsrv \<Rightarrow> bool" where
  "block_is_dirty blockno s =
     (let va = disk_addr blockno in va_is_mapped s va \<and> va_is_dirty s va)"

definition dirty_block :: "u32 \<Rightarrow> fsrv \<Rightarrow> (errno + unit) \<times> fsrv" where
  "dirty_block blockno s =
     (let va = disk_addr blockno in
      if \<not> va_is_mapped s va then (Inl E_NOT_FOUND, s)
      else if va_is_dirty s va then (Inr (), s)
      else mem_map_self va (PTE_D OR PTE_DIRTY) s)"

definition write_block :: "u32 \<Rightarrow> fsrv \<Rightarrow> fsrv option" where
  "write_block blockno s =
     (if block_is_mapped blockno s = 0 then None
      else (let va = disk_addr blockno in Some (disk_write (blockno * SECT2BLK) va SECT2BLK s)))"

definition s_nblocks :: "fsrv \<Rightarrow> u32 option" where
  "s_nblocks s = rd32 (super s + 4) s"

definition block_is_free :: "u32 \<Rightarrow> fsrv \<Rightarrow> bool option" where
  "block_is_free blockno s =
     (if super s = 0 then Some False
      else do {
        n \<leftarrow> s_nblocks s;
        if blockno \<ge> n then Some False
        else do {
          w \<leftarrow> rd32 (bitmap s + 4 * (blockno div 32)) s;
          Some (w AND push_bit (unat (blockno mod 32)) 1 \<noteq> 0)
        }
      })"

text \<open>\<^verbatim>\<open>read_block\<close>: the address of the block, and whether it came off the disk.\<close>

definition read_block :: "u32 \<Rightarrow> fsrv \<Rightarrow> ((errno + (u32 \<times> bool)) \<times> fsrv) option" where
  "read_block blockno s = do {
     beyond \<leftarrow> (if super s \<noteq> 0 then do { n \<leftarrow> s_nblocks s; Some (blockno \<ge> n) } else Some False);
     free \<leftarrow> (if bitmap s \<noteq> 0 then block_is_free blockno s else Some False);
     if beyond \<or> free then None
     else
       (let va = disk_addr blockno in
        if block_is_mapped blockno s \<noteq> 0 then Some (Inr (va, False), s)
        else (case mem_alloc va PTE_D s of
                (Inl e, s) \<Rightarrow> Some (Inl e, s)
              | (Inr _, s) \<Rightarrow> Some (Inr (va, True), disk_read (blockno * SECT2BLK) va SECT2BLK s)))
   }"

definition map_block :: "u32 \<Rightarrow> fsrv \<Rightarrow> (errno + unit) \<times> fsrv" where
  "map_block blockno s =
     (if block_is_mapped blockno s \<noteq> 0 then (Inr (), s) else mem_alloc (disk_addr blockno) PTE_D s)"

definition unmap_block :: "u32 \<Rightarrow> fsrv \<Rightarrow> fsrv option" where
  "unmap_block blockno s =
     (let va = block_is_mapped blockno s in
      if va = 0 then Some s
      else do {
        free \<leftarrow> block_is_free blockno s;
        s \<leftarrow> (if \<not> free \<and> block_is_dirty blockno s then write_block blockno s else Some s);
        let (_, s) = mem_unmap va s;
        if block_is_mapped blockno s = 0 then Some s else None
      })"

section \<open>The bitmap\<close>

definition free_block :: "u32 \<Rightarrow> fsrv \<Rightarrow> fsrv option" where
  "free_block blockno s =
     (if blockno = 0 then Some s
      else do {
        n \<leftarrow> s_nblocks s;
        if blockno \<ge> n then Some s
        else do {
          w \<leftarrow> rd32 (bitmap s + 4 * (blockno div 32)) s;
          wr32 (bitmap s + 4 * (blockno div 32)) (w OR push_bit (unat (blockno mod 32)) 1) s
        }
      })"

text \<open>
  The loop of \<^verbatim>\<open>alloc_block_num\<close>; \<^verbatim>\<open>s_nblocks\<close> is read in every round, and the loop ends because
  \<^verbatim>\<open>blockno\<close> stays below it.
\<close>

partial_function (option) alloc_scan :: "u32 \<Rightarrow> fsrv \<Rightarrow> ((errno + u32) \<times> fsrv) option" where
  "alloc_scan blockno s = do {
     n \<leftarrow> s_nblocks s;
     if blockno < n then do {
       let a = bitmap s + 4 * (blockno div 32);
       w \<leftarrow> rd32 a s;
       if w AND push_bit (unat (blockno mod 32)) 1 \<noteq> 0 then do {
         s \<leftarrow> wr32 a (w AND NOT (push_bit (unat (blockno mod 32)) 1)) s;
         s \<leftarrow> write_block (blockno div BLOCK_SIZE_BIT + 2) s;
         Some (Inr blockno, s)
       }
       else alloc_scan (blockno + 1) s
     }
     else Some (Inl E_NO_DISK, s)
   }"

definition alloc_block_num :: "fsrv \<Rightarrow> ((errno + u32) \<times> fsrv) option" where
  "alloc_block_num s = alloc_scan 3 s"

definition alloc_block :: "fsrv \<Rightarrow> ((errno + u32) \<times> fsrv) option" where
  "alloc_block s = do {
     (r, s) \<leftarrow> alloc_block_num s;
     case r of
       Inl e \<Rightarrow> Some (Inl e, s)
     | Inr bno \<Rightarrow>
         (case map_block bno s of
            (Inl e, s) \<Rightarrow> do { s \<leftarrow> free_block bno s; Some (Inl e, s) }
          | (Inr _, s) \<Rightarrow> Some (Inr bno, s))
   }"

section \<open>Start-up\<close>

definition read_super :: "fsrv \<Rightarrow> fsrv option" where
  "read_super s = do {
     (r, s) \<leftarrow> read_block 1 s;
     case r of
       Inl e \<Rightarrow> None
     | Inr (blk, _) \<Rightarrow> do {
         let s = s\<lparr>super := blk\<rparr>;
         magic \<leftarrow> rd32 (super s) s;
         n \<leftarrow> s_nblocks s;
         if magic \<noteq> FS_MAGIC then None
         else if n > DISKMAX div BLOCK_SIZE then None
         else Some s
       }
   }"

text \<open>The bitmap blocks are read with the error code ignored; then they are checked.\<close>

definition read_bitmap :: "fsrv \<Rightarrow> fsrv option" where
  "read_bitmap s = do {
     n \<leftarrow> s_nblocks s;
     let nbitmap = n div BLOCK_SIZE_BIT + 1;
     s \<leftarrow> mfold (\<lambda>i s. map_option snd (read_block (of_nat i + 2) s)) [0..<unat nbitmap] s;
     let s = s\<lparr>bitmap := disk_addr 2\<rparr>;
     f0 \<leftarrow> block_is_free 0 s;
     f1 \<leftarrow> block_is_free 1 s;
     if f0 \<or> f1 then None
     else mfold (\<lambda>i s. do {
            f \<leftarrow> block_is_free (of_nat i + 2) s;
            if f then None else Some s
          }) [0..<unat nbitmap] s
   }"

definition copy_block :: "u32 \<Rightarrow> u32 \<Rightarrow> fsrv \<Rightarrow> fsrv option" where
  "copy_block dst src s =
     (if va_is_mapped s dst \<and> va_is_mapped s src
      then do { (_, m) \<leftarrow> memcpy dst src BLOCK_SIZE (f_mem s); Some (s\<lparr>f_mem := m\<rparr>) }
      else None)"

definition oops_text :: "u8 list" where
  "oops_text = [0x4F, 0x4F, 0x50, 0x53, 0x21, 0x0A]"

definition check_write_block :: "fsrv \<Rightarrow> fsrv option" where
  "check_write_block s = do {
     let s = s\<lparr>super := 0\<rparr>;
     (r, s) \<leftarrow> read_block 0 s;
     case r of
       Inl e \<Rightarrow> None
     | Inr _ \<Rightarrow> do {
         s \<leftarrow> copy_block (disk_addr 0) (disk_addr 1) s;
         s \<leftarrow> wr_str (disk_addr 1) oops_text s;
         s \<leftarrow> write_block 1 s;
         if block_is_mapped 1 s = 0 then None
         else (case mem_unmap (disk_addr 1) s of
                 (Inl e, s) \<Rightarrow> None
               | (Inr _, s) \<Rightarrow>
                   if block_is_mapped 1 s \<noteq> 0 then None
                   else do {
                     (r, s) \<leftarrow> read_block 1 s;
                     case r of
                       Inl e \<Rightarrow> None
                     | Inr _ \<Rightarrow> do {
                         same \<leftarrow> name_eq oops_text (disk_addr 1) s;
                         if \<not> same then None
                         else do {
                           s \<leftarrow> copy_block (disk_addr 1) (disk_addr 0) s;
                           s \<leftarrow> write_block 1 s;
                           Some (s\<lparr>super := disk_addr 1\<rparr>)
                         }
                       }
                   })
       }
   }"

definition fs_init :: "fsrv \<Rightarrow> fsrv option" where
  "fs_init s = do {
     s \<leftarrow> read_super s;
     s \<leftarrow> check_write_block s;
     read_bitmap s
   }"

section \<open>Blocks of a file\<close>

text \<open>The fields of a \<^verbatim>\<open>struct File\<close> at address \<open>f\<close>.\<close>

definition f_name :: "u32 \<Rightarrow> u32" where "f_name f = f"
definition f_size :: "u32 \<Rightarrow> u32" where "f_size f = f + 128"
definition f_type :: "u32 \<Rightarrow> u32" where "f_type f = f + 132"
definition f_direct :: "u32 \<Rightarrow> u32 \<Rightarrow> u32" where "f_direct f i = f + 136 + 4 * i"
definition f_indirect :: "u32 \<Rightarrow> u32" where "f_indirect f = f + 176"
definition f_dir :: "u32 \<Rightarrow> u32" where "f_dir f = f + 180"

text \<open>\<^verbatim>\<open>file_block_walk\<close>: the address of the slot with the disk block number.\<close>

definition file_block_walk :: "u32 \<Rightarrow> u32 \<Rightarrow> bool \<Rightarrow> fsrv \<Rightarrow> ((errno + u32) \<times> fsrv) option" where
  "file_block_walk f filebno create s =
     (if filebno < NDIRECT then Some (Inr (f_direct f filebno), s)
      else if filebno < NINDIRECT then do {
        ind \<leftarrow> rd32 (f_indirect f) s;
        (r, s) \<leftarrow> (if ind \<noteq> 0 then Some (Inr (), s)
                  else if \<not> create then Some (Inl E_NOT_FOUND, s)
                  else do {
                    (r, s) \<leftarrow> alloc_block s;
                    case r of
                      Inl e \<Rightarrow> Some (Inl e, s)
                    | Inr b \<Rightarrow> do { s \<leftarrow> wr32 (f_indirect f) b s; Some (Inr (), s) }
                  });
        case r of
          Inl e \<Rightarrow> Some (Inl e, s)
        | Inr _ \<Rightarrow> do {
            ind \<leftarrow> rd32 (f_indirect f) s;
            (r, s) \<leftarrow> read_block ind s;
            case r of
              Inl e \<Rightarrow> Some (Inl e, s)
            | Inr (blk, _) \<Rightarrow> Some (Inr (blk + 4 * filebno), s)
          }
      }
      else Some (Inl E_INVAL, s))"

definition file_map_block :: "u32 \<Rightarrow> u32 \<Rightarrow> bool \<Rightarrow> fsrv \<Rightarrow> ((errno + u32) \<times> fsrv) option" where
  "file_map_block f filebno create s = do {
     (r, s) \<leftarrow> file_block_walk f filebno create s;
     case r of
       Inl e \<Rightarrow> Some (Inl e, s)
     | Inr ptr \<Rightarrow> do {
         b \<leftarrow> rd32 ptr s;
         if b \<noteq> 0 then Some (Inr b, s)
         else if \<not> create then Some (Inl E_NOT_FOUND, s)
         else do {
           (r, s) \<leftarrow> alloc_block s;
           case r of
             Inl e \<Rightarrow> Some (Inl e, s)
           | Inr b \<Rightarrow> do { s \<leftarrow> wr32 ptr b s; b \<leftarrow> rd32 ptr s; Some (Inr b, s) }
         }
       }
   }"

definition file_clear_block :: "u32 \<Rightarrow> u32 \<Rightarrow> fsrv \<Rightarrow> ((errno + unit) \<times> fsrv) option" where
  "file_clear_block f filebno s = do {
     (r, s) \<leftarrow> file_block_walk f filebno False s;
     case r of
       Inl e \<Rightarrow> Some (Inl e, s)
     | Inr ptr \<Rightarrow> do {
         b \<leftarrow> rd32 ptr s;
         if b = 0 then Some (Inr (), s)
         else do { s \<leftarrow> free_block b s; s \<leftarrow> wr32 ptr 0 s; Some (Inr (), s) }
       }
   }"

definition file_get_block :: "u32 \<Rightarrow> u32 \<Rightarrow> fsrv \<Rightarrow> ((errno + u32) \<times> fsrv) option" where
  "file_get_block f filebno s = do {
     (r, s) \<leftarrow> file_map_block f filebno True s;
     case r of
       Inl e \<Rightarrow> Some (Inl e, s)
     | Inr diskbno \<Rightarrow> do {
         (r, s) \<leftarrow> read_block diskbno s;
         case r of Inl e \<Rightarrow> Some (Inl e, s) | Inr (blk, _) \<Rightarrow> Some (Inr blk, s)
       }
   }"

definition file_dirty :: "u32 \<Rightarrow> u32 \<Rightarrow> fsrv \<Rightarrow> ((errno + unit) \<times> fsrv) option" where
  "file_dirty f offset s = do {
     (r, s) \<leftarrow> file_map_block f (offset div BLOCK_SIZE) False s;
     case r of Inl e \<Rightarrow> Some (Inl e, s) | Inr diskbno \<Rightarrow> Some (dirty_block diskbno s)
   }"

section \<open>Directories\<close>

text \<open>The first entry of a block, from address \<open>f\<close> on, with the given name.\<close>

fun find_entry :: "u8 list \<Rightarrow> u32 \<Rightarrow> nat \<Rightarrow> fsrv \<Rightarrow> u32 option option" where
  "find_entry name f 0 s = Some None"
| "find_entry name f (Suc n) s = do {
     same \<leftarrow> name_eq name (f_name f) s;
     if same then Some (Some f) else find_entry name (f + FILE_STRUCT_SIZE) n s
   }"

fun dir_scan :: "u32 \<Rightarrow> u8 list \<Rightarrow> nat \<Rightarrow> nat \<Rightarrow> fsrv \<Rightarrow> ((errno + u32) \<times> fsrv) option" where
  "dir_scan dir name i 0 s = Some (Inl E_NOT_FOUND, s)"
| "dir_scan dir name i (Suc n) s = do {
     (r, s) \<leftarrow> file_get_block dir (of_nat i) s;
     case r of
       Inl e \<Rightarrow> Some (Inl e, s)
     | Inr blk \<Rightarrow> do {
         hit \<leftarrow> find_entry name blk FILE2BLK s;
         case hit of
           Some f \<Rightarrow> do { s \<leftarrow> wr32 (f_dir f) dir s; Some (Inr f, s) }
         | None \<Rightarrow> dir_scan dir name (i + 1) n s
       }
   }"

definition dir_lookup :: "u32 \<Rightarrow> u8 list \<Rightarrow> fsrv \<Rightarrow> ((errno + u32) \<times> fsrv) option" where
  "dir_lookup dir name s = do {
     sz \<leftarrow> rd32 (f_size dir) s;
     dir_scan dir name 0 (unat (sz div BLOCK_SIZE)) s
   }"

fun free_entry :: "u32 \<Rightarrow> nat \<Rightarrow> fsrv \<Rightarrow> u32 option option" where
  "free_entry f 0 s = Some None"
| "free_entry f (Suc n) s = do {
     b \<leftarrow> rd8 (f_name f) s;
     if b = 0 then Some (Some f) else free_entry (f + FILE_STRUCT_SIZE) n s
   }"

fun dir_free_scan :: "u32 \<Rightarrow> nat \<Rightarrow> nat \<Rightarrow> fsrv \<Rightarrow> ((errno + u32 option) \<times> fsrv) option" where
  "dir_free_scan dir i 0 s = Some (Inr None, s)"
| "dir_free_scan dir i (Suc n) s = do {
     (r, s) \<leftarrow> file_get_block dir (of_nat i) s;
     case r of
       Inl e \<Rightarrow> Some (Inl e, s)
     | Inr blk \<Rightarrow> do {
         hit \<leftarrow> free_entry blk FILE2BLK s;
         case hit of Some f \<Rightarrow> Some (Inr (Some f), s) | None \<Rightarrow> dir_free_scan dir (i + 1) n s
       }
   }"

definition dir_alloc_file :: "u32 \<Rightarrow> fsrv \<Rightarrow> ((errno + u32) \<times> fsrv) option" where
  "dir_alloc_file dir s = do {
     sz \<leftarrow> rd32 (f_size dir) s;
     let nblock = sz div BLOCK_SIZE;
     (r, s) \<leftarrow> dir_free_scan dir 0 (unat nblock) s;
     case r of
       Inl e \<Rightarrow> Some (Inl e, s)
     | Inr (Some f) \<Rightarrow> Some (Inr f, s)
     | Inr None \<Rightarrow> do {
         sz \<leftarrow> rd32 (f_size dir) s;
         s \<leftarrow> wr32 (f_size dir) (sz + BLOCK_SIZE) s;
         file_get_block dir nblock s
       }
   }"

section \<open>Paths\<close>

text \<open>A path is the list of its bytes up to the terminating zero.\<close>

definition skip_slash :: "u8 list \<Rightarrow> u8 list" where
  "skip_slash p = dropWhile (\<lambda>c. c = 0x2F) p"

text \<open>
  The loop of \<^verbatim>\<open>walk_path\<close>: the result is the file or the error, \<^verbatim>\<open>*pdir\<close>, and the last
  element where it is copied out.
\<close>

lemma walk_shrinks:
  assumes "path \<noteq> []"
  shows "length (skip_slash (dropWhile (\<lambda>c. c \<noteq> 0x2F) path)) < length path"
proof (cases "hd path = 0x2F")
  case True
  then obtain p where "path = 0x2F # p" using assms by (cases path) auto
  then show ?thesis by (simp add: skip_slash_def le_imp_less_Suc length_dropWhile_le)
next
  case False
  then obtain c p where p: "path = c # p" "c \<noteq> 0x2F" using assms by (cases path) auto
  have "length (skip_slash (dropWhile (\<lambda>c. c \<noteq> 0x2F) p)) \<le> length (dropWhile (\<lambda>c. c \<noteq> 0x2F) p)"
    unfolding skip_slash_def by (rule length_dropWhile_le)
  also have "\<dots> \<le> length p" by (rule length_dropWhile_le)
  finally show ?thesis using p by simp
qed

function walk_loop ::
  "u8 list \<Rightarrow> u32 \<Rightarrow> u32 \<Rightarrow> fsrv \<Rightarrow> (((errno + u32) \<times> u32 \<times> u8 list option) \<times> fsrv) option" where
  "walk_loop path dir file s =
     (if path = [] then Some ((Inr file, dir, None), s)
      else
        (let dir = file;
             name = takeWhile (\<lambda>c. c \<noteq> 0x2F) path;
             path = dropWhile (\<lambda>c. c \<noteq> 0x2F) path in
         if length name \<ge> MAXNAMELEN then Some ((Inl E_BAD_PATH, 0, None), s)
         else do {
           let path = skip_slash path;
           ty \<leftarrow> rd32 (f_type dir) s;
           if ty \<noteq> FTYPE_DIR then Some ((Inl E_NOT_FOUND, 0, None), s)
           else do {
             (r, s) \<leftarrow> dir_lookup dir name s;
             case r of
               Inl e \<Rightarrow>
                 if e = E_NOT_FOUND \<and> path = [] then Some ((Inl e, dir, Some name), s)
                 else Some ((Inl e, 0, None), s)
             | Inr file \<Rightarrow> walk_loop path dir file s
           }
         }))"
  by pat_completeness auto

termination
  by (relation "measure (\<lambda>(path, _). length path)") (auto simp: walk_shrinks)

declare walk_loop.simps [simp del]

definition s_root :: "fsrv \<Rightarrow> u32" where
  "s_root s = super s + 8"

definition walk_path ::
  "u8 list \<Rightarrow> fsrv \<Rightarrow> (((errno + u32) \<times> u32 \<times> u8 list option) \<times> fsrv) option" where
  "walk_path path s = walk_loop (skip_slash path) 0 (s_root s) s"

definition file_open :: "u8 list \<Rightarrow> fsrv \<Rightarrow> ((errno + u32) \<times> fsrv) option" where
  "file_open path s = do { ((r, _, _), s) \<leftarrow> walk_path path s; Some (r, s) }"

text \<open>
  \<^verbatim>\<open>file_create\<close>: when no entry can be allocated the error returned is that of the walk.
\<close>

definition file_create :: "u32 \<Rightarrow> u8 list \<Rightarrow> fsrv \<Rightarrow> ((errno + u32) \<times> fsrv) option" where
  "file_create req_mode path s = do {
     ((r, dir, last), s) \<leftarrow> walk_path path s;
     case r of
       Inr _ \<Rightarrow> Some (Inl E_FILE_EXISTS, s)
     | Inl e \<Rightarrow>
         if e \<noteq> E_NOT_FOUND \<or> dir = 0 then Some (Inl e, s)
         else do {
           (r, s) \<leftarrow> dir_alloc_file dir s;
           case r of
             Inl _ \<Rightarrow> Some (Inl e, s)
           | Inr f \<Rightarrow> do {
               s \<leftarrow> wr32 (f_type f) (if req_mode = 0x0800 then FTYPE_DIR else FTYPE_REG) s;
               name \<leftarrow> last;
               s \<leftarrow> wr_str (f_name f) name s;
               Some (Inr f, s)
             }
         }
   }"

section \<open>Size, flush, removal\<close>

text \<open>\<^verbatim>\<open>panic_on(file_clear_block(f, bno))\<close> for the blocks from \<open>bno\<close> on.\<close>

fun clear_blocks :: "u32 \<Rightarrow> nat \<Rightarrow> nat \<Rightarrow> fsrv \<Rightarrow> fsrv option" where
  "clear_blocks f bno 0 s = Some s"
| "clear_blocks f bno (Suc n) s = do {
     (r, s) \<leftarrow> file_clear_block f (of_nat bno) s;
     case r of Inl e \<Rightarrow> None | Inr _ \<Rightarrow> clear_blocks f (bno + 1) n s
   }"

definition nblocks_of :: "u32 \<Rightarrow> u32" where
  "nblocks_of sz = ROUND sz BLOCK_SIZE div BLOCK_SIZE"

definition file_truncate :: "u32 \<Rightarrow> u32 \<Rightarrow> fsrv \<Rightarrow> fsrv option" where
  "file_truncate f newsize s = do {
     sz \<leftarrow> rd32 (f_size f) s;
     let old_nblocks = nblocks_of sz;
     let new_nblocks = (if newsize = 0 then 0 else nblocks_of newsize);
     s \<leftarrow> clear_blocks f (unat new_nblocks) (unat old_nblocks - unat new_nblocks) s;
     s \<leftarrow> (if new_nblocks \<le> NDIRECT then do {
            ind \<leftarrow> rd32 (f_indirect f) s;
            if ind = 0 then Some s
            else do { s \<leftarrow> free_block ind s; wr32 (f_indirect f) 0 s }
          } else Some s);
     wr32 (f_size f) newsize s
   }"

fun flush_blocks :: "u32 \<Rightarrow> nat \<Rightarrow> nat \<Rightarrow> fsrv \<Rightarrow> fsrv option" where
  "flush_blocks f bno 0 s = Some s"
| "flush_blocks f bno (Suc n) s = do {
     (r, s) \<leftarrow> file_map_block f (of_nat bno) False s;
     s \<leftarrow> (case r of
            Inl e \<Rightarrow> Some s
          | Inr diskno \<Rightarrow> if block_is_dirty diskno s then write_block diskno s else Some s);
     flush_blocks f (bno + 1) n s
   }"

definition file_flush :: "u32 \<Rightarrow> fsrv \<Rightarrow> fsrv option" where
  "file_flush f s = do {
     sz \<leftarrow> rd32 (f_size f) s;
     flush_blocks f 0 (unat (nblocks_of sz)) s
   }"

definition flush_dir :: "u32 \<Rightarrow> fsrv \<Rightarrow> fsrv option" where
  "flush_dir f s = do {
     d \<leftarrow> rd32 (f_dir f) s;
     if d \<noteq> 0 then file_flush d s else Some s
   }"

definition file_set_size :: "u32 \<Rightarrow> u32 \<Rightarrow> fsrv \<Rightarrow> fsrv option" where
  "file_set_size f newsize s = do {
     sz \<leftarrow> rd32 (f_size f) s;
     s \<leftarrow> (if sz > newsize then file_truncate f newsize s else Some s);
     s \<leftarrow> wr32 (f_size f) newsize s;
     flush_dir f s
   }"

text \<open>\<^verbatim>\<open>fs_sync\<close> reads \<^verbatim>\<open>s_nblocks\<close> in every round.\<close>

partial_function (option) sync_blocks :: "u32 \<Rightarrow> fsrv \<Rightarrow> fsrv option" where
  "sync_blocks i s = do {
     n \<leftarrow> s_nblocks s;
     if i < n then do {
       s \<leftarrow> (if block_is_dirty i s then write_block i s else Some s);
       sync_blocks (i + 1) s
     }
     else Some s
   }"

definition fs_sync :: "fsrv \<Rightarrow> fsrv option" where
  "fs_sync s = sync_blocks 0 s"

definition file_close :: "u32 \<Rightarrow> fsrv \<Rightarrow> fsrv option" where
  "file_close f s = do { s \<leftarrow> file_flush f s; flush_dir f s }"

definition file_remove :: "u8 list \<Rightarrow> u32 \<Rightarrow> fsrv \<Rightarrow> ((errno + unit) \<times> fsrv) option" where
  "file_remove path type s = do {
     ((r, _, _), s) \<leftarrow> walk_path path s;
     case r of
       Inl e \<Rightarrow> Some (Inl e, s)
     | Inr f \<Rightarrow> do {
         ty \<leftarrow> rd32 (f_type f) s;
         if ty = FTYPE_DIR \<and> type = 0 then Some (Inl E_IS_DIR, s)
         else do {
           s \<leftarrow> file_truncate f 0 s;
           s \<leftarrow> wr8 (f_name f) 0 s;
           s \<leftarrow> file_flush f s;
           s \<leftarrow> flush_dir f s;
           Some (Inr (), s)
         }
       }
   }"

end
