(* ===== verification/Fs_Inv.thy ===== *)
theory Fs_Inv
  imports Fs
begin

unbundle bit_operations_syntax

text \<open>
  The block bitmap of the file server as a set of block numbers: what a started server
  guarantees about its memory (\<open>fs_ok\<close>), and how allocation and release act on the set.
\<close>

section \<open>Addresses of the block cache\<close>

lemma VPN_div: "VPN a = unat a div 4096"
  by (simp add: VPN_def unat_drop_bit)

lemma mapped_page: "VPN a = VPN b \<Longrightarrow> va_is_mapped s a = va_is_mapped s b"
  by (simp add: va_is_mapped_def)

definition aligned :: "u32 \<Rightarrow> bool" where
  "aligned a \<longleftrightarrow> unat a mod 4 = 0"

lemma unat_sub_cases:
  "unat (b - a) = (if unat a \<le> unat b then unat b - unat a else unat b + 2 ^ 32 - unat a)" for a b :: u32
  by (simp add: unat_sub_if')

lemma aligned_top:
  assumes "aligned a"
  shows "unat a \<le> 2 ^ 32 - 4"
proof -
  have "unat a < 4294967296" using unsigned_less [of a, where ?'a = nat] by simp
  with assms show ?thesis unfolding aligned_def by (simp, presburger)
qed

lemma ld32_outside:
  assumes "\<And>x. 4 \<le> unat (x - a) \<Longrightarrow> m' x = m x" "aligned a" "aligned b" "a \<noteq> b"
  shows "ld32 m' b = ld32 m b"
proof (rule ld32_cong)
  fix i :: u32 assume i: "i < 4"
  have ui: "unat i < 4" using i by (simp add: word_less_nat_alt)
  note b4 = aligned_top [OF assms(3)]
  have ub: "unat (b + i) = unat b + unat i" using b4 ui by (simp add: unat_word_ariths)
  have n: "unat a \<noteq> unat b" using assms(4) by (simp add: word_unat_eq_iff)
  have "unat a mod 4 = 0" "unat b mod 4 = 0" using assms(2,3) by (simp_all add: aligned_def)
  then have "unat b + 4 \<le> unat a \<or> unat a + 4 \<le> unat b" using n by presburger
  moreover have "unat a < 2 ^ 32" using unsigned_less [of a, where ?'a = nat] by simp
  ultimately have "4 \<le> unat (b + i - a)"
    using ui ub \<open>unat a mod 4 = 0\<close> by (auto simp: unat_sub_cases)
  then show "m' (b + i) = m (b + i)" by (rule assms(1))
qed

lemma ld32_st32_other:
  "aligned a \<Longrightarrow> aligned b \<Longrightarrow> a \<noteq> b \<Longrightarrow> ld32 (st32 m a w) b = ld32 m b"
  by (rule ld32_outside [where a = a]) (simp_all add: st32_other)

text \<open>\<open>daddr b\<close> is the address of block \<open>b\<close> as a number.\<close>

definition daddr :: "nat \<Rightarrow> nat" where
  "daddr b = 0x10000000 + b * 4096"

lemma disk_addr_unat: "unat b \<le> 0x40000 \<Longrightarrow> unat (disk_addr b) = daddr (unat b)"
  by (simp add: disk_addr_def daddr_def DISKMAP_def BLOCK_SIZE_def unat_word_ariths)

lemma disk_addr_VPN: "unat b \<le> 0x40000 \<Longrightarrow> VPN (disk_addr b) = 0x10000 + unat b"
  by (simp add: VPN_div disk_addr_unat daddr_def)

lemma disk_addr_of_nat: "b \<le> 0x40000 \<Longrightarrow> unat (of_nat b :: u32) = b"
  by (rule unat_of_nat_u32) simp

section \<open>A started server\<close>

definition nblk :: "fsrv \<Rightarrow> nat" where
  "nblk s = unat (ld32 (f_mem s) (disk_addr 1 + 4))"

definition fs_ok :: "fsrv \<Rightarrow> bool" where
  "fs_ok s \<longleftrightarrow> super s = disk_addr 1 \<and> bitmap s = disk_addr 2 \<and> nblk s \<le> 0x40000 \<and>
     va_is_mapped s (disk_addr 1) \<and> (\<forall>i \<le> nblk s div 32768. va_is_mapped s (disk_addr (of_nat (2 + i))))"

definition bm_addr :: "nat \<Rightarrow> u32" where
  "bm_addr i = disk_addr 2 + 4 * of_nat i"

definition bm_bit :: "mem \<Rightarrow> nat \<Rightarrow> bool" where
  "bm_bit m b = bit (ld32 m (bm_addr (b div 32))) (b mod 32)"

definition free_blocks :: "fsrv \<Rightarrow> nat set" where
  "free_blocks s = {b. b < nblk s \<and> bm_bit (f_mem s) b}"

lemma disk_addr_1_4: "unat (disk_addr 1 + 4) = 0x10001004" "unat (disk_addr 1) = 0x10001000"
  by (simp_all add: disk_addr_def DISKMAP_def BLOCK_SIZE_def)

lemma aligned_nblocks: "aligned (disk_addr 1 + 4)"
  unfolding aligned_def disk_addr_1_4 by simp

lemma bm_addr_unat: "i \<le> 0x2000 \<Longrightarrow> unat (bm_addr i) = 0x10002000 + 4 * i"
  by (simp add: bm_addr_def disk_addr_def DISKMAP_def BLOCK_SIZE_def unat_word_ariths unat_of_nat)

lemma bm_addr_aligned:
  assumes "i \<le> 0x2000"
  shows "aligned (bm_addr i)"
proof -
  have e: "0x10002000 + 4 * i = 4 * (0x4000800 + i)" by simp
  show ?thesis unfolding aligned_def bm_addr_unat [OF assms] e by (rule mod_mult_self1_is_0)
qed

lemma bm_addr_inj:
  assumes "i \<le> 0x2000" "j \<le> 0x2000"
  shows "bm_addr i = bm_addr j \<longleftrightarrow> i = j"
proof
  assume "bm_addr i = bm_addr j"
  then have "unat (bm_addr i) = unat (bm_addr j)" by (rule arg_cong)
  then show "i = j" unfolding bm_addr_unat [OF assms(1)] bm_addr_unat [OF assms(2)] by simp
qed simp

lemma bm_addr_nblocks:
  assumes "i \<le> 0x2000"
  shows "bm_addr i \<noteq> disk_addr 1 + 4"
proof
  assume "bm_addr i = disk_addr 1 + 4"
  then have "unat (bm_addr i) = unat (disk_addr 1 + 4)" by (rule arg_cong)
  then show False unfolding bm_addr_unat [OF assms] disk_addr_1_4 by simp
qed

lemma block_index: "b \<le> 0x40000 \<Longrightarrow> b div 32 \<le> 0x2000" for b :: nat
  using div_le_mono [of b "0x40000" 32] by simp

lemma nblocks_read [simp]: "fs_ok s \<Longrightarrow> s_nblocks s = Some (of_nat (nblk s))"
  using mapped_page [of "disk_addr 1 + 4" "disk_addr 1" s]
  by (simp add: s_nblocks_def rd32_def fs_ok_def VPN_div disk_addr_1_4 nblk_def)

lemma nblk_bound: "fs_ok s \<Longrightarrow> nblk s \<le> 0x40000"
  by (simp add: fs_ok_def)

lemma bm_addr_VPN:
  assumes "b < 0x40000"
  shows "VPN (bm_addr (b div 32)) = 0x10002 + b div 32768"
proof -
  have "VPN (bm_addr (b div 32)) = (4 * (b div 32) + 65538 * 4096) div 4096"
    unfolding VPN_div bm_addr_unat [OF block_index [OF less_imp_le [OF assms]]] by (simp add: add.commute)
  also have "\<dots> = 65538 + 4 * (b div 32) div (4 * 1024)" by (subst div_mult_self1) simp_all
  also have "4 * (b div 32) div (4 * 1024) = b div 32 div 1024" by (rule div_mult_mult1) simp
  also have "\<dots> = b div (32 * 1024)" by (rule div_mult2_eq [symmetric])
  also have "32 * 1024 = (32768 :: nat)" by simp
  finally show ?thesis .
qed

lemma bitmap_word:
  assumes "fs_ok s" "b < nblk s"
  shows "bitmap s + 4 * (of_nat b div 32) = bm_addr (b div 32)" "va_is_mapped s (bm_addr (b div 32))"
proof -
  have b: "b < 0x40000" using assms nblk_bound by fastforce
  have d: "(of_nat b :: u32) div 32 = of_nat (b div 32)"
    using b by (simp add: word_unat_eq_iff unat_div unat_of_nat_u32)
  show "bitmap s + 4 * (of_nat b div 32) = bm_addr (b div 32)"
    using assms(1) by (simp add: fs_ok_def bm_addr_def d)
  let ?i = "b div 32768"
  have i: "?i \<le> nblk s div 32768" using assms(2) by (simp add: div_le_mono)
  have m: "va_is_mapped s (disk_addr (of_nat (2 + ?i)))" using assms(1) i by (simp add: fs_ok_def)
  have "?i \<le> 8" using b by simp
  then have "VPN (disk_addr (of_nat (2 + ?i))) = 0x10000 + (2 + ?i)"
    using disk_addr_VPN [of "of_nat (2 + ?i)"] disk_addr_of_nat [of "2 + ?i"] by simp
  moreover have "VPN (bm_addr (b div 32)) = 0x10000 + (2 + ?i)" unfolding bm_addr_VPN [OF b] by simp
  ultimately have "VPN (bm_addr (b div 32)) = VPN (disk_addr (of_nat (2 + ?i)))" by (simp only:)
  from mapped_page [OF this] m show "va_is_mapped s (bm_addr (b div 32))" by (simp only:)
qed

section \<open>The scan for a free block\<close>

text \<open>The word of block \<open>b\<close> with its bit set or cleared, in memory and on disk.\<close>

definition put_bm :: "nat \<Rightarrow> bool \<Rightarrow> fsrv \<Rightarrow> fsrv" where
  "put_bm b free s =
     (let a = bm_addr (b div 32); w = ld32 (f_mem s) a; k = push_bit (b mod 32) 1 in
      s\<lparr>f_mem := st32 (f_mem s) a (if free then w OR k else w AND NOT k)\<rparr>)"

lemma put_bm_simps [simp]:
  "f_pte (put_bm b v s) = f_pte s" "f_disk (put_bm b v s) = f_disk s" "super (put_bm b v s) = super s"
  "bitmap (put_bm b v s) = bitmap s" "f_oom (put_bm b v s) = f_oom s" "f_calls (put_bm b v s) = f_calls s"
  "va_is_mapped (put_bm b v s) a = va_is_mapped s a"
  by (simp_all add: put_bm_def Let_def va_is_mapped_def)

lemma put_bm_out: "4 \<le> unat (x - bm_addr (b div 32)) \<Longrightarrow> f_mem (put_bm b v s) x = f_mem s x"
  by (simp add: put_bm_def Let_def st32_other)

lemma put_bm_nblk: "b \<le> 0x40000 \<Longrightarrow> nblk (put_bm b v s) = nblk s"
  using bm_addr_nblocks [OF block_index] bm_addr_aligned [OF block_index] aligned_nblocks
  by (simp add: nblk_def put_bm_def Let_def ld32_st32_other)

lemma bit_set_clear:
  "k < 32 \<Longrightarrow> i < 32 \<Longrightarrow> bit ((w :: u32) AND NOT (push_bit k 1)) i \<longleftrightarrow> bit w i \<and> i \<noteq> k"
  "k < 32 \<Longrightarrow> i < 32 \<Longrightarrow> bit ((w :: u32) OR push_bit k 1) i \<longleftrightarrow> bit w i \<or> i = k"
  by (auto simp: bit_simps)

lemma put_bm_bit:
  assumes "b \<le> 0x40000" "c \<le> 0x40000"
  shows "bm_bit (f_mem (put_bm b v s)) c \<longleftrightarrow> (if c = b then v else bm_bit (f_mem s) c)"
proof (cases "c div 32 = b div 32")
  case True
  then have "c mod 32 = b mod 32 \<longleftrightarrow> c = b" by (metis div_mult_mod_eq)
  then show ?thesis using True
    by (simp add: put_bm_def Let_def bm_bit_def bit_set_clear [simplified])
next
  case False
  then have "bm_addr (b div 32) \<noteq> bm_addr (c div 32)"
    using bm_addr_inj [OF block_index [OF assms(1)] block_index [OF assms(2)]] by simp
  then have "ld32 (f_mem (put_bm b v s)) (bm_addr (c div 32)) = ld32 (f_mem s) (bm_addr (c div 32))"
    using bm_addr_aligned block_index assms by (simp add: put_bm_def Let_def ld32_st32_other)
  then show ?thesis using False by (auto simp: bm_bit_def)
qed

lemma put_bm_ok: "fs_ok s \<Longrightarrow> b \<le> 0x40000 \<Longrightarrow> fs_ok (put_bm b v s)"
  by (simp add: fs_ok_def put_bm_nblk)

lemma put_bm_free:
  assumes "fs_ok s" "b < nblk s"
  shows "free_blocks (put_bm b v s) = (if v then insert b (free_blocks s) else free_blocks s - {b})"
proof -
  have b: "b \<le> 0x40000" using assms nblk_bound [OF assms(1)] by linarith
  have "c \<le> 0x40000" if "c < nblk s" for c using that nblk_bound [OF assms(1)] by linarith
  with assms(2) b show ?thesis
    by (auto simp: free_blocks_def put_bm_nblk put_bm_bit split: if_splits)
qed

text \<open>The bitmap block of \<open>b\<close> is written to disk.\<close>

definition sync_bm :: "nat \<Rightarrow> fsrv \<Rightarrow> fsrv" where
  "sync_bm b s = disk_write (of_nat (b div 32768 + 2) * SECT2BLK) (disk_addr (of_nat (b div 32768 + 2))) SECT2BLK s"

lemma sync_bm_simps [simp]:
  "f_mem (sync_bm b s) = f_mem s" "f_pte (sync_bm b s) = f_pte s" "super (sync_bm b s) = super s"
  "bitmap (sync_bm b s) = bitmap s" "nblk (sync_bm b s) = nblk s" "fs_ok (sync_bm b s) = fs_ok s"
  "free_blocks (sync_bm b s) = free_blocks s"
  by (simp_all add: sync_bm_def disk_write_def nblk_def fs_ok_def free_blocks_def va_is_mapped_def)

lemma mod_word: "b \<le> 0x40000 \<Longrightarrow> unat ((of_nat b :: u32) mod 32) = b mod 32"
  by (simp add: unat_mod disk_addr_of_nat)

lemma disk_addr_nonzero: "unat b \<le> 0x40000 \<Longrightarrow> disk_addr b \<noteq> 0"
  using disk_addr_unat [of b] by (auto simp: daddr_def)

lemma write_bm:
  assumes "fs_ok s" "b < nblk s"
  shows "write_block (of_nat b div BLOCK_SIZE_BIT + 2) s = Some (sync_bm b s)"
proof -
  have b: "b < 0x40000" using assms nblk_bound by fastforce
  have d: "(of_nat b :: u32) div BLOCK_SIZE_BIT + 2 = of_nat (b div 32768 + 2)"
  proof -
    have "(of_nat b :: u32) div 32768 = of_nat (b div 32768)"
      using b by (simp add: word_unat_eq_iff unat_div unat_of_nat_u32)
    then show ?thesis by (simp add: BLOCK_SIZE_BIT_def)
  qed
  have i: "b div 32768 \<le> nblk s div 32768" using assms(2) by (simp add: div_le_mono)
  then have m: "va_is_mapped s (disk_addr (of_nat (2 + b div 32768)))" using assms(1) by (simp only: fs_ok_def)
  have "b div 32768 + 2 \<le> 0x40000" using b by simp
  then have "disk_addr (of_nat (b div 32768 + 2)) \<noteq> 0" using disk_addr_nonzero disk_addr_of_nat by metis
  then show ?thesis
    using m unfolding write_block_def d block_is_mapped_def Let_def sync_bm_def by (simp add: add.commute)
qed

lemma alloc_scan_step:
  assumes "fs_ok s" "b < nblk s"
  shows "alloc_scan (of_nat b) s =
     (if b \<in> free_blocks s then Some (Inr (of_nat b), sync_bm b (put_bm b False s))
      else alloc_scan (of_nat (Suc b)) s)"
proof -
  have b: "b \<le> 0x40000" "nblk s \<le> 0x40000" using assms nblk_bound [OF assms(1)] by linarith+
  have lt: "(of_nat b :: u32) < of_nat (nblk s)"
    using assms(2) b by (simp add: word_less_nat_alt disk_addr_of_nat)
  note w = bitmap_word [OF assms]
  have bit: "ld32 (f_mem s) (bm_addr (b div 32)) AND push_bit (b mod 32) 1 \<noteq> 0 \<longleftrightarrow> b \<in> free_blocks s"
    using assms(2) word_and_pow2_neq_0 [of "ld32 (f_mem s) (bm_addr (b div 32))" "b mod 32"]
    by (simp add: free_blocks_def bm_bit_def)
  have "fs_ok (put_bm b False s)" "b < nblk (put_bm b False s)"
    using put_bm_ok [OF assms(1) b(1)] assms(2) put_bm_nblk [OF b(1)] by simp_all
  note wb = write_bm [OF this]
  have pm: "s\<lparr>f_mem := st32 (f_mem s) (bm_addr (b div 32))
       (ld32 (f_mem s) (bm_addr (b div 32)) AND NOT (push_bit (b mod 32) 1))\<rparr> = put_bm b False s"
    by (simp add: put_bm_def Let_def)
  show ?thesis
  proof (cases "b \<in> free_blocks s")
    case True
    then show ?thesis
      using bit by (subst alloc_scan.simps)
        (simp add: assms(1) lt Let_def w rd32_def wr32_def mod_word [OF b(1)] pm [simplified] wb)
  next
    case False
    then show ?thesis
      using bit by (subst alloc_scan.simps)
        (simp add: assms(1) lt Let_def w rd32_def mod_word [OF b(1)] add.commute)
  qed
qed

lemma alloc_scan_end:
  assumes "fs_ok s"
  shows "alloc_scan (of_nat (nblk s)) s = Some (Inl E_NO_DISK, s)"
  by (subst alloc_scan.simps) (simp add: assms)

lemma alloc_scan_correct:
  assumes "fs_ok s" "b \<le> nblk s"
  shows "alloc_scan (of_nat b) s =
     (if \<exists>c \<in> free_blocks s. b \<le> c
      then (let c = (LEAST c. c \<in> free_blocks s \<and> b \<le> c) in Some (Inr (of_nat c), sync_bm c (put_bm c False s)))
      else Some (Inl E_NO_DISK, s))"
  using assms(2)
proof (induction "nblk s - b" arbitrary: b)
  case 0
  then have "b = nblk s" by simp
  then show ?case using alloc_scan_end [OF assms(1)] by (auto simp: free_blocks_def)
next
  case (Suc n)
  then have lt: "b < nblk s" by simp
  show ?case
  proof (cases "b \<in> free_blocks s")
    case True
    then have "(LEAST c. c \<in> free_blocks s \<and> b \<le> c) = b" by (intro Least_equality) auto
    then show ?thesis using True alloc_scan_step [OF assms(1) lt] by auto
  next
    case False
    then have e: "c \<in> free_blocks s \<and> b \<le> c \<longleftrightarrow> c \<in> free_blocks s \<and> Suc b \<le> c" for c
      by (metis Suc_leD Suc_leI le_neq_implies_less)
    have "n = nblk s - Suc b" "Suc b \<le> nblk s" using Suc.hyps(2) lt by simp_all
    from Suc.hyps(1) [OF this] show ?thesis
      using False alloc_scan_step [OF assms(1) lt] by (simp only: e if_False Bex_def)
  qed
qed

section \<open>Release, and the test for a free block\<close>

lemma free_block_put:
  assumes "fs_ok s" "0 < b" "b < nblk s"
  shows "free_block (of_nat b) s = Some (put_bm b True s)"
proof -
  have b: "b \<le> 0x40000" "nblk s \<le> 0x40000" using assms nblk_bound [OF assms(1)] by linarith+
  have nz: "(of_nat b :: u32) \<noteq> 0" using assms(2) disk_addr_of_nat [OF b(1)] by auto
  have lt: "\<not> (of_nat (nblk s) :: u32) \<le> of_nat b"
    using assms(3) b by (simp add: word_le_nat_alt disk_addr_of_nat)
  have pm: "s\<lparr>f_mem := st32 (f_mem s) (bm_addr (b div 32))
       (ld32 (f_mem s) (bm_addr (b div 32)) OR push_bit (b mod 32) 1)\<rparr> = put_bm b True s"
    by (simp add: put_bm_def Let_def)
  show ?thesis
    using nz lt bitmap_word [OF assms(1,3)] by (simp add: free_block_def assms(1) rd32_def wr32_def mod_word [OF b(1)] pm [simplified])
qed

lemma block_is_free_iff:
  assumes "fs_ok s" "b \<le> 0x40000"
  shows "block_is_free (of_nat b) s = Some (b \<in> free_blocks s)"
proof (cases "b < nblk s")
  case True
  have n: "nblk s \<le> 0x40000" using nblk_bound [OF assms(1)] .
  have lt: "\<not> (of_nat (nblk s) :: u32) \<le> of_nat b"
    using True assms(2) n by (simp add: word_le_nat_alt disk_addr_of_nat)
  have s0: "super s \<noteq> 0" using assms(1) disk_addr_nonzero [of 1] by (simp add: fs_ok_def)
  show ?thesis
    using s0 lt True bitmap_word [OF assms(1) True] word_and_pow2_neq_0 [of "ld32 (f_mem s) (bm_addr (b div 32))" "b mod 32"]
    by (simp add: block_is_free_def assms(1) rd32_def mod_word [OF assms(2)] free_blocks_def bm_bit_def)
next
  case False
  have n: "nblk s \<le> 0x40000" using nblk_bound [OF assms(1)] .
  have "(of_nat (nblk s) :: u32) \<le> of_nat b"
    using False assms(2) n by (simp add: word_le_nat_alt disk_addr_of_nat)
  then show ?thesis using False assms(1) by (simp add: block_is_free_def free_blocks_def)
qed

section \<open>Contents of blocks\<close>

definition cache_byte :: "fsrv \<Rightarrow> nat \<Rightarrow> nat \<Rightarrow> u8" where
  "cache_byte s b i = f_mem s (disk_addr (of_nat b) + of_nat i)"

definition disk_byte :: "fsrv \<Rightarrow> nat \<Rightarrow> nat \<Rightarrow> u8" where
  "disk_byte s b i = f_disk s (of_nat (b * 8 + i div 512)) (i mod 512)"

lemma block_addr_unat:
  assumes "b \<le> 0x40000" "i < 4096"
  shows "unat (disk_addr (of_nat b) + of_nat i) = daddr b + i"
proof -
  have "unat (disk_addr (of_nat b)) = daddr b" using disk_addr_unat [of "of_nat b"] disk_addr_of_nat [OF assms(1)] assms(1) by simp
  moreover have "unat (of_nat i :: u32) = i" using assms(2) by (intro unat_of_nat_u32) simp
  moreover have "daddr b + i < 2 ^ 32" using assms by (simp add: daddr_def)
  ultimately show ?thesis by (simp add: unat_word_ariths)
qed

lemma block_addr_VPN: "b \<le> 0x40000 \<Longrightarrow> i < 4096 \<Longrightarrow> VPN (disk_addr (of_nat b) + of_nat i) = 0x10000 + b"
  by (simp add: VPN_div block_addr_unat daddr_def)

text \<open>Memory outside the page of block \<open>b\<close> is the same.\<close>

definition same_but :: "nat \<Rightarrow> fsrv \<Rightarrow> fsrv \<Rightarrow> bool" where
  "same_but b s s' \<longleftrightarrow> (\<forall>a. VPN a \<noteq> 0x10000 + b \<longrightarrow> f_mem s' a = f_mem s a)"

lemma word_page:
  fixes a i :: u32
  assumes "aligned a" "i < 4"
  shows "VPN (a + i) = VPN a"
proof -
  have ui: "unat i < 4" using assms(2) by (simp add: word_less_nat_alt)
  have u: "unat (a + i) = unat a + unat i" using ui aligned_top [OF assms(1)] by (simp add: unat_word_ariths)
  have "unat a = 4 * (unat a div 4)" using assms(1) by (auto simp: aligned_def)
  then have "(unat a + unat i) div 4 = unat a div 4" using ui by linarith
  then have "(unat a + unat i) div 4 div 1024 = unat a div 4 div 1024" by simp
  then show ?thesis unfolding VPN_div u div_mult2_eq [symmetric] by simp
qed

lemma page_ld32:
  assumes "aligned a" "\<And>x. VPN x = VPN a \<Longrightarrow> m' x = m x"
  shows "ld32 m' a = ld32 m a"
  by (rule ld32_cong) (simp add: assms(2) word_page [OF assms(1)])

lemma same_but_ld32:
  assumes "same_but b s s'" "aligned a" "VPN a \<noteq> 0x10000 + b"
  shows "ld32 (f_mem s') a = ld32 (f_mem s) a"
  using assms by (intro page_ld32) (simp_all add: same_but_def)

text \<open>The blocks the server needs for itself: super block and bitmap.\<close>

definition sys_block :: "fsrv \<Rightarrow> nat \<Rightarrow> bool" where
  "sys_block s b \<longleftrightarrow> 1 \<le> b \<and> b \<le> 2 + nblk s div 32768"

lemma same_but_nblk:
  assumes "same_but b s s'" "\<not> sys_block s b"
  shows "nblk s' = nblk s"
proof -
  have "VPN (disk_addr 1 + 4) = 0x10001" unfolding VPN_div disk_addr_1_4 by simp
  then have "ld32 (f_mem s') (disk_addr 1 + 4) = ld32 (f_mem s) (disk_addr 1 + 4)"
    using assms(2) by (intro same_but_ld32 [OF assms(1) aligned_nblocks]) (auto simp: sys_block_def)
  then show ?thesis by (simp add: nblk_def)
qed

lemma same_but_free:
  assumes "same_but b s s'" "\<not> sys_block s b" "fs_ok s"
  shows "free_blocks s' = free_blocks s"
proof -
  have "bm_bit (f_mem s') c = bm_bit (f_mem s) c" if c: "c < nblk s" for c
  proof -
    have c4: "c < 0x40000" using c nblk_bound [OF assms(3)] by simp
    have "c div 32768 \<le> nblk s div 32768" using c by (simp add: div_le_mono)
    then have "0x10002 + c div 32768 \<noteq> 0x10000 + b" using assms(2) by (auto simp: sys_block_def)
    then have "VPN (bm_addr (c div 32)) \<noteq> 0x10000 + b" unfolding bm_addr_VPN [OF c4] .
    from same_but_ld32 [OF assms(1) bm_addr_aligned [OF block_index] this] c4 show ?thesis
      by (simp add: bm_bit_def)
  qed
  then show ?thesis by (auto simp: free_blocks_def same_but_nblk [OF assms(1,2)])
qed

lemma same_but_ok:
  assumes "same_but b s s'" "\<not> sys_block s b" "fs_ok s" "super s' = super s" "bitmap s' = bitmap s"
    and "\<And>p. p \<noteq> 0x10000 + b \<Longrightarrow> f_pte s' p = f_pte s p"
  shows "fs_ok s'"
proof -
  have n: "nblk s' = nblk s" by (rule same_but_nblk [OF assms(1,2)])
  have m: "va_is_mapped s' (disk_addr (of_nat c)) = va_is_mapped s (disk_addr (of_nat c))"
    if c: "1 \<le> c" "c \<le> 2 + nblk s div 32768" for c
  proof -
    have "nblk s div 32768 \<le> 8" using nblk_bound [OF assms(3)] by simp
    then have c4: "c \<le> 0x40000" using c(2) by linarith
    have "VPN (disk_addr (of_nat c)) = 0x10000 + c"
      using disk_addr_VPN [of "of_nat c"] disk_addr_of_nat [OF c4] c4 by simp
    moreover have "c \<noteq> b" using c assms(2) by (auto simp: sys_block_def)
    ultimately show ?thesis using assms(6) by (simp add: va_is_mapped_def)
  qed
  have "va_is_mapped s' (disk_addr 1)" using m [of 1] assms(3) by (simp add: fs_ok_def)
  moreover have "va_is_mapped s' (disk_addr (of_nat (2 + i)))" if "i \<le> nblk s div 32768" for i
    using m [of "2 + i"] that assms(3) unfolding fs_ok_def by simp
  ultimately show ?thesis using assms(3,4,5) n by (simp add: fs_ok_def)
qed

section \<open>Moving blocks\<close>

definition block_out :: "nat \<Rightarrow> fsrv \<Rightarrow> fsrv" where
  "block_out b s = disk_write (of_nat b * SECT2BLK) (disk_addr (of_nat b)) SECT2BLK s"

definition block_in :: "nat \<Rightarrow> fsrv \<Rightarrow> fsrv" where
  "block_in b s = disk_read (of_nat b * SECT2BLK) (disk_addr (of_nat b)) SECT2BLK s"

lemma block_out_simps [simp]:
  "f_mem (block_out b s) = f_mem s" "f_pte (block_out b s) = f_pte s" "super (block_out b s) = super s"
  "bitmap (block_out b s) = bitmap s" "nblk (block_out b s) = nblk s" "fs_ok (block_out b s) = fs_ok s"
  "free_blocks (block_out b s) = free_blocks s" "f_oom (block_out b s) = f_oom s"
  "f_calls (block_out b s) = f_calls s" "cache_byte (block_out b s) = cache_byte s"
  by (simp_all add: block_out_def disk_write_def nblk_def fs_ok_def free_blocks_def va_is_mapped_def cache_byte_def fun_eq_iff)

lemma block_in_simps [simp]:
  "f_disk (block_in b s) = f_disk s" "f_pte (block_in b s) = f_pte s" "super (block_in b s) = super s"
  "bitmap (block_in b s) = bitmap s" "f_oom (block_in b s) = f_oom s" "f_calls (block_in b s) = f_calls s"
  by (simp_all add: block_in_def disk_read_def)

lemma sync_bm_out: "sync_bm b s = block_out (b div 32768 + 2) s"
  by (simp add: sync_bm_def block_out_def)

text \<open>Sector numbers of blocks.\<close>

lemma sector_diff:
  assumes "b \<le> 0x40000" "c \<le> 0x40000" "j < 8"
  shows "unat ((of_nat (c * 8 + j) :: u32) - of_nat b * 8) < 8 \<longleftrightarrow> c = b"
    and "(of_nat (b * 8 + j) :: u32) - of_nat b * 8 = of_nat j"
proof -
  have u: "unat (of_nat (c * 8 + j) :: u32) = c * 8 + j" using assms by (intro unat_of_nat_u32) simp
  have v: "unat ((of_nat b :: u32) * 8) = b * 8"
    using assms unat_of_nat_u32 [of "b * 8"] by simp
  show "unat ((of_nat (c * 8 + j) :: u32) - of_nat b * 8) < 8 \<longleftrightarrow> c = b"
    unfolding unat_sub_cases u v using assms by auto
  show "(of_nat (b * 8 + j) :: u32) - of_nat b * 8 = of_nat j" by simp
qed

lemma block_out_disk:
  assumes "b \<le> 0x40000" "c \<le> 0x40000" "i < 4096"
  shows "disk_byte (block_out b s) c i = (if c = b then cache_byte s b i else disk_byte s c i)"
proof -
  have j: "i div 512 < 8" using assms(3) by (simp add: less_mult_imp_div_less)
  note sd = sector_diff [OF assms(1,2) j]
  have m: "of_nat (i div 512) * 512 + of_nat (i mod 512) = (of_nat i :: u32)"
    by (metis div_mult_mod_eq of_nat_add of_nat_mult of_nat_numeral)
  show ?thesis
  proof (cases "c = b")
    case True
    then show ?thesis
      using sd True unfolding disk_byte_def block_out_def disk_write_def cache_byte_def
      by (simp add: SECT2BLK_def SECT_SIZE_def word_less_nat_alt add.assoc m del: of_nat_add of_nat_mult)
  next
    case False
    then show ?thesis
      using sd unfolding disk_byte_def block_out_def disk_write_def
      by (simp add: SECT2BLK_def word_less_nat_alt del: of_nat_add of_nat_mult)
  qed
qed

lemma offset_in_page:
  fixes a p :: u32
  assumes "unat p = P * 4096" "P < 2 ^ 20"
  shows "unat (a - p) < 4096 \<longleftrightarrow> VPN a = P"
proof -
  have l: "unat a < 2 ^ 32" using unsigned_less [of a, where ?'a = nat] by simp
  have lb: "P * 4096 + 4096 \<le> 2 ^ 32" using assms(2) by simp
  have "VPN a = P \<longleftrightarrow> P * 4096 \<le> unat a \<and> unat a < P * 4096 + 4096"
    unfolding VPN_div using div_nat_eqI [of 4096 P "unat a"]
    by (auto simp: dividend_less_times_div mult.commute intro: div_nat_eqI)
  also have "\<dots> \<longleftrightarrow> unat (a - p) < 4096"
    unfolding unat_sub_cases assms(1) using l lb by auto
  finally show ?thesis by simp
qed

lemma block_offset:
  assumes "b \<le> 0x40000"
  shows "unat (a - disk_addr (of_nat b)) < 4096 \<longleftrightarrow> VPN a = 0x10000 + b"
proof (rule offset_in_page)
  show "unat (disk_addr (of_nat b)) = (0x10000 + b) * 4096"
    using block_addr_unat [OF assms, of 0] by (simp add: daddr_def)
  show "0x10000 + b < 2 ^ 20" using assms by simp
qed

lemma block_in_cache:
  assumes "b \<le> 0x40000" "i < 4096"
  shows "cache_byte (block_in b s) b i = disk_byte s b i"
proof -
  have u: "unat (of_nat i :: u32) = i" using assms(2) by (intro unat_of_nat_u32) simp
  show ?thesis using assms(2)
    by (simp add: cache_byte_def disk_byte_def block_in_def disk_read_def SECT2BLK_def SECT_SIZE_def u mult.commute)
qed

lemma block_in_same: "b \<le> 0x40000 \<Longrightarrow> same_but b s (block_in b s)"
  using block_offset [of b] by (simp add: same_but_def block_in_def disk_read_def SECT2BLK_def SECT_SIZE_def)

section \<open>Mapping and reading a block\<close>

lemma block_legal: "b < 0x40000 \<Longrightarrow> \<not> is_illegal_va (disk_addr (of_nat b))"
  using block_addr_unat [of b 0]
  by (simp add: is_illegal_va_def daddr_def word_less_nat_alt word_le_nat_alt mos_consts)

text \<open>A fresh page for block \<open>b\<close>.\<close>

definition block_page :: "nat \<Rightarrow> fsrv \<Rightarrow> fsrv" where
  "block_page b s = s\<lparr>f_calls := f_calls s + 1,
     f_pte := (f_pte s)(0x10000 + b := PTE_D OR PTE_C_CACHEABLE OR PTE_V),
     f_mem := fill (disk_addr (of_nat b)) 0 4096 (f_mem s)\<rparr>"

lemma PTE_ADDR_block:
  assumes "b \<le> 0x40000"
  shows "PTE_ADDR (disk_addr (of_nat b)) = disk_addr (of_nat b)"
proof -
  let ?a = "disk_addr (of_nat b)"
  have "unat ?a = (0x10000 + b) * 4096" using block_addr_unat [OF assms, of 0] by (simp add: daddr_def)
  then have "unat (?a AND 0xFFF) = 0" unfolding unat_and_4095 by simp
  then have z: "?a AND 0xFFF = 0" by (simp add: unat_eq_0)
  have "?a = (?a AND 0xFFF) OR (?a AND NOT 0xFFF)" by (rule bit_word_eqI) (auto simp: bit_simps)
  then show ?thesis unfolding PTE_ADDR_def z by simp
qed

lemma mem_alloc_block:
  assumes "b < 0x40000"
  shows "mem_alloc (disk_addr (of_nat b)) PTE_D s =
     (if f_oom s (f_calls s) then (Inl E_NO_MEM, s\<lparr>f_calls := f_calls s + 1\<rparr>) else (Inr (), block_page b s))"
  using assms block_legal [OF assms] PTE_ADDR_block [of b] block_addr_VPN [of b 0]
  by (simp add: mem_alloc_def block_page_def)

lemma block_page_simps [simp]:
  "f_disk (block_page b s) = f_disk s" "super (block_page b s) = super s" "bitmap (block_page b s) = bitmap s"
  "f_oom (block_page b s) = f_oom s" "f_calls (block_page b s) = f_calls s + 1"
  by (simp_all add: block_page_def)

lemma block_page_same: "b \<le> 0x40000 \<Longrightarrow> same_but b s (block_page b s)"
  using block_offset [of b] by (simp add: same_but_def block_page_def fill_def)

lemma block_page_cache: "b \<le> 0x40000 \<Longrightarrow> i < 4096 \<Longrightarrow> cache_byte (block_page b s) b i = 0"
  by (simp add: cache_byte_def block_page_def fill_def unat_of_nat_u32)

lemma pte_V_neq: "(PTE_D OR PTE_C_CACHEABLE OR PTE_V) AND PTE_V \<noteq> 0" "(w OR PTE_C_CACHEABLE OR PTE_V) AND PTE_V \<noteq> 0"
  using pte_valid_or_V(1) [of "PTE_D OR PTE_C_CACHEABLE"] pte_valid_or_V(1) [of "w OR PTE_C_CACHEABLE"]
  by (simp_all add: pte_valid_def or.assoc)

lemma block_mapped_iff:
  assumes "b \<le> 0x40000"
  shows "block_is_mapped (of_nat b) s = (if f_pte s (0x10000 + b) AND PTE_V \<noteq> 0 then disk_addr (of_nat b) else 0)"
    and "disk_addr (of_nat b) \<noteq> 0"
  using block_addr_VPN [OF assms, of 0] disk_addr_nonzero [of "of_nat b"] disk_addr_of_nat [OF assms] assms
  by (simp_all add: block_is_mapped_def va_is_mapped_def)

definition cached :: "fsrv \<Rightarrow> nat \<Rightarrow> bool" where
  "cached s b \<longleftrightarrow> f_pte s (0x10000 + b) AND PTE_V \<noteq> 0"

lemma block_page_cached: "cached (block_page b s) c \<longleftrightarrow> c = b \<or> cached s c"
  using pte_V_neq(1) by (auto simp: cached_def block_page_def)

lemma block_page_ok:
  assumes "fs_ok s" "b \<le> 0x40000" "\<not> sys_block s b"
  shows "fs_ok (block_page b s)" "free_blocks (block_page b s) = free_blocks s" "nblk (block_page b s) = nblk s"
proof -
  note same = block_page_same [OF assms(2), of s]
  show "fs_ok (block_page b s)" by (rule same_but_ok [OF same assms(3,1)]) (auto simp: block_page_def)
  show "free_blocks (block_page b s) = free_blocks s" by (rule same_but_free [OF same assms(3,1)])
  show "nblk (block_page b s) = nblk s" by (rule same_but_nblk [OF same assms(3)])
qed

lemma block_in_ok:
  assumes "fs_ok s" "b \<le> 0x40000" "\<not> sys_block s b"
  shows "fs_ok (block_in b s)" "free_blocks (block_in b s) = free_blocks s" "nblk (block_in b s) = nblk s"
proof -
  note same = block_in_same [OF assms(2), of s]
  show "fs_ok (block_in b s)" by (rule same_but_ok [OF same assms(3,1)]) auto
  show "free_blocks (block_in b s) = free_blocks s" by (rule same_but_free [OF same assms(3,1)])
  show "nblk (block_in b s) = nblk s" by (rule same_but_nblk [OF same assms(3)])
qed

text \<open>\<^verbatim>\<open>read_block\<close> of a block in use.\<close>

lemma read_block_used:
  assumes "fs_ok s" "b < nblk s" "b \<notin> free_blocks s"
  shows "read_block (of_nat b) s =
     Some (if cached s b then (Inr (disk_addr (of_nat b), False), s)
           else if f_oom s (f_calls s) then (Inl E_NO_MEM, s\<lparr>f_calls := f_calls s + 1\<rparr>)
           else (Inr (disk_addr (of_nat b), True), block_in b (block_page b s)))"
proof -
  have n: "nblk s \<le> 0x40000" using nblk_bound [OF assms(1)] .
  have b: "b < 0x40000" "b \<le> 0x40000" using assms(2) n by linarith+
  have lt: "\<not> (of_nat (nblk s) :: u32) \<le> of_nat b"
    using assms(2) n b by (simp add: word_le_nat_alt disk_addr_of_nat)
  show ?thesis
    using assms lt block_mapped_iff(1) [OF b(2), of s] block_mapped_iff(2) [OF b(2)]
    by (simp add: read_block_def block_is_free_iff [OF assms(1) b(2)] mem_alloc_block [OF b(1)] cached_def
        block_in_def Let_def)
qed

lemma block_dirty_iff:
  assumes "b \<le> 0x40000"
  shows "block_is_dirty (of_nat b) s \<longleftrightarrow> cached s b \<and> f_pte s (0x10000 + b) AND PTE_DIRTY \<noteq> 0"
  using block_addr_VPN [OF assms, of 0]
  by (simp add: block_is_dirty_def va_is_mapped_def va_is_dirty_def cached_def Let_def)

lemma write_block_cached:
  "b \<le> 0x40000 \<Longrightarrow> write_block (of_nat b) s = (if cached s b then Some (block_out b s) else None)"
  using block_mapped_iff(1) [of b s] block_mapped_iff(2) [of b] by (simp add: write_block_def cached_def block_out_def)

section \<open>Allocating a block\<close>

definition lowest_free :: "fsrv \<Rightarrow> nat" where
  "lowest_free s = (LEAST c. c \<in> free_blocks s \<and> 3 \<le> c)"

lemma alloc_block_num_eq:
  assumes "fs_ok s" "3 \<le> nblk s"
  shows "alloc_block_num s =
     Some (if \<exists>c \<in> free_blocks s. 3 \<le> c
           then (Inr (of_nat (lowest_free s)), sync_bm (lowest_free s) (put_bm (lowest_free s) False s))
           else (Inl E_NO_DISK, s))"
  using alloc_scan_correct [OF assms] by (simp add: alloc_block_num_def lowest_free_def Let_def)

lemma lowest_free_in:
  assumes "\<exists>c \<in> free_blocks s. 3 \<le> c"
  shows "lowest_free s \<in> free_blocks s" "3 \<le> lowest_free s" "c \<in> free_blocks s \<Longrightarrow> 3 \<le> c \<Longrightarrow> lowest_free s \<le> c"
proof -
  from assms have "\<exists>c. c \<in> free_blocks s \<and> 3 \<le> c" by blast
  then have "lowest_free s \<in> free_blocks s \<and> 3 \<le> lowest_free s" unfolding lowest_free_def by (rule LeastI_ex)
  then show "lowest_free s \<in> free_blocks s" "3 \<le> lowest_free s" by simp_all
  show "lowest_free s \<le> c" if "c \<in> free_blocks s" "3 \<le> c" unfolding lowest_free_def using that by (intro Least_le) simp
qed

definition fs_inv :: "fsrv \<Rightarrow> bool" where
  "fs_inv s \<longleftrightarrow> fs_ok s \<and> 3 \<le> nblk s \<and> (\<forall>b. sys_block s b \<longrightarrow> b \<notin> free_blocks s)"

text \<open>
  What \<^verbatim>\<open>alloc_block\<close> does: the lowest free block goes out of the set, its bitmap block is
  written to disk, and it is given a zeroed page unless it has a page already; when there is
  no page it is released again, in memory only.
\<close>

lemma alloc_block_eq:
  assumes "fs_inv s" "\<exists>c \<in> free_blocks s. 3 \<le> c"
  defines "b \<equiv> lowest_free s"
  defines "s1 \<equiv> sync_bm b (put_bm b False s)"
  shows "alloc_block s = Some
     (if cached s b then (Inr (of_nat b), s1)
      else if f_oom s (f_calls s) then (Inl E_NO_MEM, put_bm b True (s1\<lparr>f_calls := f_calls s + 1\<rparr>))
      else (Inr (of_nat b), block_page b s1))"
proof -
  have ok: "fs_ok s" "3 \<le> nblk s" using assms(1) by (simp_all add: fs_inv_def)
  have bf: "b \<in> free_blocks s" "3 \<le> b" using lowest_free_in [OF assms(2)] by (simp_all add: b_def)
  have bn: "b < nblk s" using bf(1) by (simp add: free_blocks_def)
  have b4: "b < 0x40000" "b \<le> 0x40000" using bn nblk_bound [OF ok(1)] by linarith+
  have s1: "fs_ok s1" "nblk s1 = nblk s" "f_pte s1 = f_pte s" "f_oom s1 = f_oom s" "f_calls s1 = f_calls s"
    using put_bm_ok [OF ok(1) b4(2)] put_bm_nblk [OF b4(2)] unfolding s1_def sync_bm_out by simp_all
  have n: "alloc_block_num s = Some (Inr (of_nat b), s1)"
    using alloc_block_num_eq [OF ok] assms(2) by (simp add: b_def s1_def)
  let ?s2 = "s1\<lparr>f_calls := f_calls s + 1\<rparr>"
  have ok2: "fs_ok ?s2" "b < nblk ?s2" using s1(1,2) bn by (simp_all add: fs_ok_def nblk_def va_is_mapped_def)
  have fb: "free_block (of_nat b) ?s2 = Some (put_bm b True ?s2)"
    by (rule free_block_put [OF ok2(1) _ ok2(2)]) (use bf(2) in simp)
  have mb: "map_block (of_nat b) s1 = (if cached s b then (Inr (), s1)
       else if f_oom s (f_calls s) then (Inl E_NO_MEM, ?s2) else (Inr (), block_page b s1))"
    using block_mapped_iff(1) [OF b4(2), of s1] block_mapped_iff(2) [OF b4(2)] s1
    by (simp add: map_block_def mem_alloc_block [OF b4(1)] cached_def)
  show ?thesis by (simp add: alloc_block_def n mb fb [simplified])
qed

lemma word_end: "x < 4 \<Longrightarrow> y \<le> 2 ^ 32 - 4 \<Longrightarrow> y + x < 2 ^ 32" for x y :: nat
  by simp

text \<open>A byte of another page is outside the word at \<open>a\<close>.\<close>

lemma far_from_word:
  fixes a x :: u32
  assumes "aligned a" "VPN x \<noteq> VPN a"
  shows "4 \<le> unat (x - a)"
proof (rule ccontr)
  assume "\<not> 4 \<le> unat (x - a)"
  then have d: "unat (x - a) < 4" by simp
  have "unat (a + (x - a)) = unat a + unat (x - a)"
  proof (rule unat_add_lem [THEN iffD1])
    have "unat a + unat (x - a) < 2 ^ 32" by (rule word_end [OF d aligned_top [OF assms(1)]])
    then show "unat a + unat (x - a) < 2 ^ LENGTH(32)" by simp
  qed
  then have u: "unat x = unat a + unat (x - a)" by simp
  have "unat a = 4 * (unat a div 4)" using assms(1) by (auto simp: aligned_def)
  then have "unat x div 4 = unat a div 4" using d u by linarith
  then have "unat x div 4 div 1024 = unat a div 4 div 1024" by simp
  then show False using assms(2) unfolding VPN_div div_mult2_eq [symmetric] by simp
qed

lemma bm_sync_mem:
  assumes "fs_ok s" "b < nblk s"
  shows "same_but (b div 32768 + 2) s (sync_bm b (put_bm b v s))"
proof -
  have b: "b < 0x40000" "b \<le> 0x40000" using assms nblk_bound by fastforce+
  show ?thesis
    using far_from_word [OF bm_addr_aligned [OF block_index [OF b(2)]]]
    by (simp add: same_but_def put_bm_out bm_addr_VPN [OF b(1)])
qed

end
