(* ===== verification/Fs_Alloc.thy ===== *)
theory Fs_Alloc
  imports Fs_Inv
begin

unbundle bit_operations_syntax

text \<open>
  Block allocation as the removal of the least free block from a set, and the way of a block
  out of the cache and back.
\<close>

section \<open>Allocation as an operation on the set of free blocks\<close>

definition bitmap_block :: "nat \<Rightarrow> nat" where
  "bitmap_block b = b div 32768 + 2"

lemma bitmap_block_sys: "b < nblk s \<Longrightarrow> sys_block s (bitmap_block b)"
  by (simp add: sys_block_def bitmap_block_def div_le_mono)

lemma bitmap_block_bound: "b < 0x40000 \<Longrightarrow> bitmap_block b \<le> 0x40000"
  by (simp add: bitmap_block_def)

text \<open>The state after \<open>b\<close> has been taken from the bitmap.\<close>

definition take_block :: "nat \<Rightarrow> fsrv \<Rightarrow> fsrv" where
  "take_block b s = sync_bm b (put_bm b False s)"

lemma take_block_facts:
  assumes "fs_inv s" "b < nblk s"
  shows "fs_inv (take_block b s)" "free_blocks (take_block b s) = free_blocks s - {b}"
    "nblk (take_block b s) = nblk s" "f_pte (take_block b s) = f_pte s"
    "f_oom (take_block b s) = f_oom s" "f_calls (take_block b s) = f_calls s"
    "VPN a \<noteq> 0x10000 + bitmap_block b \<Longrightarrow> f_mem (take_block b s) a = f_mem s a"
    "c \<le> 0x40000 \<Longrightarrow> i < 4096 \<Longrightarrow> disk_byte (take_block b s) c i =
       (if c = bitmap_block b then cache_byte (take_block b s) c i else disk_byte s c i)"
proof -
  have ok: "fs_ok s" using assms(1) by (simp add: fs_inv_def)
  have b: "b < 0x40000" "b \<le> 0x40000" using assms(2) nblk_bound [OF ok] by linarith+
  note n = put_bm_nblk [OF b(2)] put_bm_ok [OF ok b(2)] put_bm_free [OF ok assms(2)]
  show "nblk (take_block b s) = nblk s" by (simp add: take_block_def n)
  show "free_blocks (take_block b s) = free_blocks s - {b}" by (simp add: take_block_def n)
  show "fs_inv (take_block b s)"
    using assms(1) by (simp add: fs_inv_def take_block_def n sys_block_def)
  show "f_pte (take_block b s) = f_pte s" "f_oom (take_block b s) = f_oom s"
    "f_calls (take_block b s) = f_calls s"
    by (simp_all add: take_block_def sync_bm_out)
  show "f_mem (take_block b s) a = f_mem s a" if "VPN a \<noteq> 0x10000 + bitmap_block b"
    using bm_sync_mem [OF ok assms(2), of False] that
    by (simp add: same_but_def take_block_def bitmap_block_def)
  show "disk_byte (take_block b s) c i =
       (if c = bitmap_block b then cache_byte (take_block b s) c i else disk_byte s c i)"
    if "c \<le> 0x40000" "i < 4096"
    using block_out_disk [OF bitmap_block_bound [OF b(1)] that, of "put_bm b False s"]
    by (auto simp: take_block_def sync_bm_out bitmap_block_def disk_byte_def)
qed

text \<open>A page for a block outside super block and bitmap leaves these alone.\<close>

lemma block_page_inv:
  assumes "fs_inv s" "b \<le> 0x40000" "\<not> sys_block s b"
  shows "fs_inv (block_page b s)" "free_blocks (block_page b s) = free_blocks s"
    "VPN a \<noteq> 0x10000 + b \<Longrightarrow> f_mem (block_page b s) a = f_mem s a"
proof -
  have ok: "fs_ok s" using assms(1) by (simp add: fs_inv_def)
  note p = block_page_ok [OF ok assms(2,3)]
  show "fs_inv (block_page b s)" using assms(1) by (simp add: fs_inv_def p sys_block_def)
  show "free_blocks (block_page b s) = free_blocks s" by (rule p)
  show "f_mem (block_page b s) a = f_mem s a" if "VPN a \<noteq> 0x10000 + b"
    using block_page_same [OF assms(2), of s] that by (simp add: same_but_def)
qed

lemma lowest_free_facts:
  assumes "fs_inv s" "\<exists>c \<in> free_blocks s. 3 \<le> c"
  shows "lowest_free s < nblk s" "lowest_free s < 0x40000" "\<not> sys_block s (lowest_free s)"
    "lowest_free s \<noteq> bitmap_block (lowest_free s)"
proof -
  let ?b = "lowest_free s"
  have f: "?b \<in> free_blocks s" by (rule lowest_free_in(1) [OF assms(2)])
  show n: "?b < nblk s" using f by (simp add: free_blocks_def)
  show "?b < 0x40000" using n nblk_bound [of s] assms(1) by (simp add: fs_inv_def)
  show ns: "\<not> sys_block s ?b" using f assms(1) by (auto simp: fs_inv_def)
  show "?b \<noteq> bitmap_block ?b" using bitmap_block_sys [OF n] ns by auto
qed

text \<open>The state after a successful allocation.\<close>

definition given_block :: "nat \<Rightarrow> fsrv \<Rightarrow> fsrv" where
  "given_block b s = (if cached s b then take_block b s else block_page b (take_block b s))"

lemma alloc_block_cases:
  assumes "fs_inv s"
  shows "alloc_block s = Some
     (if \<not> (\<exists>c \<in> free_blocks s. 3 \<le> c) then (Inl E_NO_DISK, s)
      else if \<not> cached s (lowest_free s) \<and> f_oom s (f_calls s)
      then (Inl E_NO_MEM, put_bm (lowest_free s) True (take_block (lowest_free s) s\<lparr>f_calls := f_calls s + 1\<rparr>))
      else (Inr (of_nat (lowest_free s)), given_block (lowest_free s) s))"
proof (cases "\<exists>c \<in> free_blocks s. 3 \<le> c")
  case True
  then show ?thesis
    using alloc_block_eq [OF assms True] by (auto simp: take_block_def given_block_def)
next
  case False
  have "fs_ok s" "3 \<le> nblk s" using assms by (simp_all add: fs_inv_def)
  then show ?thesis using False alloc_block_num_eq [of s] by (auto simp: alloc_block_def)
qed

lemma given_block_facts:
  assumes "fs_inv s" "\<exists>c \<in> free_blocks s. 3 \<le> c"
  defines "b \<equiv> lowest_free s"
  shows "fs_inv (given_block b s)" "free_blocks (given_block b s) = free_blocks s - {b}"
    "cached (given_block b s) c \<longleftrightarrow> c = b \<or> cached s c"
    "VPN a \<noteq> 0x10000 + bitmap_block b \<Longrightarrow> VPN a \<noteq> 0x10000 + b \<Longrightarrow> f_mem (given_block b s) a = f_mem s a"
    "i < 4096 \<Longrightarrow> cache_byte (given_block b s) b i = (if cached s b then cache_byte s b i else 0)"
    "c \<le> 0x40000 \<Longrightarrow> i < 4096 \<Longrightarrow> disk_byte (given_block b s) c i =
       (if c = bitmap_block b then cache_byte (given_block b s) c i else disk_byte s c i)"
proof -
  note l = lowest_free_facts [OF assms(1,2), folded b_def]
  have b: "b \<le> 0x40000" using l(2) by simp
  note t = take_block_facts [OF assms(1) l(1)]
  have ns: "\<not> sys_block (take_block b s) b" using l(3) by (simp add: sys_block_def t(3))
  note p = block_page_inv [OF t(1) b ns]
  show "fs_inv (given_block b s)" "free_blocks (given_block b s) = free_blocks s - {b}"
    by (simp_all add: given_block_def t(1,2) p)
  show "cached (given_block b s) c \<longleftrightarrow> c = b \<or> cached s c"
    by (auto simp: given_block_def block_page_cached) (simp_all add: cached_def t(4))
  show "f_mem (given_block b s) a = f_mem s a" if "VPN a \<noteq> 0x10000 + bitmap_block b" "VPN a \<noteq> 0x10000 + b"
    using that by (simp add: given_block_def p(3) t(7))
  show "cache_byte (given_block b s) b i = (if cached s b then cache_byte s b i else 0)" if "i < 4096"
    using block_page_cache [OF b that] l(4) t(7) block_addr_VPN [OF b that]
    by (simp add: given_block_def cache_byte_def)
  show "disk_byte (given_block b s) c i =
       (if c = bitmap_block b then cache_byte (given_block b s) c i else disk_byte s c i)"
    if c: "c \<le> 0x40000" "i < 4096"
  proof -
    have "cache_byte (given_block b s) c i = cache_byte (take_block b s) c i" if "c = bitmap_block b"
      using p(3) block_addr_VPN [OF c] that l(4) by (simp add: given_block_def cache_byte_def)
    moreover have "disk_byte (given_block b s) c i = disk_byte (take_block b s) c i"
      by (simp add: given_block_def disk_byte_def)
    ultimately show ?thesis using t(8) [OF c] by simp
  qed
qed

lemma given_block_nblk:
  assumes "fs_inv s" "\<exists>c \<in> free_blocks s. 3 \<le> c"
  shows "nblk (given_block (lowest_free s) s) = nblk s"
proof -
  note l = lowest_free_facts [OF assms]
  note t = take_block_facts(1,3) [OF assms(1) l(1)]
  show ?thesis
    using t l(2,3) block_page_ok(3) [of "take_block (lowest_free s) s" "lowest_free s"]
    by (simp add: given_block_def fs_inv_def sys_block_def)
qed

text \<open>Nothing but the counter of calls changes in an allocation that finds no page.\<close>

lemma take_put_back:
  assumes "fs_inv s" "b \<in> free_blocks s" "\<not> sys_block s b"
  shows "fs_inv (put_bm b True (take_block b s\<lparr>f_calls := k\<rparr>))"
    "free_blocks (put_bm b True (take_block b s\<lparr>f_calls := k\<rparr>)) = free_blocks s"
proof -
  let ?t = "take_block b s\<lparr>f_calls := k\<rparr>"
  have n: "b < nblk s" using assms(2) by (simp add: free_blocks_def)
  note t = take_block_facts [OF assms(1) n]
  have c: "nblk ?t = nblk (take_block b s)" "free_blocks ?t = free_blocks (take_block b s)"
    "fs_ok ?t = fs_ok (take_block b s)"
    by (simp_all add: nblk_def free_blocks_def fs_ok_def va_is_mapped_def)
  have ok: "fs_ok ?t" using t(1) c by (simp add: fs_inv_def)
  have bt: "b < nblk ?t" using n c t(3) by simp
  have b: "b \<le> 0x40000" using bt nblk_bound [OF ok] by simp
  show f: "free_blocks (put_bm b True ?t) = free_blocks s"
    using put_bm_free [OF ok bt, of True] assms(2) by (simp add: c t(2) insert_absorb)
  show "fs_inv (put_bm b True ?t)"
    using put_bm_ok [OF ok b] put_bm_nblk [OF b, of True ?t] assms(1) f
    by (simp add: fs_inv_def c t(3) sys_block_def)
qed


section \<open>The way of a block out of the cache and back\<close>

text \<open>Eviction: \<^verbatim>\<open>unmap_block\<close> of a block in use, and the state it leaves.\<close>

definition evicted :: "nat \<Rightarrow> fsrv \<Rightarrow> fsrv" where
  "evicted b s =
     (let s' = (if block_is_dirty (of_nat b) s then block_out b s else s)
      in s'\<lparr>f_pte := (f_pte s)(0x10000 + b := 0)\<rparr>)"

lemma evicted_simps [simp]:
  "f_mem (evicted b s) = f_mem s" "f_pte (evicted b s) = (f_pte s)(0x10000 + b := 0)"
  "super (evicted b s) = super s" "bitmap (evicted b s) = bitmap s" "f_oom (evicted b s) = f_oom s"
  "f_calls (evicted b s) = f_calls s" "nblk (evicted b s) = nblk s" "free_blocks (evicted b s) = free_blocks s"
  "\<not> cached (evicted b s) b"
  by (simp_all add: evicted_def Let_def nblk_def free_blocks_def cached_def)

lemma unmap_block_eq:
  assumes "fs_inv s" "b < nblk s" "b \<notin> free_blocks s" "cached s b"
  shows "unmap_block (of_nat b) s = Some (evicted b s)"
proof -
  have ok: "fs_ok s" using assms(1) by (simp add: fs_inv_def)
  have b: "b < 0x40000" "b \<le> 0x40000" using assms(2) nblk_bound [OF ok] by linarith+
  note m = block_mapped_iff(1) [OF b(2)] block_mapped_iff(2) [OF b(2)]
  have v: "VPN (disk_addr (of_nat b)) = 0x10000 + b" using block_addr_VPN [OF b(2), of 0] by simp
  show ?thesis
    using assms(3,4) m(2)
    by (simp add: unmap_block_def Let_def m(1) cached_def [symmetric] block_is_free_iff [OF ok b(2)]
        write_block_cached [OF b(2)] mem_unmap_def block_legal [OF b(1)] v evicted_def)
      (simp add: cached_def)
qed

lemma evicted_ok:
  assumes "fs_inv s" "b < nblk s" "\<not> sys_block s b"
  shows "fs_ok (evicted b s)" "fs_inv (evicted b s)"
proof -
  have ok: "fs_ok s" using assms(1) by (simp add: fs_inv_def)
  have same: "same_but b s (evicted b s)" by (simp add: same_but_def)
  show "fs_ok (evicted b s)" by (rule same_but_ok [OF same assms(3) ok]) simp_all
  then show "fs_inv (evicted b s)" using assms(1) by (simp add: fs_inv_def sys_block_def)
qed

lemma evicted_disk:
  assumes "b \<le> 0x40000" "c \<le> 0x40000" "i < 4096"
  shows "disk_byte (evicted b s) c i =
    (if c = b \<and> block_is_dirty (of_nat b) s then cache_byte s b i else disk_byte s c i)"
proof -
  have "disk_byte (evicted b s) c i = disk_byte (if block_is_dirty (of_nat b) s then block_out b s else s) c i"
    by (simp add: evicted_def Let_def disk_byte_def)
  then show ?thesis using block_out_disk [OF assms, of s] by (cases "c = b") simp_all
qed

lemma block_in_page_facts:
  assumes "fs_inv s" "b < nblk s" "\<not> sys_block s b"
  defines "s' \<equiv> block_in b (block_page b s)"
  shows "fs_inv s'" "free_blocks s' = free_blocks s" "nblk s' = nblk s" "f_disk s' = f_disk s"
    "cached s' c \<longleftrightarrow> c = b \<or> cached s c" "\<not> block_is_dirty (of_nat b) s'"
    "i < 4096 \<Longrightarrow> cache_byte s' b i = disk_byte s b i"
    "VPN a \<noteq> 0x10000 + b \<Longrightarrow> f_mem s' a = f_mem s a"
proof -
  have ok: "fs_ok s" using assms(1) by (simp add: fs_inv_def)
  have b: "b \<le> 0x40000" using assms(2) nblk_bound [OF ok] by linarith
  note p = block_page_ok [OF ok b assms(3)]
  have "\<not> sys_block (block_page b s) b" using assms(3) by (simp add: sys_block_def p)
  note q = block_in_ok [OF p(1) b this]
  show "fs_inv s'" using assms(1) by (simp add: fs_inv_def s'_def p q sys_block_def)
  show "free_blocks s' = free_blocks s" "nblk s' = nblk s" "f_disk s' = f_disk s"
    by (simp_all add: s'_def p q)
  show "cached s' c \<longleftrightarrow> c = b \<or> cached s c"
    using block_page_cached [of b s c] by (simp add: s'_def cached_def)
  have "(PTE_D OR PTE_C_CACHEABLE OR PTE_V) AND PTE_DIRTY = 0" by (simp add: mos_consts)
  then show "\<not> block_is_dirty (of_nat b) s'"
    by (simp add: block_dirty_iff [OF b] s'_def) (simp add: block_page_def)
  show "cache_byte s' b i = disk_byte s b i" if "i < 4096"
    using block_in_cache [OF b that, of "block_page b s"] by (simp add: s'_def disk_byte_def)
  show "f_mem s' a = f_mem s a" if "VPN a \<noteq> 0x10000 + b"
    using block_in_same [OF b, of "block_page b s"] block_page_same [OF b, of s] that
    by (simp add: s'_def same_but_def)
qed

end
