(* ===== verification/Fs_File.thy ===== *)
theory Fs_File
  imports Fs_Alloc
begin

unbundle bit_operations_syntax

text \<open>
  Files in the block cache: words of a \<^verbatim>\<open>struct File\<close> that lies in a data block, the blocks a
  file gets and loses, and paths as lists of names.
\<close>

section \<open>A file structure in a data block\<close>

definition struct_in :: "u32 \<Rightarrow> nat \<Rightarrow> bool" where
  "struct_in f c \<longleftrightarrow> unat f mod 256 = 0 \<and> VPN f = 0x10000 + c"

definition file_at :: "fsrv \<Rightarrow> u32 \<Rightarrow> nat \<Rightarrow> bool" where
  "file_at s f c \<longleftrightarrow> struct_in f c \<and> c < nblk s \<and> \<not> sys_block s c \<and> c \<notin> free_blocks s \<and> cached s c"

lemma field_unat:
  fixes f k :: u32
  assumes "unat f mod 256 = 0" "unat k < 256"
  shows "unat (f + k) = unat f + unat k"
proof (rule unat_add_lem [THEN iffD1])
  have "unat f < 4294967296" using unsigned_less [of f, where ?'a = nat] by simp
  then have "unat f + 256 \<le> 4294967296" using assms(1) by presburger
  then show "unat f + unat k < 2 ^ LENGTH(32)" using assms(2) by simp
qed

lemma field_page:
  fixes f k :: u32
  assumes "unat f mod 256 = 0" "unat k < 256"
  shows "VPN (f + k) = VPN f"
proof -
  have "unat f = 256 * (unat f div 256)" using assms(1) by auto
  then have "(unat f + unat k) div 256 = unat f div 256" using assms(2) by linarith
  then have "(unat f + unat k) div 256 div 16 = unat f div 256 div 16" by simp
  then show ?thesis unfolding VPN_div field_unat [OF assms] div_mult2_eq [symmetric] by simp
qed

lemma field_aligned:
  fixes f k :: u32
  assumes "unat f mod 256 = 0" "unat k < 256" "unat k mod 4 = 0"
  shows "aligned (f + k)"
  unfolding aligned_def field_unat [OF assms(1,2)] using assms(1,3) by presburger

lemma direct_offset:
  fixes n :: u32
  assumes "n < NDIRECT"
  shows "unat (136 + 4 * n) = 136 + 4 * unat n" "unat n < 10"
proof -
  show n: "unat n < 10" using assms by (simp add: NDIRECT_def word_less_nat_alt)
  then show "unat (136 + 4 * n) = 136 + 4 * unat n" by (simp add: unat_word_ariths)
qed

text \<open>The fields of a file are words of its block.\<close>

definition word_in :: "u32 \<Rightarrow> nat \<Rightarrow> bool" where
  "word_in a c \<longleftrightarrow> aligned a \<and> VPN a = 0x10000 + c"

lemma struct_fields:
  assumes "struct_in f c"
  shows "word_in (f_size f) c" "word_in (f_indirect f) c" "word_in (f_dir f) c"
    "n < NDIRECT \<Longrightarrow> word_in (f_direct f n) c"
proof -
  have f: "unat f mod 256 = 0" "VPN f = 0x10000 + c" using assms by (simp_all add: struct_in_def)
  show "word_in (f_size f) c" "word_in (f_indirect f) c" "word_in (f_dir f) c"
    using field_page [OF f(1)] field_aligned [OF f(1)] f(2)
    by (simp_all add: word_in_def f_size_def f_indirect_def f_dir_def)
  show "word_in (f_direct f n) c" if "n < NDIRECT"
  proof -
    have o: "unat (136 + 4 * n) < 256" "unat (136 + 4 * n) mod 4 = 0"
      unfolding direct_offset(1) [OF that] using direct_offset(2) [OF that] by presburger+
    show ?thesis
      using field_page [OF f(1) o(1)] field_aligned [OF f(1) o] f(2)
      by (simp add: word_in_def f_direct_def add.assoc)
  qed
qed

lemma file_fields:
  assumes "file_at s f c"
  shows "word_in (f_size f) c" "word_in (f_indirect f) c" "word_in (f_dir f) c"
    "n < NDIRECT \<Longrightarrow> word_in (f_direct f n) c"
  using struct_fields [of f c] assms by (simp_all add: file_at_def)

lemma file_fields_distinct:
  assumes "n < NDIRECT"
  shows "f_direct f n \<noteq> f_indirect f" "f_direct f n \<noteq> f_size f"
proof -
  have "unat (136 + 4 * n) \<noteq> unat (176 :: u32)" "unat (136 + 4 * n) \<noteq> unat (128 :: u32)"
    unfolding direct_offset(1) [OF assms] using direct_offset(2) [OF assms] by simp_all
  then have "136 + 4 * n \<noteq> 176" "136 + 4 * n \<noteq> 128" by (auto simp only:)
  then show "f_direct f n \<noteq> f_indirect f" "f_direct f n \<noteq> f_size f"
    by (auto simp: f_direct_def f_indirect_def f_size_def add.assoc)
qed

section \<open>Reading and writing a word of a data block\<close>

lemma word_mapped: "word_in a c \<Longrightarrow> va_is_mapped s a = cached s c"
  by (simp add: word_in_def va_is_mapped_def cached_def)

lemma rd32_word: "word_in a c \<Longrightarrow> cached s c \<Longrightarrow> rd32 a s = Some (ld32 (f_mem s) a)"
  by (simp add: rd32_def word_mapped)

definition put_word :: "u32 \<Rightarrow> u32 \<Rightarrow> fsrv \<Rightarrow> fsrv" where
  "put_word a w s = s\<lparr>f_mem := st32 (f_mem s) a w\<rparr>"

lemma put_word_simps [simp]:
  "f_pte (put_word a w s) = f_pte s" "f_disk (put_word a w s) = f_disk s" "super (put_word a w s) = super s"
  "bitmap (put_word a w s) = bitmap s" "f_oom (put_word a w s) = f_oom s" "f_calls (put_word a w s) = f_calls s"
  "cached (put_word a w s) c = cached s c" "ld32 (f_mem (put_word a w s)) a = w"
  by (simp_all add: put_word_def cached_def)

lemma wr32_word: "word_in a c \<Longrightarrow> cached s c \<Longrightarrow> wr32 a w s = Some (put_word a w s)"
  by (simp add: wr32_def word_mapped put_word_def)

lemma put_word_other: "4 \<le> unat (x - a) \<Longrightarrow> f_mem (put_word a w s) x = f_mem s x"
  by (simp add: put_word_def st32_other)

lemma put_word_same:
  assumes "word_in a c"
  shows "same_but c s (put_word a w s)"
  using far_from_word [of a] assms by (simp add: same_but_def word_in_def put_word_other)

lemma put_word_ok:
  assumes "word_in a c" "\<not> sys_block s c" "fs_ok s"
  shows "fs_ok (put_word a w s)" "free_blocks (put_word a w s) = free_blocks s" "nblk (put_word a w s) = nblk s"
proof -
  note same = put_word_same [OF assms(1), of s w]
  show "fs_ok (put_word a w s)" by (rule same_but_ok [OF same assms(2,3)]) simp_all
  show "free_blocks (put_word a w s) = free_blocks s" by (rule same_but_free [OF same assms(2,3)])
  show "nblk (put_word a w s) = nblk s" by (rule same_but_nblk [OF same assms(2)])
qed

lemma put_word_inv:
  "word_in a c \<Longrightarrow> \<not> sys_block s c \<Longrightarrow> fs_inv s \<Longrightarrow> fs_inv (put_word a w s)"
  by (simp add: fs_inv_def put_word_ok sys_block_def)

lemma put_word_ld32:
  "word_in a c \<Longrightarrow> aligned b \<Longrightarrow> a \<noteq> b \<Longrightarrow> ld32 (f_mem (put_word a w s)) b = ld32 (f_mem s) b"
  by (simp add: put_word_def word_in_def ld32_st32_other)

section \<open>Blocks for a file\<close>

text \<open>A file in a data block does not notice an allocation.\<close>

lemma given_block_file:
  assumes "fs_inv s" "\<exists>c \<in> free_blocks s. 3 \<le> c" "file_at s f c"
  defines "b \<equiv> lowest_free s"
  shows "file_at (given_block b s) f c"
    "word_in a c \<Longrightarrow> ld32 (f_mem (given_block b s)) a = ld32 (f_mem s) a"
    "c \<noteq> b" "c \<noteq> bitmap_block b"
proof -
  note g = given_block_facts [OF assms(1,2), folded b_def]
  have bf: "b \<in> free_blocks s" using lowest_free_in(1) [OF assms(2)] by (simp add: b_def)
  then show cb: "c \<noteq> b" using assms(3) by (auto simp: file_at_def)
  have "b < nblk s" using bf by (simp add: free_blocks_def)
  then show cm: "c \<noteq> bitmap_block b" using bitmap_block_sys assms(3) by (auto simp: file_at_def)
  note n = given_block_nblk [OF assms(1,2), folded b_def]
  show "file_at (given_block b s) f c"
    using assms(3) by (simp add: file_at_def g(2,3) n sys_block_def)
  show "ld32 (f_mem (given_block b s)) a = ld32 (f_mem s) a" if "word_in a c"
    using that cb cm by (intro page_ld32) (auto simp: word_in_def intro!: g(4))
qed

lemma alloc_block_given:
  assumes "fs_inv s" "\<exists>c \<in> free_blocks s. 3 \<le> c" "cached s (lowest_free s) \<or> \<not> f_oom s (f_calls s)"
  shows "alloc_block s = Some (Inr (of_nat (lowest_free s)), given_block (lowest_free s) s)"
  unfolding alloc_block_cases [OF assms(1)] using assms(2,3) by auto

text \<open>The slot of a direct block: nothing is allocated to find it.\<close>

lemma map_block_full:
  assumes "file_at s f c" "n < NDIRECT" "ld32 (f_mem s) (f_direct f n) \<noteq> 0"
  shows "file_map_block f n create s = Some (Inr (ld32 (f_mem s) (f_direct f n)), s)"
  using rd32_word [OF file_fields(4) [OF assms(1,2)]] assms
  by (simp add: file_map_block_def file_block_walk_def file_at_def)

text \<open>The state in which the hole \<open>n\<close> of the file has been filled.\<close>

definition filled :: "u32 \<Rightarrow> u32 \<Rightarrow> fsrv \<Rightarrow> fsrv" where
  "filled f n s = put_word (f_direct f n) (of_nat (lowest_free s)) (given_block (lowest_free s) s)"

lemma lowest_word:
  assumes "fs_inv s" "\<exists>c \<in> free_blocks s. 3 \<le> c"
  shows "unat (of_nat (lowest_free s) :: u32) = lowest_free s" "(of_nat (lowest_free s) :: u32) \<noteq> 0"
proof -
  show u: "unat (of_nat (lowest_free s) :: u32) = lowest_free s"
    using lowest_free_facts(2) [OF assms] by (intro disk_addr_of_nat) simp
  show "(of_nat (lowest_free s) :: u32) \<noteq> 0" using u lowest_free_in(2) [OF assms(2)] by auto
qed

lemma map_block_hole:
  assumes "fs_inv s" "file_at s f c" "n < NDIRECT" "ld32 (f_mem s) (f_direct f n) = 0"
    and "\<exists>c \<in> free_blocks s. 3 \<le> c" "cached s (lowest_free s) \<or> \<not> f_oom s (f_calls s)"
  shows "file_map_block f n True s = Some (Inr (of_nat (lowest_free s)), filled f n s)"
proof -
  note w = file_fields(4) [OF assms(2,3)]
  have c: "cached s c" "cached (given_block (lowest_free s) s) c"
    using assms(2) given_block_file(1) [OF assms(1,5,2)] by (simp_all add: file_at_def)
  have "cached (filled f n s) c" using c by (simp add: filled_def)
  from rd32_word [OF w this] show ?thesis
    using assms(3,4) rd32_word [OF w c(1)] wr32_word [OF w c(2)]
    by (simp add: file_map_block_def file_block_walk_def alloc_block_given [OF assms(1,5,6)])
      (simp add: filled_def)
qed

lemma filled_facts:
  assumes "fs_inv s" "file_at s f c" "n < NDIRECT" "\<exists>c \<in> free_blocks s. 3 \<le> c"
  defines "b \<equiv> lowest_free s"
  shows "fs_inv (filled f n s)" "free_blocks (filled f n s) = free_blocks s - {b}"
    "file_at (filled f n s) f c" "cached (filled f n s) b" "b < nblk (filled f n s)"
    "ld32 (f_mem (filled f n s)) (f_direct f n) = of_nat b"
    "i < 4096 \<Longrightarrow> cache_byte (filled f n s) b i = (if cached s b then cache_byte s b i else 0)"
    "VPN a \<noteq> 0x10000 + bitmap_block b \<Longrightarrow> VPN a \<noteq> 0x10000 + b \<Longrightarrow> 4 \<le> unat (a - f_direct f n) \<Longrightarrow>
       f_mem (filled f n s) a = f_mem s a"
proof -
  let ?g = "given_block b s"
  note g = given_block_facts [OF assms(1,4), folded b_def]
  note gf = given_block_file [OF assms(1,4,2), folded b_def]
  note w = file_fields(4) [OF assms(2,3)]
  have ns: "\<not> sys_block ?g c" using gf(1) by (simp add: file_at_def)
  have ok: "fs_ok ?g" using g(1) by (simp add: fs_inv_def)
  note p = put_word_ok [OF w ns ok]
  have e: "filled f n s = put_word (f_direct f n) (of_nat b) ?g" by (simp add: filled_def b_def)
  show "fs_inv (filled f n s)" unfolding e by (rule put_word_inv [OF w ns g(1)])
  show "free_blocks (filled f n s) = free_blocks s - {b}" unfolding e p g(2) ..
  show "file_at (filled f n s) f c" using gf(1) unfolding e by (simp add: file_at_def p sys_block_def)
  show "cached (filled f n s) b" unfolding e by (simp add: g(3))
  have bf: "b < nblk s" using lowest_free_facts(1) [OF assms(1,4)] by (simp add: b_def)
  then show "b < nblk (filled f n s)" unfolding e p(3) given_block_nblk [OF assms(1,4), folded b_def] .
  show "ld32 (f_mem (filled f n s)) (f_direct f n) = of_nat b" unfolding e by simp
  show "cache_byte (filled f n s) b i = (if cached s b then cache_byte s b i else 0)" if i: "i < 4096"
  proof -
    have b: "b \<le> 0x40000" using lowest_free_facts(2) [OF assms(1,4)] by (simp add: b_def)
    have "VPN (disk_addr (of_nat b) + of_nat i) \<noteq> 0x10000 + c" using block_addr_VPN [OF b i] gf(3) by simp
    then show ?thesis
      using put_word_same [OF w, of ?g "of_nat b"] g(5) [OF i] unfolding e
      by (simp add: same_but_def cache_byte_def)
  qed
  show "f_mem (filled f n s) a = f_mem s a"
    if "VPN a \<noteq> 0x10000 + bitmap_block b" "VPN a \<noteq> 0x10000 + b" "4 \<le> unat (a - f_direct f n)"
    unfolding e using that by (simp add: put_word_other g(4))
qed

section \<open>Releasing the blocks of a file\<close>

text \<open>A released block in a state where only its bit matters.\<close>

lemma put_bm_word:
  assumes "fs_ok s" "b < nblk s" "word_in a c" "\<not> sys_block s c"
  shows "ld32 (f_mem (put_bm b v s)) a = ld32 (f_mem s) a"
proof (rule page_ld32)
  show "aligned a" using assms(3) by (simp add: word_in_def)
  fix x assume x: "VPN x = VPN a"
  have "VPN x \<noteq> 0x10000 + (b div 32768 + 2)"
    using x assms(2-4) div_le_mono [of b "nblk s" 32768] by (auto simp: word_in_def sys_block_def)
  then show "f_mem (put_bm b v s) x = f_mem s x"
    using bm_sync_mem [OF assms(1,2), of v] by (simp add: same_but_def)
qed

lemma free_block_any:
  assumes "fs_ok s"
  shows "free_block w s = Some (if w = 0 \<or> nblk s \<le> unat w then s else put_bm (unat w) True s)"
proof (cases "w = 0 \<or> nblk s \<le> unat w")
  case True
  have "(of_nat (nblk s) :: u32) \<le> w \<longleftrightarrow> nblk s \<le> unat w"
    using nblk_bound [OF assms] by (simp add: word_le_nat_alt disk_addr_of_nat)
  then show ?thesis using True assms by (auto simp: free_block_def)
next
  case False
  then have "0 < unat w" "unat w < nblk s" by (simp_all add: unat_gt_0)
  from free_block_put [OF assms this] show ?thesis using False by simp
qed

text \<open>A file without indirect block; its block is no super or bitmap block.\<close>

definition small_file :: "fsrv \<Rightarrow> u32 \<Rightarrow> nat \<Rightarrow> bool" where
  "small_file s f c \<longleftrightarrow>
     fs_ok s \<and> struct_in f c \<and> \<not> sys_block s c \<and> cached s c \<and> ld32 (f_mem s) (f_indirect f) = 0"

lemma small_file_put_bm:
  assumes "small_file s f c" "b < nblk s"
  shows "small_file (put_bm b v s) f c"
proof -
  have s: "fs_ok s" "struct_in f c" "\<not> sys_block s c" using assms(1) by (simp_all add: small_file_def)
  have b: "b \<le> 0x40000" using assms(2) nblk_bound [OF s(1)] by linarith
  show ?thesis
    using assms(1) put_bm_ok [OF s(1) b] put_bm_nblk [OF b] put_bm_word [OF s(1) assms(2) struct_fields(2) [OF s(2)] s(3)]
    by (simp add: small_file_def sys_block_def cached_def)
qed

lemma small_file_put_word:
  assumes "small_file s f c" "word_in a c" "a \<noteq> f_indirect f"
  shows "small_file (put_word a w s) f c"
proof -
  have s: "fs_ok s" "struct_in f c" "\<not> sys_block s c" using assms(1) by (simp_all add: small_file_def)
  have "aligned (f_indirect f)" using struct_fields(2) [OF s(2)] by (simp add: word_in_def)
  from put_word_ld32 [OF assms(2) this assms(3)] show ?thesis
    using assms(1) put_word_ok [OF assms(2) s(3,1)] by (simp add: small_file_def sys_block_def)
qed

lemma clear_direct:
  assumes "small_file s f c" "n < NDIRECT"
  shows "\<exists>s'. file_clear_block f n s = Some (Inr (), s') \<and> small_file s' f c"
proof -
  have s: "fs_ok s" "struct_in f c" "cached s c" using assms(1) by (simp_all add: small_file_def)
  note w = struct_fields(4) [OF s(2) assms(2)]
  let ?b = "ld32 (f_mem s) (f_direct f n)"
  have "small_file (if ?b = 0 \<or> nblk s \<le> unat ?b then s else put_bm (unat ?b) True s) f c"
    using assms(1) small_file_put_bm [OF assms(1)] by simp
  then obtain s1 where s1: "free_block ?b s = Some s1" "small_file s1 f c"
    using free_block_any [OF s(1)] by blast
  then have "cached s1 c" by (simp add: small_file_def)
  then have "file_clear_block f n s = Some (Inr (), if ?b = 0 then s else put_word (f_direct f n) 0 s1)"
    using assms(2) rd32_word [OF w s(3)] wr32_word [OF w] s1(1)
    by (simp add: file_clear_block_def file_block_walk_def)
  moreover have "small_file (put_word (f_direct f n) 0 s1) f c"
    by (rule small_file_put_word [OF s1(2) w file_fields_distinct(1) [OF assms(2)]])
  ultimately show ?thesis using assms(1) by auto
qed

lemma clear_beyond:
  assumes "small_file s f c" "\<not> n < NDIRECT"
  shows "\<exists>e. file_clear_block f n s = Some (Inl e, s)"
  using assms rd32_word [of "f_indirect f" c s] struct_fields(2) [of f c]
  by (auto simp: file_clear_block_def file_block_walk_def small_file_def)

lemma clear_blocks_panics:
  assumes "small_file s f c" "10 < j + n" "j + n \<le> 0x100000" "0 < n"
  shows "clear_blocks f j n s = None"
  using assms
proof (induction n arbitrary: j s)
  case (Suc n)
  have u: "unat (of_nat j :: u32) = j" using Suc.prems(3) by (intro unat_of_nat_u32) simp
  show ?case
  proof (cases "(of_nat j :: u32) < NDIRECT")
    case True
    from clear_direct [OF Suc.prems(1) True] obtain s' where
      "file_clear_block f (of_nat j) s = Some (Inr (), s')" "small_file s' f c" by blast
    moreover have "j < 10" using True by (simp add: NDIRECT_def word_less_nat_alt u)
    ultimately show ?thesis using Suc.IH [of s' "j + 1"] Suc.prems(2,3) by simp
  next
    case False
    then show ?thesis using clear_beyond [OF Suc.prems(1)] by fastforce
  qed
qed simp

text \<open>The number of blocks of a file, where the rounding does not wrap around.\<close>

lemma round_down_4096: "unat (x AND NOT 0xFFF) = unat x div 4096 * 4096" for x :: u32
proof -
  have "(x AND NOT 0xFFF) + (x AND 0xFFF) = (x AND NOT 0xFFF) OR (x AND 0xFFF)"
    by (rule disjunctive_add) (auto simp: bit_simps)
  also have "\<dots> = x" by (rule bit_word_eqI) (auto simp: bit_simps)
  finally have e: "x AND NOT 0xFFF = x - (x AND 0xFFF)" by (simp add: algebra_simps)
  have "x AND 0xFFF \<le> x" by (rule word_and_le2)
  then show ?thesis unfolding e by (simp only: unat_sub unat_and_4095 minus_mod_eq_div_mult)
qed

lemma nblocks_unat:
  assumes "unat sz \<le> 0xFFFFF000"
  shows "unat (nblocks_of sz) = (unat sz + 4095) div 4096"
proof -
  have "unat (sz + 4095) = unat sz + 4095"
  proof -
    have "unat sz + unat (4095 :: u32) < 2 ^ LENGTH(32)" using assms by simp
    then have "unat (sz + 4095) = unat sz + unat (4095 :: u32)" by (rule unat_add_lem [THEN iffD1])
    then show ?thesis by simp
  qed
  moreover have "nblocks_of sz = ((sz + 4095) AND NOT 0xFFF) div 4096"
    by (simp add: nblocks_of_def ROUND_def BLOCK_SIZE_def add.commute)
  moreover have "unat ((4096 :: u32)) = 4096" by simp
  ultimately show ?thesis by (simp only: unat_div round_down_4096)
qed

lemma truncate_small_file:
  assumes "small_file s f c" "unat new \<le> 0xA000" "0xA000 < unat (ld32 (f_mem s) (f_size f))"
    "unat (ld32 (f_mem s) (f_size f)) \<le> 0xFFFFF000"
  shows "file_truncate f new s = None"
proof -
  have s: "struct_in f c" "cached s c" using assms(1) by (simp_all add: small_file_def)
  let ?old = "ld32 (f_mem s) (f_size f)"
  have nn: "unat (if new = 0 then 0 else nblocks_of new) \<le> 10"
    using nblocks_unat [of new] assms(2) div_le_mono [of "unat new + 4095" "0xA000 + 4095" 4096] by simp
  have no: "10 < unat (nblocks_of ?old)" "unat (nblocks_of ?old) \<le> 0x100000"
    using nblocks_unat [OF assms(4)] assms(3,4) by simp_all
  have "clear_blocks f (unat (if new = 0 then 0 else nblocks_of new))
    (unat (nblocks_of ?old) - unat (if new = 0 then 0 else nblocks_of new)) s = None"
    using nn no by (intro clear_blocks_panics [OF assms(1)]) linarith+
  then show ?thesis
    using rd32_word [OF struct_fields(1) [OF s(1)] s(2)] by (simp add: file_truncate_def Let_def)
qed

section \<open>Reuse of a block\<close>

lemma put_bm_true:
  assumes "fs_inv s" "b < nblk s" "\<not> sys_block s b"
  shows "fs_inv (put_bm b True s)" "free_blocks (put_bm b True s) = insert b (free_blocks s)"
    "nblk (put_bm b True s) = nblk s" "VPN a \<noteq> 0x10000 + bitmap_block b \<Longrightarrow> f_mem (put_bm b True s) a = f_mem s a"
proof -
  have ok: "fs_ok s" using assms(1) by (simp add: fs_inv_def)
  have b: "b \<le> 0x40000" using assms(2) nblk_bound [OF ok] by linarith
  show f: "free_blocks (put_bm b True s) = insert b (free_blocks s)" using put_bm_free [OF ok assms(2)] by simp
  show n: "nblk (put_bm b True s) = nblk s" by (rule put_bm_nblk [OF b])
  show "fs_inv (put_bm b True s)"
    using assms(1,3) put_bm_ok [OF ok b] by (auto simp: fs_inv_def f n sys_block_def)
  show "f_mem (put_bm b True s) a = f_mem s a" if "VPN a \<noteq> 0x10000 + bitmap_block b"
    using bm_sync_mem [OF ok assms(2), of True] that by (simp add: same_but_def bitmap_block_def)
qed

lemma lowest_freed:
  assumes "\<forall>d \<in> free_blocks s. d < 3 \<or> b < d" "3 \<le> b" "free_blocks s' = insert b (free_blocks s)"
  shows "lowest_free s' = b" "\<exists>c \<in> free_blocks s'. 3 \<le> c"
proof -
  show "lowest_free s' = b"
    unfolding lowest_free_def using assms by (intro Least_equality) auto
  show "\<exists>c \<in> free_blocks s'. 3 \<le> c" using assms(2,3) by auto
qed

text \<open>Word \<open>n\<close> of block \<open>b\<close>.\<close>

lemma block_word:
  assumes "b \<le> 0x40000" "n < NINDIRECT"
  shows "word_in (disk_addr (of_nat b) + 4 * n) b"
proof -
  have n: "unat n < 1024" using assms(2) by (simp add: NINDIRECT_def word_less_nat_alt)
  have e: "4 * n = of_nat (4 * unat n)" by simp
  have i: "4 * unat n < 4096" using n by simp
  have "daddr b + 4 * unat n = 4 * (0x4000000 + 1024 * b + unat n)" by (simp add: daddr_def)
  then have "(daddr b + 4 * unat n) mod 4 = 0" by (simp only: mod_mult_self1_is_0)
  then show ?thesis
    unfolding word_in_def aligned_def e block_addr_unat [OF assms(1) i] block_addr_VPN [OF assms(1) i] by simp
qed

text \<open>The same file structure, after the release of a block.\<close>

lemma put_bm_file:
  assumes "fs_inv s" "file_at s f c" "b < nblk s" "b \<noteq> c" "\<not> sys_block s b"
  shows "file_at (put_bm b True s) f c"
    and "word_in a c \<Longrightarrow> ld32 (f_mem (put_bm b True s)) a = ld32 (f_mem s) a"
  using assms put_bm_true [OF assms(1,3,5)] put_bm_word [of s b a c True]
  by (simp_all add: file_at_def fs_inv_def sys_block_def cached_def)

text \<open>
  A cached block is released and, being the least free block from 3 on, given out again: its words
  and those of a file in another block are what they were.
\<close>

lemma released_and_given:
  assumes "fs_inv s" "file_at s f c" "3 \<le> b" "b < nblk s" "\<not> sys_block s b" "cached s b" "b \<noteq> c"
    and "\<forall>d \<in> free_blocks s. d < 3 \<or> b < d"
  defines "t \<equiv> take_block b (put_bm b True s)"
  shows "free_block (of_nat b) s = Some (put_bm b True s)"
    "alloc_block (put_bm b True s) = Some (Inr (of_nat b), t)"
    "fs_inv t" "file_at t f c" "free_blocks t = free_blocks s" "nblk t = nblk s" "cached t b"
    "word_in a c \<Longrightarrow> ld32 (f_mem t) a = ld32 (f_mem s) a"
    "word_in a b \<Longrightarrow> ld32 (f_mem t) a = ld32 (f_mem s) a"
proof -
  let ?s1 = "put_bm b True s"
  have ok: "fs_ok s" using assms(1) by (simp add: fs_inv_def)
  note p = put_bm_true [OF assms(1,4,5)] and f1 = put_bm_file [OF assms(1,2,4,7,5)]
  note l = lowest_freed [OF assms(8,3) p(2)]
  have c1: "cached ?s1 b" using assms(6) by (simp add: cached_def)
  have g: "given_block b ?s1 = t" using c1 by (simp add: given_block_def t_def)
  note gf = given_block_facts [OF p(1) l(2), unfolded l(1) g]
  note tf = given_block_file [OF p(1) l(2) f1(1), unfolded l(1) g]
  show "free_block (of_nat b) s = Some ?s1" by (rule free_block_put [OF ok _ assms(4)]) (use assms(3) in simp)
  show "alloc_block ?s1 = Some (Inr (of_nat b), t)" using alloc_block_given [OF p(1) l(2)] c1 unfolding l(1) g by simp
  show "fs_inv t" "file_at t f c" by (fact gf(1) tf(1))+
  show "free_blocks t = free_blocks s" using gf(2) p(2) assms(3,8) by auto
  show "nblk t = nblk s" using take_block_facts(3) [OF p(1)] p(3) assms(4) by (simp add: t_def)
  show "cached t b" using gf(3) by simp
  show "ld32 (f_mem t) a = ld32 (f_mem s) a" if "word_in a c" using tf(2) f1(2) that by simp
  show "ld32 (f_mem t) a = ld32 (f_mem s) a" if "word_in a b"
  proof -
    have "b \<noteq> bitmap_block b" using bitmap_block_sys [OF assms(4)] assms(5) by auto
    then show ?thesis
      using that take_block_facts(7) [OF p(1), of b] p(3,4) assms(4)
      by (intro page_ld32) (simp_all add: word_in_def t_def)
  qed
qed

section \<open>Paths as lists of names\<close>

fun split_slash :: "u8 list \<Rightarrow> u8 list list" where
  "split_slash [] = [[]]"
| "split_slash (c # p) =
     (if c = 0x2F then [] # split_slash p
      else (case split_slash p of [] \<Rightarrow> [[c]] | w # ws \<Rightarrow> (c # w) # ws))"

definition components :: "u8 list \<Rightarrow> u8 list list" where
  "components p = filter (\<lambda>w. w \<noteq> []) (split_slash p)"

lemma split_slash_nonempty: "split_slash p \<noteq> []"
  by (induction p) (auto split: list.splits)

lemma split_slash_first:
  "split_slash p = takeWhile (\<lambda>c. c \<noteq> 0x2F) p #
     (case dropWhile (\<lambda>c. c \<noteq> 0x2F) p of [] \<Rightarrow> [] | c # q \<Rightarrow> split_slash q)"
  by (induction p) (auto split: list.splits)

lemma components_slash: "components (skip_slash p) = components p"
  by (induction p) (simp_all add: skip_slash_def components_def)

lemma components_first:
  assumes "p \<noteq> []" "hd p \<noteq> 0x2F"
  shows "components p =
    takeWhile (\<lambda>c. c \<noteq> 0x2F) p # components (skip_slash (dropWhile (\<lambda>c. c \<noteq> 0x2F) p))"
proof -
  have "takeWhile (\<lambda>c. c \<noteq> 0x2F) p \<noteq> []" using assms by (cases p) auto
  moreover have "components (dropWhile (\<lambda>c. c \<noteq> 0x2F) p) =
    filter (\<lambda>w. w \<noteq> []) (case dropWhile (\<lambda>c. c \<noteq> 0x2F) p of [] \<Rightarrow> [] | c # q \<Rightarrow> split_slash q)"
  proof (cases "dropWhile (\<lambda>c. c \<noteq> 0x2F) p")
    case Nil
    then show ?thesis unfolding Nil by (simp add: components_def)
  next
    case (Cons c q)
    then have "c = 0x2F" by (simp add: dropWhile_eq_Cons_conv)
    then show ?thesis unfolding Cons by (simp add: components_def)
  qed
  ultimately show ?thesis
    unfolding components_slash components_def [of p] split_slash_first [of p]
    by (simp only: filter.simps if_True simp_thms)
qed

text \<open>The files that a list of names leads to.\<close>

fun resolve ::
  "u8 list list \<Rightarrow> u32 \<Rightarrow> u32 \<Rightarrow> fsrv \<Rightarrow> (((errno + u32) \<times> u32 \<times> u8 list option) \<times> fsrv) option" where
  "resolve [] dir file s = Some ((Inr file, dir, None), s)"
| "resolve (name # names) dir file s =
     (if length name \<ge> MAXNAMELEN then Some ((Inl E_BAD_PATH, 0, None), s)
      else do {
        ty \<leftarrow> rd32 (f_type file) s;
        if ty \<noteq> FTYPE_DIR then Some ((Inl E_NOT_FOUND, 0, None), s)
        else do {
          (r, s) \<leftarrow> dir_lookup file name s;
          case r of
            Inl e \<Rightarrow>
              if e = E_NOT_FOUND \<and> names = [] then Some ((Inl e, file, Some name), s)
              else Some ((Inl e, 0, None), s)
          | Inr file' \<Rightarrow> resolve names file file' s
        }
      })"

lemma skip_slash_head: "p = [] \<or> hd p \<noteq> 0x2F \<Longrightarrow> components p = [] \<longleftrightarrow> p = []"
  using components_first [of p] by (cases "p = []") (auto simp: components_def)

lemma hd_skip_slash: "skip_slash p = [] \<or> hd (skip_slash p) \<noteq> 0x2F"
  using hd_dropWhile [of "\<lambda>c. c = 0x2F" p] by (auto simp: skip_slash_def)

lemma walk_loop_resolve:
  "path = [] \<or> hd path \<noteq> 0x2F \<Longrightarrow> walk_loop path d g t = resolve (components path) d g t"
proof (induction path arbitrary: d g t rule: length_induct)
  case (1 path)
  show ?case
  proof (cases "path = []")
    case True
    then show ?thesis by (simp add: walk_loop.simps components_def)
  next
    case False
    let ?rest = "skip_slash (dropWhile (\<lambda>c. c \<noteq> 0x2F) path)"
    have hd: "hd path \<noteq> 0x2F" using 1(2) False by simp
    have IH: "walk_loop ?rest d g t = resolve (components ?rest) d g t" for d g t
      using 1(1) walk_shrinks [OF False] hd_skip_slash by blast
    have e: "components ?rest = [] \<longleftrightarrow> ?rest = []" by (rule skip_slash_head [OF hd_skip_slash])
    show ?thesis
      unfolding components_first [OF False hd]
      using False
      by (subst walk_loop.simps) (simp add: Let_def IH e cong: sum.case_cong prod.case_cong if_cong)
  qed
qed

end
