(* ===== verification/Fs_Props.thy ===== *)
theory Fs_Props
  imports Fs_File
begin

unbundle bit_operations_syntax

text \<open>
  The properties of the file server's core: block allocation, the block cache as a copy of
  the disk, blocks of files, the walk along a path; and two situations the code does not
  foresee.
\<close>

section \<open>An example\<close>

text \<open>
  A disk of eight blocks: super block, one bitmap block, and the blocks 3 and 4 in use; the
  blocks 5, 6, 7 are free. Block 3 is in the cache and dirty, block 6 is in the cache since its last use.
\<close>

definition ex_mem :: mem where
  "ex_mem = st32 (st32 (\<lambda>a. if VPN a = 0x10004 then 7 else if VPN a = 0x10006 then 9 else 0)
     (disk_addr 1 + 4) 8) (bm_addr 0) 0xE0"

definition ex_fs :: fsrv where
  "ex_fs = \<lparr>f_mem = ex_mem,
     f_pte = (\<lambda>_. 0)(0x10001 := PTE_V, 0x10002 := PTE_V, 0x10003 := PTE_V OR PTE_DIRTY,
       0x10004 := PTE_V, 0x10006 := PTE_V),
     f_disk = (\<lambda>_ _. 1), f_oom = (\<lambda>_. False), f_calls = 0, super = disk_addr 1, bitmap = disk_addr 2\<rparr>"

lemma ex_fs_simps [simp]:
  "f_mem ex_fs = ex_mem" "super ex_fs = disk_addr 1" "bitmap ex_fs = disk_addr 2"
  "f_oom ex_fs k = False" "f_calls ex_fs = 0"
  by (simp_all add: ex_fs_def)

lemma ex_pte:
  "f_pte ex_fs 0x10001 AND PTE_V \<noteq> 0" "f_pte ex_fs 0x10002 AND PTE_V \<noteq> 0"
  "f_pte ex_fs 0x10003 AND PTE_V \<noteq> 0" "f_pte ex_fs 0x10004 AND PTE_V \<noteq> 0" "f_pte ex_fs 0x10006 AND PTE_V \<noteq> 0"
  "f_pte ex_fs 0x10003 AND PTE_DIRTY \<noteq> 0"
  by (simp_all add: ex_fs_def mos_consts)

lemma ex_cached: "cached ex_fs 3" "cached ex_fs 4" "cached ex_fs 6" "\<not> cached ex_fs 5"
  using ex_pte(3,4,5) by (simp_all add: cached_def) (simp add: ex_fs_def)

lemma ex_nblk: "nblk ex_fs = 8"
  using bm_addr_nblocks [of 0] bm_addr_aligned [of 0] aligned_nblocks
  by (simp add: nblk_def ex_mem_def ld32_st32_other)

lemma ex_word: "ld32 ex_mem (bm_addr 0) = 0xE0"
  by (simp add: ex_mem_def)

lemma ex_bits: "b < 8 \<Longrightarrow> bit (0xE0 :: u32) b \<longleftrightarrow> b = 5 \<or> b = 6 \<or> b = 7"
  by (auto simp: less_Suc_eq numeral_eq_Suc)

lemma ex_free: "free_blocks ex_fs = {5, 6, 7}"
  using ex_bits by (auto simp: free_blocks_def ex_nblk bm_bit_def ex_word)

lemma ex_ok: "fs_ok ex_fs"
  using ex_pte disk_addr_VPN [of 1] disk_addr_VPN [of 2] by (simp add: fs_ok_def ex_nblk va_is_mapped_def)

lemma ex_inv: "fs_inv ex_fs"
  by (auto simp: fs_inv_def ex_ok ex_nblk ex_free sys_block_def)

lemma ex_lowest: "lowest_free ex_fs = 5"
  unfolding lowest_free_def ex_free by (rule Least_equality) auto

lemma ex_sys: "sys_block ex_fs b \<longleftrightarrow> b = 1 \<or> b = 2"
  by (auto simp: sys_block_def ex_nblk)

text \<open>The file at the start of block 3, and words outside super block and bitmap.\<close>

lemma ex_file: "file_at ex_fs (disk_addr 3) 3"
  using disk_addr_unat [of 3] disk_addr_VPN [of 3]
  by (simp add: file_at_def struct_in_def daddr_def ex_nblk ex_sys ex_free ex_cached)

lemma ex_data:
  assumes "word_in a c" "c \<noteq> 1" "c \<noteq> 2"
  shows "ld32 ex_mem a = ld32 (\<lambda>_. if c = 4 then 7 else if c = 6 then 9 else 0) a"
proof -
  have n: "a \<noteq> disk_addr 1 + 4" "a \<noteq> bm_addr 0"
    using assms bm_addr_VPN [of 0] by (auto simp: word_in_def VPN_div disk_addr_1_4)
  have "ld32 ex_mem a = ld32 (\<lambda>a. if VPN a = 0x10004 then 7 else if VPN a = 0x10006 then 9 else 0) a"
    using n assms(1) aligned_nblocks bm_addr_aligned [of 0]
    by (simp add: ex_mem_def ld32_st32_other word_in_def)
  also have "\<dots> = ld32 (\<lambda>_. if c = 4 then 7 else if c = 6 then 9 else 0) a"
    using assms(1) by (intro page_ld32) (simp_all add: word_in_def)
  finally show ?thesis .
qed

lemma ld32_zero: "ld32 (\<lambda>_. 0) a = 0" "ld32 (\<lambda>_. 7) a \<noteq> 0"
  by (simp_all add: ld32_def)

section \<open>Properties\<close>

text \<open>
  C29. \<^verbatim>\<open>alloc_block\<close> of a started server returns. When a block from 3 on is free it takes the least
  one out of the set of free blocks and writes the bitmap block to disk, which changes no
  other block of the disk; the block has a page then, zeroed unless it had one before, and
  no memory outside this page and the bitmap page changes. When the kernel has no page the
  set of free blocks is as before. Otherwise the answer is \<open>E_NO_DISK\<close> and nothing changes.
  The invariant of the server holds again in all cases.
\<close>

theorem alloc_block_correct:
  assumes "fs_inv s"
  shows "\<exists>r s'. alloc_block s = Some (r, s') \<and> fs_inv s' \<and>
    (case r of
       Inl e \<Rightarrow>
         (if \<exists>c \<in> free_blocks s. 3 \<le> c
          then e = E_NO_MEM \<and> f_oom s (f_calls s) \<and> \<not> cached s (lowest_free s) \<and> free_blocks s' = free_blocks s
          else e = E_NO_DISK \<and> s' = s)
     | Inr w \<Rightarrow>
         (let b = unat w in
            b \<in> free_blocks s \<and> 3 \<le> b \<and> (\<forall>c \<in> free_blocks s. 3 \<le> c \<longrightarrow> b \<le> c) \<and>
            free_blocks s' = free_blocks s - {b} \<and>
            (\<forall>c. cached s' c \<longleftrightarrow> c = b \<or> cached s c) \<and>
            (\<forall>i < 4096. cache_byte s' b i = (if cached s b then cache_byte s b i else 0)) \<and>
            (\<forall>a. VPN a \<noteq> 0x10000 + bitmap_block b \<and> VPN a \<noteq> 0x10000 + b \<longrightarrow> f_mem s' a = f_mem s a) \<and>
            (\<forall>c i. c \<le> 0x40000 \<and> i < 4096 \<longrightarrow>
               disk_byte s' c i = (if c = bitmap_block b then cache_byte s' c i else disk_byte s c i))))"
proof (cases "\<exists>c \<in> free_blocks s. 3 \<le> c")
  case False
  then show ?thesis using assms alloc_block_cases [OF assms] by auto
next
  case True
  let ?b = "lowest_free s"
  note l = lowest_free_facts [OF assms True] and m = lowest_free_in [OF True]
  have u: "unat (of_nat ?b :: u32) = ?b" using l(2) by (intro disk_addr_of_nat) simp
  show ?thesis
  proof (cases "\<not> cached s ?b \<and> f_oom s (f_calls s)")
    case no_page: True
    note p = take_put_back [OF assms m(1) l(3), of "f_calls s + 1"]
    show ?thesis
      unfolding alloc_block_cases [OF assms] using True no_page p by simp
  next
    case False
    note g = given_block_facts [OF assms True]
    have e: "alloc_block s = Some (Inr (of_nat ?b), given_block ?b s)"
      unfolding alloc_block_cases [OF assms] using True False by simp
    show ?thesis
      by (intro exI conjI, rule e, rule g(1), simp only: sum.case Let_def u)
        (intro conjI allI ballI impI; (elim conjE)?; rule m g; assumption)
  qed
qed

lemma alloc_block_correct_witness:
  "\<exists>s'. alloc_block ex_fs = Some (Inr 5, s') \<and> free_blocks s' = {6, 7}"
proof -
  have e: "alloc_block ex_fs = Some (Inr 5, given_block 5 ex_fs)"
    using alloc_block_cases [OF ex_inv] by (simp add: ex_free ex_lowest)
  have "unat (5 :: u32) = 5" by simp
  then have "free_blocks (given_block 5 ex_fs) = {5, 6, 7} - {5}"
    using alloc_block_correct [OF ex_inv] unfolding e ex_free by (simp only: option.inject prod.inject sum.case Let_def) auto
  with e show ?thesis by auto
qed

text \<open>
  C30. A block in use that is evicted from the cache and read again comes back with the same
  contents when it was marked dirty, and with the contents of the disk otherwise; it is then
  clean, and neither the rest of the cache nor, up to the block itself, the disk changes.
\<close>

theorem block_evict_roundtrip:
  assumes "fs_inv s" "b < nblk s" "b \<notin> free_blocks s" "\<not> sys_block s b" "cached s b" "\<not> f_oom s (f_calls s)"
  shows "\<exists>s1 s2. unmap_block (of_nat b) s = Some s1 \<and> \<not> cached s1 b \<and>
    read_block (of_nat b) s1 = Some (Inr (disk_addr (of_nat b), True), s2) \<and>
    fs_inv s2 \<and> free_blocks s2 = free_blocks s \<and> \<not> block_is_dirty (of_nat b) s2 \<and>
    (\<forall>c. cached s2 c \<longleftrightarrow> cached s c) \<and>
    (\<forall>i < 4096. cache_byte s2 b i =
       (if block_is_dirty (of_nat b) s then cache_byte s b i else disk_byte s b i)) \<and>
    (\<forall>a. VPN a \<noteq> 0x10000 + b \<longrightarrow> f_mem s2 a = f_mem s a) \<and>
    (\<forall>c i. c \<le> 0x40000 \<and> c \<noteq> b \<and> i < 4096 \<longrightarrow> disk_byte s2 c i = disk_byte s c i)"
proof -
  let ?s1 = "evicted b s" and ?s2 = "block_in b (block_page b (evicted b s))"
  have "fs_ok s" using assms(1) by (simp add: fs_inv_def)
  then have b: "b \<le> 0x40000" using assms(2) nblk_bound by fastforce
  note e = evicted_ok [OF assms(1,2,4)]
  have n: "b < nblk ?s1" "b \<notin> free_blocks ?s1" "\<not> sys_block ?s1 b"
    using assms(2-4) by (simp_all add: sys_block_def)
  note f = block_in_page_facts [OF e(2) n(1,3)]
  have r: "read_block (of_nat b) ?s1 = Some (Inr (disk_addr (of_nat b), True), ?s2)"
    using read_block_used [OF e(1) n(1,2)] assms(6) by simp
  show ?thesis
    using unmap_block_eq [OF assms(1,2,3,5)] r f evicted_disk [OF b] b assms(5)
    by (intro exI [of _ ?s1] exI [of _ ?s2] conjI) (auto simp: disk_byte_def cached_def)
qed

lemma block_evict_roundtrip_witness:
  "\<exists>s1 s2. unmap_block 3 ex_fs = Some s1 \<and> read_block 3 s1 = Some (Inr (disk_addr 3, True), s2) \<and>
     (\<forall>i < 4096. cache_byte s2 3 i = cache_byte ex_fs 3 i)"
proof -
  have "block_is_dirty (of_nat 3) ex_fs"
    using block_dirty_iff [of 3 ex_fs] ex_cached(1) ex_pte(6) by simp
  moreover have "\<not> sys_block ex_fs 3" by (simp add: sys_block_def ex_nblk)
  ultimately show ?thesis
    using block_evict_roundtrip [OF ex_inv, of 3] ex_cached(1)
    by (simp add: ex_nblk ex_free) blast
qed



text \<open>
  C33. A block that is released while it is in the cache keeps its contents: when it is given to
  a file as its new indirect block, the file's block \<open>n\<close> is not allocated but is whatever
  block number the old contents of the block happen to hold.
\<close>

theorem stale_indirect_block:
  assumes "fs_inv s" "file_at s f c" "ld32 (f_mem s) (f_indirect f) = 0"
    and "3 \<le> b" "b < nblk s" "\<not> sys_block s b" "cached s b" "b \<noteq> c" "\<forall>d \<in> free_blocks s. d < 3 \<or> b < d"
    and "\<not> n < NDIRECT" "n < NINDIRECT" "ld32 (f_mem s) (disk_addr (of_nat b) + 4 * n) \<noteq> 0"
  shows "\<exists>s1 s2. free_block (of_nat b) s = Some s1 \<and> b \<in> free_blocks s1 \<and>
    file_map_block f n True s1 = Some (Inr (ld32 (f_mem s) (disk_addr (of_nat b) + 4 * n)), s2) \<and>
    ld32 (f_mem s2) (f_indirect f) = of_nat b \<and> free_blocks s2 = free_blocks s"
proof -
  let ?w = "disk_addr (of_nat b) + 4 * n" and ?s1 = "put_bm b True s" and ?t = "take_block b (put_bm b True s)"
  let ?s2 = "put_word (f_indirect f) (of_nat b) ?t"
  note t = released_and_given [OF assms(1,2,4-9)]
  have b: "b \<le> 0x40000" using assms(1,5) nblk_bound [of s] by (simp add: fs_inv_def)
  note w = file_fields(2) [OF assms(2)] and bw = block_word [OF b assms(11)]
  have c: "cached s c" "cached ?t c" "\<not> sys_block ?t c" "fs_ok ?t"
    using t(3,4) assms(2) by (simp_all add: file_at_def fs_inv_def)
  note o = put_word_ok [OF w c(3,4)]
  have c2: "cached ?s1 c" "cached ?s2 c" "cached ?s2 b" using c t(7) by (simp_all add: cached_def)
  have "ld32 (f_mem ?s2) ?w = ld32 (f_mem s) ?w"
    using same_but_ld32 [OF put_word_same [OF w]] bw assms(8) t(9) [OF bw] by (simp add: word_in_def)
  then have v: "rd32 ?w ?s2 = Some (ld32 (f_mem s) ?w)" using rd32_word [OF bw c2(3)] by simp
  have ind: "rd32 (f_indirect f) ?s1 = Some 0" "rd32 (f_indirect f) ?s2 = Some (of_nat b)"
    using rd32_word [OF w c2(1)] rd32_word [OF w c2(2)] put_bm_file(2) [OF assms(1,2,5,8,6) w] assms(3) by simp_all
  have used: "b \<notin> free_blocks ?s2" "b < nblk ?s2" using t(5,6) assms(4,5,9) o(2,3) by auto
  have "file_map_block f n True ?s1 = Some (Inr (ld32 (f_mem s) ?w), ?s2)"
    using assms(10,11,12) ind(2) read_block_used [OF o(1) used(2,1)] c2(3) v
    by (simp add: file_map_block_def file_block_walk_def ind(1) t(2) wr32_word [OF w c(2)])
  then show ?thesis
    using t(1,5) put_bm_true(2) [OF assms(1,5,6)] o(2) by (intro exI [of _ ?s1] exI [of _ ?s2]) simp
qed

lemma stale_indirect_block_witness:
  "\<exists>s1 s2 w. w \<noteq> 0 \<and> free_block 4 ex_fs = Some s1 \<and> file_map_block (disk_addr 3) 10 True s1 = Some (Inr w, s2)"
proof -
  have w: "word_in (disk_addr (of_nat 4) + 4 * 10) 4" by (rule block_word) (simp_all add: NINDIRECT_def)
  have "ld32 (f_mem ex_fs) (disk_addr (of_nat 4) + 4 * 10) \<noteq> 0"
    using ex_data [OF w] ld32_zero(2) by simp
  moreover have "ld32 (f_mem ex_fs) (f_indirect (disk_addr 3)) = 0"
    using ex_data [OF file_fields(2) [OF ex_file]] by (simp add: ld32_zero)
  ultimately show ?thesis
    using stale_indirect_block [OF ex_inv ex_file, of 4 10]
    by (auto simp: ex_nblk ex_sys ex_free ex_cached NDIRECT_def NINDIRECT_def)
qed

text \<open>
  Setting the size of a file only allocates nothing: a file without indirect block that is made
  larger than ten blocks and then smaller again makes the server panic, since
  \<^verbatim>\<open>file_truncate\<close> panics on the error \<open>E_NOT_FOUND\<close> of \<^verbatim>\<open>file_clear_block\<close>.
\<close>

theorem truncate_sparse_panics:
  assumes "small_file s f c" "ld32 (f_mem s) (f_dir f) = 0"
    and "ld32 (f_mem s) (f_size f) \<le> large" "0xA000 < unat large" "unat large \<le> 0xFFFFF000" "unat small \<le> 0xA000"
  shows "\<exists>s'. file_set_size f large s = Some s' \<and> file_set_size f small s' = None"
proof -
  have s: "struct_in f c" "cached s c" using assms(1) by (simp_all add: small_file_def)
  note w = struct_fields [OF s(1)]
  let ?s = "put_word (f_size f) large s"
  have d: "f_size f \<noteq> f_indirect f" "f_size f \<noteq> f_dir f" by (simp_all add: f_size_def f_indirect_def f_dir_def)
  have sm: "small_file ?s f c" by (rule small_file_put_word [OF assms(1) w(1) d(1)])
  have "ld32 (f_mem ?s) (f_dir f) = 0" using put_word_ld32 [OF w(1) _ d(2)] w(3) assms(2) by (simp add: word_in_def)
  then have "flush_dir f ?s = Some ?s"
    using rd32_word [OF w(3), of ?s] s(2) by (simp add: flush_dir_def)
  then have "file_set_size f large s = Some ?s"
    using rd32_word [OF w(1) s(2)] wr32_word [OF w(1) s(2)] leD [OF assms(3)] by (simp add: file_set_size_def)
  moreover have "file_set_size f small ?s = None"
  proof -
    have "small < large" using assms(4,6) by (simp add: word_less_nat_alt)
    moreover have "file_truncate f small ?s = None"
      by (rule truncate_small_file [OF sm assms(6)]) (use assms(4,5) in simp_all)
    ultimately show ?thesis
      using rd32_word [OF w(1), of ?s] s(2) by (simp add: file_set_size_def)
  qed
  ultimately show ?thesis by blast
qed

lemma truncate_sparse_panics_witness:
  "\<exists>s'. file_set_size (disk_addr 3) 0xB000 ex_fs = Some s' \<and> file_set_size (disk_addr 3) 0 s' = None"
proof -
  have z: "ld32 (f_mem ex_fs) a = 0" if "word_in a 3" for a using ex_data [OF that] by (simp add: ld32_zero)
  note w = file_fields [OF ex_file]
  have "small_file ex_fs (disk_addr 3) 3"
    using ex_file ex_ok z [OF w(2)] by (simp add: small_file_def file_at_def)
  from truncate_sparse_panics [OF this z [OF w(3)], where large = "0xB000" and small = 0] show ?thesis using z [OF w(1)] by simp
qed

text \<open>
  C32. \<^verbatim>\<open>walk_path\<close> follows the names between the slashes of the path, one directory after the
  other, and empty names are left out: its file, directory, last name and errors are those of
  the walk along the list of names.
\<close>

theorem walk_path_components:
  "walk_path path s = resolve (components path) 0 (s_root s) s"
  unfolding walk_path_def walk_loop_resolve [OF hd_skip_slash] components_slash ..

end
