(* ===== verification/Ide.thy ===== *)
theory Ide
  imports Fs
begin

unbundle bit_operations_syntax

text \<open>
  The IDE driver of the file server, \<^verbatim>\<open>fs/ide.c\<close>. The disk controller is no code of the
  repository: it is given by four functions on its own state (\<open>port\<close>), which the system calls
  \<^verbatim>\<open>sys_read_dev\<close> and \<^verbatim>\<open>sys_write_dev\<close> of the kernel reach after their checks of the
  addresses. A failed check is a panic (\<open>None\<close>). What the driver relies on is the documented
  PIO protocol of an ATA disk, stated in \<open>ata_device\<close>.
\<close>

section \<open>The driver\<close>

record 'd port =
  in8 :: "u32 \<Rightarrow> 'd \<Rightarrow> u8 \<times> 'd"
  out8 :: "u32 \<Rightarrow> u8 \<Rightarrow> 'd \<Rightarrow> 'd"
  in32 :: "u32 \<Rightarrow> 'd \<Rightarrow> u32 \<times> 'd"
  out32 :: "u32 \<Rightarrow> u32 \<Rightarrow> 'd \<Rightarrow> 'd"

definition MALTA_IDE_DATA :: u32 where [mos_consts]: "MALTA_IDE_DATA = MALTA_IDE_BASE + 0"
definition MALTA_IDE_NSECT :: u32 where [mos_consts]: "MALTA_IDE_NSECT = MALTA_IDE_BASE + 2"
definition MALTA_IDE_LBAL :: u32 where [mos_consts]: "MALTA_IDE_LBAL = MALTA_IDE_BASE + 3"
definition MALTA_IDE_LBAM :: u32 where [mos_consts]: "MALTA_IDE_LBAM = MALTA_IDE_BASE + 4"
definition MALTA_IDE_LBAH :: u32 where [mos_consts]: "MALTA_IDE_LBAH = MALTA_IDE_BASE + 5"
definition MALTA_IDE_DEVICE :: u32 where [mos_consts]: "MALTA_IDE_DEVICE = MALTA_IDE_BASE + 6"
definition MALTA_IDE_STATUS :: u32 where [mos_consts]: "MALTA_IDE_STATUS = MALTA_IDE_BASE + 7"
definition MALTA_IDE_LBA :: u8 where "MALTA_IDE_LBA = 0xE0"
definition MALTA_IDE_BUSY :: u8 where "MALTA_IDE_BUSY = 0x80"
definition MALTA_IDE_CMD_PIO_READ :: u8 where "MALTA_IDE_CMD_PIO_READ = 0x20"
definition MALTA_IDE_CMD_PIO_WRITE :: u8 where "MALTA_IDE_CMD_PIO_WRITE = 0x30"

text \<open>One byte, to and from the local variable \<^verbatim>\<open>temp\<close>, and one word of the caller's memory.\<close>

definition get8 :: "'d port \<Rightarrow> u32 \<Rightarrow> 'd \<Rightarrow> (u8 \<times> 'd) option" where
  "get8 p pa d = (if dev_range pa 1 then Some (in8 p pa d) else None)"

definition put8 :: "'d port \<Rightarrow> u32 \<Rightarrow> u8 \<Rightarrow> 'd \<Rightarrow> 'd option" where
  "put8 p pa b d = (if dev_range pa 1 then Some (out8 p pa b d) else None)"

definition read_dev32 :: "'d port \<Rightarrow> u32 \<Rightarrow> u32 \<Rightarrow> mem \<Rightarrow> 'd \<Rightarrow> (mem \<times> 'd) option" where
  "read_dev32 p va pa m d =
     (if is_illegal_va_range va 4 \<or> \<not> dev_range pa 4 \<or> unat va mod 4 \<noteq> 0 then None
      else (let (w, d) = in32 p pa d in Some (st32 m va w, d)))"

definition write_dev32 :: "'d port \<Rightarrow> u32 \<Rightarrow> u32 \<Rightarrow> mem \<Rightarrow> 'd \<Rightarrow> 'd option" where
  "write_dev32 p va pa m d =
     (if is_illegal_va_range va 4 \<or> \<not> dev_range pa 4 \<or> unat va mod 4 \<noteq> 0 then None
      else Some (out32 p pa (ld32 m va) d))"

partial_function (option) wait_ide_ready :: "'d port \<Rightarrow> 'd \<Rightarrow> (u8 \<times> 'd) option" where
  "wait_ide_ready p d = do {
     (flag, d) \<leftarrow> get8 p MALTA_IDE_STATUS d;
     if flag AND MALTA_IDE_BUSY = 0 then Some (flag, d) else wait_ide_ready p d
   }"

text \<open>Steps 1 to 7 of a sector, the same for both directions but for the command.\<close>

definition start_sector :: "'d port \<Rightarrow> u32 \<Rightarrow> u32 \<Rightarrow> u8 \<Rightarrow> 'd \<Rightarrow> 'd option" where
  "start_sector p diskno secno cmd d = do {
     (_, d) \<leftarrow> wait_ide_ready p d;
     d \<leftarrow> put8 p MALTA_IDE_NSECT 1 d;
     d \<leftarrow> put8 p MALTA_IDE_LBAL (ucast (secno AND 0xFF)) d;
     d \<leftarrow> put8 p MALTA_IDE_LBAM (ucast (drop_bit 8 secno AND 0xFF)) d;
     d \<leftarrow> put8 p MALTA_IDE_LBAH (ucast (drop_bit 16 secno AND 0xFF)) d;
     d \<leftarrow> put8 p MALTA_IDE_DEVICE
           (ucast ((drop_bit 24 secno AND 0x0F) OR ucast MALTA_IDE_LBA OR push_bit 4 diskno)) d;
     d \<leftarrow> put8 p MALTA_IDE_STATUS cmd d;
     (_, d) \<leftarrow> wait_ide_ready p d;
     Some d
   }"

text \<open>Step 8: the words \<open>i\<close>, \<open>i + 1\<close>, ... of the sector, \<open>n\<close> of them.\<close>

fun read_words :: "'d port \<Rightarrow> u32 \<Rightarrow> nat \<Rightarrow> nat \<Rightarrow> mem \<Rightarrow> 'd \<Rightarrow> (mem \<times> 'd) option" where
  "read_words p dst i 0 m d = Some (m, d)"
| "read_words p dst i (Suc n) m d = do {
     (m, d) \<leftarrow> read_dev32 p (dst + of_nat i * 4) MALTA_IDE_DATA m d;
     read_words p dst (Suc i) n m d
   }"

fun write_words :: "'d port \<Rightarrow> u32 \<Rightarrow> nat \<Rightarrow> nat \<Rightarrow> mem \<Rightarrow> 'd \<Rightarrow> 'd option" where
  "write_words p src i 0 m d = Some d"
| "write_words p src i (Suc n) m d = do {
     d \<leftarrow> write_dev32 p (src + of_nat i * 4) MALTA_IDE_DATA m d;
     write_words p src (Suc i) n m d
   }"

partial_function (option) read_sectors ::
  "'d port \<Rightarrow> u32 \<Rightarrow> u32 \<Rightarrow> u32 \<Rightarrow> u32 \<Rightarrow> u32 \<Rightarrow> mem \<Rightarrow> 'd \<Rightarrow> (mem \<times> 'd) option" where
  "read_sectors p diskno secno limit dst offset m d =
     (if secno < limit then do {
        d \<leftarrow> start_sector p diskno secno MALTA_IDE_CMD_PIO_READ d;
        (m, d) \<leftarrow> read_words p (dst + offset) 0 (SECT_SIZE div 4) m d;
        (_, d) \<leftarrow> get8 p MALTA_IDE_STATUS d;
        read_sectors p diskno (secno + 1) limit dst (offset + of_nat SECT_SIZE) m d
      }
      else Some (m, d))"

partial_function (option) write_sectors ::
  "'d port \<Rightarrow> u32 \<Rightarrow> u32 \<Rightarrow> u32 \<Rightarrow> u32 \<Rightarrow> u32 \<Rightarrow> mem \<Rightarrow> 'd \<Rightarrow> 'd option" where
  "write_sectors p diskno secno limit src offset m d =
     (if secno < limit then do {
        d \<leftarrow> start_sector p diskno secno MALTA_IDE_CMD_PIO_WRITE d;
        d \<leftarrow> write_words p (src + offset) 0 (SECT_SIZE div 4) m d;
        (_, d) \<leftarrow> get8 p MALTA_IDE_STATUS d;
        write_sectors p diskno (secno + 1) limit src (offset + of_nat SECT_SIZE) m d
      }
      else Some d)"

definition ide_read :: "'d port \<Rightarrow> u32 \<Rightarrow> u32 \<Rightarrow> u32 \<Rightarrow> u32 \<Rightarrow> mem \<Rightarrow> 'd \<Rightarrow> (mem \<times> 'd) option" where
  "ide_read p diskno secno dst nsecs m d =
     (if diskno \<ge> 2 then None else read_sectors p diskno secno (nsecs + secno) dst 0 m d)"

definition ide_write :: "'d port \<Rightarrow> u32 \<Rightarrow> u32 \<Rightarrow> u32 \<Rightarrow> u32 \<Rightarrow> mem \<Rightarrow> 'd \<Rightarrow> 'd option" where
  "ide_write p diskno secno src nsecs m d =
     (if diskno \<ge> 2 then None else write_sectors p diskno secno (nsecs + secno) src 0 m d)"

section \<open>The disk the driver relies on\<close>

text \<open>
  The registers of an ATA disk, the direction and the next word of a transfer, and the sectors
  of its two units.
\<close>

datatype phase = Idle | Data_in nat | Data_out nat

record ata =
  a_nsect :: u8
  a_lbal :: u8
  a_lbam :: u8
  a_lbah :: u8
  a_device :: u8
  a_phase :: phase
  a_disk :: "nat \<Rightarrow> u32 \<Rightarrow> nat \<Rightarrow> u8"

definition ata_sector :: "ata \<Rightarrow> u32" where
  "ata_sector a = ucast (a_lbal a) OR push_bit 8 (ucast (a_lbam a)) OR push_bit 16 (ucast (a_lbah a))
     OR push_bit 24 (ucast (a_device a AND 0xF))"

definition ata_unit :: "ata \<Rightarrow> nat" where
  "ata_unit a = (if bit (a_device a) 4 then 1 else 0)"

text \<open>Word \<open>k\<close> of the selected sector, and the sector with this word replaced.\<close>

definition sector_word :: "ata \<Rightarrow> nat \<Rightarrow> u32" where
  "sector_word a k = ld32 (\<lambda>x. a_disk a (ata_unit a) (ata_sector a) (unat x)) (of_nat (4 * k))"

definition put_sector_word :: "ata \<Rightarrow> nat \<Rightarrow> u32 \<Rightarrow> ata" where
  "put_sector_word a k w =
     a\<lparr>a_disk := (a_disk a)(ata_unit a := (a_disk a (ata_unit a))(ata_sector a :=
        (\<lambda>i. if 4 * k \<le> i \<and> i < 4 * k + 4 then ucast (drop_bit (8 * (i - 4 * k)) w)
              else a_disk a (ata_unit a) (ata_sector a) i)))\<rparr>"

text \<open>
  The documented behaviour: \<open>view\<close> reads the registers off the device and \<open>busy\<close> is the number of
  status reads for which it stays busy. Registers are written while it is not busy; a command
  may make it busy; 128 words follow a command for one sector.
\<close>

definition ata_device :: "'d port \<Rightarrow> ('d \<Rightarrow> ata) \<Rightarrow> ('d \<Rightarrow> nat) \<Rightarrow> bool" where
  "ata_device p view busy \<longleftrightarrow>
     (\<forall>d. (fst (in8 p MALTA_IDE_STATUS d) AND MALTA_IDE_BUSY = 0 \<longleftrightarrow> busy d = 0) \<and>
        busy (snd (in8 p MALTA_IDE_STATUS d)) = busy d - 1 \<and> view (snd (in8 p MALTA_IDE_STATUS d)) = view d) \<and>
     (\<forall>d v. busy d = 0 \<longrightarrow>
        view (out8 p MALTA_IDE_NSECT v d) = (view d)\<lparr>a_nsect := v\<rparr> \<and> busy (out8 p MALTA_IDE_NSECT v d) = 0 \<and>
        view (out8 p MALTA_IDE_LBAL v d) = (view d)\<lparr>a_lbal := v\<rparr> \<and> busy (out8 p MALTA_IDE_LBAL v d) = 0 \<and>
        view (out8 p MALTA_IDE_LBAM v d) = (view d)\<lparr>a_lbam := v\<rparr> \<and> busy (out8 p MALTA_IDE_LBAM v d) = 0 \<and>
        view (out8 p MALTA_IDE_LBAH v d) = (view d)\<lparr>a_lbah := v\<rparr> \<and> busy (out8 p MALTA_IDE_LBAH v d) = 0 \<and>
        view (out8 p MALTA_IDE_DEVICE v d) = (view d)\<lparr>a_device := v\<rparr> \<and> busy (out8 p MALTA_IDE_DEVICE v d) = 0) \<and>
     (\<forall>d. busy d = 0 \<and> a_nsect (view d) = 1 \<and> bit (a_device (view d)) 6 \<longrightarrow>
        view (out8 p MALTA_IDE_STATUS MALTA_IDE_CMD_PIO_READ d) = (view d)\<lparr>a_phase := Data_in 0\<rparr> \<and>
        view (out8 p MALTA_IDE_STATUS MALTA_IDE_CMD_PIO_WRITE d) = (view d)\<lparr>a_phase := Data_out 0\<rparr>) \<and>
     (\<forall>d k. busy d = 0 \<and> a_phase (view d) = Data_in k \<and> k < 128 \<longrightarrow>
        fst (in32 p MALTA_IDE_DATA d) = sector_word (view d) k \<and>
        view (snd (in32 p MALTA_IDE_DATA d)) = (view d)\<lparr>a_phase := (if k = 127 then Idle else Data_in (Suc k))\<rparr> \<and>
        busy (snd (in32 p MALTA_IDE_DATA d)) = 0) \<and>
     (\<forall>d k w. busy d = 0 \<and> a_phase (view d) = Data_out k \<and> k < 128 \<longrightarrow>
        view (out32 p MALTA_IDE_DATA w d) =
          (put_sector_word (view d) k w)\<lparr>a_phase := (if k = 127 then Idle else Data_out (Suc k))\<rparr> \<and>
        (k < 127 \<longrightarrow> busy (out32 p MALTA_IDE_DATA w d) = 0))"

end
