(* ===== verification/Ide_Inv.thy ===== *)
theory Ide_Inv
  imports Ide Fs_Inv
begin

unbundle bit_operations_syntax

text \<open>
  Lemmas for the IDE driver: the wait ends, the registers hold the sector number, the 128 words
  of a sector are the sector, and the loop over the sectors moves them all.
\<close>

lemmas ide_regs = MALTA_IDE_DATA_def MALTA_IDE_NSECT_def MALTA_IDE_LBAL_def MALTA_IDE_LBAM_def
  MALTA_IDE_LBAH_def MALTA_IDE_DEVICE_def MALTA_IDE_STATUS_def MALTA_IDE_BASE_def

lemma reg_range:
  "dev_range MALTA_IDE_NSECT 1" "dev_range MALTA_IDE_LBAL 1" "dev_range MALTA_IDE_LBAM 1"
  "dev_range MALTA_IDE_LBAH 1" "dev_range MALTA_IDE_DEVICE 1" "dev_range MALTA_IDE_STATUS 1"
  "dev_range MALTA_IDE_DATA 4"
  by (simp_all add: dev_range_def ide_regs)

lemma io_regs:
  "get8 p MALTA_IDE_STATUS d = Some (in8 p MALTA_IDE_STATUS d)"
  "put8 p MALTA_IDE_NSECT v d = Some (out8 p MALTA_IDE_NSECT v d)"
  "put8 p MALTA_IDE_LBAL v d = Some (out8 p MALTA_IDE_LBAL v d)"
  "put8 p MALTA_IDE_LBAM v d = Some (out8 p MALTA_IDE_LBAM v d)"
  "put8 p MALTA_IDE_LBAH v d = Some (out8 p MALTA_IDE_LBAH v d)"
  "put8 p MALTA_IDE_DEVICE v d = Some (out8 p MALTA_IDE_DEVICE v d)"
  "put8 p MALTA_IDE_STATUS v d = Some (out8 p MALTA_IDE_STATUS v d)"
  by (simp_all add: get8_def put8_def reg_range)

section \<open>One sector\<close>

lemma ata_status:
  assumes "ata_device p view busy"
  shows "fst (in8 p MALTA_IDE_STATUS d) AND MALTA_IDE_BUSY = 0 \<longleftrightarrow> busy d = 0"
    "busy (snd (in8 p MALTA_IDE_STATUS d)) = busy d - 1" "view (snd (in8 p MALTA_IDE_STATUS d)) = view d"
  using assms unfolding ata_device_def by blast+

lemma ata_regs:
  assumes "ata_device p view busy" "busy d = 0"
  shows "view (out8 p MALTA_IDE_NSECT v d) = (view d)\<lparr>a_nsect := v\<rparr>" "busy (out8 p MALTA_IDE_NSECT v d) = 0"
    "view (out8 p MALTA_IDE_LBAL v d) = (view d)\<lparr>a_lbal := v\<rparr>" "busy (out8 p MALTA_IDE_LBAL v d) = 0"
    "view (out8 p MALTA_IDE_LBAM v d) = (view d)\<lparr>a_lbam := v\<rparr>" "busy (out8 p MALTA_IDE_LBAM v d) = 0"
    "view (out8 p MALTA_IDE_LBAH v d) = (view d)\<lparr>a_lbah := v\<rparr>" "busy (out8 p MALTA_IDE_LBAH v d) = 0"
    "view (out8 p MALTA_IDE_DEVICE v d) = (view d)\<lparr>a_device := v\<rparr>" "busy (out8 p MALTA_IDE_DEVICE v d) = 0"
  using assms unfolding ata_device_def by blast+

lemma ata_command:
  assumes "ata_device p view busy" "busy d = 0" "a_nsect (view d) = 1" "bit (a_device (view d)) 6"
  shows "view (out8 p MALTA_IDE_STATUS MALTA_IDE_CMD_PIO_READ d) = (view d)\<lparr>a_phase := Data_in 0\<rparr>"
    "view (out8 p MALTA_IDE_STATUS MALTA_IDE_CMD_PIO_WRITE d) = (view d)\<lparr>a_phase := Data_out 0\<rparr>"
  using assms unfolding ata_device_def by blast+

lemma ata_in:
  assumes "ata_device p view busy" "busy d = 0" "a_phase (view d) = Data_in k" "k < 128"
  shows "fst (in32 p MALTA_IDE_DATA d) = sector_word (view d) k"
    "view (snd (in32 p MALTA_IDE_DATA d)) = (view d)\<lparr>a_phase := (if k = 127 then Idle else Data_in (Suc k))\<rparr>"
    "busy (snd (in32 p MALTA_IDE_DATA d)) = 0"
  using assms unfolding ata_device_def by blast+

lemma ata_out:
  assumes "ata_device p view busy" "busy d = 0" "a_phase (view d) = Data_out k" "k < 128"
  shows "view (out32 p MALTA_IDE_DATA w d) =
      (put_sector_word (view d) k w)\<lparr>a_phase := (if k = 127 then Idle else Data_out (Suc k))\<rparr>"
    "k < 127 \<Longrightarrow> busy (out32 p MALTA_IDE_DATA w d) = 0"
  using assms unfolding ata_device_def by blast+

text \<open>The wait ends, after as many rounds as the device stays busy.\<close>

lemma wait_ends:
  assumes "ata_device p view busy"
  shows "\<exists>f d'. wait_ide_ready p d = Some (f, d') \<and> busy d' = 0 \<and> view d' = view d"
proof (induction "busy d" arbitrary: d)
  case 0
  then show ?case
    using ata_status [OF assms, of d] by (subst wait_ide_ready.simps) (auto simp: io_regs split: prod.splits)
next
  case (Suc n)
  let ?d = "snd (in8 p MALTA_IDE_STATUS d)"
  have "wait_ide_ready p d = wait_ide_ready p ?d"
    using ata_status(1) [OF assms, of d] Suc.hyps(2)
    by (subst wait_ide_ready.simps) (auto simp: io_regs split: prod.splits)
  moreover have "n = busy ?d" using ata_status(2) [OF assms, of d] Suc.hyps(2) by simp
  from Suc.hyps(1) [OF this] obtain f d' where
    "wait_ide_ready p ?d = Some (f, d')" "busy d' = 0" "view d' = view ?d" by blast
  ultimately show ?case using ata_status(3) [OF assms, of d] by auto
qed

text \<open>The registers of a started transfer.\<close>

definition regs_for :: "u32 \<Rightarrow> u32 \<Rightarrow> ata \<Rightarrow> ata" where
  "regs_for diskno secno a = a\<lparr>a_nsect := 1, a_lbal := ucast (secno AND 0xFF),
     a_lbam := ucast (drop_bit 8 secno AND 0xFF), a_lbah := ucast (drop_bit 16 secno AND 0xFF),
     a_device := ucast ((drop_bit 24 secno AND 0x0F) OR ucast MALTA_IDE_LBA OR push_bit 4 diskno)\<rparr>"

lemma regs_for_fields:
  "a_lbal (regs_for diskno secno a) = ucast (secno AND 0xFF)"
  "a_lbam (regs_for diskno secno a) = ucast (drop_bit 8 secno AND 0xFF)"
  "a_lbah (regs_for diskno secno a) = ucast (drop_bit 16 secno AND 0xFF)"
  "a_device (regs_for diskno secno a) =
     ucast ((drop_bit 24 secno AND 0x0F) OR ucast MALTA_IDE_LBA OR push_bit 4 diskno)"
  by (simp_all add: regs_for_def)

lemma u8_const_bit:
  "bit (0xE0 :: u32) n \<longleftrightarrow> n = 5 \<or> n = 6 \<or> n = 7" "bit (0xE0 :: u8) n \<longleftrightarrow> n = 5 \<or> n = 6 \<or> n = 7"
  "bit (0xF :: u8) n \<longleftrightarrow> n < 4" "bit (0xF :: u32) n \<longleftrightarrow> n < 4" "bit (0xFF :: u32) n \<longleftrightarrow> n < 8"
proof -
  have m: "(0xF :: u8) = mask 4" "(0xF :: u32) = mask 4" "(0xFF :: u32) = mask 8"
    "(0xE0 :: u32) = push_bit 5 (mask 3)" "(0xE0 :: u8) = push_bit 5 (mask 3)"
    by (simp_all add: mask_eq_exp_minus_1)
  show "bit (0xF :: u8) n \<longleftrightarrow> n < 4" "bit (0xF :: u32) n \<longleftrightarrow> n < 4" "bit (0xFF :: u32) n \<longleftrightarrow> n < 8"
    unfolding m by (auto simp: bit_simps)
  have "5 \<le> n \<and> n - 5 < 3 \<longleftrightarrow> n = 5 \<or> n = 6 \<or> n = 7" by linarith
  then show "bit (0xE0 :: u32) n \<longleftrightarrow> n = 5 \<or> n = 6 \<or> n = 7" "bit (0xE0 :: u8) n \<longleftrightarrow> n = 5 \<or> n = 6 \<or> n = 7"
    unfolding m by (auto simp: bit_simps)
qed

lemma sector_bits:
  fixes secno :: u32
  assumes "secno < 0x10000000"
  shows "28 \<le> n \<Longrightarrow> \<not> bit secno n"
proof -
  have "drop_bit 28 secno = 0" by (rule drop_bit_lt) (use assms in \<open>simp add: word_less_nat_alt\<close>)
  then have "\<not> bit (drop_bit 28 secno) (n - 28)" by simp
  then show "28 \<le> n \<Longrightarrow> \<not> bit secno n" by (simp add: bit_simps)
qed

lemma unit_cases: "diskno < 2 \<Longrightarrow> diskno = 0 \<or> diskno = 1" for diskno :: u32
proof -
  assume "diskno < 2"
  then have "unat diskno = unat (0 :: u32) \<or> unat diskno = unat (1 :: u32)"
    by (simp add: word_less_nat_alt) linarith
  then show ?thesis by (simp only: word_unat_eq_iff)
qed

lemma regs_for_unit:
  assumes "diskno < 2"
  shows "ata_unit (regs_for diskno secno a) = unat diskno" "bit (a_device (regs_for diskno secno a)) 6"
  using unit_cases [OF assms]
  by (auto simp: ata_unit_def regs_for_def MALTA_IDE_LBA_def bit_simps u8_const_bit)

lemma reg_bits:
  assumes "diskno < 2"
  shows "bit (ucast (a_lbal (regs_for diskno secno a)) :: u32) k \<longleftrightarrow> k < 8 \<and> bit secno k"
    "bit (ucast (a_lbam (regs_for diskno secno a)) :: u32) k \<longleftrightarrow> k < 8 \<and> bit secno (8 + k)"
    "bit (ucast (a_lbah (regs_for diskno secno a)) :: u32) k \<longleftrightarrow> k < 8 \<and> bit secno (16 + k)"
    "bit (ucast (a_device (regs_for diskno secno a) AND 0xF) :: u32) k \<longleftrightarrow> k < 4 \<and> bit secno (24 + k)"
proof -
  have u: "bit diskno j \<longleftrightarrow> diskno = 1 \<and> j = 0" for j
    using unit_cases [OF assms] by (auto simp: bit_1_iff)
  note b = regs_for_fields MALTA_IDE_LBA_def bit_unsigned_iff bit_and_iff bit_or_iff bit_drop_bit_eq o_def
    bit_push_bit_iff u8_const_bit u
  show "bit (ucast (a_lbal (regs_for diskno secno a)) :: u32) k \<longleftrightarrow> k < 8 \<and> bit secno k"
    by (simp only: b) auto
  show "bit (ucast (a_lbam (regs_for diskno secno a)) :: u32) k \<longleftrightarrow> k < 8 \<and> bit secno (8 + k)"
    by (simp only: b) auto
  show "bit (ucast (a_lbah (regs_for diskno secno a)) :: u32) k \<longleftrightarrow> k < 8 \<and> bit secno (16 + k)"
    by (simp only: b) auto
  show "bit (ucast (a_device (regs_for diskno secno a) AND 0xF) :: u32) k \<longleftrightarrow> k < 4 \<and> bit secno (24 + k)"
    by (simp only: b) auto
qed

lemma regs_for_sector:
  assumes "diskno < 2" "secno < 0x10000000"
  shows "ata_sector (regs_for diskno secno a) = secno"
proof (rule bit_word_eqI)
  fix n assume n: "n < LENGTH(32)"
  then have "bit (ata_sector (regs_for diskno secno a)) n \<longleftrightarrow>
      n < 8 \<and> bit secno n \<or> (8 \<le> n \<and> n - 8 < 8 \<and> bit secno (8 + (n - 8))) \<or>
      (16 \<le> n \<and> n - 16 < 8 \<and> bit secno (16 + (n - 16))) \<or> (24 \<le> n \<and> n - 24 < 4 \<and> bit secno (24 + (n - 24)))"
    by (simp add: ata_sector_def bit_or_iff bit_push_bit_iff reg_bits [OF assms(1)])
  also have "\<dots> \<longleftrightarrow> n < 28 \<and> bit secno n"
    by (cases "8 \<le> n"; cases "16 \<le> n"; cases "24 \<le> n"; simp) linarith+
  also have "\<dots> \<longleftrightarrow> bit secno n" using sector_bits [OF assms(2), of n] by (cases "28 \<le> n") auto
  finally show "bit (ata_sector (regs_for diskno secno a)) n \<longleftrightarrow> bit secno n" .
qed

lemma regs_for_disk [simp]: "a_disk (regs_for diskno secno a) = a_disk a"
  by (simp add: regs_for_def)

lemma start_sector_ok:
  assumes "ata_device p view busy" "diskno < 2"
  shows "\<exists>d'. start_sector p diskno secno MALTA_IDE_CMD_PIO_READ d = Some d' \<and> busy d' = 0 \<and>
      view d' = (regs_for diskno secno (view d))\<lparr>a_phase := Data_in 0\<rparr>"
    and "\<exists>d'. start_sector p diskno secno MALTA_IDE_CMD_PIO_WRITE d = Some d' \<and> busy d' = 0 \<and>
      view d' = (regs_for diskno secno (view d))\<lparr>a_phase := Data_out 0\<rparr>"
proof -
  obtain f d0 where w0: "wait_ide_ready p d = Some (f, d0)" "busy d0 = 0" "view d0 = view d"
    using wait_ends [OF assms(1), of d] by blast
  let ?d1 = "out8 p MALTA_IDE_DEVICE (ucast ((drop_bit 24 secno AND 0x0F) OR ucast MALTA_IDE_LBA OR push_bit 4 diskno))
    (out8 p MALTA_IDE_LBAH (ucast (drop_bit 16 secno AND 0xFF)) (out8 p MALTA_IDE_LBAM (ucast (drop_bit 8 secno AND 0xFF))
    (out8 p MALTA_IDE_LBAL (ucast (secno AND 0xFF)) (out8 p MALTA_IDE_NSECT 1 d0))))"
  have d1: "busy ?d1 = 0" "view ?d1 = regs_for diskno secno (view d)"
    using w0(2,3) by (simp_all add: ata_regs [OF assms(1)] regs_for_def)
  have s: "a_nsect (view ?d1) = 1" "bit (a_device (view ?d1)) 6"
    using regs_for_unit(2) [OF assms(2)] unfolding d1(2) by (simp_all add: regs_for_def)
  note c = ata_command [OF assms(1) d1(1) s, unfolded d1(2)]
  have e: "start_sector p diskno secno cmd d =
    do { (_, d) \<leftarrow> wait_ide_ready p (out8 p MALTA_IDE_STATUS cmd ?d1); Some d }" for cmd
    by (simp add: start_sector_def w0(1) io_regs)
  show "\<exists>d'. start_sector p diskno secno MALTA_IDE_CMD_PIO_READ d = Some d' \<and> busy d' = 0 \<and>
      view d' = (regs_for diskno secno (view d))\<lparr>a_phase := Data_in 0\<rparr>"
    using wait_ends [OF assms(1), of "out8 p MALTA_IDE_STATUS MALTA_IDE_CMD_PIO_READ ?d1"] c(1) unfolding e by fastforce
  show "\<exists>d'. start_sector p diskno secno MALTA_IDE_CMD_PIO_WRITE d = Some d' \<and> busy d' = 0 \<and>
      view d' = (regs_for diskno secno (view d))\<lparr>a_phase := Data_out 0\<rparr>"
    using wait_ends [OF assms(1), of "out8 p MALTA_IDE_STATUS MALTA_IDE_CMD_PIO_WRITE ?d1"] c(2) unfolding e by fastforce
qed

section \<open>The words of a sector\<close>

lemma unat_minus_less:
  fixes x :: u32
  assumes "c + n \<le> 2 ^ 32"
  shows "unat (x - of_nat c) < n \<longleftrightarrow> c \<le> unat x \<and> unat x < c + n"
proof (cases "n = 0")
  case False
  then have c: "unat (of_nat c :: u32) = c" using assms by (intro unat_of_nat_u32) simp
  have "unat x < 2 ^ 32" using unsigned_less [of x, where ?'a = nat] by simp
  then show ?thesis unfolding unat_sub_cases c using assms by auto
qed simp

text \<open>The words at \<open>dst\<close> can be handed to the system calls.\<close>

definition sector_buffer :: "u32 \<Rightarrow> bool" where
  "sector_buffer dst \<longleftrightarrow> (\<forall>j < 128. \<not> is_illegal_va_range (dst + of_nat j * 4) 4 \<and> unat (dst + of_nat j * 4) mod 4 = 0)"

definition unit_sector :: "ata \<Rightarrow> nat \<Rightarrow> u8" where
  "unit_sector a = a_disk a (ata_unit a) (ata_sector a)"

lemma sector_phase [simp]:
  "ata_unit (a\<lparr>a_phase := f\<rparr>) = ata_unit a" "ata_sector (a\<lparr>a_phase := f\<rparr>) = ata_sector a"
  "unit_sector (a\<lparr>a_phase := f\<rparr>) = unit_sector a"
  by (simp_all add: ata_unit_def ata_sector_def unit_sector_def)

lemma word_to_memory:
  assumes "k < 128"
  shows "st32 m (dst + of_nat k * 4) (sector_word a k) =
    (\<lambda>x. if 4 * k \<le> unat (x - dst) \<and> unat (x - dst) < 4 * k + 4 then unit_sector a (unat (x - dst)) else m x)"
proof
  fix x
  have e: "x - (dst + of_nat k * 4) = (x - dst) - of_nat (4 * k)" by (simp add: algebra_simps)
  have "4 * k + 4 \<le> 2 ^ 32" using assms by simp
  then have "unat (x - (dst + of_nat k * 4)) < 4 \<longleftrightarrow> 4 * k \<le> unat (x - dst) \<and> unat (x - dst) < 4 * k + 4"
    unfolding e by (rule unat_minus_less)
  moreover have "of_nat (4 * k) + (x - (dst + of_nat k * 4)) = x - dst" by (simp add: algebra_simps)
  ultimately show "st32 m (dst + of_nat k * 4) (sector_word a k) x =
    (if 4 * k \<le> unat (x - dst) \<and> unat (x - dst) < 4 * k + 4 then unit_sector a (unat (x - dst)) else m x)"
    unfolding sector_word_def st32_ld32_from unit_sector_def by (simp only:)
qed

lemma read_dev_word:
  "sector_buffer dst \<Longrightarrow> k < 128 \<Longrightarrow> read_dev32 p (dst + of_nat k * 4) MALTA_IDE_DATA m d =
     Some (st32 m (dst + of_nat k * 4) (fst (in32 p MALTA_IDE_DATA d)), snd (in32 p MALTA_IDE_DATA d))"
  by (simp add: read_dev32_def sector_buffer_def reg_range split: prod.splits)

lemma read_words_ok:
  assumes "ata_device p view busy" "sector_buffer dst"
  shows "busy d = 0 \<Longrightarrow> a_phase (view d) = Data_in k \<Longrightarrow> k + Suc n = 128 \<Longrightarrow>
    \<exists>d'. read_words p dst k (Suc n) m d =
      Some (\<lambda>x. if 4 * k \<le> unat (x - dst) \<and> unat (x - dst) < 512 then unit_sector (view d) (unat (x - dst)) else m x, d') \<and>
      busy d' = 0 \<and> view d' = (view d)\<lparr>a_phase := Idle\<rparr>"
proof (induction n arbitrary: k m d)
  case 0
  have k: "k < 128" "4 * k + 4 = 512" "k = 127" using 0(3) by simp_all
  note i = ata_in [OF assms(1) 0(1,2) k(1)]
  have "view (snd (in32 p MALTA_IDE_DATA d)) = (view d)\<lparr>a_phase := Idle\<rparr>" using i(2) k(3) by simp
  then show ?case
    using i(1,3) word_to_memory [OF k(1), of m dst "view d"] unfolding k(2)
    by (simp add: read_dev_word [OF assms(2) k(1)])
next
  case (Suc n)
  let ?d = "snd (in32 p MALTA_IDE_DATA d)"
  let ?m = "st32 m (dst + of_nat k * 4) (sector_word (view d) k)"
  have k: "k < 127" "Suc k + Suc n = 128" using Suc.prems(3) by simp_all
  have k': "k < 128" using k(1) by simp
  note i = ata_in [OF assms(1) Suc.prems(1,2) k']
  have step: "read_words p dst k (Suc (Suc n)) m d = read_words p dst (Suc k) (Suc n) ?m ?d"
    by (simp add: read_dev_word [OF assms(2) k'] i(1))
  have "a_phase (view ?d) = Data_in (Suc k)" using i(2) k(1) by simp
  from Suc.IH [OF i(3) this k(2), of ?m] k(1) obtain d' where d':
    "read_words p dst (Suc k) (Suc n) ?m ?d =
      Some (\<lambda>x. if 4 * Suc k \<le> unat (x - dst) \<and> unat (x - dst) < 512 then unit_sector (view ?d) (unat (x - dst)) else ?m x, d')"
    "busy d' = 0" "view d' = (view ?d)\<lparr>a_phase := Idle\<rparr>" by auto
  have v: "unit_sector (view ?d) = unit_sector (view d)" "view d' = (view d)\<lparr>a_phase := Idle\<rparr>"
    using i(2) k(1) d'(3) by simp_all
  have m: "(\<lambda>x. if 4 * Suc k \<le> unat (x - dst) \<and> unat (x - dst) < 512 then unit_sector (view d) (unat (x - dst)) else ?m x) =
    (\<lambda>x. if 4 * k \<le> unat (x - dst) \<and> unat (x - dst) < 512 then unit_sector (view d) (unat (x - dst)) else m x)"
    using k(1) by (subst word_to_memory [OF k']) auto
  show ?case using d'(2) v(2) unfolding step d'(1) v(1) m by blast
qed

text \<open>The selected sector replaced.\<close>

definition put_sector :: "(nat \<Rightarrow> u8) \<Rightarrow> ata \<Rightarrow> ata" where
  "put_sector f a = a\<lparr>a_disk := (a_disk a)(ata_unit a := (a_disk a (ata_unit a))(ata_sector a := f))\<rparr>"

lemma put_sector_simps [simp]:
  "ata_unit (put_sector f a) = ata_unit a" "ata_sector (put_sector f a) = ata_sector a"
  "unit_sector (put_sector f a) = f" "put_sector g (put_sector f a) = put_sector g a"
  "put_sector f (a\<lparr>a_phase := q\<rparr>) = (put_sector f a)\<lparr>a_phase := q\<rparr>" "a_phase (put_sector f a) = a_phase a"
  by (simp_all add: put_sector_def ata_unit_def ata_sector_def unit_sector_def)

lemma memory_to_word:
  "put_sector_word a k (ld32 m (src + of_nat k * 4)) =
     put_sector (\<lambda>i. if 4 * k \<le> i \<and> i < 4 * k + 4 then m (src + of_nat i) else unit_sector a i) a"
proof -
  have "ucast (drop_bit (8 * (i - 4 * k)) (ld32 m (src + of_nat k * 4))) = m (src + of_nat i)"
    if "4 * k \<le> i" "i < 4 * k + 4" for i
  proof -
    from le_Suc_ex [OF that(1)] obtain j where j: "i = 4 * k + j" ..
    with that(2) have "j < 4" by simp
    then have "j = 0 \<or> j = 1 \<or> j = 2 \<or> j = 3" by linarith
    moreover have "src + of_nat i = src + of_nat k * 4 + of_nat j" by (simp add: j)
    ultimately show ?thesis using ld32_bytes [of m "src + of_nat k * 4"] by (auto simp: j ac_simps)
  qed
  then have "(\<lambda>i. if 4 * k \<le> i \<and> i < 4 * k + 4 then ucast (drop_bit (8 * (i - 4 * k)) (ld32 m (src + of_nat k * 4)))
      else unit_sector a i) = (\<lambda>i. if 4 * k \<le> i \<and> i < 4 * k + 4 then m (src + of_nat i) else unit_sector a i)"
    by (intro ext if_cong refl) simp
  then show ?thesis by (simp only: put_sector_word_def put_sector_def unit_sector_def)
qed

lemma write_dev_word:
  "sector_buffer src \<Longrightarrow> k < 128 \<Longrightarrow> write_dev32 p (src + of_nat k * 4) MALTA_IDE_DATA m d =
     Some (out32 p MALTA_IDE_DATA (ld32 m (src + of_nat k * 4)) d)"
  by (simp add: write_dev32_def sector_buffer_def reg_range)

lemma write_words_ok:
  assumes "ata_device p view busy" "sector_buffer src"
  shows "busy d = 0 \<Longrightarrow> a_phase (view d) = Data_out k \<Longrightarrow> k + Suc n = 128 \<Longrightarrow>
    \<exists>d'. write_words p src k (Suc n) m d = Some d' \<and>
      view d' = (put_sector (\<lambda>i. if 4 * k \<le> i \<and> i < 512 then m (src + of_nat i) else unit_sector (view d) i)
        (view d))\<lparr>a_phase := Idle\<rparr>"
proof (induction n arbitrary: k d)
  case 0
  have k: "k < 128" "4 * k + 4 = 512" "k = 127" using 0(3) by simp_all
  have "view (out32 p MALTA_IDE_DATA w d) = (put_sector_word (view d) k w)\<lparr>a_phase := Idle\<rparr>" for w
    using ata_out(1) [OF assms(1) 0(1,2) k(1)] k(3) by simp
  then show ?case
    using memory_to_word [of "view d" k m src] unfolding k(2)
    by (simp add: write_dev_word [OF assms(2) k(1)])
next
  case (Suc n)
  let ?d = "out32 p MALTA_IDE_DATA (ld32 m (src + of_nat k * 4)) d"
  have k: "k < 128" "k < 127" "Suc k + Suc n = 128" using Suc.prems(3) by simp_all
  note o = ata_out [OF assms(1) Suc.prems(1,2) k(1)]
  have v: "view ?d = (put_sector (\<lambda>i. if 4 * k \<le> i \<and> i < 4 * k + 4 then m (src + of_nat i)
      else unit_sector (view d) i) (view d))\<lparr>a_phase := Data_out (Suc k)\<rparr>"
    using o(1) k(2) by (simp add: memory_to_word)
  then have "a_phase (view ?d) = Data_out (Suc k)" by simp
  from Suc.IH [OF o(2) [OF k(2)] this k(3)] obtain d' where d':
    "write_words p src (Suc k) (Suc n) m ?d = Some d'"
    "view d' = (put_sector (\<lambda>i. if 4 * Suc k \<le> i \<and> i < 512 then m (src + of_nat i) else unit_sector (view ?d) i)
        (view ?d))\<lparr>a_phase := Idle\<rparr>" by blast
  have f: "(\<lambda>i. if 4 * Suc k \<le> i \<and> i < 512 then m (src + of_nat i) else unit_sector (view ?d) i) =
    (\<lambda>i. if 4 * k \<le> i \<and> i < 512 then m (src + of_nat i) else unit_sector (view d) i)"
    using k(2) by (auto simp: v)
  have "view d' = (put_sector (\<lambda>i. if 4 * k \<le> i \<and> i < 512 then m (src + of_nat i) else unit_sector (view d) i)
        (view d))\<lparr>a_phase := Idle\<rparr>"
    unfolding d'(2) f by (simp add: v)
  moreover have "write_words p src k (Suc (Suc n)) m d = write_words p src (Suc k) (Suc n) m ?d"
    by (simp add: write_dev_word [OF assms(2) k(1)])
  ultimately show ?case using d'(1) by auto
qed

section \<open>The loop over the sectors\<close>

definition buffer_ok :: "u32 \<Rightarrow> nat \<Rightarrow> bool" where
  "buffer_ok dst n \<longleftrightarrow> UTEMP \<le> dst \<and> unat dst + 512 * n \<le> unat UTOP \<and> unat dst mod 4 = 0"

lemma buffer_sector:
  assumes "buffer_ok dst (Suc n)"
  shows "sector_buffer dst" "buffer_ok (dst + 512) n"
proof -
  have u: "unat UTOP = 0x7f400000" "unat UTEMP = 0x003fe000" by (simp_all add: mos_consts)
  have d: "0x003fe000 \<le> unat dst" "unat dst + 512 * Suc n \<le> 0x7f400000" "unat dst mod 4 = 0"
    using assms by (simp_all add: buffer_ok_def word_le_nat_alt u)
  have "unat (dst + 512) = unat dst + 512" using d(2) by (simp add: unat_word_ariths)
  moreover have "(unat dst + 4 * 128) mod 4 = unat dst mod 4" by (rule mod_mult_self2)
  ultimately show "buffer_ok (dst + 512) n" using d by (simp add: buffer_ok_def word_le_nat_alt u)
  show "sector_buffer dst"
    unfolding sector_buffer_def
  proof (intro allI impI)
    fix j :: nat assume j: "j < 128"
    have a: "unat (dst + of_nat j * 4) = unat dst + 4 * j"
      using d(2) j by (simp add: unat_word_ariths unat_of_nat)
    have b: "unat (dst + of_nat j * 4 + 4) = unat dst + 4 * j + 4"
    proof -
      have "unat (dst + of_nat j * 4) + unat (4 :: u32) < 2 ^ LENGTH(32)" unfolding a using d(2) j by simp
      from unat_add_lem [THEN iffD1, OF this] show ?thesis unfolding a by simp
    qed
    have "\<not> dst + of_nat j * 4 + 4 < dst + of_nat j * 4" "\<not> dst + of_nat j * 4 < UTEMP"
      "\<not> UTOP < dst + of_nat j * 4 + 4"
      unfolding word_less_nat_alt a b u using d(1,2) j mult_le_mono2 [of 1 "Suc n" 512] by linarith+
    moreover have "unat (dst + of_nat j * 4) mod 4 = 0" unfolding a using d(3) by simp
    ultimately show "\<not> is_illegal_va_range (dst + of_nat j * 4) 4 \<and> unat (dst + of_nat j * 4) mod 4 = 0"
      by (simp add: is_illegal_va_range_def)
  qed
qed

lemma buffer_bound: "buffer_ok dst n \<Longrightarrow> 512 * n \<le> 2 ^ 32"
  using unsigned_less [of UTOP, where ?'a = nat] by (simp add: buffer_ok_def)

text \<open>The memory after \<open>n\<close> sectors from \<open>secno\<close> on have come to \<open>dst\<close>, and the disk after they have been written.\<close>

definition sectors_in :: "(u32 \<Rightarrow> nat \<Rightarrow> u8) \<Rightarrow> u32 \<Rightarrow> u32 \<Rightarrow> nat \<Rightarrow> mem \<Rightarrow> mem" where
  "sectors_in disk secno dst n m = (\<lambda>x. if unat (x - dst) < 512 * n
     then disk (secno + of_nat (unat (x - dst) div 512)) (unat (x - dst) mod 512) else m x)"

definition sectors_out :: "mem \<Rightarrow> u32 \<Rightarrow> u32 \<Rightarrow> nat \<Rightarrow> (u32 \<Rightarrow> nat \<Rightarrow> u8) \<Rightarrow> u32 \<Rightarrow> nat \<Rightarrow> u8" where
  "sectors_out m secno src n disk = (\<lambda>sec i. if unat (sec - secno) < n \<and> i < 512
     then m (src + (sec - secno) * 512 + of_nat i) else disk sec i)"

lemma sectors_in_Suc:
  assumes "512 * Suc n \<le> 2 ^ 32"
  shows "sectors_in disk (secno + 1) (dst + 512) n (\<lambda>x. if unat (x - dst) < 512 then disk secno (unat (x - dst)) else m x) =
    sectors_in disk secno dst (Suc n) m"
proof
  fix x
  let ?u = "unat (x - dst)"
  have e: "x - (dst + 512) = (x - dst) - of_nat 512" by (simp add: algebra_simps)
  have b: "512 + 512 * n \<le> 2 ^ 32" using assms by simp
  have less: "unat (x - (dst + 512)) < 512 * n \<longleftrightarrow> 512 \<le> ?u \<and> ?u < 512 + 512 * n"
    unfolding e by (rule unat_minus_less [OF b])
  show "sectors_in disk (secno + 1) (dst + 512) n
      (\<lambda>x. if unat (x - dst) < 512 then disk secno (unat (x - dst)) else m x) x = sectors_in disk secno dst (Suc n) m x"
  proof (cases "512 \<le> ?u \<and> ?u < 512 + 512 * n")
    case True
    have "512 \<le> x - dst" using True by (simp add: word_le_nat_alt)
    then have u: "unat (x - (dst + 512)) = ?u - 512" unfolding e by (simp add: unat_sub)
    obtain v where v: "?u = 512 + v" using le_Suc_ex True by blast
    have "?u div 512 = Suc (v div 512)" "?u mod 512 = v mod 512" unfolding v by simp_all
    then show ?thesis using True less by (simp add: sectors_in_def u v add.assoc)
  next
    case False
    then show ?thesis using less by (auto simp: sectors_in_def)
  qed
qed

lemma sectors_out_Suc:
  assumes "Suc n \<le> 2 ^ 32"
  shows "sectors_out m (secno + 1) (src + 512) n
      (disk(secno := (\<lambda>i. if i < 512 then m (src + of_nat i) else disk secno i))) = sectors_out m secno src (Suc n) disk"
proof (intro ext)
  fix sec i
  have e: "sec - (secno + 1) = (sec - secno) - of_nat 1" by simp
  have less: "unat (sec - (secno + 1)) < n \<longleftrightarrow> 1 \<le> unat (sec - secno) \<and> unat (sec - secno) < 1 + n"
    unfolding e using assms by (intro unat_minus_less) simp
  have a: "src + 512 + (sec - (secno + 1)) * 512 = src + (sec - secno) * 512" by (simp add: algebra_simps)
  have z: "unat (sec - secno) = 0 \<longleftrightarrow> sec = secno" by (simp add: unat_eq_0)
  show "sectors_out m (secno + 1) (src + 512) n
      (disk(secno := (\<lambda>i. if i < 512 then m (src + of_nat i) else disk secno i))) sec i = sectors_out m secno src (Suc n) disk sec i"
  proof (cases "sec = secno")
    case True
    then show ?thesis using less by (simp add: sectors_out_def)
  next
    case False
    then have "1 \<le> unat (sec - secno)" using z by simp
    then show ?thesis using False less by (simp add: sectors_out_def a)
  qed
qed

lemma started_sector:
  assumes "diskno < 2" "secno < 0x10000000"
  shows "unit_sector (regs_for diskno secno a) = a_disk a (unat diskno) secno"
    "a_disk (put_sector f (regs_for diskno secno a)) = (a_disk a)(unat diskno := (a_disk a (unat diskno))(secno := f))"
  using regs_for_unit(1) [OF assms(1)] regs_for_sector [OF assms] by (simp_all add: unit_sector_def put_sector_def)

lemma loop_numbers:
  fixes secno limit :: u32
  assumes "unat secno + Suc n = unat limit" "unat limit \<le> 0x10000000"
  shows "secno < limit" "unat (secno + 1) + n = unat limit" "secno < 0x10000000" "SECT_SIZE div 4 = Suc 127"
proof -
  show "secno < limit" "secno < 0x10000000" using assms by (simp_all add: word_less_nat_alt)
  have "unat secno + unat (1 :: u32) < 2 ^ LENGTH(32)" using assms by simp
  from unat_add_lem [THEN iffD1, OF this] show "unat (secno + 1) + n = unat limit" using assms(1) by simp
  show "SECT_SIZE div 4 = Suc 127" by (simp add: SECT_SIZE_def)
qed

lemma read_sectors_ok:
  assumes "ata_device p view busy" "diskno < 2" "unat limit \<le> 0x10000000"
  shows "unat secno + n = unat limit \<Longrightarrow> buffer_ok (dst + offset) n \<Longrightarrow>
    \<exists>d'. read_sectors p diskno secno limit dst offset m d =
      Some (sectors_in (a_disk (view d) (unat diskno)) secno (dst + offset) n m, d') \<and> a_disk (view d') = a_disk (view d)"
proof (induction n arbitrary: secno offset m d)
  case 0
  then have "secno = limit" by (simp add: word_unat_eq_iff)
  then show ?case by (subst read_sectors.simps) (simp add: sectors_in_def)
next
  case (Suc n)
  note l = loop_numbers [OF Suc.prems(1) assms(3)] and b = buffer_sector [OF Suc.prems(2)]
  obtain d1 where d1: "start_sector p diskno secno MALTA_IDE_CMD_PIO_READ d = Some d1" "busy d1 = 0"
    "view d1 = (regs_for diskno secno (view d))\<lparr>a_phase := Data_in 0\<rparr>"
    using start_sector_ok(1) [OF assms(1,2)] by blast
  have "a_phase (view d1) = Data_in 0" by (simp add: d1(3))
  from read_words_ok [OF assms(1) b(1) d1(2) this, of 127 m] obtain d2 where
    d2: "read_words p (dst + offset) 0 (Suc 127) m d1 = Some (\<lambda>x. if unat (x - (dst + offset)) < 512
        then unit_sector (view d1) (unat (x - (dst + offset))) else m x, d2)" "view d2 = (view d1)\<lparr>a_phase := Idle\<rparr>" by auto
  let ?m = "\<lambda>x. if unat (x - (dst + offset)) < 512
    then a_disk (view d) (unat diskno) secno (unat (x - (dst + offset))) else m x"
  let ?d3 = "snd (in8 p MALTA_IDE_STATUS d2)"
  have d3: "a_disk (view ?d3) = a_disk (view d)" by (simp add: ata_status(3) [OF assms(1)] d2(2) d1(3))
  have u: "unit_sector (view d1) = a_disk (view d) (unat diskno) secno"
    unfolding d1(3) by (simp add: started_sector(1) [OF assms(2) l(3)])
  have "read_sectors p diskno secno limit dst offset m d =
      read_sectors p diskno (secno + 1) limit dst (offset + 512) ?m ?d3"
    using d2(1) unfolding u by (subst read_sectors.simps)
      (simp add: l(1,4) d1(1) io_regs SECT_SIZE_def del: read_words.simps split: prod.splits)
  moreover have "buffer_ok (dst + (offset + 512)) n" using b(2) by (simp add: add.assoc)
  from Suc.IH [OF l(2) this, of ?m ?d3] obtain d' where
    "read_sectors p diskno (secno + 1) limit dst (offset + 512) ?m ?d3 =
      Some (sectors_in (a_disk (view d) (unat diskno)) (secno + 1) (dst + (offset + 512)) n ?m, d')"
    "a_disk (view d') = a_disk (view d)" unfolding d3 by blast
  moreover have "512 * Suc n \<le> 2 ^ 32" by (rule buffer_bound [OF Suc.prems(2)])
  from sectors_in_Suc [OF this, of "a_disk (view d) (unat diskno)" secno "dst + offset" m]
  have "sectors_in (a_disk (view d) (unat diskno)) (secno + 1) (dst + (offset + 512)) n ?m =
      sectors_in (a_disk (view d) (unat diskno)) secno (dst + offset) (Suc n) m" by (simp add: add.assoc)
  ultimately show ?case by metis
qed

lemma write_sectors_ok:
  assumes "ata_device p view busy" "diskno < 2" "unat limit \<le> 0x10000000"
  shows "unat secno + n = unat limit \<Longrightarrow> buffer_ok (src + offset) n \<Longrightarrow>
    \<exists>d'. write_sectors p diskno secno limit src offset m d = Some d' \<and>
      a_disk (view d') = (a_disk (view d))(unat diskno :=
        sectors_out m secno (src + offset) n (a_disk (view d) (unat diskno)))"
proof (induction n arbitrary: secno offset d)
  case 0
  then have "secno = limit" by (simp add: word_unat_eq_iff)
  then show ?case by (subst write_sectors.simps) (simp add: sectors_out_def)
next
  case (Suc n)
  note l = loop_numbers [OF Suc.prems(1) assms(3)] and b = buffer_sector [OF Suc.prems(2)]
  obtain d1 where d1: "start_sector p diskno secno MALTA_IDE_CMD_PIO_WRITE d = Some d1" "busy d1 = 0"
    "view d1 = (regs_for diskno secno (view d))\<lparr>a_phase := Data_out 0\<rparr>"
    using start_sector_ok(2) [OF assms(1,2)] by blast
  have "a_phase (view d1) = Data_out 0" by (simp add: d1(3))
  let ?old = "a_disk (view d) (unat diskno)"
  let ?f = "\<lambda>i. if i < 512 then m (src + offset + of_nat i) else ?old secno i"
  have u: "unit_sector (view d1) = ?old secno"
    unfolding d1(3) by (simp add: started_sector(1) [OF assms(2) l(3)])
  from write_words_ok [OF assms(1) b(1) d1(2) \<open>a_phase (view d1) = Data_out 0\<close>, of 127 m] obtain d2 where
    d2: "write_words p (src + offset) 0 (Suc 127) m d1 = Some d2" "view d2 = (put_sector ?f (view d1))\<lparr>a_phase := Idle\<rparr>"
    unfolding u by auto
  let ?d3 = "snd (in8 p MALTA_IDE_STATUS d2)"
  have d3: "a_disk (view ?d3) = (a_disk (view d))(unat diskno := ?old(secno := ?f))"
    by (simp add: ata_status(3) [OF assms(1)] d2(2) d1(3) started_sector(2) [OF assms(2) l(3)])
  have "write_sectors p diskno secno limit src offset m d =
      write_sectors p diskno (secno + 1) limit src (offset + 512) m ?d3"
    using d2(1) by (subst write_sectors.simps)
      (simp add: l(1,4) d1(1) io_regs SECT_SIZE_def del: write_words.simps split: prod.splits)
  moreover have "buffer_ok (src + (offset + 512)) n" using b(2) by (simp add: add.assoc)
  from Suc.IH [OF l(2) this, of ?d3] obtain d' where
    "write_sectors p diskno (secno + 1) limit src (offset + 512) m ?d3 = Some d'"
    "a_disk (view d') = (a_disk (view d))(unat diskno :=
       sectors_out m (secno + 1) (src + (offset + 512)) n (?old(secno := ?f)))" unfolding d3 fun_upd_same fun_upd_upd by blast
  moreover have "Suc n \<le> 2 ^ 32" using l(2) assms(3) by simp
  from sectors_out_Suc [OF this, of m secno "src + offset" ?old]
  have "sectors_out m (secno + 1) (src + (offset + 512)) n (?old(secno := ?f)) =
      sectors_out m secno (src + offset) (Suc n) ?old" by (simp add: add.assoc)
  ultimately show ?case by metis
qed

end
