(* ===== verification/Ide_Props.thy ===== *)
theory Ide_Props
  imports Ide_Inv
begin

unbundle bit_operations_syntax

text \<open>
  The driver moves sectors: with a disk that follows the documented protocol, \<^verbatim>\<open>ide_read\<close> and
  \<^verbatim>\<open>ide_write\<close> do what \<open>disk_read\<close> and \<open>disk_write\<close> of the block cache say.
\<close>

section \<open>A disk\<close>

text \<open>
  A device that follows the protocol and stays busy for three reads of its status after every
  command: its registers, and how long it is still busy.
\<close>

definition set_reg :: "u32 \<Rightarrow> u8 \<Rightarrow> ata \<Rightarrow> ata" where
  "set_reg pa v a =
     (if pa = MALTA_IDE_NSECT then a\<lparr>a_nsect := v\<rparr>
      else if pa = MALTA_IDE_LBAL then a\<lparr>a_lbal := v\<rparr>
      else if pa = MALTA_IDE_LBAM then a\<lparr>a_lbam := v\<rparr>
      else if pa = MALTA_IDE_LBAH then a\<lparr>a_lbah := v\<rparr>
      else if pa = MALTA_IDE_DEVICE then a\<lparr>a_device := v\<rparr>
      else a\<lparr>a_phase := (if v = MALTA_IDE_CMD_PIO_READ then Data_in 0
                        else if v = MALTA_IDE_CMD_PIO_WRITE then Data_out 0 else Idle)\<rparr>)"

fun disk_in :: "ata \<Rightarrow> u32 \<times> ata" where
  "disk_in a = (case a_phase a of
     Data_in k \<Rightarrow> (sector_word a k, a\<lparr>a_phase := (if k = 127 then Idle else Data_in (Suc k))\<rparr>)
   | _ \<Rightarrow> (0, a))"

fun disk_out :: "u32 \<Rightarrow> ata \<Rightarrow> ata" where
  "disk_out w a = (case a_phase a of
     Data_out k \<Rightarrow> (put_sector_word a k w)\<lparr>a_phase := (if k = 127 then Idle else Data_out (Suc k))\<rparr>
   | _ \<Rightarrow> a)"

definition disk_port :: "(ata \<times> nat) port" where
  "disk_port = \<lparr>
     in8 = (\<lambda>pa (a, n). (if n = 0 then 0x40 else 0x80, (a, n - 1))),
     out8 = (\<lambda>pa v (a, n). (set_reg pa v a, if pa = MALTA_IDE_STATUS then 3 else n)),
     in32 = (\<lambda>pa (a, n). (fst (disk_in a), (snd (disk_in a), n))),
     out32 = (\<lambda>pa w (a, n). (disk_out w a, n))\<rparr>"

lemma disk_port_ata: "ata_device disk_port fst snd"
  unfolding ata_device_def
proof (intro conjI allI impI; (elim conjE)?)
  fix d :: "ata \<times> nat" and k w v
  show "(fst (in8 disk_port MALTA_IDE_STATUS d) AND MALTA_IDE_BUSY = 0) = (snd d = 0)"
    by (cases d) (simp add: disk_port_def MALTA_IDE_BUSY_def)
qed (auto simp: disk_port_def set_reg_def ide_regs MALTA_IDE_CMD_PIO_READ_def MALTA_IDE_CMD_PIO_WRITE_def
       split: prod.splits)

section \<open>Properties\<close>

text \<open>
  C34. With a disk that follows the documented protocol, \<^verbatim>\<open>ide_read\<close> and \<^verbatim>\<open>ide_write\<close> return, for
  sector numbers of 28 bits and a word-aligned buffer in user memory. Reading leaves the disk
  alone and puts the sectors into the buffer exactly as the block cache's \<open>disk_read\<close> says;
  writing makes the disk what \<open>disk_write\<close> says and changes no other unit.
\<close>

theorem ide_refines_disk:
  assumes "ata_device p view busy" "diskno < 2" "unat secno + unat nsecs \<le> 0x10000000"
    and "buffer_ok buf (unat nsecs)" "f_disk s = a_disk (view d) (unat diskno)"
  shows "(\<exists>d'. ide_read p diskno secno buf nsecs (f_mem s) d = Some (f_mem (disk_read secno buf nsecs s), d') \<and>
      a_disk (view d') = a_disk (view d)) \<and>
    (\<exists>d'. ide_write p diskno secno buf nsecs (f_mem s) d = Some d' \<and>
      a_disk (view d') = (a_disk (view d))(unat diskno := f_disk (disk_write secno buf nsecs s)))"
proof -
  have "unat nsecs + unat secno < 2 ^ LENGTH(32)" using assms(3) by simp
  from unat_add_lem [THEN iffD1, OF this] have l: "unat secno + unat nsecs = unat (nsecs + secno)" by simp
  then have lim: "unat (nsecs + secno) \<le> 0x10000000" using assms(3) by simp
  have b: "buffer_ok (buf + 0) (unat nsecs)" using assms(4) by simp
  have "sectors_in (f_disk s) secno buf (unat nsecs) (f_mem s) = f_mem (disk_read secno buf nsecs s)"
    unfolding sectors_in_def disk_read_def SECT_SIZE_def by simp
  moreover have "sectors_out (f_mem s) secno buf (unat nsecs) (f_disk s) = f_disk (disk_write secno buf nsecs s)"
    unfolding sectors_out_def disk_write_def SECT_SIZE_def word_less_nat_alt by simp
  ultimately show ?thesis
    using read_sectors_ok [OF assms(1,2) lim l b, of "f_mem s" d]
      write_sectors_ok [OF assms(1,2) lim l b, of "f_mem s" d] assms(2)
    unfolding assms(5) [symmetric] by (simp add: ide_read_def ide_write_def not_le)
qed

text \<open>A disk whose bytes are numbered within each sector, and a server with an empty memory.\<close>

definition ex_disk :: "ata \<times> nat" where
  "ex_disk = (\<lparr>a_nsect = 0, a_lbal = 0, a_lbam = 0, a_lbah = 0, a_device = 0, a_phase = Idle,
     a_disk = (\<lambda>_ _ i. of_nat i)\<rparr>, 1)"

definition ex_server :: fsrv where
  "ex_server = \<lparr>f_mem = (\<lambda>_. 0), f_pte = (\<lambda>_. 0), f_disk = (\<lambda>_ i. of_nat i), f_oom = (\<lambda>_. False), f_calls = 0,
     super = 0, bitmap = 0\<rparr>"

lemma ide_refines_disk_witness:
  "\<exists>m d'. ide_read disk_port 0 8 0x10001000 8 (f_mem ex_server) ex_disk = Some (m, d') \<and> m 0x10001003 = 3"
proof -
  have "buffer_ok 0x10001000 (unat (8 :: u32))" by (simp add: buffer_ok_def mos_consts)
  moreover have "f_disk ex_server = a_disk (fst ex_disk) (unat (0 :: u32))" by (simp add: ex_server_def ex_disk_def)
  moreover have "f_mem (disk_read 8 0x10001000 8 ex_server) 0x10001003 = 3"
    by (simp add: disk_read_def SECT_SIZE_def ex_server_def)
  ultimately show ?thesis
    using ide_refines_disk [OF disk_port_ata, of 0 8 8 "0x10001000" ex_server ex_disk] by auto
qed

end
