(* ===== verification/Serv.thy ===== *)
theory Serv
  imports Fs
begin

unbundle bit_operations_syntax

text \<open>
  The request loop of the file server, \<^verbatim>\<open>fs/serv.c\<close>. The state adds the open file table and the
  list of the replies sent with \<^verbatim>\<open>ipc_send\<close>, oldest first, to the state of the file system.
  \<^verbatim>\<open>pageref\<close> (\<^verbatim>\<open>user/lib/pageref.c\<close>) reads the kernel's reference counts, which change with what
  the clients do: the counts during one request are the argument \<open>refs\<close>. A request arrives as
  the value, sender and permission of \<^verbatim>\<open>ipc_recv\<close> and the contents of the page it maps at \<^verbatim>\<open>REQVA\<close>.
\<close>

section \<open>State\<close>

definition MAXOPEN :: nat where [mos_consts]: "MAXOPEN = 1024"
definition FILEVA :: u32 where [mos_consts]: "FILEVA = 0x60000000"
definition REQVA :: u32 where [mos_consts]: "REQVA = 0x0ffff000"
definition MAXPATHLEN :: u32 where [mos_consts]: "MAXPATHLEN = 1024"

definition FSREQ_OPEN :: u32 where [mos_consts]: "FSREQ_OPEN = 0"
definition FSREQ_MAP :: u32 where [mos_consts]: "FSREQ_MAP = 1"
definition FSREQ_SET_SIZE :: u32 where [mos_consts]: "FSREQ_SET_SIZE = 2"
definition FSREQ_CLOSE :: u32 where [mos_consts]: "FSREQ_CLOSE = 3"
definition FSREQ_DIRTY :: u32 where [mos_consts]: "FSREQ_DIRTY = 4"
definition FSREQ_REMOVE :: u32 where [mos_consts]: "FSREQ_REMOVE = 5"
definition FSREQ_SYNC :: u32 where [mos_consts]: "FSREQ_SYNC = 6"
definition MAX_FSREQNO :: u32 where [mos_consts]: "MAX_FSREQNO = 7"

record opent =
  o_file :: u32
  o_fileid :: u32
  o_mode :: u32
  o_ff :: u32

datatype reply = Reply (rp_whom: u32) (rp_value: "errno + u32") (rp_srcva: u32) (rp_perm: u32)

record srv =
  fs :: fsrv
  opentab :: "opent list"
  sent :: "reply list"

type_synonym refs = "u32 \<Rightarrow> u16"

definition ipc_send :: "u32 \<Rightarrow> errno + u32 \<Rightarrow> u32 \<Rightarrow> u32 \<Rightarrow> srv \<Rightarrow> srv" where
  "ipc_send whom v srcva perm s = s\<lparr>sent := sent s @ [Reply whom v srcva perm]\<rparr>"

definition pageref :: "refs \<Rightarrow> u32 \<Rightarrow> fsrv \<Rightarrow> nat" where
  "pageref refs va s = (if va_is_mapped s va then unat (refs va) else 0)"

section \<open>The open file table\<close>

definition serve_init :: "opent list" where
  "serve_init = map (\<lambda>i. \<lparr>o_file = 0, o_fileid = of_nat i, o_mode = 0,
     o_ff = FILEVA + of_nat i * BLOCK_SIZE\<rparr>) [0..<MAXOPEN]"

text \<open>
  The entries from index \<open>i\<close> on; the result is the index of the entry. A page that is not
  mapped is allocated, one that nobody else has is used again; both are zeroed.
\<close>

fun open_scan :: "refs \<Rightarrow> nat \<Rightarrow> opent list \<Rightarrow> fsrv \<Rightarrow> ((errno + nat) \<times> fsrv) option" where
  "open_scan refs i [] s = Some (Inl E_MAX_OPEN, s)"
| "open_scan refs i (e # es) s =
     (let n = pageref refs (o_ff e) s in
      if n \<ge> 2 then open_scan refs (Suc i) es s
      else
        (case (if n = 0 then mem_alloc (o_ff e) (PTE_D OR PTE_LIBRARY) s else (Inr (), s)) of
           (Inl er, s) \<Rightarrow> Some (Inl er, s)
         | (Inr _, s) \<Rightarrow> do {
             (_, m) \<leftarrow> memset (o_ff e) 0 BLOCK_SIZE (f_mem s);
             Some (Inr i, s\<lparr>f_mem := m\<rparr>)
           }))"

definition open_alloc :: "refs \<Rightarrow> srv \<Rightarrow> ((errno + nat) \<times> srv) option" where
  "open_alloc refs s = do {
     (r, f) \<leftarrow> open_scan refs 0 (opentab s) (fs s);
     Some (r, s\<lparr>fs := f\<rparr>)
   }"

definition open_lookup :: "refs \<Rightarrow> u32 \<Rightarrow> srv \<Rightarrow> errno + opent" where
  "open_lookup refs fileid s =
     (if unat fileid \<ge> MAXOPEN then Inl E_INVAL
      else (let o' = opentab s ! unat fileid in
            if pageref refs (o_ff o') (fs s) \<le> 1 then Inl E_INVAL else Inr o'))"

section \<open>The requests\<close>

definition lift_fs :: "(fsrv \<Rightarrow> ('a \<times> fsrv) option) \<Rightarrow> srv \<Rightarrow> ('a \<times> srv) option" where
  "lift_fs f s = do { (r, t) \<leftarrow> f (fs s); Some (r, s\<lparr>fs := t\<rparr>) }"

definition lift_unit :: "(fsrv \<Rightarrow> fsrv option) \<Rightarrow> srv \<Rightarrow> srv option" where
  "lift_unit f s = do { t \<leftarrow> f (fs s); Some (s\<lparr>fs := t\<rparr>) }"

text \<open>The path in a request: the bytes up to the first zero.\<close>

partial_function (option) rd_str :: "u32 \<Rightarrow> fsrv \<Rightarrow> u8 list option" where
  "rd_str a s = do {
     b \<leftarrow> rd8 a s;
     if b = 0 then Some [] else do { bs \<leftarrow> rd_str (a + 1) s; Some (b # bs) }
   }"

text \<open>The assignment \<^verbatim>\<open>ff->f_file = *f\<close>.\<close>

definition copy_file :: "u32 \<Rightarrow> u32 \<Rightarrow> fsrv \<Rightarrow> fsrv option" where
  "copy_file dst src s =
     (if va_is_mapped s dst \<and> va_is_mapped s src
      then do { (_, m) \<leftarrow> memcpy dst src FILE_STRUCT_SIZE (f_mem s); Some (s\<lparr>f_mem := m\<rparr>) }
      else None)"

definition req_omode :: "u32 \<Rightarrow> u32" where "req_omode rq = rq + 1024"
definition remove_type :: "u32 \<Rightarrow> u32" where "remove_type rq = rq + 1024"
definition req_offset :: "u32 \<Rightarrow> u32" where "req_offset rq = rq + 4"
definition req_size :: "u32 \<Rightarrow> u32" where "req_size rq = rq + 4"

definition fd_dev_id :: "u32 \<Rightarrow> u32" where "fd_dev_id ff = ff"
definition fd_omode :: "u32 \<Rightarrow> u32" where "fd_omode ff = ff + 8"
definition f_fileid :: "u32 \<Rightarrow> u32" where "f_fileid ff = ff + 12"
definition f_file :: "u32 \<Rightarrow> u32" where "f_file ff = ff + 16"

definition SO_CREAT :: u32 where [mos_consts]: "SO_CREAT = 0x0100"
definition SO_TRUNC :: u32 where [mos_consts]: "SO_TRUNC = 0x0200"
definition SO_MKDIR :: u32 where [mos_consts]: "SO_MKDIR = 0x0800"

text \<open>
  One of the two creations of \<^verbatim>\<open>serve_open\<close>: the error to be reported, if the file is to be
  created, cannot be and does not exist.
\<close>

definition try_create :: "u32 \<Rightarrow> u32 \<Rightarrow> u8 list \<Rightarrow> srv \<Rightarrow> (errno option \<times> srv) option" where
  "try_create flag omode path s =
     (if omode AND flag = 0 then Some (None, s)
      else do {
        (r, s) \<leftarrow> lift_fs (file_create omode path) s;
        case r of
          Inl e \<Rightarrow> Some (if e \<noteq> E_FILE_EXISTS then Some e else None, s)
        | Inr _ \<Rightarrow> Some (None, s)
      })"

definition fill_ff :: "u32 \<Rightarrow> u32 \<Rightarrow> u32 \<Rightarrow> u32 \<Rightarrow> fsrv \<Rightarrow> fsrv option" where
  "fill_ff ff f fileid omode s = do {
     s \<leftarrow> copy_file (f_file ff) f s;
     s \<leftarrow> wr32 (f_fileid ff) fileid s;
     s \<leftarrow> wr32 (fd_omode ff) omode s;
     wr32 (fd_dev_id ff) 0x66 s
   }"

definition serve_open :: "refs \<Rightarrow> u32 \<Rightarrow> u32 \<Rightarrow> srv \<Rightarrow> srv option" where
  "serve_open refs envid rq s = do {
     (r, s) \<leftarrow> open_alloc refs s;
     case r of
       Inl e \<Rightarrow> Some (ipc_send envid (Inl e) 0 0 s)
     | Inr i \<Rightarrow> do {
         omode \<leftarrow> rd32 (req_omode rq) (fs s);
         path \<leftarrow> rd_str rq (fs s);
         (c, s) \<leftarrow> try_create SO_CREAT omode path s;
         (c, s) \<leftarrow> (case c of Some e \<Rightarrow> Some (Some e, s) | None \<Rightarrow> try_create SO_MKDIR omode path s);
         case c of
           Some e \<Rightarrow> Some (ipc_send envid (Inl e) 0 0 s)
         | None \<Rightarrow> do {
             (r, s) \<leftarrow> lift_fs (file_open path) s;
             case r of
               Inl e \<Rightarrow> Some (ipc_send envid (Inl e) 0 0 s)
             | Inr f \<Rightarrow> do {
                 let s = s\<lparr>opentab := (opentab s)[i := (opentab s ! i)\<lparr>o_file := f\<rparr>]\<rparr>;
                 s \<leftarrow> (if omode AND SO_TRUNC \<noteq> 0 then lift_unit (file_set_size f 0) s else Some s);
                 let e = opentab s ! i;
                 s \<leftarrow> lift_unit (fill_ff (o_ff e) f (o_fileid e) omode) s;
                 let s = s\<lparr>opentab := (opentab s)[i := (opentab s ! i)\<lparr>o_mode := omode\<rparr>]\<rparr>;
                 Some (ipc_send envid (Inr 0) (o_ff e) (PTE_D OR PTE_LIBRARY) s)
               }
           }
       }
   }"

definition serve_map :: "refs \<Rightarrow> u32 \<Rightarrow> u32 \<Rightarrow> srv \<Rightarrow> srv option" where
  "serve_map refs envid rq s = do {
     fileid \<leftarrow> rd32 rq (fs s);
     case open_lookup refs fileid s of
       Inl e \<Rightarrow> Some (ipc_send envid (Inl e) 0 0 s)
     | Inr o' \<Rightarrow> do {
         off \<leftarrow> rd32 (req_offset rq) (fs s);
         (r, s) \<leftarrow> lift_fs (file_get_block (o_file o') (off div BLOCK_SIZE)) s;
         case r of
           Inl e \<Rightarrow> Some (ipc_send envid (Inl e) 0 0 s)
         | Inr blk \<Rightarrow> Some (ipc_send envid (Inr 0) blk (PTE_D OR PTE_LIBRARY) s)
       }
   }"

definition serve_set_size :: "refs \<Rightarrow> u32 \<Rightarrow> u32 \<Rightarrow> srv \<Rightarrow> srv option" where
  "serve_set_size refs envid rq s = do {
     fileid \<leftarrow> rd32 rq (fs s);
     case open_lookup refs fileid s of
       Inl e \<Rightarrow> Some (ipc_send envid (Inl e) 0 0 s)
     | Inr o' \<Rightarrow> do {
         size \<leftarrow> rd32 (req_size rq) (fs s);
         s \<leftarrow> lift_unit (file_set_size (o_file o') size) s;
         Some (ipc_send envid (Inr 0) 0 0 s)
       }
   }"

definition serve_close :: "refs \<Rightarrow> u32 \<Rightarrow> u32 \<Rightarrow> srv \<Rightarrow> srv option" where
  "serve_close refs envid rq s = do {
     fileid \<leftarrow> rd32 rq (fs s);
     case open_lookup refs fileid s of
       Inl e \<Rightarrow> Some (ipc_send envid (Inl e) 0 0 s)
     | Inr o' \<Rightarrow> do {
         s \<leftarrow> lift_unit (file_close (o_file o')) s;
         Some (ipc_send envid (Inr 0) 0 0 s)
       }
   }"

definition serve_remove :: "u32 \<Rightarrow> u32 \<Rightarrow> srv \<Rightarrow> srv option" where
  "serve_remove envid rq s = do {
     type \<leftarrow> rd32 (remove_type rq) (fs s);
     path \<leftarrow> rd_str rq (fs s);
     (r, s) \<leftarrow> lift_fs (file_remove path type) s;
     Some (ipc_send envid (map_sum id (\<lambda>_. 0) r) 0 0 s)
   }"

definition serve_dirty :: "refs \<Rightarrow> u32 \<Rightarrow> u32 \<Rightarrow> srv \<Rightarrow> srv option" where
  "serve_dirty refs envid rq s = do {
     fileid \<leftarrow> rd32 rq (fs s);
     case open_lookup refs fileid s of
       Inl e \<Rightarrow> Some (ipc_send envid (Inl e) 0 0 s)
     | Inr o' \<Rightarrow> do {
         off \<leftarrow> rd32 (req_offset rq) (fs s);
         (r, s) \<leftarrow> lift_fs (file_dirty (o_file o') off) s;
         Some (ipc_send envid (map_sum id (\<lambda>_. 0) r) 0 0 s)
       }
   }"

definition serve_sync :: "u32 \<Rightarrow> srv \<Rightarrow> srv option" where
  "serve_sync envid s = do {
     s \<leftarrow> lift_unit fs_sync s;
     Some (ipc_send envid (Inr 0) 0 0 s)
   }"

section \<open>The loop\<close>

definition serve_table :: "refs \<Rightarrow> u32 \<Rightarrow> u32 \<Rightarrow> u32 \<Rightarrow> srv \<Rightarrow> srv option" where
  "serve_table refs req =
     (if req = FSREQ_OPEN then serve_open refs
      else if req = FSREQ_MAP then serve_map refs
      else if req = FSREQ_SET_SIZE then serve_set_size refs
      else if req = FSREQ_CLOSE then serve_close refs
      else if req = FSREQ_DIRTY then serve_dirty refs
      else if req = FSREQ_REMOVE then serve_remove
      else (\<lambda>envid _. serve_sync envid))"

record request =
  rq_no :: u32
  rq_whom :: u32
  rq_perm :: u32
  rq_page :: "nat \<Rightarrow> u8"
  rq_refs :: refs

text \<open>\<^verbatim>\<open>ipc_recv\<close>: the page comes to \<^verbatim>\<open>REQVA\<close> when one was sent.\<close>

definition ipc_recv :: "request \<Rightarrow> fsrv \<Rightarrow> fsrv" where
  "ipc_recv r s =
     (if rq_perm r AND PTE_V = 0 then s
      else s\<lparr>f_pte := (f_pte s)(VPN REQVA := rq_perm r OR PTE_C_CACHEABLE OR PTE_V),
             f_mem := (\<lambda>a. if unat (a - REQVA) < 4096 then rq_page r (unat (a - REQVA)) else f_mem s a)\<rparr>)"

definition unmap_req :: "srv \<Rightarrow> srv option" where
  "unmap_req s = (case mem_unmap REQVA (fs s) of (Inl e, t) \<Rightarrow> None | (Inr _, t) \<Rightarrow> Some (s\<lparr>fs := t\<rparr>))"

definition serve_request :: "request \<Rightarrow> srv \<Rightarrow> srv option" where
  "serve_request r s =
     (let s = s\<lparr>fs := ipc_recv r (fs s)\<rparr> in
      if rq_perm r AND PTE_V = 0 then Some s
      else if rq_no r \<ge> MAX_FSREQNO then unmap_req s
      else do {
        s \<leftarrow> serve_table (rq_refs r) (rq_no r) (rq_whom r) REQVA s;
        unmap_req s
      })"

definition serve :: "request list \<Rightarrow> srv \<Rightarrow> srv option" where
  "serve rs s = mfold serve_request rs s"

text \<open>\<^verbatim>\<open>main\<close>: a server that has started on a disk and answers the requests \<open>rs\<close>.\<close>

definition fs_main :: "fsrv \<Rightarrow> request list \<Rightarrow> srv option" where
  "fs_main f rs = do {
     f \<leftarrow> fs_init f;
     serve rs \<lparr>fs = f, opentab = serve_init, sent = []\<rparr>
   }"

end
