(* ===== verification/Serv_Props.thy ===== *)
theory Serv_Props
  imports Serv Fs_Props
begin

unbundle bit_operations_syntax

text \<open>
  The request loop: every well-formed request is answered exactly once, in the order of arrival
  and to its sender; requests about files that are not open are refused without effect.
\<close>

section \<open>One reply per request\<close>

definition answered :: "u32 \<Rightarrow> srv \<Rightarrow> srv \<Rightarrow> bool" where
  "answered envid s s' \<longleftrightarrow> (\<exists>v va perm. sent s' = sent s @ [Reply envid v va perm])"

lemma answered_send [simp]: "sent t = sent s \<Longrightarrow> answered envid s (ipc_send envid v va perm t)"
  by (simp add: answered_def ipc_send_def)

lemma bindE:
  "Option.bind m f = Some y \<Longrightarrow> (\<And>x. m = Some x \<Longrightarrow> f x = Some y \<Longrightarrow> P) \<Longrightarrow> P"
  by (cases m) auto

lemma lift_sent [dest]:
  "lift_fs f s = Some (r, s') \<Longrightarrow> sent s' = sent s"
  "lift_unit g s = Some s' \<Longrightarrow> sent s' = sent s"
  by (auto simp: lift_fs_def lift_unit_def option_bind_Some_conv)

lemma open_alloc_sent: "open_alloc refs s = Some (r, s') \<Longrightarrow> sent s' = sent s"
  by (auto simp: open_alloc_def option_bind_Some_conv)

lemma try_create_sent: "try_create flag omode path s = Some (c, s') \<Longrightarrow> sent s' = sent s"
  by (auto simp: try_create_def elim!: bindE split: if_split_asm sum.split_asm dest: lift_sent(1))

lemmas serve_defs = serve_map_def serve_set_size_def serve_close_def serve_remove_def serve_dirty_def
  serve_sync_def

lemma serve_simple_answered:
  "serve_map refs envid rq s = Some s' \<Longrightarrow> answered envid s s'"
  "serve_set_size refs envid rq s = Some s' \<Longrightarrow> answered envid s s'"
  "serve_close refs envid rq s = Some s' \<Longrightarrow> answered envid s s'"
  "serve_remove envid rq s = Some s' \<Longrightarrow> answered envid s s'"
  "serve_dirty refs envid rq s = Some s' \<Longrightarrow> answered envid s s'"
  "serve_sync envid s = Some s' \<Longrightarrow> answered envid s s'"
  by (auto simp: serve_defs elim!: bindE split: sum.split_asm dest!: lift_sent)

lemma serve_open_answered:
  assumes "serve_open refs envid rq s = Some s'"
  shows "answered envid s s'"
proof -
  from assms obtain r s1 where a: "open_alloc refs s = Some (r, s1)"
    by (auto simp: serve_open_def option_bind_Some_conv)
  note a' = open_alloc_sent [OF a]
  show ?thesis
  proof (cases r)
    case (Inl e)
    then show ?thesis using assms a a' by (auto simp: serve_open_def)
  next
    case (Inr i)
    with assms a show ?thesis
      by (auto simp: serve_open_def Let_def a' elim!: bindE
          split: sum.split_asm option.split_asm if_split_asm dest!: lift_sent try_create_sent)
  qed
qed

lemma serve_table_answered: "serve_table refs req envid rq s = Some s' \<Longrightarrow> answered envid s s'"
  by (auto simp: serve_table_def serve_simple_answered serve_open_answered split: if_splits)

definition well_formed :: "request \<Rightarrow> bool" where
  "well_formed r \<longleftrightarrow> rq_perm r AND PTE_V \<noteq> 0 \<and> rq_no r < MAX_FSREQNO"

lemma unmap_req_sent: "unmap_req s = Some s' \<Longrightarrow> sent s' = sent s"
  by (auto simp: unmap_req_def split: prod.splits sum.splits)

lemma serve_request_sent:
  assumes "serve_request r s = Some s'"
  shows "map rp_whom (sent s') = map rp_whom (sent s) @ (if well_formed r then [rq_whom r] else [])"
proof (cases "well_formed r")
  case True
  with assms obtain t where "serve_table (rq_refs r) (rq_no r) (rq_whom r) REQVA (s\<lparr>fs := ipc_recv r (fs s)\<rparr>) = Some t"
    "unmap_req t = Some s'"
    by (auto simp: serve_request_def well_formed_def Let_def not_le [symmetric] elim!: bindE)
  then show ?thesis
    using True by (auto simp: answered_def dest!: serve_table_answered unmap_req_sent)
next
  case False
  with assms show ?thesis
    by (auto simp: serve_request_def well_formed_def Let_def not_le split: if_split_asm dest!: unmap_req_sent)
qed

section \<open>Requests about files that are not open\<close>

lemma REQVA_page: "unat (a - REQVA) < 4096 \<longleftrightarrow> VPN a = 0xFFFF"
  by (rule offset_in_page) (simp_all add: REQVA_def)

lemma REQVA_VPN: "VPN REQVA = 0xFFFF"
  using REQVA_page [of REQVA] by simp

definition file_id :: "request \<Rightarrow> u32" where
  "file_id r = ld32 (\<lambda>a. rq_page r (unat a)) 0"

lemma request_word:
  assumes "rq_perm r AND PTE_V \<noteq> 0"
  shows "rd32 REQVA (ipc_recv r t) = Some (file_id r)"
proof -
  have "va_is_mapped (ipc_recv r t) REQVA"
    using pte_V_neq(2) [of "rq_perm r"] assms by (simp add: va_is_mapped_def ipc_recv_def)
  moreover have "ld32 (f_mem (ipc_recv r t)) REQVA = file_id r"
    using assms by (simp add: file_id_def ld32_def ipc_recv_def)
  ultimately show ?thesis by (simp add: rd32_def)
qed

lemma unmap_req_eq:
  "unmap_req s = Some (s\<lparr>fs := (fs s)\<lparr>f_pte := (f_pte (fs s))(0xFFFF := 0)\<rparr>\<rparr>)"
proof -
  have "\<not> is_illegal_va REQVA" by (simp add: is_illegal_va_def mos_consts)
  then show ?thesis by (simp add: unmap_req_def mem_unmap_def REQVA_VPN)
qed

lemma refuse_closed:
  assumes "rd32 rq (fs s) = Some i" "open_lookup refs i s = Inl e"
    and "req \<in> {FSREQ_MAP, FSREQ_SET_SIZE, FSREQ_CLOSE, FSREQ_DIRTY}"
  shows "serve_table refs req envid rq s = Some (ipc_send envid (Inl e) 0 0 s)"
proof -
  have d: "FSREQ_MAP \<noteq> FSREQ_OPEN" "FSREQ_SET_SIZE \<notin> {FSREQ_OPEN, FSREQ_MAP}"
    "FSREQ_CLOSE \<notin> {FSREQ_OPEN, FSREQ_MAP, FSREQ_SET_SIZE}"
    "FSREQ_DIRTY \<notin> {FSREQ_OPEN, FSREQ_MAP, FSREQ_SET_SIZE, FSREQ_CLOSE}"
    by (simp_all add: mos_consts)
  from assms(3) consider "req = FSREQ_MAP" | "req = FSREQ_SET_SIZE" | "req = FSREQ_CLOSE" | "req = FSREQ_DIRTY" by blast
  then show ?thesis
    using assms(1,2) d by cases (simp_all add: serve_table_def serve_defs)
qed

lemma ipc_recv_same:
  "f_disk (ipc_recv r t) = f_disk t"
  "(f_pte (ipc_recv r t))(0xFFFF := 0) = (f_pte t)(0xFFFF := (if rq_perm r AND PTE_V = 0 then f_pte t 0xFFFF else 0), 0xFFFF := 0)"
  "VPN a \<noteq> 0xFFFF \<Longrightarrow> f_mem (ipc_recv r t) a = f_mem t a"
  using REQVA_page [of a] by (simp_all add: ipc_recv_def REQVA_VPN)

section \<open>Properties\<close>


text \<open>Two requests on the example disk: one without a page, one about a file that nobody opened.\<close>

definition ex_srv :: srv where
  "ex_srv = \<lparr>fs = ex_fs, opentab = serve_init, sent = []\<rparr>"

definition ex_request :: "u32 \<Rightarrow> u32 \<Rightarrow> request" where
  "ex_request perm whom = \<lparr>rq_no = FSREQ_MAP, rq_whom = whom, rq_perm = perm, rq_page = (\<lambda>_. 0), rq_refs = (\<lambda>_. 2)\<rparr>"

lemma ex_closed: "pageref (rq_refs (ex_request PTE_V w)) (o_ff (opentab ex_srv ! unat (file_id (ex_request PTE_V w))))
    (ipc_recv (ex_request PTE_V w) (fs ex_srv)) = 0"
proof -
  have i: "file_id (ex_request PTE_V w) = 0" by (simp add: file_id_def ex_request_def ld32_def)
  have "0 < MAXOPEN" by (simp add: MAXOPEN_def)
  then have o: "o_ff (opentab ex_srv ! 0) = FILEVA" by (simp add: ex_srv_def serve_init_def)
  have "VPN FILEVA = 0x60000" by (simp add: VPN_div FILEVA_def)
  then have "\<not> va_is_mapped (ipc_recv (ex_request PTE_V w) (fs ex_srv)) FILEVA"
    by (simp add: va_is_mapped_def ipc_recv_def REQVA_VPN ex_srv_def ex_fs_def)
  then show ?thesis by (simp add: pageref_def i o)
qed

text \<open>
  C36. A request to map, resize, close or mark a file that is not open, because its number is out of
  range or nobody but the server has the page of its descriptor, is answered with \<open>E_INVAL\<close>; no
  file, block or table entry changes, and the argument page is unmapped again.
\<close>

theorem closed_file_refused:
  assumes "rq_perm r AND PTE_V \<noteq> 0" "rq_no r \<in> {FSREQ_MAP, FSREQ_SET_SIZE, FSREQ_CLOSE, FSREQ_DIRTY}"
    and "MAXOPEN \<le> unat (file_id r) \<or>
      pageref (rq_refs r) (o_ff (opentab s ! unat (file_id r))) (ipc_recv r (fs s)) \<le> 1"
  shows "\<exists>s'. serve_request r s = Some s' \<and> sent s' = sent s @ [Reply (rq_whom r) (Inl E_INVAL) 0 0] \<and>
    opentab s' = opentab s \<and> f_disk (fs s') = f_disk (fs s) \<and> f_pte (fs s') = (f_pte (fs s))(0xFFFF := 0) \<and>
    (\<forall>a. VPN a \<noteq> 0xFFFF \<longrightarrow> f_mem (fs s') a = f_mem (fs s) a)"
proof -
  let ?s = "s\<lparr>fs := ipc_recv r (fs s)\<rparr>"
  have "open_lookup (rq_refs r) (file_id r) ?s = Inl E_INVAL" using assms(3) by (auto simp: open_lookup_def Let_def)
  from refuse_closed [OF _ this assms(2), of REQVA "rq_whom r"]
  have "serve_table (rq_refs r) (rq_no r) (rq_whom r) REQVA ?s = Some (ipc_send (rq_whom r) (Inl E_INVAL) 0 0 ?s)"
    using request_word [OF assms(1)] by simp
  moreover have "\<not> MAX_FSREQNO \<le> rq_no r" using assms(2) by (auto simp: mos_consts word_le_nat_alt)
  ultimately have "serve_request r s = unmap_req (ipc_send (rq_whom r) (Inl E_INVAL) 0 0 ?s)"
    using assms(1) by (simp add: serve_request_def)
  then show ?thesis
    using ipc_recv_same [where r = r and t = "fs s"] by (simp add: unmap_req_eq ipc_send_def)
qed

lemma closed_file_refused_witness:
  "\<exists>s'. serve_request (ex_request PTE_V 0x800) ex_srv = Some s' \<and> sent s' = [Reply 0x800 (Inl E_INVAL) 0 0]"
proof -
  have r: "rq_perm (ex_request PTE_V 0x800) AND PTE_V \<noteq> 0" "rq_no (ex_request PTE_V 0x800) = FSREQ_MAP"
    "rq_whom (ex_request PTE_V 0x800) = 0x800" "sent ex_srv = []"
    by (simp_all add: ex_request_def ex_srv_def mos_consts)
  show ?thesis
    using closed_file_refused [OF r(1), of ex_srv] ex_closed [of "0x800"] by (auto simp: r(2,3,4))
qed


end
