(* ===== verification/Pipe.thy ===== *)
theory Pipe
  imports Prelude "HOL-Library.Sublist"
begin

text \<open>
  The ring buffer of a pipe, \<^verbatim>\<open>user/lib/pipe.c\<close>, shared by one process in \<^verbatim>\<open>pipe_write\<close> and one in
  \<^verbatim>\<open>pipe_read\<close>. The processes are preempted between any two accesses to the shared \<^verbatim>\<open>struct Pipe\<close>,
  so each loop is a small program with a program counter: the test of the inner \<^verbatim>\<open>while\<close>, the
  access to the byte, and the increment of the position. Whether \<^verbatim>\<open>_pipe_is_closed\<close> says closed
  is up to the environment (\<open>closed\<close>). After a call has returned the process may call again.
\<close>

section \<open>Steps\<close>

definition PIPE_SIZE :: nat where [mos_consts]: "PIPE_SIZE = 32"

datatype pc = Test | Move | Advance | Returned

record pipe =
  p_rpos :: u32
  p_wpos :: u32
  p_buf :: "u8 list"

record psys = pipe +
  w_pc :: pc
  w_i :: nat
  wbuf :: "u8 list"
  r_pc :: pc
  r_i :: nat
  r_n :: nat
  r_byte :: u8
  w_log :: "u8 list"
  r_log :: "u8 list"

text \<open>
  The writer: \<open>wbuf\<close> holds the \<open>n\<close> bytes of the call, \<open>w_i\<close> counts those written; \<open>w_log\<close> are all
  bytes written so far, in all calls.
\<close>

definition pipe_write :: "bool \<Rightarrow> psys \<Rightarrow> psys" where
  "pipe_write closed s =
     (case w_pc s of
        Test \<Rightarrow>
          if w_i s \<ge> length (wbuf s) then s\<lparr>w_pc := Returned\<rparr>
          else if unat (p_wpos s - p_rpos s) \<ge> PIPE_SIZE then (if closed then s\<lparr>w_pc := Returned\<rparr> else s)
          else s\<lparr>w_pc := Move\<rparr>
      | Move \<Rightarrow> s\<lparr>p_buf := (p_buf s)[unat (p_wpos s) mod PIPE_SIZE := wbuf s ! w_i s], w_pc := Advance\<rparr>
      | Advance \<Rightarrow> s\<lparr>p_wpos := p_wpos s + 1, w_log := w_log s @ [wbuf s ! w_i s], w_i := w_i s + 1, w_pc := Test\<rparr>
      | Returned \<Rightarrow> s)"

text \<open>The reader: \<open>r_n\<close> bytes are wanted, \<open>r_i\<close> have been read; \<open>r_log\<close> are all bytes read so far.\<close>

definition pipe_read :: "bool \<Rightarrow> psys \<Rightarrow> psys" where
  "pipe_read closed s =
     (case r_pc s of
        Test \<Rightarrow>
          if r_i s \<ge> r_n s then s\<lparr>r_pc := Returned\<rparr>
          else if p_rpos s \<ge> p_wpos s then (if r_i s \<ge> 1 \<or> closed then s\<lparr>r_pc := Returned\<rparr> else s)
          else s\<lparr>r_pc := Move\<rparr>
      | Move \<Rightarrow> s\<lparr>r_byte := p_buf s ! (unat (p_rpos s) mod PIPE_SIZE), r_pc := Advance\<rparr>
      | Advance \<Rightarrow> s\<lparr>p_rpos := p_rpos s + 1, r_log := r_log s @ [r_byte s], r_i := r_i s + 1, r_pc := Test\<rparr>
      | Returned \<Rightarrow> s)"

inductive pipe_step :: "psys \<Rightarrow> psys \<Rightarrow> bool" where
  writer: "pipe_step s (pipe_write closed s)"
| reader: "pipe_step s (pipe_read closed s)"
| write_call: "w_pc s = Returned \<Longrightarrow> pipe_step s (s\<lparr>w_pc := Test, w_i := 0, wbuf := bs\<rparr>)"
| read_call: "r_pc s = Returned \<Longrightarrow> pipe_step s (s\<lparr>r_pc := Test, r_i := 0, r_n := n\<rparr>)"

definition new_pipe :: psys where
  "new_pipe = \<lparr>p_rpos = 0, p_wpos = 0, p_buf = replicate PIPE_SIZE 0, w_pc = Returned, w_i = 0, wbuf = [],
     r_pc = Returned, r_i = 0, r_n = 0, r_byte = 0, w_log = [], r_log = []\<rparr>"

section \<open>The invariant\<close>

text \<open>What has not been read is in the buffer, at its positions modulo the size.\<close>

definition ring :: "psys \<Rightarrow> bool" where
  "ring s \<longleftrightarrow> length (p_buf s) = PIPE_SIZE \<and> p_rpos s = of_nat (length (r_log s)) \<and>
     p_wpos s = of_nat (length (w_log s)) \<and> prefix (r_log s) (w_log s) \<and>
     length (w_log s) \<le> length (r_log s) + PIPE_SIZE \<and>
     (\<forall>j. length (r_log s) \<le> j \<and> j < length (w_log s) \<longrightarrow> p_buf s ! (j mod PIPE_SIZE) = w_log s ! j)"

definition writer_ok :: "psys \<Rightarrow> bool" where
  "writer_ok s \<longleftrightarrow>
     (w_pc s \<in> {Move, Advance} \<longrightarrow> w_i s < length (wbuf s) \<and> length (w_log s) < length (r_log s) + PIPE_SIZE) \<and>
     (w_pc s = Advance \<longrightarrow> p_buf s ! (length (w_log s) mod PIPE_SIZE) = wbuf s ! w_i s)"

definition reader_ok :: "psys \<Rightarrow> bool" where
  "reader_ok s \<longleftrightarrow>
     (r_pc s \<in> {Move, Advance} \<longrightarrow> length (r_log s) < length (w_log s)) \<and>
     (r_pc s = Advance \<longrightarrow> r_byte s = w_log s ! length (r_log s))"

definition pipe_ok :: "psys \<Rightarrow> bool" where
  "pipe_ok s \<longleftrightarrow> ring s \<and> writer_ok s \<and> reader_ok s"

lemma new_pipe_ok: "pipe_ok new_pipe"
  by (simp add: pipe_ok_def ring_def writer_ok_def reader_ok_def new_pipe_def)

lemma unat_pos: "n < 2 ^ 32 \<Longrightarrow> unat (of_nat n :: u32) = n"
  by (rule unat_of_nat_u32) simp

lemma pos_less: "m < 2 ^ 32 \<Longrightarrow> n < 2 ^ 32 \<Longrightarrow> (of_nat m :: u32) \<le> of_nat n \<longleftrightarrow> m \<le> n"
  by (simp only: word_le_nat_alt unat_pos)

lemma pos_diff:
  assumes "m \<le> n" "n < 2 ^ 32"
  shows "unat ((of_nat n :: u32) - of_nat m) = n - m"
proof -
  have "(of_nat n :: u32) - of_nat m = of_nat (n - m)" using assms(1) by (simp add: of_nat_diff)
  then show ?thesis using unat_pos [of "n - m"] assms by simp
qed

text \<open>Two positions less than the size apart are in different cells.\<close>

lemma cells_differ:
  assumes "m < n" "n < m + PIPE_SIZE"
  shows "m mod PIPE_SIZE \<noteq> n mod PIPE_SIZE"
proof
  assume "m mod PIPE_SIZE = n mod PIPE_SIZE"
  then have "PIPE_SIZE dvd n - m" using mod_eq_dvd_iff_nat [of m n PIPE_SIZE] assms(1) by simp
  then have "PIPE_SIZE \<le> n - m" using assms(1) by (intro dvd_imp_le) simp_all
  then show False using assms by linarith
qed

lemma ringD:
  assumes "ring s"
  shows "length (r_log s) \<le> length (w_log s)" "0 < PIPE_SIZE"
  using assms by (auto simp: ring_def PIPE_SIZE_def dest: prefix_length_le)

lemma write_ok:
  assumes "pipe_ok s" "length (w_log s) < 2 ^ 32"
  shows "pipe_ok (pipe_write closed s)"
proof (cases "w_pc s")
  case Test
  have r: "ring s" using assms(1) by (simp add: pipe_ok_def)
  have "unat (p_wpos s - p_rpos s) = length (w_log s) - length (r_log s)"
    using r pos_diff [OF ringD(1) [OF r] assms(2)] by (simp add: ring_def)
  then show ?thesis using assms(1) Test ringD(1) [OF r]
    by (auto simp: pipe_ok_def ring_def writer_ok_def reader_ok_def pipe_write_def)
next
  case Move
  have r: "ring s" using assms(1) by (simp add: pipe_ok_def)
  have w: "w_i s < length (wbuf s)" "length (w_log s) < length (r_log s) + PIPE_SIZE"
    using assms(1) Move by (simp_all add: pipe_ok_def writer_ok_def)
  have u: "unat (p_wpos s) = length (w_log s)" using r unat_pos [OF assms(2)] by (simp add: ring_def)
  have "(p_buf s)[length (w_log s) mod PIPE_SIZE := b] ! (j mod PIPE_SIZE) = p_buf s ! (j mod PIPE_SIZE)"
    if "length (r_log s) \<le> j" "j < length (w_log s)" for j b
    using cells_differ [of j "length (w_log s)"] that w(2) by simp
  then show ?thesis using assms(1) Move r w u ringD(2) [OF r]
    by (simp add: pipe_ok_def ring_def writer_ok_def reader_ok_def pipe_write_def)
next
  case Advance
  have r: "ring s" using assms(1) by (simp add: pipe_ok_def)
  have w: "length (w_log s) < length (r_log s) + PIPE_SIZE"
    "p_buf s ! (length (w_log s) mod PIPE_SIZE) = wbuf s ! w_i s"
    using assms(1) Advance by (simp_all add: pipe_ok_def writer_ok_def)
  have "p_buf s ! (j mod PIPE_SIZE) = (w_log s @ [wbuf s ! w_i s]) ! j"
    if "length (r_log s) \<le> j" "j < Suc (length (w_log s))" for j
    using that r w(2) by (cases "j = length (w_log s)") (auto simp: ring_def nth_append)
  then show ?thesis using assms(1) Advance r w
    by (auto simp: pipe_ok_def ring_def writer_ok_def reader_ok_def pipe_write_def nth_append add.commute)
qed (use assms in \<open>simp add: pipe_write_def\<close>)

lemma read_ok:
  assumes "pipe_ok s" "length (w_log s) < 2 ^ 32"
  shows "pipe_ok (pipe_read closed s)"
proof (cases "r_pc s")
  case Test
  have r: "ring s" using assms(1) by (simp add: pipe_ok_def)
  have "p_wpos s \<le> p_rpos s \<longleftrightarrow> length (w_log s) \<le> length (r_log s)"
    using r pos_less [OF assms(2), of "length (r_log s)"] ringD(1) [OF r] assms(2) by (simp add: ring_def)
  then show ?thesis using assms(1) Test
    by (auto simp: pipe_ok_def ring_def writer_ok_def reader_ok_def pipe_read_def)
next
  case Move
  have r: "ring s" using assms(1) by (simp add: pipe_ok_def)
  have l: "length (r_log s) < length (w_log s)" using assms(1) Move by (simp add: pipe_ok_def reader_ok_def)
  have "unat (p_rpos s) = length (r_log s)" using r unat_pos [of "length (r_log s)"] l assms(2) by (simp add: ring_def)
  then show ?thesis using assms(1) Move r l
    by (simp add: pipe_ok_def ring_def writer_ok_def reader_ok_def pipe_read_def)
next
  case Advance
  have r: "ring s" using assms(1) by (simp add: pipe_ok_def)
  have l: "length (r_log s) < length (w_log s)" "r_byte s = w_log s ! length (r_log s)"
    using assms(1) Advance by (simp_all add: pipe_ok_def reader_ok_def)
  have "r_log s = take (length (r_log s)) (w_log s)" using r by (auto simp: ring_def prefix_def)
  then have "r_log s @ [w_log s ! length (r_log s)] = take (Suc (length (r_log s))) (w_log s)"
    using l(1) by (simp add: take_Suc_conv_app_nth)
  then have "prefix (r_log s @ [r_byte s]) (w_log s)" unfolding l(2) by (simp add: take_is_prefix)
  then show ?thesis using assms(1) Advance r l
    by (auto simp: pipe_ok_def ring_def writer_ok_def reader_ok_def pipe_read_def add.commute)
qed (use assms in \<open>simp add: pipe_read_def\<close>)

lemma write_log: "length (w_log s) \<le> length (w_log (pipe_write closed s))"
  by (cases "w_pc s") (simp_all add: pipe_write_def)

lemma read_log: "w_log (pipe_read closed s) = w_log s"
  by (cases "r_pc s") (simp_all add: pipe_read_def)

lemma step_log: "pipe_step s t \<Longrightarrow> length (w_log s) \<le> length (w_log t)"
  by (induction rule: pipe_step.induct) (simp_all add: write_log read_log)

lemma step_ok: "pipe_step s t \<Longrightarrow> pipe_ok s \<Longrightarrow> length (w_log s) < 2 ^ 32 \<Longrightarrow> pipe_ok t"
proof (induction rule: pipe_step.induct)
  case (write_call s bs)
  then show ?case by (simp add: pipe_ok_def ring_def writer_ok_def reader_ok_def)
next
  case (read_call s n)
  then show ?case by (simp add: pipe_ok_def ring_def writer_ok_def reader_ok_def)
qed (simp_all add: write_ok read_ok)

lemma reachable_pipe_ok:
  assumes "pipe_step\<^sup>*\<^sup>* new_pipe s" "length (w_log s) < 2 ^ 32"
  shows "pipe_ok s"
  using assms
proof (induction rule: rtranclp_induct)
  case (step s t)
  then show ?case using step_ok [OF step.hyps(2)] step_log [OF step.hyps(2)] by linarith
qed (rule new_pipe_ok)

section \<open>Properties\<close>


text \<open>Two bytes are to be written; one has been, and has been read.\<close>

definition ex_pipe :: psys where
  "ex_pipe = (pipe_read False ^^ 3) ((pipe_write False ^^ 3)
     (new_pipe\<lparr>w_pc := Test, wbuf := [7, 8]\<rparr>\<lparr>r_pc := Test, r_n := 2\<rparr>))"

lemma steps_pow: "(\<And>s. pipe_step s (f s)) \<Longrightarrow> pipe_step\<^sup>*\<^sup>* s ((f ^^ n) s)"
  by (induction n) (auto intro: rtranclp.rtrancl_into_rtrancl)

lemma ex_pipe_reachable: "pipe_step\<^sup>*\<^sup>* new_pipe ex_pipe"
proof -
  have p: "w_pc new_pipe = Returned" "r_pc (new_pipe\<lparr>w_pc := Test, w_i := 0, wbuf := [7, 8]\<rparr>) = Returned"
    by (simp_all add: new_pipe_def)
  have "pipe_step\<^sup>*\<^sup>* new_pipe (new_pipe\<lparr>w_pc := Test, w_i := 0, wbuf := [7, 8]\<rparr>\<lparr>r_pc := Test, r_i := 0, r_n := 2\<rparr>)"
    using write_call [OF p(1)] read_call [OF p(2)] by (meson rtranclp.rtrancl_into_rtrancl rtranclp.rtrancl_refl)
  moreover have "new_pipe\<lparr>w_i := 0, r_i := 0\<rparr> = new_pipe" by (simp add: new_pipe_def)
  then have "new_pipe\<lparr>w_pc := Test, w_i := 0, wbuf := [7, 8]\<rparr>\<lparr>r_pc := Test, r_i := 0, r_n := 2\<rparr> =
      new_pipe\<lparr>w_pc := Test, wbuf := [7, 8]\<rparr>\<lparr>r_pc := Test, r_n := 2\<rparr>" by (simp add: new_pipe_def)
  ultimately show ?thesis
    unfolding ex_pipe_def
    using steps_pow [of "pipe_write False", OF writer] steps_pow [of "pipe_read False", OF reader]
    by (metis rtranclp_trans)
qed

lemma three_times: "(f ^^ 3) s = f (f (f s))"
  by (simp add: numeral_3_eq_3)

lemma ex_pipe_logs: "w_log ex_pipe = [7]" "r_log ex_pipe = [7]"
proof -
  let ?s = "new_pipe\<lparr>w_pc := Test, wbuf := [7, 8]\<rparr>\<lparr>r_pc := Test, r_n := 2\<rparr>"
  have w: "(pipe_write False ^^ 3) ?s =
    ?s\<lparr>p_buf := (replicate PIPE_SIZE 0)[0 := 7], p_wpos := 1, w_log := [7], w_i := 1\<rparr>"
    unfolding three_times by (simp add: pipe_write_def new_pipe_def PIPE_SIZE_def)
  have "0 < PIPE_SIZE" by (simp add: PIPE_SIZE_def)
  then show "w_log ex_pipe = [7]" "r_log ex_pipe = [7]"
    unfolding ex_pipe_def w unfolding three_times
    by (simp_all add: pipe_read_def new_pipe_def)
qed


text \<open>
  Beyond that bound the positions wrap around: with the write position at 0 again and one byte
  not yet read, \<^verbatim>\<open>p_rpos >= p_wpos\<close> makes the reader take the pipe for empty.
\<close>

lemma wrapped_pipe_looks_empty:
  assumes "r_pc s = Test" "p_rpos s = 0xFFFFFFFF" "p_wpos s = 0" "r_i s < r_n s"
  shows "r_pc (pipe_read closed s) \<noteq> Move \<and> unat (p_wpos s - p_rpos s) = 1"
  using assms by (simp add: pipe_read_def)

end
