(* ===== verification/Ulib.thy ===== *)
theory Ulib
  imports Kernel
begin

unbundle bit_operations_syntax

text \<open>
  The user side of the system calls: how a program reads its page tables and its memory, the
  call stubs of \<^verbatim>\<open>user/lib/syscall_lib.c\<close>, and the functions of the user library that only use
  these: \<^verbatim>\<open>user/lib/ipc.c\<close>, \<^verbatim>\<open>user/lib/pageref.c\<close> and \<^verbatim>\<open>user/lib/wait.c\<close>.

  A library function is a function on the kernel state \<open>kern\<close> in which the calling program is the
  current environment. Local variables are outside of the modelled memory. The result of a call
  is the word in register \<^verbatim>\<open>$v0\<close>; an error code is negative. \<open>None\<close> is \<^verbatim>\<open>user_panic\<close>, a failed
  assertion, or an exception that the program does not survive. A call that blocks or yields
  gives the processor to others; the parameter \<open>w\<close> (\<^emph>\<open>world\<close>) is what they do until the caller runs
  again.
\<close>

section \<open>System calls\<close>

type_synonym world = "kern \<Rightarrow> kern option"

definition msyscall :: "world \<Rightarrow> sysres \<Rightarrow> (u32 \<times> kern) option" where
  "msyscall w r = do {
     (c, s) \<leftarrow> r;
     case c of
       Returns v \<Rightarrow> Some (ret_word v, s)
     | Switched \<Rightarrow> do { s \<leftarrow> w s; Some (regs (user_tf s) 2, s) }
   }"

text \<open>A call that never switches does not need the others.\<close>

definition msys :: "sysres \<Rightarrow> (u32 \<times> kern) option" where
  "msys = msyscall (\<lambda>_. None)"

definition syscall_set_tlb_mod_entry :: "u32 \<Rightarrow> u32 \<Rightarrow> kern \<Rightarrow> (u32 \<times> kern) option" where
  "syscall_set_tlb_mod_entry envid func s = msys (sys_set_tlb_mod_entry envid func s)"

definition syscall_mem_alloc :: "u32 \<Rightarrow> u32 \<Rightarrow> u32 \<Rightarrow> kern \<Rightarrow> (u32 \<times> kern) option" where
  "syscall_mem_alloc envid va perm s = msys (sys_mem_alloc envid va perm s)"

definition syscall_mem_map :: "u32 \<Rightarrow> u32 \<Rightarrow> u32 \<Rightarrow> u32 \<Rightarrow> u32 \<Rightarrow> kern \<Rightarrow> (u32 \<times> kern) option" where
  "syscall_mem_map srcid srcva dstid dstva perm s = msys (sys_mem_map srcid srcva dstid dstva perm s)"

definition syscall_mem_unmap :: "u32 \<Rightarrow> u32 \<Rightarrow> kern \<Rightarrow> (u32 \<times> kern) option" where
  "syscall_mem_unmap envid va s = msys (sys_mem_unmap envid va s)"

definition syscall_exofork :: "kern \<Rightarrow> (u32 \<times> kern) option" where
  "syscall_exofork s = msys (sys_exofork s)"

definition syscall_set_env_status :: "u32 \<Rightarrow> u32 \<Rightarrow> kern \<Rightarrow> (u32 \<times> kern) option" where
  "syscall_set_env_status envid status s = msys (sys_set_env_status envid status s)"

definition syscall_set_trapframe :: "u32 \<Rightarrow> u32 \<Rightarrow> kern \<Rightarrow> (u32 \<times> kern) option" where
  "syscall_set_trapframe envid tf s = msys (sys_set_trapframe envid tf s)"

definition syscall_env_destroy :: "world \<Rightarrow> u32 \<Rightarrow> kern \<Rightarrow> (u32 \<times> kern) option" where
  "syscall_env_destroy w envid s = msyscall w (sys_env_destroy envid s)"

definition syscall_yield :: "world \<Rightarrow> kern \<Rightarrow> kern option" where
  "syscall_yield w s = map_option snd (msyscall w (sys_yield s))"

definition syscall_ipc_try_send :: "u32 \<Rightarrow> u32 \<Rightarrow> u32 \<Rightarrow> u32 \<Rightarrow> kern \<Rightarrow> (u32 \<times> kern) option" where
  "syscall_ipc_try_send envid val srcva perm s = msys (sys_ipc_try_send envid val srcva perm s)"

definition syscall_ipc_recv :: "world \<Rightarrow> u32 \<Rightarrow> kern \<Rightarrow> (u32 \<times> kern) option" where
  "syscall_ipc_recv w dstva s = msyscall w (sys_ipc_recv dstva s)"

definition syscall_print_cons :: "u32 \<Rightarrow> u32 \<Rightarrow> kern \<Rightarrow> (u32 \<times> kern) option" where
  "syscall_print_cons str num s = msys (sys_print_cons str num s)"

definition syscall_cgetc :: "hw \<Rightarrow> kern \<Rightarrow> (u32 \<times> kern) option" where
  "syscall_cgetc h s = msys (sys_cgetc h s)"

text \<open>The test \<^verbatim>\<open>r < 0\<close> on an \<^verbatim>\<open>int\<close>.\<close>

definition negative :: "u32 \<Rightarrow> bool" where
  "negative r \<longleftrightarrow> sint r < 0"

definition err_word :: "errno \<Rightarrow> u32" where
  "err_word e = of_int (- errcode e)"

section \<open>Memory of the program\<close>

text \<open>
  Loads and stores of the running program go through its address space as those of the kernel do,
  and fault on kernel addresses. A store to a page without \<^verbatim>\<open>PTE_D\<close> raises a TLB modification
  exception; its handler is \<^verbatim>\<open>cow_entry\<close> of \<^verbatim>\<open>user/lib/fork.c\<close>, which is modelled on its own, and
  here such a store is \<open>None\<close>.
\<close>

definition uload32 :: "u32 \<Rightarrow> kern \<Rightarrow> (u32 \<times> kern) option" where
  "uload32 va s = (if va < ULIM then kload32 va s else None)"

definition uload8 :: "u32 \<Rightarrow> kern \<Rightarrow> (u8 \<times> kern) option" where
  "uload8 va s = (if va < ULIM then kload8 va s else None)"

definition ustore32 :: "u32 \<Rightarrow> u32 \<Rightarrow> kern \<Rightarrow> kern option" where
  "ustore32 = kstore32"

definition ustore8 :: "u32 \<Rightarrow> u8 \<Rightarrow> kern \<Rightarrow> kern option" where
  "ustore8 = kstore8"

text \<open>\<^verbatim>\<open>memcpy\<close> of the library on program memory, byte by byte.\<close>

definition umemcpy :: "u32 \<Rightarrow> u32 \<Rightarrow> u32 \<Rightarrow> kern \<Rightarrow> kern option" where
  "umemcpy dst src n s =
     mfold (\<lambda>i s. do {
       (b, s) \<leftarrow> uload8 (src + of_nat i) s;
       ustore8 (dst + of_nat i) b s
     }) [0..<unat n] s"

text \<open>
  \<^verbatim>\<open>vpd\<close> and \<^verbatim>\<open>vpt\<close>: the page directory and the page tables of the program, which the entry
  \<^verbatim>\<open>PDX(UVPT)\<close> of its directory maps into its own address space.
\<close>

definition vpd :: "nat \<Rightarrow> kern \<Rightarrow> (u32 \<times> kern) option" where
  "vpd i s = uload32 (UVPT + push_bit 12 (of_nat (PDX UVPT)) + 4 * of_nat i) s"

definition vpt :: "nat \<Rightarrow> kern \<Rightarrow> (u32 \<times> kern) option" where
  "vpt n s = uload32 (UVPT + 4 * of_nat n) s"

definition PTMAP :: u32 where [mos_consts]: "PTMAP = PAGE_SIZE"

section \<open>\<^verbatim>\<open>pageref.c\<close>\<close>

text \<open>The array \<^verbatim>\<open>pages\<close> is mapped read-only for programs; \<open>pp_ref\<close> is a field of its entries.\<close>

definition user_pageref :: "u32 \<Rightarrow> kern \<Rightarrow> (u32 \<times> kern) option" where
  "user_pageref v s = do {
     (pde, s) \<leftarrow> vpd (PDX v) s;
     if pde AND PTE_V = 0 then Some (0, s)
     else do {
       (pte, s) \<leftarrow> vpt (VPN v) s;
       if pte AND PTE_V = 0 then Some (0, s)
       else Some (ucast (pp_ref s (PPN pte)), s)
     }
   }"

section \<open>\<^verbatim>\<open>ipc.c\<close>\<close>

partial_function (option) user_ipc_send_loop ::
  "world \<Rightarrow> u32 \<Rightarrow> u32 \<Rightarrow> u32 \<Rightarrow> u32 \<Rightarrow> kern \<Rightarrow> (u32 \<times> kern) option" where
  "user_ipc_send_loop w whom val srcva perm s =
     (case syscall_ipc_try_send whom val srcva perm s of
        None \<Rightarrow> None
      | Some (r, s) \<Rightarrow>
          if r = err_word E_IPC_NOT_RECV
          then (case syscall_yield w s of None \<Rightarrow> None | Some s \<Rightarrow> user_ipc_send_loop w whom val srcva perm s)
          else Some (r, s))"

definition user_ipc_send :: "world \<Rightarrow> u32 \<Rightarrow> u32 \<Rightarrow> u32 \<Rightarrow> u32 \<Rightarrow> kern \<Rightarrow> kern option" where
  "user_ipc_send w whom val srcva perm s = do {
     (r, s) \<leftarrow> user_ipc_send_loop w whom val srcva perm s;
     if r = 0 then Some s else None
   }"

text \<open>The sender and the permission, which the caller can ask for, are returned with the value.\<close>

definition user_ipc_recv :: "world \<Rightarrow> u32 \<Rightarrow> kern \<Rightarrow> ((u32 \<times> u32 \<times> u32) \<times> kern) option" where
  "user_ipc_recv w dstva s = do {
     (r, s) \<leftarrow> syscall_ipc_recv w dstva s;
     if r \<noteq> 0 then None
     else do {
       c \<leftarrow> curenv s;
       let v = envs s c;
       Some ((env_ipc_value v, env_ipc_from v, env_ipc_perm v), s)
     }
   }"

section \<open>\<^verbatim>\<open>wait.c\<close>\<close>

partial_function (option) wait_env :: "world \<Rightarrow> u32 \<Rightarrow> kern \<Rightarrow> kern option" where
  "wait_env w envid s =
     (if env_id (envs s (ENVX envid)) = envid \<and> env_status (envs s (ENVX envid)) \<noteq> ENV_FREE
      then (case syscall_yield w s of None \<Rightarrow> None | Some s \<Rightarrow> wait_env w envid s)
      else Some s)"

section \<open>Facts\<close>

lemma msyscall_Returns [simp]: "msyscall w (Some (Returns v, s)) = Some (ret_word v, s)"
  by (simp add: msyscall_def)

lemma msys_Returns [simp]: "msys (Some (Returns v, s)) = Some (ret_word v, s)"
  by (simp add: msys_def)

lemma ret_word_simps [simp]: "ret_word (Inr v) = v" "ret_word (Inl e) = err_word e"
  by (simp_all add: ret_word_def err_word_def)

lemma err_word_negative [simp]: "negative (err_word e)" "\<not> negative 0" "err_word e \<noteq> 0"
  by (cases e; simp add: err_word_def negative_def)+

text \<open>
  The self-map of a directory, as \<^verbatim>\<open>env_setup_vm\<close> writes it. With it, \<^verbatim>\<open>vpd\<close> reads the directory of
  the running program and \<^verbatim>\<open>vpt\<close> its page tables.
\<close>

definition self_mapped :: "'z pmap_scheme \<Rightarrow> nat \<Rightarrow> bool" where
  "self_mapped s d \<longleftrightarrow> pm s d (PDX UVPT) = page2pa d OR PTE_V"

lemma refill_uvpt:
  assumes d: "self_mapped s d" "cur_pgdir s = d" "d < npage s" "npage s \<le> 2 ^ 20"
    and va: "PDX va = 511" and e: "pte_valid (pm s d (PTX va))" "PPN (pm s d (PTX va)) < npage s"
  shows "refill_loop va asid s = Some ((d, PTX va), s)"
proof -
  have p: "pte_valid (page2pa d OR PTE_V)" "PPN (page2pa d OR PTE_V) = d"
    using d(3,4) by (simp_all add: PPN_page2pa_or)
  have "page_lookup d va s = Some (Some (PPN (pm s d (PTX va)), (d, PTX va)), s)"
    using d p e by (simp add: page_lookup_def pgdir_walk_def pte_load_def va self_mapped_def KADDR_def pa2page_eq)
  then show ?thesis by (subst refill_loop.simps) (simp add: d(2))
qed

lemma uvpt_address:
  assumes "n < 2 ^ 20"
  shows "unat (UVPT + 4 * of_nat n :: u32) = 511 * 2 ^ 22 + 4 * n"
proof -
  have "unat (4 * of_nat n :: u32) = 4 * n" using unat_of_nat_u32 [of "4 * n"] assms by simp
  moreover have "unat UVPT = 511 * 2 ^ 22" by (simp add: mos_consts)
  ultimately show ?thesis using assms by (simp add: unat_plus_if')
qed

lemma vpd_as_vpt: "vpd i s = vpt (511 * 1024 + i) s"
  by (simp add: vpd_def vpt_def add.assoc push_bit_eq_mult)

text \<open>A word of the tables, read through the self-map.\<close>

lemma vpt_read:
  assumes d: "self_mapped s d" "cur_pgdir s = d" "d < npage s" "npage s \<le> 2 ^ 20"
    and n: "n < 2 ^ 20" and e: "pte_valid (pm s d (n div 1024))" "PPN (pm s d (n div 1024)) < npage s"
  shows "vpt n s = Some (pm s (PPN (pm s d (n div 1024))) (n mod 1024), s)"
proof -
  let ?va = "UVPT + 4 * of_nat n :: u32"
  note u = uvpt_address [OF n]
  define a b where "a = n div 1024" and "b = n mod 1024"
  have ab: "n = 1024 * a + b" "a < 1024" "b < 1024" using n by (simp_all add: a_def b_def)
  have m: "511 * 2 ^ 22 + 4 * n = 4096 * (523264 + a) + 4 * b" by (simp add: ab)
  have q: "(4096 * (523264 + a) + 4 * b) div 4096 = 523264 + a" "(4096 * (523264 + a) + 4 * b) mod 4096 = 4 * b"
    using ab(3) by (simp_all only: div_mult_self4 mod_mult_self4) simp_all
  have dd: "k div 2 ^ 22 = k div 4096 div 1024" for k :: nat by (simp add: div_mult2_eq [symmetric])
  have "(4096 * (523264 + a) + 4 * b) div 2 ^ 22 = (523264 + a) div 1024" by (simp only: dd q(1))
  also have "\<dots> = (1024 * 511 + a) div 1024" by simp
  also have "\<dots> = 511" using ab(2) by simp
  finally have "PDX ?va = 511" by (simp only: PDX_eq u m)
  moreover have "(523264 + a) mod 1024 = a" using mod_mult_self4 [of 1024 511 a] ab(2) by simp
  then have "PTX ?va = n div 1024" unfolding PTX_eq u m using q(1) by (simp add: a_def)
  moreover have "unat ?va mod 4096 div 4 = n mod 1024" by (simp only: u m q(2)) (simp add: b_def)
  moreover have "4096 * (523264 + a) + 4 * b = 4 * (1024 * (523264 + a) + b)" by simp
  then have "unat ?va mod 4 = 0" unfolding u m by (simp only: mod_mult_self1_is_0)
  moreover have "unat ULIM = 2 ^ 31" by (simp add: mos_consts)
  then have "?va < ULIM" unfolding word_less_nat_alt u using n by simp
  ultimately
  show ?thesis
    using refill_uvpt [OF d, of ?va "user_asid s"] e
    by (simp add: vpt_def uload32_def kload32_def user_pte_def)
qed

lemma running_dir:
  assumes "kinv s q" "curenv s = Some c"
  shows "c \<in> live s" "cur_pgdir s = pgdir_of s c" "pgdir_of s c \<in> dirs s" "pgdir_of s c < npage s" "npage s \<le> 2 ^ 20"
proof -
  from assms show c: "c \<in> live s" "cur_pgdir s = pgdir_of s c" by (auto simp: kinv_def cur_ok_def)
  then show d: "pgdir_of s c \<in> dirs s" by (simp add: dirs_def)
  from assms(1) obtain X xs where "vm_inv s (dirs s) X xs" by (auto simp: kinv_def kinv0_def mem_ok_def)
  from vm_invD(1,3) [OF this] d show "pgdir_of s c < npage s" "npage s \<le> 2 ^ 20" by auto
qed

lemma vpd_user:
  assumes inv: "kinv s q" "curenv s = Some c" and m: "self_mapped s (pgdir_of s c)" and i: "i < 1024"
  shows "vpd i s = Some (pm s (pgdir_of s c) i, s)"
proof -
  note r = running_dir [OF inv]
  have n: "(511 * 1024 + i) div 1024 = 511" "(511 * 1024 + i) mod 1024 = i"
    using i mod_mult_self4 [of 1024 511 i] by simp_all
  have e: "pte_valid (pm s (pgdir_of s c) 511)" "PPN (pm s (pgdir_of s c) 511) = pgdir_of s c"
    using m r(4,5) by (simp_all add: self_mapped_def PPN_page2pa_or)
  from vpt_read [OF m r(2,4,5), of "511 * 1024 + i"] i r(4) show ?thesis
    unfolding vpd_as_vpt n e(2) using e(1) by simp
qed

lemma vpt_user:
  assumes inv: "kinv s q" "curenv s = Some c" and m: "self_mapped s (pgdir_of s c)"
    and i: "i < 509" "j < 1024" "has_tab s (pgdir_of s c) i"
  shows "vpt (i * 1024 + j) s = Some (upte s (pgdir_of s c) i j, s)"
proof -
  note r = running_dir [OF inv]
  have n: "(i * 1024 + j) div 1024 = i" "(i * 1024 + j) mod 1024 = j" "i * 1024 + j < 2 ^ 20" using i by simp_all
  from inv obtain X xs where vm: "vm_inv s (dirs s) X xs" by (auto simp: kinv_def kinv0_def mem_ok_def)
  have "PPN (pm s (pgdir_of s c) i) < npage s" using vm_invD(10) [OF vm r(3) i(1,3)] by (simp add: tab_def)
  with vpt_read [OF m r(2,4,5) n(3), unfolded n] i(3) show ?thesis by (simp add: upte_def tab_def has_tab_def)
qed

end
