(* ===== verification/Fork.thy ===== *)
theory Fork
  imports Ulib
begin

unbundle bit_operations_syntax

text \<open>
  Copy-on-write processes: \<^verbatim>\<open>user/lib/fork.c\<close>. The address of \<^verbatim>\<open>cow_entry\<close>, which the linker
  chooses, is the parameter \<open>cow\<close>. The program's own variables are outside of the modelled memory:
  what the stores of \<^verbatim>\<open>fork\<close> itself to its stack do, is not part of its model.
\<close>

text \<open>The operator \<^verbatim>\<open>!\<close> of C.\<close>

definition lnot :: "u32 \<Rightarrow> u32" where
  "lnot w = (if w = 0 then 1 else 0)"

text \<open>
  \<^verbatim>\<open>tf\<close> is the address of the frame that the kernel saved on the exception stack; \<^verbatim>\<open>cp0_badvaddr\<close> is
  its word 35. When \<^verbatim>\<open>syscall_set_trapframe\<close> succeeds, the program goes on with that frame.
\<close>

definition cow_entry :: "u32 \<Rightarrow> kern \<Rightarrow> kern option" where
  "cow_entry tf s = do {
     (va, s) \<leftarrow> uload32 (tf + 4 * 35) s;
     (pte, s) \<leftarrow> vpt (VPN va) s;
     let perm = pte AND 0xfff;
     if perm AND PTE_COW = 0 then None
     else do {
       let perm = (perm AND lnot PTE_COW) OR PTE_D;
       (_, s) \<leftarrow> syscall_mem_alloc 0 UCOW PTE_D s;
       let va = ROUNDDOWN va PAGE_SIZE;
       s \<leftarrow> umemcpy UCOW va PAGE_SIZE s;
       (_, s) \<leftarrow> syscall_mem_map 0 UCOW 0 va perm s;
       (_, s) \<leftarrow> syscall_mem_unmap 0 UCOW s;
       r \<leftarrow> sys_set_trapframe 0 tf s;
       case r of
         (Returns (Inr _), s) \<Rightarrow> Some s
       | _ \<Rightarrow> None
     }
   }"

definition duppage :: "u32 \<Rightarrow> nat \<Rightarrow> kern \<Rightarrow> kern option" where
  "duppage envid vpn s = do {
     (pte, s) \<leftarrow> vpt vpn s;
     let perm = pte AND 0xfff;
     let addr = of_nat vpn * PAGE_SIZE;
     if perm AND PTE_D = 0 \<or> perm AND PTE_LIBRARY \<noteq> 0
     then do {
       (_, s) \<leftarrow> syscall_mem_map 0 addr envid addr perm s;
       Some s
     }
     else do {
       let perm = (perm AND lnot PTE_D) OR PTE_COW;
       (_, s) \<leftarrow> syscall_mem_map 0 addr envid addr perm s;
       (_, s) \<leftarrow> syscall_mem_map 0 addr 0 addr perm s;
       Some s
     }
   }"

text \<open>The body of the two loops of \<^verbatim>\<open>fork\<close>, and the loops.\<close>

definition fork_page :: "u32 \<Rightarrow> nat \<Rightarrow> nat \<Rightarrow> kern \<Rightarrow> kern option" where
  "fork_page child i j s =
     (let vpn = i * 1024 + j in
      if vpn < VPN USTACKTOP then do {
        (pte, s) \<leftarrow> vpt vpn s;
        if pte AND PTE_V \<noteq> 0 then duppage child vpn s else Some s
      }
      else Some s)"

definition fork_pde :: "u32 \<Rightarrow> nat \<Rightarrow> kern \<Rightarrow> kern option" where
  "fork_pde child i s = do {
     (pde, s) \<leftarrow> vpd i s;
     if pde AND PTE_V \<noteq> 0 then mfold (fork_page child i) [0..<1024] s else Some s
   }"

text \<open>In the child, \<^verbatim>\<open>syscall_exofork\<close> returns 0 and so does \<^verbatim>\<open>fork\<close>.\<close>

definition fork :: "u32 \<Rightarrow> kern \<Rightarrow> (u32 \<times> kern) option" where
  "fork cow s = do {
     c \<leftarrow> curenv s;
     (r, s) \<leftarrow> (if env_user_tlb_mod_entry (envs s c) \<noteq> cow
                then syscall_set_tlb_mod_entry 0 cow s else Some (0, s));
     if r \<noteq> 0 then Some (r, s)
     else do {
       (child, s) \<leftarrow> syscall_exofork s;
       if child = 0 then Some (0, s)
       else do {
         s \<leftarrow> mfold (fork_pde child) [0..<PDX (ROUND USTACKTOP PDMAP)] s;
         (_, s) \<leftarrow> syscall_set_tlb_mod_entry child cow s;
         (_, s) \<leftarrow> syscall_set_env_status child ENV_RUNNABLE s;
         Some (child, s)
       }
     }
   }"

end
