(* ===== verification/Fork_Inv.thy ===== *)
theory Fork_Inv
  imports Fork
begin

unbundle bit_operations_syntax

text \<open>
  The two memory calls of \<^verbatim>\<open>duppage\<close> and its loop. Beside the address spaces, the copying of an
  address space depends on what each mapping costs: at most one reference, and one free page when
  the child has no page table there yet.
\<close>

section \<open>Mapping at an unmapped address\<close>

lemma page_insert_with_table:
  assumes "vm_inv s D X xs" "d \<in> D" "va < UTOP" "as_map s d (vaddr va) = None" "has_tab s d (PDX va)"
  shows "page_insert d asid pp va perm s = Some (Inr (), pte_store (tab s d (PDX va), PTX va) (mkpte pp perm)
    ((tlb_invalidate asid va s)\<lparr>pp_ref := (pp_ref s)(pp := pp_ref s pp + 1)\<rparr>))"
proof -
  have "has_tab (tlb_invalidate asid va s) = has_tab s" "tab (tlb_invalidate asid va s) = tab s"
    by (intro ext; simp add: has_tab_def tab_def)+
  then have "pgdir_walk d va True (tlb_invalidate asid va s) =
      Some (Inr (Some (tab s d (PDX va), PTX va)), tlb_invalidate asid va s)"
    using pgdir_walk_present [of "tlb_invalidate asid va s" D X xs d va True] assms by simp
  then show ?thesis
    by (simp add: page_insert_missing [OF assms(1-4)] page_insert_new_def)
qed

lemma page_insert_new_table:
  assumes inv: "vm_inv s D X (p # xs)" and d: "d \<in> D" "va < UTOP" "\<not> has_tab s d (PDX va)"
  obtains fl where "lrep fl xs"
    "page_insert d asid pp va perm s = Some (Inr (), pte_store (p, PTX va) (mkpte pp perm)
      (pte_store (d, PDX va) (page2pa p OR PTE_V OR PTE_C_CACHEABLE)
        ((tlb_invalidate asid va s)\<lparr>page_free_list := fl, pm := (pm s)(p := (\<lambda>_. 0)),
           pp_ref := ((pp_ref s)(p := 1))(pp := ((pp_ref s)(p := 1)) pp + 1)\<rparr>)))"
proof -
  let ?t = "tlb_invalidate asid va s"
  have n: "as_map s d (vaddr va) = None" using d by (simp add: as_map_vaddr)
  obtain fl where fl: "page_alloc ?t =
      Some (Inr p, ?t\<lparr>page_free_list := fl, pm := (pm s)(p := (\<lambda>_. 0))\<rparr>)" "lrep fl xs"
    using page_alloc_ok [of ?t D X p xs] inv by auto
  have p: "p < npage s" "p < 2 ^ 20" "p \<noteq> d"
    using vm_invD(1) [OF inv] vm_invD(7) [OF inv, of p] free_unused(1) [OF inv, of p] d(1) by auto
  have "pgdir_walk d va True ?t = Some (Inr (Some (p, PTX va)),
      pte_store (d, PDX va) (page2pa p OR PTE_V OR PTE_C_CACHEABLE)
        (?t\<lparr>page_free_list := fl, pm := (pm s)(p := (\<lambda>_. 0)), pp_ref := (pp_ref s)(p := 1)\<rparr>))"
    using fl d(3) p
    by (simp add: pgdir_walk_def Let_def pte_load_def has_tab_def KADDR_def PPN_page2pa_or or_less_4096)
  then show thesis
    by (intro that [OF fl(2)])
      (simp add: page_insert_missing [OF inv d(1,2) n] page_insert_new_def pte_store_def)
qed

text \<open>What is not part of the address spaces and stays: self-maps, and the contents of mapped pages.\<close>

definition pm_frame :: "nat \<Rightarrow> 'z pmap_scheme \<Rightarrow> 'z pmap_scheme \<Rightarrow> nat set \<Rightarrow> bool" where
  "pm_frame n s s' D \<longleftrightarrow> (\<forall>d \<in> D. \<forall>k \<ge> 509. pm s' d k = pm s d k) \<and>
     (\<forall>p < npage s. unat (pp_ref s' p) \<le> unat (pp_ref s p) + n) \<and>
     (\<forall>p. maps s D p \<noteq> {} \<longrightarrow> pm s' p = pm s p)"

lemma data_page:
  assumes "vm_inv s D X xs" "maps s D p \<noteq> {}"
  shows "p \<notin> D" "p \<notin> tabs s D" "p \<notin> set xs"
  using vm_invD(13,14) [OF assms] vm_invD(4) [OF assms(1), of p] free_unused(3) [OF assms(1), of p] assms(2) by auto

lemma insert_absent_frame:
  fixes s :: "'z pmap_scheme"
  assumes inv: "vm_inv s D X xs" and d: "d \<in> D" "va < UTOP" and n: "as_map s d (vaddr va) = None"
    and mem: "has_tab s d (PDX va) \<or> xs \<noteq> []" and room: "unat (pp_ref s pp) < 65535" "pp \<notin> set xs"
    and r: "page_insert d asid pp va perm s = Some (r, s')"
  shows "pm_frame 1 s s' D" "lrep (page_free_list s') (if has_tab s d (PDX va) then xs else tl xs)"
    "\<forall>d' \<in> D. \<forall>k. has_tab s' d' k \<longleftrightarrow> has_tab s d' k \<or> d' = d \<and> k = PDX va"
proof -
  have v: "pte_valid (page2pa p OR PTE_V OR PTE_C_CACHEABLE)" for p
    by (simp add: pte_valid_bit PTE_V_def bit_simps)
  have inc: "unat (((pp_ref s)(pp := pp_ref s pp + 1)) p) \<le> unat (pp_ref s p) + 1" for p
    using unat_plus_1_u16 [OF room(1)] by simp
  have "pm_frame 1 s s' D \<and> lrep (page_free_list s') (if has_tab s d (PDX va) then xs else tl xs) \<and>
    (\<forall>d' \<in> D. \<forall>k. has_tab s' d' k \<longleftrightarrow> has_tab s d' k \<or> d' = d \<and> k = PDX va)"
  proof (cases "has_tab s d (PDX va)")
    case True
    let ?t = "tab s d (PDX va)"
    have t: "?t \<notin> D" "?t \<in> tabs s D"
      using vm_invD(11) [OF inv d(1) vaddr_user [OF d(2)] True] tabs_memI [OF d(1) vaddr_user [OF d(2)] True] by auto
    have s': "s' = pte_store (?t, PTX va) (mkpte pp perm)
        ((tlb_invalidate asid va s)\<lparr>pp_ref := (pp_ref s)(pp := pp_ref s pp + 1)\<rparr>)"
      using page_insert_with_table [OF inv d n True] r by simp
    have "pm s' d' = pm s d'" if "d' \<in> D" for d' using t(1) that by (auto simp: s')
    moreover have "pm s' p = pm s p" if "maps s D p \<noteq> {}" for p
      using data_page(2) [OF inv that] t(2) by (auto simp: s')
    ultimately show ?thesis using True inc vm_invD(6) [OF inv] by (auto simp: pm_frame_def s' has_tab_def)
  next
    case False
    with mem obtain p ps where xs: "xs = p # ps" by (cases xs) auto
    from page_insert_new_table [OF inv [unfolded xs] d False, of asid pp perm] r obtain fl where fl: "lrep fl ps"
      and s': "s' = pte_store (p, PTX va) (mkpte pp perm)
        (pte_store (d, PDX va) (page2pa p OR PTE_V OR PTE_C_CACHEABLE)
          ((tlb_invalidate asid va s)\<lparr>page_free_list := fl, pm := (pm s)(p := (\<lambda>_. 0)),
             pp_ref := ((pp_ref s)(p := 1))(pp := ((pp_ref s)(p := 1)) pp + 1)\<rparr>))" by auto
    have p: "p \<notin> D" "pp_ref s p = 0" "p \<noteq> pp"
      using free_unused(1) [OF inv, of p] vm_invD(8) [OF inv, of p] room(2) by (auto simp: xs)
    have pm: "pm s' d' k = (if d' = d \<and> k = PDX va then page2pa p OR PTE_V OR PTE_C_CACHEABLE else pm s d' k)"
      if "d' \<in> D" for d' k using p(1) that d(1) by (auto simp: s')
    moreover have "pm s' q = pm s q" if "maps s D q \<noteq> {}" for q
      using data_page [OF inv that] d(1) by (auto simp: s' xs)
    moreover have "unat (pp_ref s' q) \<le> unat (pp_ref s q) + 1" for q
      using inc [of q] p(2,3) by (auto simp: s')
    ultimately show ?thesis
      using False vaddr_user [OF d(2)] v fl by (auto simp: pm_frame_def xs has_tab_def) (simp add: s')
  qed
  then show "pm_frame 1 s s' D" "lrep (page_free_list s') (if has_tab s d (PDX va) then xs else tl xs)"
    "\<forall>d' \<in> D. \<forall>k. has_tab s' d' k \<longleftrightarrow> has_tab s d' k \<or> d' = d \<and> k = PDX va" by blast+
qed

lemma insert_same_frame:
  fixes s :: "'z pmap_scheme"
  assumes inv: "vm_inv s D X xs" and d: "d \<in> D" "va < UTOP" and e: "as_map s d (vaddr va) = Some e"
    and r: "page_insert d asid (PPN e) va perm s = Some (r, s')"
  shows "pm_frame 0 s s' D" "page_free_list s' = page_free_list s" "\<forall>d' \<in> D. \<forall>k. has_tab s' d' k \<longleftrightarrow> has_tab s d' k"
proof -
  let ?t = "tab s d (PDX va)"
  have ht: "has_tab s d (PDX va)" using e d(2) by (auto simp: as_map_vaddr split: if_splits)
  have t: "?t \<notin> D" "?t \<in> tabs s D"
    using vm_invD(11) [OF inv d(1) vaddr_user [OF d(2)] ht] tabs_memI [OF d(1) vaddr_user [OF d(2)] ht] by auto
  have s': "s' = pte_store (?t, PTX va) (mkpte (PPN e) perm) (tlb_invalidate asid va s)"
    using page_insert_present [OF inv d e, of asid "PPN e" perm] r by simp
  have "pm s' d' = pm s d'" if "d' \<in> D" for d' using t(1) that by (auto simp: s')
  moreover have "pm s' p = pm s p" if "maps s D p \<noteq> {}" for p
    using data_page(2) [OF inv that] t(2) by (auto simp: s')
  ultimately show "pm_frame 0 s s' D" "page_free_list s' = page_free_list s"
    "\<forall>d' \<in> D. \<forall>k. has_tab s' d' k \<longleftrightarrow> has_tab s d' k"
    by (auto simp: pm_frame_def has_tab_def) (simp_all add: s')
qed

section \<open>The calls of \<^verbatim>\<open>duppage\<close>\<close>

text \<open>
  The state while an address space is copied: the caller \<open>c\<close> runs, \<open>e\<close> is its child with the
  identifier \<open>v\<close>, and the caller can read its own tables.
\<close>

definition copying :: "kern \<Rightarrow> nat list \<Rightarrow> nat \<Rightarrow> nat \<Rightarrow> u32 \<Rightarrow> bool" where
  "copying s q c e v \<longleftrightarrow> kinv s q \<and> curenv s = Some c \<and> self_mapped s (pgdir_of s c) \<and>
     e \<in> live s \<and> e \<noteq> c \<and> v \<noteq> 0 \<and> env_id (envs s e) = v \<and> ENVX v = e \<and> env_parent_id (envs s e) = env_id (envs s c)"

lemma copyingD:
  assumes "copying s q c e v"
  shows "kinv s q" "curenv s = Some c" "c \<in> live s" "e \<in> live s" "pgdir_of s c \<in> dirs s" "pgdir_of s e \<in> dirs s"
    "pgdir_of s e \<noteq> pgdir_of s c" "envid2env 0 True s = Some (Inr c)" "envid2env v True s = Some (Inr e)"
    "self_mapped s (pgdir_of s c)"
proof -
  from assms show k: "kinv s q" "curenv s = Some c" "e \<in> live s" "self_mapped s (pgdir_of s c)"
    by (simp_all add: copying_def)
  show l: "c \<in> live s" "pgdir_of s c \<in> dirs s" by (rule running_dir [OF k(1,2)])+
  from k(3) show "pgdir_of s e \<in> dirs s" by (simp add: dirs_def)
  have "inj_on (pgdir_of s) (live s)" using k(1) by (simp add: kinv_def kinv0_def mem_ok_def)
  from inj_onD [OF this _ k(3) l(1)] assms show "pgdir_of s e \<noteq> pgdir_of s c" by (auto simp: copying_def)
  show "envid2env 0 True s = Some (Inr c)" by (simp add: envid2env_def k(2))
  show "envid2env v True s = Some (Inr e)"
    using assms k(3) by (auto simp: copying_def envid2env_def Let_def live_def)
qed

lemma copying_step:
  assumes "copying s q c e v" "kinv s' q" "pmap.more s' = pmap.more s" "pm_frame n s s' (dirs s)"
  shows "copying s' q c e v" "pgdir_of s' = pgdir_of s" "dirs s' = dirs s"
proof -
  note k = kern_more [OF assms(3)]
  show p: "pgdir_of s' = pgdir_of s" by (rule ext) (simp add: pgdir_of_def k)
  have l: "live s' = live s" by (simp add: live_def k)
  then show "dirs s' = dirs s" by (simp add: dirs_def p)
  have "pm s' (pgdir_of s c) 511 = pm s (pgdir_of s c) 511"
    using assms(4) copyingD(5) [OF assms(1)] by (simp add: pm_frame_def)
  with assms(1,2) show "copying s' q c e v" by (simp add: copying_def k p l self_mapped_def)
qed

lemma map_child:
  assumes cp: "copying s q c e v" and va: "\<not> is_illegal_va va" and perm: "perm < 4096" and room: "refs_room s"
    and src: "as_map s (pgdir_of s c) (vaddr va) = Some pte" and dst: "as_map s (pgdir_of s e) (vaddr va) = None"
    and mem: "free_pages s (n + (if has_tab s (pgdir_of s e) (PDX va) then 0 else 1))"
  shows "\<exists>s'. syscall_mem_map 0 va v va perm s = Some (0, s') \<and> kinv s' q \<and> pmap.more s' = pmap.more s \<and>
    maps_to s s' e va (Some (mkpte (PPN pte) perm)) \<and> pm_frame 1 s s' (dirs s) \<and> npage s' = npage s \<and> free_pages s' n \<and>
    (\<forall>d \<in> dirs s. \<forall>k. has_tab s' d k \<longleftrightarrow> has_tab s d k \<or> d = pgdir_of s e \<and> k = PDX va)"
proof -
  note D = copyingD [OF cp]
  note u = legal_va [OF va]
  from D(1) obtain X xs where vm: "vm_inv s (dirs s) X xs" by (auto simp: kinv_def kinv0_def mem_ok_def)
  obtain ys where ys: "lrep (page_free_list s) ys" "n + (if has_tab s (pgdir_of s e) (PDX va) then 0 else 1) \<le> length ys"
    using mem by (auto simp: free_pages_def)
  then have xs: "n + (if has_tab s (pgdir_of s e) (PDX va) then 0 else 1) \<le> length xs"
    using lrep_unique [OF ys(1) vm_invD(6) [OF vm]] by simp
  then have ne: "has_tab s (pgdir_of s e) (PDX va) \<or> xs \<noteq> []" by auto
  note pl = page_lookup_eq [OF vm D(5) u, unfolded src, simplified]
  have pp: "PPN pte < npage s" "PPN pte \<notin> set xs"
    using vm_invD(5) [OF vm D(5) src] mapped_ref(2) [OF vm D(5) src] by auto
  have mp: "mappable s (dirs s) X xs (PPN pte)"
    using mapped_mappable [OF vm D(5) src] room pp by (simp add: refs_room_def)
  from page_insert_ok [OF vm D(6) u ne mp perm, of "env_asid (envs s e)"] obtain s' zs where
    s': "page_insert (pgdir_of s e) (env_asid (envs s e)) (PPN pte) va perm s = Some (Inr (), s')" "vm_inv s' (dirs s) X zs"
      "\<forall>d' \<in> dirs s. as_map s' d' =
        (if d' = pgdir_of s e then (as_map s (pgdir_of s e))(vaddr va \<mapsto> mkpte (PPN pte) perm) else as_map s d')"
      "npage s' = npage s" "pmap.more s' = pmap.more s" by blast
  have rm: "unat (pp_ref s (PPN pte)) < 65535" using room pp(1) by (simp add: refs_room_def)
  note fr = insert_absent_frame [OF vm D(6) u dst ne rm pp(2) s'(1)]
  have "sys_mem_map 0 va v va perm s = Some (Returns (Inr 0), s')"
    using va D(8,9) pl s'(1) by (simp add: sys_mem_map_def pgdir_of_def)
  moreover have "free_pages s' n"
    unfolding free_pages_def
    by (rule exI, rule conjI, rule fr(2)) (use xs in \<open>auto split: if_splits\<close>)
  moreover have "maps_to s s' e va (Some (mkpte (PPN pte) perm))" using s'(3) by (simp add: maps_to_def pgdir_of_def)
  ultimately show ?thesis
    using kinv_vm(1) [OF D(1) s'(5,2)] s'(4,5) fr(1,3) by (simp add: syscall_mem_map_def)
qed

lemma map_again:
  assumes cp: "copying s q c e v" and va: "\<not> is_illegal_va va" and perm: "perm < 4096"
    and src: "as_map s (pgdir_of s c) (vaddr va) = Some pte"
  shows "\<exists>s'. syscall_mem_map 0 va 0 va perm s = Some (0, s') \<and> kinv s' q \<and> pmap.more s' = pmap.more s \<and>
    maps_to s s' c va (Some (mkpte (PPN pte) perm)) \<and> pm_frame 0 s s' (dirs s) \<and> npage s' = npage s \<and>
    page_free_list s' = page_free_list s \<and> (\<forall>d \<in> dirs s. \<forall>k. has_tab s' d k \<longleftrightarrow> has_tab s d k)"
proof -
  note D = copyingD [OF cp]
  note u = legal_va [OF va]
  from D(1) obtain X xs where vm: "vm_inv s (dirs s) X xs" by (auto simp: kinv_def kinv0_def mem_ok_def)
  note pl = page_lookup_eq [OF vm D(5) u, unfolded src, simplified]
  let ?s' = "pte_store (tab s (pgdir_of s c) (PDX va), PTX va) (mkpte (PPN pte) perm)
    (tlb_invalidate (env_asid (envs s c)) va s)"
  have r: "page_insert (pgdir_of s c) (env_asid (envs s c)) (PPN pte) va perm s = Some (Inr (), ?s')"
    using page_insert_present [OF vm D(5) u src, of "env_asid (envs s c)" "PPN pte" perm] by simp
  note sm = page_insert_same [OF vm D(5) u src perm refl, where asid = "env_asid (envs s c)"]
  note fr = insert_same_frame [OF vm D(5) u src r]
  have "sys_mem_map 0 va 0 va perm s = Some (Returns (Inr 0), ?s')"
    using va D(8) pl r by (simp add: sys_mem_map_def pgdir_of_def)
  moreover have "maps_to s ?s' c va (Some (mkpte (PPN pte) perm))" using sm(2) by (simp add: maps_to_def pgdir_of_def)
  moreover have m: "pmap.more ?s' = pmap.more s" by simp
  ultimately show ?thesis
    using kinv_vm(1) [OF D(1) m sm(1)] fr by (simp add: syscall_mem_map_def)
qed

section \<open>\<^verbatim>\<open>duppage\<close>\<close>

definition writable :: "u32 \<Rightarrow> bool" where
  "writable pte \<longleftrightarrow> pte AND PTE_D \<noteq> 0 \<and> pte AND PTE_LIBRARY = 0"

text \<open>The entries that the child and the parent have afterwards for a page of the parent.\<close>

definition child_pte :: "u32 \<Rightarrow> u32" where
  "child_pte pte = mkpte (PPN pte) (if writable pte then PTE_COW else PTE_FLAGS pte)"

definition parent_pte :: "u32 \<Rightarrow> u32" where
  "parent_pte pte = (if writable pte then mkpte (PPN pte) PTE_COW else pte)"

lemma flag_bits:
  "pte AND 0xfff = PTE_FLAGS pte" "(PTE_FLAGS pte AND lnot PTE_D) OR PTE_COW = PTE_COW"
  "PTE_FLAGS pte AND PTE_D = 0 \<or> PTE_FLAGS pte AND PTE_LIBRARY \<noteq> 0 \<longleftrightarrow> \<not> writable pte"
proof -
  have "PTE_FLAGS pte AND PTE_D = pte AND PTE_D" "PTE_FLAGS pte AND PTE_LIBRARY = pte AND PTE_LIBRARY"
    by (simp_all add: PTE_FLAGS_def and.assoc) (simp_all add: mos_consts)
  then show "PTE_FLAGS pte AND PTE_D = 0 \<or> PTE_FLAGS pte AND PTE_LIBRARY \<noteq> 0 \<longleftrightarrow> \<not> writable pte"
    by (simp add: writable_def)
  show "(PTE_FLAGS pte AND lnot PTE_D) OR PTE_COW = PTE_COW" by (simp add: lnot_def) (simp add: mos_consts)
qed (simp add: PTE_FLAGS_def)

lemma PTE_FLAGS_less [simp]: "PTE_FLAGS pte < 4096"
  by (simp add: PTE_FLAGS_def word_less_nat_alt unat_and_4095)

lemma vpn_address:
  assumes "i < 509" "j < 1024"
  shows "vaddr (of_nat (i * 1024 + j) * PAGE_SIZE) = (i, j)" "PDX (of_nat (i * 1024 + j) * PAGE_SIZE) = i"
    "is_illegal_va (of_nat (i * 1024 + j) * PAGE_SIZE) \<longleftrightarrow> i * 1024 + j < 1022"
proof -
  let ?va = "of_nat (i * 1024 + j) * PAGE_SIZE"
  have b: "i * 1024 + j < 521216" using assms by simp
  have u: "unat ?va = (i * 1024 + j) * 4096"
  proof -
    have "?va = of_nat ((i * 1024 + j) * 4096)" by (simp add: PAGE_SIZE_def)
    moreover have "(i * 1024 + j) * 4096 < 2 ^ 32" using b by simp
    ultimately show ?thesis by (simp only: unat_of_nat_u32)
  qed
  have "k div 2 ^ 22 = k div 4096 div 1024" for k :: nat by (simp add: div_mult2_eq [symmetric])
  then show p: "PDX ?va = i" unfolding PDX_eq u using assms(2) by simp
  have "PTX ?va = j" unfolding PTX_eq u using assms(2) by simp
  with p show "vaddr ?va = (i, j)" by (simp add: vaddr_def)
  have "unat UTEMP = 1022 * 4096" "unat UTOP = 521216 * 4096" by (simp_all add: mos_consts)
  then show "is_illegal_va ?va \<longleftrightarrow> i * 1024 + j < 1022"
    unfolding is_illegal_va_def word_less_nat_alt word_le_nat_alt u using b by auto
qed

lemma pm_frame_trans:
  assumes "pm_frame n s s1 D" "pm_frame m s1 s2 D" "npage s1 = npage s"
    "\<And>p. maps s D p \<noteq> {} \<Longrightarrow> maps s1 D p \<noteq> {}"
  shows "pm_frame (n + m) s s2 D"
proof -
  have "unat (pp_ref s2 p) \<le> unat (pp_ref s p) + (n + m)" if "p < npage s" for p
    using assms(1,2) that le_trans [of "unat (pp_ref s2 p)" "unat (pp_ref s1 p) + m"]
    by (auto simp: pm_frame_def assms(3))
  then show ?thesis using assms(1,2,4) by (auto simp: pm_frame_def)
qed

lemma maps_mono:
  assumes "\<And>d ij pte. d \<in> D \<Longrightarrow> as_map s d ij = Some pte \<Longrightarrow> \<exists>pte'. as_map s' d ij = Some pte' \<and> PPN pte' = PPN pte"
    "maps s D p \<noteq> {}"
  shows "maps s' D p \<noteq> {}"
proof -
  from assms(2) obtain d i j pte where "d \<in> D" "as_map s d (i, j) = Some pte" "PPN pte = p"
    by (auto simp: maps_def)
  with assms(1) [of d "(i, j)" pte] show ?thesis by (auto simp: maps_def)
qed

lemma duppage_ok:
  assumes cp: "copying s q c e v" and i: "i < 509" "j < 1024" "1022 \<le> i * 1024 + j" and room: "refs_room s"
    and src: "as_map s (pgdir_of s c) (i, j) = Some pte" and dst: "as_map s (pgdir_of s e) (i, j) = None"
    and mem: "free_pages s (n + (if has_tab s (pgdir_of s e) i then 0 else 1))"
  shows "\<exists>s'. duppage v (i * 1024 + j) s = Some s' \<and> kinv s' q \<and> pmap.more s' = pmap.more s \<and>
    (\<forall>d \<in> dirs s. as_map s' d =
      (if d = pgdir_of s e then (as_map s d)((i, j) \<mapsto> child_pte pte)
       else if d = pgdir_of s c then (as_map s d)((i, j) \<mapsto> parent_pte pte) else as_map s d)) \<and>
    pm_frame 1 s s' (dirs s) \<and> npage s' = npage s \<and> free_pages s' n \<and>
    (\<forall>d \<in> dirs s. \<forall>k. has_tab s' d k \<longleftrightarrow> has_tab s d k \<or> d = pgdir_of s e \<and> k = i)"
proof -
  note D = copyingD [OF cp]
  define va0 :: u32 where "va0 = of_nat (i * 1024 + j) * PAGE_SIZE"
  note va = vpn_address [OF i(1,2), folded va0_def]
  have lg: "\<not> is_illegal_va va0" using i(3) va(3) by simp
  have "has_tab s (pgdir_of s c) i" "pte = upte s (pgdir_of s c) i j" using src by (auto simp: as_map_def split: if_splits)
  with vpt_user [OF D(1,2,10) i(1,2)] have rd: "vpt (i * 1024 + j) s = Some (pte, s)" by simp
  let ?p = "if writable pte then PTE_COW else PTE_FLAGS pte"
  have perm: "?p < 4096" by simp
  from map_child [OF cp lg perm room, unfolded va(1,2), OF src dst mem] obtain s1 where
    s1: "syscall_mem_map 0 va0 v va0 ?p s = Some (0, s1)" "kinv s1 q" "pmap.more s1 = pmap.more s"
      "maps_to s s1 e va0 (Some (child_pte pte))" "pm_frame 1 s s1 (dirs s)" "npage s1 = npage s" "free_pages s1 n"
      "\<forall>d \<in> dirs s. \<forall>k. has_tab s1 d k \<longleftrightarrow> has_tab s d k \<or> d = pgdir_of s e \<and> k = i"
    by (auto simp: child_pte_def)
  have am1: "as_map s1 d = (if d = pgdir_of s e then (as_map s d)((i, j) \<mapsto> child_pte pte) else as_map s d)"
    if "d \<in> dirs s" for d using s1(4) that by (simp add: maps_to_def va(1) pgdir_of_def)
  show ?thesis
  proof (cases "writable pte")
    case False
    then have "duppage v (i * 1024 + j) s = Some s1"
      using rd s1(1) by (simp add: duppage_def va0_def [symmetric] flag_bits Let_def del: of_nat_add of_nat_mult)
    moreover have "parent_pte pte = pte" using False by (simp add: parent_pte_def)
    then have "(as_map s (pgdir_of s c))((i, j) \<mapsto> parent_pte pte) = as_map s (pgdir_of s c)"
      using src by (simp add: fun_upd_idem)
    ultimately show ?thesis using s1(2-) am1 by (intro exI [of _ s1]) auto
  next
    case True
    note st = copying_step [OF cp s1(2,3,5)]
    have src1: "as_map s1 (pgdir_of s1 c) (vaddr va0) = Some pte"
      using am1 [OF D(5)] D(7) src by (simp add: st(2) va(1))
    from map_again [OF st(1) lg _ src1, of PTE_COW] obtain s2 where
      s2: "syscall_mem_map 0 va0 0 va0 PTE_COW s1 = Some (0, s2)" "kinv s2 q" "pmap.more s2 = pmap.more s1"
        "maps_to s1 s2 c va0 (Some (mkpte (PPN pte) PTE_COW))" "pm_frame 0 s1 s2 (dirs s)" "npage s2 = npage s1"
        "page_free_list s2 = page_free_list s1" "\<forall>d \<in> dirs s. \<forall>k. has_tab s2 d k \<longleftrightarrow> has_tab s1 d k"
      unfolding st(3) by auto
    have "duppage v (i * 1024 + j) s = Some s2"
      using True rd s1(1) s2(1) by (simp add: duppage_def va0_def [symmetric] flag_bits Let_def del: of_nat_add of_nat_mult)
    moreover have "maps s1 (dirs s) p \<noteq> {}" if "maps s (dirs s) p \<noteq> {}" for p
      by (rule maps_mono [OF _ that]) (use am1 dst in auto)
    from pm_frame_trans [OF s1(5) s2(5) s1(6) this] have "pm_frame 1 s s2 (dirs s)" by simp
    moreover have "as_map s2 d = (if d = pgdir_of s e then (as_map s d)((i, j) \<mapsto> child_pte pte)
       else if d = pgdir_of s c then (as_map s d)((i, j) \<mapsto> parent_pte pte) else as_map s d)" if "d \<in> dirs s" for d
    proof -
      have pc: "env_pgdir (envs s1 c) = pgdir_of s c" using st(2) by (metis pgdir_of_def)
      have "as_map s2 d = (if d = pgdir_of s c then (as_map s1 d)((i, j) \<mapsto> parent_pte pte) else as_map s1 d)"
        using s2(4) that True by (simp add: maps_to_def va(1) st(3) pc parent_pte_def)
      then show ?thesis using am1 [OF that] D(7) by auto
    qed
    moreover have "free_pages s2 n" using s1(7) s2(7) by (simp add: free_pages_def)
    ultimately show ?thesis using s1(3,6,8) s2(2,3,6,8) by (intro exI [of _ s2]) auto
  qed
qed

text \<open>Pages below \<^verbatim>\<open>UTEMP\<close> are refused by the calls, and \<^verbatim>\<open>duppage\<close> does nothing.\<close>

lemma duppage_low:
  assumes cp: "copying s q c e v" and i: "i < 509" "j < 1024" "i * 1024 + j < 1022"
    and t: "has_tab s (pgdir_of s c) i"
  shows "duppage v (i * 1024 + j) s = Some s"
proof -
  note D = copyingD [OF cp]
  define va0 :: u32 where "va0 = of_nat (i * 1024 + j) * PAGE_SIZE"
  have "is_illegal_va va0" unfolding va0_def using i(3) vpn_address(3) [OF i(1,2)] by simp
  then have m: "syscall_mem_map a va0 b va p s = Some (err_word E_INVAL, s)" for a b va p
    by (simp add: syscall_mem_map_def sys_mem_map_def)
  show ?thesis using vpt_user [OF D(1,2,10) i(1,2) t] by (simp add: duppage_def va0_def [symmetric] m Let_def del: of_nat_add of_nat_mult)
qed

section \<open>The loops of \<^verbatim>\<open>fork\<close>\<close>

text \<open>The indices of a virtual page number.\<close>

definition ij :: "nat \<Rightarrow> nat \<times> nat" where
  "ij n = (n div 1024, n mod 1024)"

lemma ij_eq [simp]: "ij n = ij m \<longleftrightarrow> n = m"
  unfolding ij_def by (metis div_mult_mod_eq prod.inject)

lemma ij_pair: "j < 1024 \<Longrightarrow> ij (i * 1024 + j) = (i, j)"
  by (simp add: ij_def)

text \<open>The pages that are copied, and the number of mapped pages below a bound.\<close>

definition copied_page :: "nat \<Rightarrow> bool" where
  "copied_page n \<longleftrightarrow> 1022 \<le> n \<and> n < VPN USTACKTOP"

definition mapped :: "'z pmap_scheme \<Rightarrow> nat \<Rightarrow> nat \<Rightarrow> nat" where
  "mapped s d k = card {n. n < k \<and> as_map s d (ij n) \<noteq> None}"

lemma mapped_mono: "k \<le> k' \<Longrightarrow> mapped s d k \<le> mapped s d k'"
  unfolding mapped_def by (rule card_mono) auto

lemma mapped_Suc: "as_map s d (ij k) \<noteq> None \<Longrightarrow> mapped s d (Suc k) = mapped s d k + 1"
proof -
  assume "as_map s d (ij k) \<noteq> None"
  then have "{n. n < Suc k \<and> as_map s d (ij n) \<noteq> None} = insert k {n. n < k \<and> as_map s d (ij n) \<noteq> None}"
    by (auto simp: less_Suc_eq)
  then show ?thesis by (simp add: mapped_def)
qed

definition own_tabs :: "'z pmap_scheme \<Rightarrow> nat \<Rightarrow> nat set" where
  "own_tabs s d = {i. i < 509 \<and> has_tab s d i}"

text \<open>
  The invariant of the loops: the pages below \<open>k\<close> have been copied, and enough memory is left for
  the others.
\<close>

definition copied :: "kern \<Rightarrow> nat list \<Rightarrow> nat \<Rightarrow> nat \<Rightarrow> u32 \<Rightarrow> nat \<Rightarrow> kern \<Rightarrow> bool" where
  "copied s0 q c e v k s \<longleftrightarrow>
     copying s q c e v \<and> pmap.more s = pmap.more s0 \<and> npage s = npage s0 \<and>
     (\<forall>n. as_map s (pgdir_of s0 c) (ij n) = (if copied_page n \<and> n < k
        then map_option parent_pte (as_map s0 (pgdir_of s0 c) (ij n)) else as_map s0 (pgdir_of s0 c) (ij n))) \<and>
     (\<forall>n. as_map s (pgdir_of s0 e) (ij n) = (if copied_page n \<and> n < k
        then map_option child_pte (as_map s0 (pgdir_of s0 c) (ij n)) else None)) \<and>
     (\<forall>d \<in> dirs s0. d \<noteq> pgdir_of s0 c \<and> d \<noteq> pgdir_of s0 e \<longrightarrow> as_map s d = as_map s0 d) \<and>
     pm_frame (mapped s0 (pgdir_of s0 c) k) s0 s (dirs s0) \<and>
     own_tabs s (pgdir_of s0 c) = own_tabs s0 (pgdir_of s0 c) \<and>
     free_pages s (card (own_tabs s0 (pgdir_of s0 c) - own_tabs s (pgdir_of s0 e)))"

lemma copied_skip:
  assumes "copied s0 q c e v k s" "k \<le> k'"
    "\<And>n. k \<le> n \<Longrightarrow> n < k' \<Longrightarrow> copied_page n \<Longrightarrow> as_map s0 (pgdir_of s0 c) (ij n) = None"
  shows "copied s0 q c e v k' s"
proof -
  have "pm_frame (mapped s0 (pgdir_of s0 c) k') s0 s (dirs s0)"
    using assms(1) mapped_mono [OF assms(2), of s0 "pgdir_of s0 c"] by (force simp: copied_def pm_frame_def)
  moreover have "as_map s0 (pgdir_of s0 c) (ij n) = None" if "copied_page n" "n < k'" "\<not> n < k" for n
    using assms(3) [of n] that by simp
  ultimately show ?thesis using assms(1,2) unfolding copied_def by auto
qed

lemma copied_refs:
  assumes "copied s0 q c e v k s" "\<forall>p < npage s0. unat (pp_ref s0 p) + mapped s0 (pgdir_of s0 c) n < 65535" "k \<le> n"
  shows "refs_room s"
  unfolding refs_room_def
proof (intro allI impI)
  fix p assume "p < npage s"
  then have p: "p < npage s0" using assms(1) by (simp add: copied_def)
  then have "unat (pp_ref s p) \<le> unat (pp_ref s0 p) + mapped s0 (pgdir_of s0 c) k"
    using assms(1) by (simp add: copied_def pm_frame_def)
  with assms(2) p mapped_mono [OF assms(3), of s0 "pgdir_of s0 c"] show "unat (pp_ref s p) < 65535"
    by (meson add_le_cancel_left le_less_trans le_trans)
qed

lemma copied_maps:
  assumes "copied s0 q c e v k s" "as_map s0 (pgdir_of s0 e) = Map.empty"
    "maps s0 (dirs s0) p \<noteq> {}"
  shows "maps s (dirs s0) p \<noteq> {}"
proof (rule maps_mono [OF _ assms(3)])
  fix d x pte assume d: "d \<in> dirs s0" "as_map s0 d x = Some pte"
  obtain i j where x: "x = (i, j)" by (cases x)
  with d have "j < 1024" by (auto simp: as_map_def split: if_splits)
  with x have n: "x = ij (i * 1024 + j)" by (simp add: ij_pair)
  have p: "PPN (parent_pte pte) = PPN pte"
    using mkpte_PPN [OF PPN_less, of PTE_COW pte] by (simp add: parent_pte_def)
  show "\<exists>pte'. as_map s d x = Some pte' \<and> PPN pte' = PPN pte"
  proof (cases "d = pgdir_of s0 c")
    case True
    then show ?thesis using assms(1) d(2) p unfolding n by (auto simp: copied_def)
  next
    case False
    moreover have "d \<noteq> pgdir_of s0 e" using d(2) assms(2) by auto
    ultimately show ?thesis using assms(1) d by (auto simp: copied_def)
  qed
qed

text \<open>
  What the copying starts from: a child with an empty address space, a free page for every page
  table of the parent, and reference counts with room for one more reference per mapped page.
\<close>

definition fork_start :: "kern \<Rightarrow> nat list \<Rightarrow> nat \<Rightarrow> nat \<Rightarrow> u32 \<Rightarrow> bool" where
  "fork_start s q c e v \<longleftrightarrow> copying s q c e v \<and> as_map s (pgdir_of s e) = Map.empty \<and>
     free_pages s (card (own_tabs s (pgdir_of s c))) \<and>
     (\<forall>p < npage s. unat (pp_ref s p) + mapped s (pgdir_of s c) (509 * 1024) < 65535)"

lemma copied_0:
  assumes "fork_start s q c e v"
  shows "copied s q c e v 0 s"
proof -
  have "card (own_tabs s (pgdir_of s c) - own_tabs s (pgdir_of s e)) \<le> card (own_tabs s (pgdir_of s c))"
    by (rule card_mono) (auto simp: own_tabs_def)
  then have "free_pages s (card (own_tabs s (pgdir_of s c) - own_tabs s (pgdir_of s e)))"
    using assms by (auto simp: fork_start_def free_pages_def)
  then show ?thesis using assms by (simp add: copied_def fork_start_def pm_frame_def)
qed

lemma copied_page_bound: "copied_page n \<Longrightarrow> n < 509 * 1024"
  by (simp add: copied_page_def VPN_eq mos_consts)

lemma fork_page_ok:
  assumes st: "fork_start s0 q c e v" and cp: "copied s0 q c e v (i * 1024 + j) s"
    and i: "i < 509" "j < 1024" "has_tab s0 (pgdir_of s0 c) i"
  shows "\<exists>s'. fork_page v i j s = Some s' \<and> copied s0 q c e v (Suc (i * 1024 + j)) s'"
proof -
  let ?n = "i * 1024 + j" and ?pc = "pgdir_of s0 c" and ?pe = "pgdir_of s0 e"
  have c: "copying s q c e v" using cp by (simp add: copied_def)
  note D = copyingD [OF c]
  have m: "pmap.more s = pmap.more s0" using cp by (simp add: copied_def)
  note k = kern_more [OF m]
  have pd: "pgdir_of s x = pgdir_of s0 x" for x by (simp add: pgdir_of_def k)
  have lv: "live s = live s0" by (simp add: live_def k)
  have dr: "dirs s = dirs s0" by (simp add: dirs_def pd lv)
  have ht: "has_tab s ?pc i" using cp i by (auto simp: copied_def own_tabs_def)
  note rd = vpt_user [OF D(1,2,10), unfolded pd, OF i(1,2) ht]
  have src: "as_map s ?pc (i, j) = as_map s0 ?pc (i, j)" "as_map s ?pe (i, j) = None"
    using cp ij_pair [OF i(2), of i] unfolding copied_def by (metis less_irrefl)+
  have up: "as_map s ?pc (i, j) = (if pte_valid (upte s ?pc i j) then Some (upte s ?pc i j) else None)"
    using i ht by (simp add: as_map_def)
  have sk: "copied s0 q c e v (Suc ?n) s" if "copied_page ?n \<Longrightarrow> as_map s0 ?pc (i, j) = None"
    by (rule copied_skip [OF cp]) (use that ij_pair [OF i(2), of i] in \<open>auto simp: less_Suc_eq_le\<close>)
  show ?thesis
  proof (cases "?n < VPN USTACKTOP \<and> pte_valid (upte s ?pc i j)")
    case False
    then have "copied s0 q c e v (Suc ?n) s" using sk src(1) up by (auto simp: copied_page_def)
    then show ?thesis using False rd by (auto simp: fork_page_def Let_def pte_valid_def)
  next
    case True
    let ?pte = "upte s ?pc i j"
    have run: "fork_page v i j s = duppage v ?n s" using True rd by (simp add: fork_page_def Let_def pte_valid_def)
    show ?thesis
    proof (cases "1022 \<le> ?n")
      case False
      then have "duppage v ?n s = Some s" using duppage_low [OF c i(1,2)] ht by (simp add: pd)
      moreover have "copied s0 q c e v (Suc ?n) s" by (rule sk) (use False in \<open>simp add: copied_page_def\<close>)
      ultimately show ?thesis using run by simp
    next
      case low: True
      let ?A = "own_tabs s0 ?pc" and ?B = "own_tabs s ?pe"
      have room: "refs_room s"
        by (rule copied_refs [OF cp]) (use st i in \<open>auto simp: fork_start_def\<close>)
      have iA: "i \<in> ?A" using i by (simp add: own_tabs_def)
      have fin: "finite ?A" by (simp add: own_tabs_def)
      have "card (?A - ?B) = card (?A - insert i ?B) + (if has_tab s ?pe i then 0 else 1)"
      proof (cases "has_tab s ?pe i")
        case True
        then have "insert i ?B = ?B" using i by (auto simp: own_tabs_def)
        then show ?thesis using True by simp
      next
        case False
        then have "?A - ?B = insert i (?A - insert i ?B)" using iA by (auto simp: own_tabs_def)
        then have "card (?A - ?B) = card (insert i (?A - insert i ?B))" by (rule arg_cong)
        also have "\<dots> = card (?A - insert i ?B) + 1" using fin by simp
        finally show ?thesis using False by simp
      qed
      then have mem: "free_pages s (card (?A - insert i ?B) + (if has_tab s ?pe i then 0 else 1))"
        using cp by (simp add: copied_def)
      have ms: "as_map s ?pc (i, j) = Some ?pte" using up True by simp
      from duppage_ok [OF c i(1,2) low room, unfolded pd, OF ms src(2) mem] obtain s' where
        s': "duppage v ?n s = Some s'" "kinv s' q" "pmap.more s' = pmap.more s"
          "\<forall>d \<in> dirs s. as_map s' d =
            (if d = ?pe then (as_map s d)((i, j) \<mapsto> child_pte ?pte)
             else if d = ?pc then (as_map s d)((i, j) \<mapsto> parent_pte ?pte) else as_map s d)"
          "pm_frame 1 s s' (dirs s)" "npage s' = npage s" "free_pages s' (card (?A - insert i ?B))"
          "\<forall>d \<in> dirs s. \<forall>k. has_tab s' d k \<longleftrightarrow> has_tab s d k \<or> d = ?pe \<and> k = i" by blast
      have dd: "?pc \<in> dirs s" "?pe \<in> dirs s" "?pe \<noteq> ?pc" using D(5-7) by (simp_all add: pd)
      have s0p: "as_map s0 ?pc (ij ?n) = Some ?pte" using src(1) up True ij_pair [OF i(2)] by simp
      have cpg: "copied_page ?n" using True low by (simp add: copied_page_def)
      have "pm_frame (mapped s0 ?pc ?n + 1) s0 s' (dirs s0)"
      proof (rule pm_frame_trans)
        show "pm_frame (mapped s0 ?pc ?n) s0 s (dirs s0)" "npage s = npage s0" using cp by (simp_all add: copied_def)
        show "pm_frame 1 s s' (dirs s0)" using s'(5) by (simp add: dr)
        show "maps s (dirs s0) p \<noteq> {}" if "maps s0 (dirs s0) p \<noteq> {}" for p
          by (rule copied_maps [OF cp _ that]) (use st in \<open>simp add: fork_start_def\<close>)
      qed
      then have fr: "pm_frame (mapped s0 ?pc (Suc ?n)) s0 s' (dirs s0)"
        using mapped_Suc [of s0 ?pc ?n] s0p by simp
      have ow: "own_tabs s' ?pc = own_tabs s ?pc" "own_tabs s' ?pe = insert i ?B"
        using s'(8) dd i(1) by (auto simp: own_tabs_def)
      have ipair: "(i, j) = ij ?n" using ij_pair [OF i(2)] by simp
      have am: "as_map s' ?pc (ij n) = (if copied_page n \<and> n < Suc ?n
          then map_option parent_pte (as_map s0 ?pc (ij n)) else as_map s0 ?pc (ij n))"
        "as_map s' ?pe (ij n) = (if copied_page n \<and> n < Suc ?n
          then map_option child_pte (as_map s0 ?pc (ij n)) else None)" for n
      proof -
        have c1: "as_map s ?pc (ij n) = (if copied_page n \<and> n < ?n
            then map_option parent_pte (as_map s0 ?pc (ij n)) else as_map s0 ?pc (ij n))"
          "as_map s ?pe (ij n) = (if copied_page n \<and> n < ?n
            then map_option child_pte (as_map s0 ?pc (ij n)) else None)" using cp by (simp_all add: copied_def)
        show "as_map s' ?pc (ij n) = (if copied_page n \<and> n < Suc ?n
          then map_option parent_pte (as_map s0 ?pc (ij n)) else as_map s0 ?pc (ij n))"
          "as_map s' ?pe (ij n) = (if copied_page n \<and> n < Suc ?n
          then map_option child_pte (as_map s0 ?pc (ij n)) else None)"
          using s'(4) dd c1 cpg s0p unfolding ipair by (auto simp: less_Suc_eq)
      qed
      have "copying s' q c e v" by (rule copying_step(1) [OF c s'(2,3,5)])
      then have "copied s0 q c e v (Suc ?n) s'"
        using cp s'(3,6,7) s'(4) dr fr ow am unfolding copied_def by simp
      then show ?thesis using run s'(1) by simp
    qed
  qed
qed

lemma fork_pde_ok:
  assumes st: "fork_start s0 q c e v" and cp: "copied s0 q c e v (i * 1024) s" and i: "i < 509"
  shows "\<exists>s'. fork_pde v i s = Some s' \<and> copied s0 q c e v (Suc i * 1024) s'"
proof -
  let ?pc = "pgdir_of s0 c"
  have c: "copying s q c e v" using cp by (simp add: copied_def)
  note D = copyingD [OF c]
  have "pmap.more s = pmap.more s0" using cp by (simp add: copied_def)
  from kern_more(1) [OF this] have pd: "pgdir_of s c = ?pc" by (simp add: pgdir_of_def)
  have rd: "vpd i s = Some (pm s ?pc i, s)" using vpd_user [OF D(1,2,10)] i by (simp add: pd)
  have ht: "has_tab s ?pc i \<longleftrightarrow> has_tab s0 ?pc i" using cp i by (auto simp: copied_def own_tabs_def)
  show ?thesis
  proof (cases "has_tab s0 ?pc i")
    case True
    have "\<exists>s'. mfold (fork_page v i) [0..<1024] s = Some s' \<and> copied s0 q c e v (i * 1024 + 1024) s'"
      by (rule mfold_upt [where P = "\<lambda>j. copied s0 q c e v (i * 1024 + j)"])
        (use cp fork_page_ok [OF st _ i _ True] in simp_all)
    then show ?thesis using rd ht True by (simp add: fork_pde_def has_tab_def pte_valid_def algebra_simps)
  next
    case False
    have "as_map s0 ?pc (ij n) = None" if "i * 1024 \<le> n" "n < Suc i * 1024" for n
    proof -
      have "n div 1024 = i" using that by (intro div_nat_eqI) simp_all
      then show ?thesis using False by (simp add: ij_def as_map_def)
    qed
    then have "copied s0 q c e v (Suc i * 1024) s" by (intro copied_skip [OF cp]) simp_all
    then show ?thesis using rd ht False by (simp add: fork_pde_def has_tab_def pte_valid_def)
  qed
qed

lemma fork_loop_ok:
  assumes "fork_start s q c e v"
  shows "\<exists>s'. mfold (fork_pde v) [0..<PDX (ROUND USTACKTOP PDMAP)] s = Some s' \<and> copied s q c e v (509 * 1024) s'"
proof -
  have n: "PDX (ROUND USTACKTOP PDMAP) = 509" by (simp add: ROUND_def PDX_eq mos_consts)
  show ?thesis unfolding n
    by (rule mfold_upt [where P = "\<lambda>i. copied s q c e v (i * 1024)"])
      (use copied_0 [OF assms] fork_pde_ok [OF assms] in simp_all)
qed

section \<open>The child\<close>

text \<open>What \<^verbatim>\<open>sys_exofork\<close> takes from the free pages: one, for the directory of the child.\<close>

lemma env_setup_vm_frame:
  assumes inv: "vm_inv s D X (p # xs)" and r: "env_setup_vm e s = Some (Inr (), s')"
  shows "lrep (page_free_list s') xs" "pp_ref s' = (pp_ref s)(p := 1)" "\<forall>r. r \<noteq> p \<longrightarrow> pm s' r = pm s r"
    "env_pgdir (envs s' e) = p" "pm s' p (PDX UVPT) = page2pa p OR PTE_V" "npage s' = npage s"
proof -
  obtain fl where pa: "page_alloc s =
      Some (Inr p, s\<lparr>page_free_list := fl, pm := (pm s)(p := (\<lambda>_. 0))\<rparr>)" "lrep fl xs"
    by (rule page_alloc_ok [OF inv])
  define s1 where "s1 = s\<lparr>page_free_list := fl, pm := (pm s)(p := (\<lambda>_. 0))\<rparr>"
  note c = clear_page_inv [OF inv pa(1) [folded s1_def]]
  let ?s2 = "s1\<lparr>pp_ref := (pp_ref s1)(p := pp_ref s1 p + 1)\<rparr>"
  have kva: "page2kva p ?s2 = Some p"
    using c(10) vm_invD(1) [OF c(1)] by (intro KADDR_page) simp_all
  let ?s3 = "upd_env e (\<lambda>v. v\<lparr>env_pgdir := p\<rparr>) ?s2"
  have run: "s' = pte_store (p, PDX UVPT) (page2pa p OR PTE_V) (?s3\<lparr>pm := (pm ?s3)(p := (\<lambda>k.
     if PDX UTOP \<le> k \<and> k < PDX UVPT then pm ?s3 (base_pgdir ?s3) k else pm ?s3 p k))\<rparr>)"
    using kva r by (simp add: env_setup_vm_def pa(1) s1_def [symmetric] Let_def)
  show "lrep (page_free_list s') xs" "pp_ref s' = (pp_ref s)(p := 1)"
    "\<forall>r. r \<noteq> p \<longrightarrow> pm s' r = pm s r" "env_pgdir (envs s' e) = p" "pm s' p (PDX UVPT) = page2pa p OR PTE_V"
    "npage s' = npage s"
    using pa(2) c(3,4,5) by (simp_all add: run) (simp_all add: s1_def upd_env_def pte_store_def)
qed

lemma exofork_frame:
  assumes inv: "kinv s q" and c: "curenv s = Some c" and r: "sys_exofork s = Some (Returns (Inr v), s')"
  shows "\<exists>p xs. lrep (page_free_list s) (p # xs) \<and> lrep (page_free_list s') xs \<and> pp_ref s' = (pp_ref s)(p := 1) \<and>
    (\<forall>r. r \<noteq> p \<longrightarrow> pm s' r = pm s r) \<and> npage s' = npage s \<and> p \<notin> dirs s \<and> maps s (dirs s) p = {} \<and>
    self_mapped s' (pgdir_of s' (ENVX v)) \<and> pgdir_of s' (ENVX v) = p \<and> env_user_tlb_mod_entry (envs s' (ENVX v)) = 0"
proof -
  from inv have inv0: "kinv0 s q" by (simp add: kinv_def)
  from inv obtain X xs where vm: "vm_inv s (dirs s) X xs" by (auto simp: kinv_def kinv0_def mem_ok_def)
  from inv0 obtain fl where fl: "lrep (env_free_list s) fl" by (auto simp: kinv0_def free_envs_ok_def)
  from r c obtain e s2 where ea: "env_alloc (env_id (envs s c)) s = Some (Inr e, s2)"
    and s': "v = env_id (envs s2 e)" "pm s' = pm s2" "pp_ref s' = pp_ref s2" "page_free_list s' = page_free_list s2"
      "npage s' = npage s2" "env_pgdir (envs s' e) = env_pgdir (envs s2 e)"
      "env_user_tlb_mod_entry (envs s' e) = env_user_tlb_mod_entry (envs s2 e)"
    by (auto simp: sys_exofork_def Let_def upd_env_def split: bind_splits sum.splits)
  have fe: "ENVX v = e" using env_alloc_ok [OF inv0 ea] s'(1) by (simp add: fresh_env_def)
  from ea fl obtain f es where es: "fl = f # es" by (cases fl) (auto simp: env_alloc_eq lrep_EMPTY)
  have first: "\<not> LIST_EMPTY (env_free_list s)" "LIST_FIRST (env_free_list s) = Some f"
    using fl es by (simp_all add: lrep_EMPTY lrep_FIRST)
  obtain p ps where xs: "xs = p # ps"
    using ea first vm by (cases xs) (auto simp: env_alloc_eq env_setup_vm_fail)
  from env_setup_vm_ok [OF vm [unfolded xs], of f] obtain s1 where
    s1: "env_setup_vm f s = Some (Inr (), s1)" "pmap.more s1 = pmap.more (upd_env f (\<lambda>v. v\<lparr>env_pgdir := p\<rparr>) s)" by blast
  note fr = env_setup_vm_frame [OF vm [unfolded xs] s1(1)]
  from ea first s1(1) have tail: "env_alloc_tail (env_id (envs s c)) f s1 = Some (Inr e, s2)" by (simp add: env_alloc_eq)
  have l1: "lrep (env_free_list s1) (f # es)" using kern_more(3) [OF s1(2)] fl es by simp
  note ta = env_alloc_tail_ok [OF tail l1]
  have pd: "pgdir_of s' e = p" using ta(1,5) fr(4) s'(6) by (simp add: pgdir_of_def)
  have "lrep (page_free_list s) (p # ps)" using vm_invD(6) [OF vm] xs by simp
  moreover have "p \<notin> dirs s" "maps s (dirs s) p = {}" using free_unused(1,3) [OF vm, of p] xs by auto
  ultimately show ?thesis
    using fr(1-3,5,6) ta(1,11,16-19) s' pd unfolding fe self_mapped_def by auto
qed

end
