(* ===== verification/Cow_Inv.thy ===== *)
theory Cow_Inv
  imports Fork_Inv
begin

unbundle bit_operations_syntax

text \<open>
  The steps of the copy-on-write handler \<^verbatim>\<open>cow_entry\<close>: accesses to mapped pages, a fresh page at
  \<^verbatim>\<open>UCOW\<close>, the copy of a page, and the exchange of one mapping for another.
\<close>

section \<open>Accesses to mapped pages\<close>

lemma refill_mapped:
  assumes "kinv s q" "curenv s = Some c" "va < UTOP" "as_map s (pgdir_of s c) (vaddr va) = Some e"
  shows "user_pte va s = Some (e, s)"
proof -
  from assms(3,4) have e: "pm s (tab s (pgdir_of s c) (PDX va)) (PTX va) = e"
    by (auto simp: as_map_vaddr upte_def split: if_splits)
  have "refill_loop va (user_asid s) s = Some ((tab s (pgdir_of s c) (PDX va), PTX va), s)"
    by (subst refill_loop.simps) (use user_lookup(1) [OF assms(1-3)] assms(4) in simp)
  then show ?thesis using e by (simp add: user_pte_def)
qed

lemma mapped_access:
  assumes "kinv s q" "curenv s = Some c" "va < UTOP" "as_map s (pgdir_of s c) (vaddr va) = Some e"
  shows "kload8 va s = Some (page_byte s (PPN e) (unat va mod 4096), s)"
    "unat va mod 4 = 0 \<Longrightarrow> kload32 va s = Some (pm s (PPN e) (unat va mod 4096 div 4), s)"
    "e AND PTE_D \<noteq> 0 \<Longrightarrow> kstore8 va b s = Some (page_put_byte (PPN e) (unat va mod 4096) b s)"
  using refill_mapped [OF assms] UTOP_ULIM [OF assms(3)]
  by (simp_all add: kload8_def kload32_def kstore8_def not_le)

text \<open>Addresses within a page.\<close>

lemma same_page:
  fixes a :: u32
  assumes "unat a mod 4096 + i < 4096"
  shows "unat (a + of_nat i) = unat a + i" "VPN (a + of_nat i) = VPN a" "vaddr (a + of_nat i) = vaddr a"
    "unat (a + of_nat i) mod 4096 = unat a mod 4096 + i"
proof -
  define k r where "k = unat a div 4096" and "r = unat a mod 4096"
  have a: "unat a = 4096 * k + r" "r + i < 4096" using assms by (simp_all add: k_def r_def)
  have "unat a < 2 ^ 32" using unsigned_less [of a, where ?'a = nat] by simp
  then have k: "k < 2 ^ 20" by (simp add: k_def less_mult_imp_div_less)
  have i: "unat (of_nat i :: u32) = i" using assms by (intro unat_of_nat_u32) simp
  have "unat a + i < 2 ^ 32" using a k by simp
  then show u: "unat (a + of_nat i) = unat a + i" by (simp add: unat_plus_if' i)
  have d: "(4096 * k + r + i) div 4096 = k" "(4096 * k + r) div 4096 = k" using a(2) by simp_all
  then show v: "VPN (a + of_nat i) = VPN a" by (simp add: VPN_eq u a(1))
  then have "PDX (a + of_nat i) * 1024 + PTX (a + of_nat i) = PDX a * 1024 + PTX a" by (simp only: VPN_split)
  then have "(PDX (a + of_nat i) * 1024 + PTX (a + of_nat i)) div 1024 = (PDX a * 1024 + PTX a) div 1024"
    "(PDX (a + of_nat i) * 1024 + PTX (a + of_nat i)) mod 1024 = (PDX a * 1024 + PTX a) mod 1024" by simp_all
  then have "PDX (a + of_nat i) = PDX a \<and> PTX (a + of_nat i) = PTX a"
    by (simp only: div_mult_self3 mod_mult_self3) simp
  then show "vaddr (a + of_nat i) = vaddr a" by (simp add: vaddr_def)
  show "unat (a + of_nat i) mod 4096 = unat a mod 4096 + i"
  proof -
    have "(4096 * k + (r + i)) mod 4096 = r + i" using a(2) by (simp only: mod_mult_self4) simp
    moreover have "(4096 * k + r) mod 4096 = r" using a(2) by (simp only: mod_mult_self4) simp
    ultimately show ?thesis unfolding u a(1) by (simp only: add.assoc)
  qed
qed

lemma same_page_user:
  fixes a :: u32
  assumes "unat a mod 4096 + i < 4096" "a < UTOP"
  shows "a + of_nat i < UTOP"
proof -
  have u: "unat UTOP = 521216 * 4096" by (simp add: mos_consts)
  have k: "w < UTOP \<longleftrightarrow> unat w div 4096 < 521216" for w :: u32
    unfolding word_less_nat_alt u by (simp only: div_less_iff_less_mult zero_less_numeral)
  have "unat (a + of_nat i) div 4096 = unat a div 4096"
    using same_page(2) [OF assms(1)] by (simp add: VPN_eq)
  with assms(2) show ?thesis by (simp only: k)
qed

text \<open>The page of an address.\<close>

lemma PTE_ADDR_aligned: "unat (PTE_ADDR va) mod 4096 = 0"
proof -
  have "PTE_ADDR va AND 0xFFF = 0" by (simp add: PTE_ADDR_def and.assoc)
  then show ?thesis using unat_and_4095 [of "PTE_ADDR va"] by simp
qed

lemma legal_PTE_ADDR: "is_illegal_va (PTE_ADDR va) \<longleftrightarrow> is_illegal_va va"
proof -
  have "unat UTEMP = 1022 * 4096" "unat UTOP = 521216 * 4096" by (simp_all add: mos_consts)
  then have "is_illegal_va w \<longleftrightarrow> \<not> (1022 \<le> unat w div 4096 \<and> unat w div 4096 < 521216)" for w
    unfolding is_illegal_va_def word_le_nat_alt word_less_nat_alt
    by (simp only: less_eq_div_iff_mult_less_eq div_less_iff_less_mult zero_less_numeral not_less not_le de_Morgan_conj)
  then show ?thesis by (simp only: PTE_ADDR_div)
qed

lemma mkpte_writable: "mkpte p PTE_D AND PTE_D \<noteq> 0"
proof -
  have "bit (mkpte p PTE_D AND PTE_D) 8" by (simp add: bit_simps PTE_D_def)
  then show ?thesis by auto
qed

text \<open>A frame of 38 words within a mapped page.\<close>

definition frame_at :: "kern \<Rightarrow> nat \<Rightarrow> u32 \<Rightarrow> Trapframe \<Rightarrow> bool" where
  "frame_at s c tf t \<longleftrightarrow> \<not> is_illegal_va_range tf 152 \<and> unat tf mod 4 = 0 \<and> unat tf mod 4096 + 152 \<le> 4096 \<and>
     (\<exists>e. as_map s (pgdir_of s c) (vaddr tf) = Some e \<and>
        words_tf (map (\<lambda>k. pm s (PPN e) (unat tf mod 4096 div 4 + k)) [0..<38]) = t)"

lemma load_words:
  assumes inv: "kinv s q" "curenv s = Some c" and e: "as_map s (pgdir_of s c) (vaddr a) = Some e"
    and a: "a < UTOP" "unat a mod 4 = 0" "unat a mod 4096 + 4 * n \<le> 4096"
  shows "kloads32 a n s = Some (map (\<lambda>k. pm s (PPN e) (unat a mod 4096 div 4 + k)) [0..<n], s)"
  using e a
proof (induction n arbitrary: a)
  case 0
  then show ?case by simp
next
  case (Suc n)
  have i: "unat a mod 4096 + 4 * 0 < 4096" using Suc.prems(4) by simp
  note ld = mapped_access(2) [OF inv Suc.prems(2,1,3)]
  show ?case
  proof (cases n)
    case 0
    then show ?thesis using ld by simp
  next
    case (Suc m)
    have i: "unat a mod 4096 + 4 < 4096" using Suc.prems(4) Suc by simp
    note sp = same_page [of a 4, OF i, simplified]
    have "unat (a + 4) mod 4 = 0" using Suc.prems(3) by (simp add: sp(1))
    moreover have "unat (a + 4) mod 4096 + 4 * n \<le> 4096" using Suc.prems(4) by (simp add: sp(4))
    moreover have "a + 4 < UTOP" using same_page_user [of a 4, OF i Suc.prems(2)] by simp
    ultimately have "kloads32 (a + 4) n s =
        Some (map (\<lambda>k. pm s (PPN e) (unat (a + 4) mod 4096 div 4 + k)) [0..<n], s)"
      using Suc.IH [of "a + 4"] Suc.prems(1) by (simp add: sp(3))
    moreover have "(unat a mod 4096 + 4) div 4 = unat a mod 4096 div 4 + 1" by simp
    ultimately show ?thesis
      using ld by (simp add: sp(4) upt_conv_Cons map_Suc_upt [symmetric] del: upt_Suc)
  qed
qed

section \<open>The calls of the handler\<close>

text \<open>The contents of all pages that were mapped stay.\<close>

definition keeps_data :: "kern \<Rightarrow> kern \<Rightarrow> bool" where
  "keeps_data s s' \<longleftrightarrow> (\<forall>x. maps s (dirs s) x \<noteq> {} \<longrightarrow> pm s' x = pm s x)"

lemma alloc_page:
  assumes inv: "kinv s q" "curenv s = Some c" and va: "\<not> is_illegal_va va" and perm: "perm < 4096"
    and n: "as_map s (pgdir_of s c) (vaddr va) = None" and mem: "free_pages s 2"
  shows "\<exists>p s'. syscall_mem_alloc 0 va perm s = Some (0, s') \<and> kinv s' q \<and> pmap.more s' = pmap.more s \<and>
    maps s (dirs s) p = {} \<and> p < 2 ^ 20 \<and> unat (pp_ref s' p) \<le> 1 \<and>
    maps_to s s' c va (Some (mkpte p perm)) \<and> keeps_data s s'"
proof -
  note r = running_dir [OF inv] and u = legal_va [OF va]
  from inv obtain X xs where vm: "vm_inv s (dirs s) X xs" by (auto simp: kinv_def kinv0_def mem_ok_def)
  have "2 \<le> length xs" using mem vm_invD(6) [OF vm] lrep_unique by (auto simp: free_pages_def)
  then obtain p ys where xs: "xs = p # ys" "ys \<noteq> []" by (cases xs; cases "tl xs") auto
  with vm obtain fl where "page_alloc s = Some (Inr p, s\<lparr>page_free_list := fl, pm := (pm s)(p := (\<lambda>_. 0))\<rparr>)"
    by (auto elim: page_alloc_ok)
  then obtain s1 where pa: "page_alloc s = Some (Inr p, s1)" and pm1: "pm s1 = (pm s)(p := (\<lambda>_. 0))" by simp
  note cp = clear_page_inv [OF vm [unfolded xs] pa]
  note fu = free_unused [OF vm, of p, unfolded xs, simplified]
  have mp: "mappable s1 (dirs s) X ys p" using cp(4,8,9,10) fu(4) by (simp add: mappable_def)
  from page_insert_ok [OF cp(1) r(3) u _ mp perm, of "env_asid (envs s c)"] xs(2) obtain s' zs where
    s': "page_insert (pgdir_of s c) (env_asid (envs s c)) p va perm s1 = Some (Inr (), s')" "vm_inv s' (dirs s) X zs"
      "\<forall>d' \<in> dirs s. as_map s' d' =
        (if d' = pgdir_of s c then (as_map s1 (pgdir_of s c))(vaddr va \<mapsto> mkpte p perm) else as_map s1 d')"
      "pmap.more s' = pmap.more s1" by blast
  have m: "pmap.more s' = pmap.more s" using s'(4) cp(6) by simp
  note k1 = kern_more(1) [OF cp(6)]
  have n1: "as_map s1 (pgdir_of s c) (vaddr va) = None" using n cp(11) [OF r(3)] by simp
  have pr: "unat (pp_ref s1 p) < 65535" using cp(4) by simp
  from insert_absent_frame(1) [OF cp(1) r(3) u n1 disjI2 [OF xs(2)] pr cp(9) s'(1)] have
    fr: "pm_frame 1 s1 s' (dirs s)" .
  have "maps s1 (dirs s) x = maps s (dirs s) x" for x by (rule maps_eqI) (use cp(11) in auto)
  moreover have "pm s1 x = pm s x" if "maps s (dirs s) x \<noteq> {}" for x
    using that fu(3) pm1 by auto
  ultimately have kd: "keeps_data s s'" using fr by (simp add: keeps_data_def pm_frame_def)
  have "unat (pp_ref s' p) \<le> 1" using fr cp(4,10) by (auto simp: pm_frame_def)
  moreover have "maps_to s s' c va (Some (mkpte p perm))"
    using s'(3) cp(11) r(3) by (simp add: maps_to_def pgdir_of_def)
  moreover have "sys_mem_alloc 0 va perm s = Some (Returns (Inr 0), s')"
    using va pa s'(1) inv(2) by (simp add: sys_mem_alloc_def envid2env_def pgdir_of_def k1)
  moreover have "p < 2 ^ 20" using cp(5,10) vm_invD(1) [OF vm] by simp
  ultimately show ?thesis
    using kinv_vm(1) [OF inv(1) m s'(2)] m fu(3) kd by (auto simp: syscall_mem_alloc_def)
qed

text \<open>Exchanging and removing a mapping writes to page tables only.\<close>

lemma remove_pm:
  assumes "vm_inv s D X xs" "d \<in> D" "va < UTOP" "page_remove d asid va s = Some s'" "x \<notin> tabs s D"
  shows "pm s' x = pm s x"
proof (cases "as_map s d (vaddr va)")
  case None
  then show ?thesis using page_remove_absent [OF assms(1-3) None, of asid] assms(4) by simp
next
  case (Some e)
  have "has_tab s d (PDX va)" using Some assms(3) by (auto simp: as_map_vaddr split: if_splits)
  from tabs_memI [OF assms(2) vaddr_user [OF assms(3)] this] assms(5) have "x \<noteq> tab s d (PDX va)" by auto
  with assms(4) Some show ?thesis
    by (auto simp: page_remove_def page_lookup_eq [OF assms(1-3)] page_decref_def page_free_def Let_def
        split: bind_splits if_splits)
qed

lemma replace_pm:
  assumes inv: "vm_inv s D X xs" and d: "d \<in> D" "va < UTOP" and e: "as_map s d (vaddr va) = Some e" "PPN e \<noteq> pp"
    and r: "page_insert d asid pp va perm s = Some (r, s')" and x: "x \<notin> tabs s D"
  shows "pm s' x = pm s x"
proof -
  from page_remove_present [OF inv d e(1), of asid] obtain s1 ys where
    s1: "page_remove d asid va s = Some s1" "vm_inv s1 D X ys"
      "\<forall>d' \<in> D. as_map s1 d' = (if d' = d then (as_map s d)(vaddr va := None) else as_map s d')"
      "\<forall>d' \<in> D. \<forall>i. has_tab s1 d' i = has_tab s d' i \<and> tab s1 d' i = tab s d' i" by blast
  have ht: "has_tab s d (PDX va)" using e(1) d(2) by (auto simp: as_map_vaddr split: if_splits)
  from tabs_memI [OF d(1) vaddr_user [OF d(2)] ht] x have "x \<noteq> tab s d (PDX va)" by auto
  moreover have n: "as_map s1 d (vaddr va) = None" using s1(3) d(1) by simp
  moreover have "page_insert d asid pp va perm s1 = Some (r, s')"
    using page_insert_present [OF inv d e(1), of asid pp perm] e(2) r s1(1)
    by (simp add: page_insert_missing [OF s1(2) d n])
  ultimately have "pm s' x = pm s1 x"
    using page_insert_with_table [OF s1(2) d n, of asid pp perm] s1(4) d(1) ht by auto
  with remove_pm [OF inv d s1(1) x] show ?thesis by simp
qed

lemma map_replace:
  assumes inv: "kinv s q" "curenv s = Some c" and va: "\<not> is_illegal_va sva" "\<not> is_illegal_va dva" and perm: "perm < 4096"
    and src: "as_map s (pgdir_of s c) (vaddr sva) = Some e1" and dst: "as_map s (pgdir_of s c) (vaddr dva) = Some e2"
    and ne: "PPN e2 \<noteq> PPN e1" and room: "unat (pp_ref s (PPN e1)) < 65535"
  shows "\<exists>s'. syscall_mem_map 0 sva 0 dva perm s = Some (0, s') \<and> kinv s' q \<and> pmap.more s' = pmap.more s \<and>
    maps_to s s' c dva (Some (mkpte (PPN e1) perm)) \<and> keeps_data s s'"
proof -
  note r = running_dir [OF inv] and u = legal_va [OF va(1)] legal_va [OF va(2)]
  from inv obtain X xs where vm: "vm_inv s (dirs s) X xs" by (auto simp: kinv_def kinv0_def mem_ok_def)
  note pl = page_lookup_eq [OF vm r(3) u(1), unfolded src, simplified]
  have ht: "has_tab s (pgdir_of s c) (PDX dva)" using dst u(2) by (auto simp: as_map_vaddr split: if_splits)
  note mp = mapped_mappable [OF vm r(3) src room]
  from page_insert_ok [OF vm r(3) u(2) disjI1 [OF ht] mp perm, of "env_asid (envs s c)"] obtain s' zs where
    s': "page_insert (pgdir_of s c) (env_asid (envs s c)) (PPN e1) dva perm s = Some (Inr (), s')" "vm_inv s' (dirs s) X zs"
      "\<forall>d' \<in> dirs s. as_map s' d' =
        (if d' = pgdir_of s c then (as_map s (pgdir_of s c))(vaddr dva \<mapsto> mkpte (PPN e1) perm) else as_map s d')"
      "pmap.more s' = pmap.more s" by blast
  have "sys_mem_map 0 sva 0 dva perm s = Some (Returns (Inr 0), s')"
    using va pl s'(1) inv(2) by (simp add: sys_mem_map_def envid2env_def pgdir_of_def)
  moreover have "keeps_data s s'"
    unfolding keeps_data_def
    using replace_pm [OF vm r(3) u(2) dst ne s'(1)] data_page(2) [OF vm] by blast
  moreover have "maps_to s s' c dva (Some (mkpte (PPN e1) perm))" using s'(3) by (simp add: maps_to_def pgdir_of_def)
  ultimately show ?thesis using kinv_vm(1) [OF inv(1) s'(4,2)] s'(4) by (simp add: syscall_mem_map_def)
qed

lemma unmap_page:
  assumes inv: "kinv s q" "curenv s = Some c" and va: "\<not> is_illegal_va va"
  shows "\<exists>s'. syscall_mem_unmap 0 va s = Some (0, s') \<and> kinv s' q \<and> pmap.more s' = pmap.more s \<and>
    maps_to s s' c va None \<and> keeps_data s s'"
proof -
  note r = running_dir [OF inv] and u = legal_va [OF va]
  from inv obtain X xs where vm: "vm_inv s (dirs s) X xs" by (auto simp: kinv_def kinv0_def mem_ok_def)
  from unmap_step [OF inv(1) r(1) u] obtain s' where
    s': "page_remove (env_pgdir (envs s c)) (env_asid (envs s c)) va s = Some s'" "kinv s' q" "pmap.more s' = pmap.more s"
      "maps_to s s' c va None" by blast
  have "sys_mem_unmap 0 va s = Some (Returns (Inr 0), s')"
    using va s'(1) inv(2) by (simp add: sys_mem_unmap_def envid2env_def)
  moreover have "keeps_data s s'"
    unfolding keeps_data_def
    using remove_pm [OF vm r(3) u s'(1) [folded pgdir_of_def]] data_page(2) [OF vm] by blast
  ultimately show ?thesis using s'(2-4) by (simp add: syscall_mem_unmap_def)
qed

section \<open>Copying a page\<close>

lemma data_write_as:
  assumes "kinv s q" "d \<in> dirs s" "as_map s d x = Some e" "s' = s\<lparr>pm := (pm s)(PPN e := f)\<rparr>"
  shows "kinv s' q" "pmap.more s' = pmap.more s" "same_as s s'"
  using data_write_ok [OF assms(1-3), of s'] assms(4) by (auto simp: data_write_def)

lemma copy_page:
  assumes inv: "kinv s q" "curenv s = Some c"
    and a: "dst < UTOP" "unat dst mod 4096 = 0" "src < UTOP" "unat src mod 4096 = 0"
    and e: "as_map s (pgdir_of s c) (vaddr dst) = Some ed" "as_map s (pgdir_of s c) (vaddr src) = Some es"
      "ed AND PTE_D \<noteq> 0" "PPN ed \<noteq> PPN es"
  shows "\<exists>s'. umemcpy dst src PAGE_SIZE s = Some s' \<and> kinv s' q \<and> pmap.more s' = pmap.more s \<and> same_as s s' \<and>
    pp_ref s' = pp_ref s \<and> (\<exists>f. s' = s\<lparr>pm := (pm s)(PPN ed := f)\<rparr>) \<and>
    (\<forall>i < 4096. page_byte s' (PPN ed) i = page_byte s (PPN es) i)"
proof -
  note r = running_dir [OF inv]
  let ?P = "\<lambda>k s'. (\<exists>f. s' = s\<lparr>pm := (pm s)(PPN ed := f)\<rparr>) \<and>
    (\<forall>i < k. page_byte s' (PPN ed) i = page_byte s (PPN es) i)"
  let ?f = "\<lambda>i s. do { (b, s) \<leftarrow> uload8 (src + of_nat i) s; ustore8 (dst + of_nat i) b s }"
  have keep: "kinv s' q" "pmap.more s' = pmap.more s" "same_as s s'" "curenv s' = Some c" "pgdir_of s' c = pgdir_of s c"
    if "\<exists>f. s' = s\<lparr>pm := (pm s)(PPN ed := f)\<rparr>" for s'
  proof -
    from that obtain f where s': "s' = s\<lparr>pm := (pm s)(PPN ed := f)\<rparr>" by blast
    show "kinv s' q" "pmap.more s' = pmap.more s" "same_as s s'" by (rule data_write_as [OF inv(1) r(3) e(1) s'])+
    show "curenv s' = Some c" "pgdir_of s' c = pgdir_of s c" using inv(2) by (simp_all add: s' pgdir_of_def)
  qed
  have "\<exists>s'. mfold ?f [0..<4096] s = Some s' \<and> ?P 4096 s'"
  proof (rule mfold_upt)
    show "?P 0 s" by (auto intro!: exI [of _ "pm s (PPN ed)"])
    fix k s1 assume k: "k < 4096" and P: "?P k s1"
    then obtain f where f: "s1 = s\<lparr>pm := (pm s)(PPN ed := f)\<rparr>" by blast
    note kp = keep [OF conjunct1 [OF P]]
    have k0: "unat src mod 4096 + k < 4096" "unat dst mod 4096 + k < 4096" using k a by simp_all
    note sp = same_page [OF k0(1)] and dp = same_page [OF k0(2)]
    have as: "as_map s1 (pgdir_of s1 c) = as_map s (pgdir_of s c)" using kp(3,5) r(3) by (simp add: same_as_def)
    have us: "src + of_nat k < UTOP" "dst + of_nat k < UTOP" by (rule same_page_user [OF k0(1) a(3)], rule same_page_user [OF k0(2) a(1)])
    have m1: "as_map s1 (pgdir_of s1 c) (vaddr (src + of_nat k)) = Some es"
      "as_map s1 (pgdir_of s1 c) (vaddr (dst + of_nat k)) = Some ed" by (simp_all add: as sp(3) dp(3) e)
    have ld: "uload8 (src + of_nat k) s1 = Some (page_byte s1 (PPN es) k, s1)"
      using mapped_access(1) [OF kp(1,4) us(1) m1(1)] UTOP_ULIM [OF us(1)] a(4) by (simp add: uload8_def sp(4))
    have same: "page_byte s1 (PPN es) k = page_byte s (PPN es) k" using e(4) by (simp add: f page_byte_def)
    have st: "ustore8 (dst + of_nat k) b s1 = Some (page_put_byte (PPN ed) k b s1)" for b
      using mapped_access(3) [OF kp(1,4) us(2) m1(2) e(3), of b] a(2) by (simp add: ustore8_def dp(4))
    let ?s2 = "page_put_byte (PPN ed) k (page_byte s (PPN es) k) s1"
    have "?P (Suc k) ?s2"
    proof
      show "\<exists>f. ?s2 = s\<lparr>pm := (pm s)(PPN ed := f)\<rparr>" by (simp add: page_put_byte_def f) blast
      show "\<forall>i < Suc k. page_byte ?s2 (PPN ed) i = page_byte s (PPN es) i"
        using P by (auto simp: page_byte_put less_Suc_eq)
    qed
    then show "\<exists>s2. ?f k s1 = Some s2 \<and> ?P (Suc k) s2" using ld st same by simp
  qed
  then obtain s' where s': "mfold ?f [0..<4096] s = Some s'" "?P 4096 s'" by blast
  from keep [OF conjunct1 [OF s'(2)]] s' show ?thesis
    by (intro exI [of _ s']) (auto simp: umemcpy_def PAGE_SIZE_def)
qed

section \<open>Returning to the interrupted program\<close>

lemma set_frame:
  assumes inv: "kinv s q" "curenv s = Some c" and f: "frame_at s c tf t"
  shows "\<exists>v. sys_set_trapframe 0 tf s = Some (Returns (Inr v), s\<lparr>kstack_tf := t\<rparr>)"
proof -
  from f obtain e where e: "as_map s (pgdir_of s c) (vaddr tf) = Some e"
    "words_tf (map (\<lambda>k. pm s (PPN e) (unat tf mod 4096 div 4 + k)) [0..<38]) = t"
    and tf: "\<not> is_illegal_va_range tf 152" "unat tf mod 4 = 0" "unat tf mod 4096 + 4 * 38 \<le> 4096"
    by (auto simp: frame_at_def)
  have u: "tf < UTOP" using legal_range [OF tf(1), of 0] by simp
  from load_words [OF inv e(1) u tf(2,3)] e(2) tf(1) inv(2) show ?thesis
    by (simp add: sys_set_trapframe_def envid2env_def)
qed

lemma frame_cause:
  assumes inv: "kinv s q" "curenv s = Some c" and f: "frame_at s c tf t"
  shows "uload32 (tf + 4 * 35) s = Some (cp0_badvaddr t, s)"
proof -
  from f obtain e where e: "as_map s (pgdir_of s c) (vaddr tf) = Some e"
    "words_tf (map (\<lambda>k. pm s (PPN e) (unat tf mod 4096 div 4 + k)) [0..<38]) = t"
    and tf: "\<not> is_illegal_va_range tf 152" "unat tf mod 4 = 0" "unat tf mod 4096 + 152 \<le> 4096"
    by (auto simp: frame_at_def)
  have u: "tf < UTOP" using legal_range [OF tf(1), of 0] by simp
  have i: "unat tf mod 4096 + 140 < 4096" using tf(3) by simp
  note sp = same_page [OF i, simplified] and us = same_page_user [OF i u, simplified]
  have "(unat tf + 140) mod 4 = 0" using tf(2) by (simp add: mod_add_eq [symmetric, of "unat tf"])
  then have "unat (tf + 140) mod 4 = 0" by (simp only: sp(1))
  from mapped_access(2) [OF inv us _ this, of e] e(1) have
    ld: "kload32 (tf + 140) s = Some (pm s (PPN e) ((unat tf mod 4096 + 140) div 4), s)" by (simp only: sp(3,4))
  have "(unat tf mod 4096 + 140) div 4 = unat tf mod 4096 div 4 + 35" by simp
  moreover have "cp0_badvaddr t = pm s (PPN e) (unat tf mod 4096 div 4 + 35)"
    using e(2) by (auto simp: words_tf_def)
  ultimately show ?thesis using ld UTOP_ULIM [OF us] by (simp add: uload32_def)
qed

text \<open>A frame stays when the contents of its page do, even if the page is exchanged for a copy.\<close>

lemma frame_at_page:
  assumes "frame_at s c tf t" "pgdir_of s' c = pgdir_of s c"
    and "\<And>e. as_map s (pgdir_of s c) (vaddr tf) = Some e \<Longrightarrow>
      \<exists>e'. as_map s' (pgdir_of s c) (vaddr tf) = Some e' \<and> (\<forall>k < 1024. pm s' (PPN e') k = pm s (PPN e) k)"
  shows "frame_at s' c tf t"
proof -
  from assms(1) obtain e where e: "as_map s (pgdir_of s c) (vaddr tf) = Some e"
    "words_tf (map (\<lambda>k. pm s (PPN e) (unat tf mod 4096 div 4 + k)) [0..<38]) = t"
    and tf: "\<not> is_illegal_va_range tf 152" "unat tf mod 4 = 0" "unat tf mod 4096 + 152 \<le> 4096"
    by (auto simp: frame_at_def)
  from assms(3) [OF e(1)] obtain e' where e': "as_map s' (pgdir_of s c) (vaddr tf) = Some e'"
    "\<forall>k < 1024. pm s' (PPN e') k = pm s (PPN e) k" by blast
  have "unat tf mod 4096 div 4 + k < 1024" if "k < 38" for k using tf(3) that by linarith
  then have "map (\<lambda>k. pm s' (PPN e') (unat tf mod 4096 div 4 + k)) [0..<38] =
      map (\<lambda>k. pm s (PPN e) (unat tf mod 4096 div 4 + k)) [0..<38]" using e'(2) by simp
  with e(2) have "words_tf (map (\<lambda>k. pm s' (PPN e') (unat tf mod 4096 div 4 + k)) [0..<38]) = t" by (simp only:)
  then show ?thesis using e'(1) tf assms(2) unfolding frame_at_def by auto
qed

lemma words_from_bytes:
  assumes "\<And>i. i < 4096 \<Longrightarrow> page_byte s' p' i = page_byte s p i" "k < 1024"
  shows "pm s' p' k = pm s p k"
proof (rule bit_word_eqI)
  fix n assume n: "n < LENGTH(32)"
  have "4 * k + n div 8 < 4096" using assms(2) n by simp
  from assms(1) [OF this] n have "word_byte (pm s' p' k) (n div 8) = word_byte (pm s p k) (n div 8)"
    by (simp add: page_byte_def)
  then have "bit (word_byte (pm s' p' k) (n div 8)) (n mod 8) = bit (word_byte (pm s p k) (n div 8)) (n mod 8)" by simp
  then show "bit (pm s' p' k) n = bit (pm s p k) n" by (simp add: word_byte_def bit_simps)
qed

end
