(* ===== verification/Fork_Example.thy ===== *)
theory Fork_Example
  imports Cow_Inv Kernel_Props
begin

unbundle bit_operations_syntax

text \<open>
  A concrete kernel for the properties of \<^verbatim>\<open>fork\<close> and its fault handler: three environments, the
  running one with a writable page at 0x400000 and a copy-on-write page at 0x401000; the first
  word of a saved frame that matters, the fault address, is in the writable page.
\<close>

definition fork_pm :: "nat \<Rightarrow> nat \<Rightarrow> u32" where
  "fork_pm = (\<lambda>_ _. 0)(
     2 := (\<lambda>_. 0)(1 := page2pa 5 OR PTE_V OR PTE_C_CACHEABLE, 511 := page2pa 2 OR PTE_V),
     5 := (\<lambda>_. 0)(0 := mkpte 6 PTE_D, 1 := mkpte 7 PTE_COW),
     6 := (\<lambda>_. 0)(35 := 0x401000))"

definition kern_fork :: kern where
  "kern_fork = kern_small\<lparr>page_free_list := fold LIST_INSERT_HEAD [8..<16] (LIST_INIT llist_zero),
     pp_ref := (\<lambda>p. if p < 8 then 1 else 0), pm := fork_pm\<rparr>"

lemma kern_fork_simps [simp]:
  "npage kern_fork = 16" "pp_ref kern_fork = (\<lambda>p. if p < 8 then 1 else 0)" "pm kern_fork = fork_pm"
  "envs kern_fork = small_envs" "curenv kern_fork = Some 0" "env_free_list kern_fork = env_free_list kern_small"
  "asid_bitmap kern_fork = (\<lambda>i. if i = 0 then 7 else 0)" "kstack_tf kern_fork = tf_zero"
  "mkenvid_i kern_fork = 3" "pgdir_of kern_fork 0 = 2" "env_sched_list kern_fork = env_sched_list kern_small"
  by (simp_all add: kern_fork_def pgdir_of_def env_zero_def)

lemma fork_live: "live kern_fork = {0, 1, 2}" "dirs kern_fork = {2, 3, 4}"
  using small_live small_dirs by (simp_all add: live_def dirs_def pgdir_of_def kern_fork_def)

lemma fork_dir: "fork_pm 2 (Suc 0) = page2pa 5 OR PTE_V OR PTE_C_CACHEABLE" "fork_pm 2 511 = page2pa 2 OR PTE_V"
  "fork_pm 5 0 = mkpte 6 PTE_D" "fork_pm 5 (Suc 0) = mkpte 7 PTE_COW"
  by (simp_all add: fork_pm_def)

lemma fork_PPN: "PPN (mkpte 6 PTE_D) = 6" "PPN (mkpte 7 PTE_COW) = 7" "PPN (page2pa 5 OR PTE_V OR PTE_C_CACHEABLE) = 5"
  by (simp_all add: mkpte_PPN PPN_def page2pa_def mos_consts)

lemma fork_tab: "has_tab kern_fork d i \<longleftrightarrow> d = 2 \<and> (i = 1 \<or> i = 511) \<or> d = 5 \<and> i < 2" for d i
  by (auto simp: has_tab_def fork_pm_def pte_valid_def mos_consts page2pa_def)

lemma fork_table: "pte_valid (fork_pm 5 j) \<longleftrightarrow> j = 0 \<or> j = 1"
  by (auto simp: fork_pm_def pte_valid_def mos_consts page2pa_def)

lemma fork_as_map:
  assumes "d \<in> {2, 3, 4}"
  shows "as_map kern_fork d = (if d = 2 then [(1, 0) \<mapsto> mkpte 6 PTE_D, (1, 1) \<mapsto> mkpte 7 PTE_COW] else Map.empty)"
proof (rule ext)
  fix x :: "nat \<times> nat"
  obtain i j where x: "x = (i, j)" by fastforce
  have "as_map kern_fork d (i, j) =
    (if d = 2 \<and> i = 1 \<and> (j = 0 \<or> j = 1) then Some (fork_pm 5 j) else None)"
    using assms by (auto simp: as_map_def fork_tab upte_def tab_def fork_dir fork_PPN fork_table)
  then show "as_map kern_fork d x =
      (if d = 2 then [(1, 0) \<mapsto> mkpte 6 PTE_D, (1, 1) \<mapsto> mkpte 7 PTE_COW] else Map.empty) x"
    unfolding x using fork_dir(3,4) by auto
qed

lemma fork_maps: "maps kern_fork {2, 3, 4} p = (if p = 6 then {(2, 1, 0)} else if p = 7 then {(2, 1, 1)} else {})"
  by (auto simp: maps_def fork_as_map fork_PPN split: if_splits)

lemma fork_tabs: "tabs kern_fork {2, 3, 4} = {5}"
  by (auto simp: tabs_def fork_tab tab_def fork_dir fork_PPN intro: exI [of _ "1 :: nat"])

lemma fork_free: "lrep (page_free_list kern_fork) (rev [8..<16])"
proof -
  have "lrep (fold LIST_INSERT_HEAD [8..<16] (LIST_INIT llist_zero)) (rev [8..<16] @ [])"
    by (rule ll.rep_fold_insert [OF lrep_INIT]) simp_all
  then show ?thesis by (simp add: kern_fork_def)
qed

lemma fork_vm: "vm_inv kern_fork {2, 3, 4} (\<lambda>p. if p < 5 then 1 else 0) (rev [8..<16])"
  unfolding vm_inv_def
proof (intro conjI)
  show "tabs_ok kern_fork {2, 3, 4}"
    by (auto simp: tabs_ok_def fork_tab tab_def fork_dir fork_PPN)
  show "refs_ok kern_fork {2, 3, 4} (\<lambda>p. if p < 5 then 1 else 0)"
    by (auto simp: refs_ok_def fork_maps fork_tabs)
  show "isolated kern_fork {2, 3, 4} (\<lambda>p. if p < 5 then 1 else 0)"
    by (auto simp: isolated_def fork_maps fork_tabs)
  show "free_ok kern_fork (rev [8..<16])" using fork_free by (auto simp: free_ok_def)
qed (auto simp: fork_as_map fork_PPN split: if_splits)

lemma kern_fork_ok: "ok kern_fork [0, 2]"
proof -
  have m: "pmap.more kern_fork = pmap.more kern_small" by (simp add: kern_fork_def)
  have "kinv kern_fork [0, 2]"
    by (rule kinv_vm(1) [OF kern_small_kinv m]) (use fork_vm in \<open>simp add: small_dirs\<close>)
  from ok_more [OF kern_small_ok this m] show ?thesis .
qed

lemma fork_self: "self_mapped kern_fork 2"
  by (simp add: self_mapped_def fork_dir mos_consts PDX_def)

lemma fork_words: "cp0_badvaddr (words_tf (map (\<lambda>k. fork_pm 6 k) [0..<38])) = 0x401000"
  by (simp add: words_tf_def fork_pm_def)

text \<open>An environment is granted when a slot, a page and an ASID are free.\<close>

lemma exofork_grants:
  assumes k: "kinv s q" and c: "curenv s = Some c" and fe: "lrep (env_free_list s) (f # es)"
    and pg: "free_pages s 1" and as: "i < NASID" "\<not> asid_used (asid_bitmap s) i"
  shows "\<exists>v s'. sys_exofork s = Some (Returns (Inr v), s')"
proof -
  from k obtain X xs where vm: "vm_inv s (dirs s) X xs" by (auto simp: kinv_def kinv0_def mem_ok_def)
  from pg obtain ys where ys: "lrep (page_free_list s) ys" "1 \<le> length ys" by (auto simp: free_pages_def)
  then obtain p ps where xs: "xs = p # ps" using lrep_unique [OF vm_invD(6) [OF vm] ys(1)] by (cases xs) auto
  from env_setup_vm_ok [OF vm [unfolded xs], of f] obtain s1 where
    s1: "env_setup_vm f s = Some (Inr (), s1)" "pmap.more s1 = pmap.more (upd_env f (\<lambda>v. v\<lparr>env_pgdir := p\<rparr>) s)" by blast
  let ?s2 = "upd_env f (\<lambda>v. v\<lparr>env_user_tlb_mod_entry := 0, env_runs := 0\<rparr>) s1"
  have bm: "asid_bitmap ?s2 = asid_bitmap s" and fl: "lrep (env_free_list s1) (f # es)"
    using kern_more(3,6) [OF s1(2)] fe by simp_all
  obtain a s3 where a: "asid_alloc ?s2 = (Inr a, s3)"
  proof (cases "asid_alloc ?s2"; cases "fst (asid_alloc ?s2)")
    fix r s3 e assume "asid_alloc ?s2 = (r, s3)" "fst (asid_alloc ?s2) = Inl e"
    then show ?thesis using asid_alloc_fail [of ?s2 e s3] as bm by auto
  qed (use that in auto)
  obtain bm where bm: "s3 = ?s2\<lparr>asid_bitmap := bm\<rparr>" using asid_alloc_ok(4) [OF a] by blast
  obtain fl' where fl': "LIST_REMOVE f (env_free_list s1) = Some fl'"
    using lrep_REMOVE [of "env_free_list s1" "[]" f es] fl by auto
  have "\<exists>s'. env_alloc_tail (env_id (envs s c)) f s1 = Some (Inr f, s')"
    by (simp add: env_alloc_tail_def a bm mkenvid_def fl' Let_def)
  then have "\<exists>s'. env_alloc (env_id (envs s c)) s = Some (Inr f, s')"
    using fe s1(1) by (auto simp: env_alloc_eq lrep_EMPTY lrep_FIRST)
  then show ?thesis using c by (auto simp: sys_exofork_def Let_def)
qed

end
