(* ===== verification/Fork_Props.thy ===== *)
theory Fork_Props
  imports Fork_Example
begin

unbundle bit_operations_syntax

text \<open>
  Properties of \<^verbatim>\<open>user/lib/fork.c\<close> on the model of the kernel: the address spaces of parent and child
  after \<^verbatim>\<open>fork\<close>, and what the copy-on-write handler does.
\<close>

section \<open>From the new child to the copied one\<close>

text \<open>
  Room for a \<^verbatim>\<open>fork\<close> of the running environment: a free page for the directory and for every page
  table of its own, and counters that can take one more reference for each of its mappings.
\<close>

definition fork_room :: "kern \<Rightarrow> nat \<Rightarrow> bool" where
  "fork_room s c \<longleftrightarrow> free_pages s (Suc (card (own_tabs s (pgdir_of s c)))) \<and>
     (\<forall>p < npage s. unat (pp_ref s p) + mapped s (pgdir_of s c) (509 * 1024) < 65534)"

lemma fork_start_child:
  assumes ok: "ok s q" and c: "curenv s = Some c" and sm: "self_mapped s (pgdir_of s c)" and room: "fork_room s c"
    and r: "sys_exofork s = Some (Returns (Inr v), s2)" and v: "v \<noteq> 0"
  shows "fork_start s2 q c (ENVX v) v" "forked s s2 c (ENVX v)" "ok s2 q" "curenv s2 = Some c"
    "env_id (envs s2 (ENVX v)) = v" "npage s2 = npage s" "\<forall>p. maps s (dirs s) p \<noteq> {} \<longrightarrow> pm s2 p = pm s p"
proof -
  from okD(5) [OF ok] c have cl: "c \<in> live s" by auto
  note k = okD(1) [OF ok]
  from sys_exofork_ok [OF k c] r obtain e where
    e: "kinv s2 q" "curenv s2 = Some c" "forked s s2 c e" "v = env_id (envs s2 e)" using c by auto
  note f = e(3) [unfolded forked_def]
  have ev: "ENVX v = e" using f e(4) by simp
  have ec: "e \<noteq> c" using f cl by auto
  then have ce: "envs s2 c = envs s c" using f by auto
  then have pc: "pgdir_of s2 c = pgdir_of s c" by (simp add: pgdir_of_def)
  have pd: "pgdir_of s c \<in> dirs s" using cl by (simp add: dirs_def)
  from exofork_frame [OF k c r] obtain p xs where
    p: "lrep (page_free_list s) (p # xs)" "lrep (page_free_list s2) xs" "pp_ref s2 = (pp_ref s)(p := 1)"
      "\<forall>r. r \<noteq> p \<longrightarrow> pm s2 r = pm s r" "npage s2 = npage s" "p \<notin> dirs s" "maps s (dirs s) p = {}" by blast
  have pm: "pm s2 (pgdir_of s c) = pm s (pgdir_of s c)" using p(4,6) pd by auto
  have am: "as_map s2 (pgdir_of s c) = as_map s (pgdir_of s c)" using f pd by (auto simp: same_as_def)
  have ow: "own_tabs s2 (pgdir_of s c) = own_tabs s (pgdir_of s c)" by (simp add: own_tabs_def has_tab_def pm)
  have mp: "mapped s2 (pgdir_of s c) n = mapped s (pgdir_of s c) n" for n by (simp add: mapped_def am)
  have "copying s2 q c e v"
    using e(1,2,4) sm f ec ev v by (simp add: copying_def pc self_mapped_def pm ce)
  moreover have "free_pages s2 (card (own_tabs s (pgdir_of s c)))"
  proof -
    obtain ys where ys: "lrep (page_free_list s) ys" "Suc (card (own_tabs s (pgdir_of s c))) \<le> length ys"
      using room by (auto simp: fork_room_def free_pages_def)
    with lrep_unique [OF p(1) ys(1)] p(2) show ?thesis by (auto simp: free_pages_def)
  qed
  moreover have "unat (pp_ref s2 r) + mapped s (pgdir_of s c) (509 * 1024) < 65535" if "r < npage s" for r
    using room that p(3) by (auto simp: fork_room_def less_Suc_eq)
  ultimately show "fork_start s2 q c (ENVX v) v"
    using f unfolding fork_start_def pc ow mp ev p(5) by simp
  show "forked s s2 c (ENVX v)" "env_id (envs s2 (ENVX v)) = v" using e(3,4) ev by simp_all
  show "ok s2 q" by (rule exofork_ok [OF ok r])
  show "curenv s2 = Some c" "npage s2 = npage s" by (rule e(2), rule p(5))
  show "\<forall>p. maps s (dirs s) p \<noteq> {} \<longrightarrow> pm s2 p = pm s p" using p(4,7) by auto
qed

text \<open>The last two calls of \<^verbatim>\<open>fork\<close>: the child gets the handler and may run.\<close>

lemma release_child:
  assumes ok: "ok s q" and cp: "copying s q c e v" and st: "env_status (envs s e) = ENV_NOT_RUNNABLE" "\<not> waiting (envs s e)"
  shows "\<exists>s1 s'. syscall_set_tlb_mod_entry v cow s = Some (0, s1) \<and>
    syscall_set_env_status v ENV_RUNNABLE s1 = Some (0, s') \<and> ok s' (q @ [e]) \<and>
    envs s' = (envs s)(e := (envs s e)\<lparr>env_user_tlb_mod_entry := cow, env_status := ENV_RUNNABLE\<rparr>) \<and>
    curenv s' = curenv s \<and> pm s' = pm s"
proof -
  note D = copyingD [OF cp]
  let ?s1 = "upd_env e (\<lambda>v. v\<lparr>env_user_tlb_mod_entry := cow\<rparr>) s"
  have 1: "syscall_set_tlb_mod_entry v cow s = Some (0, ?s1)"
    using D(9) by (simp add: syscall_set_tlb_mod_entry_def sys_set_tlb_mod_entry_def)
  have o1: "ok ?s1 q" by (rule ok_upd_env [OF ok]) (simp_all add: env_core_def ipc_core_def)
  have e1: "envid2env v True ?s1 = Some (Inr e)"
    using cp D(4) by (auto simp: envid2env_def Let_def copying_def live_def)
  have c1: "curenv ?s1 = Some c" using D(2) by simp
  from sys_set_env_status_ok [OF okD(1,2) [OF o1] c1, of v ENV_RUNNABLE] e1 obtain r s' q' where
    k: "sys_set_env_status v ENV_RUNNABLE ?s1 = Some (Returns r, s')" "kinv s' q'"
      "case r of
       Inr w \<Rightarrow> w = 0 \<and> (\<exists>h. q' = queue_after ?s1 q e ENV_RUNNABLE \<and>
            s' = upd_env e (\<lambda>v. v\<lparr>env_status := ENV_RUNNABLE\<rparr>) (?s1\<lparr>env_sched_list := h\<rparr>))
     | Inl er \<Rightarrow> er = E_BAD_ENV" by (fastforce split: sum.splits)
  have "r \<noteq> Inl E_BAD_ENV"
    using k(1) e1 by (auto simp: sys_set_env_status_def split: bind_splits if_splits)
  with k(3) obtain h where r: "r = Inr 0" "q' = queue_after ?s1 q e ENV_RUNNABLE"
    "s' = upd_env e (\<lambda>v. v\<lparr>env_status := ENV_RUNNABLE\<rparr>) (?s1\<lparr>env_sched_list := h\<rparr>)" by (cases r) auto
  have q': "q' = q @ [e]" using r(2) st(1) by (simp add: queue_after_def)
  have "\<exists>q2. ok s' q2"
    by (rule set_env_status_ok [OF o1 k(1)]) (use e1 st(2) in \<open>auto simp: waiting_def\<close>)
  then have "ok s' (q @ [e])" using k(2) q' by (auto simp: ok_def)
  moreover have "envs s' = (envs s)(e := (envs s e)\<lparr>env_user_tlb_mod_entry := cow, env_status := ENV_RUNNABLE\<rparr>)"
    "curenv s' = curenv s" "pm s' = pm s" by (simp_all add: r(3))
  ultimately show ?thesis using 1 k(1) r(1) by (auto simp: syscall_set_env_status_def)
qed

lemma vaddr_ij: "vaddr va = ij (VPN va)"
  by (simp add: vaddr_def ij_def VPN_split)

lemma copied_page_va: "copied_page (VPN va) \<longleftrightarrow> UTEMP \<le> va \<and> va < USTACKTOP"
proof -
  have "unat UTEMP = 1022 * 4096" "unat USTACKTOP = 521214 * 4096" by (simp_all add: mos_consts)
  then have "UTEMP \<le> va \<longleftrightarrow> 1022 \<le> unat va div 4096" "va < USTACKTOP \<longleftrightarrow> unat va div 4096 < 521214"
    unfolding word_le_nat_alt word_less_nat_alt by (simp_all add: less_eq_div_iff_mult_less_eq div_less_iff_less_mult)
  then show ?thesis by (simp add: copied_page_def VPN_eq) (simp add: mos_consts)
qed

lemma VPN_user: "va < UTOP \<Longrightarrow> VPN va < 509 * 1024"
  unfolding VPN_split using vaddr_user [of va] PTX_less [of va] by linarith

text \<open>The concrete kernel has room for a \<^verbatim>\<open>fork\<close>, and grants it.\<close>

lemma fork_has_room: "fork_room kern_fork 0"
proof -
  have "own_tabs kern_fork 2 = {1}" by (auto simp: own_tabs_def fork_tab)
  moreover have "{n. n < 509 * 1024 \<and> as_map kern_fork 2 (ij n) \<noteq> None} \<subseteq> {1024, 1025}"
  proof
    fix n assume "n \<in> {n. n < 509 * 1024 \<and> as_map kern_fork 2 (ij n) \<noteq> None}"
    then have "n div 1024 = 1 \<and> (n mod 1024 = 0 \<or> n mod 1024 = 1)"
      by (auto simp: fork_as_map ij_def split: if_splits)
    then show "n \<in> {1024, 1025}" using div_mult_mod_eq [of n 1024] by auto
  qed
  then have "mapped kern_fork 2 (509 * 1024) \<le> card {1024, 1025 :: nat}" unfolding mapped_def by (intro card_mono) simp_all
  then have "mapped kern_fork 2 (509 * 1024) \<le> 2" by simp
  moreover have "free_pages kern_fork 2"
    unfolding free_pages_def by (rule exI [of _ "rev [8..<16]"]) (use fork_free in simp)
  ultimately show ?thesis by (simp add: fork_room_def numeral_2_eq_2)
qed

lemma fork_grant:
  "\<exists>v s2. sys_exofork (upd_env 0 (\<lambda>v. v\<lparr>env_user_tlb_mod_entry := cow\<rparr>) kern_fork) = Some (Returns (Inr v), s2) \<and> v \<noteq> 0"
proof -
  let ?s = "upd_env 0 (\<lambda>v. v\<lparr>env_user_tlb_mod_entry := cow\<rparr>) kern_fork"
  have ok: "ok ?s [0, 2]" by (rule ok_upd_env [OF kern_fork_ok]) (simp_all add: env_core_def ipc_core_def)
  have c: "curenv ?s = Some 0" by simp
  obtain f es where f: "lrep (env_free_list ?s) (f # es)"
  proof -
    from kern_small_kinv obtain fl where fl: "lrep (env_free_list kern_small) fl"
      "set fl = {e. e < NENV \<and> env_status (envs kern_small e) = ENV_FREE}" by (auto simp: kinv_def kinv0_def free_envs_ok_def)
    have "3 \<in> set fl" unfolding fl(2) by (simp add: small_status mos_consts)
    with fl(1) that show ?thesis by (cases fl) auto
  qed
  have "free_pages ?s 1"
    unfolding free_pages_def by (rule exI [of _ "rev [8..<16]"]) (use fork_free in simp)
  moreover have "\<not> asid_used (asid_bitmap ?s) 3" by (simp add: asid_used_def)
  ultimately obtain v s2 where v: "sys_exofork ?s = Some (Returns (Inr v), s2)"
    using exofork_grants [OF okD(1) [OF ok] c f, of 3] by (auto simp: NASID_def)
  from sys_exofork_ok [OF okD(1) [OF ok] c] v obtain e where
    e: "forked ?s s2 0 e" "v = env_id (envs s2 e)" by auto
  have "live ?s = live kern_fork" by (auto simp: live_def)
  then have "e \<noteq> 0" "ENVX v = e" using e(1) fork_live(1) unfolding e(2) forked_def by simp_all
  then have "v \<noteq> 0" by (auto simp: ENVX_def)
  then show ?thesis using v by blast
qed

section \<open>Properties\<close>



text \<open>
  C6. Copy-on-write: \<^verbatim>\<open>cow_entry\<close>, entered with the frame of a write to a copy-on-write page, gives the
  running environment a private copy. The page at the address of the write is a fresh one with the
  same contents, writable, and \<^verbatim>\<open>UCOW\<close> is unmapped again; every other mapping of every address space
  and the contents of every other mapped page are as before, so that the parent or child that shares
  the page does not see the write. Then the program goes on at the interrupted store.
\<close>

theorem cow_entry_correct:
  assumes "ok s q" "curenv s = Some c" "self_mapped s (pgdir_of s c)" "frame_at s c tf t"
    "\<not> is_illegal_va (cp0_badvaddr t)" "as_map s (pgdir_of s c) (vaddr (cp0_badvaddr t)) = Some pte"
    "pte AND PTE_COW \<noteq> 0" "as_map s (pgdir_of s c) (vaddr UCOW) = None" "free_pages s 2"
  shows "\<exists>s' p. cow_entry tf s = Some s' \<and> ok s' q \<and> curenv s' = Some c \<and> kstack_tf s' = t \<and>
    maps s (dirs s) p = {} \<and> (\<forall>i < 4096. page_byte s' p i = page_byte s (PPN pte) i) \<and>
    (\<forall>d \<in> dirs s. as_map s' d = (if d = pgdir_of s c
       then (as_map s d)(vaddr (cp0_badvaddr t) \<mapsto> mkpte p PTE_D) else as_map s d)) \<and>
    (\<forall>x. maps s' (dirs s) x \<noteq> {} \<longrightarrow> x \<noteq> p \<longrightarrow> pm s' x = pm s x)"
proof -
  note k = okD(1) [OF assms(1)] and c = assms(2) and sm = assms(3)
  let ?va = "cp0_badvaddr t" and ?pc = "pgdir_of s c"
  let ?a = "ROUNDDOWN ?va PAGE_SIZE"
  note r = running_dir [OF k c]
  have u: "?va < UTOP" by (rule legal_va [OF assms(5)])
  have a: "?a = PTE_ADDR ?va" by (simp add: ROUNDDOWN_def PTE_ADDR_def PAGE_SIZE_def)
  have au: "?a < UTOP" "vaddr ?a = vaddr ?va" "unat ?a mod 4096 = 0"
    using PTE_ADDR_UTOP [OF u] vaddr_PTE_ADDR by (simp_all add: a PTE_ADDR_aligned)
  have al: "\<not> is_illegal_va ?a" using assms(5) by (simp add: a legal_PTE_ADDR)
  have cl: "\<not> is_illegal_va UCOW" "UCOW < UTOP" "unat UCOW mod 4096 = 0" by (simp_all add: is_illegal_va_def mos_consts)
  have ne: "vaddr ?va \<noteq> vaddr UCOW" using assms(6,8) by auto
  have ht: "has_tab s ?pc (PDX ?va)" "upte s ?pc (PDX ?va) (PTX ?va) = pte"
    using assms(6) u by (auto simp: as_map_vaddr split: if_splits)
  have rd: "vpt (VPN ?va) s = Some (pte, s)"
    using vpt_user [OF k c sm vaddr_user [OF u] PTX_less ht(1)] ht(2) by (simp add: VPN_split)
  from alloc_page [OF k c cl(1) _ assms(8,9), of PTE_D] obtain p s1 where
    s1: "syscall_mem_alloc 0 UCOW PTE_D s = Some (0, s1)" "kinv s1 q" "pmap.more s1 = pmap.more s"
      "maps s (dirs s) p = {}" "p < 2 ^ 20" "unat (pp_ref s1 p) \<le> 1"
      "maps_to s s1 c UCOW (Some (mkpte p PTE_D))" "keeps_data s s1" by auto
  note k1 = kern_more [OF s1(3)]
  have P: "PPN (mkpte p PTE_D) = p" by (rule mkpte_PPN [OF s1(5)]) simp
  have D: "mkpte p PTE_D AND PTE_D \<noteq> 0" by (rule mkpte_writable)
  have pd: "pgdir_of s1 x = pgdir_of s x" "dirs s1 = dirs s" for x
    by (simp_all add: pgdir_of_def dirs_def live_def k1 fun_eq_iff)
  have m1: "as_map s1 d = (if d = ?pc then (as_map s d)(vaddr UCOW \<mapsto> mkpte p PTE_D) else as_map s d)" if "d \<in> dirs s" for d
    using s1(7) that by (simp add: maps_to_def pgdir_of_def)
  have e1: "as_map s1 (pgdir_of s1 c) (vaddr UCOW) = Some (mkpte p PTE_D)"
    "as_map s1 (pgdir_of s1 c) (vaddr ?a) = Some pte" using m1 [OF r(3)] assms(6) ne by (simp_all add: pd au(2))
  have pp: "p \<noteq> PPN pte"
  proof
    assume "p = PPN pte"
    then have "maps s (dirs s) p \<noteq> {}"
      using maps_mem [OF r(3), of "PDX ?va" "PTX ?va" s "PPN pte"] assms(6) by (auto simp: points_def vaddr_def)
    with s1(4) show False by simp
  qed
  from copy_page [OF s1(2) _ cl(2,3) au(1,3) e1 D, unfolded P, OF _ pp] c obtain s2 where
    s2: "umemcpy UCOW ?a PAGE_SIZE s1 = Some s2" "kinv s2 q" "pmap.more s2 = pmap.more s1" "same_as s1 s2"
      "pp_ref s2 = pp_ref s1" "\<exists>f. s2 = s1\<lparr>pm := (pm s1)(p := f)\<rparr>"
      "\<forall>i < 4096. page_byte s2 p i = page_byte s1 (PPN pte) i" by (auto simp: k1)
  note k2 = kern_more [OF s2(3)]
  have pd2: "pgdir_of s2 x = pgdir_of s x" "dirs s2 = dirs s" "curenv s2 = Some c" for x
    using c by (simp_all add: pgdir_of_def dirs_def live_def k1 k2 fun_eq_iff)
  have m2: "as_map s2 d = as_map s1 d" if "d \<in> dirs s" for d using s2(4) that by (simp add: same_as_def pd)
  have e2: "as_map s2 (pgdir_of s2 c) (vaddr UCOW) = Some (mkpte p PTE_D)"
    "as_map s2 (pgdir_of s2 c) (vaddr ?a) = Some pte" using e1 m2 [OF r(3)] by (simp_all add: pd pd2)
  from map_replace [OF s2(2) pd2(3) cl(1) al _ e2, of PTE_D, unfolded P] pp s1(6) s2(5) obtain s3 where
    s3: "syscall_mem_map 0 UCOW 0 ?a PTE_D s2 = Some (0, s3)" "kinv s3 q" "pmap.more s3 = pmap.more s2"
      "maps_to s2 s3 c ?a (Some (mkpte p PTE_D))" "keeps_data s2 s3" by auto
  note k3 = kern_more [OF s3(3)]
  have pd3: "pgdir_of s3 x = pgdir_of s x" "dirs s3 = dirs s" "curenv s3 = Some c" for x
    using c by (simp_all add: pgdir_of_def dirs_def live_def k1 k2 k3 fun_eq_iff)
  have m3: "as_map s3 d = (if d = ?pc then (as_map s d)(vaddr UCOW \<mapsto> mkpte p PTE_D, vaddr ?va \<mapsto> mkpte p PTE_D)
      else as_map s d)" if "d \<in> dirs s" for d
    using s3(4) that m1 [OF that] m2 [OF that] pd2(1) [of c] by (auto simp: maps_to_def pd2(2) au(2) pgdir_of_def)
  from unmap_page [OF s3(2) pd3(3) cl(1)] obtain s4 where
    s4: "syscall_mem_unmap 0 UCOW s3 = Some (0, s4)" "kinv s4 q" "pmap.more s4 = pmap.more s3"
      "maps_to s3 s4 c UCOW None" "keeps_data s3 s4" by blast
  note k4 = kern_more [OF s4(3)]
  have pd4: "pgdir_of s4 x = pgdir_of s x" "curenv s4 = Some c" for x using c by (simp_all add: pgdir_of_def k1 k2 k3 k4)
  have m4: "as_map s4 d = (if d = ?pc then (as_map s d)(vaddr ?va \<mapsto> mkpte p PTE_D) else as_map s d)" if "d \<in> dirs s" for d
  proof -
    have eq: "(M(U \<mapsto> x, V \<mapsto> y))(U := None) = M(V \<mapsto> y)" if "M U = None" "V \<noteq> U" for M :: "nat \<times> nat \<Rightarrow> u32 option" and U V x y
      using that by (auto simp: fun_eq_iff)
    have st: "as_map s4 d = (if d = ?pc then (as_map s3 d)(vaddr UCOW := None) else as_map s3 d)"
      using s4(4) that pd3(1) [of c] by (simp add: maps_to_def pd3(2) pgdir_of_def)
    show ?thesis
    proof (cases "d = ?pc")
      case True
      have "as_map s3 d = (as_map s ?pc)(vaddr UCOW \<mapsto> mkpte p PTE_D, vaddr ?va \<mapsto> mkpte p PTE_D)"
        using m3 [OF that] True by simp
      with st True eq [of "as_map s ?pc", OF assms(8) ne] show ?thesis by simp
    next
      case False
      then show ?thesis using st m3 [OF that] by simp
    qed
  qed
  have sub: "maps s3 (dirs s) x \<noteq> {}" if "maps s4 (dirs s) x \<noteq> {}" for x
    by (rule maps_mono [OF _ that]) (use m3 m4 assms(8) in \<open>auto split: if_splits\<close>)
  have mp: "maps s2 (dirs s) x \<noteq> {}" if "maps s (dirs s) x \<noteq> {}" for x
    by (rule maps_mono [OF _ that]) (use m1 m2 assms(8) in auto)
  have mp2: "maps s2 (dirs s) p \<noteq> {}"
    using maps_mem [OF r(3), of "PDX UCOW" "PTX UCOW" s2 p] e2(1) P pd2(1) by (auto simp: points_def vaddr_def)
  have old: "maps s (dirs s) x \<noteq> {}" if "maps s3 (dirs s) x \<noteq> {}" "x \<noteq> p" for x
  proof -
    from that(1) obtain d i j e where e: "d \<in> dirs s" "as_map s3 d (i, j) = Some e" "PPN e = x" by (auto simp: maps_def)
    have "as_map s d (i, j) = Some e"
      using m3 [OF e(1)] e(2,3) that(2) P by (auto split: if_splits)
    then show ?thesis using e(1,3) by (auto simp: maps_def)
  qed
  have pm: "pm s4 x = pm s x" if "maps s4 (dirs s) x \<noteq> {}" "x \<noteq> p" for x
  proof -
    note x = sub [OF that(1)]
    note y = old [OF x that(2)]
    have "pm s4 x = pm s3 x" using s4(5) x by (simp add: keeps_data_def pd3)
    also have "\<dots> = pm s2 x" using s3(5) mp [OF y] by (simp add: keeps_data_def pd2)
    also have "\<dots> = pm s1 x" using s2(6) that(2) by auto
    also have "\<dots> = pm s x" using s1(8) y by (simp add: keeps_data_def)
    finally show ?thesis .
  qed
  have "maps s4 (dirs s) p \<noteq> {}"
    using maps_mem [OF r(3), of "PDX ?va" "PTX ?va" s4 p] m4 [OF r(3)] P by (auto simp: points_def vaddr_def)
  from sub [OF this] have "pm s4 p = pm s2 p" using s4(5) s3(5) mp2 by (simp add: keeps_data_def pd2 pd3)
  moreover have "maps s (dirs s) (PPN pte) \<noteq> {}"
    using maps_mem [OF r(3), of "PDX ?va" "PTX ?va" s "PPN pte"] assms(6) by (auto simp: points_def vaddr_def)
  then have "pm s1 (PPN pte) = pm s (PPN pte)" using s1(8) by (simp add: keeps_data_def)
  ultimately have by4: "page_byte s4 p i = page_byte s (PPN pte) i" if "i < 4096" for i
    using s2(7) that by (simp add: page_byte_def)
  have f4: "frame_at s4 c tf t"
  proof (rule frame_at_page [OF assms(4) pd4(1)])
    fix e assume e: "as_map s ?pc (vaddr tf) = Some e"
    show "\<exists>e'. as_map s4 ?pc (vaddr tf) = Some e' \<and> (\<forall>k < 1024. pm s4 (PPN e') k = pm s (PPN e) k)"
    proof (cases "vaddr tf = vaddr ?va")
      case True
      then have "e = pte" using e assms(6) by simp
      moreover have "as_map s4 ?pc (vaddr tf) = Some (mkpte p PTE_D)" using m4 [OF r(3)] True by simp
      ultimately show ?thesis using P words_from_bytes [OF by4] by auto
    next
      case False
      then have m: "as_map s4 ?pc (vaddr tf) = Some e" using m4 [OF r(3)] e by simp
      have "maps s (dirs s) (PPN e) \<noteq> {}" "maps s4 (dirs s) (PPN e) \<noteq> {}"
        using maps_mem [OF r(3), of "PDX tf" "PTX tf" s "PPN e"] maps_mem [OF r(3), of "PDX tf" "PTX tf" s4 "PPN e"] e m
        by (auto simp: points_def vaddr_def)
      moreover from this s1(4) have "PPN e \<noteq> p" by auto
      ultimately show ?thesis using pm m by auto
    qed
  qed
  from set_frame [OF s4(2) pd4(2) f4] obtain v where
    st: "sys_set_trapframe 0 tf s4 = Some (Returns (Inr v), s4\<lparr>kstack_tf := t\<rparr>)" by blast
  let ?s' = "s4\<lparr>kstack_tf := t\<rparr>"
  have "(pte AND 0xfff) AND PTE_COW = pte AND PTE_COW" by (simp add: and.assoc mos_consts)
  moreover have "(pte AND 0xfff) AND lnot PTE_COW OR PTE_D = PTE_D" by (simp add: lnot_def) (simp add: mos_consts)
  ultimately have run: "cow_entry tf s = Some ?s'"
    using frame_cause [OF k c assms(4)] rd assms(7) s1(1) s2(1) s3(1) s4(1) st
    by (simp add: cow_entry_def Let_def)
  have "ok s4 q" by (rule ok_more [OF assms(1) s4(2)]) (simp add: s1(3) s2(3) s3(3) s4(3))
  then have o: "ok ?s' q" by (rule ok_same_envs) simp_all
  have am: "as_map ?s' d = as_map s4 d" for d by (rule as_map_cong) simp
  have "maps ?s' (dirs s) x = maps s4 (dirs s) x" for x by (rule maps_cong) simp
  then show ?thesis
    using run o pd4(2) s1(4) by4 m4 pm
    by (intro exI [of _ ?s'] exI [of _ p]) (simp add: am page_byte_def)
qed

theorem cow_entry_correct_witness:
  "\<exists>s' p. cow_entry 0x400000 kern_fork = Some s' \<and> ok s' [0, 2] \<and> as_map s' 2 (vaddr 0x401000) = Some (mkpte p PTE_D) \<and>
     (\<forall>i < 4096. page_byte s' p i = page_byte kern_fork 7 i)"
proof -
  have d: "curenv kern_fork = Some 0" "pgdir_of kern_fork 0 = 2" by simp_all
  let ?t = "words_tf (map (\<lambda>k. fork_pm 6 k) [0..<38])"
  note b = fork_words
  have v: "vaddr 0x400000 = (1, 0)" "vaddr 0x401000 = (1, 1)" "vaddr UCOW \<noteq> (1, 0)" "vaddr UCOW \<noteq> (1, 1)"
    by (simp_all add: vaddr_def PDX_def PTX_def mos_consts)
  have m: "as_map kern_fork 2 (1, 0) = Some (mkpte 6 PTE_D)" by (simp add: fork_as_map)
  have fr: "frame_at kern_fork 0 0x400000 ?t"
    unfolding frame_at_def d v(1) m by (simp add: fork_PPN is_illegal_va_range_def) (simp add: mos_consts)
  have "\<not> is_illegal_va (cp0_badvaddr ?t)" by (simp add: b is_illegal_va_def mos_consts)
  moreover have "as_map kern_fork (pgdir_of kern_fork 0) (vaddr (cp0_badvaddr ?t)) = Some (mkpte 7 PTE_COW)"
    unfolding b d v(2) by (simp add: fork_as_map)
  moreover have "mkpte 7 PTE_COW AND PTE_COW \<noteq> 0" by (simp add: mos_consts page2pa_def)
  moreover have "as_map kern_fork (pgdir_of kern_fork 0) (vaddr UCOW) = None"
    unfolding d using v(3,4) by (simp add: fork_as_map)
  moreover have "free_pages kern_fork 2"
    unfolding free_pages_def by (rule exI [of _ "rev [8..<16]"]) (use fork_free in simp)
  ultimately show ?thesis
    using cow_entry_correct [OF kern_fork_ok d(1) _ fr, of "mkpte 7 PTE_COW"] fork_self
    unfolding b d v(2) fork_live(2) fork_PPN(2) by auto
qed

end
