(* ===== verification/Fd.thy ===== *)
theory Fd
  imports Fork Print_Props Shell Serv Pipe
begin

unbundle bit_operations_syntax

text \<open>
  File descriptors of the user library on the kernel model: \<^verbatim>\<open>user/lib/fd.c\<close>, the three devices
  \<^verbatim>\<open>user/lib/console.c\<close>, \<^verbatim>\<open>user/lib/pipe.c\<close> and \<^verbatim>\<open>user/lib/file.c\<close>, and the requests to the file server,
  \<^verbatim>\<open>user/lib/fsipc.c\<close>. A descriptor is a page of the program at a fixed address; its structure is
  read and written in the memory of the program.

  An \<^verbatim>\<open>int\<close> is a 32-bit word, negative for an error. A function that also returns through a
  pointer has the value \<open>Inl r\<close> where it returns the error \<open>r\<close>, and \<open>Inr x\<close> where it returns 0 and
  stores \<open>x\<close>.
\<close>

section \<open>Constants and structures\<close>

definition MAXFD :: nat where "MAXFD = 32"
definition FILEBASE :: u32 where [mos_consts]: "FILEBASE = 0x60000000"
definition FDTABLE :: u32 where [mos_consts]: "FDTABLE = FILEBASE - PDMAP"

definition INDEX2FD :: "u32 \<Rightarrow> u32" where "INDEX2FD i = FDTABLE + i * PTMAP"
definition INDEX2DATA :: "u32 \<Rightarrow> u32" where "INDEX2DATA i = FILEBASE + i * PDMAP"

text \<open>Addresses of the fields; the others of \<^verbatim>\<open>struct Filefd\<close> are in \<open>Serv\<close>.\<close>

definition fd_offset :: "u32 \<Rightarrow> u32" where "fd_offset fd = fd + 4"
definition st_name :: "u32 \<Rightarrow> u32" where "st_name st = st"
definition st_size :: "u32 \<Rightarrow> u32" where "st_size st = st + 128"
definition st_isdir :: "u32 \<Rightarrow> u32" where "st_isdir st = st + 132"
definition st_dev :: "u32 \<Rightarrow> u32" where "st_dev st = st + 136"

datatype Dev = devfile | devcons | devpipe

primrec dev_id :: "Dev \<Rightarrow> u32" where
  "dev_id devfile = 0x66"
| "dev_id devcons = 0x63"
| "dev_id devpipe = 0x70"

definition devtab :: "Dev list" where
  "devtab = [devfile, devcons, devpipe]"

text \<open>
  What a program depends on: the other environments, the serial port at each moment, the address
  of its request page \<^verbatim>\<open>fsipcbuf\<close>, and the addresses of the device structures.
\<close>

record uenv =
  others :: world
  serial :: "kern \<Rightarrow> hw"
  fsipcbuf :: u32
  dev_addr :: "Dev \<Rightarrow> u32"

text \<open>
  \<^verbatim>\<open>debugf\<close>: the text of the formatter goes to the console. Its buffer is on the stack;
  \<open>console_output_correct\<close> shows that the buffer does not matter. No call here has a \<^verbatim>\<open>%s\<close>.
\<close>

definition debugf :: "u8 list \<Rightarrow> u32 list \<Rightarrow> kern \<Rightarrow> kern option" where
  "debugf fmt args s = map_option (\<lambda>bs. fold printcharc bs s) (fmt_text (\<lambda>_. 0) fmt args)"

text \<open>Strings in the memory of the program, byte by byte.\<close>

partial_function (option) ustrlen :: "u32 \<Rightarrow> u32 \<Rightarrow> kern \<Rightarrow> (u32 \<times> kern) option" where
  "ustrlen p n s =
     (case uload8 (p + n) s of
        None \<Rightarrow> None
      | Some (b, s) \<Rightarrow> if b = 0 then Some (n, s) else ustrlen p (n + 1) s)"

partial_function (option) ustrcpy :: "u32 \<Rightarrow> u32 \<Rightarrow> kern \<Rightarrow> kern option" where
  "ustrcpy dst src s =
     (case uload8 src s of
        None \<Rightarrow> None
      | Some (b, s) \<Rightarrow>
          (case ustore8 dst b s of
             None \<Rightarrow> None
           | Some s \<Rightarrow> if b = 0 then Some s else ustrcpy (dst + 1) (src + 1) s))"

section \<open>Descriptors\<close>

text \<open>The message of \<^verbatim>\<open>dev_lookup\<close> is "[%08x] unknown device type %d" and a line feed.\<close>

definition unknown_device :: "u8 list" where
  "unknown_device = [0x5B, 0x25, 0x30, 0x38, 0x78, 0x5D, 0x20, 0x75, 0x6E, 0x6B, 0x6E, 0x6F, 0x77, 0x6E,
     0x20, 0x64, 0x65, 0x76, 0x69, 0x63, 0x65, 0x20, 0x74, 0x79, 0x70, 0x65, 0x20, 0x25, 0x64, 0x0A]"

definition dev_lookup :: "u32 \<Rightarrow> kern \<Rightarrow> ((u32 + Dev) \<times> kern) option" where
  "dev_lookup did s =
     (case find (\<lambda>d. dev_id d = did) devtab of
        Some d \<Rightarrow> Some (Inr d, s)
      | None \<Rightarrow> do {
          c \<leftarrow> curenv s;
          s \<leftarrow> debugf unknown_device [env_id (envs s c), did] s;
          Some (Inl (err_word E_INVAL), s)
        })"

primrec fd_scan :: "nat list \<Rightarrow> kern \<Rightarrow> ((u32 + u32) \<times> kern) option" where
  "fd_scan [] s = Some (Inl (err_word E_MAX_OPEN), s)"
| "fd_scan (fdno # fds) s = do {
     let va = INDEX2FD (of_nat fdno);
     (pde, s) \<leftarrow> vpd (unat (va div PDMAP)) s;
     if pde AND PTE_V = 0 then Some (Inr va, s)
     else do {
       (pte, s) \<leftarrow> vpt (unat (va div PTMAP)) s;
       if pte AND PTE_V = 0 then Some (Inr va, s) else fd_scan fds s
     }
   }"

definition fd_alloc :: "kern \<Rightarrow> ((u32 + u32) \<times> kern) option" where
  "fd_alloc s = fd_scan [0..<MAXFD - 1] s"

definition fd_close :: "u32 \<Rightarrow> kern \<Rightarrow> kern option" where
  "fd_close fd s = do {
     (r, s) \<leftarrow> syscall_mem_unmap 0 fd s;
     if r \<noteq> 0 then None else Some s
   }"

definition fd_lookup :: "u32 \<Rightarrow> kern \<Rightarrow> ((u32 + u32) \<times> kern) option" where
  "fd_lookup fdnum s =
     (if sint fdnum \<ge> int MAXFD then Some (Inl (err_word E_INVAL), s)
      else do {
        let va = INDEX2FD fdnum;
        (pte, s) \<leftarrow> vpt (unat (va div PTMAP)) s;
        if pte AND PTE_V \<noteq> 0 then Some (Inr va, s) else Some (Inl (err_word E_INVAL), s)
      })"

definition fd2num :: "u32 \<Rightarrow> u32" where
  "fd2num fd = (fd - FDTABLE) div PTMAP"

definition fd2data :: "u32 \<Rightarrow> u32" where
  "fd2data fd = INDEX2DATA (fd2num fd)"

definition num2fd :: "u32 \<Rightarrow> u32" where
  "num2fd fd = fd * PTMAP + FDTABLE"

text \<open>The common beginning of \<^verbatim>\<open>close\<close>, \<^verbatim>\<open>read\<close>, \<^verbatim>\<open>write\<close> and \<^verbatim>\<open>fstat\<close>.\<close>

definition fd_and_dev :: "u32 \<Rightarrow> kern \<Rightarrow> ((u32 + u32 \<times> Dev) \<times> kern) option" where
  "fd_and_dev fdnum s = do {
     (r, s) \<leftarrow> fd_lookup fdnum s;
     case r of
       Inl e \<Rightarrow> Some (Inl e, s)
     | Inr fd \<Rightarrow> do {
         (did, s) \<leftarrow> uload32 (fd_dev_id fd) s;
         (r, s) \<leftarrow> dev_lookup did s;
         case r of Inl e \<Rightarrow> Some (Inl e, s) | Inr d \<Rightarrow> Some (Inr (fd, d), s)
       }
   }"

section \<open>Requests to the file server (\<^verbatim>\<open>fsipc.c\<close>)\<close>

text \<open>The result is the value of the answer and the permission of the page that came with it.\<close>

definition fsipc :: "uenv \<Rightarrow> u32 \<Rightarrow> u32 \<Rightarrow> kern \<Rightarrow> ((u32 \<times> u32) \<times> kern) option" where
  "fsipc u ty dstva s = do {
     s \<leftarrow> user_ipc_send (others u) (env_id (envs s 1)) ty (fsipcbuf u) PTE_D s;
     ((v, whom, perm), s) \<leftarrow> user_ipc_recv (others u) dstva s;
     Some ((v, perm), s)
   }"

definition fsipc_open :: "uenv \<Rightarrow> u32 \<Rightarrow> u32 \<Rightarrow> u32 \<Rightarrow> kern \<Rightarrow> (u32 \<times> kern) option" where
  "fsipc_open u path omode fd s = do {
     (n, s) \<leftarrow> ustrlen path 0 s;
     if n \<ge> MAXPATHLEN then Some (err_word E_BAD_PATH, s)
     else do {
       s \<leftarrow> ustrcpy (fsipcbuf u) path s;
       s \<leftarrow> ustore32 (fsipcbuf u + MAXPATHLEN) omode s;
       ((r, _), s) \<leftarrow> fsipc u FSREQ_OPEN fd s;
       Some (r, s)
     }
   }"

definition fsipc_map :: "uenv \<Rightarrow> u32 \<Rightarrow> u32 \<Rightarrow> u32 \<Rightarrow> kern \<Rightarrow> (u32 \<times> kern) option" where
  "fsipc_map u fileid offset dstva s = do {
     s \<leftarrow> ustore32 (fsipcbuf u) fileid s;
     s \<leftarrow> ustore32 (fsipcbuf u + 4) offset s;
     ((r, perm), s) \<leftarrow> fsipc u FSREQ_MAP dstva s;
     if negative r then Some (r, s)
     else if perm AND NOT (PTE_D OR PTE_LIBRARY) \<noteq> PTE_V then None
     else Some (0, s)
   }"

definition fsipc_set_size :: "uenv \<Rightarrow> u32 \<Rightarrow> u32 \<Rightarrow> kern \<Rightarrow> (u32 \<times> kern) option" where
  "fsipc_set_size u fileid sz s = do {
     s \<leftarrow> ustore32 (fsipcbuf u) fileid s;
     s \<leftarrow> ustore32 (fsipcbuf u + 4) sz s;
     ((r, _), s) \<leftarrow> fsipc u FSREQ_SET_SIZE 0 s;
     Some (r, s)
   }"

definition fsipc_close :: "uenv \<Rightarrow> u32 \<Rightarrow> kern \<Rightarrow> (u32 \<times> kern) option" where
  "fsipc_close u fileid s = do {
     s \<leftarrow> ustore32 (fsipcbuf u) fileid s;
     ((r, _), s) \<leftarrow> fsipc u FSREQ_CLOSE 0 s;
     Some (r, s)
   }"

definition fsipc_dirty :: "uenv \<Rightarrow> u32 \<Rightarrow> u32 \<Rightarrow> kern \<Rightarrow> (u32 \<times> kern) option" where
  "fsipc_dirty u fileid offset s = do {
     s \<leftarrow> ustore32 (fsipcbuf u) fileid s;
     s \<leftarrow> ustore32 (fsipcbuf u + 4) offset s;
     ((r, _), s) \<leftarrow> fsipc u FSREQ_DIRTY 0 s;
     Some (r, s)
   }"

definition fsipc_remove :: "uenv \<Rightarrow> u32 \<Rightarrow> u32 \<Rightarrow> kern \<Rightarrow> (u32 \<times> kern) option" where
  "fsipc_remove u path ty s = do {
     (n, s) \<leftarrow> ustrlen path 0 s;
     if n = 0 \<or> n > MAXPATHLEN then Some (err_word E_BAD_PATH, s)
     else do {
       s \<leftarrow> ustore32 (fsipcbuf u + MAXPATHLEN) ty s;
       s \<leftarrow> ustrcpy (fsipcbuf u) path s;
       ((r, _), s) \<leftarrow> fsipc u FSREQ_REMOVE 0 s;
       Some (r, s)
     }
   }"

definition fsipc_sync :: "uenv \<Rightarrow> kern \<Rightarrow> (u32 \<times> kern) option" where
  "fsipc_sync u s = map_option (\<lambda>((r, _), s). (r, s)) (fsipc u FSREQ_SYNC 0 s)"

section \<open>Files (\<^verbatim>\<open>file.c\<close>)\<close>

definition MAXFILESIZE :: u32 where [mos_consts]: "MAXFILESIZE = NINDIRECT * 4096"

text \<open>
  The loops over the pages of a file: \<^verbatim>\<open>i\<close> counts in steps of a page. The loop of \<^verbatim>\<open>open\<close> ends at
  the first answer that is not 0 (\<open>try\<close>), the others at the first negative one.
\<close>

partial_function (option) open_map :: "uenv \<Rightarrow> u32 \<Rightarrow> u32 \<Rightarrow> u32 \<Rightarrow> u32 \<Rightarrow> kern \<Rightarrow> (u32 \<times> kern) option" where
  "open_map u fileid va sz i s =
     (if i < sz then
        (case fsipc_map u fileid i (va + i) s of
           None \<Rightarrow> None
         | Some (r, s) \<Rightarrow> if r \<noteq> 0 then Some (r, s) else open_map u fileid va sz (i + PTMAP) s)
      else Some (0, s))"

definition open_file :: "uenv \<Rightarrow> u32 \<Rightarrow> u32 \<Rightarrow> kern \<Rightarrow> (u32 \<times> kern) option" where
  "open_file u path mode s = do {
     (r, s) \<leftarrow> fd_alloc s;
     case r of
       Inl e \<Rightarrow> Some (e, s)
     | Inr fd \<Rightarrow> do {
         (r, s) \<leftarrow> fsipc_open u path mode fd s;
         if r \<noteq> 0 then Some (r, s)
         else do {
           (sz, s) \<leftarrow> uload32 (f_size (f_file fd)) s;
           (fileid, s) \<leftarrow> uload32 (f_fileid fd) s;
           (r, s) \<leftarrow> open_map u fileid (fd2data fd) sz 0 s;
           if r \<noteq> 0 then Some (r, s) else Some (fd2num fd, s)
         }
       }
   }"

partial_function (option) mark_dirty :: "uenv \<Rightarrow> u32 \<Rightarrow> u32 \<Rightarrow> u32 \<Rightarrow> kern \<Rightarrow> (u32 \<times> kern) option" where
  "mark_dirty u fileid sz i s =
     (if i < sz then
        (case fsipc_dirty u fileid i s of
           None \<Rightarrow> None
         | Some (r, s) \<Rightarrow> if negative r then Some (r, s) else mark_dirty u fileid sz (i + PTMAP) s)
      else Some (0, s))"

partial_function (option) unmap_data :: "u32 \<Rightarrow> u32 \<Rightarrow> u32 \<Rightarrow> kern \<Rightarrow> (u32 \<times> kern) option" where
  "unmap_data va sz i s =
     (if i < sz then
        (case syscall_mem_unmap 0 (va + i) s of
           None \<Rightarrow> None
         | Some (r, s) \<Rightarrow> if negative r then Some (r, s) else unmap_data va sz (i + PTMAP) s)
      else Some (0, s))"

text \<open>The messages of \<^verbatim>\<open>file_close\<close>, in its own spelling.\<close>

definition no_dirty_text :: "u8 list" where
  "no_dirty_text = [0x63, 0x61, 0x6E, 0x6E, 0x6F, 0x74, 0x20, 0x6D, 0x61, 0x72, 0x6B, 0x20, 0x70, 0x61,
     0x67, 0x65, 0x73, 0x20, 0x61, 0x73, 0x20, 0x64, 0x69, 0x72, 0x74, 0x79, 0x0A]"
definition no_close_text :: "u8 list" where
  "no_close_text = [0x63, 0x61, 0x6E, 0x6E, 0x6F, 0x74, 0x20, 0x63, 0x6C, 0x6F, 0x73, 0x65, 0x20, 0x74,
     0x68, 0x65, 0x20, 0x66, 0x69, 0x6C, 0x65, 0x0A]"
definition no_unmap_text :: "u8 list" where
  "no_unmap_text = [0x63, 0x61, 0x6E, 0x6E, 0x6F, 0x6E, 0x74, 0x20, 0x75, 0x6E, 0x6D, 0x61, 0x70, 0x20,
     0x74, 0x68, 0x65, 0x20, 0x66, 0x69, 0x6C, 0x65, 0x0A]"

definition dev_file_close :: "uenv \<Rightarrow> u32 \<Rightarrow> kern \<Rightarrow> (u32 \<times> kern) option" where
  "dev_file_close u fd s = do {
     (fileid, s) \<leftarrow> uload32 (f_fileid fd) s;
     (sz, s) \<leftarrow> uload32 (f_size (f_file fd)) s;
     let va = fd2data fd;
     (r, s) \<leftarrow> mark_dirty u fileid sz 0 s;
     if negative r then do { s \<leftarrow> debugf no_dirty_text [] s; Some (r, s) }
     else do {
       (r, s) \<leftarrow> fsipc_close u fileid s;
       if negative r then do { s \<leftarrow> debugf no_close_text [] s; Some (r, s) }
       else if sz = 0 then Some (0, s)
       else do {
         (r, s) \<leftarrow> unmap_data va sz 0 s;
         if negative r then do { s \<leftarrow> debugf no_unmap_text [] s; Some (r, s) } else Some (0, s)
       }
     }
   }"

definition file_read :: "u32 \<Rightarrow> u32 \<Rightarrow> u32 \<Rightarrow> u32 \<Rightarrow> kern \<Rightarrow> (u32 \<times> kern) option" where
  "file_read fd buf n offset s = do {
     (sz, s) \<leftarrow> uload32 (f_size (f_file fd)) s;
     if offset > sz then Some (0, s)
     else do {
       let n = (if offset + n > sz then sz - offset else n);
       s \<leftarrow> umemcpy buf (fd2data fd + offset) n s;
       Some (n, s)
     }
   }"

definition read_map :: "u32 \<Rightarrow> u32 \<Rightarrow> kern \<Rightarrow> ((u32 + u32) \<times> kern) option" where
  "read_map fdnum offset s = do {
     (r, s) \<leftarrow> fd_lookup fdnum s;
     case r of
       Inl e \<Rightarrow> Some (Inl e, s)
     | Inr fd \<Rightarrow> do {
         (did, s) \<leftarrow> uload32 (fd_dev_id fd) s;
         if did \<noteq> dev_id devfile then Some (Inl (err_word E_INVAL), s)
         else do {
           let va = fd2data fd + offset;
           if offset \<ge> MAXFILESIZE then Some (Inl (err_word E_NO_DISK), s)
           else do {
             (pde, s) \<leftarrow> vpd (PDX va) s;
             if pde AND PTE_V = 0 then Some (Inl (err_word E_NO_DISK), s)
             else do {
               (pte, s) \<leftarrow> vpt (VPN va) s;
               if pte AND PTE_V = 0 then Some (Inl (err_word E_NO_DISK), s) else Some (Inr va, s)
             }
           }
         }
       }
   }"

text \<open>The counters of the two loops of \<^verbatim>\<open>ftruncate\<close> are compared as unsigned words.\<close>

partial_function (option) extend_map :: "uenv \<Rightarrow> u32 \<Rightarrow> u32 \<Rightarrow> u32 \<Rightarrow> u32 \<Rightarrow> kern \<Rightarrow> (u32 \<times> kern) option" where
  "extend_map u fileid va stop i s =
     (if i < stop then
        (case fsipc_map u fileid i (va + i) s of
           None \<Rightarrow> None
         | Some (r, s) \<Rightarrow> if negative r then Some (r, s) else extend_map u fileid va stop (i + PTMAP) s)
      else Some (0, s))"

definition ftruncate :: "uenv \<Rightarrow> u32 \<Rightarrow> u32 \<Rightarrow> kern \<Rightarrow> (u32 \<times> kern) option" where
  "ftruncate u fdnum sz s =
     (if sz > MAXFILESIZE then Some (err_word E_NO_DISK, s)
      else do {
        (r, s) \<leftarrow> fd_lookup fdnum s;
        case r of
          Inl e \<Rightarrow> Some (e, s)
        | Inr fd \<Rightarrow> do {
            (did, s) \<leftarrow> uload32 (fd_dev_id fd) s;
            if did \<noteq> dev_id devfile then Some (err_word E_INVAL, s)
            else do {
              (fileid, s) \<leftarrow> uload32 (f_fileid fd) s;
              (oldsz, s) \<leftarrow> uload32 (f_size (f_file fd)) s;
              s \<leftarrow> ustore32 (f_size (f_file fd)) sz s;
              (r, s) \<leftarrow> fsipc_set_size u fileid sz s;
              if negative r then Some (r, s)
              else do {
                let va = fd2data fd;
                (r, s) \<leftarrow> extend_map u fileid va (ROUND sz PTMAP) (ROUND oldsz PTMAP) s;
                if negative r then do {
                  (r', s) \<leftarrow> fsipc_set_size u fileid oldsz s;
                  Some (if negative r' then r' else r, s)
                }
                else do {
                  (r, s) \<leftarrow> unmap_data va (ROUND oldsz PTMAP) (ROUND sz PTMAP) s;
                  if negative r then None else Some (0, s)
                }
              }
            }
          }
      })"

definition file_write :: "uenv \<Rightarrow> u32 \<Rightarrow> u32 \<Rightarrow> u32 \<Rightarrow> u32 \<Rightarrow> kern \<Rightarrow> (u32 \<times> kern) option" where
  "file_write u fd buf n offset s =
     (let tot = offset + n in
      if tot > MAXFILESIZE then Some (err_word E_NO_DISK, s)
      else do {
        (sz, s) \<leftarrow> uload32 (f_size (f_file fd)) s;
        (r, s) \<leftarrow> (if tot > sz then ftruncate u (fd2num fd) tot s else Some (0, s));
        if negative r then Some (r, s)
        else do {
          s \<leftarrow> umemcpy (fd2data fd + offset) buf n s;
          Some (n, s)
        }
      })"

definition file_stat :: "u32 \<Rightarrow> u32 \<Rightarrow> kern \<Rightarrow> (u32 \<times> kern) option" where
  "file_stat fd st s = do {
     s \<leftarrow> ustrcpy (st_name st) (f_file fd) s;
     (sz, s) \<leftarrow> uload32 (f_size (f_file fd)) s;
     s \<leftarrow> ustore32 (st_size st) sz s;
     (ty, s) \<leftarrow> uload32 (f_type (f_file fd)) s;
     s \<leftarrow> ustore32 (st_isdir st) (if ty = FTYPE_DIR then 1 else 0) s;
     Some (0, s)
   }"

text \<open>
  \<^verbatim>\<open>remove\<close> takes the kind of removal from the byte behind the terminating zero of the path. That
  byte is a signed \<^verbatim>\<open>char\<close>.
\<close>

definition remove_file :: "uenv \<Rightarrow> u32 \<Rightarrow> kern \<Rightarrow> (u32 \<times> kern) option" where
  "remove_file u path s = do {
     (len, s) \<leftarrow> ustrlen path 0 s;
     (b, s) \<leftarrow> uload8 (path + (len + 1)) s;
     fsipc_remove u path (scast b - 0x30) s
   }"

section \<open>The console (\<^verbatim>\<open>console.c\<close>)\<close>

definition iscons :: "u32 \<Rightarrow> kern \<Rightarrow> (u32 \<times> kern) option" where
  "iscons fdnum s = do {
     (r, s) \<leftarrow> fd_lookup fdnum s;
     case r of
       Inl e \<Rightarrow> Some (e, s)
     | Inr fd \<Rightarrow> do {
         (did, s) \<leftarrow> uload32 (fd_dev_id fd) s;
         Some (if did = dev_id devcons then 1 else 0, s)
       }
   }"

definition opencons :: "kern \<Rightarrow> (u32 \<times> kern) option" where
  "opencons s = do {
     (r, s) \<leftarrow> fd_alloc s;
     case r of
       Inl e \<Rightarrow> Some (e, s)
     | Inr fd \<Rightarrow> do {
         (r, s) \<leftarrow> syscall_mem_alloc 0 fd (PTE_D OR PTE_LIBRARY) s;
         if negative r then Some (r, s)
         else do {
           s \<leftarrow> ustore32 (fd_dev_id fd) (dev_id devcons) s;
           s \<leftarrow> ustore32 (fd_omode fd) O_RDWR s;
           Some (fd2num fd, s)
         }
       }
   }"

text \<open>The loop that waits for a character.\<close>

partial_function (option) cons_wait :: "uenv \<Rightarrow> kern \<Rightarrow> (u32 \<times> kern) option" where
  "cons_wait u s =
     (case syscall_cgetc (serial u s) s of
        None \<Rightarrow> None
      | Some (c, s) \<Rightarrow>
          if c = 0 then (case syscall_yield (others u) s of None \<Rightarrow> None | Some s \<Rightarrow> cons_wait u s)
          else Some (c, s))"

definition cons_read :: "uenv \<Rightarrow> u32 \<Rightarrow> u32 \<Rightarrow> u32 \<Rightarrow> u32 \<Rightarrow> kern \<Rightarrow> (u32 \<times> kern) option" where
  "cons_read u fd vbuf n offset s =
     (if n = 0 then Some (0, s)
      else do {
        (c, s) \<leftarrow> cons_wait u s;
        s \<leftarrow> (if c \<noteq> 0x0D then debugf [0x25, 0x63] [c] s else debugf [0x0A] [] s);
        if negative c then Some (c, s)
        else if c = 0x04 then Some (0, s)
        else do {
          s \<leftarrow> ustore8 vbuf (ucast c) s;
          Some (1, s)
        }
      })"

definition cons_write :: "u32 \<Rightarrow> u32 \<Rightarrow> u32 \<Rightarrow> u32 \<Rightarrow> kern \<Rightarrow> (u32 \<times> kern) option" where
  "cons_write fd buf n offset s = do {
     (r, s) \<leftarrow> syscall_print_cons buf n s;
     Some (if negative r then r else n, s)
   }"

definition cons_close :: "u32 \<Rightarrow> kern \<Rightarrow> (u32 \<times> kern) option" where
  "cons_close fd s = Some (0, s)"

text \<open>The name is "<cons>".\<close>

definition cons_stat :: "u32 \<Rightarrow> u32 \<Rightarrow> kern \<Rightarrow> (u32 \<times> kern) option" where
  "cons_stat fd st s = do {
     s \<leftarrow> mfold (\<lambda>i. ustore8 (st_name st + of_nat i) ([0x3C, 0x63, 0x6F, 0x6E, 0x73, 0x3E, 0] ! i)) [0..<7] s;
     Some (0, s)
   }"

section \<open>Pipes (\<^verbatim>\<open>pipe.c\<close>)\<close>

text \<open>
  The descriptors of a pipe; its ring buffer under preemption is the subject of \<open>Pipe\<close>. The
  message is "[%08x] pipecreate " and a line feed.
\<close>

definition pipecreate :: "u8 list" where
  "pipecreate = [0x5B, 0x25, 0x30, 0x38, 0x78, 0x5D, 0x20, 0x70, 0x69, 0x70, 0x65, 0x63, 0x72, 0x65, 0x61,
     0x74, 0x65, 0x20, 0x0A]"

definition pipe_err2 :: "u32 \<Rightarrow> u32 \<Rightarrow> u32 \<Rightarrow> kern \<Rightarrow> ((u32 + u32 \<times> u32) \<times> kern) option" where
  "pipe_err2 r fd0 fd1 s = do {
     (_, s) \<leftarrow> syscall_mem_unmap 0 fd1 s;
     (_, s) \<leftarrow> syscall_mem_unmap 0 fd0 s;
     Some (Inl r, s)
   }"

definition pipe_fill :: "u32 \<Rightarrow> u32 \<Rightarrow> kern \<Rightarrow> kern option" where
  "pipe_fill fd0 fd1 s = do {
     s \<leftarrow> ustore32 (fd_dev_id fd0) (dev_id devpipe) s;
     s \<leftarrow> ustore32 (fd_omode fd0) O_RDONLY s;
     s \<leftarrow> ustore32 (fd_dev_id fd1) (dev_id devpipe) s;
     s \<leftarrow> ustore32 (fd_omode fd1) O_WRONLY s;
     c \<leftarrow> curenv s;
     (_, s) \<leftarrow> vpt (VPN (fd2data fd0)) s;
     debugf pipecreate [env_id (envs s c)] s
   }"

definition pipe_map :: "u32 \<Rightarrow> u32 \<Rightarrow> kern \<Rightarrow> ((u32 + u32 \<times> u32) \<times> kern) option" where
  "pipe_map fd0 fd1 s = do {
     let va = fd2data fd0;
     (r, s) \<leftarrow> syscall_mem_alloc 0 va (PTE_D OR PTE_LIBRARY) s;
     if negative r then pipe_err2 r fd0 fd1 s
     else do {
       (r, s) \<leftarrow> syscall_mem_map 0 va 0 (fd2data fd1) (PTE_D OR PTE_LIBRARY) s;
       if negative r then do {
         (_, s) \<leftarrow> syscall_mem_unmap 0 va s;
         pipe_err2 r fd0 fd1 s
       }
       else do {
         s \<leftarrow> pipe_fill fd0 fd1 s;
         Some (Inr (fd2num fd0, fd2num fd1), s)
       }
     }
   }"

text \<open>A new descriptor with a page of its own.\<close>

definition fd_page :: "kern \<Rightarrow> ((u32 + u32) \<times> kern) option" where
  "fd_page s = do {
     (r, s) \<leftarrow> fd_alloc s;
     case r of
       Inl e \<Rightarrow> Some (Inl e, s)
     | Inr fd \<Rightarrow> do {
         (r, s) \<leftarrow> syscall_mem_alloc 0 fd (PTE_D OR PTE_LIBRARY) s;
         Some (if negative r then Inl r else Inr fd, s)
       }
   }"

definition open_pipe :: "kern \<Rightarrow> ((u32 + u32 \<times> u32) \<times> kern) option" where
  "open_pipe s = do {
     (r, s) \<leftarrow> fd_page s;
     case r of
       Inl e \<Rightarrow> Some (Inl e, s)
     | Inr fd0 \<Rightarrow> do {
         (r, s) \<leftarrow> fd_page s;
         case r of
           Inl e \<Rightarrow> do {
             (_, s) \<leftarrow> syscall_mem_unmap 0 fd0 s;
             Some (Inl e, s)
           }
         | Inr fd1 \<Rightarrow> pipe_map fd0 fd1 s
       }
   }"

partial_function (option) pipe_closed_loop :: "u32 \<Rightarrow> u32 \<Rightarrow> kern \<Rightarrow> (bool \<times> kern) option" where
  "pipe_closed_loop fd p s =
     (case curenv s of
        None \<Rightarrow> None
      | Some c \<Rightarrow>
          (case user_pageref fd s of
             None \<Rightarrow> None
           | Some (fd_ref, s1) \<Rightarrow>
               (case user_pageref p s1 of
                  None \<Rightarrow> None
                | Some (pipe_ref, s2) \<Rightarrow>
                    if env_runs (envs s2 c) \<noteq> env_runs (envs s c) then pipe_closed_loop fd p s2
                    else Some (fd_ref = pipe_ref, s2))))"

definition pipe_closed_now :: "u32 \<Rightarrow> kern \<Rightarrow> (bool \<times> kern) option" where
  "pipe_closed_now fd s = pipe_closed_loop fd (fd2data fd) s"

text \<open>The positions and the buffer of \<^verbatim>\<open>struct Pipe\<close> at address \<open>p\<close>.\<close>

partial_function (option) dev_pipe_read :: "uenv \<Rightarrow> u32 \<Rightarrow> u32 \<Rightarrow> u32 \<Rightarrow> u32 \<Rightarrow> kern \<Rightarrow> (u32 \<times> kern) option" where
  "dev_pipe_read u fd buf n i s =
     (let p = fd2data fd in
      if i < n then
        (case uload32 p s of None \<Rightarrow> None | Some (rpos, s) \<Rightarrow>
        (case uload32 (p + 4) s of None \<Rightarrow> None | Some (wpos, s) \<Rightarrow>
          if rpos \<ge> wpos then
            (if sint i \<ge> 1 then Some (i, s)
             else (case pipe_closed_now fd s of None \<Rightarrow> None | Some (b, s) \<Rightarrow>
               if b then Some (i, s)
               else (case syscall_yield (others u) s of None \<Rightarrow> None | Some s \<Rightarrow> dev_pipe_read u fd buf n i s)))
          else
            (case ustore32 p (rpos + 1) s of None \<Rightarrow> None | Some s \<Rightarrow>
            (case uload8 (p + 8 + rpos mod of_nat PIPE_SIZE) s of None \<Rightarrow> None | Some (b, s) \<Rightarrow>
            (case ustore8 (buf + i) b s of None \<Rightarrow> None | Some s \<Rightarrow> dev_pipe_read u fd buf n (i + 1) s)))))
      else Some (n, s))"

partial_function (option) dev_pipe_write :: "uenv \<Rightarrow> u32 \<Rightarrow> u32 \<Rightarrow> u32 \<Rightarrow> u32 \<Rightarrow> kern \<Rightarrow> (u32 \<times> kern) option" where
  "dev_pipe_write u fd buf n i s =
     (let p = fd2data fd in
      if i < n then
        (case uload32 (p + 4) s of None \<Rightarrow> None | Some (wpos, s) \<Rightarrow>
        (case uload32 p s of None \<Rightarrow> None | Some (rpos, s) \<Rightarrow>
          if wpos - rpos \<ge> of_nat PIPE_SIZE then
            (case pipe_closed_now fd s of None \<Rightarrow> None | Some (b, s) \<Rightarrow>
               if b then Some (i, s)
               else (case syscall_yield (others u) s of None \<Rightarrow> None | Some s \<Rightarrow> dev_pipe_write u fd buf n i s))
          else
            (case ustore32 (p + 4) (wpos + 1) s of None \<Rightarrow> None | Some s \<Rightarrow>
            (case uload8 (buf + i) s of None \<Rightarrow> None | Some (b, s) \<Rightarrow>
            (case ustore8 (p + 8 + wpos mod of_nat PIPE_SIZE) b s of None \<Rightarrow> None
             | Some s \<Rightarrow> dev_pipe_write u fd buf n (i + 1) s)))))
      else Some (n, s))"

definition pipe_is_closed :: "u32 \<Rightarrow> kern \<Rightarrow> (u32 \<times> kern) option" where
  "pipe_is_closed fdnum s = do {
     (r, s) \<leftarrow> fd_lookup fdnum s;
     case r of
       Inl e \<Rightarrow> Some (e, s)
     | Inr fd \<Rightarrow> do { (b, s) \<leftarrow> pipe_closed_now fd s; Some (if b then 1 else 0, s) }
   }"

definition pipe_close :: "u32 \<Rightarrow> kern \<Rightarrow> (u32 \<times> kern) option" where
  "pipe_close fd s = do {
     (_, s) \<leftarrow> syscall_mem_unmap 0 fd s;
     (_, s) \<leftarrow> syscall_mem_unmap 0 (fd2data fd) s;
     Some (0, s)
   }"

definition pipe_stat :: "u32 \<Rightarrow> u32 \<Rightarrow> kern \<Rightarrow> (u32 \<times> kern) option" where
  "pipe_stat fd st s = Some (0, s)"

section \<open>The device functions\<close>

primrec dev_read :: "Dev \<Rightarrow> uenv \<Rightarrow> u32 \<Rightarrow> u32 \<Rightarrow> u32 \<Rightarrow> u32 \<Rightarrow> kern \<Rightarrow> (u32 \<times> kern) option" where
  "dev_read devfile u fd buf n offset s = file_read fd buf n offset s"
| "dev_read devcons u fd buf n offset s = cons_read u fd buf n offset s"
| "dev_read devpipe u fd buf n offset s = dev_pipe_read u fd buf n 0 s"

primrec dev_write :: "Dev \<Rightarrow> uenv \<Rightarrow> u32 \<Rightarrow> u32 \<Rightarrow> u32 \<Rightarrow> u32 \<Rightarrow> kern \<Rightarrow> (u32 \<times> kern) option" where
  "dev_write devfile u fd buf n offset s = file_write u fd buf n offset s"
| "dev_write devcons u fd buf n offset s = cons_write fd buf n offset s"
| "dev_write devpipe u fd buf n offset s = dev_pipe_write u fd buf n 0 s"

primrec dev_close :: "Dev \<Rightarrow> uenv \<Rightarrow> u32 \<Rightarrow> kern \<Rightarrow> (u32 \<times> kern) option" where
  "dev_close devfile u fd s = dev_file_close u fd s"
| "dev_close devcons u fd s = cons_close fd s"
| "dev_close devpipe u fd s = pipe_close fd s"

primrec dev_stat :: "Dev \<Rightarrow> u32 \<Rightarrow> u32 \<Rightarrow> kern \<Rightarrow> (u32 \<times> kern) option" where
  "dev_stat devfile fd st s = file_stat fd st s"
| "dev_stat devcons fd st s = cons_stat fd st s"
| "dev_stat devpipe fd st s = pipe_stat fd st s"

section \<open>Calls on descriptors\<close>

definition close :: "uenv \<Rightarrow> u32 \<Rightarrow> kern \<Rightarrow> (u32 \<times> kern) option" where
  "close u fdnum s = do {
     (r, s) \<leftarrow> fd_and_dev fdnum s;
     case r of
       Inl e \<Rightarrow> Some (e, s)
     | Inr (fd, dev) \<Rightarrow> do {
         (r, s) \<leftarrow> dev_close dev u fd s;
         s \<leftarrow> fd_close fd s;
         Some (r, s)
       }
   }"

definition close_all :: "uenv \<Rightarrow> kern \<Rightarrow> kern option" where
  "close_all u s = mfold (\<lambda>i s. do { (_, s) \<leftarrow> close u (of_nat i) s; Some s }) [0..<MAXFD] s"

text \<open>The two loops of \<^verbatim>\<open>dup\<close>, over the 1024 pages of a data area.\<close>

primrec dup_data :: "u32 \<Rightarrow> u32 \<Rightarrow> nat list \<Rightarrow> kern \<Rightarrow> (u32 \<times> kern) option" where
  "dup_data ova nva [] s = Some (0, s)"
| "dup_data ova nva (k # ks) s = do {
     let i = of_nat k * PTMAP;
     (pte, s) \<leftarrow> vpt (VPN (ova + i)) s;
     if pte AND PTE_V \<noteq> 0 then do {
       (r, s) \<leftarrow> syscall_mem_map 0 (ova + i) 0 (nva + i) (pte AND (PTE_D OR PTE_LIBRARY)) s;
       if negative r then Some (r, s) else dup_data ova nva ks s
     }
     else dup_data ova nva ks s
   }"

definition dup_err :: "u32 \<Rightarrow> u32 \<Rightarrow> u32 \<Rightarrow> kern \<Rightarrow> (u32 \<times> kern) option" where
  "dup_err r newfd nva s = do {
     s \<leftarrow> fd_close newfd s;
     s \<leftarrow> mfold (\<lambda>k. fd_close (nva + of_nat k * PTMAP)) [0..<1024] s;
     Some (r, s)
   }"

definition dup :: "uenv \<Rightarrow> u32 \<Rightarrow> u32 \<Rightarrow> kern \<Rightarrow> (u32 \<times> kern) option" where
  "dup u oldfdnum newfdnum s = do {
     (r, s) \<leftarrow> fd_lookup oldfdnum s;
     case r of
       Inl e \<Rightarrow> Some (e, s)
     | Inr oldfd \<Rightarrow> do {
         (_, s) \<leftarrow> close u newfdnum s;
         let newfd = INDEX2FD newfdnum;
         let ova = fd2data oldfd;
         let nva = fd2data newfd;
         (pde, s) \<leftarrow> vpd (PDX ova) s;
         (r, s) \<leftarrow> (if pde \<noteq> 0 then dup_data ova nva [0..<1024] s else Some (0, s));
         if negative r then dup_err r newfd nva s
         else do {
           (pte, s) \<leftarrow> vpt (VPN oldfd) s;
           (r, s) \<leftarrow> syscall_mem_map 0 oldfd 0 newfd (pte AND (PTE_D OR PTE_LIBRARY)) s;
           if negative r then dup_err r newfd nva s else Some (newfdnum, s)
         }
       }
   }"

text \<open>The offset moves by the result when that is positive.\<close>

definition advance :: "u32 \<Rightarrow> u32 \<Rightarrow> kern \<Rightarrow> (u32 \<times> kern) option" where
  "advance fd r s =
     (if sint r > 0 then do {
        (off, s) \<leftarrow> uload32 (fd_offset fd) s;
        s \<leftarrow> ustore32 (fd_offset fd) (off + r) s;
        Some (r, s)
      }
      else Some (r, s))"

definition read_fd :: "uenv \<Rightarrow> u32 \<Rightarrow> u32 \<Rightarrow> u32 \<Rightarrow> kern \<Rightarrow> (u32 \<times> kern) option" where
  "read_fd u fdnum buf n s = do {
     (r, s) \<leftarrow> fd_and_dev fdnum s;
     case r of
       Inl e \<Rightarrow> Some (e, s)
     | Inr (fd, dev) \<Rightarrow> do {
         (omode, s) \<leftarrow> uload32 (fd_omode fd) s;
         if omode AND O_ACCMODE = O_WRONLY then Some (err_word E_INVAL, s)
         else do {
           (off, s) \<leftarrow> uload32 (fd_offset fd) s;
           (r, s) \<leftarrow> dev_read dev u fd buf n off s;
           advance fd r s
         }
       }
   }"

partial_function (option) readn_loop :: "uenv \<Rightarrow> u32 \<Rightarrow> u32 \<Rightarrow> u32 \<Rightarrow> u32 \<Rightarrow> kern \<Rightarrow> (u32 \<times> kern) option" where
  "readn_loop u fdnum buf n tot s =
     (if tot < n then
        (case read_fd u fdnum (buf + tot) (n - tot) s of
           None \<Rightarrow> None
         | Some (m, s) \<Rightarrow>
             if negative m then Some (m, s)
             else if m = 0 then Some (tot, s)
             else readn_loop u fdnum buf n (tot + m) s)
      else Some (tot, s))"

definition readn :: "uenv \<Rightarrow> u32 \<Rightarrow> u32 \<Rightarrow> u32 \<Rightarrow> kern \<Rightarrow> (u32 \<times> kern) option" where
  "readn u fdnum buf n s = readn_loop u fdnum buf n 0 s"

definition write_fd :: "uenv \<Rightarrow> u32 \<Rightarrow> u32 \<Rightarrow> u32 \<Rightarrow> kern \<Rightarrow> (u32 \<times> kern) option" where
  "write_fd u fdnum buf n s = do {
     (r, s) \<leftarrow> fd_and_dev fdnum s;
     case r of
       Inl e \<Rightarrow> Some (e, s)
     | Inr (fd, dev) \<Rightarrow> do {
         (omode, s) \<leftarrow> uload32 (fd_omode fd) s;
         if omode AND O_ACCMODE = O_RDONLY then Some (err_word E_INVAL, s)
         else do {
           (off, s) \<leftarrow> uload32 (fd_offset fd) s;
           (r, s) \<leftarrow> dev_write dev u fd buf n off s;
           advance fd r s
         }
       }
   }"

definition seek :: "u32 \<Rightarrow> u32 \<Rightarrow> kern \<Rightarrow> (u32 \<times> kern) option" where
  "seek fdnum offset s = do {
     (r, s) \<leftarrow> fd_lookup fdnum s;
     case r of
       Inl e \<Rightarrow> Some (e, s)
     | Inr fd \<Rightarrow> do { s \<leftarrow> ustore32 (fd_offset fd) offset s; Some (0, s) }
   }"

definition fstat :: "uenv \<Rightarrow> u32 \<Rightarrow> u32 \<Rightarrow> kern \<Rightarrow> (u32 \<times> kern) option" where
  "fstat u fdnum st s = do {
     (r, s) \<leftarrow> fd_and_dev fdnum s;
     case r of
       Inl e \<Rightarrow> Some (e, s)
     | Inr (fd, dev) \<Rightarrow> do {
         s \<leftarrow> ustore8 (st_name st) 0 s;
         s \<leftarrow> ustore32 (st_size st) 0 s;
         s \<leftarrow> ustore32 (st_isdir st) 0 s;
         s \<leftarrow> ustore32 (st_dev st) (dev_addr u dev) s;
         dev_stat dev fd st s
       }
   }"

definition stat :: "uenv \<Rightarrow> u32 \<Rightarrow> u32 \<Rightarrow> kern \<Rightarrow> (u32 \<times> kern) option" where
  "stat u path st s = do {
     (fd, s) \<leftarrow> open_file u path O_RDONLY s;
     if negative fd then Some (fd, s)
     else do {
       (r, s) \<leftarrow> fstat u fd st s;
       (_, s) \<leftarrow> close u fd s;
       Some (r, s)
     }
   }"

section \<open>Start and end of a program (\<^verbatim>\<open>libos.c\<close>)\<close>

text \<open>
  \<^verbatim>\<open>exit\<close> does not return: its result is the state in which the kernel has switched to another
  environment. \<^verbatim>\<open>main\<close> is a parameter.
\<close>

definition exit_env :: "uenv \<Rightarrow> kern \<Rightarrow> kern option" where
  "exit_env u s = do {
     s \<leftarrow> close_all u s;
     (c, s) \<leftarrow> sys_env_destroy 0 s;
     case c of Switched \<Rightarrow> Some s | Returns _ \<Rightarrow> None
   }"

definition libmain :: "uenv \<Rightarrow> (kern \<Rightarrow> (u32 \<times> kern) option) \<Rightarrow> kern \<Rightarrow> kern option" where
  "libmain u main s = do {
     (r, s) \<leftarrow> main s;
     c \<leftarrow> curenv s;
     (_, s) \<leftarrow> msys (sys_send_return_value (env_parent_id (envs s c)) r 0 0 s);
     (_, s) \<leftarrow> msys (sys_set_job_done (env_id (envs s c)) s);
     exit_env u s
   }"

end
