(* ===== verification/Fd_Inv.thy ===== *)
theory Fd_Inv
  imports Fd Cow_Inv
begin

unbundle bit_operations_syntax

text \<open>
  A program that works on its own address space: what one memory call, one load or store, and one
  message on the console do to the map of the running program, to the other address spaces and to
  the contents of pages, in a form that composes.
\<close>

section \<open>Running programs\<close>

definition prog :: "kern \<Rightarrow> nat list \<Rightarrow> nat \<Rightarrow> bool" where
  "prog s q c \<longleftrightarrow> ok s q \<and> curenv s = Some c \<and> self_mapped s (pgdir_of s c)"

abbreviation own_map :: "kern \<Rightarrow> nat \<Rightarrow> nat \<times> nat \<Rightarrow> u32 option" where
  "own_map s c \<equiv> as_map s (pgdir_of s c)"

lemma progD:
  assumes "prog s q c"
  shows "ok s q" "kinv s q" "curenv s = Some c" "self_mapped s (pgdir_of s c)" "c \<in> live s" "pgdir_of s c \<in> dirs s"
    "env_pgdir (envs s c) = pgdir_of s c"
proof -
  from assms show p: "ok s q" "curenv s = Some c" "self_mapped s (pgdir_of s c)" by (simp_all add: prog_def)
  show k: "kinv s q" by (rule okD(1) [OF p(1)])
  show "c \<in> live s" "pgdir_of s c \<in> dirs s" by (rule running_dir [OF k p(2)])+
  show "env_pgdir (envs s c) = pgdir_of s c" by (simp add: pgdir_of_def)
qed

text \<open>
  \<open>moves W c m s s'\<close>: the program \<open>c\<close> has gone from \<open>s\<close> to \<open>s'\<close>. Its map is now \<open>m\<close>, all other address
  spaces are as before, and of the pages that were mapped only those in \<open>W\<close> have new contents.
\<close>

definition moves :: "nat set \<Rightarrow> nat \<Rightarrow> (nat \<times> nat \<Rightarrow> u32 option) \<Rightarrow> kern \<Rightarrow> kern \<Rightarrow> bool" where
  "moves W c m s s' \<longleftrightarrow> envs s' = envs s \<and> curenv s' = curenv s \<and> npage s' = npage s \<and>
     (\<forall>d \<in> dirs s. as_map s' d = (if d = pgdir_of s c then m else as_map s d)) \<and>
     (\<forall>d \<in> dirs s. \<forall>k \<ge> 509. pm s' d k = pm s d k) \<and>
     (\<forall>p. maps s (dirs s) p \<noteq> {} \<longrightarrow> p \<notin> W \<longrightarrow> pm s' p = pm s p)"

lemma same_envs: "envs s' = envs s \<Longrightarrow> dirs s' = dirs s \<and> live s' = live s \<and> pgdir_of s' = pgdir_of s"
  by (simp add: dirs_def live_def pgdir_of_def fun_eq_iff)

lemma movesD:
  assumes "moves W c m s s'"
  shows "dirs s' = dirs s" "live s' = live s" "pgdir_of s' = pgdir_of s" "envs s' = envs s" "curenv s' = curenv s"
    "npage s' = npage s"
    "pgdir_of s c \<in> dirs s \<Longrightarrow> own_map s' c = m" "d \<in> dirs s \<Longrightarrow> d \<noteq> pgdir_of s c \<Longrightarrow> as_map s' d = as_map s d"
    "maps s (dirs s) p \<noteq> {} \<Longrightarrow> p \<notin> W \<Longrightarrow> pm s' p = pm s p"
    "d \<in> dirs s \<Longrightarrow> 509 \<le> k \<Longrightarrow> pm s' d k = pm s d k"
  using assms same_envs [of s' s] by (auto simp: moves_def)

lemma prog_moves:
  assumes "prog s q c" "moves W c m s s'" "ok s' q"
  shows "prog s' q c"
proof -
  note M = movesD [OF assms(2)]
  have "PDX UVPT \<ge> 509" by (simp add: mos_consts PDX_eq)
  with assms M(10) [of "pgdir_of s c" "PDX UVPT"] progD(6) [OF assms(1)] show ?thesis
    by (simp add: prog_def M self_mapped_def)
qed

text \<open>Steps compose when what was mapped stays mapped, or its contents do not matter any more.\<close>

lemma maps_own:
  assumes "moves W c m s s'" "pgdir_of s c \<in> dirs s"
  shows "maps s' (dirs s') p = {(d, i, j). d \<in> dirs s \<and>
    (\<exists>e. (if d = pgdir_of s c then m else as_map s d) (i, j) = Some e \<and> PPN e = p)}"
proof -
  have "as_map s' d = (if d = pgdir_of s c then m else as_map s d)" if "d \<in> dirs s" for d
    using assms(1) that by (simp add: moves_def)
  then show ?thesis unfolding maps_def movesD(1) [OF assms(1)] by (simp cong: conj_cong)
qed

definition stay_mapped :: "kern \<Rightarrow> kern \<Rightarrow> nat \<Rightarrow> bool" where
  "stay_mapped s s' p \<longleftrightarrow> (maps s (dirs s) p \<noteq> {} \<longrightarrow> maps s' (dirs s') p \<noteq> {})"

lemma moves_trans:
  assumes m1: "moves W1 c m1 s s1" and m2: "moves W2 c m2 s1 s2" and c: "pgdir_of s c \<in> dirs s"
    and st: "\<And>p. p \<notin> W1 \<Longrightarrow> p \<notin> W2 \<Longrightarrow> stay_mapped s s1 p"
  shows "moves (W1 \<union> W2) c m2 s s2"
proof -
  note M1 = movesD [OF m1] and M2 = movesD [OF m2]
  have "pm s2 p = pm s p" if p: "maps s (dirs s) p \<noteq> {}" "p \<notin> W1 \<union> W2" for p
    using M2(9) [of p] M1(9) [of p] st [of p] p by (auto simp: stay_mapped_def)
  moreover have "as_map s2 d = (if d = pgdir_of s c then m2 else as_map s d)" if "d \<in> dirs s" for d
    using M2(7) M2(8) [of d] M1(8) [of d] that M1(1,3) M2(3) c by auto
  moreover have "pm s2 d k = pm s d k" if "d \<in> dirs s" "k \<ge> 509" for d k
    using M2(10) [of d k] M1(10) [of d k] that M1(1) by simp
  ultimately show ?thesis using M1(4-6) M2(4-6) by (simp add: moves_def)
qed

lemma moves_refl: "prog s q c \<Longrightarrow> moves {} c (own_map s c) s s"
  by (simp add: moves_def)

lemma moves_weaken: "moves W c m s s' \<Longrightarrow> W \<subseteq> W' \<Longrightarrow> moves W' c m s s'"
  by (auto simp: moves_def)

lemma stay_if_more:
  assumes "moves W c m s s'" "pgdir_of s c \<in> dirs s" "\<And>x e. own_map s c x = Some e \<Longrightarrow> PPN e = p \<Longrightarrow> \<exists>e'. m x = Some e' \<and> PPN e' = p"
  shows "stay_mapped s s' p"
  unfolding stay_mapped_def
proof
  assume "maps s (dirs s) p \<noteq> {}"
  then obtain d i j e where e: "d \<in> dirs s" "as_map s d (i, j) = Some e" "PPN e = p" by (auto simp: maps_def)
  then have "(d, i, j) \<in> maps s' (dirs s') p"
    unfolding maps_own [OF assms(1,2)] using assms(3) [of "(i, j)" e] by auto
  then show "maps s' (dirs s') p \<noteq> {}" by blast
qed

text \<open>The reference count of a mapped page is the number of its mappings.\<close>

lemma data_refs:
  assumes "kinv s q" "maps s (dirs s) p \<noteq> {}"
  shows "p < npage s \<and> p < 2 ^ 20 \<and> unat (pp_ref s p) = card (maps s (dirs s) p)"
proof -
  from assms(1) obtain X xs where vm: "vm_inv s (dirs s) X xs" by (auto simp: kinv_def kinv0_def mem_ok_def)
  from assms(2) obtain d i j e where e: "d \<in> dirs s" "as_map s d (i, j) = Some e" "PPN e = p" by (auto simp: maps_def)
  have "p < npage s" using vm_invD(5) [OF vm e(1,2)] e(3) by simp
  moreover have "X p = 0" "p \<notin> tabs s (dirs s)" by (rule vm_invD(13,14) [OF vm assms(2)])+
  ultimately show ?thesis using vm_invD(9) [OF vm, of p] vm_invD(1) [OF vm] by simp
qed

section \<open>Memory calls\<close>

lemma zeroed_page:
  assumes inv: "vm_inv s D X xs" and d: "d \<in> D" "va < UTOP" and n: "as_map s d (vaddr va) = None"
    and mem: "has_tab s d (PDX va) \<or> xs \<noteq> []" and pp: "pp \<notin> set xs" "pp \<notin> D" "pp \<notin> tabs s D"
    and r: "page_insert d asid pp va perm s = Some (r, s')"
  shows "pm s' pp = pm s pp"
proof (cases "has_tab s d (PDX va)")
  case True
  from tabs_memI [OF d(1) vaddr_user [OF d(2)] this] have "tab s d (PDX va) \<in> tabs s D" .
  then show ?thesis using page_insert_with_table [OF inv d n True] r pp(3) by auto
next
  case False
  with mem obtain p ps where xs: "xs = p # ps" by (cases xs) auto
  obtain fl where "s' = pte_store (p, PTX va) (mkpte pp perm) (pte_store (d, PDX va) (page2pa p OR PTE_V OR PTE_C_CACHEABLE)
        ((tlb_invalidate asid va s)\<lparr>page_free_list := fl, pm := (pm s)(p := (\<lambda>_. 0)),
           pp_ref := ((pp_ref s)(p := 1))(pp := ((pp_ref s)(p := 1)) pp + 1)\<rparr>))"
    using page_insert_new_table [OF inv [unfolded xs] d False, of asid pp perm] r by auto
  moreover have "pp \<noteq> p" "pp \<noteq> d" using pp(1,2) d(1) by (auto simp: xs)
  ultimately show ?thesis by simp
qed

lemma free_pages_list: "lrep (page_free_list s) xs \<Longrightarrow> free_pages s n \<longleftrightarrow> n \<le> length xs"
  using lrep_unique by (auto simp: free_pages_def)

lemma free_pages_mono: "free_pages s n \<Longrightarrow> m \<le> n \<Longrightarrow> free_pages s m"
  by (auto simp: free_pages_def intro: order_trans)

lemma prog_alloc:
  assumes P: "prog s q c" and va: "\<not> is_illegal_va va" and perm: "perm < 4096" and n: "own_map s c (vaddr va) = None"
  shows "\<exists>r s'. syscall_mem_alloc 0 va perm s = Some (r, s') \<and> prog s' q c \<and>
    (r = 0 \<and> (\<forall>n. free_pages s (n + 2) \<longrightarrow> free_pages s' n) \<and> (\<exists>p < 2 ^ 20. maps s (dirs s) p = {} \<and>
        pm s' p = (\<lambda>_. 0) \<and> moves {} c ((own_map s c)(vaddr va \<mapsto> mkpte p perm)) s s') \<or>
     r = err_word E_NO_MEM \<and> \<not> free_pages s 2 \<and> moves {} c (own_map s c) s s')"
proof -
  note D = progD [OF P] and u = legal_va [OF va]
  from D(2) obtain X xs where vm: "vm_inv s (dirs s) X xs" by (auto simp: kinv_def kinv0_def mem_ok_def)
  note fp = free_pages_list [OF vm_invD(6) [OF vm]]
  show ?thesis
  proof (cases xs)
    case Nil
    then have "page_alloc s = Some (Inl E_NO_MEM, s)" using page_alloc_empty vm by simp
    then have "sys_mem_alloc 0 va perm s = Some (Returns (Inl E_NO_MEM), s)"
      using va D(3) by (simp add: sys_mem_alloc_def envid2env_def)
    then show ?thesis using P moves_refl [OF P] Nil by (simp add: syscall_mem_alloc_def fp)
  next
    case (Cons p ys)
    with vm obtain fl where "page_alloc s = Some (Inr p, s\<lparr>page_free_list := fl, pm := (pm s)(p := (\<lambda>_. 0))\<rparr>)"
      by (auto elim: page_alloc_ok)
    then obtain s1 where pa: "page_alloc s = Some (Inr p, s1)" and pm1: "pm s1 = (pm s)(p := (\<lambda>_. 0))" "npage s1 = npage s" by simp
    note cp = clear_page_inv [OF vm [unfolded Cons] pa]
    note fu = free_unused [OF vm, of p, unfolded Cons, simplified]
    note k1 = kern_more [OF cp(6)]
    have n1: "own_map s1 c = own_map s c" using cp(11) [OF D(6)] by (simp add: pgdir_of_def k1)
    have data: "pm s1 x = pm s x" if "maps s (dirs s) x \<noteq> {}" for x using that fu(3) pm1 by auto
    have dir: "pm s1 d = pm s d" if "d \<in> dirs s" for d using that fu(1) pm1 by auto
    have run: "sys_mem_alloc 0 va perm s = (case page_insert (pgdir_of s c) (env_asid (envs s c)) p va perm s1 of
        Some (Inr _, s') \<Rightarrow> Some (Returns (Inr 0), s') | Some (Inl e, s') \<Rightarrow> Some (Returns (Inl e), s') | None \<Rightarrow> None)"
      using va pa D(3) by (simp add: sys_mem_alloc_def envid2env_def pgdir_of_def k1 split: option.split sum.split)
    show ?thesis
    proof (cases "has_tab s1 (pgdir_of s c) (PDX va) \<or> ys \<noteq> []")
      case True
      have mp: "mappable s1 (dirs s) X ys p" using cp(4,8,9,10) fu(4) by (simp add: mappable_def)
      from page_insert_ok [OF cp(1) D(6) u True mp perm, of "env_asid (envs s c)"] obtain s' zs where
        s': "page_insert (pgdir_of s c) (env_asid (envs s c)) p va perm s1 = Some (Inr (), s')" "vm_inv s' (dirs s) X zs"
          "\<forall>d' \<in> dirs s. as_map s' d' = (if d' = pgdir_of s c
            then (as_map s1 (pgdir_of s c))(vaddr va \<mapsto> mkpte p perm) else as_map s1 d')"
          "npage s' = npage s1" "pmap.more s' = pmap.more s1" by blast
      have m: "pmap.more s' = pmap.more s" using s'(5) cp(6) by simp
      have n2: "as_map s1 (pgdir_of s c) (vaddr va) = None" using n cp(11) [OF D(6)] by simp
      have pr: "unat (pp_ref s1 p) < 65535" using cp(4) by simp
      note iaf = insert_absent_frame [OF cp(1) D(6) u n2 True pr cp(9) s'(1)]
      have fr: "pm_frame 1 s1 s' (dirs s)" by (rule iaf(1))
      have left: "free_pages s' n" if "free_pages s (n + 2)" for n
        using that free_pages_list [OF iaf(2)] by (auto simp: fp Cons split: if_splits)
      have mm: "maps s1 (dirs s) x = maps s (dirs s) x" for x by (rule maps_eqI) (use cp(11) in auto)
      have z: "pm s' p = (\<lambda>_. 0)"
        using zeroed_page [OF cp(1) D(6) u n2 True cp(9) _ _ s'(1)] mp fu(1) pm1 by (simp add: mappable_def)
      have mv: "moves {} c ((own_map s c)(vaddr va \<mapsto> mkpte p perm)) s s'"
        using s'(3,4) cp(10,11) D(6) fr data dir pm1(2) kern_more(1,2) [OF m] by (simp add: moves_def pm_frame_def mm)
      have "p < 2 ^ 20" using cp(5,10) vm_invD(1) [OF vm] by simp
      moreover have "prog s' q c"
        by (rule prog_moves [OF P mv ok_more [OF D(1) kinv_vm(1) [OF D(2) m s'(2)] m]])
      ultimately show ?thesis using run s'(1) fu(3) z mv left by (auto simp: syscall_mem_alloc_def)
    next
      case False
      let ?s' = "tlb_invalidate (env_asid (envs s c)) va s1"
      have "page_insert (pgdir_of s c) (env_asid (envs s c)) p va perm s1 = Some (Inl E_NO_MEM, ?s')"
        using page_insert_no_mem [of s1 "dirs s" X "pgdir_of s c" va] cp(1) D(6) u False by simp
      moreover have "moves {} c (own_map s c) s ?s'"
        using cp(11) pm1(2) data dir k1(1,2) by (simp add: moves_def)
      moreover have "kinv ?s' q"
        by (rule kinv_vm(1) [OF D(2), of _ X ys]) (use cp(1,6) in simp_all)
      moreover have "pmap.more ?s' = pmap.more s" "\<not> free_pages s 2" using cp(6) False by (simp_all add: fp Cons)
      ultimately show ?thesis
        using run prog_moves [OF P _ ok_more [OF D(1)]] by (auto simp: syscall_mem_alloc_def)
    qed
  qed
qed

lemma prog_map:
  assumes P: "prog s q c" and va: "\<not> is_illegal_va sva" "\<not> is_illegal_va dva" and perm: "perm < 4096"
    and src: "own_map s c (vaddr sva) = Some e" and n: "own_map s c (vaddr dva) = None"
    and room: "unat (pp_ref s (PPN e)) < 65535"
  shows "\<exists>r s'. syscall_mem_map 0 sva 0 dva perm s = Some (r, s') \<and> prog s' q c \<and>
    (r = 0 \<and> (\<forall>n. free_pages s (n + 1) \<longrightarrow> free_pages s' n) \<and>
       moves {} c ((own_map s c)(vaddr dva \<mapsto> mkpte (PPN e) perm)) s s' \<or>
     r = err_word E_NO_MEM \<and> \<not> free_pages s 1 \<and> moves {} c (own_map s c) s s')"
proof -
  note D = progD [OF P] and u = legal_va [OF va(1)] legal_va [OF va(2)]
  from D(2) obtain X xs where vm: "vm_inv s (dirs s) X xs" by (auto simp: kinv_def kinv0_def mem_ok_def)
  note fp = free_pages_list [OF vm_invD(6) [OF vm]]
  note pl = page_lookup_eq [OF vm D(6) u(1), unfolded src, simplified]
  have run: "sys_mem_map 0 sva 0 dva perm s =
      (case page_insert (pgdir_of s c) (env_asid (envs s c)) (PPN e) dva perm s of
        Some (Inr _, s') \<Rightarrow> Some (Returns (Inr 0), s') | Some (Inl e, s') \<Rightarrow> Some (Returns (Inl e), s') | None \<Rightarrow> None)"
    using va pl D(3) by (simp add: sys_mem_map_def envid2env_def D(7) split: option.split sum.split)
  show ?thesis
  proof (cases "has_tab s (pgdir_of s c) (PDX dva) \<or> xs \<noteq> []")
    case True
    note mp = mapped_mappable [OF vm D(6) src room]
    from page_insert_ok [OF vm D(6) u(2) True mp perm, of "env_asid (envs s c)"] obtain s' zs where
      s': "page_insert (pgdir_of s c) (env_asid (envs s c)) (PPN e) dva perm s = Some (Inr (), s')"
        "vm_inv s' (dirs s) X zs" "\<forall>d' \<in> dirs s. as_map s' d' = (if d' = pgdir_of s c
            then (as_map s (pgdir_of s c))(vaddr dva \<mapsto> mkpte (PPN e) perm) else as_map s d')"
        "npage s' = npage s" "pmap.more s' = pmap.more s" by blast
    have "PPN e \<notin> set xs" using mp by (simp add: mappable_def)
    note iaf = insert_absent_frame [OF vm D(6) u(2) n True room this s'(1)]
    have fr: "pm_frame 1 s s' (dirs s)" by (rule iaf(1))
    have left: "free_pages s' n" if "free_pages s (n + 1)" for n
      using that free_pages_list [OF iaf(2)] by (auto simp: fp split: if_splits)
    have mv: "moves {} c ((own_map s c)(vaddr dva \<mapsto> mkpte (PPN e) perm)) s s'"
      using s'(3,4) fr kern_more(1,2) [OF s'(5)] by (simp add: moves_def pm_frame_def)
    then show ?thesis
      using run s'(1) left prog_moves [OF P mv ok_more [OF D(1) kinv_vm(1) [OF D(2) s'(5,2)] s'(5)]]
      by (auto simp: syscall_mem_map_def)
  next
    case False
    let ?s' = "tlb_invalidate (env_asid (envs s c)) dva s"
    have "page_insert (pgdir_of s c) (env_asid (envs s c)) (PPN e) dva perm s = Some (Inl E_NO_MEM, ?s')"
      using page_insert_no_mem [of s "dirs s" X "pgdir_of s c" dva] vm D(6) u False by simp
    moreover have "moves {} c (own_map s c) s ?s'" by (simp add: moves_def)
    moreover have "kinv ?s' q" by (rule kinv_vm(1) [OF D(2), of _ X xs]) (use vm in simp_all)
    moreover have "\<not> free_pages s 1" using False by (simp add: fp)
    ultimately show ?thesis using run prog_moves [OF P _ ok_more [OF D(1)]] by (auto simp: syscall_mem_map_def)
  qed
qed

lemma prog_unmap:
  assumes P: "prog s q c" and va: "\<not> is_illegal_va va"
  shows "\<exists>s'. syscall_mem_unmap 0 va s = Some (0, s') \<and> prog s' q c \<and> moves {} c ((own_map s c)(vaddr va := None)) s s'"
proof -
  note D = progD [OF P] and u = legal_va [OF va]
  from D(2) obtain X xs where vm: "vm_inv s (dirs s) X xs" by (auto simp: kinv_def kinv0_def mem_ok_def)
  from unmap_step [OF D(2,5) u] obtain s' where
    s': "page_remove (env_pgdir (envs s c)) (env_asid (envs s c)) va s = Some s'" "kinv s' q" "pmap.more s' = pmap.more s"
      "maps_to s s' c va None" by blast
  note fr = remove_pm [OF vm D(6) u s'(1) [unfolded D(7)]]
  have "npage s' = npage s"
  proof (cases "own_map s c (vaddr va)")
    case None
    then show ?thesis using page_remove_absent [OF vm D(6) u None, of "env_asid (envs s c)"] s'(1) D(7) by simp
  next
    case (Some e)
    then show ?thesis
      using s'(1) by (auto simp: D(7) page_remove_def page_lookup_eq [OF vm D(6) u] page_decref_def page_free_def Let_def
        split: bind_splits if_splits)
  qed
  moreover have "d \<notin> tabs s (dirs s)" if "d \<in> dirs s" for d
    using that vm_invD(11) [OF vm] by (auto simp: tabs_def)
  ultimately have mv: "moves {} c ((own_map s c)(vaddr va := None)) s s'"
    using s'(4) fr data_page(2) [OF vm] kern_more(1,2) [OF s'(3)] by (simp add: moves_def maps_to_def D(7))
  then show ?thesis
    using s'(1) va D(3) prog_moves [OF P mv ok_more [OF D(1) s'(2,3)]]
    by (simp add: syscall_mem_unmap_def sys_mem_unmap_def envid2env_def)
qed

section \<open>Loads, stores and messages\<close>

lemma prog_load:
  assumes P: "prog s q c" and va: "va < UTOP" "unat va mod 4 = 0" and e: "own_map s c (vaddr va) = Some e"
  shows "uload32 va s = Some (pm s (PPN e) (unat va mod 4096 div 4), s)"
  using mapped_access(2) [OF progD(2,3) [OF P] va(1) e va(2)] UTOP_ULIM [OF va(1)] by (simp add: uload32_def)

lemma data_moves:
  assumes P: "prog s q c" and e: "own_map s c x = Some e" and s': "s' = s\<lparr>pm := (pm s)(PPN e := f)\<rparr>"
  shows "prog s' q c" "moves {PPN e} c (own_map s c) s s'"
proof -
  note D = progD [OF P]
  note w = data_write_as [OF D(2,6) e s']
  obtain i j where x: "x = (i, j)" by (cases x)
  have "maps s (dirs s) (PPN e) \<noteq> {}" using e D(6) by (auto simp: maps_def x)
  moreover from D(2) obtain X xs where vm: "vm_inv s (dirs s) X xs" by (auto simp: kinv_def kinv0_def mem_ok_def)
  ultimately have "PPN e \<notin> dirs s" using data_page(1) by blast
  then show mv: "moves {PPN e} c (own_map s c) s s'"
    using w(3) by (auto simp: moves_def same_as_def s')
  show "prog s' q c" by (rule prog_moves [OF P mv ok_more [OF D(1) w(1,2)]])
qed

lemma prog_store:
  assumes P: "prog s q c" and va: "va < UTOP" "unat va mod 4 = 0"
    and e: "own_map s c (vaddr va) = Some e" "e AND PTE_D \<noteq> 0"
  shows "\<exists>s'. ustore32 va w s = Some s' \<and> prog s' q c \<and> moves {PPN e} c (own_map s c) s s' \<and>
    pm s' (PPN e) = (pm s (PPN e))(unat va mod 4096 div 4 := w)"
proof -
  let ?s' = "pte_store (PPN e, unat va mod 4096 div 4) w s"
  have "ustore32 va w s = Some ?s'"
    using refill_mapped [OF progD(2,3) [OF P] va(1) e(1)] UTOP_ULIM [OF va(1)] va(2) e(2)
    by (simp add: ustore32_def kstore32_def not_le)
  moreover have "?s' = s\<lparr>pm := (pm s)(PPN e := (pm s (PPN e))(unat va mod 4096 div 4 := w))\<rparr>"
    by (simp add: pte_store_def)
  ultimately show ?thesis using data_moves [OF P e(1)] by simp
qed

lemma prog_vpt:
  assumes P: "prog s q c" and ij: "i < 509" "j < 1024" "has_tab s (pgdir_of s c) i"
  shows "vpt (i * 1024 + j) s = Some (upte s (pgdir_of s c) i j, s)"
  by (rule vpt_user [OF progD(2,3,4) [OF P] ij])

lemma prog_vpd:
  assumes P: "prog s q c" and i: "i < 1024"
  shows "vpd i s = Some (pm s (pgdir_of s c) i, s)"
  by (rule vpd_user [OF progD(2,3,4) [OF P] i])

lemma fold_printcharc:
  "\<exists>ks. fold printcharc bs s = s\<lparr>kout := kout s @ ks\<rparr>"
proof (induction bs arbitrary: s)
  case (Cons b bs)
  have "\<exists>ks. printcharc b s = s\<lparr>kout := kout s @ ks\<rparr>" by (auto simp: printcharc_def printk_def Let_def)
  then obtain k1 where k1: "printcharc b s = s\<lparr>kout := kout s @ k1\<rparr>" by blast
  from Cons [of "printcharc b s"] obtain k2 where
    "fold printcharc bs (printcharc b s) = (printcharc b s)\<lparr>kout := kout (printcharc b s) @ k2\<rparr>" by blast
  then show ?case by (intro exI [of _ "k1 @ k2"]) (simp add: k1)
qed (auto intro: exI [of _ "[]"])

lemma prog_debugf:
  assumes P: "prog s q c" and t: "fmt_text (\<lambda>_. 0) fmt args \<noteq> None"
  shows "\<exists>s'. debugf fmt args s = Some s' \<and> prog s' q c \<and> moves {} c (own_map s c) s s' \<and> pm s' = pm s"
proof -
  from t obtain bs where bs: "fmt_text (\<lambda>_. 0) fmt args = Some bs" by blast
  obtain ks where ks: "fold printcharc bs s = s\<lparr>kout := kout s @ ks\<rparr>" using fold_printcharc by blast
  let ?s' = "s\<lparr>kout := kout s @ ks\<rparr>"
  have am: "as_map ?s' d = as_map s d" for d by (rule as_map_cong) simp
  have mv: "moves {} c (own_map s c) s ?s'" by (auto simp: moves_def am)
  have "ok ?s' q" by (rule ok_same_envs [OF progD(1) [OF P]]) simp_all
  from prog_moves [OF P mv this] mv show ?thesis by (simp add: debugf_def bs ks)
qed

section \<open>Descriptors\<close>

lemma fd_addresses:
  assumes "i < 32"
  shows "vaddr (INDEX2FD (of_nat i)) = (383, i)" "vaddr (INDEX2DATA (of_nat i)) = (384 + i, 0)"
    "\<not> is_illegal_va (INDEX2FD (of_nat i))" "\<not> is_illegal_va (INDEX2DATA (of_nat i))"
    "unat (INDEX2FD (of_nat i)) = 4096 * (383 * 1024 + i)"
    "unat (INDEX2FD (of_nat i) div PTMAP) = 383 * 1024 + i" "unat (INDEX2FD (of_nat i) div PDMAP) = 383"
    "fd2num (INDEX2FD (of_nat i)) = of_nat i" "fd2data (INDEX2FD (of_nat i)) = INDEX2DATA (of_nat i)"
    "unat (INDEX2DATA (of_nat i)) = 4096 * ((384 + i) * 1024)"
proof -
  have i: "unat (of_nat i :: u32) = i" using assms by (intro unat_of_nat_u32) simp
  have f: "unat (of_nat i * PTMAP :: u32) = i * 4096"
    using assms by (simp add: mos_consts unat_word_ariths i)
  have d: "unat (of_nat i * PDMAP :: u32) = i * 2 ^ 22"
    using assms by (simp add: mos_consts unat_word_ariths i)
  have t: "unat FDTABLE = 383 * 2 ^ 22" "unat FILEBASE = 384 * 2 ^ 22" by (simp_all add: mos_consts)
  show u: "unat (INDEX2FD (of_nat i)) = 4096 * (383 * 1024 + i)"
    using assms by (simp add: INDEX2FD_def unat_plus_if' f t)
  show w: "unat (INDEX2DATA (of_nat i)) = 4096 * ((384 + i) * 1024)"
    using assms by (simp add: INDEX2DATA_def unat_plus_if' d t)
  have dd: "k div 2 ^ 22 = k div 4096 div 1024" for k :: nat by (simp add: div_mult2_eq [symmetric])
  have m: "4096 * k div 4096 = (k :: nat)" for k by simp
  have q: "(383 * 1024 + i) div 1024 = 383" "(383 * 1024 + i) mod 1024 = i"
    using assms mod_mult_self4 [of 1024 383 i] by (simp_all add: mult.commute)
  show "vaddr (INDEX2FD (of_nat i)) = (383, i)"
    unfolding vaddr_def PDX_eq PTX_eq u dd m using q by simp
  have "(384 + i) * 1024 div 1024 = 384 + i" "(384 + i) * 1024 mod 1024 = 0" by simp_all
  then show "vaddr (INDEX2DATA (of_nat i)) = (384 + i, 0)"
    unfolding vaddr_def PDX_eq PTX_eq w dd m by simp
  have b: "unat UTEMP = 1022 * 4096" "unat UTOP = 521216 * 4096" by (simp_all add: mos_consts)
  show "\<not> is_illegal_va (INDEX2FD (of_nat i))" "\<not> is_illegal_va (INDEX2DATA (of_nat i))"
    using assms by (simp_all add: is_illegal_va_def word_less_nat_alt word_le_nat_alt u w b)
  have p: "unat PTMAP = 4096" "unat PDMAP = 2 ^ 22" by (simp_all add: mos_consts)
  show "unat (INDEX2FD (of_nat i) div PTMAP) = 383 * 1024 + i" unfolding unat_div u p m by simp
  show "unat (INDEX2FD (of_nat i) div PDMAP) = 383" unfolding unat_div u p dd m by (rule q(1))
  have "INDEX2FD (of_nat i) - FDTABLE = of_nat i * PTMAP" by (simp add: INDEX2FD_def)
  then have "unat (fd2num (INDEX2FD (of_nat i))) = i" by (simp add: fd2num_def unat_div f p)
  then show n: "fd2num (INDEX2FD (of_nat i)) = of_nat i" using i by (simp add: word_unat_eq_iff)
  show "fd2data (INDEX2FD (of_nat i)) = INDEX2DATA (of_nat i)" by (simp add: fd2data_def n)
qed

text \<open>The descriptors that are in use; \<^verbatim>\<open>fd_alloc\<close> finds the first of the others below 31.\<close>

definition fd_used :: "kern \<Rightarrow> nat \<Rightarrow> nat \<Rightarrow> bool" where
  "fd_used s c i \<longleftrightarrow> own_map s c (383, i) \<noteq> None"

lemma fd_scan_find:
  assumes P: "prog s q c" and l: "\<forall>i \<in> set fds. i < 32"
  shows "fd_scan fds s = Some (case find (\<lambda>i. \<not> fd_used s c i) fds of
     None \<Rightarrow> Inl (err_word E_MAX_OPEN) | Some i \<Rightarrow> Inr (INDEX2FD (of_nat i)), s)"
  using l
proof (induction fds)
  case (Cons i fds)
  then have i: "i < 32" by simp
  note a = fd_addresses(6,7) [OF i]
  have d: "vpd 383 s = Some (pm s (pgdir_of s c) 383, s)" by (rule prog_vpd [OF P]) simp
  show ?case
  proof (cases "has_tab s (pgdir_of s c) 383")
    case False
    then show ?thesis using a d by (simp add: has_tab_def pte_valid_def fd_used_def as_map_def)
  next
    case True
    have t: "vpt (383 * 1024 + i) s = Some (upte s (pgdir_of s c) 383 i, s)"
      by (rule prog_vpt [OF P _ _ True]) (use i in simp_all)
    have "fd_used s c i \<longleftrightarrow> upte s (pgdir_of s c) 383 i AND PTE_V \<noteq> 0"
      using True i by (simp add: fd_used_def as_map_def pte_valid_def)
    then show ?thesis using Cons a d t True by (simp add: has_tab_def pte_valid_def)
  qed
qed simp

lemma fd_lookup_found:
  assumes P: "prog s q c" and i: "i < 32" and t: "has_tab s (pgdir_of s c) 383"
  shows "fd_lookup (of_nat i) s =
    Some (if fd_used s c i then Inr (INDEX2FD (of_nat i)) else Inl (err_word E_INVAL), s)"
proof -
  have v: "vpt (383 * 1024 + i) s = Some (upte s (pgdir_of s c) 383 i, s)"
    by (rule prog_vpt [OF P _ _ t]) (use i in simp_all)
  have "fd_used s c i \<longleftrightarrow> upte s (pgdir_of s c) 383 i AND PTE_V \<noteq> 0"
    using t i by (simp add: fd_used_def as_map_def pte_valid_def)
  moreover have "sint (of_nat i :: u32) = int i"
    using i by (simp add: signed_of_nat signed_take_bit_int_eq_self)
  ultimately show ?thesis using v fd_addresses(6) [OF i] i by (simp add: fd_lookup_def MAXFD_def Let_def)
qed

end
