(* ===== verification/Fd_Pipe.thy ===== *)
theory Fd_Pipe
  imports Fd_Inv
begin

unbundle bit_operations_syntax

text \<open>
  How \<^verbatim>\<open>pipe\<close> builds its two descriptors, call by call, and how it takes everything back when one
  of the calls fails.
\<close>

section \<open>Composition\<close>

lemma map_leD: "m \<subseteq>\<^sub>m m' \<Longrightarrow> m x = Some e \<Longrightarrow> m' x = Some e"
  by (force simp: map_le_def dom_def)

lemma map_le_add: "m \<subseteq>\<^sub>m m' \<Longrightarrow> m' x = None \<Longrightarrow> m \<subseteq>\<^sub>m m'(x \<mapsto> e)"
  unfolding map_le_def by (metis domIff fun_upd_apply)

lemma moves_grow:
  assumes m1: "moves W1 c m1 s s1" and m2: "moves W2 c m2 s1 s2" and c: "pgdir_of s c \<in> dirs s"
    and le: "own_map s c \<subseteq>\<^sub>m m1"
  shows "moves (W1 \<union> W2) c m2 s s2"
proof (rule moves_trans [OF m1 m2 c])
  fix p
  show "stay_mapped s s1 p"
    by (rule stay_if_more [OF m1 c]) (use map_leD [OF le] in auto)
qed

lemma moves_drop:
  assumes "moves W c m s s'" "\<And>p. p \<in> W \<Longrightarrow> maps s (dirs s) p = {}"
  shows "moves {} c m s s'"
  using assms unfolding moves_def by blast

abbreviation PTE_DL :: u32 where "PTE_DL \<equiv> PTE_D OR PTE_LIBRARY"

lemma PTE_DL_bits: "PTE_DL < 4096" "mkpte p PTE_DL AND PTE_D \<noteq> 0"
proof -
  show "PTE_DL < 4096" by (simp add: mos_consts)
  have "bit (mkpte p PTE_DL AND PTE_D) 8" by (simp add: bit_simps PTE_D_def)
  then show "mkpte p PTE_DL AND PTE_D \<noteq> 0" by auto
qed

lemma PPN_mkpte_DL: "p < 2 ^ 20 \<Longrightarrow> PPN (mkpte p PTE_DL) = p"
  by (rule mkpte_PPN [OF _ PTE_DL_bits(1)])

definition free_fd :: "kern \<Rightarrow> nat \<Rightarrow> nat option" where
  "free_fd s c = find (\<lambda>i. \<not> fd_used s c i) [0..<31]"

lemma free_fdD:
  "free_fd s c = Some i \<Longrightarrow> i < 31 \<and> \<not> fd_used s c i \<and> (\<forall>k < i. fd_used s c k)"
  "free_fd s c = None \<Longrightarrow> i < 31 \<Longrightarrow> fd_used s c i"
  by (auto simp: free_fd_def find_Some_iff find_None_iff)

lemma fd_alloc_free:
  assumes "prog s q c"
  shows "fd_alloc s = Some (case free_fd s c of
     None \<Rightarrow> Inl (err_word E_MAX_OPEN) | Some i \<Rightarrow> Inr (INDEX2FD (of_nat i)), s)"
  using fd_scan_find [OF assms, of "[0..<31]"] by (simp add: fd_alloc_def MAXFD_def free_fd_def)

lemma fd_page_ok:
  assumes P: "prog s q c"
  shows "\<exists>r s'. fd_page s = Some (r, s') \<and> prog s' q c \<and>
    (case r of
       Inl e \<Rightarrow> moves {} c (own_map s c) s s' \<and> (e = err_word E_MAX_OPEN \<and> free_fd s c = None \<or> e = err_word E_NO_MEM \<and> \<not> free_pages s 2)
     | Inr fd \<Rightarrow> (\<forall>n. free_pages s (n + 2) \<longrightarrow> free_pages s' n) \<and> (\<exists>i. free_fd s c = Some i \<and> fd = INDEX2FD (of_nat i) \<and>
         (\<exists>p < 2 ^ 20. maps s (dirs s) p = {} \<and> pm s' p = (\<lambda>_. 0) \<and>
            moves {} c ((own_map s c)((383, i) \<mapsto> mkpte p PTE_DL)) s s')))"
proof (cases "free_fd s c")
  case None
  then show ?thesis using fd_alloc_free [OF P] P moves_refl [OF P] by (simp add: fd_page_def)
next
  case (Some i)
  from free_fdD(1) [OF this] have i: "i < 31" "\<not> fd_used s c i" by simp_all
  from i(1) have i32: "i < 32" by simp
  note a = fd_addresses [OF i32]
  have n: "own_map s c (vaddr (INDEX2FD (of_nat i))) = None" using i(2) a(1) by (simp add: fd_used_def)
  from prog_alloc [OF P a(3) PTE_DL_bits(1) n] obtain r s' where
    r: "syscall_mem_alloc 0 (INDEX2FD (of_nat i)) PTE_DL s = Some (r, s')" "prog s' q c"
      "r = 0 \<and> (\<forall>n. free_pages s (n + 2) \<longrightarrow> free_pages s' n) \<and>
         (\<exists>p < 2 ^ 20. maps s (dirs s) p = {} \<and> pm s' p = (\<lambda>_. 0) \<and>
         moves {} c ((own_map s c)(vaddr (INDEX2FD (of_nat i)) \<mapsto> mkpte p PTE_DL)) s s') \<or>
       r = err_word E_NO_MEM \<and> \<not> free_pages s 2 \<and> moves {} c (own_map s c) s s'" by blast
  from r show ?thesis
    using fd_alloc_free [OF P] Some a(1) by (auto simp: fd_page_def)
qed

lemma unmap_added:
  assumes P: "prog s q c" and mv: "moves W c (m(vaddr va \<mapsto> e)) s0 s" and c: "pgdir_of s0 c \<in> dirs s0"
    and va: "\<not> is_illegal_va va" and m: "own_map s0 c \<subseteq>\<^sub>m m" "m (vaddr va) = None"
  shows "\<exists>s'. syscall_mem_unmap 0 va s = Some (0, s') \<and> prog s' q c \<and> moves W c m s0 s'"
proof -
  from prog_unmap [OF P va] obtain s' where s': "syscall_mem_unmap 0 va s = Some (0, s')" "prog s' q c"
    "moves {} c ((own_map s c)(vaddr va := None)) s s'" by blast
  have "own_map s c = m(vaddr va \<mapsto> e)" using movesD(7) [OF mv c] movesD(3) [OF mv] by simp
  with m(2) have mm: "(own_map s c)(vaddr va := None) = m" by (simp add: fun_eq_iff)
  have "own_map s0 c \<subseteq>\<^sub>m m(vaddr va \<mapsto> e)" by (rule map_le_add [OF m])
  from moves_grow [OF mv s'(3) [unfolded mm] c this] s' show ?thesis by simp
qed

lemma hex_text: "\<exists>bs. fmt_num w 16 False 8 False 0x30 False = Some bs"
  using digits_rev_32 [of 16 False w] by (simp add: fmt_num_def Let_def)

lemma pipecreate_text: "fmt_text (\<lambda>_. 0) pipecreate [w] \<noteq> None"
  using hex_text [of w]
  by (auto simp: pipecreate_def fmt_text.simps spec_head_def fmt_conv_def takes_arg_def)

section \<open>The two ends\<close>

text \<open>
  What a new pipe is: two descriptors \<open>i\<close> and \<open>j\<close> with a page each, and one page for the data that
  both data areas map; the pages were not in use before, and the pipe is empty.
\<close>

definition pipe_map_of :: "(nat \<times> nat \<Rightarrow> u32 option) \<Rightarrow> nat \<Rightarrow> nat \<Rightarrow> nat \<Rightarrow> nat \<Rightarrow> nat \<Rightarrow> nat \<times> nat \<Rightarrow> u32 option" where
  "pipe_map_of m i j p0 p1 p2 = m((383, i) \<mapsto> mkpte p0 PTE_DL, (383, j) \<mapsto> mkpte p1 PTE_DL,
     (384 + i, 0) \<mapsto> mkpte p2 PTE_DL, (384 + j, 0) \<mapsto> mkpte p2 PTE_DL)"

definition pipe_ends :: "kern \<Rightarrow> kern \<Rightarrow> nat \<Rightarrow> nat \<Rightarrow> nat \<Rightarrow> nat \<Rightarrow> nat \<Rightarrow> nat \<Rightarrow> bool" where
  "pipe_ends s s' c i j p0 p1 p2 \<longleftrightarrow> i < j \<and> j < 31 \<and> distinct [p0, p1, p2] \<and>
     (\<forall>p \<in> {p0, p1, p2}. p < 2 ^ 20 \<and> maps s (dirs s) p = {}) \<and>
     moves {} c (pipe_map_of (own_map s c) i j p0 p1 p2) s s' \<and>
     pm s' p0 = (\<lambda>_. 0)(0 := dev_id devpipe, 2 := O_RDONLY) \<and>
     pm s' p1 = (\<lambda>_. 0)(0 := dev_id devpipe, 2 := O_WRONLY) \<and> pm s' p2 = (\<lambda>_. 0)"

text \<open>The data areas of the descriptors that are not in use are empty.\<close>

definition data_free :: "kern \<Rightarrow> nat \<Rightarrow> bool" where
  "data_free s c \<longleftrightarrow> (\<forall>i < 31. \<not> fd_used s c i \<longrightarrow> own_map s c (384 + i, 0) = None)"

lemma fresh_differ:
  assumes "moves W c m s s'" "pgdir_of s c \<in> dirs s" "m x = Some e" "maps s' (dirs s') p = {}"
  shows "PPN e \<noteq> p"
proof
  assume "PPN e = p"
  obtain i j where x: "x = (i, j)" by (cases x)
  then have "(pgdir_of s c, i, j) \<in> maps s' (dirs s') p"
    unfolding maps_own [OF assms(1,2)] using assms(2,3) \<open>PPN e = p\<close> by simp
  with assms(4) show False by simp
qed

lemma pipe_err2_ok:
  assumes P: "prog s q c" and c: "pgdir_of s0 c \<in> dirs s0" and ij: "i < 31" "j < 31" "i \<noteq> j"
    and m: "own_map s0 c (383, i) = None" "own_map s0 c (383, j) = None"
    and mv: "moves {} c ((own_map s0 c)((383, i) \<mapsto> e0, (383, j) \<mapsto> e1)) s0 s"
  shows "\<exists>s'. pipe_err2 r (INDEX2FD (of_nat i)) (INDEX2FD (of_nat j)) s = Some (Inl r, s') \<and> prog s' q c \<and>
    moves {} c (own_map s0 c) s0 s'"
proof -
  have l: "i < 32" "j < 32" using ij by simp_all
  note ai = fd_addresses [OF l(1)] and aj = fd_addresses [OF l(2)]
  let ?m1 = "(own_map s0 c)((383, i) \<mapsto> e0)"
  have le: "own_map s0 c \<subseteq>\<^sub>m ?m1" using m(1) by (auto simp: map_le_def)
  from unmap_added [OF P, of "{}" "?m1" "INDEX2FD (of_nat j)" e1 s0] mv c le m(2) ij(3) obtain s1 where
    s1: "syscall_mem_unmap 0 (INDEX2FD (of_nat j)) s = Some (0, s1)" "prog s1 q c" "moves {} c ?m1 s0 s1"
    using aj(1,3) by auto
  from unmap_added [OF s1(2), of "{}" "own_map s0 c" "INDEX2FD (of_nat i)" e0 s0] s1(3) c m(1) obtain s2 where
    "syscall_mem_unmap 0 (INDEX2FD (of_nat i)) s1 = Some (0, s2)" "prog s2 q c" "moves {} c (own_map s0 c) s0 s2"
    using ai(1,3) by auto
  with s1(1) show ?thesis by (simp add: pipe_err2_def)
qed

text \<open>The first words of a descriptor.\<close>

lemma fd_words:
  assumes i: "i < 32" and k: "k < 1024"
  shows "vaddr (INDEX2FD (of_nat i) + 4 * of_nat k) = (383, i)" "INDEX2FD (of_nat i) + 4 * of_nat k < UTOP"
    "unat (INDEX2FD (of_nat i) + 4 * of_nat k) mod 4 = 0"
    "unat (INDEX2FD (of_nat i) + 4 * of_nat k) mod 4096 div 4 = k"
proof -
  let ?a = "INDEX2FD (of_nat i)"
  note a = fd_addresses [OF i]
  have z: "unat ?a mod 4096 = 0" "unat ?a mod 4 = 0" by (simp_all only: a(5)) simp_all
  have b: "unat ?a mod 4096 + 4 * k < 4096" using z k by simp
  note sp = same_page [OF b]
  have m: "?a + 4 * of_nat k = ?a + of_nat (4 * k)" by simp
  show "vaddr (?a + 4 * of_nat k) = (383, i)" unfolding m sp(3) by (rule a(1))
  have u: "?a < UTOP" using a(3) legal_va by blast
  show "?a + 4 * of_nat k < UTOP" unfolding m by (rule same_page_user [OF b u])
  show "unat (?a + 4 * of_nat k) mod 4 = 0" unfolding m sp(1) using z(2) by (simp add: mod_add_eq [symmetric])
  show "unat (?a + 4 * of_nat k) mod 4096 div 4 = k" unfolding m sp(4) using z(1) by simp
qed

lemma fd_store:
  assumes P: "prog s q c" and i: "i < 32" and k: "k < 1024"
    and e: "own_map s c (383, i) = Some (mkpte p PTE_DL)" and p: "p < 2 ^ 20"
  shows "\<exists>s'. ustore32 (INDEX2FD (of_nat i) + 4 * of_nat k) w s = Some s' \<and> prog s' q c \<and>
    moves {p} c (own_map s c) s s' \<and> pm s' p = (pm s p)(k := w)"
  using prog_store [OF P fd_words(2,3) [OF i k] _ PTE_DL_bits(2), of p w] e
  by (simp add: fd_words [OF i k] PPN_mkpte_DL [OF p])

lemma fd_load:
  assumes P: "prog s q c" and i: "i < 32" and k: "k < 1024"
    and e: "own_map s c (383, i) = Some (mkpte p PTE_DL)" and p: "p < 2 ^ 20"
  shows "uload32 (INDEX2FD (of_nat i) + 4 * of_nat k) s = Some (pm s p k, s)"
  using prog_load [OF P fd_words(2,3) [OF i k], of "mkpte p PTE_DL"] e
  by (simp add: fd_words [OF i k] PPN_mkpte_DL [OF p])

lemma set_fd:
  assumes P: "prog s q c" and i: "i < 32" and e: "own_map s c (383, i) = Some (mkpte p PTE_DL)" and p: "p < 2 ^ 20"
  shows "\<exists>s1 s'. ustore32 (fd_dev_id (INDEX2FD (of_nat i))) a s = Some s1 \<and>
    ustore32 (fd_omode (INDEX2FD (of_nat i))) b s1 = Some s' \<and> prog s' q c \<and>
    moves {p} c (own_map s c) s s' \<and> pm s' p = (pm s p)(0 := a, 2 := b)"
proof -
  note D = progD [OF P]
  from fd_store [OF P i _ e p, of 0 a] obtain s1 where
    s1: "ustore32 (INDEX2FD (of_nat i)) a s = Some s1" "prog s1 q c" "moves {p} c (own_map s c) s s1"
      "pm s1 p = (pm s p)(0 := a)" by auto
  have o1: "own_map s1 c = own_map s c" by (rule movesD(7) [OF s1(3) D(6)])
  from fd_store [OF s1(2) i _ _ p, of 2 b] o1 e obtain s2 where
    s2: "ustore32 (INDEX2FD (of_nat i) + 8) b s1 = Some s2" "prog s2 q c" "moves {p} c (own_map s c) s1 s2"
      "pm s2 p = (pm s1 p)(2 := b)" by auto
  from moves_grow [OF s1(3) s2(3) D(6)] s1 s2 show ?thesis
    by (simp add: fd_dev_id_def fd_omode_def)
qed

lemma own_mapped: "prog s q c \<Longrightarrow> own_map s c x = Some e \<Longrightarrow> maps s (dirs s) (PPN e) \<noteq> {}"
  using progD(6) [of s q c] by (cases x) (auto simp: maps_def)

lemma own_has_tab: "own_map s c (i, j) = Some e \<Longrightarrow> has_tab s (pgdir_of s c) i"
  by (simp add: as_map_def split: if_splits)

lemma one_mapping:
  assumes mv: "moves W c m s s'" and c: "pgdir_of s c \<in> dirs s" and n: "maps s (dirs s) p = {}"
    and m: "\<And>x e. m x = Some e \<Longrightarrow> PPN e = p \<longleftrightarrow> x \<in> X" "\<And>x. x \<in> X \<Longrightarrow> m x \<noteq> None"
  shows "maps s' (dirs s') p = Pair (pgdir_of s c) ` X"
proof -
  have "\<not> (as_map s d (i, j) = Some e \<and> PPN e = p)" if "d \<in> dirs s" for d i j e
    using n that by (auto simp: maps_def)
  then show ?thesis
    unfolding maps_own [OF mv c] using c m by (auto simp: image_iff split: if_splits) blast+
qed

lemma pipe_fill_ok:
  assumes P: "prog s q c" and ij: "i < 31" "j < 31" "i \<noteq> j" and p: "p0 < 2 ^ 20" "p1 < 2 ^ 20" "p2 < 2 ^ 20" "distinct [p0, p1, p2]"
    and o: "own_map s c = pipe_map_of m i j p0 p1 p2"
    and z: "pm s p0 = (\<lambda>_. 0)" "pm s p1 = (\<lambda>_. 0)" "pm s p2 = (\<lambda>_. 0)"
  shows "\<exists>s'. pipe_fill (INDEX2FD (of_nat i)) (INDEX2FD (of_nat j)) s = Some s' \<and> prog s' q c \<and>
    moves {p0, p1} c (own_map s c) s s' \<and> pm s' p0 = (\<lambda>_. 0)(0 := dev_id devpipe, 2 := O_RDONLY) \<and>
    pm s' p1 = (\<lambda>_. 0)(0 := dev_id devpipe, 2 := O_WRONLY) \<and> pm s' p2 = (\<lambda>_. 0)"
proof -
  have l: "i < 32" "j < 32" using ij by simp_all
  note ai = fd_addresses [OF l(1)] and D = progD(6) [OF P]
  note P2 = PPN_mkpte_DL [OF p(1)] PPN_mkpte_DL [OF p(2)] PPN_mkpte_DL [OF p(3)]
  have e: "own_map s c (383, i) = Some (mkpte p0 PTE_DL)" "own_map s c (383, j) = Some (mkpte p1 PTE_DL)"
    "own_map s c (384 + i, 0) = Some (mkpte p2 PTE_DL)" using ij by (simp_all add: o pipe_map_of_def)
  from set_fd [OF P l(1) e(1) p(1), of "dev_id devpipe" O_RDONLY] obtain s1 s2 where
    s2: "ustore32 (fd_dev_id (INDEX2FD (of_nat i))) (dev_id devpipe) s = Some s1"
      "ustore32 (fd_omode (INDEX2FD (of_nat i))) O_RDONLY s1 = Some s2" "prog s2 q c"
      "moves {p0} c (own_map s c) s s2" "pm s2 p0 = (pm s p0)(0 := dev_id devpipe, 2 := O_RDONLY)" by blast
  have o2: "own_map s2 c = own_map s c" by (rule movesD(7) [OF s2(4) D])
  from set_fd [OF s2(3) l(2) _ p(2), of "dev_id devpipe" O_WRONLY] o2 e(2) obtain s3 s4 where
    s4: "ustore32 (fd_dev_id (INDEX2FD (of_nat j))) (dev_id devpipe) s2 = Some s3"
      "ustore32 (fd_omode (INDEX2FD (of_nat j))) O_WRONLY s3 = Some s4" "prog s4 q c"
      "moves {p1} c (own_map s c) s2 s4" "pm s4 p1 = (pm s2 p1)(0 := dev_id devpipe, 2 := O_WRONLY)" by metis
  have m4: "moves {p0, p1} c (own_map s c) s s4" using moves_grow [OF s2(4) s4(4) D] by (simp add: insert_commute)
  have o4: "own_map s4 c = own_map s c" by (rule movesD(7) [OF m4 D])
  have mp: "maps s (dirs s) p1 \<noteq> {}" "maps s (dirs s) p2 \<noteq> {}" "maps s2 (dirs s2) p0 \<noteq> {}" "maps s2 (dirs s2) p2 \<noteq> {}"
    using own_mapped [OF P e(2)] own_mapped [OF P e(3)] own_mapped [OF s2(3), unfolded o2, OF e(1)]
      own_mapped [OF s2(3), unfolded o2, OF e(3)] by (simp_all add: P2)
  have d4: "pm s4 p0 = (\<lambda>_. 0)(0 := dev_id devpipe, 2 := O_RDONLY)"
    "pm s4 p1 = (\<lambda>_. 0)(0 := dev_id devpipe, 2 := O_WRONLY)" "pm s4 p2 = (\<lambda>_. 0)"
    using movesD(9) [OF s2(4)] movesD(9) [OF s4(4)] mp s2(5) s4(5) z p(4) by simp_all
  have ht: "has_tab s4 (pgdir_of s4 c) (384 + i)"
    by (rule own_has_tab [of _ _ _ 0]) (use e(3) in \<open>simp add: o4\<close>)
  have "VPN (INDEX2DATA (of_nat i)) = (384 + i) * 1024 + 0" by (simp only: VPN_eq ai(10)) simp
  with prog_vpt [OF s4(3) _ _ ht, of 0] ij(1) have
    rd: "vpt (VPN (INDEX2DATA (of_nat i))) s4 = Some (upte s4 (pgdir_of s4 c) (384 + i) 0, s4)" by simp
  from prog_debugf [OF s4(3) pipecreate_text, of "env_id (envs s4 c)"] obtain s' where
    s': "debugf pipecreate [env_id (envs s4 c)] s4 = Some s'" "prog s' q c" "moves {} c (own_map s c) s4 s'" "pm s' = pm s4"
    unfolding o4 by blast
  have "moves {p0, p1} c (own_map s c) s s'" using moves_grow [OF m4 s'(3) D] by simp
  then show ?thesis
    using s2(1,2) s4(1,2) rd s'(1,2,4) d4 progD(3) [OF s4(3)] ai(9) by (auto simp: pipe_fill_def)
qed

lemma pipe_map_ok:
  assumes P0: "prog s0 q c" and P: "prog s q c" and ij: "i < 31" "j < 31" "i \<noteq> j"
    and p: "p0 < 2 ^ 20" "p1 < 2 ^ 20" "p0 \<noteq> p1" "maps s0 (dirs s0) p0 = {}" "maps s0 (dirs s0) p1 = {}"
    and z: "pm s p0 = (\<lambda>_. 0)" "pm s p1 = (\<lambda>_. 0)"
    and m: "\<not> fd_used s0 c i" "\<not> fd_used s0 c j" and free: "data_free s0 c"
    and mv: "moves {} c ((own_map s0 c)((383, i) \<mapsto> mkpte p0 PTE_DL, (383, j) \<mapsto> mkpte p1 PTE_DL)) s0 s"
  shows "\<exists>r s'. pipe_map (INDEX2FD (of_nat i)) (INDEX2FD (of_nat j)) s = Some (r, s') \<and> prog s' q c \<and>
    (case r of
       Inl e \<Rightarrow> e = err_word E_NO_MEM \<and> \<not> free_pages s 3 \<and> moves {} c (own_map s0 c) s0 s'
     | Inr ab \<Rightarrow> ab = (of_nat i, of_nat j) \<and> (\<exists>p2 < 2 ^ 20. p2 \<noteq> p0 \<and> p2 \<noteq> p1 \<and> maps s0 (dirs s0) p2 = {} \<and>
         moves {} c (pipe_map_of (own_map s0 c) i j p0 p1 p2) s0 s' \<and>
         pm s' p0 = (\<lambda>_. 0)(0 := dev_id devpipe, 2 := O_RDONLY) \<and>
         pm s' p1 = (\<lambda>_. 0)(0 := dev_id devpipe, 2 := O_WRONLY) \<and> pm s' p2 = (\<lambda>_. 0)))"
proof -
  have l: "i < 32" "j < 32" using ij by simp_all
  note ai = fd_addresses [OF l(1)] and aj = fd_addresses [OF l(2)]
  note D0 = progD [OF P0] and M = movesD [OF mv]
  let ?m0 = "own_map s0 c" and ?e0 = "mkpte p0 PTE_DL" and ?e1 = "mkpte p1 PTE_DL"
  let ?m2 = "?m0((383, i) \<mapsto> ?e0, (383, j) \<mapsto> ?e1)"
  have n: "?m0 (383, i) = None" "?m0 (383, j) = None" "?m0 (384 + i, 0) = None" "?m0 (384 + j, 0) = None"
    using m free ij by (auto simp: fd_used_def data_free_def)
  have m2: "own_map s c = ?m2" by (rule M(7) [OF D0(6)])
  have le2: "?m0 \<subseteq>\<^sub>m ?m2" by (intro map_le_add) (use n ij in auto)
  have d: "pgdir_of s c \<in> dirs s" using progD(6) [OF P] .
  have "own_map s c (vaddr (INDEX2DATA (of_nat i))) = None" using n ai(2) ij by (simp add: m2)
  from prog_alloc [OF P ai(4) PTE_DL_bits(1) this] obtain r3 s3 where
    s3: "syscall_mem_alloc 0 (INDEX2DATA (of_nat i)) PTE_DL s = Some (r3, s3)" "prog s3 q c"
      "r3 = 0 \<and> (\<forall>n. free_pages s (n + 2) \<longrightarrow> free_pages s3 n) \<and> (\<exists>p2 < 2 ^ 20. maps s (dirs s) p2 = {} \<and> pm s3 p2 = (\<lambda>_. 0) \<and>
         moves {} c (?m2((384 + i, 0) \<mapsto> mkpte p2 PTE_DL)) s s3) \<or>
       r3 = err_word E_NO_MEM \<and> \<not> free_pages s 2 \<and> moves {} c ?m2 s s3" unfolding m2 ai(2) by blast
  show ?thesis
  proof (cases "r3 = 0")
    case False
    with s3(3) have e: "r3 = err_word E_NO_MEM" "moves {} c ?m2 s s3" "\<not> free_pages s 2" by auto
    then have "\<not> free_pages s 3" using free_pages_mono [of s 3 2] by auto
    from moves_grow [OF mv e(2) D0(6) le2] have "moves {} c ?m2 s0 s3" by simp
    from pipe_err2_ok [OF s3(2) D0(6) ij n(1,2) this] obtain s' where
      "pipe_err2 r3 (INDEX2FD (of_nat i)) (INDEX2FD (of_nat j)) s3 = Some (Inl r3, s')" "prog s' q c"
      "moves {} c ?m0 s0 s'" by blast
    then show ?thesis using s3(1) e(1) ai(9) \<open>\<not> free_pages s 3\<close> by (auto simp: pipe_map_def)
  next
    case True
    with s3(3) obtain p2 where p2: "p2 < 2 ^ 20" "maps s (dirs s) p2 = {}" "pm s3 p2 = (\<lambda>_. 0)"
      and mv3: "moves {} c (?m2((384 + i, 0) \<mapsto> mkpte p2 PTE_DL)) s s3" by auto
    let ?e2 = "mkpte p2 PTE_DL"
    let ?m3 = "?m2((384 + i, 0) \<mapsto> ?e2)"
    have P2: "PPN ?e0 = p0" "PPN ?e1 = p1" "PPN ?e2 = p2" using PPN_mkpte_DL p(1,2) p2(1) by simp_all
    have mm: "moves {} c ?m3 s0 s3" using moves_grow [OF mv mv3 D0(6) le2] by simp
    have o3: "own_map s3 c = ?m3" by (rule movesD(7) [OF mm D0(6)])
    have le3: "?m0 \<subseteq>\<^sub>m ?m3" by (intro map_le_add le2) (use n ij in auto)
    have p2n: "p2 \<noteq> p0" "p2 \<noteq> p1"
      using fresh_differ [OF mv D0(6) _ p2(2), of "(383, i)" ?e0] fresh_differ [OF mv D0(6) _ p2(2), of "(383, j)" ?e1] ij P2
      by auto
    have s0p2: "maps s0 (dirs s0) p2 = {}"
    proof (rule ccontr)
      assume "maps s0 (dirs s0) p2 \<noteq> {}"
      moreover have "stay_mapped s0 s p2" by (rule stay_if_more [OF mv D0(6)]) (use map_leD [OF le2] in auto)
      ultimately show False using p2(2) by (simp add: stay_mapped_def)
    qed
    have only: "maps s3 (dirs s3) p2 = Pair (pgdir_of s c) ` {(384 + i, 0)}"
    proof (rule one_mapping [OF mv3 d p2(2)])
      show "?m3 x = Some e \<Longrightarrow> PPN e = p2 \<longleftrightarrow> x \<in> {(384 + i, 0)}" for x e
        using fresh_differ [OF mv D0(6) _ p2(2), of x e] P2(3) by (auto split: if_splits)
    qed simp
    have "unat (pp_ref s3 p2) = 1" using data_refs [OF progD(2) [OF s3(2)], of p2] only by simp
    then have room: "unat (pp_ref s3 (PPN ?e2)) < 65535" using P2(3) by simp
    have src: "own_map s3 c (vaddr (INDEX2DATA (of_nat i))) = Some ?e2"
      "own_map s3 c (vaddr (INDEX2DATA (of_nat j))) = None" using n ij by (simp_all add: o3 ai(2) aj(2))
    from prog_map [OF s3(2) ai(4) aj(4) PTE_DL_bits(1) src room] obtain r4 s4 where
      s4: "syscall_mem_map 0 (INDEX2DATA (of_nat i)) 0 (INDEX2DATA (of_nat j)) PTE_DL s3 = Some (r4, s4)" "prog s4 q c"
        "r4 = 0 \<and> moves {} c (?m3((384 + j, 0) \<mapsto> ?e2)) s3 s4 \<or>
         r4 = err_word E_NO_MEM \<and> \<not> free_pages s3 1 \<and> moves {} c ?m3 s3 s4"
      unfolding o3 aj(2) P2(3) by blast
    show ?thesis
    proof (cases "r4 = 0")
      case False
      from s3(3) True have "free_pages s (1 + 2) \<longrightarrow> free_pages s3 1" by auto
      with False s4(3) have e: "r4 = err_word E_NO_MEM" "moves {} c ?m3 s3 s4" "\<not> free_pages s 3" by (auto simp: numeral_3_eq_3)
      from moves_grow [OF mm e(2) D0(6) le3] have m4: "moves {} c (?m2(vaddr (INDEX2DATA (of_nat i)) \<mapsto> ?e2)) s0 s4"
        by (simp add: ai(2))
      have "?m2 (vaddr (INDEX2DATA (of_nat i))) = None" using n ij by (simp add: ai(2))
      from unmap_added [OF s4(2) m4 D0(6) ai(4) le2 this] obtain s5 where
        s5: "syscall_mem_unmap 0 (INDEX2DATA (of_nat i)) s4 = Some (0, s5)" "prog s5 q c" "moves {} c ?m2 s0 s5" by blast
      from pipe_err2_ok [OF s5(2) D0(6) ij n(1,2) s5(3)] obtain s' where
        "pipe_err2 r4 (INDEX2FD (of_nat i)) (INDEX2FD (of_nat j)) s5 = Some (Inl r4, s')" "prog s' q c"
        "moves {} c ?m0 s0 s'" by blast
      then show ?thesis using s3(1) s4(1) s5(1) True e(1,3) ai(9) aj(9) by (auto simp: pipe_map_def)
    next
      case True
      let ?m4 = "?m3((384 + j, 0) \<mapsto> ?e2)"
      from True s4(3) have mv4: "moves {} c ?m4 s3 s4" by auto
      have m4: "moves {} c ?m4 s0 s4" using moves_grow [OF mm mv4 D0(6) le3] by simp
      have le4: "?m0 \<subseteq>\<^sub>m ?m4" by (intro map_le_add le3) (use n ij in auto)
      have o4: "own_map s4 c = ?m4" by (rule movesD(7) [OF m4 D0(6)])
      have "maps s (dirs s) p0 \<noteq> {}" "maps s (dirs s) p1 \<noteq> {}" "maps s3 (dirs s3) p0 \<noteq> {}" "maps s3 (dirs s3) p1 \<noteq> {}"
        using own_mapped [OF P, of "(383, i)" ?e0] own_mapped [OF P, of "(383, j)" ?e1]
          own_mapped [OF s3(2), of "(383, i)" ?e0] own_mapped [OF s3(2), of "(383, j)" ?e1] ij P2
        by (simp_all add: m2 o3)
      then have dt: "pm s4 p0 = (\<lambda>_. 0)" "pm s4 p1 = (\<lambda>_. 0)" "pm s4 p2 = (\<lambda>_. 0)"
        using movesD(9) [OF mv3] movesD(9) [OF mv4] only p2(3) z by simp_all
      have "own_map s4 c = pipe_map_of ?m0 i j p0 p1 p2" by (simp add: o4 pipe_map_of_def)
      from pipe_fill_ok [OF s4(2) ij p(1,2) p2(1) _ this dt] p(3) p2n obtain s' where
        s': "pipe_fill (INDEX2FD (of_nat i)) (INDEX2FD (of_nat j)) s4 = Some s'" "prog s' q c"
          "moves {p0, p1} c ?m4 s4 s'" "pm s' p0 = (\<lambda>_. 0)(0 := dev_id devpipe, 2 := O_RDONLY)"
          "pm s' p1 = (\<lambda>_. 0)(0 := dev_id devpipe, 2 := O_WRONLY)" "pm s' p2 = (\<lambda>_. 0)" unfolding o4 by auto
      have "moves {p0, p1} c ?m4 s0 s'" using moves_grow [OF m4 s'(3) D0(6) le4] by simp
      then have "moves {} c ?m4 s0 s'" by (rule moves_drop) (use p(4,5) in auto)
      then show ?thesis
        using s3(1) s4(1) \<open>r3 = 0\<close> True s' p2(1) p2n s0p2 ai(8,9) aj(8,9)
        by (auto simp: pipe_map_def pipe_map_of_def)
    qed
  qed
qed

section \<open>The whole call\<close>

lemma fresh_before:
  assumes "moves W c m s s'" "pgdir_of s c \<in> dirs s" "own_map s c \<subseteq>\<^sub>m m" "maps s' (dirs s') p = {}"
  shows "maps s (dirs s) p = {}"
proof (rule ccontr)
  assume "maps s (dirs s) p \<noteq> {}"
  moreover have "stay_mapped s s' p" by (rule stay_if_more [OF assms(1,2)]) (use map_leD [OF assms(3)] in auto)
  ultimately show False using assms(4) by (simp add: stay_mapped_def)
qed

definition two_free :: "kern \<Rightarrow> nat \<Rightarrow> nat \<Rightarrow> nat \<Rightarrow> bool" where
  "two_free s c i j \<longleftrightarrow> i < j \<and> j < 31 \<and> \<not> fd_used s c i \<and> \<not> fd_used s c j \<and> (\<forall>k < j. k \<noteq> i \<longrightarrow> fd_used s c k)"

text \<open>
  A pipe, or an error and everything as before. The limit of descriptors is reported only if there
  are no two free ones.
\<close>

definition pipe_result :: "kern \<Rightarrow> kern \<Rightarrow> nat \<Rightarrow> u32 + u32 \<times> u32 \<Rightarrow> bool" where
  "pipe_result s s' c r \<longleftrightarrow>
     (case r of
        Inl e \<Rightarrow> moves {} c (own_map s c) s s' \<and>
          (e = err_word E_NO_MEM \<and> \<not> free_pages s 7 \<or> e = err_word E_MAX_OPEN \<and> (\<nexists>i j. two_free s c i j))
      | Inr (a, b) \<Rightarrow> (\<exists>i j p0 p1 p2. two_free s c i j \<and> a = of_nat i \<and> b = of_nat j \<and> pipe_ends s s' c i j p0 p1 p2))"

text \<open>The first descriptor \<open>i\<close> has its page \<open>p0\<close>; the second is \<open>j\<close> with the page \<open>p1\<close>.\<close>

definition first_fd :: "kern \<Rightarrow> kern \<Rightarrow> nat \<Rightarrow> nat \<Rightarrow> nat \<Rightarrow> bool" where
  "first_fd s s1 c i p0 \<longleftrightarrow> free_fd s c = Some i \<and> p0 < 2 ^ 20 \<and> maps s (dirs s) p0 = {} \<and> pm s1 p0 = (\<lambda>_. 0) \<and>
     (\<forall>n. free_pages s (n + 2) \<longrightarrow> free_pages s1 n) \<and> moves {} c ((own_map s c)((383, i) \<mapsto> mkpte p0 PTE_DL)) s s1"

lemma first_fdD:
  assumes P: "prog s q c" and f: "first_fd s s1 c i p0"
  shows "i < 31" "\<not> fd_used s c i" "\<forall>k < i. fd_used s c k" "own_map s c (383, i) = None"
    "own_map s1 c = (own_map s c)((383, i) \<mapsto> mkpte p0 PTE_DL)"
    "own_map s c \<subseteq>\<^sub>m (own_map s c)((383, i) \<mapsto> mkpte p0 PTE_DL)"
    "fd_used s1 c k \<longleftrightarrow> fd_used s c k \<or> k = i" "PPN (mkpte p0 PTE_DL) = p0"
proof -
  from f have mv: "moves {} c ((own_map s c)((383, i) \<mapsto> mkpte p0 PTE_DL)) s s1" and p: "p0 < 2 ^ 20"
    and i: "free_fd s c = Some i" by (simp_all add: first_fd_def)
  show "i < 31" "\<not> fd_used s c i" "\<forall>k < i. fd_used s c k" using free_fdD(1) [OF i] by simp_all
  then show n: "own_map s c (383, i) = None" by (simp add: fd_used_def)
  then show "own_map s c \<subseteq>\<^sub>m (own_map s c)((383, i) \<mapsto> mkpte p0 PTE_DL)" by (intro map_le_add) simp_all
  show o: "own_map s1 c = (own_map s c)((383, i) \<mapsto> mkpte p0 PTE_DL)" by (rule movesD(7) [OF mv progD(6) [OF P]])
  show "fd_used s1 c k \<longleftrightarrow> fd_used s c k \<or> k = i" by (simp add: fd_used_def o)
  show "PPN (mkpte p0 PTE_DL) = p0" by (rule PPN_mkpte_DL [OF p])
qed

lemma pipe_no_second:
  assumes P: "prog s q c" and f: "first_fd s s1 c i p0" and P2: "prog s2 q c" and m2: "moves {} c (own_map s1 c) s1 s2"
  shows "\<exists>s'. syscall_mem_unmap 0 (INDEX2FD (of_nat i)) s2 = Some (0, s') \<and> prog s' q c \<and> moves {} c (own_map s c) s s'"
proof -
  note F = first_fdD [OF P f]
  from f have mv1: "moves {} c ((own_map s c)((383, i) \<mapsto> mkpte p0 PTE_DL)) s s1" by (simp add: first_fd_def)
  have i32: "i < 32" using F(1) by simp
  note ai = fd_addresses [OF i32]
  have "moves {} c ((own_map s c)(vaddr (INDEX2FD (of_nat i)) \<mapsto> mkpte p0 PTE_DL)) s s2"
    using moves_grow [OF mv1 m2 progD(6) [OF P] F(6)] by (simp add: ai(1) F(5))
  from unmap_added [OF P2 this progD(6) [OF P] ai(3) map_le_refl] F(4) ai(1) show ?thesis by simp
qed

lemma pipe_both:
  assumes P: "prog s q c" and free: "data_free s c" and f: "first_fd s s1 c i p0" and P1: "prog s1 q c"
    and g: "first_fd s1 s2 c j p1" and P2: "prog s2 q c"
  shows "\<exists>r s'. pipe_map (INDEX2FD (of_nat i)) (INDEX2FD (of_nat j)) s2 = Some (r, s') \<and> prog s' q c \<and> pipe_result s s' c r"
proof -
  note D = progD(6) [OF P] and F = first_fdD [OF P f] and G = first_fdD [OF P1 g]
  let ?m1 = "(own_map s c)((383, i) \<mapsto> mkpte p0 PTE_DL)"
  from f have mv1: "moves {} c ?m1 s s1" and p0: "p0 < 2 ^ 20" "maps s (dirs s) p0 = {}" "pm s1 p0 = (\<lambda>_. 0)"
    by (simp_all add: first_fd_def)
  from g have mv2: "moves {} c (?m1((383, j) \<mapsto> mkpte p1 PTE_DL)) s1 s2"
    and p1: "p1 < 2 ^ 20" "maps s1 (dirs s1) p1 = {}" "pm s2 p1 = (\<lambda>_. 0)" by (simp_all add: first_fd_def F(5))
  have ij: "two_free s c i j" using F(1-3,7) G(1-3) by (auto simp: two_free_def not_less_iff_gr_or_eq)
  then have ne: "i < 31" "j < 31" "i \<noteq> j" "\<not> fd_used s c i" "\<not> fd_used s c j" by (auto simp: two_free_def)
  have m2: "moves {} c (?m1((383, j) \<mapsto> mkpte p1 PTE_DL)) s s2" using moves_grow [OF mv1 mv2 D F(6)] by simp
  have p01: "p0 \<noteq> p1" using fresh_differ [OF mv1 D _ p1(2), of "(383, i)"] F(8) by auto
  have "maps s1 (dirs s1) p0 \<noteq> {}" using own_mapped [OF P1, of "(383, i)"] F(5,8) by simp
  then have z: "pm s2 p0 = (\<lambda>_. 0)" using movesD(9) [OF mv2] p0(3) by simp
  note n1 = fresh_before [OF mv1 D F(6) p1(2)]
  from pipe_map_ok [OF P P2 ne(1-3) p0(1) p1(1) p01 p0(2) n1 z p1(3) ne(4,5) free m2] obtain r s' where
    s': "pipe_map (INDEX2FD (of_nat i)) (INDEX2FD (of_nat j)) s2 = Some (r, s')" "prog s' q c"
      "case r of
         Inl e \<Rightarrow> e = err_word E_NO_MEM \<and> \<not> free_pages s2 3 \<and> moves {} c (own_map s c) s s'
       | Inr ab \<Rightarrow> ab = (of_nat i, of_nat j) \<and> (\<exists>p2 < 2 ^ 20. p2 \<noteq> p0 \<and> p2 \<noteq> p1 \<and> maps s (dirs s) p2 = {} \<and>
           moves {} c (pipe_map_of (own_map s c) i j p0 p1 p2) s s' \<and>
           pm s' p0 = (\<lambda>_. 0)(0 := dev_id devpipe, 2 := O_RDONLY) \<and>
           pm s' p1 = (\<lambda>_. 0)(0 := dev_id devpipe, 2 := O_WRONLY) \<and> pm s' p2 = (\<lambda>_. 0))" by blast
  have left: "free_pages s 7 \<Longrightarrow> free_pages s2 3" using f g by (auto simp: first_fd_def dest: spec [of _ 3] spec [of _ 5])
  have "pipe_result s s' c r"
  proof (cases r)
    case (Inr ab)
    with s'(3) obtain p2 where ab: "ab = (of_nat i, of_nat j)" "p2 < 2 ^ 20" "p2 \<noteq> p0" "p2 \<noteq> p1" "maps s (dirs s) p2 = {}"
      "moves {} c (pipe_map_of (own_map s c) i j p0 p1 p2) s s'" "pm s' p0 = (\<lambda>_. 0)(0 := dev_id devpipe, 2 := O_RDONLY)"
      "pm s' p1 = (\<lambda>_. 0)(0 := dev_id devpipe, 2 := O_WRONLY)" "pm s' p2 = (\<lambda>_. 0)" by auto
    then have "pipe_ends s s' c i j p0 p1 p2" using ij p0(1,2) p1(1) p01 n1 by (auto simp: pipe_ends_def two_free_def)
    with Inr ab(1) ij show ?thesis unfolding pipe_result_def by simp blast
  qed (use s'(3) left in \<open>auto simp: pipe_result_def\<close>)
  then show ?thesis using s'(1,2) by blast
qed

lemma fd_page_cases:
  assumes P: "prog s q c"
  obtains e s1 where "fd_page s = Some (Inl e, s1)" "prog s1 q c" "moves {} c (own_map s c) s s1"
      "e = err_word E_MAX_OPEN \<and> free_fd s c = None \<or> e = err_word E_NO_MEM \<and> \<not> free_pages s 2"
    | i p0 s1 where "fd_page s = Some (Inr (INDEX2FD (of_nat i)), s1)" "prog s1 q c" "first_fd s s1 c i p0"
proof -
  from fd_page_ok [OF P] obtain r s' where "fd_page s = Some (r, s')" "prog s' q c"
    "case r of
       Inl e \<Rightarrow> moves {} c (own_map s c) s s' \<and> (e = err_word E_MAX_OPEN \<and> free_fd s c = None \<or> e = err_word E_NO_MEM \<and> \<not> free_pages s 2)
     | Inr fd \<Rightarrow> (\<forall>n. free_pages s (n + 2) \<longrightarrow> free_pages s' n) \<and> (\<exists>i. free_fd s c = Some i \<and> fd = INDEX2FD (of_nat i) \<and>
         (\<exists>p < 2 ^ 20. maps s (dirs s) p = {} \<and> pm s' p = (\<lambda>_. 0) \<and>
            moves {} c ((own_map s c)((383, i) \<mapsto> mkpte p PTE_DL)) s s'))" by blast
  then show thesis using that by (cases r) (auto simp: first_fd_def)
qed

lemma open_pipe_ok:
  assumes P: "prog s q c" and free: "data_free s c"
  shows "\<exists>r s'. open_pipe s = Some (r, s') \<and> prog s' q c \<and> pipe_result s s' c r"
proof (cases rule: fd_page_cases [OF P])
  case (1 e s1)
  have "\<not> two_free s c i j" if "free_fd s c = None" for i j
    using free_fdD(2) [OF that, of j] by (auto simp: two_free_def)
  moreover have "free_pages s 7 \<Longrightarrow> free_pages s 2" using free_pages_mono by fastforce
  ultimately show ?thesis using 1 by (auto simp: open_pipe_def pipe_result_def)
next
  case f: (2 i p0 s1)
  note F = first_fdD [OF P f(3)]
  show ?thesis
  proof (cases rule: fd_page_cases [OF f(2)])
    case (1 e s2)
    have "\<not> two_free s c a b" if "free_fd s1 c = None" for a b
      using free_fdD(2) [OF that, of a] free_fdD(2) [OF that, of b] F(7) by (auto simp: two_free_def)
    moreover have "free_pages s (2 + 2) \<longrightarrow> free_pages s1 2" using f(3) unfolding first_fd_def by blast
    then have "free_pages s 7 \<Longrightarrow> free_pages s1 2" using free_pages_mono [of s 7 4] by simp
    ultimately show ?thesis using f(1) 1 pipe_no_second [OF P f(3) 1(2,3)] by (auto simp: open_pipe_def pipe_result_def)
  next
    case (2 j p1 s2)
    from pipe_both [OF P free f(3,2) 2(3,2)] show ?thesis using f(1) 2(1) by (simp add: open_pipe_def)
  qed
qed

end
