(* ===== verification/Fd_Props.thy ===== *)
theory Fd_Props
  imports Fd_Pipe Fork_Props
begin

unbundle bit_operations_syntax

text \<open>
  Properties of descriptors and pipes: allocation of descriptors, all-or-nothing creation of a
  pipe, and the end of a pipe.
\<close>

section \<open>Closing the ends of a pipe\<close>

lemma pipe_endsD:
  assumes "pipe_ends s s1 c i j p0 p1 p2"
  shows "i < j" "j < 31" "i < 32" "j < 32" "p0 < 2 ^ 20" "p1 < 2 ^ 20" "p2 < 2 ^ 20"
    "p0 \<noteq> p1" "p0 \<noteq> p2" "p1 \<noteq> p2" "maps s (dirs s) p0 = {}" "maps s (dirs s) p1 = {}" "maps s (dirs s) p2 = {}"
    "moves {} c (pipe_map_of (own_map s c) i j p0 p1 p2) s s1"
    "pm s1 p0 = (\<lambda>_. 0)(0 := dev_id devpipe, 2 := O_RDONLY)" "pm s1 p1 = (\<lambda>_. 0)(0 := dev_id devpipe, 2 := O_WRONLY)"
    "pm s1 p2 = (\<lambda>_. 0)"
  using assms by (auto simp: pipe_ends_def)

text \<open>Unmapping one of the pages \<open>W\<close>: the contents of the others stay.\<close>

lemma unmap_within:
  assumes P0: "prog s q c" and m0: "moves W c m s s1" and P1: "prog s1 q c" and va: "\<not> is_illegal_va va"
    and W: "\<And>x e. own_map s c x = Some e \<Longrightarrow> PPN e \<notin> W \<Longrightarrow> m x = Some e"
  shows "\<exists>s'. syscall_mem_unmap 0 va s1 = Some (0, s') \<and> prog s' q c \<and> moves W c (m(vaddr va := None)) s s'"
proof -
  note D = progD(6) [OF P0]
  have o1: "own_map s1 c = m" by (rule movesD(7) [OF m0 D])
  from prog_unmap [OF P1 va] obtain s' where s': "syscall_mem_unmap 0 va s1 = Some (0, s')" "prog s' q c"
    "moves {} c (m(vaddr va := None)) s1 s'" unfolding o1 by blast
  have "stay_mapped s s1 p" if "p \<notin> W" for p
    by (rule stay_if_more [OF m0 D]) (use W that in auto)
  with moves_trans [OF m0 s'(3) D] s'(1,2) show ?thesis by auto
qed

text \<open>\<^verbatim>\<open>close\<close> of a pipe's descriptor: both pages are unmapped.\<close>

lemma close_pipe_fd:
  assumes P: "prog s q c" and i: "i < 32" and p: "p < 2 ^ 20" "p' < 2 ^ 20"
    and e: "own_map s c (383, i) = Some (mkpte p PTE_DL)" "own_map s c (384 + i, 0) = Some (mkpte p' PTE_DL)"
    and dev: "pm s p 0 = dev_id devpipe"
  shows "\<exists>s'. close u (of_nat i) s = Some (0, s') \<and> prog s' q c \<and>
    moves {p, p'} c ((own_map s c)((383, i) := None, (384 + i, 0) := None)) s s'"
proof -
  note a = fd_addresses [OF i]
  let ?fd = "INDEX2FD (of_nat i)" and ?m = "own_map s c"
  have "fd_lookup (of_nat i) s = Some (Inr ?fd, s)"
    using fd_lookup_found [OF P i own_has_tab [OF e(1)]] e(1) by (simp add: fd_used_def)
  moreover have "uload32 (fd_dev_id ?fd) s = Some (dev_id devpipe, s)"
    using fd_load [OF P i _ e(1) p(1), of 0] dev by (simp add: fd_dev_id_def)
  ultimately have look: "fd_and_dev (of_nat i) s = Some (Inr (?fd, devpipe), s)"
    by (simp add: fd_and_dev_def dev_lookup_def devtab_def)
  have m0: "moves {p, p'} c ?m s s" using moves_weaken [OF moves_refl [OF P]] by simp
  have W: "x \<noteq> (383, i) \<and> x \<noteq> (384 + i, 0)" if "?m x = Some e'" "PPN e' \<notin> {p, p'}" for x e'
    using that e PPN_mkpte_DL p by auto
  from unmap_within [OF P m0 P a(3)] obtain s1 where s1: "syscall_mem_unmap 0 ?fd s = Some (0, s1)" "prog s1 q c"
    "moves {p, p'} c (?m((383, i) := None)) s s1" unfolding a(1) by blast
  from unmap_within [OF P s1(3,2) a(4)] W obtain s2 where s2: "syscall_mem_unmap 0 (fd2data ?fd) s1 = Some (0, s2)"
    "prog s2 q c" "moves {p, p'} c (?m((383, i) := None, (384 + i, 0) := None)) s s2" unfolding a(2,9) by fastforce
  from unmap_within [OF P s2(3,2) a(3)] W obtain s3 where s3: "syscall_mem_unmap 0 ?fd s2 = Some (0, s3)"
    "prog s3 q c" "moves {p, p'} c (?m((383, i) := None, (384 + i, 0) := None, (383, i) := None)) s s3"
    unfolding a(1) by fastforce
  have "?m((383, i) := None, (384 + i, 0) := None, (383, i) := None) = ?m((383, i) := None, (384 + i, 0) := None)"
    by (simp add: fun_eq_iff)
  then show ?thesis using look s1(1) s2(1) s3 by (simp add: close_def pipe_close_def fd_close_def)
qed

lemma pipe_ends_map:
  assumes P: "prog s q c" and e: "pipe_ends s s1 c i j p0 p1 p2"
  shows "own_map s1 c (383, i) = Some (mkpte p0 PTE_DL)" "own_map s1 c (383, j) = Some (mkpte p1 PTE_DL)"
    "own_map s1 c (384 + i, 0) = Some (mkpte p2 PTE_DL)" "own_map s1 c (384 + j, 0) = Some (mkpte p2 PTE_DL)"
    "own_map s1 c = pipe_map_of (own_map s c) i j p0 p1 p2"
proof -
  note E = pipe_endsD [OF e]
  show m: "own_map s1 c = pipe_map_of (own_map s c) i j p0 p1 p2" by (rule movesD(7) [OF E(14) progD(6) [OF P]])
  show "own_map s1 c (383, i) = Some (mkpte p0 PTE_DL)" "own_map s1 c (383, j) = Some (mkpte p1 PTE_DL)"
    "own_map s1 c (384 + i, 0) = Some (mkpte p2 PTE_DL)" "own_map s1 c (384 + j, 0) = Some (mkpte p2 PTE_DL)"
    unfolding m pipe_map_of_def using E(1,2) by simp_all
qed

text \<open>The state after the read end has been closed.\<close>

lemma close_first:
  assumes P: "prog s q c" and e: "pipe_ends s s1 c i j p0 p1 p2" and P1: "prog s1 q c"
  shows "\<exists>s2. close u (of_nat i) s1 = Some (0, s2) \<and> prog s2 q c \<and>
    moves {p0, p2} c ((own_map s1 c)((383, i) := None, (384 + i, 0) := None)) s1 s2 \<and>
    own_map s2 c (383, j) = Some (mkpte p1 PTE_DL) \<and> own_map s2 c (384 + j, 0) = Some (mkpte p2 PTE_DL) \<and>
    pm s2 p1 = pm s1 p1"
proof -
  note E = pipe_endsD [OF e] and m = pipe_ends_map [OF P e]
  have "pm s1 p0 0 = dev_id devpipe" by (simp add: E(15))
  from close_pipe_fd [OF P1 E(3,5,7) m(1,3) this] obtain s2 where
    s2: "close u (of_nat i) s1 = Some (0, s2)" "prog s2 q c"
      "moves {p0, p2} c ((own_map s1 c)((383, i) := None, (384 + i, 0) := None)) s1 s2" by blast
  have o2: "own_map s2 c = (own_map s1 c)((383, i) := None, (384 + i, 0) := None)"
    by (rule movesD(7) [OF s2(3) progD(6) [OF P1]])
  have "maps s1 (dirs s1) p1 \<noteq> {}" using own_mapped [OF P1 m(2)] PPN_mkpte_DL [OF E(6)] by simp
  then have "pm s2 p1 = pm s1 p1" using movesD(9) [OF s2(3)] E(8,10) by auto
  moreover have "own_map s2 c (383, j) = Some (mkpte p1 PTE_DL)" "own_map s2 c (384 + j, 0) = Some (mkpte p2 PTE_DL)"
    unfolding o2 using m(2,4) E(1,2) by auto
  ultimately show ?thesis using s2 by blast
qed

section \<open>References\<close>

text \<open>\<^verbatim>\<open>pageref\<close> of a mapped page counts the mappings of its physical page.\<close>

lemma pageref_mapped:
  assumes P: "prog s q c" and va: "va < UTOP" and e: "own_map s c (vaddr va) = Some e"
  shows "user_pageref va s = Some (of_nat (card (maps s (dirs s) (PPN e))), s)"
proof -
  obtain i j where ij: "vaddr va = (i, j)" "PDX va = i" "PTX va = j" by (simp add: vaddr_def)
  have h: "has_tab s (pgdir_of s c) i" "i < 509" "upte s (pgdir_of s c) i j = e" "pte_valid e"
    using e by (auto simp: ij as_map_def split: if_splits)
  have j: "j < 1024" using PTX_less [of va] ij by simp
  have "vpt (VPN va) s = Some (e, s)"
    using prog_vpt [OF P h(2) j h(1)] h(3) ij by (simp add: VPN_split)
  moreover have "vpd (PDX va) s = Some (pm s (pgdir_of s c) i, s)" using prog_vpd [OF P, of i] h(2) ij by simp
  moreover have r: "unat (pp_ref s (PPN e)) = card (maps s (dirs s) (PPN e))"
    using data_refs [OF progD(2) [OF P] own_mapped [OF P e]] by simp
  have "(ucast (pp_ref s (PPN e)) :: u32) = of_nat (card (maps s (dirs s) (PPN e)))"
    unfolding r [symmetric] by (rule bit_word_eqI) (simp add: bit_simps)
  ultimately show ?thesis
    using h by (simp add: user_pageref_def has_tab_def pte_valid_def)
qed

lemma pipe_closed_counts:
  assumes P: "prog s q c" and i: "i < 32"
    and e: "own_map s c (383, i) = Some (mkpte p PTE_DL)" "own_map s c (384 + i, 0) = Some (mkpte p' PTE_DL)"
    and p: "p < 2 ^ 20" "p' < 2 ^ 20" and n: "card (maps s (dirs s) p) = n" "card (maps s (dirs s) p') = n'" "n < 2 ^ 32" "n' < 2 ^ 32"
  shows "pipe_is_closed (of_nat i) s = Some (if n = n' then 1 else 0, s)"
proof -
  note a = fd_addresses [OF i] and D = progD [OF P]
  let ?fd = "INDEX2FD (of_nat i)"
  have u: "?fd < UTOP" "fd2data ?fd < UTOP" using a(3,4,9) legal_va by auto
  have "user_pageref ?fd s = Some (of_nat n, s)"
    using pageref_mapped [OF P u(1)] e(1) PPN_mkpte_DL [OF p(1)] n(1) by (simp add: a(1))
  moreover have "user_pageref (fd2data ?fd) s = Some (of_nat n', s)"
    using pageref_mapped [OF P u(2)] e(2) PPN_mkpte_DL [OF p(2)] n(2) by (simp add: a(2,9))
  moreover have "(of_nat n :: u32) = of_nat n' \<longleftrightarrow> n = n'" using n(3,4) by (simp add: word_unat_eq_iff unat_pos)
  ultimately have "pipe_closed_now ?fd s = Some (n = n', s)"
    unfolding pipe_closed_now_def by (subst pipe_closed_loop.simps) (simp add: D(3))
  moreover have "fd_lookup (of_nat i) s = Some (Inr ?fd, s)"
    using fd_lookup_found [OF P i own_has_tab [OF e(1)]] e(1) by (simp add: fd_used_def)
  ultimately show ?thesis by (simp add: pipe_is_closed_def)
qed

text \<open>The maps of a pipe with both ends, with one end, and with none.\<close>

lemma pipe_map_le:
  assumes "two_free s c i j" "data_free s c"
  shows "own_map s c \<subseteq>\<^sub>m pipe_map_of (own_map s c) i j p0 p1 p2"
    "(pipe_map_of (own_map s c) i j p0 p1 p2)((383, i) := None, (384 + i, 0) := None) =
       (own_map s c)((383, j) \<mapsto> mkpte p1 PTE_DL, (384 + j, 0) \<mapsto> mkpte p2 PTE_DL)"
    "((own_map s c)((383, j) \<mapsto> mkpte p1 PTE_DL, (384 + j, 0) \<mapsto> mkpte p2 PTE_DL))((383, j) := None, (384 + j, 0) := None) =
       own_map s c"
proof -
  have n: "own_map s c (383, i) = None" "own_map s c (383, j) = None" "own_map s c (384 + i, 0) = None"
    "own_map s c (384 + j, 0) = None" "i \<noteq> j"
    using assms by (auto simp: two_free_def data_free_def fd_used_def)
  show "own_map s c \<subseteq>\<^sub>m pipe_map_of (own_map s c) i j p0 p1 p2"
    unfolding pipe_map_of_def by (intro map_le_add map_le_refl) (use n in auto)
  show "(pipe_map_of (own_map s c) i j p0 p1 p2)((383, i) := None, (384 + i, 0) := None) =
       (own_map s c)((383, j) \<mapsto> mkpte p1 PTE_DL, (384 + j, 0) \<mapsto> mkpte p2 PTE_DL)"
    unfolding pipe_map_of_def by (rule ext) (use n in auto)
  show "((own_map s c)((383, j) \<mapsto> mkpte p1 PTE_DL, (384 + j, 0) \<mapsto> mkpte p2 PTE_DL))((383, j) := None, (384 + j, 0) := None) =
       own_map s c"
    by (rule ext) (use n in auto)
qed

text \<open>How often the pages of a new pipe are mapped.\<close>

lemma fresh_unmapped:
  assumes "prog s q c" "maps s (dirs s) p = {}" "own_map s c x = Some e"
  shows "PPN e \<noteq> p"
  using own_mapped [OF assms(1,3)] assms(2) by auto

lemma pipe_counts:
  assumes P: "prog s q c" and e: "pipe_ends s s1 c i j p0 p1 p2"
  shows "card (maps s1 (dirs s1) p0) = 1" "card (maps s1 (dirs s1) p1) = 1" "card (maps s1 (dirs s1) p2) = 2"
proof -
  note E = pipe_endsD [OF e] and D = progD(6) [OF P]
  note P2 = PPN_mkpte_DL [OF E(5)] PPN_mkpte_DL [OF E(6)] PPN_mkpte_DL [OF E(7)]
  let ?m = "pipe_map_of (own_map s c) i j p0 p1 p2"
  have m: "?m x = Some e' \<Longrightarrow> x = (383, i) \<and> PPN e' = p0 \<or> x = (383, j) \<and> PPN e' = p1 \<or>
      x \<in> {(384 + i, 0), (384 + j, 0)} \<and> PPN e' = p2 \<or> PPN e' \<notin> {p0, p1, p2} \<and> x \<notin> {(383, i), (383, j), (384 + i, 0), (384 + j, 0)}" for x e'
    using fresh_unmapped [OF P E(11), of x e'] fresh_unmapped [OF P E(12), of x e'] fresh_unmapped [OF P E(13), of x e'] P2 E(1,2)
    by (auto simp: pipe_map_of_def split: if_splits)
  have d: "?m x \<noteq> None" if "x \<in> {(383, i), (383, j), (384 + i, 0), (384 + j, 0)}" for x
    using that by (auto simp: pipe_map_of_def)
  have ne: "(383, i) \<notin> {(384 + i, 0), (384 + j, 0)}" "(383, j) \<notin> {(384 + i, 0), (384 + j, 0)}" "i \<noteq> j" using E(1,2) by auto
  have k: "?m x = Some e' \<Longrightarrow> PPN e' = p0 \<longleftrightarrow> x \<in> {(383, i)}" "?m x = Some e' \<Longrightarrow> PPN e' = p1 \<longleftrightarrow> x \<in> {(383, j)}"
    "?m x = Some e' \<Longrightarrow> PPN e' = p2 \<longleftrightarrow> x \<in> {(384 + i, 0), (384 + j, 0)}" for x e'
    using m [of x e'] ne E(8-10) by auto
  note one = one_mapping [OF E(14) D]
  show "card (maps s1 (dirs s1) p0) = 1" unfolding one [OF E(11) k(1) d, simplified] by simp
  show "card (maps s1 (dirs s1) p1) = 1" unfolding one [OF E(12) k(2) d, simplified] by simp
  show "card (maps s1 (dirs s1) p2) = 2" unfolding one [OF E(13) k(3) d, simplified] using ne(3) by simp
qed

section \<open>Properties\<close>

text \<open>
  \<^verbatim>\<open>fd_alloc\<close> and \<^verbatim>\<open>fd_lookup\<close>: the address of the least descriptor below 31 that has no page, or
  \<^verbatim>\<open>E_MAX_OPEN\<close> when there is none, without a change of the state; and a number is looked up
  successfully exactly when its descriptor has a page.
\<close>

theorem fd_alloc_correct:
  assumes "prog s q c"
  shows "fd_alloc s = Some (if \<forall>i < 31. fd_used s c i then Inl (err_word E_MAX_OPEN)
       else Inr (INDEX2FD (of_nat (LEAST i. \<not> fd_used s c i))), s) \<and>
     (has_tab s (pgdir_of s c) 383 \<longrightarrow> (\<forall>i < 32. fd_lookup (of_nat i) s =
       Some (if fd_used s c i then Inr (INDEX2FD (of_nat i)) else Inl (err_word E_INVAL), s)))"
proof (cases "free_fd s c")
  case None
  then show ?thesis using fd_alloc_free [OF assms] free_fdD(2) [OF None] fd_lookup_found [OF assms] by simp
next
  case (Some i)
  note f = free_fdD(1) [OF Some]
  then have "(LEAST i. \<not> fd_used s c i) = i" by (intro Least_equality) (auto simp: not_less [symmetric])
  moreover have "\<not> (\<forall>i < 31. fd_used s c i)" using f by blast
  ultimately show ?thesis using fd_alloc_free [OF assms] Some fd_lookup_found [OF assms] by simp
qed

lemma fork_prog: "prog kern_fork [0, 2] 0"
  using kern_fork_ok fork_self by (simp add: prog_def)

lemma fork_fds: "\<not> fd_used kern_fork 0 i" "data_free kern_fork 0"
  by (simp_all add: fd_used_def data_free_def fork_as_map)

theorem fd_alloc_correct_witness: "fd_alloc kern_fork = Some (Inr FDTABLE, kern_fork)"
proof -
  have "(LEAST i. \<not> fd_used kern_fork 0 i) = 0" by (rule Least_equality) (simp_all add: fork_fds)
  moreover have "\<not> (\<forall>i < 31. fd_used kern_fork 0 i)" using fork_fds(1) [of 0] by (auto intro: exI [of _ "0 :: nat"])
  ultimately show ?thesis using fd_alloc_correct [OF fork_prog] by (simp only: if_False) (simp add: INDEX2FD_def)
qed

text \<open>
  C7. \<^verbatim>\<open>pipe\<close> is all or nothing. It returns; on success the two least free descriptors are a read
  end and a write end, with fresh pages of their own and one fresh, empty page for the data that
  both data areas map. On failure the address space of the program is what it was: the pages
  allocated on the way are unmapped again. Memory is only short below seven free pages, and
  descriptors are only short when there are no two. In every case all other address spaces and
  the contents of all pages in use stay.
\<close>

theorem pipe_correct:
  assumes "prog s q c" "data_free s c"
  shows "\<exists>r s'. open_pipe s = Some (r, s') \<and> prog s' q c \<and>
    (\<forall>d \<in> dirs s. d \<noteq> pgdir_of s c \<longrightarrow> as_map s' d = as_map s d) \<and>
    (\<forall>p. maps s (dirs s) p \<noteq> {} \<longrightarrow> pm s' p = pm s p) \<and>
    (case r of
       Inl e \<Rightarrow> own_map s' c = own_map s c \<and>
         (e = err_word E_NO_MEM \<and> \<not> free_pages s 7 \<or> e = err_word E_MAX_OPEN \<and> (\<nexists>i j. two_free s c i j))
     | Inr (a, b) \<Rightarrow> (\<exists>i j p0 p1 p2. two_free s c i j \<and> a = of_nat i \<and> b = of_nat j \<and> pipe_ends s s' c i j p0 p1 p2))"
proof -
  note D = progD(6) [OF assms(1)]
  from open_pipe_ok [OF assms] obtain r s' where r: "open_pipe s = Some (r, s')" "prog s' q c" "pipe_result s s' c r" by blast
  obtain m where m: "moves {} c m s s'" "\<And>e. r = Inl e \<Longrightarrow> m = own_map s c"
    using r(3) by (cases r) (auto simp: pipe_result_def pipe_ends_def)
  have "own_map s' c = own_map s c" if "r = Inl e" for e using movesD(7) [OF m(1) D] m(2) [OF that] by simp
  moreover have "\<forall>d \<in> dirs s. d \<noteq> pgdir_of s c \<longrightarrow> as_map s' d = as_map s d"
    "\<forall>p. maps s (dirs s) p \<noteq> {} \<longrightarrow> pm s' p = pm s p" using movesD(8,9) [OF m(1)] by simp_all
  ultimately show ?thesis
    using r by (intro exI [of _ r] exI [of _ s']) (cases r; simp add: pipe_result_def)
qed

lemma fork_two_free: "two_free kern_fork 0 i j \<longleftrightarrow> i = 0 \<and> j = 1"
proof
  assume a: "two_free kern_fork 0 i j"
  then have "k = i" if "k < j" for k using that fork_fds(1) by (auto simp: two_free_def)
  from this [of 0] this [of 1] a have "i = 0" "\<not> 1 < j" "0 < j" by (auto simp: two_free_def)
  then show "i = 0 \<and> j = 1" by simp
qed (use fork_fds(1) in \<open>auto simp: two_free_def\<close>)

lemma fork_seven: "free_pages kern_fork 7"
  unfolding free_pages_def by (rule exI [of _ "rev [8..<16]"]) (use fork_free in simp)

theorem pipe_correct_witness:
  "\<exists>s' p0 p1 p2. open_pipe kern_fork = Some (Inr (0, 1), s') \<and> pipe_ends kern_fork s' 0 0 1 p0 p1 p2"
proof -
  from pipe_correct [OF fork_prog fork_fds(2)] obtain r s' where
    r: "open_pipe kern_fork = Some (r, s')" "case r of
       Inl e \<Rightarrow> own_map s' 0 = own_map kern_fork 0 \<and>
         (e = err_word E_NO_MEM \<and> \<not> free_pages kern_fork 7 \<or> e = err_word E_MAX_OPEN \<and> (\<nexists>i j. two_free kern_fork 0 i j))
     | Inr (a, b) \<Rightarrow> (\<exists>i j p0 p1 p2. two_free kern_fork 0 i j \<and> a = of_nat i \<and> b = of_nat j \<and>
         pipe_ends kern_fork s' 0 i j p0 p1 p2)" by blast
  from r fork_seven show ?thesis by (auto simp: fork_two_free split: sum.splits)
qed


lemma fork_open_pipe: "\<exists>s1. open_pipe kern_fork = Some (Inr (0, 1), s1)"
proof -
  from open_pipe_ok [OF fork_prog fork_fds(2)] obtain r s' where
    "open_pipe kern_fork = Some (r, s')" "pipe_result kern_fork s' 0 r" by blast
  then show ?thesis using fork_seven by (auto simp: pipe_result_def fork_two_free split: sum.splits)
qed


end
