(* ===== verification/Fd_File.thy ===== *)
theory Fd_File
  imports Fd_Props
begin

unbundle bit_operations_syntax

text \<open>
  Files in the memory of a program: copying between mapped regions of any length, and what
  \<^verbatim>\<open>read\<close>, \<^verbatim>\<open>write\<close> and \<^verbatim>\<open>seek\<close> do with the offset of a descriptor.
\<close>

section \<open>Bytes of a program\<close>

text \<open>The physical byte at an address of the program, and its value.\<close>

definition uphys :: "kern \<Rightarrow> nat \<Rightarrow> u32 \<Rightarrow> (nat \<times> nat) option" where
  "uphys s c va = map_option (\<lambda>e. (PPN e, unat va mod 4096)) (own_map s c (vaddr va))"

definition ubyte :: "kern \<Rightarrow> nat \<Rightarrow> u32 \<Rightarrow> u8 option" where
  "ubyte s c va = map_option (\<lambda>(p, k). page_byte s p k) (uphys s c va)"

text \<open>A region of \<open>n\<close> bytes that is mapped, or mapped for writing.\<close>

definition region :: "kern \<Rightarrow> nat \<Rightarrow> u32 \<Rightarrow> nat \<Rightarrow> bool" where
  "region s c a n \<longleftrightarrow> (\<forall>k < n. a + of_nat k < UTOP \<and> own_map s c (vaddr (a + of_nat k)) \<noteq> None)"

definition wregion :: "kern \<Rightarrow> nat \<Rightarrow> u32 \<Rightarrow> nat \<Rightarrow> bool" where
  "wregion s c a n \<longleftrightarrow> (\<forall>k < n. a + of_nat k < UTOP \<and>
     (\<exists>e. own_map s c (vaddr (a + of_nat k)) = Some e \<and> e AND PTE_D \<noteq> 0)) \<and>
     inj_on (\<lambda>k. uphys s c (a + of_nat k)) {..<n}"

definition pages :: "kern \<Rightarrow> nat \<Rightarrow> u32 \<Rightarrow> nat \<Rightarrow> nat set" where
  "pages s c a n = {p. \<exists>k < n. \<exists>e. own_map s c (vaddr (a + of_nat k)) = Some e \<and> PPN e = p}"

lemma region_own:
  assumes "own_map s' c = own_map s c"
  shows "region s' c a n = region s c a n" "wregion s' c a n = wregion s c a n" "pages s' c a n = pages s c a n"
    "uphys s' c va = uphys s c va"
  by (simp_all add: region_def wregion_def pages_def uphys_def assms)

lemma prog_load8:
  assumes P: "prog s q c" and va: "va < UTOP" and b: "uphys s c va = Some (p, k)"
  shows "uload8 va s = Some (page_byte s p k, s)"
proof -
  from b obtain e where e: "own_map s c (vaddr va) = Some e" "p = PPN e" "k = unat va mod 4096" by (auto simp: uphys_def)
  have "kload8 va s = Some (page_byte s p k, s)"
    unfolding e(2,3) by (rule mapped_access(1) [OF progD(2,3) [OF P] va e(1)])
  then show ?thesis using UTOP_ULIM [OF va] by (simp add: uload8_def)
qed

lemma prog_store8:
  assumes P: "prog s q c" and va: "va < UTOP" and e: "own_map s c (vaddr va) = Some e" "e AND PTE_D \<noteq> 0"
  shows "\<exists>s'. ustore8 va b s = Some s' \<and> prog s' q c \<and> moves {PPN e} c (own_map s c) s s' \<and>
    (\<forall>p k. page_byte s' p k = (if p = PPN e \<and> k = unat va mod 4096 then b else page_byte s p k))"
proof -
  let ?s' = "page_put_byte (PPN e) (unat va mod 4096) b s"
  have st: "ustore8 va b s = Some ?s'"
    unfolding ustore8_def by (rule mapped_access(3) [OF progD(2,3) [OF P] va e])
  have "?s' = s\<lparr>pm := (pm s)(PPN e := pm ?s' (PPN e))\<rparr>" by (simp add: page_put_byte_def)
  note dm = data_moves [OF P e(1) this]
  show ?thesis using st dm page_byte_put by blast
qed

lemma copy_region:
  assumes P: "prog s q c" and d: "wregion s c dst n" and r: "region s c src n"
    and dis: "pages s c dst n \<inter> pages s c src n = {}" and n: "n < 2 ^ 32"
  shows "\<exists>s'. umemcpy dst src (of_nat n) s = Some s' \<and> prog s' q c \<and> moves (pages s c dst n) c (own_map s c) s s' \<and>
    (\<forall>k < n. ubyte s' c (dst + of_nat k) = ubyte s c (src + of_nat k))"
proof -
  let ?f = "\<lambda>i s. do { (b, s) \<leftarrow> uload8 (src + of_nat i) s; ustore8 (dst + of_nat i) b s }"
  let ?W = "pages s c dst n" and ?m = "own_map s c"
  let ?P = "\<lambda>k s'. prog s' q c \<and> moves ?W c ?m s s' \<and>
    (\<forall>l < k. ubyte s' c (dst + of_nat l) = ubyte s c (src + of_nat l))"
  have "\<exists>s'. mfold ?f [0..<n] s = Some s' \<and> ?P n s'"
  proof (rule mfold_upt [where P = ?P])
    show "?P 0 s" using P moves_weaken [OF moves_refl [OF P]] by simp
    fix k s1 assume k: "k < n" and Pk: "?P k s1"
    then have P1: "prog s1 q c" and mv: "moves ?W c ?m s s1" by simp_all
    have o1: "own_map s1 c = ?m" by (rule movesD(7) [OF mv progD(6) [OF P]])
    from k r obtain es where es: "src + of_nat k < UTOP" "?m (vaddr (src + of_nat k)) = Some es" by (auto simp: region_def)
    from k d obtain ed where ed: "dst + of_nat k < UTOP" "?m (vaddr (dst + of_nat k)) = Some ed" "ed AND PTE_D \<noteq> 0"
      by (auto simp: wregion_def)
    have "PPN es \<in> pages s c src n" "PPN ed \<in> ?W" using es ed k by (auto simp: pages_def)
    then have nw: "PPN es \<notin> ?W" "PPN ed \<in> ?W" using dis by auto
    have "pm s1 (PPN es) = pm s (PPN es)" using movesD(9) [OF mv own_mapped [OF P es(2)] nw(1)] .
    then have b: "ubyte s1 c (src + of_nat k) = ubyte s c (src + of_nat k)"
      using es by (simp add: ubyte_def uphys_def o1 page_byte_def)
    have ld: "uload8 (src + of_nat k) s1 = Some (page_byte s1 (PPN es) (unat (src + of_nat k) mod 4096), s1)"
      by (rule prog_load8 [OF P1 es(1)]) (simp add: uphys_def o1 es)
    from prog_store8 [OF P1 ed(1), of ed "page_byte s1 (PPN es) (unat (src + of_nat k) mod 4096)"] ed o1 obtain s2 where
      s2: "ustore8 (dst + of_nat k) (page_byte s1 (PPN es) (unat (src + of_nat k) mod 4096)) s1 = Some s2" "prog s2 q c"
        "moves {PPN ed} c ?m s1 s2" "\<forall>p l. page_byte s2 p l =
          (if p = PPN ed \<and> l = unat (dst + of_nat k) mod 4096
           then page_byte s1 (PPN es) (unat (src + of_nat k) mod 4096) else page_byte s1 p l)" by auto
    have mv2: "moves ?W c ?m s s2"
      using moves_grow [OF mv s2(3) progD(6) [OF P] map_le_refl] nw(2) by (simp add: insert_absorb)
    have o2: "own_map s2 c = ?m" by (rule movesD(7) [OF mv2 progD(6) [OF P]])
    have "ubyte s2 c (dst + of_nat l) = ubyte s c (src + of_nat l)" if l: "l < Suc k" for l
    proof (cases "l = k")
      case True
      have "ubyte s2 c (dst + of_nat k) = ubyte s1 c (src + of_nat k)"
        using s2(4) ed es by (simp add: ubyte_def uphys_def o1 o2)
      then show ?thesis using True b by simp
    next
      case False
      then have lk: "l < k" using l by simp
      from lk k have "l < n" by simp
      with d obtain e where e: "?m (vaddr (dst + of_nat l)) = Some e" by (auto simp: wregion_def)
      have "uphys s c (dst + of_nat l) \<noteq> uphys s c (dst + of_nat k)"
        using d inj_onD [of "\<lambda>k. uphys s c (dst + of_nat k)" "{..<n}" l k] lk k False by (auto simp: wregion_def)
      then have "\<not> (PPN e = PPN ed \<and> unat (dst + of_nat l) mod 4096 = unat (dst + of_nat k) mod 4096)"
        using e ed by (auto simp: uphys_def)
      then have "page_byte s2 (PPN e) (unat (dst + of_nat l) mod 4096) = page_byte s1 (PPN e) (unat (dst + of_nat l) mod 4096)"
        using s2(4) by metis
      then have "ubyte s2 c (dst + of_nat l) = ubyte s1 c (dst + of_nat l)"
        using e by (simp add: ubyte_def uphys_def o1 o2)
      then show ?thesis using Pk lk by simp
    qed
    then show "\<exists>s2. ?f k s1 = Some s2 \<and> ?P (Suc k) s2" using ld s2(1,2) mv2 by simp
  qed
  then show ?thesis using n by (auto simp: umemcpy_def unat_of_nat_u32)
qed

section \<open>Open files\<close>

text \<open>
  Descriptor \<open>i\<close> of the program \<open>c\<close> is a file open for reading and writing, at the offset \<open>off\<close>, of
  \<open>sz\<close> bytes. The frame of its page is \<open>fd_frame\<close>.
\<close>

definition fd_frame :: "kern \<Rightarrow> nat \<Rightarrow> nat \<Rightarrow> nat" where
  "fd_frame s c i = PPN (the (own_map s c (383, i)))"

definition file_at :: "kern \<Rightarrow> nat \<Rightarrow> nat \<Rightarrow> u32 \<Rightarrow> u32 \<Rightarrow> bool" where
  "file_at s c i off sz \<longleftrightarrow> i < 32 \<and>
     (\<exists>e. own_map s c (383, i) = Some e \<and> e AND PTE_D \<noteq> 0) \<and>
     pm s (fd_frame s c i) 0 = dev_id devfile \<and> pm s (fd_frame s c i) 1 = off \<and>
     pm s (fd_frame s c i) 2 = O_RDWR \<and> pm s (fd_frame s c i) 36 = sz"

lemma file_load:
  assumes P: "prog s q c" and f: "file_at s c i off sz" and k: "k < 1024"
  shows "uload32 (INDEX2FD (of_nat i) + 4 * of_nat k) s = Some (pm s (fd_frame s c i) k, s)"
proof -
  from f obtain e where i: "i < 32" and e: "own_map s c (383, i) = Some e" by (auto simp: file_at_def)
  show ?thesis using prog_load [OF P fd_words(2,3) [OF i k], of e] e by (simp add: fd_words [OF i k] fd_frame_def)
qed

lemma file_words:
  assumes P: "prog s q c" and f: "file_at s c i off sz"
  shows "fd_lookup (of_nat i) s = Some (Inr (INDEX2FD (of_nat i)), s)"
    "fd_and_dev (of_nat i) s = Some (Inr (INDEX2FD (of_nat i), devfile), s)"
    "uload32 (fd_omode (INDEX2FD (of_nat i))) s = Some (O_RDWR, s)"
    "uload32 (fd_offset (INDEX2FD (of_nat i))) s = Some (off, s)"
    "uload32 (f_size (f_file (INDEX2FD (of_nat i)))) s = Some (sz, s)"
proof -
  from f obtain e where i: "i < 32" and e: "own_map s c (383, i) = Some e" by (auto simp: file_at_def)
  note w = f [unfolded file_at_def] and l = file_load [OF P f]
  show fl: "fd_lookup (of_nat i) s = Some (Inr (INDEX2FD (of_nat i)), s)"
    using fd_lookup_found [OF P i own_has_tab [OF e]] e by (simp add: fd_used_def)
  have "uload32 (fd_dev_id (INDEX2FD (of_nat i))) s = Some (dev_id devfile, s)"
    using l [of 0] w by (simp add: fd_dev_id_def)
  then show "fd_and_dev (of_nat i) s = Some (Inr (INDEX2FD (of_nat i), devfile), s)"
    by (simp add: fd_and_dev_def fl dev_lookup_def devtab_def)
  show "uload32 (fd_omode (INDEX2FD (of_nat i))) s = Some (O_RDWR, s)"
    using l [of 2] w by (simp add: fd_omode_def)
  show "uload32 (fd_offset (INDEX2FD (of_nat i))) s = Some (off, s)"
    using l [of 1] w by (simp add: fd_offset_def)
  show "uload32 (f_size (f_file (INDEX2FD (of_nat i)))) s = Some (sz, s)"
    using l [of 36] w by (simp add: f_size_def f_file_def add.assoc)
qed

text \<open>What a step that writes other pages only leaves.\<close>

lemma moves_file:
  assumes P: "prog s q c" and mv: "moves W c (own_map s c) s s'" and f: "file_at s c i off sz" and W: "fd_frame s c i \<notin> W"
  shows "file_at s' c i off sz" "fd_frame s' c i = fd_frame s c i"
proof -
  have o: "own_map s' c = own_map s c" by (rule movesD(7) [OF mv progD(6) [OF P]])
  then show ff: "fd_frame s' c i = fd_frame s c i" by (simp add: fd_frame_def)
  from f obtain e where e: "own_map s c (383, i) = Some e" by (auto simp: file_at_def)
  have "pm s' (fd_frame s c i) = pm s (fd_frame s c i)"
    using movesD(9) [OF mv own_mapped [OF P e]] W e by (simp add: fd_frame_def)
  then show "file_at s' c i off sz" using f by (simp add: file_at_def o ff)
qed

lemma moves_bytes:
  assumes P: "prog s q c" and mv: "moves W c (own_map s c) s s'" and r: "region s c a n"
    and W: "W \<inter> pages s c a n = {}" and k: "k < n"
  shows "ubyte s' c (a + of_nat k) = ubyte s c (a + of_nat k)"
proof -
  have o: "own_map s' c = own_map s c" by (rule movesD(7) [OF mv progD(6) [OF P]])
  from r k obtain e where e: "own_map s c (vaddr (a + of_nat k)) = Some e" by (auto simp: region_def)
  then have "PPN e \<notin> W" using W k by (auto simp: pages_def)
  from movesD(9) [OF mv own_mapped [OF P e] this] e show ?thesis
    by (simp add: ubyte_def uphys_def o page_byte_def)
qed

text \<open>Storing the offset.\<close>

lemma file_store_offset:
  assumes P: "prog s q c" and f: "file_at s c i off sz"
  shows "\<exists>s'. ustore32 (fd_offset (INDEX2FD (of_nat i))) w s = Some s' \<and> prog s' q c \<and>
    moves {fd_frame s c i} c (own_map s c) s s' \<and> file_at s' c i w sz \<and> fd_frame s' c i = fd_frame s c i"
proof -
  from f obtain e where i: "i < 32" and e: "own_map s c (383, i) = Some e" "e AND PTE_D \<noteq> 0" by (auto simp: file_at_def)
  from prog_store [OF P fd_words(2,3) [OF i, of 1] _ e(2), of w] e(1) obtain s' where
    s': "ustore32 (INDEX2FD (of_nat i) + 4) w s = Some s'" "prog s' q c" "moves {PPN e} c (own_map s c) s s'"
      "pm s' (PPN e) = (pm s (PPN e))(1 := w)"
    using fd_words [OF i, of 1] by auto
  have o: "own_map s' c = own_map s c" by (rule movesD(7) [OF s'(3) progD(6) [OF P]])
  show ?thesis using s' f e(1) by (intro exI [of _ s']) (simp add: fd_offset_def file_at_def fd_frame_def o)
qed

lemma advance_ok:
  assumes P: "prog s q c" and f: "file_at s c i off sz" and n: "n < 2 ^ 31"
  shows "\<exists>s'. advance (INDEX2FD (of_nat i)) (of_nat n) s = Some (of_nat n, s') \<and> prog s' q c \<and>
    moves {fd_frame s c i} c (own_map s c) s s' \<and> file_at s' c i (off + of_nat n) sz \<and> fd_frame s' c i = fd_frame s c i"
proof -
  have sn: "sint (of_nat n :: u32) = int n" using n by (simp add: signed_of_nat signed_take_bit_int_eq_self)
  show ?thesis
  proof (cases "n = 0")
    case True
    then show ?thesis using P f moves_weaken [OF moves_refl [OF P]] by (simp add: advance_def)
  next
    case False
    then show ?thesis using file_store_offset [OF P f, of "off + of_nat n"] file_words(4) [OF P f] sn
      by (auto simp: advance_def)
  qed
qed

section \<open>Reading and writing within the size\<close>

lemma within:
  fixes off sz :: u32
  assumes "unat off + n \<le> unat sz"
  shows "unat (of_nat n :: u32) = n" "unat (off + of_nat n) = unat off + n" "\<not> off > sz" "\<not> off + of_nat n > sz"
proof -
  have "unat sz < 2 ^ 32" using unsigned_less [of sz] by simp
  then have l: "unat off + n < 2 ^ 32" using assms by simp
  then show n: "unat (of_nat n :: u32) = n" by (intro unat_of_nat_u32) simp
  show u: "unat (off + of_nat n) = unat off + n" using l by (simp add: unat_plus_if' n)
  show "\<not> off > sz" "\<not> off + of_nat n > sz" using assms by (simp_all add: not_less word_le_nat_alt u)
qed

lemma small_size:
  fixes sz :: u32
  assumes "sz \<le> MAXFILESIZE" "m \<le> unat sz"
  shows "m < 2 ^ 31"
  using assms by (simp add: word_le_nat_alt mos_consts)

abbreviation file_data :: "nat \<Rightarrow> u32" where
  "file_data i \<equiv> INDEX2DATA (of_nat i)"

text \<open>The result of a transfer of \<open>n\<close> bytes from \<open>a\<close> to \<open>b\<close> that moves the offset of \<open>i\<close>.\<close>

definition transferred :: "kern \<Rightarrow> nat list \<Rightarrow> nat \<Rightarrow> nat \<Rightarrow> u32 \<Rightarrow> u32 \<Rightarrow> u32 \<Rightarrow> u32 \<Rightarrow> nat \<Rightarrow> kern \<Rightarrow> bool" where
  "transferred s q c i off sz b a n s' \<longleftrightarrow> prog s' q c \<and> file_at s' c i (off + of_nat n) sz \<and>
     moves (insert (fd_frame s c i) (pages s c b n)) c (own_map s c) s s' \<and>
     (\<forall>k < n. ubyte s' c (b + of_nat k) = ubyte s c (a + of_nat k))"

lemma copy_advance:
  assumes P: "prog s q c" and f: "file_at s c i off sz" and n: "n < 2 ^ 31"
    and d: "wregion s c b n" and r: "region s c a n" and dis: "pages s c b n \<inter> pages s c a n = {}"
    and fd: "fd_frame s c i \<notin> pages s c b n"
  shows "\<exists>s1 s'. umemcpy b a (of_nat n) s = Some s1 \<and>
    advance (INDEX2FD (of_nat i)) (of_nat n) s1 = Some (of_nat n, s') \<and> transferred s q c i off sz b a n s'"
proof -
  from copy_region [OF P d r dis] n obtain s1 where
    s1: "umemcpy b a (of_nat n) s = Some s1" "prog s1 q c" "moves (pages s c b n) c (own_map s c) s s1"
      "\<forall>k < n. ubyte s1 c (b + of_nat k) = ubyte s c (a + of_nat k)" by auto
  note f1 = moves_file [OF P s1(3) f fd]
  have o1: "own_map s1 c = own_map s c" by (rule movesD(7) [OF s1(3) progD(6) [OF P]])
  from advance_ok [OF s1(2) f1(1) n] f1(2) o1 obtain s2 where
    s2: "advance (INDEX2FD (of_nat i)) (of_nat n) s1 = Some (of_nat n, s2)" "prog s2 q c"
      "moves {fd_frame s c i} c (own_map s1 c) s1 s2" "file_at s2 c i (off + of_nat n) sz" by auto
  have "region s1 c b n" using d by (auto simp: region_def wregion_def o1)
  from moves_bytes [OF s1(2) s2(3) this] fd have "ubyte s2 c (b + of_nat k) = ubyte s1 c (b + of_nat k)" if "k < n" for k
    using that by (simp add: region_own(3) [OF o1])
  moreover have "moves (insert (fd_frame s c i) (pages s c b n)) c (own_map s c) s s2"
    using moves_grow [OF s1(3) s2(3) [unfolded o1] progD(6) [OF P] map_le_refl] by simp
  ultimately show ?thesis using s1 s2 by (auto simp: transferred_def)
qed

lemma write_within:
  assumes P: "prog s q c" and f: "file_at s c i off sz" and n: "unat off + n \<le> unat sz" "sz \<le> MAXFILESIZE"
    and d: "wregion s c (file_data i + off) n" and r: "region s c a n"
    and dis: "pages s c (file_data i + off) n \<inter> pages s c a n = {}" and fd: "fd_frame s c i \<notin> pages s c (file_data i + off) n"
  shows "\<exists>s'. write_fd u (of_nat i) a (of_nat n) s = Some (of_nat n, s') \<and> transferred s q c i off sz (file_data i + off) a n s'"
proof -
  note w = file_words [OF P f] and wi = within [OF n(1)]
  have i: "i < 32" using f by (simp add: file_at_def)
  have "n < 2 ^ 31" by (rule small_size [OF n(2)]) (use n(1) in simp)
  from copy_advance [OF P f this d r dis fd] obtain s1 s' where
    s': "umemcpy (file_data i + off) a (of_nat n) s = Some s1"
      "advance (INDEX2FD (of_nat i)) (of_nat n) s1 = Some (of_nat n, s')"
      "transferred s q c i off sz (file_data i + off) a n s'" by blast
  have "\<not> off + of_nat n > MAXFILESIZE" using wi(4) n(2) by simp
  then show ?thesis using s' wi(4)
    by (simp add: write_fd_def w file_write_def fd_addresses(9) [OF i] O_RDWR_def O_ACCMODE_def O_RDONLY_def negative_def)
qed

lemma read_within:
  assumes P: "prog s q c" and f: "file_at s c i off sz" and n: "unat off + n \<le> unat sz" "sz \<le> MAXFILESIZE"
    and d: "wregion s c b n" and r: "region s c (file_data i + off) n"
    and dis: "pages s c b n \<inter> pages s c (file_data i + off) n = {}" and fd: "fd_frame s c i \<notin> pages s c b n"
  shows "\<exists>s'. read_fd u (of_nat i) b (of_nat n) s = Some (of_nat n, s') \<and> transferred s q c i off sz b (file_data i + off) n s'"
proof -
  note w = file_words [OF P f] and wi = within [OF n(1)]
  have i: "i < 32" using f by (simp add: file_at_def)
  have "n < 2 ^ 31" by (rule small_size [OF n(2)]) (use n(1) in simp)
  from copy_advance [OF P f this d r dis fd] obtain s1 s' where
    s': "umemcpy b (file_data i + off) (of_nat n) s = Some s1"
      "advance (INDEX2FD (of_nat i)) (of_nat n) s1 = Some (of_nat n, s')"
      "transferred s q c i off sz b (file_data i + off) n s'" by blast
  then show ?thesis using wi(3,4)
    by (simp add: read_fd_def w file_read_def fd_addresses(9) [OF i] O_RDWR_def O_ACCMODE_def O_WRONLY_def)
qed

lemma transferredD:
  assumes P: "prog s q c" and t: "transferred s q c i off sz b a n s'"
  shows "prog s' q c" "file_at s' c i (off + of_nat n) sz" "own_map s' c = own_map s c" "fd_frame s' c i = fd_frame s c i"
    "\<And>k. k < n \<Longrightarrow> ubyte s' c (b + of_nat k) = ubyte s c (a + of_nat k)"
proof -
  note D = t [unfolded transferred_def]
  show "own_map s' c = own_map s c" using D movesD(7) progD(6) [OF P] by blast
  then show "fd_frame s' c i = fd_frame s c i" by (simp add: fd_frame_def)
qed (use t in \<open>simp_all add: transferred_def\<close>)

lemma wregion_region: "wregion s c a n \<Longrightarrow> region s c a n"
  by (auto simp: wregion_def region_def)

text \<open>A region within one page.\<close>

lemma page_region:
  assumes e: "own_map s c (vaddr a) = Some e" "e AND PTE_D \<noteq> 0" and a: "a < UTOP" "unat a mod 4096 + n \<le> 4096"
  shows "wregion s c a n" "pages s c a n \<subseteq> {PPN e}"
proof -
  have k: "unat a mod 4096 + k < 4096" if "k < n" for k using a(2) that by simp
  have v: "vaddr (a + of_nat k) = vaddr a" if "k < n" for k by (rule same_page(3) [OF k [OF that]])
  have "inj_on (\<lambda>k. uphys s c (a + of_nat k)) {..<n}"
    using e(1) same_page(4) [OF k] by (intro inj_onI) (simp add: uphys_def v)
  then show "wregion s c a n" using e same_page_user [OF k a(1)] by (simp add: wregion_def v)
  show "pages s c a n \<subseteq> {PPN e}" using e(1) by (auto simp: pages_def v)
qed

text \<open>A program that maps three new pages, for a descriptor, its data and a buffer.\<close>

definition grants :: "kern \<Rightarrow> nat list \<Rightarrow> nat \<Rightarrow> (nat \<times> nat) \<Rightarrow> nat \<Rightarrow> kern \<Rightarrow> bool" where
  "grants s q c x p s' \<longleftrightarrow> prog s' q c \<and> p < 2 ^ 20 \<and> maps s (dirs s) p = {} \<and> pm s' p = (\<lambda>_. 0) \<and>
     moves {} c ((own_map s c)(x \<mapsto> mkpte p PTE_DL)) s s'"

lemma grantsD:
  assumes P: "prog s q c" and g: "grants s q c x p s'" and x: "own_map s c x = None"
  shows "prog s' q c" "own_map s' c = (own_map s c)(x \<mapsto> mkpte p PTE_DL)"
    "own_map s c y = Some e \<Longrightarrow> PPN e \<noteq> p \<and> pm s' (PPN e) = pm s (PPN e)" "PPN (mkpte p PTE_DL) = p"
proof -
  note G = g [unfolded grants_def]
  show "prog s' q c" "PPN (mkpte p PTE_DL) = p" using G PPN_mkpte_DL by simp_all
  show "own_map s' c = (own_map s c)(x \<mapsto> mkpte p PTE_DL)"
    using movesD(7) progD(6) [OF P] G by blast
  assume "own_map s c y = Some e"
  note m = own_mapped [OF P this]
  show "PPN e \<noteq> p \<and> pm s' (PPN e) = pm s (PPN e)" using m G movesD(9) [of "{}" c _ s s' "PPN e"] by auto
qed

lemma grant_page:
  assumes P: "prog s q c" and va: "\<not> is_illegal_va va" and x: "own_map s c (vaddr va) = None" and f: "free_pages s (n + 2)"
  shows "\<exists>s' p. grants s q c (vaddr va) p s' \<and> free_pages s' n"
proof -
  have "free_pages s 2" by (rule free_pages_mono [OF f]) simp
  then show ?thesis using prog_alloc [OF P va PTE_DL_bits(1) x] f by (auto simp: grants_def)
qed

lemma fork_file:
  "\<exists>s. prog s [0, 2] 0 \<and> file_at s 0 0 1 4096 \<and> wregion s 0 (file_data 0 + 1) 2 \<and> wregion s 0 0x40008D 2 \<and>
     wregion s 0 0x60001000 2 \<and> ubyte s 0 0x40008D = Some 0x10 \<and> ubyte s 0 0x40008E = Some 0x40 \<and>
     pages s 0 (file_data 0 + 1) 2 \<inter> (pages s 0 0x40008D 2 \<union> pages s 0 0x60001000 2) = {} \<and>
     fd_frame s 0 0 \<notin> pages s 0 (file_data 0 + 1) 2 \<union> pages s 0 0x60001000 2"
proof -
  have v: "vaddr (INDEX2FD 0) = (383, 0)" "vaddr (INDEX2DATA 0) = (384, 0)" "vaddr (INDEX2DATA 0 + 1) = (384, 0)"
    "vaddr 0x60001000 = (384, 1)" "vaddr 0x40008D = (1, 0)"
    "\<not> is_illegal_va (INDEX2FD 0)" "\<not> is_illegal_va (INDEX2DATA 0)" "\<not> is_illegal_va 0x60001000"
    by (simp_all add: vaddr_def PDX_eq PTX_eq INDEX2FD_def INDEX2DATA_def is_illegal_va_def mos_consts)
  have o0: "own_map kern_fork 0 = [(1, 0) \<mapsto> mkpte 6 PTE_D, (1, 1) \<mapsto> mkpte 7 PTE_COW]" by (simp add: fork_as_map)
  have c: "own_map kern_fork 0 (383, 0) = None" by (simp add: fork_as_map)
  from grant_page [OF fork_prog v(6), of 5] fork_seven v(1) c obtain s1 p1 where
    g1: "grants kern_fork [0, 2] 0 (383, 0) p1 s1" and f1: "free_pages s1 5" by auto
  note G1 = grantsD [OF fork_prog g1 c]
  have c1: "own_map s1 0 (384, 0) = None" by (simp add: G1(2) fork_as_map)
  from grant_page [OF G1(1) v(7), of 3] f1 v(2) c1 obtain s2 p2 where
    g2: "grants s1 [0, 2] 0 (384, 0) p2 s2" and f2: "free_pages s2 3" by auto
  note G2 = grantsD [OF G1(1) g2 c1]
  have c2: "own_map s2 0 (384, 1) = None" by (simp add: G2(2) G1(2) fork_as_map)
  have "free_pages s2 (1 + 2)" by (rule free_pages_mono [OF f2]) simp
  from grant_page [OF G2(1) v(8) _ this] v(4) c2 obtain s3 p3 where g3: "grants s2 [0, 2] 0 (384, 1) p3 s3" by auto
  note G3 = grantsD [OF G2(1) g3 c2]
  note M3 = G3(2) [unfolded G2(2) G1(2) o0]
  have P: "PPN (mkpte p1 PTE_DL) = p1" "PPN (mkpte p2 PTE_DL) = p2" "PPN (mkpte p3 PTE_DL) = p3" "p1 < 2 ^ 20"
    using g1 g2 g3 PPN_mkpte_DL by (simp_all add: grants_def)
  have six: "own_map kern_fork 0 (1, 0) = Some (mkpte 6 PTE_D)" "own_map s1 0 (1, 0) = Some (mkpte 6 PTE_D)"
    "own_map s2 0 (1, 0) = Some (mkpte 6 PTE_D)" by (simp_all add: G1(2) G2(2) fork_as_map)
  have one: "own_map s1 0 (383, 0) = Some (mkpte p1 PTE_DL)" "own_map s2 0 (383, 0) = Some (mkpte p1 PTE_DL)"
    "own_map s2 0 (384, 0) = Some (mkpte p2 PTE_DL)" by (simp_all add: G1(2) G2(2))
  have d: "p1 \<noteq> p2" "p1 \<noteq> p3" "p2 \<noteq> p3" "p2 \<noteq> 6" "p3 \<noteq> 6" "p1 \<noteq> 6" "pm s3 p1 = (\<lambda>_. 0)" "pm s3 6 = fork_pm 6"
    using G1(3) [OF six(1)] G2(3) [OF six(2)] G3(3) [OF six(3)] G2(3) [OF one(1)] G3(3) [OF one(2)] G3(3) [OF one(3)] g1
    unfolding P fork_PPN by (auto simp: grants_def)
  from set_fd [OF G3(1) _ _ P(4), of 0 "dev_id devfile" O_RDWR] obtain s5 where
    s5: "prog s5 [0, 2] 0" "moves {p1} 0 (own_map s3 0) s3 s5" "pm s5 p1 = (\<lambda>_. 0)(0 := dev_id devfile, 2 := O_RDWR)"
    by (auto simp: M3 d)
  have o5: "own_map s5 0 = own_map s3 0" by (rule movesD(7) [OF s5(2) progD(6) [OF G3(1)]])
  from fd_store [OF s5(1) _ _ _ P(4), of 0 36 4096] obtain s6 where
    s6: "prog s6 [0, 2] 0" "moves {p1} 0 (own_map s3 0) s5 s6" "pm s6 p1 = (pm s5 p1)(36 := 4096)" by (auto simp: o5 M3)
  have o6: "own_map s6 0 = own_map s3 0" using movesD(7) [OF s6(2)] progD(6) [OF s5(1)] by simp
  from fd_store [OF s6(1) _ _ _ P(4), of 0 1 1] obtain s7 where
    s7: "prog s7 [0, 2] 0" "moves {p1} 0 (own_map s3 0) s6 s7" "pm s7 p1 = (pm s6 p1)(1 := 1)" by (auto simp: o6 M3)
  have o7: "own_map s7 0 = own_map s3 0" using movesD(7) [OF s7(2)] progD(6) [OF s6(1)] by simp
  have m7: "own_map s7 0 (383, 0) = Some (mkpte p1 PTE_DL)" "own_map s7 0 (384, 0) = Some (mkpte p2 PTE_DL)"
    "own_map s7 0 (384, 1) = Some (mkpte p3 PTE_DL)" "own_map s7 0 (1, 0) = Some (mkpte 6 PTE_D)"
    by (simp_all add: o7 M3)
  have w6: "pm s7 6 = fork_pm 6"
    using movesD(9) [OF s5(2), of 6] movesD(9) [OF s6(2), of 6] movesD(9) [OF s7(2), of 6]
      own_mapped [OF G3(1), of "(1, 0)"] own_mapped [OF s5(1), of "(1, 0)"] own_mapped [OF s6(1), of "(1, 0)"]
    by (simp add: d M3 o5 o6 fork_PPN)
  have ff: "fd_frame s7 0 0 = p1" by (simp add: fd_frame_def m7 P)
  have fa: "file_at s7 0 0 1 4096"
    using PTE_DL_bits(2) by (simp add: file_at_def ff m7 s5(3) s6(3) s7(3))
  have u: "unat (INDEX2DATA 0 + 1 :: u32) mod 4096 = 1" "unat (0x40008D :: u32) mod 4096 = 141"
    "unat (0x60001000 :: u32) mod 4096 = 0" "INDEX2DATA 0 + 1 < UTOP" "0x40008D < UTOP" "0x60001000 < UTOP" "vaddr 0x40008E = (1, 0)"
    by (simp_all add: vaddr_def PDX_eq PTX_eq INDEX2DATA_def mos_consts)
  have r1: "wregion s7 0 (file_data 0 + 1) 2" "pages s7 0 (file_data 0 + 1) 2 \<subseteq> {p2}"
    using page_region [of s7 0 "file_data 0 + 1" "mkpte p2 PTE_DL" 2] PTE_DL_bits(2) m7 u v P by simp_all
  have r2: "wregion s7 0 0x40008D 2" "pages s7 0 0x40008D 2 \<subseteq> {6}"
    using page_region [of s7 0 "0x40008D" "mkpte 6 PTE_D" 2] mkpte_writable m7 u v fork_PPN by simp_all
  have r3: "wregion s7 0 0x60001000 2" "pages s7 0 0x60001000 2 \<subseteq> {p3}"
    using page_region [of s7 0 "0x60001000" "mkpte p3 PTE_DL" 2] PTE_DL_bits(2) m7 u v P by simp_all
  have b: "ubyte s7 0 0x40008D = Some 0x10" "ubyte s7 0 0x40008E = Some 0x40"
    using u v m7 by (simp_all add: ubyte_def uphys_def fork_PPN page_byte_def w6 fork_pm_def word_byte_def drop_bit_eq_div)
  show ?thesis using s7(1) fa r1 r2 r3 b d by (intro exI [of _ s7]) (auto simp: ff)
qed

text \<open>
  C9. Round trip of a file. A program writes \<open>n\<close> bytes at \<open>a\<close> to an open file, within its size,
  and seeks back. Reading \<open>n\<close> bytes then gives them at \<open>b\<close>. All three calls succeed, the offset is
  behind the bytes, and the file has its size.
\<close>

theorem file_write_read:
  assumes P: "prog s q c" and f: "file_at s c i off sz" and n: "unat off + n \<le> unat sz" "sz \<le> MAXFILESIZE"
    and d: "wregion s c (file_data i + off) n" and a: "region s c a n" and b: "wregion s c b n"
    and ap: "pages s c (file_data i + off) n \<inter> (pages s c a n \<union> pages s c b n) = {}"
    and fd: "fd_frame s c i \<notin> pages s c (file_data i + off) n \<union> pages s c b n"
  shows "\<exists>s1 s2 s3. write_fd u (of_nat i) a (of_nat n) s = Some (of_nat n, s1) \<and>
    seek (of_nat i) off s1 = Some (0, s2) \<and> read_fd u (of_nat i) b (of_nat n) s2 = Some (of_nat n, s3) \<and>
    file_at s3 c i (off + of_nat n) sz \<and> (\<forall>k < n. ubyte s3 c (b + of_nat k) = ubyte s c (a + of_nat k))"
proof -
  let ?d = "file_data i + off"
  from write_within [OF P f n d a, of u] ap fd obtain s1 where
    s1: "write_fd u (of_nat i) a (of_nat n) s = Some (of_nat n, s1)" "transferred s q c i off sz ?d a n s1" by auto
  note t1 = transferredD [OF P s1(2)]
  from file_store_offset [OF t1(1,2), of off] t1(4) obtain s2 where
    s2: "ustore32 (fd_offset (INDEX2FD (of_nat i))) off s1 = Some s2" "prog s2 q c"
      "moves {fd_frame s c i} c (own_map s1 c) s1 s2" "file_at s2 c i off sz" "fd_frame s2 c i = fd_frame s c i" by auto
  have o2: "own_map s2 c = own_map s c" using movesD(7) [OF s2(3) progD(6) [OF t1(1)]] t1(3) by simp
  note r2 = region_own [OF o2] and r1 = region_own [OF t1(3)]
  from read_within [OF s2(2,4) n, of b u] d b ap fd obtain s3 where
    s3: "read_fd u (of_nat i) b (of_nat n) s2 = Some (of_nat n, s3)" "transferred s2 q c i off sz b ?d n s3"
    using wregion_region [OF d] by (auto simp: r2 s2(5))
  note t3 = transferredD [OF s2(2) s3(2)]
  have "ubyte s2 c (?d + of_nat k) = ubyte s1 c (?d + of_nat k)" if "k < n" for k
    by (rule moves_bytes [OF t1(1) s2(3) _ _ that]) (use wregion_region [OF d] fd in \<open>simp_all add: r1\<close>)
  then show ?thesis using s1(1) s2(1) s3(1) t1(5) t3(2,5) file_words(1) [OF t1(1,2)] by (simp add: seek_def)
qed

theorem file_write_read_witness:
  "\<forall>u. \<exists>s s1 s2 s3. file_at s 0 0 1 4096 \<and> write_fd u 0 0x40008D 2 s = Some (2, s1) \<and> seek 0 1 s1 = Some (0, s2) \<and>
     read_fd u 0 0x60001000 2 s2 = Some (2, s3) \<and> file_at s3 0 0 3 4096 \<and>
     ubyte s3 0 0x60001000 = Some 0x10 \<and> ubyte s3 0 0x60001001 = Some 0x40"
proof
  fix u
  from fork_file obtain s where s: "prog s [0, 2] 0" "file_at s 0 0 1 4096" "wregion s 0 (file_data 0 + 1) 2"
    "wregion s 0 0x40008D 2" "wregion s 0 0x60001000 2" "ubyte s 0 0x40008D = Some 0x10" "ubyte s 0 0x40008E = Some 0x40"
    "pages s 0 (file_data 0 + 1) 2 \<inter> (pages s 0 0x40008D 2 \<union> pages s 0 0x60001000 2) = {}"
    "fd_frame s 0 0 \<notin> pages s 0 (file_data 0 + 1) 2 \<union> pages s 0 0x60001000 2" by blast
  have n: "unat (1 :: u32) + 2 \<le> unat (4096 :: u32)" "(4096 :: u32) \<le> MAXFILESIZE" by (simp_all add: mos_consts)
  from file_write_read [OF s(1,2) n _ wregion_region [OF s(4)] s(5), of u] s(3,8,9) obtain s1 s2 s3 where
    r: "write_fd u 0 0x40008D 2 s = Some (2, s1)" "seek 0 1 s1 = Some (0, s2)" "read_fd u 0 0x60001000 2 s2 = Some (2, s3)"
      "file_at s3 0 0 3 4096" "\<forall>k < 2. ubyte s3 0 (0x60001000 + of_nat k) = ubyte s 0 (0x40008D + of_nat k)" by auto
  have "ubyte s3 0 0x60001000 = Some 0x10" "ubyte s3 0 0x60001001 = Some 0x40"
    using r(5) [rule_format, of 0] r(5) [rule_format, of 1] s(6,7) by simp_all
  then show "\<exists>s s1 s2 s3. file_at s 0 0 1 4096 \<and> write_fd u 0 0x40008D 2 s = Some (2, s1) \<and> seek 0 1 s1 = Some (0, s2) \<and>
     read_fd u 0 0x60001000 2 s2 = Some (2, s3) \<and> file_at s3 0 0 3 4096 \<and>
     ubyte s3 0 0x60001000 = Some 0x10 \<and> ubyte s3 0 0x60001001 = Some 0x40" using r s(2) by blast
qed

end
