(* ===== verification/Spawn.thy ===== *)
theory Spawn
  imports Fd Elf
begin

unbundle bit_operations_syntax

text \<open>
  Starting a program from a file: \<^verbatim>\<open>user/lib/spawn.c\<close>. Strings and argument arrays are in the memory
  of the caller. The addresses of the local arrays of \<^verbatim>\<open>spawn\<close>, which the compiler places on the
  stack, are the parameter \<open>locals\<close>.
\<close>

definition UTEMP_END :: u32 where [mos_consts]: "UTEMP_END = UTEMP + PAGE_SIZE"

section \<open>The stack of the new program\<close>

text \<open>The number of arguments, and the space for their strings.\<close>

partial_function (option) count_args :: "u32 \<Rightarrow> u32 \<Rightarrow> u32 \<Rightarrow> kern \<Rightarrow> ((u32 \<times> u32) \<times> kern) option" where
  "count_args argv argc tot s =
     (case uload32 (argv + 4 * argc) s of
        None \<Rightarrow> None
      | Some (p, s) \<Rightarrow>
          if p = 0 then Some ((argc, tot), s)
          else (case ustrlen p 0 s of
                  None \<Rightarrow> None
                | Some (n, s) \<Rightarrow> count_args argv (argc + 1) (tot + (n + 1)) s))"

text \<open>One string is copied; its length is computed anew for every character. The result is the address behind the copy.\<close>

partial_function (option) copy_chars :: "u32 \<Rightarrow> u32 \<Rightarrow> u32 \<Rightarrow> u32 \<Rightarrow> kern \<Rightarrow> (u32 \<times> kern) option" where
  "copy_chars arg argv_temp ctemp j s =
     (case uload32 arg s of
        None \<Rightarrow> None
      | Some (p, s) \<Rightarrow>
          (case ustrlen p 0 s of
             None \<Rightarrow> None
           | Some (n, s) \<Rightarrow>
               if j < n
               then (case uload8 argv_temp s of
                       None \<Rightarrow> None
                     | Some (b, s) \<Rightarrow>
                         (case ustore8 ctemp b s of
                            None \<Rightarrow> None
                          | Some s \<Rightarrow> copy_chars arg (argv_temp + 1) (ctemp + 1) (j + 1) s))
               else Some (ctemp, s)))"

primrec copy_args :: "u32 \<Rightarrow> nat list \<Rightarrow> u32 \<Rightarrow> kern \<Rightarrow> kern option" where
  "copy_args argv [] ctemp s = Some s"
| "copy_args argv (i # is) ctemp s = do {
     (p, s) \<leftarrow> uload32 (argv + 4 * of_nat i) s;
     (ctemp, s) \<leftarrow> copy_chars (argv + 4 * of_nat i) p ctemp 0 s;
     s \<leftarrow> ustore8 ctemp 0 s;
     copy_args argv is (ctemp + 1) s
   }"

text \<open>The pointers to the strings; the result is the address behind the last string.\<close>

primrec put_pointers :: "u32 \<Rightarrow> u32 \<Rightarrow> nat list \<Rightarrow> u32 \<Rightarrow> kern \<Rightarrow> (u32 \<times> kern) option" where
  "put_pointers argv args [] ctemp s = Some (ctemp, s)"
| "put_pointers argv args (i # is) ctemp s = do {
     s \<leftarrow> ustore32 (args + 4 * of_nat i) ctemp s;
     (p, s) \<leftarrow> uload32 (argv + 4 * of_nat i) s;
     (n, s) \<leftarrow> ustrlen p 0 s;
     put_pointers argv args is (ctemp + (n + 1)) s
   }"

text \<open>The words of the page, from the strings to the two arguments of \<^verbatim>\<open>main\<close>. The result is the stack pointer.\<close>

definition fill_stack :: "u32 \<Rightarrow> u32 \<Rightarrow> u32 \<Rightarrow> kern \<Rightarrow> (u32 \<times> kern) option" where
  "fill_stack argv argc tot s = (
     let strings = UTEMP_END - tot;
         args = UTEMP_END - ROUND tot 4 - 4 * (argc + 1);
         there = (\<lambda>a. USTACKTOP - UTEMP - PAGE_SIZE + a)
     in do {
       s \<leftarrow> copy_args argv [0..<unat argc] strings s;
       (ctemp, s) \<leftarrow> put_pointers argv args [0..<unat argc] (there strings) s;
       s \<leftarrow> ustore32 (args + 4 * argc) (ctemp - 1) s;
       s \<leftarrow> ustore32 (args - 4) (there args) s;
       s \<leftarrow> ustore32 (args - 8) argc s;
       Some (there (args - 8), s)
     })"

definition stack_error :: "u32 \<Rightarrow> kern \<Rightarrow> ((u32 + u32) \<times> kern) option" where
  "stack_error r s = do { (_, s) \<leftarrow> syscall_mem_unmap 0 UTEMP s; Some (Inl r, s) }"

definition init_stack :: "u32 \<Rightarrow> u32 \<Rightarrow> kern \<Rightarrow> ((u32 + u32) \<times> kern) option" where
  "init_stack child argv s = do {
     ((argc, tot), s) \<leftarrow> count_args argv 0 0 s;
     if ROUND tot 4 + 4 * (argc + 3) > PAGE_SIZE then Some (Inl (err_word E_NO_MEM), s)
     else do {
       (r, s) \<leftarrow> syscall_mem_alloc 0 UTEMP PTE_D s;
       if negative r then Some (Inl r, s)
       else do {
         (sp, s) \<leftarrow> fill_stack argv argc tot s;
         (r, s) \<leftarrow> syscall_mem_map 0 UTEMP child (USTACKTOP - PAGE_SIZE) PTE_D s;
         if negative r then stack_error r s
         else do {
           (r, s) \<leftarrow> syscall_mem_unmap 0 UTEMP s;
           if negative r then stack_error r s else Some (Inr sp, s)
         }
       }
     }
   }"

section \<open>Loading a segment\<close>

definition spawn_mapper :: "u32 \<Rightarrow> u32 \<Rightarrow> u32 \<Rightarrow> u32 \<Rightarrow> u32 option \<Rightarrow> u32 \<Rightarrow> kern \<Rightarrow> (u32 \<times> kern) option" where
  "spawn_mapper child va offset perm src len s = do {
     (r, s) \<leftarrow> syscall_mem_alloc child va perm s;
     if r \<noteq> 0 then Some (r, s)
     else (case src of
       None \<Rightarrow> Some (0, s)
     | Some src \<Rightarrow> do {
         (r, s) \<leftarrow> syscall_mem_map child va 0 UTEMP (perm OR PTE_D) s;
         if r \<noteq> 0 then do { (_, s) \<leftarrow> syscall_mem_unmap child va s; Some (r, s) }
         else do {
           s \<leftarrow> umemcpy (UTEMP + offset) src len s;
           syscall_mem_unmap 0 UTEMP s
         }
       })
   }"

text \<open>
  \<^verbatim>\<open>elf_load_seg\<close> with this mapper: the bytes of the segment are at the address \<open>bin\<close> of the caller.
  \<open>Elf\<close> has the same function for an image that is a list of bytes.
\<close>

partial_function (option) spawn_file :: "u32 \<Rightarrow> u32 \<Rightarrow> u32 \<Rightarrow> u32 \<Rightarrow> u32 \<Rightarrow> u32 \<Rightarrow> kern \<Rightarrow> ((u32 + u32) \<times> kern) option" where
  "spawn_file child va perm bin bin_size i s =
     (if i < bin_size then
        (case spawn_mapper child (va + i) 0 perm (Some (bin + i)) (min (bin_size - i) PAGE_SIZE) s of
           None \<Rightarrow> None
         | Some (r, s) \<Rightarrow> if r \<noteq> 0 then Some (Inl r, s) else spawn_file child va perm bin bin_size (i + PAGE_SIZE) s)
      else Some (Inr i, s))"

partial_function (option) spawn_zero :: "u32 \<Rightarrow> u32 \<Rightarrow> u32 \<Rightarrow> u32 \<Rightarrow> u32 \<Rightarrow> kern \<Rightarrow> (u32 \<times> kern) option" where
  "spawn_zero child va perm sgsize i s =
     (if i < sgsize then
        (case spawn_mapper child (va + i) 0 perm None (min (sgsize - i) PAGE_SIZE) s of
           None \<Rightarrow> None
         | Some (r, s) \<Rightarrow> if r \<noteq> 0 then Some (r, s) else spawn_zero child va perm sgsize (i + PAGE_SIZE) s)
      else Some (0, s))"

definition spawn_seg :: "u32 \<Rightarrow> Elf32_Phdr \<Rightarrow> u32 \<Rightarrow> kern \<Rightarrow> (u32 \<times> kern) option" where
  "spawn_seg child ph bin s = (
     let va = p_vaddr ph;
         bin_size = p_filesz ph;
         perm = seg_perm ph;
         offset = va - ROUNDDOWN va PAGE_SIZE;
         first = min bin_size (PAGE_SIZE - offset)
     in do {
       (r, s) \<leftarrow> (if offset \<noteq> 0 then spawn_mapper child va offset perm (Some bin) first s else Some (0, s));
       if r \<noteq> 0 then Some (r, s)
       else do {
         (r, s) \<leftarrow> spawn_file child va perm bin bin_size (if offset \<noteq> 0 then first else 0) s;
         case r of
           Inl e \<Rightarrow> Some (e, s)
         | Inr i \<Rightarrow> spawn_zero child va perm (p_memsz ph) i s
       }
     })"

section \<open>\<^verbatim>\<open>spawn\<close>\<close>

record locals =
  prog_b :: u32
  elfbuf :: u32
  tf_local :: u32

primrec uloads8 :: "u32 \<Rightarrow> nat \<Rightarrow> kern \<Rightarrow> (u8 list \<times> kern) option" where
  "uloads8 a 0 s = Some ([], s)"
| "uloads8 a (Suc n) s = do {
     (b, s) \<leftarrow> uload8 a s;
     (bs, s) \<leftarrow> uloads8 (a + 1) n s;
     Some (b # bs, s)
   }"

definition uload16 :: "u32 \<Rightarrow> kern \<Rightarrow> (u16 \<times> kern) option" where
  "uload16 a s = (if a < ULIM then kload16 a s else None)"

text \<open>
  The program is looked for under its name, and then with the extension \<^verbatim>\<open>.b\<close>. The two characters
  overwrite the terminating zero of the copy, and no other is written behind them.
\<close>

definition spawn_open :: "uenv \<Rightarrow> locals \<Rightarrow> u32 \<Rightarrow> kern \<Rightarrow> (u32 \<times> kern) option" where
  "spawn_open u l prog s = do {
     (fd, s) \<leftarrow> open_file u prog O_RDONLY s;
     if negative fd then do {
       s \<leftarrow> ustrcpy (prog_b l) prog s;
       (i, s) \<leftarrow> ustrlen (prog_b l) 0 s;
       s \<leftarrow> ustore8 (prog_b l + i) 0x2E s;
       s \<leftarrow> ustore8 (prog_b l + (i + 1)) 0x62 s;
       open_file u (prog_b l) O_RDONLY s
     }
     else Some (fd, s)
   }"

text \<open>
  The program headers are read into the buffer that holds the file header, and the loop reads
  \<^verbatim>\<open>e_phnum\<close> (offset 44) and \<^verbatim>\<open>e_phentsize\<close> (offset 42) from that buffer each time.
\<close>

definition spawn_phdr :: "uenv \<Rightarrow> locals \<Rightarrow> u32 \<Rightarrow> u32 \<Rightarrow> u32 \<Rightarrow> kern \<Rightarrow> (u32 \<times> kern) option" where
  "spawn_phdr u l fd child ph_off s = do {
     (r, s) \<leftarrow> seek fd ph_off s;
     if negative r then Some (r, s)
     else do {
       (n, s) \<leftarrow> uload16 (elfbuf l + 42) s;
       (r, s) \<leftarrow> read_fd u fd (elfbuf l) (ucast n) s;
       (n, s) \<leftarrow> uload16 (elfbuf l + 42) s;
       if r \<noteq> ucast n \<and> \<not> negative r then Some (err_word E_NOT_EXEC, s)
       else do {
         (bs, s) \<leftarrow> uloads8 (elfbuf l) 32 s;
         ph \<leftarrow> elf_phdr bs 0;
         if p_type ph = PT_LOAD then do {
           (r, s) \<leftarrow> read_map fd (p_offset ph) s;
           case r of
             Inl e \<Rightarrow> Some (e, s)
           | Inr bin \<Rightarrow> spawn_seg child ph bin s
         }
         else Some (0, s)
       }
     }
   }"

partial_function (option) spawn_phdrs :: "uenv \<Rightarrow> locals \<Rightarrow> u32 \<Rightarrow> u32 \<Rightarrow> nat \<Rightarrow> u32 \<Rightarrow> kern \<Rightarrow> (u32 \<times> kern) option" where
  "spawn_phdrs u l fd child idx ph_off s =
     (case uload16 (elfbuf l + 44) s of
        None \<Rightarrow> None
      | Some (phnum, s) \<Rightarrow>
          if idx < unat phnum
          then (case spawn_phdr u l fd child ph_off s of
                  None \<Rightarrow> None
                | Some (r, s) \<Rightarrow>
                    if r \<noteq> 0 then Some (r, s)
                    else (case uload16 (elfbuf l + 42) s of
                            None \<Rightarrow> None
                          | Some (n, s) \<Rightarrow> spawn_phdrs u l fd child (idx + 1) (ph_off + ucast n) s))
          else Some (0, s))"

text \<open>The pages with \<^verbatim>\<open>PTE_LIBRARY\<close> are shared with the child.\<close>

text \<open>The message is "spawn: syscall_mem_map %x %x: %d" and a line feed.\<close>

definition spawn_map_text :: "u8 list" where
  "spawn_map_text = [0x73, 0x70, 0x61, 0x77, 0x6E, 0x3A, 0x20, 0x73, 0x79, 0x73, 0x63, 0x61, 0x6C, 0x6C, 0x5F, 0x6D,
     0x65, 0x6D, 0x5F, 0x6D, 0x61, 0x70, 0x20, 0x25, 0x78, 0x20, 0x25, 0x78, 0x3A, 0x20, 0x25, 0x64, 0x0A]"

definition share_page :: "u32 \<Rightarrow> nat \<Rightarrow> kern \<Rightarrow> (u32 \<times> kern) option" where
  "share_page child pn s = do {
     (pte, s) \<leftarrow> vpt pn s;
     let perm = pte AND 0xfff;
     if perm AND PTE_V \<noteq> 0 \<and> perm AND PTE_LIBRARY \<noteq> 0 then do {
       let va = push_bit 12 (of_nat pn);
       (r, s) \<leftarrow> syscall_mem_map 0 va child va perm s;
       if negative r then do { s \<leftarrow> debugf spawn_map_text [va, child, r] s; Some (r, s) }
       else Some (0, s)
     }
     else Some (0, s)
   }"

primrec share_ptes :: "u32 \<Rightarrow> nat \<Rightarrow> nat list \<Rightarrow> kern \<Rightarrow> (u32 \<times> kern) option" where
  "share_ptes child pdeno [] s = Some (0, s)"
| "share_ptes child pdeno (j # js) s = do {
     (r, s) \<leftarrow> share_page child (pdeno * 1024 + j) s;
     if r \<noteq> 0 then Some (r, s) else share_ptes child pdeno js s
   }"

primrec share_pdes :: "u32 \<Rightarrow> nat list \<Rightarrow> kern \<Rightarrow> (u32 \<times> kern) option" where
  "share_pdes child [] s = Some (0, s)"
| "share_pdes child (i # is) s = do {
     (pde, s) \<leftarrow> vpd i s;
     (r, s) \<leftarrow> (if pde AND PTE_V = 0 then Some (0, s) else share_ptes child i [0..<1024] s);
     if r \<noteq> 0 then Some (r, s) else share_pdes child is s
   }"

text \<open>The message is "spawn: syscall_set_env_status %x: %d" and a line feed.\<close>

definition spawn_status_text :: "u8 list" where
  "spawn_status_text = [0x73, 0x70, 0x61, 0x77, 0x6E, 0x3A, 0x20, 0x73, 0x79, 0x73, 0x63, 0x61, 0x6C, 0x6C, 0x5F, 0x73,
     0x65, 0x74, 0x5F, 0x65, 0x6E, 0x76, 0x5F, 0x73, 0x74, 0x61, 0x74, 0x75, 0x73, 0x20, 0x25, 0x78, 0x3A, 0x20,
     0x25, 0x64, 0x0A]"

text \<open>The labels \<^verbatim>\<open>err\<close>, \<^verbatim>\<open>err1\<close> and \<^verbatim>\<open>err2\<close>.\<close>

definition spawn_err :: "uenv \<Rightarrow> u32 \<Rightarrow> u32 \<Rightarrow> kern \<Rightarrow> (u32 \<times> kern) option" where
  "spawn_err u fd r s = do { (_, s) \<leftarrow> close u fd s; Some (r, s) }"

definition spawn_err1 :: "uenv \<Rightarrow> u32 \<Rightarrow> u32 \<Rightarrow> u32 \<Rightarrow> kern \<Rightarrow> (u32 \<times> kern) option" where
  "spawn_err1 u child fd r s = do { (_, s) \<leftarrow> syscall_env_destroy (others u) child s; spawn_err u fd r s }"

definition spawn_err2 :: "uenv \<Rightarrow> u32 \<Rightarrow> u32 \<Rightarrow> kern \<Rightarrow> (u32 \<times> kern) option" where
  "spawn_err2 u child r s = do { (_, s) \<leftarrow> syscall_env_destroy (others u) child s; Some (r, s) }"

text \<open>Registers, shared pages and status of the loaded child.\<close>

definition spawn_start :: "uenv \<Rightarrow> locals \<Rightarrow> u32 \<Rightarrow> u32 \<Rightarrow> u32 \<Rightarrow> kern \<Rightarrow> (u32 \<times> kern) option" where
  "spawn_start u l child entrypoint sp s = do {
     let tf = env_tf (envs s (ENVX child));
     let tf = tf\<lparr>cp0_epc := entrypoint, regs := (regs tf)(29 := sp)\<rparr>;
     s \<leftarrow> kstores32 (tf_local l) (tf_words tf) s;
     (r, s) \<leftarrow> syscall_set_trapframe child (tf_local l) s;
     if r \<noteq> 0 then spawn_err2 u child r s
     else do {
       (r, s) \<leftarrow> share_pdes child [0..<PDX USTACKTOP + 1] s;
       if r \<noteq> 0 then spawn_err2 u child r s
       else do {
         (r, s) \<leftarrow> syscall_set_env_status child ENV_RUNNABLE s;
         if negative r then do {
           s \<leftarrow> debugf spawn_status_text [child, r] s;
           spawn_err2 u child r s
         }
         else Some (child, s)
       }
     }
   }"

text \<open>\<^verbatim>\<open>child\<close> is unsigned, so that the test for an error of \<^verbatim>\<open>syscall_exofork\<close> never succeeds.\<close>

definition spawn :: "uenv \<Rightarrow> locals \<Rightarrow> u32 \<Rightarrow> u32 \<Rightarrow> kern \<Rightarrow> (u32 \<times> kern) option" where
  "spawn u l prog argv s = do {
     (fd, s) \<leftarrow> spawn_open u l prog s;
     if negative fd then Some (fd, s)
     else do {
       (r, s) \<leftarrow> readn u fd (elfbuf l) 52 s;
       if r \<noteq> 52 then spawn_err u fd (if negative r then r else err_word E_NOT_EXEC) s
       else do {
         (bs, s) \<leftarrow> uloads8 (elfbuf l) 52 s;
         case elf_from bs of
           None \<Rightarrow> spawn_err u fd (err_word E_NOT_EXEC) s
         | Some ehdr \<Rightarrow> do {
             (child, s) \<leftarrow> syscall_exofork s;
             if child < 0 then spawn_err u fd child s
             else do {
               (r, s) \<leftarrow> init_stack child argv s;
               case r of
                 Inl r \<Rightarrow> spawn_err1 u child fd r s
               | Inr sp \<Rightarrow> do {
                   (r, s) \<leftarrow> spawn_phdrs u l fd child 0 (e_phoff ehdr) s;
                   if r \<noteq> 0 then spawn_err1 u child fd r s
                   else do {
                     (_, s) \<leftarrow> close u fd s;
                     spawn_start u l child (e_entry ehdr) sp s
                   }
                 }
             }
           }
       }
     }
   }"

text \<open>\<^verbatim>\<open>args\<close> is the address of the first of the variable arguments.\<close>

definition spawnl :: "uenv \<Rightarrow> locals \<Rightarrow> u32 \<Rightarrow> u32 \<Rightarrow> kern \<Rightarrow> (u32 \<times> kern) option" where
  "spawnl u l prog args s = spawn u l prog args s"

end
