(* ===== verification/Fsformat.thy ===== *)
theory Fsformat
  imports Fs
begin

unbundle bit_operations_syntax

text \<open>
  The tool that makes disk images: \<^verbatim>\<open>tools/fsformat.c\<close>, which runs on a little-endian host. The
  array \<^verbatim>\<open>disk\<close> is a function from block numbers to bytes and types; an access outside of the array
  is \<open>None\<close>, and so are a failed assertion and an exit without an image. A \<^verbatim>\<open>struct File *\<close> points to
  the root in the super block or into a block of the disk.

  The files of the host are the parameter: a tree with the entries of each directory in the order of
  \<^verbatim>\<open>readdir\<close>.
\<close>

datatype node =
    Reg "u8 list"
  | Dir "(u8 list \<times> node) list"
  | Closed
  | Special "u8 list"

text \<open>
  \<open>Closed\<close> is a directory that \<^verbatim>\<open>opendir\<close> refuses, \<open>Special\<close> a file that is neither a directory nor a
  regular file, with the bytes that can be read from it.
\<close>

section \<open>State\<close>

definition NBLOCK :: nat where "NBLOCK = 1024"

datatype btype = BLOCK_FREE | BLOCK_BOOT | BLOCK_BMAP | BLOCK_SUPER | BLOCK_DATA | BLOCK_FILE | BLOCK_INDEX

type_synonym bytes = "nat \<Rightarrow> u8"

record image =
  blk_data :: "nat \<Rightarrow> bytes"
  blk_type :: "nat \<Rightarrow> btype"
  nbitblock :: nat
  nextbno :: nat
  super_img :: bytes

definition image_zero :: image where
  "image_zero = \<lparr>blk_data = (\<lambda>_ _. 0), blk_type = (\<lambda>_. BLOCK_FREE), nbitblock = 0, nextbno = 0, super_img = (\<lambda>_. 0)\<rparr>"

definition get32 :: "bytes \<Rightarrow> nat \<Rightarrow> u32" where
  "get32 b k = ucast (b k) OR push_bit 8 (ucast (b (k + 1))) OR push_bit 16 (ucast (b (k + 2)))
     OR push_bit 24 (ucast (b (k + 3)))"

definition put32 :: "nat \<Rightarrow> u32 \<Rightarrow> bytes \<Rightarrow> bytes" where
  "put32 k w b = b(k := ucast w, k + 1 := ucast (drop_bit 8 w), k + 2 := ucast (drop_bit 16 w),
     k + 3 := ucast (drop_bit 24 w))"

definition put_list :: "nat \<Rightarrow> u8 list \<Rightarrow> bytes \<Rightarrow> bytes" where
  "put_list k bs b = (\<lambda>i. if k \<le> i \<and> i < k + length bs then bs ! (i - k) else b i)"

definition upd_block :: "nat \<Rightarrow> (bytes \<Rightarrow> bytes) \<Rightarrow> image \<Rightarrow> image" where
  "upd_block n f im = im\<lparr>blk_data := (blk_data im)(n := f (blk_data im n))\<rparr>"

text \<open>Files: the root begins behind the two words of the super block.\<close>

datatype fptr = Root | Slot nat nat

primrec file_bytes :: "image \<Rightarrow> fptr \<Rightarrow> bytes" where
  "file_bytes im Root = (\<lambda>k. super_img im (8 + k))"
| "file_bytes im (Slot n off) = (\<lambda>k. blk_data im n (off + k))"

primrec upd_file :: "fptr \<Rightarrow> (nat \<Rightarrow> bytes \<Rightarrow> bytes) \<Rightarrow> image \<Rightarrow> image" where
  "upd_file Root f im = im\<lparr>super_img := f 8 (super_img im)\<rparr>"
| "upd_file (Slot n off) f im = upd_block n (f off) im"

definition OFF_SIZE :: nat where "OFF_SIZE = 128"
definition OFF_TYPE :: nat where "OFF_TYPE = 132"
definition OFF_DIRECT :: nat where "OFF_DIRECT = 136"
definition OFF_INDIRECT :: nat where "OFF_INDIRECT = 176"

definition fget :: "fptr \<Rightarrow> nat \<Rightarrow> image \<Rightarrow> u32" where
  "fget p k im = get32 (file_bytes im p) k"

definition fput :: "fptr \<Rightarrow> nat \<Rightarrow> u32 \<Rightarrow> image \<Rightarrow> image" where
  "fput p k w = upd_file p (\<lambda>off. put32 (off + k) w)"

section \<open>Byte order\<close>

definition reverse :: "nat \<Rightarrow> bytes \<Rightarrow> bytes" where
  "reverse k b = (let y = get32 b k in
     b(k + 3 := ucast (y AND 0xFF), k + 2 := ucast (drop_bit 8 y AND 0xFF),
       k + 1 := ucast (drop_bit 16 y AND 0xFF), k := ucast (drop_bit 24 y AND 0xFF)))"

definition reverse_file :: "nat \<Rightarrow> bytes \<Rightarrow> bytes" where
  "reverse_file f b = (
     let b = reverse (f + OFF_SIZE) b; b = reverse (f + OFF_TYPE) b;
         b = fold (\<lambda>i. reverse (f + OFF_DIRECT + 4 * i)) [0..<10] b
     in reverse (f + OFF_INDIRECT) b)"

primrec reverse_files :: "nat list \<Rightarrow> bytes \<Rightarrow> bytes" where
  "reverse_files [] b = b"
| "reverse_files (i # is) b = (if b (256 * i) = 0 then b else reverse_files is (reverse_file (256 * i) b))"

definition reverse_block :: "btype \<Rightarrow> bytes \<Rightarrow> bytes" where
  "reverse_block t b = (case t of
     BLOCK_SUPER \<Rightarrow> reverse_file 8 (reverse 4 (reverse 0 b))
   | BLOCK_FILE \<Rightarrow> reverse_files [0..<FILE2BLK] b
   | BLOCK_INDEX \<Rightarrow> fold (\<lambda>i. reverse (4 * i)) [0..<1024] b
   | BLOCK_BMAP \<Rightarrow> fold (\<lambda>i. reverse (4 * i)) [0..<1024] b
   | _ \<Rightarrow> b)"

section \<open>The empty disk\<close>

definition init_disk :: "image \<Rightarrow> image" where
  "init_disk im = (
     let bits = 32768;
         im = im\<lparr>blk_type := (blk_type im)(0 := BLOCK_BOOT)\<rparr>;
         im = im\<lparr>nbitblock := (NBLOCK + bits - 1) div bits\<rparr>;
         im = im\<lparr>nextbno := 2 + nbitblock im\<rparr>;
         im = fold (\<lambda>i im. im\<lparr>blk_type := (blk_type im)(2 + i := BLOCK_BMAP)\<rparr>) [0..<nbitblock im] im;
         im = fold (\<lambda>i. upd_block (2 + i) (put_list 0 (replicate 4096 0xff))) [0..<nbitblock im] im;
         diff = NBLOCK mod bits div 8;
         im = (if NBLOCK \<noteq> nbitblock im * bits
               then upd_block (2 + (nbitblock im - 1)) (put_list diff (replicate (4096 - diff) 0)) im else im);
         im = im\<lparr>blk_type := (blk_type im)(1 := BLOCK_SUPER)\<rparr>;
         im = im\<lparr>super_img := put32 0 FS_MAGIC (super_img im)\<rparr>;
         im = im\<lparr>super_img := put32 4 (of_nat NBLOCK) (super_img im)\<rparr>;
         im = fput Root OFF_TYPE FTYPE_DIR im
     in upd_file Root (\<lambda>off. put_list off [0x2F, 0]) im)"

definition next_block :: "btype \<Rightarrow> image \<Rightarrow> (nat \<times> image) option" where
  "next_block t im =
     (if nextbno im < NBLOCK
      then Some (nextbno im, im\<lparr>blk_type := (blk_type im)(nextbno im := t), nextbno := nextbno im + 1\<rparr>)
      else None)"

definition flush_bit :: "nat \<Rightarrow> image \<Rightarrow> image" where
  "flush_bit i = upd_block (2 + i div 32768)
     (\<lambda>b. let k = 4 * (i mod 32768 div 32) in put32 k (get32 b k AND NOT (push_bit (i mod 32) 1)) b)"

definition flush_bitmap :: "image \<Rightarrow> image" where
  "flush_bitmap im = fold flush_bit [0..<nextbno im] im"

text \<open>The image is the list of its blocks; \<open>big\<close> is the macro \<^verbatim>\<open>CONFIG_REVERSE_ENDIAN\<close>.\<close>

definition finish_fs :: "bool \<Rightarrow> image \<Rightarrow> bytes list" where
  "finish_fs big im = (
     let im = upd_block 1 (put_list 0 (map (super_img im) [0..<264])) im
     in map (\<lambda>i. if big then reverse_block (blk_type im i) (blk_data im i) else blk_data im i) [0..<1024])"

section \<open>Files and directories\<close>

definition save_block_link :: "fptr \<Rightarrow> nat \<Rightarrow> nat \<Rightarrow> image \<Rightarrow> image option" where
  "save_block_link f nblk bno im =
     (if nblk \<ge> 1024 then None
      else if nblk < 10 then Some (fput f (OFF_DIRECT + 4 * nblk) (of_nat bno) im)
      else do {
        im \<leftarrow> (if fget f OFF_INDIRECT im = 0 then do {
                 (b, im) \<leftarrow> next_block BLOCK_INDEX im;
                 Some (fput f OFF_INDIRECT (of_nat b) im)
               }
               else Some im);
        let n = unat (fget f OFF_INDIRECT im);
        if n < NBLOCK then Some (upd_block n (put32 (4 * nblk) (of_nat bno)) im) else None
      })"

definition make_link_block :: "fptr \<Rightarrow> nat \<Rightarrow> image \<Rightarrow> (nat \<times> image) option" where
  "make_link_block dirf nblk im = do {
     (bno, im) \<leftarrow> next_block BLOCK_FILE im;
     im \<leftarrow> save_block_link dirf nblk bno im;
     Some (bno, fput dirf OFF_SIZE (fget dirf OFF_SIZE im + 4096) im)
   }"

text \<open>The number of the \<open>i\<close>-th block of a directory, and the first unused entry of a block.\<close>

definition dir_block :: "fptr \<Rightarrow> nat \<Rightarrow> image \<Rightarrow> nat option" where
  "dir_block dirf i im =
     (if i < 10 then Some (unat (fget dirf (OFF_DIRECT + 4 * i) im))
      else (let n = unat (fget dirf OFF_INDIRECT im) in
        if n < NBLOCK \<and> i < 1024 then Some (unat (get32 (blk_data im n) (4 * i))) else None))"

definition free_slot :: "nat \<Rightarrow> image \<Rightarrow> nat option" where
  "free_slot bno im = find (\<lambda>k. blk_data im bno (256 * k) = 0) [0..<FILE2BLK]"

primrec find_free :: "fptr \<Rightarrow> nat list \<Rightarrow> image \<Rightarrow> fptr option option" where
  "find_free dirf [] im = Some None"
| "find_free dirf (i # is) im = do {
     bno \<leftarrow> dir_block dirf i im;
     if bno < NBLOCK then
       (case free_slot bno im of
          Some k \<Rightarrow> Some (Some (Slot bno (256 * k)))
        | None \<Rightarrow> find_free dirf is im)
     else None
   }"

definition create_file :: "fptr \<Rightarrow> image \<Rightarrow> (fptr \<times> image) option" where
  "create_file dirf im = do {
     let nblk = unat (fget dirf OFF_SIZE im div 4096);
     r \<leftarrow> find_free dirf [0..<nblk] im;
     case r of
       Some f \<Rightarrow> Some (f, im)
     | None \<Rightarrow> do {
         (b, im) \<leftarrow> make_link_block dirf nblk im;
         Some (Slot b 0, im)
       }
   }"

text \<open>The part behind the last slash, and \<^verbatim>\<open>basename\<close> of the C library.\<close>

definition last_name :: "u8 list \<Rightarrow> u8 list" where
  "last_name path = rev (takeWhile (\<lambda>c. c \<noteq> 0x2F) (rev path))"

definition basename :: "u8 list \<Rightarrow> u8 list" where
  "basename path =
     (if path = [] then [0x2E]
      else let p = rev (dropWhile (\<lambda>c. c = 0x2F) (rev path)) in if p = [] then [0x2F] else last_name p)"

text \<open>
  The loop over the blocks of a file: \<^verbatim>\<open>read\<close> fills the next block of the disk before that block is
  taken. A read at the end of the file moves no bytes. Names of the host have at most 255 bytes, so
  that \<^verbatim>\<open>strcpy\<close> stays within the 256 bytes of the entry.
\<close>

fun write_blocks :: "fptr \<Rightarrow> nat \<Rightarrow> u8 list \<Rightarrow> image \<Rightarrow> image option" where
  "write_blocks f iblk [] im = Some im"
| "write_blocks f iblk (c # cs) im =
     (if nextbno im < NBLOCK then do {
        let im = upd_block (nextbno im) (put_list 0 (take 4096 (c # cs))) im;
        (b, im) \<leftarrow> next_block BLOCK_DATA im;
        im \<leftarrow> save_block_link f iblk b im;
        write_blocks f (iblk + 1) (drop 4096 (c # cs)) im
      }
      else None)"

definition write_file :: "fptr \<Rightarrow> u8 list \<Rightarrow> u8 list \<Rightarrow> image \<Rightarrow> image option" where
  "write_file dirf path content im = do {
     (target, im) \<leftarrow> create_file dirf im;
     let im = upd_file target (\<lambda>off. put_list off (last_name path @ [0])) im;
     let im = fput target OFF_SIZE (of_nat (length content)) im;
     let im = fput target OFF_TYPE FTYPE_REG im;
     write_blocks target 0 content im
   }"

text \<open>
  \<^verbatim>\<open>strncpy\<close> with \<^verbatim>\<open>MAXNAMELEN - 1\<close> fills 127 bytes, and the byte that is tested behind them is the one
  that was there before.
\<close>

fun write_directory :: "fptr \<Rightarrow> u8 list \<Rightarrow> node \<Rightarrow> image \<Rightarrow> image option"
  and write_entries :: "fptr \<Rightarrow> u8 list \<Rightarrow> (u8 list \<times> node) list \<Rightarrow> image \<Rightarrow> image option" where
  "write_directory dirf path (Dir es) im = do {
     (pdir, im) \<leftarrow> create_file dirf im;
     let im = upd_file pdir (\<lambda>off. put_list off (take 127 (basename path @ replicate 127 0))) im;
     if file_bytes im pdir 127 \<noteq> 0 then None
     else write_entries pdir path es (fput pdir OFF_TYPE FTYPE_DIR im)
   }"
| "write_directory dirf path _ im = Some im"
| "write_entries pdir path [] im = Some im"
| "write_entries pdir path ((name, n) # es) im = do {
     im \<leftarrow> (if name \<noteq> [0x2E] \<and> name \<noteq> [0x2E, 0x2E]
            then (case n of
                    Dir xs \<Rightarrow> write_directory pdir (path @ [0x2F] @ name) (Dir xs) im
                  | Closed \<Rightarrow> write_directory pdir (path @ [0x2F] @ name) Closed im
                  | Reg bs \<Rightarrow> write_file pdir (path @ [0x2F] @ name) bs im
                  | Special bs \<Rightarrow> write_file pdir (path @ [0x2F] @ name) bs im)
            else Some im);
     write_entries pdir path es im
   }"

text \<open>An argument is a path, with the node that \<^verbatim>\<open>stat\<close> finds.\<close>

fun format_args :: "(u8 list \<times> node option) list \<Rightarrow> image \<Rightarrow> image option" where
  "format_args [] im = Some im"
| "format_args ((name, n) # as) im = do {
     im \<leftarrow> (case n of
              None \<Rightarrow> None
            | Some (Dir es) \<Rightarrow> write_directory Root name (Dir es) im
            | Some Closed \<Rightarrow> write_directory Root name Closed im
            | Some (Reg bs) \<Rightarrow> write_file Root name bs im
            | Some (Special _) \<Rightarrow> None);
     format_args as im
   }"

definition fsformat :: "bool \<Rightarrow> (u8 list \<times> node option) list \<Rightarrow> bytes list option" where
  "fsformat big args =
     (let im = init_disk image_zero in
      if args = [] then None
      else do {
        im \<leftarrow> format_args args im;
        Some (finish_fs big (flush_bitmap im))
      })"

end
