(* ===== verification/Fsformat_Inv.thy ===== *)
theory Fsformat_Inv
  imports Fsformat
begin

unbundle bit_operations_syntax

text \<open>
  What an image holds. \<open>holds D p n B\<close>: the entry at \<open>p\<close> of the disk \<open>D\<close> is a file with the contents of
  the host's file \<open>n\<close>, and \<open>B\<close> are the blocks that belong to it. The lemmas show that the operations
  of \<open>Fsformat\<close> add one entry to a directory and leave all others alone.
\<close>

section \<open>Words in blocks\<close>

lemma get32_put32 [simp]: "get32 (put32 k w b) k = w"
proof (rule bit_word_eqI)
  fix n assume "n < LENGTH(32)"
  then consider "n < 8" | "8 \<le> n" "n < 16" | "16 \<le> n" "n < 24" | "24 \<le> n" "n < 32" by fastforce
  then show "bit (get32 (put32 k w b) k) n = bit w n"
    by cases (auto simp: get32_def put32_def bit_simps)
qed

lemma put32_out: "i < k \<or> k + 4 \<le> i \<Longrightarrow> put32 k w b i = b i"
  by (auto simp: put32_def)

lemma get32_cong:
  assumes "\<And>i. i < 4 \<Longrightarrow> b (k + i) = b' (k' + i)"
  shows "get32 b k = get32 b' k'"
  using assms [of 0] assms [of 1] assms [of 2] assms [of 3] by (simp add: get32_def)

lemma get32_put32_other: "j + 4 \<le> k \<or> k + 4 \<le> j \<Longrightarrow> get32 (put32 k w b) j = get32 b j"
  by (intro get32_cong put32_out) auto

lemma put_list_simps:
  "i < k \<or> k + length bs \<le> i \<Longrightarrow> put_list k bs b i = b i"
  "j < length bs \<Longrightarrow> put_list k bs b (k + j) = bs ! j"
  by (auto simp: put_list_def)

lemma get32_zero: "(\<And>i. i < 4 \<Longrightarrow> b (k + i) = 0) \<Longrightarrow> get32 b k = 0"
  using get32_cong [of b k "\<lambda>_. 0" k] by (simp add: get32_def)

section \<open>The disk of an image, with the super block in its place\<close>

definition vd :: "image \<Rightarrow> nat \<Rightarrow> bytes" where
  "vd im = (blk_data im)(1 := super_img im)"

primrec fblk :: "fptr \<Rightarrow> nat" where "fblk Root = 1" | "fblk (Slot b off) = b"
primrec foff :: "fptr \<Rightarrow> nat" where "foff Root = 8" | "foff (Slot b off) = off"

definition fb :: "(nat \<Rightarrow> bytes) \<Rightarrow> fptr \<Rightarrow> nat \<Rightarrow> u8" where
  "fb D p k = D (fblk p) (foff p + k)"

definition fw :: "(nat \<Rightarrow> bytes) \<Rightarrow> fptr \<Rightarrow> nat \<Rightarrow> u32" where
  "fw D p k = get32 (D (fblk p)) (foff p + k)"

definition ptr_ok :: "fptr \<Rightarrow> bool" where
  "ptr_ok p \<longleftrightarrow> (p = Root \<or> 3 \<le> fblk p) \<and> foff p + 256 \<le> 4096"

lemma ptr_okD: "ptr_ok p \<Longrightarrow> p \<noteq> Root \<Longrightarrow> fblk p \<noteq> 1"
  by (auto simp: ptr_ok_def)

lemma file_bytes_vd: "ptr_ok p \<Longrightarrow> file_bytes im p k = fb (vd im) p k"
  by (cases p) (auto simp: fb_def vd_def ptr_ok_def)

lemma fget_vd: "ptr_ok p \<Longrightarrow> fget p k im = fw (vd im) p k"
  unfolding fget_def fw_def by (intro get32_cong) (simp add: file_bytes_vd fb_def add.assoc)

lemma upd_file_simps [simp]:
  "nextbno (upd_file p f im) = nextbno im" "nbitblock (upd_file p f im) = nbitblock im" "blk_type (upd_file p f im) = blk_type im"
  by (cases p; simp add: upd_block_def)+

lemma upd_file_vd: "ptr_ok p \<Longrightarrow> vd (upd_file p f im) = (vd im)(fblk p := f (foff p) (vd im (fblk p)))"
  by (cases p) (auto simp: vd_def upd_block_def ptr_ok_def fun_upd_twist)

lemma upd_block_simps [simp]:
  "nextbno (upd_block n f im) = nextbno im" "nbitblock (upd_block n f im) = nbitblock im" "blk_type (upd_block n f im) = blk_type im"
  by (simp_all add: upd_block_def)

lemma upd_block_vd: "n \<noteq> 1 \<Longrightarrow> vd (upd_block n f im) = (vd im)(n := f (vd im n))"
  by (simp add: vd_def upd_block_def fun_upd_twist)

lemma fput_simps [simp]:
  "nextbno (fput p k w im) = nextbno im" "nbitblock (fput p k w im) = nbitblock im" "blk_type (fput p k w im) = blk_type im"
  by (simp_all add: fput_def)

lemma fput_vd: "ptr_ok p \<Longrightarrow> vd (fput p k w im) = (vd im)(fblk p := put32 (foff p + k) w (vd im (fblk p)))"
  by (simp add: fput_def upd_file_vd)

lemma fput_fw: "ptr_ok p \<Longrightarrow> fw (vd (fput p k w im)) p k = w"
  by (simp add: fw_def fput_vd)

lemma fput_fw_other: "ptr_ok p \<Longrightarrow> j + 4 \<le> k \<or> k + 4 \<le> j \<Longrightarrow> fw (vd (fput p k w im)) p j = fw (vd im) p j"
  by (auto simp: fw_def fput_vd intro!: get32_put32_other)

section \<open>Files on a disk\<close>

text \<open>The first links of a file are in its entry, the others in a block of their own.\<close>

definition linked :: "(nat \<Rightarrow> bytes) \<Rightarrow> fptr \<Rightarrow> nat list \<Rightarrow> bool" where
  "linked D p links \<longleftrightarrow> length links \<le> 1024 \<and> distinct links \<and> (\<forall>b \<in> set links. 3 \<le> b \<and> b < 1024) \<and>
     (\<forall>i < length links. (if i < 10 then fw D p (OFF_DIRECT + 4 * i)
                          else get32 (D (unat (fw D p OFF_INDIRECT))) (4 * i)) = of_nat (links ! i)) \<and>
     (if length links \<le> 10 then fw D p OFF_INDIRECT = 0
      else 3 \<le> unat (fw D p OFF_INDIRECT) \<and> unat (fw D p OFF_INDIRECT) < 1024 \<and> unat (fw D p OFF_INDIRECT) \<notin> set links)"

definition own :: "(nat \<Rightarrow> bytes) \<Rightarrow> fptr \<Rightarrow> nat list \<Rightarrow> nat set" where
  "own D p links = set links \<union> (if length links \<le> 10 then {} else {unat (fw D p OFF_INDIRECT)})"

definition index :: "(nat \<Rightarrow> bytes) \<Rightarrow> fptr \<Rightarrow> nat list \<Rightarrow> nat set" where
  "index D p links = (if length links \<le> 10 then {} else {unat (fw D p OFF_INDIRECT)})"

lemma own_index: "own D p links = set links \<union> index D p links"
  by (simp add: own_def index_def)

definition named :: "(nat \<Rightarrow> bytes) \<Rightarrow> fptr \<Rightarrow> u8 list \<Rightarrow> bool" where
  "named D p name \<longleftrightarrow> (\<forall>k < length name. fb D p k = name ! k) \<and> fb D p (length name) = 0"

definition regular :: "(nat \<Rightarrow> bytes) \<Rightarrow> fptr \<Rightarrow> u8 list \<Rightarrow> nat list \<Rightarrow> bool" where
  "regular D p bs links \<longleftrightarrow> fw D p OFF_SIZE = of_nat (length bs) \<and> fw D p OFF_TYPE = FTYPE_REG \<and> linked D p links \<and>
     length links = (length bs + 4095) div 4096 \<and> (\<forall>k < length bs. D (links ! (k div 4096)) (k mod 4096) = bs ! k)"

definition dir_links :: "(nat \<Rightarrow> bytes) \<Rightarrow> fptr \<Rightarrow> nat list \<Rightarrow> bool" where
  "dir_links D p links \<longleftrightarrow> fw D p OFF_SIZE = of_nat (4096 * length links) \<and> fw D p OFF_TYPE = FTYPE_DIR \<and> linked D p links"

definition slot :: "nat list \<Rightarrow> nat \<Rightarrow> fptr" where
  "slot links j = Slot (links ! (j div 16)) (256 * (j mod 16))"

text \<open>The entries of a host directory that go into the image.\<close>

definition shown :: "u8 list \<times> node \<Rightarrow> bool" where
  "shown e \<longleftrightarrow> fst e \<noteq> [0x2E] \<and> fst e \<noteq> [0x2E, 0x2E] \<and> snd e \<noteq> Closed"

definition disjoint_blocks :: "nat set \<Rightarrow> nat set list \<Rightarrow> bool" where
  "disjoint_blocks X Bs \<longleftrightarrow> (\<forall>j < length Bs. Bs ! j \<inter> X = {}) \<and> (\<forall>j < length Bs. \<forall>i < j. Bs ! i \<inter> Bs ! j = {})"

inductive holds :: "(nat \<Rightarrow> bytes) \<Rightarrow> fptr \<Rightarrow> node \<Rightarrow> nat set \<Rightarrow> bool" for D where
  holds_reg: "regular D p bs links \<Longrightarrow> B = own D p links \<Longrightarrow> holds D p (Reg bs) B"
| holds_special: "regular D p bs links \<Longrightarrow> B = own D p links \<Longrightarrow> holds D p (Special bs) B"
| holds_dir: "dir_links D p links \<Longrightarrow> L = filter shown es \<Longrightarrow> length Bs = length L \<Longrightarrow> length L \<le> 16 * length links \<Longrightarrow>
    (\<forall>j < length L. named D (slot links j) (fst (L ! j)) \<and> holds D (slot links j) (snd (L ! j)) (Bs ! j)) \<Longrightarrow>
    (\<forall>j. length L \<le> j \<longrightarrow> j < 16 * length links \<longrightarrow> (\<forall>k < 256. fb D (slot links j) k = 0)) \<Longrightarrow>
    disjoint_blocks (own D p links) Bs \<Longrightarrow> B = own D p links \<union> \<Union> (set Bs) \<Longrightarrow> holds D p (Dir es) B"

inductive_cases holds_dirE: "holds D p (Dir es) B"

lemma own_bounds: "linked D p links \<Longrightarrow> b \<in> own D p links \<Longrightarrow> 3 \<le> b \<and> b < 1024"
  by (auto simp: linked_def own_def split: if_splits)

text \<open>A file depends on its entry and its blocks only.\<close>

lemma fw_cong:
  assumes "\<And>k. k < 256 \<Longrightarrow> fb D' p k = fb D p k" "k + 4 \<le> 256"
  shows "fw D' p k = fw D p k"
  unfolding fw_def
proof (rule get32_cong)
  fix i :: nat assume "i < 4"
  then show "D' (fblk p) (foff p + k + i) = D (fblk p) (foff p + k + i)"
    using assms(1) [of "k + i"] assms(2) by (simp add: fb_def add.assoc)
qed

lemma linked_fields:
  assumes l: "linked D p links" and i: "fw D' p OFF_INDIRECT = fw D p OFF_INDIRECT"
    and d: "\<And>k. k < 10 \<Longrightarrow> fw D' p (OFF_DIRECT + 4 * k) = fw D p (OFF_DIRECT + 4 * k)"
    and o: "\<And>b. b \<in> index D p links \<Longrightarrow> D' b = D b"
  shows "linked D' p links" "own D' p links = own D p links"
proof -
  show "own D' p links = own D p links" by (simp add: own_def i)
  have "D' (unat (fw D p OFF_INDIRECT)) = D (unat (fw D p OFF_INDIRECT))" if "\<not> length links \<le> 10"
    by (rule o) (use that in \<open>simp add: index_def\<close>)
  with l d show "linked D' p links" unfolding linked_def i by (auto split: if_splits)
qed

lemma linked_cong:
  assumes l: "linked D p links" and e: "\<And>k. k < 256 \<Longrightarrow> fb D' p k = fb D p k"
    and o: "\<And>b. b \<in> own D p links \<Longrightarrow> D' b = D b"
  shows "linked D' p links" "own D' p links = own D p links"
proof -
  have i: "fw D' p OFF_INDIRECT = fw D p OFF_INDIRECT" by (rule fw_cong [OF e]) (simp_all add: OFF_INDIRECT_def)
  have d: "fw D' p (OFF_DIRECT + 4 * k) = fw D p (OFF_DIRECT + 4 * k)" if "k < 10" for k
    by (rule fw_cong [OF e]) (use that in \<open>simp_all add: OFF_DIRECT_def\<close>)
  show "linked D' p links" "own D' p links = own D p links" using linked_fields [OF l i d o] by (simp_all add: own_index)
qed

lemma regular_cong:
  assumes r: "regular D p bs links" and e: "\<And>k. k < 256 \<Longrightarrow> fb D' p k = fb D p k"
    and o: "\<And>b. b \<in> own D p links \<Longrightarrow> D' b = D b"
  shows "regular D' p bs links" "own D' p links = own D p links"
proof -
  have l: "linked D p links" using r by (simp add: regular_def)
  note lc = linked_cong [OF l e o]
  show "own D' p links = own D p links" by (rule lc(2))
  have f: "fw D' p k = fw D p k" if "k + 4 \<le> 256" for k by (rule fw_cong [OF e that])
  have "links ! (k div 4096) \<in> own D p links" if "k < length bs" for k
  proof -
    have "k div 4096 < length links" using r that by (auto simp: regular_def)
    then show ?thesis by (simp add: own_def)
  qed
  then have "D' (links ! (k div 4096)) = D (links ! (k div 4096))" if "k < length bs" for k using o that by blast
  then show "regular D' p bs links"
    using r lc(1) f [of OFF_SIZE] f [of OFF_TYPE] by (simp add: regular_def OFF_SIZE_def OFF_TYPE_def)
qed

lemma slot_own: "j < 16 * length links \<Longrightarrow> fblk (slot links j) \<in> own D p links"
  by (auto simp: slot_def own_def)

lemma holds_cong:
  assumes "holds D p n B" "\<And>k. k < 256 \<Longrightarrow> fb D' p k = fb D p k" "\<And>b. b \<in> B \<Longrightarrow> D' b = D b"
  shows "holds D' p n B"
  using assms
proof (induction rule: holds.induct)
  case (holds_reg p bs links B)
  note c = regular_cong [OF holds_reg(1) holds_reg(3)]
  show ?case by (rule holds.holds_reg [of D' p bs links]) (use c holds_reg in auto)
next
  case (holds_special p bs links B)
  note c = regular_cong [OF holds_special(1) holds_special(3)]
  show ?case by (rule holds.holds_special [of D' p bs links]) (use c holds_special in auto)
next
  case (holds_dir p links L es Bs B)
  note B = holds_dir.hyps(7) and e = holds_dir.prems(1) and eq = holds_dir.prems(2)
  have l: "linked D p links" using holds_dir.hyps(1) by (simp add: dir_links_def)
  have o: "D' b = D b" if "b \<in> own D p links" for b using eq that B by blast
  note lc = linked_cong [OF l e o]
  have f: "fw D' p k = fw D p k" if "k + 4 \<le> 256" for k by (rule fw_cong [OF e that])
  have dl: "dir_links D' p links"
    using holds_dir.hyps(1) lc(1) f [of OFF_SIZE] f [of OFF_TYPE] by (simp add: dir_links_def OFF_SIZE_def OFF_TYPE_def)
  have s: "fb D' (slot links j) k = fb D (slot links j) k" if "j < 16 * length links" for j k
    using o [OF slot_own [OF that]] by (simp add: fb_def)
  have "named D' (slot links j) (fst (L ! j)) \<and> holds D' (slot links j) (snd (L ! j)) (Bs ! j)" if j: "j < length L" for j
  proof -
    have j16: "j < 16 * length links" using j holds_dir.hyps(4) by simp
    have "D' b = D b" if "b \<in> Bs ! j" for b using eq that B j holds_dir.hyps(3) by (metis UN_I UnCI nth_mem Union_iff)
    then show ?thesis using holds_dir.IH j s [OF j16] by (auto simp: named_def)
  qed
  then show ?case
    using dl holds_dir.hyps(2-6) B s by (intro holds.holds_dir [of D' p links L es Bs]) (auto simp: lc(2))
qed

section \<open>Blocks that are taken\<close>

text \<open>All blocks that have not been taken are zero.\<close>

definition fmt_ok :: "image \<Rightarrow> bool" where
  "fmt_ok im \<longleftrightarrow> 3 \<le> nextbno im \<and> nextbno im \<le> NBLOCK \<and> (\<forall>b. nextbno im \<le> b \<longrightarrow> vd im b = (\<lambda>_. 0))"

text \<open>Between \<open>im\<close> and \<open>im'\<close> only the entry \<open>p\<close>, the blocks \<open>B\<close> and new blocks have been written.\<close>

definition changes :: "fptr \<Rightarrow> nat set \<Rightarrow> image \<Rightarrow> image \<Rightarrow> bool" where
  "changes p B im im' \<longleftrightarrow> fmt_ok im' \<and> nextbno im \<le> nextbno im' \<and>
     (\<forall>b k. b < nextbno im \<longrightarrow> b \<notin> B \<longrightarrow> \<not> (b = fblk p \<and> foff p \<le> k \<and> k < foff p + 256) \<longrightarrow> vd im' b k = vd im b k)"

lemma changesD:
  assumes "changes p B im im'"
  shows "fmt_ok im'" "nextbno im \<le> nextbno im'"
    "b < nextbno im \<Longrightarrow> b \<notin> B \<Longrightarrow> b \<noteq> fblk p \<Longrightarrow> vd im' b = vd im b"
    "b < nextbno im \<Longrightarrow> b \<notin> B \<Longrightarrow> k < foff p \<or> foff p + 256 \<le> k \<Longrightarrow> vd im' b k = vd im b k"
  using assms by (auto simp: changes_def fun_eq_iff)

lemma grown_trans:
  fixes A :: "nat set"
  assumes "C \<subseteq> B \<union> {m..<n}" "B \<subseteq> A \<union> {l..<m}" "l \<le> m" "m \<le> n"
  shows "C \<subseteq> A \<union> {l..<n}"
proof
  fix x assume "x \<in> C"
  then have "x \<in> B \<or> m \<le> x \<and> x < n" using assms(1) by auto
  then have "x \<in> A \<or> l \<le> x \<and> x < m \<or> m \<le> x \<and> x < n" using assms(2) by auto
  then show "x \<in> A \<union> {l..<n}" using assms(3,4) by auto
qed

lemma changes_refl: "fmt_ok im \<Longrightarrow> changes p B im im"
  by (simp add: changes_def)

lemma changes_trans:
  assumes "changes p B im im1" "changes p B1 im1 im2" "B1 \<subseteq> B \<union> {nextbno im..}"
  shows "changes p B im im2"
  unfolding changes_def
proof (intro conjI allI impI)
  show "fmt_ok im2" "nextbno im \<le> nextbno im2" using assms(1,2) by (auto simp: changes_def)
  fix b k assume b: "b < nextbno im" "b \<notin> B" "\<not> (b = fblk p \<and> foff p \<le> k \<and> k < foff p + 256)"
  then have "b \<notin> B1" "b < nextbno im1" using assms(1,3) by (auto simp: changes_def)
  then show "vd im2 b k = vd im b k" using assms(1,2) b by (auto simp: changes_def)
qed

lemma changes_weaken:
  assumes "changes q B1 im im'" "B1 \<subseteq> B \<union> {nextbno im..}" "q = p \<or> fblk q \<in> B \<or> nextbno im \<le> fblk q"
  shows "changes p B im im'"
  using assms unfolding changes_def by (auto 4 3)

lemma next_block_eq:
  "next_block t im = Some (b, im') \<longleftrightarrow> nextbno im < NBLOCK \<and> b = nextbno im \<and>
     im' = im\<lparr>blk_type := (blk_type im)(b := t), nextbno := b + 1\<rparr>"
  by (auto simp: next_block_def)

lemma vd_more [simp]: "vd (im\<lparr>blk_type := x, nextbno := y\<rparr>) = vd im" "vd (im\<lparr>nextbno := y\<rparr>) = vd im"
  "vd (im\<lparr>blk_type := x\<rparr>) = vd im"
  by (simp_all add: vd_def)

lemma next_block_changes:
  assumes "fmt_ok im" "next_block t im = Some (b, im')"
  shows "changes p B im im'" "b = nextbno im" "nextbno im' = b + 1" "vd im' = vd im" "3 \<le> b" "b < 1024"
  using assms by (auto simp: next_block_eq changes_def fmt_ok_def NBLOCK_def)

lemma fput_changes:
  assumes "fmt_ok im" "ptr_ok p" "fblk p < nextbno im" "k + 4 \<le> 256"
  shows "changes p B im (fput p k w im)"
  using assms by (auto simp: changes_def fmt_ok_def fput_vd put32_out)

lemma upd_block_changes:
  assumes "fmt_ok im" "3 \<le> b" "b < nextbno im" "b \<in> B"
  shows "changes p B im (upd_block b f im)"
  using assms by (auto simp: changes_def fmt_ok_def upd_block_vd)

lemma fput_fb: "ptr_ok p \<Longrightarrow> j < k \<or> k + 4 \<le> j \<Longrightarrow> fb (vd (fput p k w im)) p j = fb (vd im) p j"
  by (auto simp: fb_def fput_vd intro!: put32_out)

section \<open>Linking a block\<close>

lemma unat_block: "b < 1024 \<Longrightarrow> unat (of_nat b :: u32) = b"
  by (intro unat_of_nat_u32) simp

lemma linked_snoc:
  assumes l: "linked D p links" and n: "length links < 1024" and b: "3 \<le> b" "b < 1024" "b \<notin> own D p links"
    and new: "if length links < 10 then fw D' p (OFF_DIRECT + 4 * length links) = of_nat b \<and> fw D' p OFF_INDIRECT = 0
      else 3 \<le> unat (fw D' p OFF_INDIRECT) \<and> unat (fw D' p OFF_INDIRECT) < 1024 \<and> unat (fw D' p OFF_INDIRECT) \<notin> insert b (set links) \<and>
        get32 (D' (unat (fw D' p OFF_INDIRECT))) (4 * length links) = of_nat b"
    and old: "\<And>i. i < length links \<Longrightarrow> i < 10 \<Longrightarrow> fw D' p (OFF_DIRECT + 4 * i) = fw D p (OFF_DIRECT + 4 * i)"
      "\<And>i. i < length links \<Longrightarrow> 10 \<le> i \<Longrightarrow>
         get32 (D' (unat (fw D' p OFF_INDIRECT))) (4 * i) = get32 (D (unat (fw D p OFF_INDIRECT))) (4 * i)"
  shows "linked D' p (links @ [b])"
  unfolding linked_def
proof (intro conjI allI impI)
  show "length (links @ [b]) \<le> 1024" "distinct (links @ [b])" "\<forall>b \<in> set (links @ [b]). 3 \<le> b \<and> b < 1024"
    using l n b by (auto simp: linked_def own_def)
  show "if length (links @ [b]) \<le> 10 then fw D' p OFF_INDIRECT = 0
    else 3 \<le> unat (fw D' p OFF_INDIRECT) \<and> unat (fw D' p OFF_INDIRECT) < 1024 \<and> unat (fw D' p OFF_INDIRECT) \<notin> set (links @ [b])"
    using new by (auto split: if_splits)
  fix i assume "i < length (links @ [b])"
  then consider "i < length links" "i < 10" | "i < length links" "10 \<le> i" | "i = length links" by fastforce
  then show "(if i < 10 then fw D' p (OFF_DIRECT + 4 * i) else get32 (D' (unat (fw D' p OFF_INDIRECT))) (4 * i)) =
    of_nat ((links @ [b]) ! i)"
  proof cases
    case 1 then show ?thesis using old(1) l by (auto simp: linked_def nth_append)
  next
    case 2 then show ?thesis using old(2) l by (auto simp: linked_def nth_append)
  next
    case 3 then show ?thesis using new by (auto split: if_splits)
  qed
qed

lemma fput_direct:
  assumes p: "ptr_ok p" and l: "linked (vd im) p links" and n: "length links < 10"
    and b: "3 \<le> b" "b < 1024" "b \<notin> own (vd im) p links"
  shows "linked (vd (fput p (OFF_DIRECT + 4 * length links) (of_nat b) im)) p (links @ [b])"
proof (rule linked_snoc [OF l _ b])
  let ?im = "fput p (OFF_DIRECT + 4 * length links) (of_nat b) im"
  have i: "fw (vd ?im) p OFF_INDIRECT = 0"
    using l n by (subst fput_fw_other [OF p]) (auto simp: linked_def OFF_DIRECT_def OFF_INDIRECT_def)
  then show "if length links < 10 then fw (vd ?im) p (OFF_DIRECT + 4 * length links) = of_nat b \<and> fw (vd ?im) p OFF_INDIRECT = 0
    else 3 \<le> unat (fw (vd ?im) p OFF_INDIRECT) \<and> unat (fw (vd ?im) p OFF_INDIRECT) < 1024 \<and>
      unat (fw (vd ?im) p OFF_INDIRECT) \<notin> insert b (set links) \<and>
      get32 (vd ?im (unat (fw (vd ?im) p OFF_INDIRECT))) (4 * length links) = of_nat b"
    using n by (simp add: fput_fw [OF p])
  show "fw (vd ?im) p (OFF_DIRECT + 4 * i) = fw (vd im) p (OFF_DIRECT + 4 * i)" if "i < length links" for i
    using that by (intro fput_fw_other [OF p]) simp
qed (use n in simp_all)

text \<open>Writing a link into the index block.\<close>

lemma upd_index:
  assumes p: "ptr_ok p" and l: "linked (vd im) p links" and n: "10 \<le> length links" "length links < 1024"
    and b: "3 \<le> b" "b < 1024" "b \<notin> own (vd im) p links"
    and x: "fw (vd im2) p OFF_INDIRECT = of_nat x" "3 \<le> x" "x < 1024" "x \<noteq> b" "x \<notin> set links" "x \<noteq> fblk p"
    and d: "\<And>i. i < 10 \<Longrightarrow> fw (vd im2) p (OFF_DIRECT + 4 * i) = fw (vd im) p (OFF_DIRECT + 4 * i)"
    and o: "length links \<noteq> 10 \<Longrightarrow> fw (vd im) p OFF_INDIRECT = of_nat x \<and> vd im2 x = vd im x"
  shows "linked (vd (upd_block x (put32 (4 * length links) (of_nat b)) im2)) p (links @ [b])"
    "fw (vd (upd_block x (put32 (4 * length links) (of_nat b)) im2)) p OFF_INDIRECT = of_nat x"
proof -
  let ?im = "upd_block x (put32 (4 * length links) (of_nat b)) im2"
  have v: "vd ?im = (vd im2)(x := put32 (4 * length links) (of_nat b) (vd im2 x))" by (rule upd_block_vd) (use x in simp)
  have f: "fw (vd ?im) p k = fw (vd im2) p k" for k using x(6) by (simp add: fw_def v)
  show i: "fw (vd ?im) p OFF_INDIRECT = of_nat x" by (simp add: f x)
  show "linked (vd ?im) p (links @ [b])"
  proof (rule linked_snoc [OF l n(2) b])
    show "if length links < 10 then fw (vd ?im) p (OFF_DIRECT + 4 * length links) = of_nat b \<and> fw (vd ?im) p OFF_INDIRECT = 0
      else 3 \<le> unat (fw (vd ?im) p OFF_INDIRECT) \<and> unat (fw (vd ?im) p OFF_INDIRECT) < 1024 \<and>
        unat (fw (vd ?im) p OFF_INDIRECT) \<notin> insert b (set links) \<and>
        get32 (vd ?im (unat (fw (vd ?im) p OFF_INDIRECT))) (4 * length links) = of_nat b"
      unfolding i using n x by (simp add: unat_block v)
    show "fw (vd ?im) p (OFF_DIRECT + 4 * i) = fw (vd im) p (OFF_DIRECT + 4 * i)" if "i < 10" for i
      using d that by (simp add: f)
    fix i assume i': "i < length links" "10 \<le> i"
    then have "fw (vd im) p OFF_INDIRECT = of_nat x" "vd im2 x = vd im x" using o by auto
    then show "get32 (vd ?im (unat (fw (vd ?im) p OFF_INDIRECT))) (4 * i) = get32 (vd im (unat (fw (vd im) p OFF_INDIRECT))) (4 * i)"
      unfolding i using i' x by (simp add: unat_block v get32_put32_other)
  qed
qed

lemma save_block_link_ok:
  assumes ok: "fmt_ok im" "ptr_ok p" "fblk p < nextbno im" and l: "linked (vd im) p links" "own (vd im) p links \<subseteq> {..<nextbno im}"
    and sep: "fblk p \<notin> own (vd im) p links" and b: "3 \<le> b" "b < nextbno im" "b \<notin> own (vd im) p links"
    and r: "save_block_link p (length links) b im = Some im'"
  shows "linked (vd im') p (links @ [b]) \<and> changes p (index (vd im) p links) im im' \<and>
    own (vd im') p (links @ [b]) \<subseteq> own (vd im) p links \<union> {b} \<union> {nextbno im..<nextbno im'} \<and>
    (\<forall>k < OFF_DIRECT. fb (vd im') p k = fb (vd im) p k)"
proof -
  have b4: "b < 1024" using b ok(1) by (simp add: fmt_ok_def NBLOCK_def)
  have n: "length links < 1024" using r by (simp add: save_block_link_def split: if_splits)
  consider "length links < 10" | "length links = 10" | "10 < length links" by linarith
  then show ?thesis
  proof cases
    case 1
    then have im': "im' = fput p (OFF_DIRECT + 4 * length links) (of_nat b) im" using r by (simp add: save_block_link_def)
    have "changes p (index (vd im) p links) im im'"
      unfolding im' by (rule fput_changes [OF ok]) (use 1 in \<open>simp add: OFF_DIRECT_def\<close>)
    moreover have "own (vd im') p (links @ [b]) = insert b (set links)" using 1 by (auto simp: own_def)
    moreover have "linked (vd im') p (links @ [b])" unfolding im' by (rule fput_direct [OF ok(2) l(1) 1 b(1) b4 b(3)])
    ultimately show ?thesis by (auto simp: own_def im' fput_fb [OF ok(2)])
  next
    case 2
    have z: "fget p OFF_INDIRECT im = 0" using l(1) 2 by (simp add: fget_vd [OF ok(2)] linked_def)
    with r 2 obtain x im1 where x: "next_block BLOCK_INDEX im = Some (x, im1)"
      by (cases "next_block BLOCK_INDEX im") (auto simp: save_block_link_def)
    note nb = next_block_changes [OF ok(1) x]
    let ?im2 = "fput p OFF_INDIRECT (of_nat x) im1"
    have i2: "fw (vd ?im2) p OFF_INDIRECT = of_nat x" by (rule fput_fw [OF ok(2)])
    have im': "im' = upd_block x (put32 (4 * length links) (of_nat b)) ?im2"
      using r 2 z x nb(6) by (auto simp: save_block_link_def fget_vd [OF ok(2)] i2 unat_block NBLOCK_def)
    have d: "fw (vd ?im2) p (OFF_DIRECT + 4 * i) = fw (vd im) p (OFF_DIRECT + 4 * i)" if "i < 10" for i
      using that by (subst fput_fw_other [OF ok(2)]) (auto simp: OFF_DIRECT_def OFF_INDIRECT_def nb(4))
    have xs: "x \<noteq> b" "x \<notin> set links" "x \<noteq> fblk p" using nb(2) b(2) l(2) ok(3) by (auto simp: own_def)
    note u = upd_index [OF ok(2) l(1) _ n b(1) b4 b(3) i2 nb(5,6) xs d]
    have lk: "linked (vd im') p (links @ [b])" "fw (vd im') p OFF_INDIRECT = of_nat x" unfolding im' using u 2 by simp_all
    have ok1: "fmt_ok im1" by (rule changesD(1) [OF nb(1)])
    have c2: "changes p {} im1 ?im2"
      by (rule fput_changes [OF ok1 ok(2)]) (use ok(3) nb in \<open>simp_all add: OFF_INDIRECT_def\<close>)
    have c3: "changes p {x} ?im2 im'"
      unfolding im' by (rule upd_block_changes [OF changesD(1) [OF c2] nb(5)]) (use nb in simp_all)
    have c12: "changes p {} im ?im2" by (rule changes_trans [OF nb(1) c2]) simp
    have "changes p {} im im'" by (rule changes_trans [OF c12 c3]) (use nb in simp)
    moreover have "own (vd im') p (links @ [b]) = insert x (insert b (set links))"
      using 2 nb(6) by (auto simp: own_def lk(2) unat_block)
    moreover have "fb (vd im') p k = fb (vd im) p k" if "k < OFF_DIRECT" for k
    proof -
      have "fb (vd im') p k = fb (vd ?im2) p k" using xs(3) nb(5) by (simp add: fb_def im' upd_block_vd)
      also have "\<dots> = fb (vd im) p k" using that by (simp add: fput_fb [OF ok(2)] nb(4) OFF_DIRECT_def OFF_INDIRECT_def)
      finally show ?thesis .
    qed
    ultimately show ?thesis using lk(1) 2 nb(2,3) by (auto simp: own_def index_def im')
  next
    case 3
    define x where "x = unat (fw (vd im) p OFF_INDIRECT)"
    have x: "3 \<le> x" "x < 1024" "x \<notin> set links" using l(1) 3 by (auto simp: linked_def x_def split: if_splits)
    have i: "fw (vd im) p OFF_INDIRECT = of_nat x" by (simp add: x_def)
    have xo: "x \<in> own (vd im) p links" using 3 by (simp add: own_def x_def)
    then have xs: "x \<noteq> b" "x \<noteq> fblk p" "x < nextbno im" using b(3) sep l(2) by auto
    have "fget p OFF_INDIRECT im \<noteq> 0" using x(1) by (auto simp: fget_vd [OF ok(2)] x_def)
    then have im': "im' = upd_block x (put32 (4 * length links) (of_nat b)) im"
      using r 3 x(2) by (auto simp: save_block_link_def fget_vd [OF ok(2)] x_def NBLOCK_def split: if_splits)
    note u = upd_index [OF ok(2) l(1) _ n b(1) b4 b(3) i x(1,2) xs(1) x(3) xs(2)]
    have lk: "linked (vd im') p (links @ [b])" "fw (vd im') p OFF_INDIRECT = of_nat x" unfolding im' using u 3 i by simp_all
    have "changes p {x} im im'"
      unfolding im' by (rule upd_block_changes [OF ok(1) x(1)]) (use xs in simp_all)
    moreover have "own (vd im') p (links @ [b]) = insert x (insert b (set links))"
      using 3 x(2) by (auto simp: own_def lk(2) unat_block)
    moreover have "fb (vd im') p k = fb (vd im) p k" for k using xs(2) x(1) by (simp add: fb_def im' upd_block_vd)
    ultimately show ?thesis using lk(1) 3 by (auto simp: own_def index_def x_def)
  qed
qed

section \<open>Writing a regular file\<close>

text \<open>A new block with contents.\<close>

lemma data_block:
  assumes ok: "fmt_ok im" and r: "next_block BLOCK_DATA (upd_block (nextbno im) f im) = Some (b, im')"
  shows "b = nextbno im" "changes p B im im'" "3 \<le> b" "b < 1024" "nextbno im' = b + 1" "vd im' = (vd im)(b := f (\<lambda>_. 0))"
proof -
  show b: "b = nextbno im" "nextbno im' = b + 1" and b4: "b < 1024" using r by (auto simp: next_block_eq NBLOCK_def)
  show b3: "3 \<le> b" using ok by (simp add: b fmt_ok_def)
  have "vd im b = (\<lambda>_. 0)" using ok b by (simp add: fmt_ok_def)
  moreover have "vd im' = vd (upd_block (nextbno im) f im)" using r by (auto simp: next_block_eq)
  ultimately show v: "vd im' = (vd im)(b := f (\<lambda>_. 0))" using b3 by (simp add: upd_block_vd b)
  show "changes p B im im'" using ok b4 by (auto simp: changes_def fmt_ok_def v b NBLOCK_def)
qed

definition stored :: "(nat \<Rightarrow> bytes) \<Rightarrow> nat list \<Rightarrow> u8 list \<Rightarrow> bool" where
  "stored D links bs \<longleftrightarrow> length links = (length bs + 4095) div 4096 \<and> (\<forall>k < length bs. D (links ! (k div 4096)) (k mod 4096) = bs ! k)"

lemma stored_cong:
  assumes "stored D links bs" "\<And>b. b \<in> set links \<Longrightarrow> D' b = D b"
  shows "stored D' links bs"
proof -
  have "D' (links ! (k div 4096)) = D (links ! (k div 4096))" if "k < length bs" for k
  proof -
    have "k div 4096 < length links" using assms(1) that by (auto simp: stored_def)
    then show ?thesis using assms(2) by simp
  qed
  then show ?thesis using assms(1) by (simp add: stored_def)
qed

lemma stored_snoc:
  assumes s: "stored D links done" and n: "length done = 4096 * length links" and c: "0 < length cs" "length cs \<le> 4096"
    and b: "\<And>k. k < length cs \<Longrightarrow> D b k = cs ! k"
  shows "stored D (links @ [b]) (done @ cs)"
  unfolding stored_def
proof (intro conjI allI impI)
  have "(4096 * length links + length cs + 4095) div 4096 = length links + 1"
    by (rule div_nat_eqI) (use c in \<open>simp_all add: Suc_le_eq\<close>)
  then show "length (links @ [b]) = (length (done @ cs) + 4095) div 4096" using n by simp
  fix k assume k: "k < length (done @ cs)"
  show "D ((links @ [b]) ! (k div 4096)) (k mod 4096) = (done @ cs) ! k"
  proof (cases "k < length done")
    case True
    then have "k div 4096 < length links" using n by (simp add: less_mult_imp_div_less mult.commute)
    then show ?thesis using s True by (simp add: stored_def nth_append)
  next
    case False
    then have "k - length done < length cs" using k by simp
    moreover have "k div 4096 = length links" "k mod 4096 = k - length done"
    proof -
      have "4096 * length links \<le> k" "k < 4096 * length links + 4096" using False k n c by simp_all
      then show "k div 4096 = length links" by (intro div_nat_eqI) simp_all
      then show "k mod 4096 = k - length done" using n by (simp add: modulo_nat_def)
    qed
    ultimately show ?thesis using b False by (simp add: nth_append)
  qed
qed

lemma write_blocks_ok:
  assumes "fmt_ok im" "ptr_ok p" "fblk p < nextbno im" "linked (vd im) p links" "own (vd im) p links \<subseteq> {..<nextbno im}"
    "fblk p \<notin> own (vd im) p links" "iblk = length links" "stored (vd im) links done"
    "length done = 4096 * length links \<or> rest = []" "write_blocks p iblk rest im = Some im'"
  shows "\<exists>links'. linked (vd im') p links' \<and> changes p (index (vd im) p links) im im' \<and>
    own (vd im') p links' \<subseteq> own (vd im) p links \<union> {nextbno im..<nextbno im'} \<and>
    (\<forall>k < OFF_DIRECT. fb (vd im') p k = fb (vd im) p k) \<and> stored (vd im') links' (done @ rest)"
  using assms
proof (induction p iblk rest im arbitrary: links "done" rule: write_blocks.induct)
  case (1 f iblk im)
  then show ?case using changes_refl by (intro exI [of _ links]) auto
next
  case (2 f iblk c cs im)
  let ?c = "take 4096 (c # cs)" and ?B = "index (vd im) f links"
  let ?im1 = "upd_block (nextbno im) (put_list 0 ?c) im"
  from 2(11) obtain b im2 im3 where r: "nextbno im < NBLOCK" "next_block BLOCK_DATA ?im1 = Some (b, im2)"
      "save_block_link f iblk b im2 = Some im3" "write_blocks f (iblk + 1) (drop 4096 (c # cs)) im3 = Some im'"
    by (cases "next_block BLOCK_DATA ?im1") (auto split: if_splits bind_splits)
  note db = data_block [OF 2(2) r(2)]
  have D2: "vd im2 x = vd im x" if "x \<noteq> b" for x using that by (simp add: db(6))
  have bo: "b \<notin> own (vd im) f links" "b \<noteq> fblk f" using db(1) 2(4,6) by auto
  have e2: "fb (vd im2) f k = fb (vd im) f k" for k using bo(2) by (simp add: fb_def D2)
  have lk2: "linked (vd im2) f links" "own (vd im2) f links = own (vd im) f links"
    by (rule linked_cong [OF 2(5) e2]; use bo in \<open>auto intro!: D2\<close>)+
  have ok2: "fmt_ok im2" by (rule changesD(1) [OF db(2)])
  have "fblk f < nextbno im2" "own (vd im) f links \<subseteq> {..<nextbno im2}" "b < nextbno im2" using 2(4,6) db(1,5) by auto
  then have sb: "linked (vd im3) f (links @ [b]) \<and> changes f (index (vd im2) f links) im2 im3 \<and>
    own (vd im3) f (links @ [b]) \<subseteq> own (vd im) f links \<union> {b} \<union> {nextbno im2..<nextbno im3} \<and>
    (\<forall>k < OFF_DIRECT. fb (vd im3) f k = fb (vd im2) f k)"
    using save_block_link_ok [OF ok2 2(3) _ lk2(1) _ _ db(3), of im3] lk2(2) 2(7,8) bo r(3) by simp
  then have sb3: "linked (vd im3) f (links @ [b])" "own (vd im3) f (links @ [b]) \<subseteq> own (vd im) f links \<union> {b} \<union> {nextbno im2..<nextbno im3}"
    "\<And>k. k < OFF_DIRECT \<Longrightarrow> fb (vd im3) f k = fb (vd im) f k" by (simp_all add: e2)
  have ix: "index (vd im2) f links = ?B" using D2 [of "fblk f"] bo(2) by (simp add: index_def fw_def)
  have c3: "changes f ?B im2 im3" using sb by (simp add: ix)
  note C3 = changesD [OF c3]
  have BO: "?B \<subseteq> own (vd im) f links" by (simp add: own_index)
  have "vd im3 x = vd im x" if "x \<in> set links" for x
  proof -
    have "x \<in> own (vd im) f links" using that by (simp add: own_def)
    moreover have "x \<notin> ?B" using 2(5) that by (auto simp: linked_def index_def split: if_splits)
    ultimately have "vd im3 x = vd im2 x" using C3(3) 2(6,7) db(1,5) by (metis lessThan_iff less_Suc_eq Suc_eq_plus1 subsetD)
    moreover have "x \<noteq> b" using bo(1) that by (auto simp: own_def)
    ultimately show ?thesis by (simp add: D2)
  qed
  then have st: "stored (vd im3) links done" by (rule stored_cong [OF 2(9)])
  have "b \<notin> ?B" using bo(1) BO by blast
  then have b3: "vd im3 b k = ?c ! k" if "k < length ?c" for k
    using C3(3) [of b] bo(2) db(5) that put_list_simps(2) [of k ?c 0] by (simp add: db(6))
  have dn: "length done = 4096 * length links" using 2(10) by simp
  have st3: "stored (vd im3) (links @ [b]) (done @ ?c)" by (rule stored_snoc [OF st dn _ _ b3]) simp_all
  have full: "length (done @ ?c) = 4096 * length (links @ [b]) \<or> drop 4096 (c # cs) = []"
    using dn by auto
  have nb3: "nextbno im \<le> nextbno im3" "b < nextbno im3" using C3(2) db(1,5) by auto
  have fs: "fblk f < nextbno im3" "own (vd im3) f (links @ [b]) \<subseteq> {..<nextbno im3}" "fblk f \<notin> own (vd im3) f (links @ [b])"
    using sb3(2) 2(4,6,7) nb3 bo(2) db(1,5) C3(2) by fastforce+
  have l3: "iblk + 1 = length (links @ [b])" using 2(8) by simp
  from 2(1) [OF r(1) refl r(2) refl r(3) C3(1) 2(3) fs(1) sb3(1) fs(2,3) l3 st3 full r(4)]
  obtain links' where l': "linked (vd im') f links'" "changes f (index (vd im3) f (links @ [b])) im3 im'"
    "own (vd im') f links' \<subseteq> own (vd im3) f (links @ [b]) \<union> {nextbno im3..<nextbno im'}"
    "\<forall>k < OFF_DIRECT. fb (vd im') f k = fb (vd im3) f k" "stored (vd im') links' ((done @ ?c) @ drop 4096 (c # cs))"
    by blast
  have "index (vd im3) f (links @ [b]) \<inter> set (links @ [b]) = {}" using sb3(1) by (auto simp: linked_def index_def split: if_splits)
  then have ix3: "index (vd im3) f (links @ [b]) \<subseteq> ?B \<union> {nextbno im..}"
    using sb3(2) db(1,5) unfolding own_index by auto
  have c: "changes f ?B im im3" by (rule changes_trans [OF db(2) c3]) simp
  have "changes f ?B im im'" by (rule changes_trans [OF c l'(2) ix3])
  moreover have "own (vd im3) f (links @ [b]) \<subseteq> own (vd im) f links \<union> {nextbno im..<nextbno im3}"
    using sb3(2) db(1,5) C3(2) by auto
  then have "own (vd im') f links' \<subseteq> own (vd im) f links \<union> {nextbno im..<nextbno im'}"
    by (rule grown_trans [OF l'(3) _ nb3(1) changesD(2) [OF l'(2)]])
  moreover have "(done @ ?c) @ drop 4096 (c # cs) = done @ c # cs" by simp
  ultimately show ?case using l'(1,4,5) sb3(3) by (metis)
qed

section \<open>Directories\<close>

text \<open>The entries \<open>L\<close> of a directory, the links to its blocks, and the blocks of each entry.\<close>

definition dir_state :: "(nat \<Rightarrow> bytes) \<Rightarrow> fptr \<Rightarrow> (u8 list \<times> node) list \<Rightarrow> nat list \<Rightarrow> nat set list \<Rightarrow> bool" where
  "dir_state D p L links Bs \<longleftrightarrow> dir_links D p links \<and> length Bs = length L \<and> length L \<le> 16 * length links \<and>
     (\<forall>j < length L. named D (slot links j) (fst (L ! j)) \<and> holds D (slot links j) (snd (L ! j)) (Bs ! j)) \<and>
     (\<forall>j. length L \<le> j \<longrightarrow> j < 16 * length links \<longrightarrow> (\<forall>k < 256. fb D (slot links j) k = 0)) \<and>
     disjoint_blocks (own D p links) Bs"

lemma holds_dir_iff:
  "holds D p (Dir es) B \<longleftrightarrow> (\<exists>links Bs. dir_state D p (filter shown es) links Bs \<and> B = own D p links \<union> \<Union> (set Bs))"
proof
  assume "holds D p (Dir es) B"
  then show "\<exists>links Bs. dir_state D p (filter shown es) links Bs \<and> B = own D p links \<union> \<Union> (set Bs)"
    by (rule holds_dirE) (auto simp: dir_state_def)
next
  assume "\<exists>links Bs. dir_state D p (filter shown es) links Bs \<and> B = own D p links \<union> \<Union> (set Bs)"
  then obtain links Bs where "dir_state D p (filter shown es) links Bs" "B = own D p links \<union> \<Union> (set Bs)" by blast
  then show "holds D p (Dir es) B" by (intro holds.holds_dir [of D p links "filter shown es" es Bs]) (simp_all add: dir_state_def)
qed

definition name_ok :: "u8 list \<Rightarrow> bool" where
  "name_ok name \<longleftrightarrow> name \<noteq> [] \<and> length name \<le> 127 \<and> 0 \<notin> set name \<and> 0x2F \<notin> set name"

lemma named_first: "named D p name \<Longrightarrow> name_ok name \<Longrightarrow> fb D p 0 \<noteq> 0"
  by (cases name) (auto simp: named_def name_ok_def)

lemma find_ge: "find (\<lambda>k. n \<le> k) [0..<m] = (if n < m then Some n else None)" for n :: nat
proof (induction m)
  case (Suc m)
  have "find P (xs @ [x]) = (case find P xs of Some y \<Rightarrow> Some y | None \<Rightarrow> if P x then Some x else None)" for P :: "nat \<Rightarrow> bool" and xs x
    by (induction xs) auto
  with Suc show ?case by auto
qed simp

lemma dir_linksD:
  assumes "dir_links D p links"
  shows "linked D p links" "unat (fw D p OFF_SIZE div 4096) = length links" "fw D p OFF_TYPE = FTYPE_DIR"
proof -
  show l: "linked D p links" and "fw D p OFF_TYPE = FTYPE_DIR" using assms by (simp_all add: dir_links_def)
  have "length links \<le> 1024" using l by (simp add: linked_def)
  then have "unat (of_nat (4096 * length links) :: u32) = 4096 * length links" by (intro unat_of_nat_u32) simp
  then show "unat (fw D p OFF_SIZE div 4096) = length links" using assms by (simp add: dir_links_def unat_div)
qed

lemma dir_block_eq:
  assumes p: "ptr_ok p" and l: "linked (vd im) p links" and i: "i < length links"
  shows "dir_block p i im = Some (links ! i)"
proof -
  have b: "links ! i < 1024" using l i by (auto simp: linked_def)
  have i4: "i < 1024" using l i by (simp add: linked_def)
  show ?thesis
  proof (cases "i < 10")
    case True
    then have "fw (vd im) p (OFF_DIRECT + 4 * i) = of_nat (links ! i)" using l i unfolding linked_def by auto
    then show ?thesis using True b by (simp add: dir_block_def fget_vd [OF p] unat_block)
  next
    case False
    define x where "x = unat (fw (vd im) p OFF_INDIRECT)"
    have x: "3 \<le> x" "x < 1024" "get32 (vd im x) (4 * i) = of_nat (links ! i)"
      using l i False by (auto simp: linked_def x_def split: if_splits)
    then have "blk_data im x = vd im x" by (simp add: vd_def)
    then show ?thesis using False x i4 b by (simp add: dir_block_def fget_vd [OF p] x_def [symmetric] Let_def NBLOCK_def unat_block)
  qed
qed

lemma find_free_eq:
  assumes p: "ptr_ok p" and st: "dir_state (vd im) p L links Bs" and nm: "\<forall>e \<in> set L. name_ok (fst e)"
    and i: "i \<le> length links" "16 * i \<le> length L"
  shows "find_free p [i..<length links] im = Some (if length L < 16 * length links then Some (slot links (length L)) else None)"
  using i
proof (induction i rule: inc_induct)
  case base
  then show ?case by simp
next
  case (step i)
  have l: "linked (vd im) p links" using st by (simp add: dir_state_def dir_links_def)
  have b: "3 \<le> links ! i" "links ! i < 1024" using l step(2) by (auto simp: linked_def)
  have "blk_data im (links ! i) (256 * k) = 0 \<longleftrightarrow> length L - 16 * i \<le> k" if k: "k < 16" for k
  proof -
    have s: "slot links (16 * i + k) = Slot (links ! i) (256 * k)" using k by (simp add: slot_def)
    have "blk_data im (links ! i) (256 * k) = fb (vd im) (slot links (16 * i + k)) 0" using b by (simp add: s fb_def vd_def)
    moreover have "fb (vd im) (slot links (16 * i + k)) 0 = 0 \<longleftrightarrow> length L \<le> 16 * i + k"
    proof
      assume z: "fb (vd im) (slot links (16 * i + k)) 0 = 0"
      show "length L \<le> 16 * i + k"
      proof (rule ccontr)
        assume "\<not> length L \<le> 16 * i + k"
        then have j: "16 * i + k < length L" by simp
        then have "named (vd im) (slot links (16 * i + k)) (fst (L ! (16 * i + k)))" using st by (simp add: dir_state_def)
        from named_first [OF this] nm j z show False by simp
      qed
    next
      assume "length L \<le> 16 * i + k"
      then show "fb (vd im) (slot links (16 * i + k)) 0 = 0" using st step(2) k by (simp add: dir_state_def)
    qed
    ultimately show ?thesis by auto
  qed
  then have "free_slot (links ! i) im = find (\<lambda>k. length L - 16 * i \<le> k) [0..<16]"
    unfolding free_slot_def FILE2BLK_def by (intro find_cong) auto
  then have fs: "free_slot (links ! i) im = (if length L - 16 * i < 16 then Some (length L - 16 * i) else None)"
    by (simp add: find_ge)
  show ?case
  proof (cases "length L - 16 * i < 16")
    case True
    then have d: "length L div 16 = i" using step(4) by (intro div_nat_eqI) simp_all
    then have "length L mod 16 = length L - 16 * i" by (simp add: modulo_nat_def)
    with d show ?thesis using True step(2,4) b dir_block_eq [OF p l step(2)]
      by (simp add: upt_conv_Cons [OF step(2)] fs slot_def NBLOCK_def)
  next
    case False
    then show ?thesis using step b dir_block_eq [OF p l step(2)]
      by (simp add: upt_conv_Cons [OF step(2)] fs NBLOCK_def)
  qed
qed

lemma entry_kept:
  assumes "named D r name" "holds D r n B" "name_ok name" "\<And>k. k < 256 \<Longrightarrow> fb D' r k = fb D r k" "\<And>b. b \<in> B \<Longrightarrow> D' b = D b"
  shows "named D' r name \<and> holds D' r n B"
  using assms holds_cong [OF assms(2,4,5)] by (simp add: named_def name_ok_def)

lemma disjoint_blocksD: "disjoint_blocks X Bs \<Longrightarrow> X \<inter> \<Union> (set Bs) = {}"
  by (force simp: disjoint_blocks_def in_set_conv_nth)

lemma disjoint_blocks_own:
  assumes "disjoint_blocks X Bs" "Y \<inter> \<Union> (set Bs) = {}"
  shows "disjoint_blocks Y Bs"
proof -
  have "Bs ! j \<inter> Y = {}" if "j < length Bs" for j using assms(2) nth_mem [OF that] by blast
  then show ?thesis using assms(1) by (simp add: disjoint_blocks_def)
qed

text \<open>A new block for entries.\<close>

lemma dir_grow:
  assumes st: "dir_state D p L links Bs" and nm: "\<forall>e \<in> set L. name_ok (fst e)" and L: "length L = 16 * length links"
    and dl: "dir_links D' p (links @ [b])" and o: "own D' p (links @ [b]) \<subseteq> own D p links \<union> {b} \<union> N" "N \<inter> \<Union> (set Bs) = {}" "b \<notin> \<Union> (set Bs)"
    and z: "D' b = (\<lambda>_. 0)" and k: "\<And>x. x \<in> set links \<Longrightarrow> D' x = D x" "\<And>x. x \<in> \<Union> (set Bs) \<Longrightarrow> D' x = D x"
  shows "dir_state D' p L (links @ [b]) Bs"
  unfolding dir_state_def
proof (intro conjI allI impI)
  have sl: "slot (links @ [b]) j = slot links j" if "j < 16 * length links" for j
    using that by (simp add: slot_def nth_append less_mult_imp_div_less mult.commute)
  show "dir_links D' p (links @ [b])" "length Bs = length L" "length L \<le> 16 * length (links @ [b])"
    using dl st L by (simp_all add: dir_state_def)
  fix j
  show "named D' (slot (links @ [b]) j) (fst (L ! j))" "holds D' (slot (links @ [b]) j) (snd (L ! j)) (Bs ! j)" if j: "j < length L"
  proof -
    have "Bs ! j \<in> set Bs" using st j by (simp add: dir_state_def)
    then have kb: "\<And>x. x \<in> Bs ! j \<Longrightarrow> D' x = D x" using k(2) by blast
    have "links ! (j div 16) \<in> set links" using j L by (simp add: less_mult_imp_div_less mult.commute)
    then have "fb D' (slot links j) k = fb D (slot links j) k" for k using k(1) by (simp add: fb_def slot_def)
    moreover have "named D (slot links j) (fst (L ! j))" "holds D (slot links j) (snd (L ! j)) (Bs ! j)" "name_ok (fst (L ! j))"
      using st j nm by (simp_all add: dir_state_def)
    ultimately show "named D' (slot (links @ [b]) j) (fst (L ! j))" "holds D' (slot (links @ [b]) j) (snd (L ! j)) (Bs ! j)"
      using entry_kept [of D "slot links j" "fst (L ! j)" "snd (L ! j)" "Bs ! j" D'] kb sl j L by auto
  qed
  fix k :: nat assume "length L \<le> j" "j < 16 * length (links @ [b])"
  then have "16 * length links \<le> j" "j < 16 * length links + 16" using L by simp_all
  then have "j div 16 = length links" by (intro div_nat_eqI) simp_all
  then show "fb D' (slot (links @ [b]) j) k = 0" by (simp add: fb_def slot_def z)
next
  have dj: "disjoint_blocks (own D p links) Bs" using st by (simp add: dir_state_def)
  show "disjoint_blocks (own D' p (links @ [b])) Bs"
    by (rule disjoint_blocks_own [OF dj]) (use o disjoint_blocksD [OF dj] in blast)
qed

lemma fw_low:
  assumes "\<And>k. k < OFF_DIRECT \<Longrightarrow> fb D' p k = fb D p k" "k + 4 \<le> OFF_DIRECT"
  shows "fw D' p k = fw D p k"
  unfolding fw_def
proof (rule get32_cong)
  fix i :: nat assume "i < 4"
  then show "D' (fblk p) (foff p + k + i) = D (fblk p) (foff p + k + i)"
    using assms(1) [of "k + i"] assms(2) by (simp add: fb_def add.assoc)
qed

lemma create_file_ok:
  assumes ok: "fmt_ok im" "ptr_ok p" "fblk p < nextbno im" and st: "dir_state (vd im) p L links Bs" and nm: "\<forall>e \<in> set L. name_ok (fst e)"
    and B: "own (vd im) p links \<union> \<Union> (set Bs) \<subseteq> {..<nextbno im}" "fblk p \<notin> own (vd im) p links \<union> \<Union> (set Bs)"
    and r: "create_file p im = Some (q, im')"
  shows "\<exists>links'. dir_state (vd im') p L links' Bs \<and> length L < 16 * length links' \<and> q = slot links' (length L) \<and>
    changes p (index (vd im) p links) im im' \<and> own (vd im') p links' \<subseteq> own (vd im) p links \<union> {nextbno im..<nextbno im'} \<and>
    (\<forall>k < OFF_SIZE. fb (vd im') p k = fb (vd im) p k)"
proof -
  have dl: "dir_links (vd im) p links" using st by (simp add: dir_state_def)
  note l = dir_linksD [OF dl]
  have n: "unat (fget p OFF_SIZE im div 4096) = length links" by (simp add: fget_vd [OF ok(2)] l(2))
  have ff: "find_free p [0..<length links] im = Some (if length L < 16 * length links then Some (slot links (length L)) else None)"
    by (rule find_free_eq [OF ok(2) st nm]) simp_all
  show ?thesis
  proof (cases "length L < 16 * length links")
    case True
    then have "q = slot links (length L)" "im' = im" using r by (simp_all add: create_file_def n ff)
    then show ?thesis using True st changes_refl [OF ok(1)] by (intro exI [of _ links]) auto
  next
    case False
    then have L: "length L = 16 * length links" using st by (simp add: dir_state_def)
    from False r obtain b where mk: "make_link_block p (length links) im = Some (b, im')" and q: "q = Slot b 0"
      by (auto simp: create_file_def n ff split: bind_splits)
    from mk obtain im1 im2 where r1: "next_block BLOCK_FILE im = Some (b, im1)" and r2: "save_block_link p (length links) b im1 = Some im2"
      and im': "im' = fput p OFF_SIZE (fget p OFF_SIZE im2 + 4096) im2"
      by (auto simp: make_link_block_def split: bind_splits)
    note nb = next_block_changes [OF ok(1) r1]
    have bo: "b \<notin> own (vd im) p links" "b \<noteq> fblk p" "b \<notin> \<Union> (set Bs)" using B(1) ok(3) nb(2) by auto
    have sl: "linked (vd im2) p (links @ [b]) \<and> changes p (index (vd im1) p links) im1 im2 \<and>
      own (vd im2) p (links @ [b]) \<subseteq> own (vd im1) p links \<union> {b} \<union> {nextbno im1..<nextbno im2} \<and>
      (\<forall>k < OFF_DIRECT. fb (vd im2) p k = fb (vd im1) p k)"
      by (rule save_block_link_ok [OF changesD(1) [OF nb(1)] ok(2)]) (use l(1) B bo nb r2 ok(3) in auto)
    have c2: "changes p (index (vd im) p links) im1 im2" using sl by (simp add: nb(4))
    note C2 = changesD [OF c2]
    have c3: "changes p (index (vd im) p links) im2 im'"
      unfolding im' by (rule fput_changes [OF C2(1) ok(2)]) (use C2(2) nb ok(3) in \<open>simp_all add: OFF_SIZE_def\<close>)
    have c1: "changes p (index (vd im) p links) im im2" by (rule changes_trans [OF nb(1) c2]) simp
    have c: "changes p (index (vd im) p links) im im'" by (rule changes_trans [OF c1 c3]) simp
    have o2: "own (vd im2) p (links @ [b]) \<subseteq> own (vd im) p links \<union> {b} \<union> {nextbno im1..<nextbno im2}" using sl by (simp add: nb(4))
    have keep: "vd im' x = vd im2 x" if "x \<noteq> fblk p" for x using that by (simp add: im' fput_vd [OF ok(2)])
    have po: "fblk p \<notin> own (vd im2) p (links @ [b])" using o2 B(2) bo(2) ok(3) nb(2,3) by auto
    have f: "fw (vd im') p k = fw (vd im2) p k" if "OFF_TYPE \<le> k" for k
      using that unfolding im' by (intro fput_fw_other [OF ok(2)]) (simp add: OFF_SIZE_def OFF_TYPE_def)
    have fi: "fw (vd im') p OFF_INDIRECT = fw (vd im2) p OFF_INDIRECT" by (rule f) (simp add: OFF_TYPE_def OFF_INDIRECT_def)
    have fd: "fw (vd im') p (OFF_DIRECT + 4 * k) = fw (vd im2) p (OFF_DIRECT + 4 * k)" for k
      by (rule f) (simp add: OFF_TYPE_def OFF_DIRECT_def)
    have ko: "vd im' x = vd im2 x" if "x \<in> index (vd im2) p (links @ [b])" for x
      by (rule keep) (use that po in \<open>auto simp: own_index\<close>)
    have lk2: "linked (vd im2) p (links @ [b])" using sl by blast
    have lk: "linked (vd im') p (links @ [b])" "own (vd im') p (links @ [b]) = own (vd im2) p (links @ [b])"
      by (rule linked_fields [OF lk2 fi fd ko]; assumption)+
    have low: "fw (vd im2) p k = fw (vd im) p k" if "k + 4 \<le> OFF_DIRECT" for k
      using fw_low [of "vd im2" p "vd im" k] sl that by (simp add: nb(4))
    have dl': "dir_links (vd im') p (links @ [b])"
      unfolding dir_links_def
    proof (intro conjI lk(1))
      show "fw (vd im') p OFF_SIZE = of_nat (4096 * length (links @ [b]))"
        using dl low [of OFF_SIZE] unfolding im' fput_fw [OF ok(2)]
        by (simp add: fget_vd [OF ok(2)] dir_links_def OFF_SIZE_def OFF_DIRECT_def algebra_simps)
      show "fw (vd im') p OFF_TYPE = FTYPE_DIR"
        using l(3) low [of OFF_TYPE] unfolding im'
        by (subst fput_fw_other [OF ok(2)]) (simp_all add: OFF_SIZE_def OFF_TYPE_def OFF_DIRECT_def)
    qed
    have ix: "index (vd im) p links \<subseteq> own (vd im) p links" by (simp add: own_index)
    have dj: "disjoint_blocks (own (vd im) p links) Bs" using st by (simp add: dir_state_def)
    have kl: "vd im' x = vd im x" if "x \<in> set links" for x
    proof (rule changesD(3) [OF c])
      show "x < nextbno im" "x \<noteq> fblk p" using that B by (auto simp: own_def)
      show "x \<notin> index (vd im) p links" using that l(1) by (auto simp: linked_def index_def split: if_splits)
    qed
    have kb: "vd im' x = vd im x" if "x \<in> \<Union> (set Bs)" for x
    proof (rule changesD(3) [OF c])
      show "x < nextbno im" "x \<noteq> fblk p" using that B by auto
      show "x \<notin> index (vd im) p links" using that disjoint_blocksD [OF dj] ix by blast
    qed
    have "vd im2 b = vd im1 b" by (rule C2(3)) (use nb bo ix in auto)
    moreover have "vd im b = (\<lambda>_. 0)" using ok(1) nb(2) by (simp add: fmt_ok_def)
    ultimately have z: "vd im' b = (\<lambda>_. 0)" using keep bo(2) by (simp add: nb(4))
    have "dir_state (vd im') p L (links @ [b]) Bs"
      by (rule dir_grow [OF st nm L dl' _ _ bo(3) z kl kb, of "{nextbno im1..<nextbno im2}"])
         (use o2 lk(2) B(1) nb(2,3) in auto)
    moreover have "own (vd im') p (links @ [b]) \<subseteq> own (vd im) p links \<union> {nextbno im..<nextbno im'}"
    proof -
      have "nextbno im' = nextbno im2" by (simp add: im')
      moreover have "own (vd im2) p (links @ [b]) \<subseteq> own (vd im) p links \<union> {nextbno im..<nextbno im2}"
      proof (rule grown_trans [OF _ _ _ C2(2)])
        show "own (vd im2) p (links @ [b]) \<subseteq> (own (vd im) p links \<union> {b}) \<union> {nextbno im1..<nextbno im2}" by (rule o2)
        show "own (vd im) p links \<union> {b} \<subseteq> own (vd im) p links \<union> {nextbno im..<nextbno im1}" using nb(2,3) by auto
      qed (use nb(2,3) in simp)
      ultimately show ?thesis using lk(2) by simp
    qed
    moreover have "q = slot (links @ [b]) (length L)" using L by (simp add: q slot_def)
    moreover have "\<forall>k < OFF_SIZE. fb (vd im') p k = fb (vd im) p k"
      using sl by (simp add: im' fput_fb [OF ok(2)] nb(4) OFF_SIZE_def OFF_DIRECT_def)
    ultimately show ?thesis using c L by (intro exI [of _ "links @ [b]"]) simp
  qed
qed

section \<open>Adding an entry\<close>

lemma slot_inj:
  assumes "distinct links" "i < 16 * length links" "j < 16 * length links" "i \<noteq> j" "fblk (slot links i) = fblk (slot links j)"
  shows "foff (slot links i) + 256 \<le> foff (slot links j) \<or> foff (slot links j) + 256 \<le> foff (slot links i)"
proof -
  have "i div 16 < length links" "j div 16 < length links" using assms(2,3) by (simp_all add: less_mult_imp_div_less mult.commute)
  then have "i div 16 = j div 16" using assms(1,5) by (simp add: slot_def nth_eq_iff_index_eq)
  moreover have "i mod 16 \<noteq> j mod 16" using assms(4) calculation by (metis div_mult_mod_eq)
  ultimately show ?thesis by (auto simp: slot_def)
qed

lemma slot_ok:
  assumes "linked D p links" "j < 16 * length links"
  shows "ptr_ok (slot links j)" "slot links j \<noteq> Root" "foff (slot links j) + 256 \<le> 4096"
proof -
  have "links ! (j div 16) \<in> set links" using assms(2) by (simp add: less_mult_imp_div_less mult.commute)
  then have "3 \<le> links ! (j div 16)" using assms(1) by (simp add: linked_def)
  moreover have "j mod 16 < 16" by simp
  then have "256 * (j mod 16) + 256 \<le> 4096" by linarith
  ultimately show "ptr_ok (slot links j)" "slot links j \<noteq> Root" "foff (slot links j) + 256 \<le> 4096"
    by (simp_all add: slot_def ptr_ok_def)
qed

text \<open>\<open>D'\<close> differs from \<open>D\<close> in the entry \<open>q\<close> and in blocks from \<open>N\<close> on.\<close>

definition entry_only :: "(nat \<Rightarrow> bytes) \<Rightarrow> (nat \<Rightarrow> bytes) \<Rightarrow> fptr \<Rightarrow> nat \<Rightarrow> bool" where
  "entry_only D D' q N \<longleftrightarrow>
     (\<forall>b k. b < N \<longrightarrow> \<not> (b = fblk q \<and> foff q \<le> k \<and> k < foff q + 256) \<longrightarrow> D' b k = D b k)"

lemma changes_entry_only: "changes q {} im im' \<Longrightarrow> entry_only (vd im) (vd im') q (nextbno im)"
  by (simp add: changes_def entry_only_def)

lemma entry_onlyD:
  assumes "entry_only D D' q N" "b < N"
  shows "b \<noteq> fblk q \<Longrightarrow> D' b = D b" "k < foff q \<or> foff q + 256 \<le> k \<Longrightarrow> D' b k = D b k"
  using assms by (auto simp: entry_only_def fun_eq_iff)

lemma dir_add:
  assumes st: "dir_state D p L links Bs" and nm: "\<forall>e \<in> set L. name_ok (fst e)" and L: "length L < 16 * length links"
    and e: "entry_only D D' (slot links (length L)) N" and N: "own D p links \<union> \<Union> (set Bs) \<subseteq> {..<N}" "fblk p < N"
    and po: "fblk p \<notin> own D p links" and q: "named D' (slot links (length L)) name" "holds D' (slot links (length L)) n Bq"
    and Bq: "Bq \<inter> {..<N} = {}"
  shows "dir_state D' p (L @ [(name, n)]) links (Bs @ [Bq])" "own D' p links = own D p links"
proof -
  let ?q = "slot links (length L)"
  note E = entry_onlyD [OF e]
  have dl: "dir_links D p links" using st by (simp add: dir_state_def)
  note l = dir_linksD [OF dl]
  have lk: "linked D p links" by (rule l(1))
  have qo: "fblk ?q \<in> set links" using L by (simp add: slot_def less_mult_imp_div_less mult.commute)
  have qp: "fblk ?q \<noteq> fblk p" using qo po by (auto simp: own_def)
  have pe: "D' (fblk p) = D (fblk p)" using E(1) N(2) qp by simp
  have f: "fw D' p k = fw D p k" for k by (simp add: fw_def pe)
  have dj: "disjoint_blocks (own D p links) Bs" using st by (simp add: dir_state_def)
  have "D' x = D x" if "x \<in> index D p links" for x
  proof (rule E(1))
    show "x < N" using that N by (auto simp: own_index)
    show "x \<noteq> fblk ?q" using that qo lk by (auto simp: linked_def index_def split: if_splits)
  qed
  note lf = linked_fields [OF lk f f this]
  show o: "own D' p links = own D p links" using lf(2) .
  have slots: "fb D' (slot links j) k = fb D (slot links j) k" if j: "j < 16 * length links" "j \<noteq> length L" and k: "k < 256" for j k
  proof (cases "fblk (slot links j) = fblk ?q")
    case True
    have "distinct links" using lk by (simp add: linked_def)
    from slot_inj [OF this j(1) L j(2) True] k have "foff (slot links j) + k < foff ?q \<or> foff ?q + 256 \<le> foff (slot links j) + k" by auto
    then show ?thesis using E(2) N(1) slot_own [OF j(1), of D p] by (auto simp: fb_def)
  next
    case False
    then show ?thesis using E(1) N(1) slot_own [OF j(1), of D p] by (auto simp: fb_def)
  qed
  show "dir_state D' p (L @ [(name, n)]) links (Bs @ [Bq])"
    unfolding dir_state_def
  proof (intro conjI allI impI)
    show "dir_links D' p links" using dl lf(1) by (simp add: dir_links_def f)
    show "length (Bs @ [Bq]) = length (L @ [(name, n)])" "length (L @ [(name, n)]) \<le> 16 * length links"
      using st L by (simp_all add: dir_state_def)
    fix j
    show "named D' (slot links j) (fst ((L @ [(name, n)]) ! j))" "holds D' (slot links j) (snd ((L @ [(name, n)]) ! j)) ((Bs @ [Bq]) ! j)"
      if j: "j < length (L @ [(name, n)])"
    proof -
      have lb: "length Bs = length L" using st by (simp add: dir_state_def)
      have "named D' (slot links j) (fst (L ! j)) \<and> holds D' (slot links j) (snd (L ! j)) (Bs ! j)" if jl: "j < length L"
      proof (rule entry_kept)
        show "named D (slot links j) (fst (L ! j))" "holds D (slot links j) (snd (L ! j)) (Bs ! j)" "name_ok (fst (L ! j))"
          using st nm jl by (simp_all add: dir_state_def)
        show "fb D' (slot links j) k = fb D (slot links j) k" if "k < 256" for k using slots that jl L by simp
        show "D' x = D x" if x: "x \<in> Bs ! j" for x
        proof (rule E(1))
          have "Bs ! j \<in> set Bs" using jl lb by simp
          then show "x < N" "x \<noteq> fblk ?q" using x N(1) disjoint_blocksD [OF dj] qo by (auto simp: own_def)
        qed
      qed
      then show "named D' (slot links j) (fst ((L @ [(name, n)]) ! j))" "holds D' (slot links j) (snd ((L @ [(name, n)]) ! j)) ((Bs @ [Bq]) ! j)"
        using q j lb by (auto simp: nth_append less_Suc_eq)
    qed
    fix k :: nat assume "length (L @ [(name, n)]) \<le> j" "j < 16 * length links" "k < 256"
    then show "fb D' (slot links j) k = 0" using slots st by (simp add: dir_state_def)
  next
    have "Bq \<inter> own D p links = {}" "\<forall>B \<in> set Bs. B \<inter> Bq = {}" using Bq N(1) by auto
    then show "disjoint_blocks (own D' p links) (Bs @ [Bq])"
      using dj unfolding o disjoint_blocks_def by (auto simp: nth_append less_Suc_eq)
  qed
qed

text \<open>A directory with its blocks \<open>B\<close>, in an image that is being made.\<close>

definition dir_at :: "image \<Rightarrow> fptr \<Rightarrow> (u8 list \<times> node) list \<Rightarrow> nat set \<Rightarrow> bool" where
  "dir_at im p L B \<longleftrightarrow> fmt_ok im \<and> ptr_ok p \<and> fblk p < nextbno im \<and> fblk p \<notin> B \<and> B \<subseteq> {..<nextbno im} \<and>
     (\<forall>e \<in> set L. name_ok (fst e)) \<and> (\<exists>links Bs. dir_state (vd im) p L links Bs \<and> B = own (vd im) p links \<union> \<Union> (set Bs))"

text \<open>What an operation on the directory \<open>p\<close> with the blocks \<open>B\<close> does besides.\<close>

definition adds :: "fptr \<Rightarrow> nat set \<Rightarrow> nat set \<Rightarrow> image \<Rightarrow> image \<Rightarrow> bool" where
  "adds p B B' im im' \<longleftrightarrow> changes p B im im' \<and> B' \<subseteq> B \<union> {nextbno im..<nextbno im'} \<and>
     (\<forall>k < OFF_SIZE. fb (vd im') p k = fb (vd im) p k)"

lemma adds_refl: "fmt_ok im \<Longrightarrow> adds p B B im im"
  by (simp add: adds_def changes_refl)

lemma adds_trans:
  assumes "adds p B B1 im im1" "adds p B1 B2 im1 im2"
  shows "adds p B B2 im im2"
proof -
  have "B1 \<subseteq> B \<union> {nextbno im..}" using assms(1) by (auto simp: adds_def)
  with assms have "changes p B im im2" by (auto simp: adds_def intro: changes_trans)
  moreover have "B2 \<subseteq> B \<union> {nextbno im..<nextbno im2}"
    using assms by (intro grown_trans [of B2 B1 "nextbno im1" "nextbno im2" B "nextbno im"]) (auto simp: adds_def changes_def)
  ultimately show ?thesis using assms by (simp add: adds_def)
qed

text \<open>
  A new entry \<open>q\<close>, which is zero. When it has been filled with the file \<open>n\<close>, the directory has one
  entry more.
\<close>

lemma create_ok:
  assumes d: "dir_at im p L B" and r: "create_file p im = Some (q, im1)"
  shows "\<exists>B1. dir_at im1 p L B1 \<and> adds p B B1 im im1 \<and> ptr_ok q \<and> q \<noteq> Root \<and> foff q + 256 \<le> 4096 \<and> fblk q \<in> B1 \<and>
    (\<forall>k < 256. fb (vd im1) q k = 0) \<and>
    (\<forall>name n Bq im'. name_ok name \<longrightarrow> changes q {} im1 im' \<longrightarrow> named (vd im') q name \<longrightarrow> holds (vd im') q n Bq \<longrightarrow>
       Bq \<subseteq> {nextbno im1..<nextbno im'} \<longrightarrow>
       dir_at im' p (L @ [(name, n)]) (B1 \<union> Bq) \<and> adds p B1 (B1 \<union> Bq) im1 im')"
proof -
  from d have ok: "fmt_ok im" "ptr_ok p" "fblk p < nextbno im" and nm: "\<forall>e \<in> set L. name_ok (fst e)"
    and B23: "fblk p \<notin> B" "B \<subseteq> {..<nextbno im}" by (simp_all add: dir_at_def)
  from d obtain links Bs where st: "dir_state (vd im) p L links Bs" and B1: "B = own (vd im) p links \<union> \<Union> (set Bs)"
    unfolding dir_at_def by blast
  note B = B1 B23
  from create_file_ok [OF ok st nm _ _ r] B obtain links' where
    c: "dir_state (vd im1) p L links' Bs" "length L < 16 * length links'" "q = slot links' (length L)"
      "changes p (index (vd im) p links) im im1" "own (vd im1) p links' \<subseteq> own (vd im) p links \<union> {nextbno im..<nextbno im1}"
      "\<forall>k < OFF_SIZE. fb (vd im1) p k = fb (vd im) p k" by auto
  define B1 where "B1 = own (vd im1) p links' \<union> \<Union> (set Bs)"
  note C = changesD [OF c(4)]
  have ch: "changes p B im im1" by (rule changes_weaken [OF c(4)]) (auto simp: B own_index)
  have B1: "B1 \<subseteq> B \<union> {nextbno im..<nextbno im1}" using c(5) by (auto simp: B1_def B)
  then have B1n: "fblk p \<notin> B1" "B1 \<subseteq> {..<nextbno im1}" using B(2,3) ok(3) C(2) by fastforce+
  have d1: "dir_at im1 p L B1"
    using C(1,2) ok B1n nm c(1) unfolding dir_at_def B1_def by auto
  have lk: "linked (vd im1) p links'" using c(1) by (simp add: dir_state_def dir_links_def)
  note so = slot_ok [OF lk c(2)]
  have qB: "fblk q \<in> B1" using slot_own [OF c(2), of "vd im1" p] by (simp add: c(3) B1_def)
  have z: "\<forall>k < 256. fb (vd im1) q k = 0" using c(1,2,3) by (simp add: dir_state_def)
  have "dir_at im' p (L @ [(name, n)]) (B1 \<union> Bq) \<and> adds p B1 (B1 \<union> Bq) im1 im'"
    if n: "name_ok name" and q: "changes q {} im1 im'" "named (vd im') q name" "holds (vd im') q n Bq" "Bq \<subseteq> {nextbno im1..<nextbno im'}" for name n Bq im'
  proof -
    note Q = changesD [OF q(1)]
    have e: "entry_only (vd im1) (vd im') (slot links' (length L)) (nextbno im1)" using changes_entry_only [OF q(1)] by (simp add: c(3))
    have p1: "fblk p < nextbno im1" using ok(3) C(2) by simp
    have po: "fblk p \<notin> own (vd im1) p links'" using B1n(1) by (simp add: B1_def)
    have BN: "own (vd im1) p links' \<union> \<Union> (set Bs) \<subseteq> {..<nextbno im1}" using B1n(2) by (simp add: B1_def)
    have Bq: "Bq \<inter> {..<nextbno im1} = {}" using q(4) by auto
    note da = dir_add [OF c(1) nm c(2) e BN p1 po q(2) [unfolded c(3)] q(3) [unfolded c(3)] Bq]
    have "B1 \<union> Bq = own (vd im') p links' \<union> \<Union> (set (Bs @ [Bq]))" by (auto simp: da(2) B1_def)
    moreover have "fblk p \<notin> B1 \<union> Bq" "B1 \<union> Bq \<subseteq> {..<nextbno im'}" using B1n q(4) p1 Q(2) by fastforce+
    ultimately have "dir_at im' p (L @ [(name, n)]) (B1 \<union> Bq)"
      using da(1) Q(1,2) ok(2) p1 nm n unfolding dir_at_def
      by (intro conjI exI [of _ links'] exI [of _ "Bs @ [Bq]"]) auto
    moreover have "changes p B1 im1 im'" by (rule changes_weaken [OF q(1)]) (use qB in simp_all)
    moreover have "fblk p \<noteq> fblk q" using qB B1n(1) by auto
    then have "fb (vd im') p k = fb (vd im1) p k" for k using Q(3) p1 by (simp add: fb_def)
    ultimately show ?thesis using q(4) by (auto simp: adds_def)
  qed
  then show ?thesis using d1 ch B1 c(6) so qB z by (intro exI [of _ B1]) (auto simp: adds_def c(3))
qed

end
