(* ===== verification/Fs_Start.thy ===== *)
theory Fs_Start
  imports Fs_Inv Fsformat_Inv
begin

unbundle bit_operations_syntax

text \<open>
  The start of the file server, \<^verbatim>\<open>fs_init\<close>: on a disk with a super block and a bitmap in which the
  blocks of both are in use, the server starts, satisfies its invariant, and leaves the disk as it was.
\<close>

section \<open>Loading blocks\<close>

text \<open>The contents of a block: those of its page when it is in the cache.\<close>

definition content :: "fsrv \<Rightarrow> nat \<Rightarrow> bytes" where
  "content s b i = (if cached s b then cache_byte s b i else disk_byte s b i)"

definition load :: "nat \<Rightarrow> fsrv \<Rightarrow> fsrv" where
  "load b s = block_in b (block_page b s)"

lemma disk_byte_simps [simp]:
  "disk_byte (load b s) = disk_byte s" "disk_byte (s\<lparr>super := x\<rparr>) = disk_byte s" "disk_byte (s\<lparr>f_mem := m\<rparr>) = disk_byte s"
  "disk_byte (s\<lparr>f_pte := p\<rparr>) = disk_byte s" "disk_byte (s\<lparr>bitmap := x\<rparr>) = disk_byte s"
  by (simp_all add: disk_byte_def load_def fun_eq_iff)

lemma cached_simps [simp]:
  "cached (s\<lparr>super := x\<rparr>) = cached s" "cached (s\<lparr>f_mem := m\<rparr>) = cached s" "cached (s\<lparr>bitmap := x\<rparr>) = cached s"
  "cached (block_out b s) = cached s" "cached (load b s) c \<longleftrightarrow> c = b \<or> cached s c"
  using block_page_cached [of b s c] by (simp_all add: cached_def fun_eq_iff load_def)

lemma cache_byte_simps [simp]:
  "cache_byte (s\<lparr>super := x\<rparr>) = cache_byte s" "cache_byte (s\<lparr>f_pte := p\<rparr>) = cache_byte s" "cache_byte (s\<lparr>bitmap := x\<rparr>) = cache_byte s"
  by (simp_all add: cache_byte_def fun_eq_iff)

lemma load_simps [simp]:
  "f_disk (load b s) = f_disk s" "super (load b s) = super s" "bitmap (load b s) = bitmap s" "f_oom (load b s) = f_oom s"
  by (simp_all add: load_def)

lemma load_cache:
  assumes "b \<le> 0x40000" "c \<le> 0x40000" "i < 4096"
  shows "cache_byte (load b s) c i = (if c = b then disk_byte s b i else cache_byte s c i)"
proof (cases "c = b")
  case True
  then show ?thesis using block_in_cache [OF assms(1,3), of "block_page b s"] by (simp add: load_def disk_byte_def)
next
  case False
  have "VPN (disk_addr (of_nat c) + of_nat i) \<noteq> 0x10000 + b" using block_addr_VPN [OF assms(2,3)] False by simp
  then show ?thesis using False block_in_same [OF assms(1), of "block_page b s"] block_page_same [OF assms(1), of s]
    by (simp add: load_def cache_byte_def same_but_def)
qed

lemma ld32_block: "ld32 (f_mem s) (disk_addr (of_nat b) + of_nat k) = get32 (cache_byte s b) k"
  by (simp add: ld32_def get32_def cache_byte_def ac_simps)

lemma rd32_block:
  assumes "b \<le> 0x40000" "k < 4096" "cached s b"
  shows "rd32 (disk_addr (of_nat b) + of_nat k) s = Some (get32 (cache_byte s b) k)"
  using assms block_addr_VPN [OF assms(1,2)] by (simp add: rd32_def va_is_mapped_def cached_def ld32_block)

lemma nblk_cache: "nblk s = unat (get32 (cache_byte s 1) 4)"
  using ld32_block [of s 1 4] by (simp add: nblk_def)

lemma nblocks_cached:
  assumes "super s = disk_addr 1" "cached s 1"
  shows "s_nblocks s = Some (of_nat (nblk s))"
  using rd32_block [of 1 4 s] assms by (simp add: s_nblocks_def nblk_cache)

text \<open>Reading a block before the bitmap is there.\<close>

lemma read_early:
  assumes "bitmap s = 0" "b < 0x40000" "\<forall>k. \<not> f_oom s k"
    and "super s = 0 \<or> super s = disk_addr 1 \<and> cached s 1 \<and> b < nblk s \<and> nblk s \<le> 0x40000"
  shows "read_block (of_nat b) s = Some (if cached s b then (Inr (disk_addr (of_nat b), False), s)
    else (Inr (disk_addr (of_nat b), True), load b s))"
proof -
  have b: "b \<le> 0x40000" using assms(2) by simp
  have lt: "\<not> (of_nat (nblk s) :: u32) \<le> of_nat b" if "b < nblk s" "nblk s \<le> 0x40000"
    using that by (simp add: word_le_nat_alt disk_addr_of_nat)
  show ?thesis
    using assms lt nblocks_cached [of s] block_mapped_iff(1) [OF b, of s] block_mapped_iff(2) [OF b]
    by (auto simp: read_block_def mem_alloc_block cached_def load_def block_in_def Let_def)
qed

section \<open>The check of block writes\<close>

text \<open>Copying a block within the cache.\<close>

lemma apart_blocks:
  assumes "b \<le> 0x40000" "c \<le> 0x40000" "b \<noteq> c"
  shows "apart (disk_addr (of_nat b)) (disk_addr (of_nat c)) 4096"
  unfolding apart_def
proof (intro allI impI)
  fix j :: nat assume "j < 4096"
  then show "4096 \<le> unat (disk_addr (of_nat c) + of_nat j - disk_addr (of_nat b))"
    using block_offset [OF assms(1)] block_addr_VPN [OF assms(2)] assms(3) by (metis add_left_cancel not_le)
qed

lemma copy_block_cached:
  assumes "b \<le> 0x40000" "c \<le> 0x40000" "b \<noteq> c" "cached s b" "cached s c"
  shows "\<exists>m. copy_block (disk_addr (of_nat b)) (disk_addr (of_nat c)) s = Some (s\<lparr>f_mem := m\<rparr>) \<and>
    (\<forall>d \<le> 0x40000. \<forall>i < 4096. cache_byte (s\<lparr>f_mem := m\<rparr>) d i = cache_byte s (if d = b then c else d) i)"
proof (intro exI conjI allI impI)
  let ?d = "disk_addr (of_nat b)" and ?s = "disk_addr (of_nat c)"
  have "unat ?d = daddr b" using block_addr_unat [OF assms(1), of 0] by simp
  then have "unat ?d + 4096 < 2 ^ 32 - 4" using assms(1) by (simp add: daddr_def)
  from memcpy_blit [OF this apart_blocks [OF assms(1-3)]]
  have "memcpy ?d ?s BLOCK_SIZE (f_mem s) = Some (?d, blit ?d ?s 4096 (f_mem s))" by (simp add: BLOCK_SIZE_def)
  then show "copy_block ?d ?s s = Some (s\<lparr>f_mem := blit ?d ?s 4096 (f_mem s)\<rparr>)"
    using assms(4,5) block_addr_VPN [OF assms(1), of 0] block_addr_VPN [OF assms(2), of 0]
    by (simp add: copy_block_def va_is_mapped_def cached_def)
  fix d i :: nat assume d: "d \<le> 0x40000" "i < 4096"
  have "unat (disk_addr (of_nat d) + of_nat i - ?d) < 4096 \<longleftrightarrow> d = b"
    using block_offset [OF assms(1)] block_addr_VPN [OF d] by simp
  then show "cache_byte (s\<lparr>f_mem := blit ?d ?s 4096 (f_mem s)\<rparr>) d i = cache_byte s (if d = b then c else d) i"
    by (auto simp: cache_byte_def blit_def)
qed

lemma va_mapped_block: "b \<le> 0x40000 \<Longrightarrow> i < 4096 \<Longrightarrow> va_is_mapped s (disk_addr (of_nat b) + of_nat i) = cached s b"
  using block_addr_VPN [of b i] by (simp add: va_is_mapped_def cached_def)

lemma block_addr_eq:
  assumes "d \<le> 0x40000" "i < 4096" "b \<le> 0x40000" "k < 4096"
  shows "disk_addr (of_nat d) + of_nat i = disk_addr (of_nat b) + of_nat k \<longleftrightarrow> d = b \<and> i = k"
proof -
  have "disk_addr (of_nat d) + of_nat i = disk_addr (of_nat b) + of_nat k \<longleftrightarrow> d * 4096 + i = b * 4096 + k"
    using block_addr_unat [OF assms(1,2)] block_addr_unat [OF assms(3,4)] by (simp add: word_unat_eq_iff daddr_def)
  also have "\<dots> \<longleftrightarrow> d = b \<and> i = k"
  proof
    assume e: "d * 4096 + i = b * 4096 + k"
    from arg_cong [OF e, of "\<lambda>x. x div 4096"] have "d = b" using assms(2,4) by simp
    then show "d = b \<and> i = k" using e by simp
  qed simp
  finally show ?thesis .
qed

text \<open>Writing a string into a block, and comparing one.\<close>

lemma wr_str_block:
  assumes "b \<le> 0x40000" "cached s b" "k + length xs < 4096"
  shows "\<exists>m. wr_str (disk_addr (of_nat b) + of_nat k) xs s = Some (s\<lparr>f_mem := m\<rparr>) \<and>
    (\<forall>d \<le> 0x40000. \<forall>i < 4096. cache_byte (s\<lparr>f_mem := m\<rparr>) d i =
       (if d = b \<and> k \<le> i \<and> i \<le> k + length xs then (xs @ [0]) ! (i - k) else cache_byte s d i))"
  using assms(2,3)
proof (induction xs arbitrary: k s)
  case Nil
  have e: "disk_addr (of_nat d) + of_nat i = disk_addr (of_nat b) + of_nat k \<longleftrightarrow> d = b \<and> i = k"
    if "d \<le> 0x40000" "i < 4096" for d i
    by (rule block_addr_eq [OF that assms(1)]) (use Nil in simp)
  then show ?case using Nil va_mapped_block [OF assms(1), of k s]
    by (intro exI [of _ "(f_mem s)(disk_addr (of_nat b) + of_nat k := 0)"]) (auto simp: wr8_def cache_byte_def fun_upd_def)
next
  case (Cons x xs)
  let ?a = "disk_addr (of_nat b) + of_nat k"
  have e: "disk_addr (of_nat d) + of_nat i = ?a \<longleftrightarrow> d = b \<and> i = k" if "d \<le> 0x40000" "i < 4096" for d i
    by (rule block_addr_eq [OF that assms(1)]) (use Cons.prems in simp)
  let ?t = "s\<lparr>f_mem := (f_mem s)(?a := x)\<rparr>"
  have w: "wr8 ?a x s = Some ?t" using Cons.prems va_mapped_block [OF assms(1), of k s] by (simp add: wr8_def)
  from Cons.IH [of ?t "Suc k"] Cons.prems obtain m where
    m: "wr_str (?a + 1) xs ?t = Some (?t\<lparr>f_mem := m\<rparr>)"
      "\<forall>d \<le> 0x40000. \<forall>i < 4096. cache_byte (?t\<lparr>f_mem := m\<rparr>) d i =
       (if d = b \<and> Suc k \<le> i \<and> i \<le> Suc k + length xs then (xs @ [0]) ! (i - Suc k) else cache_byte ?t d i)"
    by (auto simp: ac_simps)
  have "cache_byte ?t d i = (if d = b \<and> i = k then x else cache_byte s d i)" if "d \<le> 0x40000" "i < 4096" for d i
    using e [OF that] by (auto simp: cache_byte_def)
  then show ?case using m w
    by (intro exI [of _ m]) (auto simp: cache_byte_def nth_Cons' not_less_eq_eq)
qed

lemma name_eq_block:
  assumes "b \<le> 0x40000" "cached s b" "k + length xs < 4096" "0 \<notin> set xs"
  shows "name_eq xs (disk_addr (of_nat b) + of_nat k) s =
    Some ((\<forall>i < length xs. cache_byte s b (k + i) = xs ! i) \<and> cache_byte s b (k + length xs) = 0)"
  using assms(3,4)
proof (induction xs arbitrary: k)
  case Nil
  then show ?case using assms(2) va_mapped_block [OF assms(1), of k s] by (simp add: rd8_def cache_byte_def)
next
  case (Cons x xs)
  have r: "rd8 (disk_addr (of_nat b) + of_nat k) s = Some (cache_byte s b k)"
    using assms(2) Cons.prems va_mapped_block [OF assms(1), of k s] by (simp add: rd8_def cache_byte_def)
  have "name_eq xs (disk_addr (of_nat b) + of_nat k + 1) s =
    Some ((\<forall>i < length xs. cache_byte s b (Suc k + i) = xs ! i) \<and> cache_byte s b (Suc k + length xs) = 0)"
    using Cons.IH [of "Suc k"] Cons.prems by (simp add: ac_simps)
  then show ?case using r by (auto simp: All_less_Suc2)
qed

lemma check_write_ok:
  assumes c: "cached s 1" "\<not> cached s 0" and b: "bitmap s = 0" and m: "\<forall>k. \<not> f_oom s k"
    and eq: "\<forall>i < 4096. cache_byte s 1 i = disk_byte s 1 i"
  shows "\<exists>s'. check_write_block s = Some s' \<and> super s' = disk_addr 1 \<and> bitmap s' = 0 \<and> f_oom s' = f_oom s \<and>
    cached s' 1 \<and> (\<forall>d. 2 \<le> d \<longrightarrow> cached s' d = cached s d) \<and>
    (\<forall>d \<le> 0x40000. \<forall>i < 4096. disk_byte s' d i = disk_byte s d i \<and> (1 \<le> d \<longrightarrow> cache_byte s' d i = cache_byte s d i))"
proof -
  define s0 where "s0 = s\<lparr>super := 0\<rparr>"
  define s1 where "s1 = load 0 s0"
  have s1: "read_block 0 s0 = Some (Inr (disk_addr 0, True), s1)"
    using read_early [of s0 0] c b m by (simp add: s0_def s1_def)
  obtain m2 where m2: "copy_block (disk_addr 0) (disk_addr 1) s1 = Some (s1\<lparr>f_mem := m2\<rparr>)"
    "\<forall>d \<le> 0x40000. \<forall>i < 4096. cache_byte (s1\<lparr>f_mem := m2\<rparr>) d i = cache_byte s1 (if d = 0 then 1 else d) i"
    using copy_block_cached [of 0 1 s1] c by (auto simp: s1_def s0_def)
  define s2 where "s2 = s1\<lparr>f_mem := m2\<rparr>"
  obtain m3 where m3: "wr_str (disk_addr 1) oops_text s2 = Some (s2\<lparr>f_mem := m3\<rparr>)"
    "\<forall>d \<le> 0x40000. \<forall>i < 4096. cache_byte (s2\<lparr>f_mem := m3\<rparr>) d i = (if d = 1 \<and> i \<le> 6 then (oops_text @ [0]) ! i else cache_byte s2 d i)"
    using wr_str_block [of 1 s2 0 oops_text] c by (auto simp: s2_def s1_def s0_def oops_text_def)
  define s3 where "s3 = s2\<lparr>f_mem := m3\<rparr>"
  have ca3: "cached s3 d \<longleftrightarrow> d = 0 \<or> cached s d" for d by (simp add: s3_def s2_def s1_def s0_def)
  define s4 where "s4 = block_out 1 s3"
  have w4: "write_block 1 s3 = Some s4" using write_block_cached [of 1 s3] ca3 c by (simp add: s4_def)
  define s5 where "s5 = s4\<lparr>f_pte := (f_pte s4)(0x10001 := 0)\<rparr>"
  have u5: "mem_unmap (disk_addr 1) s4 = (Inr (), s5)"
    using block_legal [of 1] disk_addr_VPN [of 1] by (simp add: mem_unmap_def s5_def)
  have ca5: "cached s5 d \<longleftrightarrow> d \<noteq> 1 \<and> (d = 0 \<or> cached s d)" for d
    using ca3 [of d] by (simp add: s5_def s4_def cached_def)
  define s6 where "s6 = load 1 s5"
  have f5: "bitmap s5 = 0" "super s5 = 0" "f_oom s5 = f_oom s"
    using b by (simp_all add: s5_def s4_def s3_def s2_def s1_def s0_def)
  have s6: "read_block 1 s5 = Some (Inr (disk_addr 1, True), s6)"
    using read_early [of s5 1] f5 m ca5 [of 1] by (simp add: s6_def)
  have ca6: "cached s6 d \<longleftrightarrow> d = 0 \<or> d = 1 \<or> cached s d" for d using ca5 [of d] by (auto simp: s6_def)
  have d5: "disk_byte s5 d i = (if d = 1 then cache_byte s3 1 i else disk_byte s d i)" if "d \<le> 0x40000" "i < 4096" for d i
    using block_out_disk [of 1 d i s3] that by (simp add: s5_def s4_def s3_def s2_def s1_def s0_def)
  have c6: "cache_byte s6 d i = cache_byte s3 d i" if "d \<le> 0x40000" "i < 4096" for d i
    using load_cache [of 1 d i s5] that d5 [of 1 i] by (simp add: s6_def) (simp add: s5_def s4_def)
  have len: "length oops_text = 6" by (simp add: oops_text_def)
  have o: "cache_byte s6 1 i = (oops_text @ [0]) ! i" if "i \<le> 6" for i
    using c6 [of 1 i] m3(2) that by (simp add: s3_def)
  have "name_eq oops_text (disk_addr 1) s6 = Some True"
    using name_eq_block [of 1 s6 0 oops_text] ca6 [of 1] o by (simp add: len nth_append) (simp add: oops_text_def)
  moreover obtain m7 where m7: "copy_block (disk_addr 1) (disk_addr 0) s6 = Some (s6\<lparr>f_mem := m7\<rparr>)"
    "\<forall>d \<le> 0x40000. \<forall>i < 4096. cache_byte (s6\<lparr>f_mem := m7\<rparr>) d i = cache_byte s6 (if d = 1 then 0 else d) i"
    using copy_block_cached [of 1 0 s6] ca6 by auto
  define s7 where "s7 = s6\<lparr>f_mem := m7\<rparr>"
  have ca7: "cached s7 d \<longleftrightarrow> d = 0 \<or> d = 1 \<or> cached s d" for d using ca6 by (simp add: s7_def)
  have w8: "write_block 1 s7 = Some (block_out 1 s7)" using write_block_cached [of 1 s7] ca7 by simp
  have "block_is_mapped 1 s4 \<noteq> 0" "block_is_mapped 1 s5 = 0"
    using block_mapped_iff [of 1] ca5 [of 1] ca3 [of 1] c(1) by (simp_all add: s4_def cached_def block_out_def disk_write_def)
  ultimately have r: "check_write_block s = Some ((block_out 1 s7)\<lparr>super := disk_addr 1\<rparr>)"
    using s1 m2(1) m3(1) w4 u5 s6 m7(1) w8 by (simp add: check_write_block_def Let_def s0_def s2_def s3_def s7_def)
  have c3: "cache_byte s3 d i = cache_byte s (if d = 0 then 1 else d) i" if "d \<le> 0x40000" "i < 4096" "d \<noteq> 1" for d i
    using m3(2) m2(2) that load_cache [of 0 _ i s0] by (simp add: s2_def s1_def s3_def) (simp add: s0_def)
  have c7: "cache_byte s7 d i = cache_byte s d i" if "d \<le> 0x40000" "i < 4096" "1 \<le> d" for d i
    using m7(2) that c6 c3 by (simp add: s7_def)
  have d7: "disk_byte s7 d i = (if d = 1 then cache_byte s3 1 i else disk_byte s d i)" if "d \<le> 0x40000" "i < 4096" for d i
    using d5 [OF that] by (simp add: s7_def s6_def)
  have f7: "bitmap s7 = 0" "f_oom s7 = f_oom s" using f5 by (simp_all add: s7_def s6_def)
  have d8: "disk_byte (block_out 1 s7) d i = disk_byte s d i" if "d \<le> 0x40000" "i < 4096" for d i
    using block_out_disk [of 1 d i s7] d7 [OF that] c7 [of 1 i] eq that by auto
  show ?thesis unfolding r
    by (intro exI [of _ "(block_out 1 s7)\<lparr>super := disk_addr 1\<rparr>"]) (use f7 ca7 c7 d8 in simp)
qed

section \<open>The start of the server\<close>

text \<open>The bit of block \<open>b\<close> in the bitmap of the disk \<open>D\<close>.\<close>

definition free_on :: "(nat \<Rightarrow> bytes) \<Rightarrow> nat \<Rightarrow> bool" where
  "free_on D b \<longleftrightarrow> bit (get32 (D (2 + b div 32768)) (4 * (b mod 32768 div 32))) (b mod 32)"

lemma bm_bit_cache: "bm_bit (f_mem s) b \<longleftrightarrow> free_on (cache_byte s) b"
proof -
  have "b = 32768 * (b div 32768) + b mod 32768" by simp
  then have "b div 32 = 1024 * (b div 32768) + b mod 32768 div 32" by linarith
  then have "bm_addr (b div 32) = disk_addr 2 + 4 * of_nat (1024 * (b div 32768) + b mod 32768 div 32)"
    by (simp add: bm_addr_def)
  also have "\<dots> = disk_addr (of_nat (2 + b div 32768)) + of_nat (4 * (b mod 32768 div 32))"
    by (simp add: disk_addr_def BLOCK_SIZE_def distrib_right)
  finally show ?thesis unfolding bm_bit_def free_on_def ld32_block [symmetric] by simp
qed

text \<open>A server over the disk \<open>D\<close> with \<open>n\<close> blocks.\<close>

definition serves :: "(nat \<Rightarrow> bytes) \<Rightarrow> nat \<Rightarrow> fsrv \<Rightarrow> bool" where
  "serves D n s \<longleftrightarrow> fs_inv s \<and> nblk s = n \<and> free_blocks s = {b. b < n \<and> free_on D b} \<and> (\<forall>k. \<not> f_oom s k) \<and>
     (\<forall>b i. 1 \<le> b \<longrightarrow> b \<le> 0x40000 \<longrightarrow> i < 4096 \<longrightarrow> content s b i = D b i)"

lemma read_super_ok:
  assumes D: "\<forall>b \<le> 0x40000. \<forall>i < 4096. disk_byte s b i = D b i" and c: "\<forall>b \<le> 0x40000. \<not> cached s b"
    and z: "super s = 0" "bitmap s = 0" and m: "\<forall>k. \<not> f_oom s k"
    and S: "get32 (D 1) 0 = FS_MAGIC" "get32 (D 1) 4 = of_nat n" "n \<le> 0x40000"
  shows "read_super s = Some ((load 1 s)\<lparr>super := disk_addr 1\<rparr>)" "nblk ((load 1 s)\<lparr>super := disk_addr 1\<rparr>) = n"
proof -
  let ?t = "(load 1 s)\<lparr>super := disk_addr 1\<rparr>"
  have g: "get32 (cache_byte ?t 1) k = get32 (D 1) k" if "k + 4 \<le> 4096" for k
    by (rule get32_cong) (use that D load_cache [of 1 1 _ s] in simp)
  have nn: "unat (of_nat n :: u32) = n" by (rule disk_addr_of_nat [OF S(3)])
  then show n: "nblk ?t = n" using g [of 4] S(2) by (simp add: nblk_cache)
  have "rd32 (disk_addr 1) ?t = Some FS_MAGIC" using rd32_block [of 1 0 ?t] g [of 0] S(1) by simp
  moreover have "s_nblocks ?t = Some (of_nat n)" using nblocks_cached [of ?t] n by simp
  moreover have "\<not> DISKMAX div BLOCK_SIZE < of_nat n" using S(3) nn by (simp add: DISKMAX_def BLOCK_SIZE_def word_less_nat_alt)
  ultimately show "read_super s = Some ?t"
    using read_early [of s 1] z m c by (simp add: read_super_def Let_def)
qed

lemma read_bitmap_ok:
  assumes D: "\<forall>b \<le> 0x40000. \<forall>i < 4096. disk_byte s b i = D b i" and z: "super s = disk_addr 1" "bitmap s = 0"
    and m: "\<forall>k. \<not> f_oom s k" and c: "cached s 1" "\<forall>b. 2 \<le> b \<longrightarrow> b \<le> 0x40000 \<longrightarrow> \<not> cached s b"
    and S: "\<forall>i < 4096. cache_byte s 1 i = D 1 i" "nblk s = n" "n \<le> 0x40000" "2 + n div 32768 < n"
    and u: "\<forall>b \<le> 2 + n div 32768. \<not> free_on D b"
  shows "\<exists>s'. read_bitmap s = Some s' \<and> serves D n s' \<and> (\<forall>b \<le> 0x40000. \<forall>i < 4096. disk_byte s' b i = D b i)"
proof -
  let ?k = "n div 32768 + 1"
  have k: "?k \<le> 9" using S(3) div_le_mono [of n "0x40000" 32768] by simp
  let ?P = "\<lambda>j t. (\<forall>b \<le> 0x40000. \<forall>i < 4096. disk_byte t b i = D b i) \<and> super t = disk_addr 1 \<and> bitmap t = 0 \<and> (\<forall>k. \<not> f_oom t k) \<and>
    (\<forall>b. 1 \<le> b \<longrightarrow> b \<le> 0x40000 \<longrightarrow> cached t b = (b < 2 + j)) \<and> (\<forall>b. 1 \<le> b \<longrightarrow> b < 2 + j \<longrightarrow> (\<forall>i < 4096. cache_byte t b i = D b i))"
  have nP: "nblk t = n" if "?P j t" for j t
  proof -
    have "get32 (cache_byte t 1) 4 = get32 (cache_byte s 1) 4" by (rule get32_cong) (use that S(1) in simp)
    then show ?thesis using S(2) by (simp add: nblk_cache)
  qed
  have "\<exists>t. mfold (\<lambda>i s. map_option snd (read_block (of_nat i + 2) s)) [0..<?k] s = Some t \<and> ?P ?k t"
  proof (rule mfold_upt [where P = ?P])
    have "b = 1 \<or> 2 \<le> b" if "1 \<le> b" for b :: nat using that by linarith
    then have "cached s b = (b < 2)" if "1 \<le> b" "b \<le> 0x40000" for b using that c by fastforce
    moreover have "cache_byte s b i = D b i" if "1 \<le> b" "b < 2" "i < 4096" for b i
    proof -
      have b: "b = 1" using that by linarith
      show ?thesis unfolding b using S(1) that(3) by simp
    qed
    ultimately show "?P 0 s" using D z m by simp
    fix j t assume j: "j < ?k" and P: "?P j t"
    have b: "j + 2 < nblk t" "j + 2 < 0x40000" "\<not> cached t (j + 2)" using nP [OF P] P j k S(3,4) by simp_all
    have e: "(of_nat j + 2 :: u32) = of_nat (j + 2)" by simp
    have r: "read_block (of_nat j + 2) t = Some (Inr (disk_addr (of_nat (j + 2)), True), load (j + 2) t)"
      unfolding e using read_early [of t "j + 2"] b P nP [OF P] S(3) by simp
    have l: "cache_byte (load (j + 2) t) b i = (if b = j + 2 then D b i else cache_byte t b i)" if "b \<le> 0x40000" "i < 4096" for b i
      using load_cache [of "j + 2" b i t] b that P by simp
    have "?P (Suc j) (load (j + 2) t)" using P l j k by (auto simp: less_Suc_eq)
    then show "\<exists>t'. map_option snd (read_block (of_nat j + 2) t) = Some t' \<and> ?P (Suc j) t'" unfolding r by simp
  qed
  then obtain t where t: "mfold (\<lambda>i s. map_option snd (read_block (of_nat i + 2) s)) [0..<?k] s = Some t" and P: "?P ?k t" by blast
  let ?t = "t\<lparr>bitmap := disk_addr 2\<rparr>"
  have n: "nblk ?t = n" using nP [OF P] by (simp add: nblk_cache)
  have map: "va_is_mapped ?t (disk_addr (of_nat b))" if "1 \<le> b" "b < 2 + ?k" for b
  proof -
    have "b \<le> 0x40000" using that k by simp
    then show ?thesis using va_mapped_block [of b 0 ?t] P that by simp
  qed
  have ok: "fs_ok ?t" unfolding fs_ok_def n
    using P S(3) map [of 1] map [of "2 + _"] by (simp add: le_imp_less_Suc)
  have fb: "bm_bit (f_mem ?t) b = free_on D b" if "b < n" for b
  proof -
    have "b div 32768 \<le> n div 32768" using that by (simp add: div_le_mono)
    then have "get32 (cache_byte ?t (2 + b div 32768)) (4 * (b mod 32768 div 32)) = get32 (D (2 + b div 32768)) (4 * (b mod 32768 div 32))"
    proof (intro get32_cong)
      fix i :: nat assume "i < 4"
      have "b mod 32768 div 32 < 1024" by (simp add: less_mult_imp_div_less)
      then have "4 * (b mod 32768 div 32) + i < 4096" using \<open>i < 4\<close> by simp
      then show "cache_byte ?t (2 + b div 32768) (4 * (b mod 32768 div 32) + i) = D (2 + b div 32768) (4 * (b mod 32768 div 32) + i)"
        using P \<open>b div 32768 \<le> n div 32768\<close> by simp
    qed
    then show ?thesis by (simp only: bm_bit_cache free_on_def)
  qed
  have free: "free_blocks ?t = {b. b < n \<and> free_on D b}" using fb by (auto simp: free_blocks_def n)
  have "content ?t b i = D b i" if "1 \<le> b" "b \<le> 0x40000" "i < 4096" for b i
    using P that by (simp add: content_def)
  then have sv: "serves D n ?t" using ok n free u P S(4) by (auto simp: serves_def fs_inv_def sys_block_def)
  have nf: "block_is_free (of_nat b) ?t = Some False" if "b \<le> 2 + n div 32768" for b
  proof -
    have "b \<le> 0x40000" using that k by simp
    then show ?thesis using block_is_free_iff [OF ok, of b] free u that by simp
  qed
  have "mfold (\<lambda>i s. do { f \<leftarrow> block_is_free (of_nat i + 2) s; if f then None else Some s }) [0..<?k] ?t = Some ?t"
  proof -
    have "\<exists>t'. mfold (\<lambda>i s. do { f \<leftarrow> block_is_free (of_nat i + 2) s; if f then None else Some s }) [0..<?k] ?t = Some t' \<and> t' = ?t"
    proof (rule mfold_invariant [where P = "\<lambda>t'. t' = ?t"])
      fix i s assume i: "i \<in> set [0..<?k]" and "s = ?t"
      then show "\<exists>t'. (do { f \<leftarrow> block_is_free (of_nat i + 2) s; if f then None else Some s }) = Some t' \<and> t' = ?t"
        using nf [of "i + 2"] by (auto simp: add.commute)
    qed simp
    then show ?thesis by blast
  qed
  moreover have "unat ((of_nat n :: u32) div BLOCK_SIZE_BIT + 1) = ?k"
  proof -
    have "unat ((of_nat n :: u32) div 32768) = n div 32768" using disk_addr_of_nat [OF S(3)] by (simp add: unat_div)
    then show ?thesis using k by (simp add: BLOCK_SIZE_BIT_def unat_word_ariths)
  qed
  moreover have "s_nblocks s = Some (of_nat n)" using nblocks_cached [OF z(1) c(1)] S(2) by simp
  ultimately have "read_bitmap s = Some ?t"
    using t nf [of 0] nf [of 1] by (simp add: read_bitmap_def Let_def)
  then show ?thesis using sv P by auto
qed

lemma fs_init_ok:
  assumes D: "\<forall>b \<le> 0x40000. \<forall>i < 4096. disk_byte s b i = D b i" and c: "\<forall>b \<le> 0x40000. \<not> cached s b"
    and z: "super s = 0" "bitmap s = 0" and m: "\<forall>k. \<not> f_oom s k"
    and S: "get32 (D 1) 0 = FS_MAGIC" "get32 (D 1) 4 = of_nat n" "n \<le> 0x40000" "2 + n div 32768 < n"
    and u: "\<forall>b \<le> 2 + n div 32768. \<not> free_on D b"
  shows "\<exists>s'. fs_init s = Some s' \<and> serves D n s' \<and> (\<forall>b \<le> 0x40000. \<forall>i < 4096. disk_byte s' b i = D b i)"
proof -
  let ?t = "(load 1 s)\<lparr>super := disk_addr 1\<rparr>"
  note rs = read_super_ok [OF D c z m S(1-3)]
  have c1: "cache_byte ?t 1 i = D 1 i" if "i < 4096" for i using load_cache [of 1 1 i s] D that by simp
  have "\<exists>t'. check_write_block ?t = Some t' \<and> super t' = disk_addr 1 \<and> bitmap t' = 0 \<and> f_oom t' = f_oom ?t \<and>
    cached t' 1 \<and> (\<forall>d. 2 \<le> d \<longrightarrow> cached t' d = cached ?t d) \<and>
    (\<forall>d \<le> 0x40000. \<forall>i < 4096. disk_byte t' d i = disk_byte ?t d i \<and> (1 \<le> d \<longrightarrow> cache_byte t' d i = cache_byte ?t d i))"
    by (rule check_write_ok) (use c z m c1 D in simp_all)
  then obtain t' where t': "check_write_block ?t = Some t'" "super t' = disk_addr 1" "bitmap t' = 0" "f_oom t' = f_oom ?t" "cached t' 1"
    "\<forall>d. 2 \<le> d \<longrightarrow> cached t' d = cached ?t d"
    "\<forall>d \<le> 0x40000. \<forall>i < 4096. disk_byte t' d i = disk_byte ?t d i \<and> (1 \<le> d \<longrightarrow> cache_byte t' d i = cache_byte ?t d i)" by blast
  have e1: "get32 (cache_byte t' 1) 4 = get32 (cache_byte ?t 1) 4" by (rule get32_cong) (use t'(7) in simp)
  have n': "nblk t' = n" using rs(2) unfolding nblk_cache e1 .
  have "\<exists>s'. read_bitmap t' = Some s' \<and> serves D n s' \<and> (\<forall>b \<le> 0x40000. \<forall>i < 4096. disk_byte s' b i = D b i)"
    by (rule read_bitmap_ok) (use t' D m c c1 n' S(3,4) u in \<open>simp_all\<close>)
  then show ?thesis using rs(1) t'(1) by (simp add: fs_init_def)
qed

end
