(* ===== verification/Fsformat_Props.thy ===== *)
theory Fsformat_Props
  imports Fsformat_Inv
begin

unbundle bit_operations_syntax

text \<open>
  The image made by \<^verbatim>\<open>fsformat\<close> holds the files of the host, with a bitmap of the blocks that are left.
\<close>

section \<open>Adding files and directories\<close>

lemma put_name:
  assumes "fmt_ok im" "ptr_ok q" "fblk q < nextbno im" "length xs \<le> 256"
  shows "changes q {} im (upd_file q (\<lambda>off. put_list off xs) im)"
    "fb (vd (upd_file q (\<lambda>off. put_list off xs) im)) q k = (if k < length xs then xs ! k else fb (vd im) q k)"
proof -
  have v: "vd (upd_file q (\<lambda>off. put_list off xs) im) = (vd im)(fblk q := put_list (foff q) xs (vd im (fblk q)))"
    by (rule upd_file_vd [OF assms(2)])
  show "changes q {} im (upd_file q (\<lambda>off. put_list off xs) im)"
    using assms by (auto simp: changes_def fmt_ok_def v put_list_simps(1))
  show "fb (vd (upd_file q (\<lambda>off. put_list off xs) im)) q k = (if k < length xs then xs ! k else fb (vd im) q k)"
    by (simp add: fb_def v put_list_def)
qed

lemma linked_Nil: "linked D p [] \<longleftrightarrow> fw D p OFF_INDIRECT = 0"
  by (simp add: linked_def)

lemma own_Nil [simp]: "own D p [] = {}" "index D p [] = {}"
  by (simp_all add: own_def index_def)

lemma stored_Nil: "stored D [] []"
  by (simp add: stored_def)

lemma fw_zero: "(\<And>i. k \<le> i \<Longrightarrow> i < k + 4 \<Longrightarrow> fb D p i = 0) \<Longrightarrow> fw D p k = 0"
  unfolding fw_def by (rule get32_zero) (simp add: fb_def add.assoc)

lemma regular_stored:
  "regular D p bs links \<longleftrightarrow> fw D p OFF_SIZE = of_nat (length bs) \<and> fw D p OFF_TYPE = FTYPE_REG \<and> linked D p links \<and> stored D links bs"
  by (auto simp: regular_def stored_def)

text \<open>The name of an entry that was zero.\<close>

lemma named_put:
  assumes "name_ok name" "\<And>k. k \<le> length name \<Longrightarrow> fb D q k = (name @ [0]) ! k"
  shows "named D q name"
  using assms by (auto simp: named_def nth_append)

lemma write_file_ok:
  assumes d: "dir_at im p L B" and nm: "name_ok (last_name path)" and r: "write_file p path bs im = Some im'"
    and n: "n = Reg bs \<or> n = Special bs"
  shows "\<exists>B'. dir_at im' p (L @ [(last_name path, n)]) B' \<and> adds p B B' im im'"
proof -
  let ?n = "last_name path"
  from r obtain q im1 where c: "create_file p im = Some (q, im1)" by (auto simp: write_file_def split: bind_splits)
  from create_ok [OF d c] obtain B1 where
    B1: "dir_at im1 p L B1" "adds p B B1 im im1" "ptr_ok q" "q \<noteq> Root" "fblk q \<in> B1" "\<forall>k < 256. fb (vd im1) q k = 0"
      "\<forall>name n Bq im'. name_ok name \<longrightarrow> changes q {} im1 im' \<longrightarrow> named (vd im') q name \<longrightarrow> holds (vd im') q n Bq \<longrightarrow>
         Bq \<subseteq> {nextbno im1..<nextbno im'} \<longrightarrow> dir_at im' p (L @ [(name, n)]) (B1 \<union> Bq) \<and> adds p B1 (B1 \<union> Bq) im1 im'" by blast
  have ok1: "fmt_ok im1" "fblk q < nextbno im1" using B1(1,5) by (auto simp: dir_at_def)
  have len: "length ?n \<le> 127" using nm by (simp add: name_ok_def)
  define im2 where "im2 = upd_file q (\<lambda>off. put_list off (?n @ [0])) im1"
  define im3 where "im3 = fput q OFF_SIZE (of_nat (length bs)) im2"
  define im4 where "im4 = fput q OFF_TYPE FTYPE_REG im3"
  have w: "write_blocks q 0 bs im4 = Some im'" using r c by (simp add: write_file_def Let_def im2_def im3_def im4_def)
  note pn = put_name [OF ok1(1) B1(3) ok1(2), of "?n @ [0]", folded im2_def]
  have ch2: "changes q {} im1 im2" using pn(1) len by simp
  have nx: "nextbno im2 = nextbno im1" "nextbno im3 = nextbno im1" "nextbno im4 = nextbno im1" by (simp_all add: im2_def im3_def im4_def)
  have ch3: "changes q {} im2 im3"
    unfolding im3_def by (rule fput_changes [OF changesD(1) [OF ch2] B1(3)]) (use ok1 nx in \<open>simp_all add: OFF_SIZE_def\<close>)
  have ch4: "changes q {} im3 im4"
    unfolding im4_def by (rule fput_changes [OF changesD(1) [OF ch3] B1(3)]) (use ok1 nx in \<open>simp_all add: OFF_TYPE_def\<close>)
  have ch: "changes q {} im1 im4" using changes_trans [OF changes_trans [OF ch2 ch3] ch4] by simp
  have f4: "fb (vd im4) q k = fb (vd im2) q k" if "k < OFF_SIZE \<or> OFF_DIRECT \<le> k" for k
    using that unfolding im4_def im3_def by (subst fput_fb [OF B1(3)], simp add: OFF_SIZE_def OFF_TYPE_def OFF_DIRECT_def, auto)+
  have i4: "fw (vd im4) q OFF_INDIRECT = 0"
    by (rule fw_zero) (use f4 pn(2) len B1(6) in \<open>simp add: OFF_INDIRECT_def OFF_DIRECT_def\<close>)
  from write_blocks_ok [OF changesD(1) [OF ch] B1(3) _ _ _ _ _ stored_Nil _ w] ok1 nx i4 obtain links where
    l: "linked (vd im') q links" "changes q {} im4 im'" "own (vd im') q links \<subseteq> {nextbno im1..<nextbno im'}"
      "\<forall>k < OFF_DIRECT. fb (vd im') q k = fb (vd im4) q k" "stored (vd im') links bs" by (auto simp: linked_Nil)
  have low: "fw (vd im') q k = fw (vd im4) q k" if "k + 4 \<le> OFF_DIRECT" for k using fw_low [of "vd im'" q "vd im4" k] l(4) that by simp
  have "fw (vd im4) q OFF_SIZE = of_nat (length bs)" unfolding im4_def
    by (subst fput_fw_other [OF B1(3)]) (simp_all add: im3_def fput_fw [OF B1(3)] OFF_SIZE_def OFF_TYPE_def)
  moreover have "fw (vd im4) q OFF_TYPE = FTYPE_REG" by (simp add: im4_def fput_fw [OF B1(3)])
  ultimately have rg: "regular (vd im') q bs links"
    using l(1,5) low [of OFF_SIZE] low [of OFF_TYPE] by (simp add: regular_stored OFF_SIZE_def OFF_TYPE_def OFF_DIRECT_def)
  then have h: "holds (vd im') q n (own (vd im') q links)" using n by (auto intro: holds_reg holds_special)
  have "named (vd im') q ?n"
  proof (rule named_put [OF nm])
    fix k assume "k \<le> length ?n"
    then show "fb (vd im') q k = (?n @ [0]) ! k"
      using l(4) f4 [of k] pn(2) [of k] len by (simp add: OFF_SIZE_def OFF_DIRECT_def)
  qed
  moreover have "changes q {} im1 im'" by (rule changes_trans [OF ch l(2)]) simp
  ultimately have "dir_at im' p (L @ [(?n, n)]) (B1 \<union> own (vd im') q links) \<and> adds p B1 (B1 \<union> own (vd im') q links) im1 im'"
    using B1(7) nm h l(3) by blast
  then show ?thesis using adds_trans [OF B1(2)] by blast
qed

text \<open>Names in the host's tree that fit into an entry.\<close>

function host_ok :: "node \<Rightarrow> bool" where
  "host_ok (Dir es) \<longleftrightarrow> (\<forall>e \<in> set es. shown e \<longrightarrow> name_ok (fst e) \<and> host_ok (snd e))"
| "host_ok (Reg bs) \<longleftrightarrow> True"
| "host_ok (Special bs) \<longleftrightarrow> True"
| "host_ok Closed \<longleftrightarrow> True"
  by pat_completeness auto
termination
proof (relation "measure size")
  fix es :: "(u8 list \<times> node) list" and e assume "e \<in> set es"
  then have "size_prod (\<lambda>_. 0) size e \<le> size_list (size_prod (\<lambda>_. 0) size) es" by (rule size_list_estimation') simp
  then show "(snd e, Dir es) \<in> measure size" by (cases e) simp
qed simp

lemma last_name_slash: "0x2F \<notin> set name \<Longrightarrow> last_name (path @ 0x2F # name) = name"
  unfolding last_name_def by (simp, subst takeWhile_append2) auto

lemma basename_slash:
  assumes "name_ok name"
  shows "basename (path @ 0x2F # name) = name"
proof -
  have n: "name \<noteq> []" "0x2F \<notin> set name" using assms by (simp_all add: name_ok_def)
  then obtain x xs where x: "rev name = x # xs" "x \<noteq> 0x2F" by (cases "rev name") auto
  then have "dropWhile (\<lambda>c. c = 0x2F) (rev (path @ 0x2F # name)) = rev (path @ 0x2F # name)" by simp
  then show ?thesis using last_name_slash [OF n(2)] by (simp add: basename_def)
qed

text \<open>A new directory without entries.\<close>

lemma new_dir:
  assumes q: "fmt_ok im" "ptr_ok q" "fblk q < nextbno im" "\<forall>k < 256. fb (vd im) q k = 0" and nm: "name_ok name"
  defines "im2 \<equiv> upd_file q (\<lambda>off. put_list off (take 127 (name @ replicate 127 0))) im"
  shows "file_bytes im2 q 127 = 0" "changes q {} im (fput q OFF_TYPE FTYPE_DIR im2)" "dir_at (fput q OFF_TYPE FTYPE_DIR im2) q [] {}"
    "k \<le> length name \<Longrightarrow> fb (vd (fput q OFF_TYPE FTYPE_DIR im2)) q k = (name @ [0]) ! k"
proof -
  let ?n = "take 127 (name @ replicate 127 0)"
  have len: "length name \<le> 127" using nm by (simp add: name_ok_def)
  note pn = put_name [OF q(1-3), of ?n, folded im2_def]
  have b: "fb (vd im2) q k = (if k < length name then name ! k else 0)" if "k < 256" for k
    using pn(2) [of k] q(4) that len by (simp add: nth_append)
  show "file_bytes im2 q 127 = 0" using b [of 127] len by (simp add: file_bytes_vd [OF q(2)])
  let ?im3 = "fput q OFF_TYPE FTYPE_DIR im2"
  have ch2: "changes q {} im im2" using pn(1) by simp
  have nx: "nextbno im2 = nextbno im" by (simp add: im2_def)
  have ch3: "changes q {} im2 ?im3"
    by (rule fput_changes [OF changesD(1) [OF ch2] q(2)]) (use q nx in \<open>simp_all add: OFF_TYPE_def\<close>)
  show ch: "changes q {} im ?im3" using changes_trans [OF ch2 ch3] by simp
  have b3: "fb (vd ?im3) q k = (if k < length name then name ! k else 0)" if "k < OFF_TYPE \<or> OFF_DIRECT \<le> k" "k < 256" for k
    using b [OF that(2)] that(1) by (subst fput_fb [OF q(2)]) (auto simp: OFF_TYPE_def OFF_DIRECT_def)
  show "fb (vd ?im3) q k = (name @ [0]) ! k" if "k \<le> length name" using b3 [of k] that len by (simp add: OFF_TYPE_def nth_append)
  have "fw (vd ?im3) q OFF_SIZE = 0" "fw (vd ?im3) q OFF_INDIRECT = 0"
    by (rule fw_zero; use b3 len in \<open>simp add: OFF_SIZE_def OFF_TYPE_def OFF_DIRECT_def OFF_INDIRECT_def\<close>)+
  then have "dir_state (vd ?im3) q [] [] []"
    by (simp add: dir_state_def dir_links_def linked_Nil fput_fw [OF q(2)] disjoint_blocks_def)
  then show "dir_at ?im3 q [] {}"
    using changesD(1) [OF ch] q(2,3) nx unfolding dir_at_def by (auto intro!: exI [of _ "[]"])
qed

lemma write_tree_ok:
  "write_directory p path n im = Some im' \<Longrightarrow> dir_at im p L B \<Longrightarrow> host_ok n \<Longrightarrow> name_ok (basename path) \<Longrightarrow> n = Dir xs \<Longrightarrow>
     \<exists>B'. dir_at im' p (L @ [(basename path, n)]) B' \<and> adds p B B' im im'"
  "write_entries p path es im = Some im' \<Longrightarrow> dir_at im p L B \<Longrightarrow> host_ok (Dir es) \<Longrightarrow>
     \<exists>B'. dir_at im' p (L @ filter shown es) B' \<and> adds p B B' im im'"
proof (induction p path n im and p path es im arbitrary: im' L B xs and im' L B rule: write_directory_write_entries.induct)
  case (1 dirf path es im)
  let ?n = "basename path"
  from 1(2) obtain q im1 where c: "create_file dirf im = Some (q, im1)" by (auto split: bind_splits)
  from create_ok [OF 1(3) c] obtain B1 where
    B1: "dir_at im1 dirf L B1" "adds dirf B B1 im im1" "ptr_ok q" "fblk q \<in> B1" "\<forall>k < 256. fb (vd im1) q k = 0"
      "\<forall>name n Bq im'. name_ok name \<longrightarrow> changes q {} im1 im' \<longrightarrow> named (vd im') q name \<longrightarrow> holds (vd im') q n Bq \<longrightarrow>
         Bq \<subseteq> {nextbno im1..<nextbno im'} \<longrightarrow> dir_at im' dirf (L @ [(name, n)]) (B1 \<union> Bq) \<and> adds dirf B1 (B1 \<union> Bq) im1 im'" by blast
  have ok1: "fmt_ok im1" "fblk q < nextbno im1" using B1(1,4) by (auto simp: dir_at_def)
  let ?im2 = "upd_file q (\<lambda>off. put_list off (take 127 (?n @ replicate 127 0))) im1"
  let ?im3 = "fput q OFF_TYPE FTYPE_DIR ?im2"
  note nd = new_dir [OF ok1(1) B1(3) ok1(2) B1(5) 1(5)]
  have w: "write_entries q path es ?im3 = Some im'" using 1(2) c nd(1) by (simp add: Let_def)
  have "\<exists>B'. dir_at im' q ([] @ filter shown es) B' \<and> adds q {} B' ?im3 im'"
    by (rule 1(1) [OF c refl refl _ w nd(3) 1(4)]) (use nd(1) in simp)
  then obtain Bq where Bq: "dir_at im' q (filter shown es) Bq" "adds q {} Bq ?im3 im'" by auto
  have "named (vd im') q ?n"
    by (rule named_put [OF 1(5)]) (use Bq(2) nd(4) 1(5) in \<open>simp add: adds_def name_ok_def OFF_SIZE_def\<close>)
  moreover have "changes q {} im1 im'" using Bq(2) by (intro changes_trans [OF nd(2)]) (auto simp: adds_def)
  moreover have "holds (vd im') q (Dir es) Bq" using Bq(1) by (simp add: holds_dir_iff dir_at_def)
  moreover have "Bq \<subseteq> {nextbno im1..<nextbno im'}" using Bq(2) by (simp add: adds_def)
  ultimately have "dir_at im' dirf (L @ [(?n, Dir es)]) (B1 \<union> Bq) \<and> adds dirf B1 (B1 \<union> Bq) im1 im'"
    using B1(6) 1(5) by blast
  then show ?case using adds_trans [OF B1(2)] by blast
next
  case (3 pdir path im)
  then show ?case by (intro exI [of _ B]) (auto simp: dir_at_def adds_refl)
next
  case (4 pdir path name n es im)
  show ?case
  proof (cases "shown (name, n)")
    case False
    then have "write_entries pdir path es im = Some im'" using 4(4) by (cases n) (auto simp: shown_def split: if_splits)
    moreover have "(if name \<noteq> [0x2E] \<and> name \<noteq> [0x2E, 0x2E]
        then case n of Reg bs \<Rightarrow> write_file pdir (path @ [0x2F] @ name) bs im
          | Dir xs \<Rightarrow> write_directory pdir (path @ [0x2F] @ name) (Dir xs) im
          | Closed \<Rightarrow> write_directory pdir (path @ [0x2F] @ name) Closed im
          | Special bs \<Rightarrow> write_file pdir (path @ [0x2F] @ name) bs im
        else Some im) = Some im" using False by (auto simp: shown_def)
    ultimately show ?thesis using 4(3) [of im im' L B] 4(5,6) False by auto
  next
    case True
    then have nm: "name_ok name" "host_ok n" and dot: "name \<noteq> [0x2E]" "name \<noteq> [0x2E, 0x2E]" "n \<noteq> Closed"
      using 4(6) by (auto simp: shown_def)
    have bn: "basename (path @ 0x2F # name) = name" "last_name (path @ 0x2F # name) = name"
      using basename_slash [OF nm(1)] last_name_slash [of name] nm(1) by (simp_all add: name_ok_def)
    let ?step = "if name \<noteq> [0x2E] \<and> name \<noteq> [0x2E, 0x2E]
        then case n of Reg bs \<Rightarrow> write_file pdir (path @ [0x2F] @ name) bs im
          | Dir xs \<Rightarrow> write_directory pdir (path @ [0x2F] @ name) (Dir xs) im
          | Closed \<Rightarrow> write_directory pdir (path @ [0x2F] @ name) Closed im
          | Special bs \<Rightarrow> write_file pdir (path @ [0x2F] @ name) bs im
        else Some im"
    from 4(4) obtain im1 where st: "?step = Some im1" and w: "write_entries pdir path es im1 = Some im'"
      by (cases ?step) auto
    have "\<exists>B1. dir_at im1 pdir (L @ [(name, n)]) B1 \<and> adds pdir B B1 im im1"
    proof (cases n)
      case (Reg bs)
      then show ?thesis using write_file_ok [OF 4(5), of "path @ [0x2F] @ name" bs im1 n] st nm(1) dot by (simp add: bn)
    next
      case (Special bs)
      then show ?thesis using write_file_ok [OF 4(5), of "path @ [0x2F] @ name" bs im1 n] st nm(1) dot by (simp add: bn)
    next
      case (Dir xs)
      then show ?thesis using 4(1) [of xs im1 L B xs] 4(5) st nm dot by (simp add: bn)
    qed (use dot in simp)
    then obtain B1 where B1: "dir_at im1 pdir (L @ [(name, n)]) B1" "adds pdir B B1 im im1" by blast
    from 4(3) [OF st w B1(1)] 4(6) obtain B' where
      "dir_at im' pdir ((L @ [(name, n)]) @ filter shown es) B'" "adds pdir B1 B' im1 im'" by auto
    then show ?thesis using True adds_trans [OF B1(2)] by auto
  qed
qed (simp_all)

section \<open>The image\<close>

text \<open>The entries that the arguments of the tool put into the root.\<close>

fun top :: "(u8 list \<times> node option) list \<Rightarrow> (u8 list \<times> node) list" where
  "top [] = []"
| "top ((path, Some (Dir es)) # as) = (basename path, Dir es) # top as"
| "top ((path, Some (Reg bs)) # as) = (last_name path, Reg bs) # top as"
| "top (_ # as) = top as"

lemma format_args_ok:
  assumes "format_args args im = Some im'" "dir_at im Root L B" "host_ok (Dir (top args))" "\<forall>e \<in> set (top args). shown e"
  shows "\<exists>B'. dir_at im' Root (L @ top args) B' \<and> adds Root B B' im im'"
  using assms
proof (induction args arbitrary: im L B rule: top.induct)
  case 1
  then show ?case by (auto simp: dir_at_def intro!: adds_refl exI [of _ B])
next
  case (2 path es as)
  from 2(2) obtain im1 where st: "write_directory Root path (Dir es) im = Some im1" and w: "format_args as im1 = Some im'"
    by (cases "write_directory Root path (Dir es) im") (auto simp del: write_directory.simps)
  from write_tree_ok(1) [OF st 2(3)] 2(4,5) obtain B1 where
    B1: "dir_at im1 Root (L @ [(basename path, Dir es)]) B1" "adds Root B B1 im im1" by auto
  from 2(1) [OF w B1(1)] 2(4,5) show ?case using adds_trans [OF B1(2)] by fastforce
next
  case (3 path bs as)
  from 3(2) obtain im1 where st: "write_file Root path bs im = Some im1" and w: "format_args as im1 = Some im'"
    by (cases "write_file Root path bs im") auto
  from write_file_ok [OF 3(3) _ st, of "Reg bs"] 3(4,5) obtain B1 where
    B1: "dir_at im1 Root (L @ [(last_name path, Reg bs)]) B1" "adds Root B B1 im im1" by auto
  from 3(1) [OF w B1(1)] 3(4,5) show ?case using adds_trans [OF B1(2)] by fastforce
qed simp_all

definition disk_init :: image where "disk_init = init_disk image_zero"

definition bm_free :: "bytes \<Rightarrow> nat \<Rightarrow> bool" where
  "bm_free bm b \<longleftrightarrow> bit (get32 bm (4 * (b div 32))) (b mod 32)"

lemma init_simps:
  "nextbno disk_init = 3"
  "vd disk_init b = (if b = 1 then super_img disk_init else if b = 2 then blk_data disk_init 2 else (\<lambda>_. 0))"
  by (simp_all add: disk_init_def init_disk_def image_zero_def NBLOCK_def Let_def fput_def upd_block_def vd_def)

lemma init_bitmap: "blk_data disk_init 2 k = (if k < 128 then 0xFF else 0)"
  by (simp add: disk_init_def init_disk_def image_zero_def NBLOCK_def Let_def fput_def upd_block_def put_list_def)

lemma init_super:
  "super_img disk_init = put_list 8 [0x2F, 0] (put32 140 1 (put32 4 1024 (put32 0 FS_MAGIC (\<lambda>_. 0))))"
  by (simp add: disk_init_def init_disk_def image_zero_def NBLOCK_def Let_def fput_def upd_block_def OFF_TYPE_def FTYPE_DIR_def)

lemma init_words: "get32 (super_img disk_init) 0 = FS_MAGIC" "get32 (super_img disk_init) 4 = 1024"
  by (simp_all add: init_super get32_def put_list_def put32_def FS_MAGIC_def)

lemma init_dir: "dir_at disk_init Root [] {}"
proof -
  have "vd disk_init 1 = super_img disk_init" by (simp add: init_simps)
  then have f: "fw (vd disk_init) Root OFF_SIZE = 0" "fw (vd disk_init) Root OFF_TYPE = FTYPE_DIR" "fw (vd disk_init) Root OFF_INDIRECT = 0"
    by (simp_all add: fw_def init_super get32_def put_list_def put32_def OFF_SIZE_def OFF_TYPE_def OFF_INDIRECT_def FTYPE_DIR_def)
  have "fmt_ok disk_init" by (simp add: fmt_ok_def init_simps NBLOCK_def)
  moreover have "dir_state (vd disk_init) Root [] [] []"
    using f by (simp add: dir_state_def dir_links_def linked_Nil disjoint_blocks_def)
  ultimately show ?thesis
    unfolding dir_at_def by (auto simp: ptr_ok_def init_simps intro!: exI [of _ "[]"])
qed

lemma init_free:
  assumes "b < 32768"
  shows "bm_free (blk_data disk_init 2) b \<longleftrightarrow> b < 1024"
proof (cases "b < 1024")
  case True
  then have "b div 32 < 32" by simp
  then have "get32 (blk_data disk_init 2) (4 * (b div 32)) = 0xFFFFFFFF" by (simp add: get32_def init_bitmap)
  moreover have "(0xFFFFFFFF :: u32) = - 1" by simp
  ultimately have m: "get32 (blk_data disk_init 2) (4 * (b div 32)) = - 1" by (rule trans)
  have "bit (- 1 :: u32) (b mod 32)" by (simp add: bit_minus_1_iff)
  then show ?thesis using True unfolding bm_free_def m by blast
next
  case False
  then have "32 \<le> b div 32" by (simp add: div_le_mono [of 1024 b 32, simplified])
  then have "get32 (blk_data disk_init 2) (4 * (b div 32)) = 0" by (intro get32_zero) (simp add: init_bitmap)
  then show ?thesis using False by (simp add: bm_free_def)
qed

text \<open>The bitmap.\<close>

lemma flush_bit_vd:
  assumes "i < 32768"
  shows "vd (flush_bit i im) = (vd im)(2 := put32 (4 * (i div 32)) (get32 (vd im 2) (4 * (i div 32)) AND NOT (push_bit (i mod 32) 1)) (vd im 2))"
  using assms by (simp add: flush_bit_def upd_block_vd Let_def)

lemma flush_bit_free:
  assumes "i < 32768" "b < 32768"
  shows "bm_free (vd (flush_bit i im) 2) b \<longleftrightarrow> bm_free (vd im 2) b \<and> b \<noteq> i"
proof (cases "b div 32 = i div 32")
  case True
  then have "b mod 32 = i mod 32 \<longleftrightarrow> b = i" by (metis div_mult_mod_eq)
  then show ?thesis using True by (simp add: bm_free_def flush_bit_vd [OF assms(1)] bit_simps)
next
  case False
  then have "4 * (b div 32) + 4 \<le> 4 * (i div 32) \<or> 4 * (i div 32) + 4 \<le> 4 * (b div 32)" by auto
  then show ?thesis using False by (auto simp: bm_free_def flush_bit_vd [OF assms(1)] get32_put32_other)
qed

lemma flush_fold:
  assumes "n \<le> 32768"
  shows "(\<forall>b. b \<noteq> 2 \<longrightarrow> vd (fold flush_bit [0..<n] im) b = vd im b) \<and>
    (\<forall>b < 32768. bm_free (vd (fold flush_bit [0..<n] im) 2) b \<longleftrightarrow> bm_free (vd im 2) b \<and> n \<le> b)"
  using assms
proof (induction n)
  case (Suc n)
  then have n: "n < 32768" by simp
  show ?case using Suc flush_bit_free [OF n] flush_bit_vd [OF n] by auto
qed simp

definition image_of :: "bytes list \<Rightarrow> nat \<Rightarrow> bytes" where
  "image_of img b = (if b < length img then img ! b else (\<lambda>_. 0))"

lemma finish_vd:
  "length (finish_fs False im) = 1024"
  "b < 1024 \<Longrightarrow> b \<noteq> 1 \<Longrightarrow> image_of (finish_fs False im) b = vd im b"
  "k < 264 \<Longrightarrow> image_of (finish_fs False im) (Suc 0) k = vd im (Suc 0) k"
  by (simp_all add: finish_fs_def Let_def image_of_def vd_def upd_block_def put_list_def)

text \<open>A host with one directory and a file in it.\<close>

lemma init_zero: "3 \<le> b \<Longrightarrow> blk_data disk_init b k = 0"
  by (simp add: disk_init_def init_disk_def image_zero_def NBLOCK_def Let_def fput_def upd_block_def)

lemma init_root: "136 \<le> k \<Longrightarrow> k < 140 \<Longrightarrow> super_img disk_init k = 0"
  by (simp add: init_super put_list_def put32_def)

lemma small_host: "\<exists>img. fsformat False [([0x64], Some (Dir [([0x62], Reg [7])]))] = Some img"
  unfolding fsformat_def disk_init_def [symmetric] Let_def
  by (simp add: create_file_def make_link_block_def save_block_link_def next_block_def write_file_def init_zero init_root init_simps
      fget_def fput_def upd_block_def get32_def put32_def put_list_def OFF_SIZE_def OFF_TYPE_def OFF_DIRECT_def OFF_INDIRECT_def
      NBLOCK_def Let_def basename_def last_name_def FTYPE_DIR_def FTYPE_REG_def)

text \<open>What an image holds, for the property below and for the server that reads it.\<close>

lemma image_holds:
  assumes img: "fsformat False args = Some img" and ok: "host_ok (Dir (top args))" "\<forall>e \<in> set (top args). shown e"
  shows "length img = 1024 \<and> (\<exists>n B. 3 \<le> n \<and> n \<le> 1024 \<and> holds (image_of img) Root (Dir (top args)) B \<and> B \<subseteq> {3..<n} \<and>
    get32 (img ! 1) 0 = FS_MAGIC \<and> get32 (img ! 1) 4 = 1024 \<and>
    (\<forall>b < 32768. bm_free (img ! 2) b \<longleftrightarrow> n \<le> b \<and> b < 1024))"
proof -
  from img obtain im where im: "format_args args disk_init = Some im" and out: "img = finish_fs False (flush_bitmap im)"
    by (auto simp: fsformat_def disk_init_def Let_def split: if_splits bind_splits)
  from format_args_ok [OF im init_dir ok] obtain B where
    d: "dir_at im Root (top args) B" and a: "adds Root {} B disk_init im" by auto
  have ch: "changes Root {} disk_init im" and B: "B \<subseteq> {3..<nextbno im}" using a by (simp_all add: adds_def init_simps)
  let ?n = "nextbno im" and ?im = "flush_bitmap im"
  have n: "3 \<le> ?n" "?n \<le> 1024" using changesD(1) [OF ch] by (simp_all add: fmt_ok_def NBLOCK_def)
  have fl: "vd ?im b = vd im b" if "b \<noteq> 2" for b
    using flush_fold [of ?n im] n(2) that by (simp add: flush_bitmap_def)
  have "holds (vd im) Root (Dir (top args)) B"
    using d ok(2) by (simp add: dir_at_def holds_dir_iff filter_id_conv [THEN iffD2])
  then have h: "holds (image_of img) Root (Dir (top args)) B"
  proof (rule holds_cong)
    fix k :: nat assume "k < 256"
    then show "fb (image_of img) Root k = fb (vd im) Root k" by (simp add: fb_def out finish_vd(3) fl)
  next
    fix b assume "b \<in> B"
    then have "3 \<le> b" "b < 1024" using B n(2) by auto
    then show "image_of img b = vd im b" by (simp add: out finish_vd(2) fl)
  qed
  have i1: "img ! 1 = image_of img 1" "img ! 2 = image_of img 2" by (simp_all add: image_of_def out finish_vd(1))
  have "vd im 1 k = super_img disk_init k" if "k < 8" for k
    using changesD(4) [OF ch, of 1 k] that by (simp add: init_simps)
  then have s: "get32 (img ! 1) k = get32 (super_img disk_init) k" if "k \<le> 4" for k
    unfolding i1 using that by (intro get32_cong) (simp add: out finish_vd(3) fl)
  have "vd im 2 = blk_data disk_init 2" using changesD(3) [OF ch, of 2] by (simp add: init_simps)
  then have bm: "bm_free (img ! 2) b \<longleftrightarrow> ?n \<le> b \<and> b < 1024" if "b < 32768" for b
    unfolding i1 using flush_fold [of ?n im] n(2) init_free [OF that] that
    by (simp add: out finish_vd(2) flush_bitmap_def) auto
  show ?thesis using n h B s [of 0] s [of 4] bm init_words
    by (simp add: out finish_vd(1) del: bm_free_def) blast
qed

text \<open>
  C38. \<^verbatim>\<open>fsformat\<close> stores the files of the host. When it makes an image, and the names fit into an entry,
  then reading the image from its root gives exactly the tree of files and directories of the host,
  with all contents; no block belongs to two files. The super block has the magic number and the
  number of blocks, and the bitmap says that exactly the blocks from some \<open>n\<close> on are free, all
  blocks of files being below.
\<close>

theorem fsformat_stores_tree:
  assumes img: "fsformat False args = Some img" and ok: "host_ok (Dir (top args))" "\<forall>e \<in> set (top args). shown e"
  shows "length img = 1024 \<and> (\<exists>n B. 3 \<le> n \<and> n \<le> 1024 \<and> holds (image_of img) Root (Dir (top args)) B \<and> B \<subseteq> {3..<n} \<and>
    get32 (img ! 1) 0 = FS_MAGIC \<and> get32 (img ! 1) 4 = 1024 \<and>
    (\<forall>b < 32768. bm_free (img ! 2) b \<longleftrightarrow> n \<le> b \<and> b < 1024))"
  by (rule image_holds [OF assms])

theorem fsformat_stores_tree_witness:
  "\<exists>img n B. fsformat False [([0x64], Some (Dir [([0x62], Reg [7])]))] = Some img \<and>
     holds (image_of img) Root (Dir [([0x64], Dir [([0x62], Reg [7])])]) B \<and> B \<subseteq> {3..<n} \<and>
     (\<forall>b < 32768. bm_free (img ! 2) b \<longleftrightarrow> n \<le> b \<and> b < 1024)"
proof -
  from small_host obtain img where i: "fsformat False [([0x64], Some (Dir [([0x62], Reg [7])]))] = Some img" by blast
  have t: "top [([0x64], Some (Dir [([0x62], Reg [7])]))] = [([0x64], Dir [([0x62], Reg [7])])]" by (simp add: basename_def last_name_def)
  have "host_ok (Dir [([0x64], Dir [([0x62], Reg [7])])])" "\<forall>e \<in> set [([0x64], Dir [([0x62], Reg [7])])]. shown e"
    by (simp_all add: shown_def name_ok_def)
  from fsformat_stores_tree [OF i] this show ?thesis unfolding t using i by blast
qed

end
