(* ===== verification/Fs_Image.thy ===== *)
theory Fs_Image
  imports Fs_Start Fs_File Fsformat_Props
begin

unbundle bit_operations_syntax

text \<open>
  The file server on a disk made by \<^verbatim>\<open>fsformat\<close>: it starts, finds the files of the host under their
  paths, and reads their contents.
\<close>

section \<open>A tree on the disk of a server\<close>

text \<open>
  The tree of \<open>holds\<close>, with the blocks of directories in \<open>F\<close> and all blocks in \<open>U\<close>. The server writes
  to directories when it looks up a name: \<^verbatim>\<open>f_dir\<close> is the word at 180 of an entry.
\<close>

inductive tree_on :: "(nat \<Rightarrow> bytes) \<Rightarrow> nat set \<Rightarrow> nat set \<Rightarrow> fptr \<Rightarrow> node \<Rightarrow> bool" for D F U where
  on_file: "regular D p bs links \<Longrightarrow> own D p links \<subseteq> U \<Longrightarrow> own D p links \<inter> F = {} \<Longrightarrow> n = Reg bs \<or> n = Special bs \<Longrightarrow>
    tree_on D F U p n"
| on_dir: "dir_links D p links \<Longrightarrow> own D p links \<subseteq> U \<Longrightarrow> set links \<subseteq> F \<Longrightarrow> index D p links \<inter> F = {} \<Longrightarrow>
    L = filter shown es \<Longrightarrow> length L \<le> 16 * length links \<Longrightarrow>
    (\<forall>j < length L. named D (slot links j) (fst (L ! j)) \<and> name_ok (fst (L ! j)) \<and> tree_on D F U (slot links j) (snd (L ! j))) \<Longrightarrow>
    (\<forall>j. length L \<le> j \<longrightarrow> j < 16 * length links \<longrightarrow> (\<forall>k < 256. fb D (slot links j) k = 0)) \<Longrightarrow> tree_on D F U p (Dir es)"

inductive_cases tree_fileE: "tree_on D F U p (Reg bs)"
inductive_cases tree_dirE: "tree_on D F U p (Dir es)"

lemma tree_types:
  assumes "tree_on D F U p n"
  shows "fw D p OFF_TYPE = (case n of Dir es \<Rightarrow> FTYPE_DIR | _ \<Rightarrow> FTYPE_REG)" "n \<noteq> Closed"
  using assms by (cases, auto simp: regular_def dir_links_def)+

lemma holds_tree:
  assumes "holds D p n B" "B \<subseteq> U" "host_ok n"
  shows "\<exists>F \<subseteq> B. \<forall>F'. F' \<inter> B = F \<longrightarrow> tree_on D F' U p n"
  using assms
proof (induction rule: holds.induct)
  case (holds_reg p bs links B)
  then show ?case by (intro exI [of _ "{}"]) (auto intro!: on_file [of D p bs links])
next
  case (holds_special p bs links B)
  then show ?case by (intro exI [of _ "{}"]) (auto intro!: on_file [of D p bs links])
next
  case (holds_dir p links L es Bs B)
  note L = holds_dir.hyps(2) and len = holds_dir.hyps(3) and dj = holds_dir.hyps(6) and B = holds_dir.hyps(7)
  have "\<forall>j < length L. \<exists>Fj. Fj \<subseteq> Bs ! j \<and> (\<forall>F'. F' \<inter> Bs ! j = Fj \<longrightarrow> tree_on D F' U (slot links j) (snd (L ! j)))"
  proof (intro allI impI)
    fix j assume j: "j < length L"
    have "L ! j \<in> set (filter shown es)" using nth_mem [OF j] by (simp only: L [symmetric])
    then have "host_ok (snd (L ! j))" using holds_dir.prems(2) by simp
    moreover have "Bs ! j \<subseteq> U" using j len B holds_dir.prems(1) by (auto simp: set_conv_nth)
    ultimately show "\<exists>Fj. Fj \<subseteq> Bs ! j \<and> (\<forall>F'. F' \<inter> Bs ! j = Fj \<longrightarrow> tree_on D F' U (slot links j) (snd (L ! j)))"
      using holds_dir.IH j by blast
  qed
  then obtain G where G: "\<And>j. j < length L \<Longrightarrow> G j \<subseteq> Bs ! j"
    "\<And>j F'. j < length L \<Longrightarrow> F' \<inter> Bs ! j = G j \<Longrightarrow> tree_on D F' U (slot links j) (snd (L ! j))" by metis
  let ?F = "set links \<union> (\<Union>j < length L. G j)"
  have l: "linked D p links" using holds_dir.hyps(1) by (simp add: dir_links_def)
  have GB: "G j \<subseteq> \<Union> (set Bs)" if "j < length L" for j using G(1) [OF that] that len by (auto simp: set_conv_nth)
  have sub: "?F \<subseteq> B" using GB B by (auto simp: own_def)
  have own: "Bs ! j \<inter> own D p links = {}" if "j < length L" for j using dj that len by (simp add: disjoint_blocks_def)
  have dis: "Bs ! i \<inter> Bs ! j = {}" if "i < length L" "j < length L" "i \<noteq> j" for i j
    using dj that len unfolding disjoint_blocks_def by (metis inf_commute nat_neq_iff)
  have F: "?F \<inter> Bs ! j = G j" if j: "j < length L" for j
  proof
    show "?F \<inter> Bs ! j \<subseteq> G j"
    proof
      fix b assume "b \<in> ?F \<inter> Bs ! j"
      moreover have "b \<notin> set links" if "b \<in> Bs ! j" using own [OF j] that by (auto simp: own_def)
      ultimately obtain i where i: "i < length L" "b \<in> G i" "b \<in> Bs ! j" by auto
      then have "i = j" using dis [OF i(1) j] G(1) by blast
      then show "b \<in> G j" using i by simp
    qed
    show "G j \<subseteq> ?F \<inter> Bs ! j" using G(1) [OF j] j by auto
  qed
  have ix: "index D p links \<inter> ?F = {}"
  proof -
    have "index D p links \<inter> set links = {}" using l by (auto simp: linked_def index_def split: if_splits)
    moreover have "index D p links \<inter> G j = {}" if "j < length L" for j
      using own [OF that] G(1) [OF that] by (auto simp: own_index)
    ultimately show ?thesis by auto
  qed
  show ?case
  proof (intro exI [of _ ?F] conjI allI impI sub)
    fix F' assume F': "F' \<inter> B = ?F"
    show "tree_on D F' U p (Dir es)"
    proof (rule on_dir [where links = links and L = L])
      show "own D p links \<subseteq> U" using B holds_dir.prems(1) by auto
      show "set links \<subseteq> F'" using F' by auto
      have "index D p links \<subseteq> B" using B by (auto simp: own_index)
      then show "index D p links \<inter> F' = {}" using F' ix by blast
      show "\<forall>j < length L. named D (slot links j) (fst (L ! j)) \<and> name_ok (fst (L ! j)) \<and> tree_on D F' U (slot links j) (snd (L ! j))"
      proof (intro allI impI conjI)
        fix j assume j: "j < length L"
        show "named D (slot links j) (fst (L ! j))" using holds_dir.IH j by blast
        have "L ! j \<in> set (filter shown es)" using nth_mem [OF j] by (simp only: L [symmetric])
        then show "name_ok (fst (L ! j))" using holds_dir.prems(2) by simp
        have "Bs ! j \<subseteq> B" using j len B by (auto simp: set_conv_nth)
        then have "F' \<inter> Bs ! j = F' \<inter> B \<inter> Bs ! j" by blast
        then have "F' \<inter> Bs ! j = G j" unfolding F' F [OF j] .
        then show "tree_on D F' U (slot links j) (snd (L ! j))" by (rule G(2) [OF j])
      qed
    qed (fact holds_dir.hyps)+
  qed
qed

text \<open>The server's view of the disk \<open>D\<close>.\<close>

definition mirrors :: "(nat \<Rightarrow> bytes) \<Rightarrow> nat set \<Rightarrow> nat \<Rightarrow> fsrv \<Rightarrow> bool" where
  "mirrors D F n s \<longleftrightarrow> fs_inv s \<and> nblk s = n \<and> free_blocks s = {b. b < n \<and> free_on D b} \<and> (\<forall>k. \<not> f_oom s k) \<and>
     (\<forall>b i. 1 \<le> b \<longrightarrow> b \<le> 0x40000 \<longrightarrow> i < 4096 \<longrightarrow> \<not> (b \<in> F \<and> 180 \<le> i mod 256 \<and> i mod 256 < 184) \<longrightarrow> content s b i = D b i)"

lemma mirrorsD:
  "mirrors D F n s \<Longrightarrow> 1 \<le> b \<Longrightarrow> b \<le> 0x40000 \<Longrightarrow> i < 4096 \<Longrightarrow> b \<notin> F \<or> i mod 256 < 180 \<or> 184 \<le> i mod 256 \<Longrightarrow> content s b i = D b i"
  by (auto simp: mirrors_def)

lemma mirrors_step:
  assumes m: "mirrors D F n s" and i: "fs_inv s'" "nblk s' = nblk s" "free_blocks s' = free_blocks s" "f_oom s' = f_oom s"
    and c: "\<And>b i. 1 \<le> b \<Longrightarrow> b \<le> 0x40000 \<Longrightarrow> i < 4096 \<Longrightarrow> b \<notin> F \<or> i mod 256 < 180 \<or> 184 \<le> i mod 256 \<Longrightarrow>
      content s' b i = content s b i"
  shows "mirrors D F n s'"
  unfolding mirrors_def
proof (intro conjI allI impI)
  fix b i :: nat assume b: "1 \<le> b" "b \<le> 0x40000" "i < 4096" "\<not> (b \<in> F \<and> 180 \<le> i mod 256 \<and> i mod 256 < 184)"
  then have n: "b \<notin> F \<or> i mod 256 < 180 \<or> 184 \<le> i mod 256" by auto
  show "content s' b i = D b i" using c [OF b(1-3) n] mirrorsD [OF m b(1-3) n] by simp
qed (use m i in \<open>simp_all add: mirrors_def\<close>)

definition in_use :: "(nat \<Rightarrow> bytes) \<Rightarrow> nat \<Rightarrow> nat set" where
  "in_use D n = {b. 2 + n div 32768 < b \<and> b < n \<and> \<not> free_on D b}"

definition keeps :: "fsrv \<Rightarrow> fsrv \<Rightarrow> bool" where
  "keeps s s' \<longleftrightarrow> (\<forall>b. cached s b \<longrightarrow> cached s' b)"

lemma keeps_trans: "keeps s s1 \<Longrightarrow> keeps s1 s2 \<Longrightarrow> keeps s s2"
  by (simp add: keeps_def)

lemma mirrors_bounds: "mirrors D F n s \<Longrightarrow> n \<le> 0x40000" "mirrors D F n s \<Longrightarrow> fs_ok s"
  using nblk_bound [of s] by (auto simp: mirrors_def fs_inv_def)

lemma in_use_bounds: "mirrors D F n s \<Longrightarrow> b \<in> in_use D n \<Longrightarrow> 3 \<le> b \<and> b < n \<and> b \<le> 0x40000 \<and> \<not> sys_block s b \<and> b \<notin> free_blocks s"
  using mirrors_bounds(1) [of D F n s] by (auto simp: in_use_def mirrors_def sys_block_def)

lemma content_load: "b \<le> 0x40000 \<Longrightarrow> \<not> cached s b \<Longrightarrow> c \<le> 0x40000 \<Longrightarrow> i < 4096 \<Longrightarrow> content (load b s) c i = content s c i"
  using load_cache [of b c i s] by (auto simp: content_def)

lemma read_mirror:
  assumes m: "mirrors D F n s" and b: "b \<in> in_use D n"
  shows "\<exists>fl s'. read_block (of_nat b) s = Some (Inr (disk_addr (of_nat b), fl), s') \<and> mirrors D F n s' \<and> cached s' b \<and> keeps s s'"
proof (cases "cached s b")
  case True
  then show ?thesis
    using read_block_used [of s b] in_use_bounds [OF m b] m mirrors_bounds [OF m] by (auto simp: mirrors_def keeps_def)
next
  case False
  have B: "b < nblk s" "b \<le> 0x40000" "\<not> sys_block s b" "b \<notin> free_blocks s" using in_use_bounds [OF m b] m by (auto simp: mirrors_def)
  have r: "read_block (of_nat b) s = Some (Inr (disk_addr (of_nat b), True), load b s)"
    using read_block_used [OF mirrors_bounds(2) [OF m] B(1,4)] m False by (simp add: mirrors_def load_def)
  note p = block_page_ok [OF mirrors_bounds(2) [OF m] B(2,3)]
  have ns: "\<not> sys_block (block_page b s) b" using B(3) p(3) by (simp add: sys_block_def)
  note i = block_in_ok [OF p(1) B(2) ns, folded load_def]
  have "fs_inv (load b s)" using m i p by (auto simp: fs_inv_def mirrors_def sys_block_def)
  then have "mirrors D F n (load b s)"
    using i p by (intro mirrors_step [OF m]) (simp_all add: content_load [OF B(2) False])
  then show ?thesis using r by (auto simp: keeps_def)
qed

section \<open>Entries in the cache\<close>

definition faddr :: "fptr \<Rightarrow> u32" where
  "faddr p = disk_addr (of_nat (fblk p)) + of_nat (foff p)"

definition entry_in :: "(nat \<Rightarrow> bytes) \<Rightarrow> nat \<Rightarrow> fptr \<Rightarrow> bool" where
  "entry_in D n p \<longleftrightarrow> p = Root \<or> (\<exists>j < 16. fblk p \<in> in_use D n \<and> foff p = 256 * j)"

lemma entry_bounds:
  assumes "mirrors D F n s" "entry_in D n p"
  shows "1 \<le> fblk p" "fblk p \<le> 0x40000" "foff p + 256 \<le> 4096" "foff p mod 4 = 0"
  using assms in_use_bounds [OF assms(1), of "fblk p"] by (auto simp: entry_in_def)

text \<open>Words of an entry before \<^verbatim>\<open>f_dir\<close>.\<close>

lemma entry_byte:
  assumes m: "mirrors D F n s" and e: "entry_in D n p" and c: "cached s (fblk p)" and f: "F \<subseteq> in_use D n" and k: "k < 180"
  shows "cache_byte s (fblk p) (foff p + k) = fb D p k"
proof -
  note b = entry_bounds [OF m e]
  have "fblk p \<notin> F \<or> (foff p + k) mod 256 < 180"
  proof (cases "p = Root")
    case True
    then show ?thesis using f in_use_bounds [OF m, of 1] by auto
  next
    case False
    then obtain j where "foff p = 256 * j" using e by (auto simp: entry_in_def)
    then show ?thesis using k by simp
  qed
  then have "content s (fblk p) (foff p + k) = D (fblk p) (foff p + k)" using b k by (intro mirrorsD [OF m]) auto
  then show ?thesis using c by (simp add: content_def fb_def)
qed

lemma rd_entry:
  assumes m: "mirrors D F n s" and e: "entry_in D n p" and c: "cached s (fblk p)" and f: "F \<subseteq> in_use D n" and k: "k + 4 \<le> 180"
  shows "rd32 (faddr p + of_nat k) s = Some (fw D p k)"
proof -
  note b = entry_bounds [OF m e]
  have "get32 (cache_byte s (fblk p)) (foff p + k) = fw D p k"
    unfolding fw_def using entry_byte [OF m e c f, of "k + _"] k by (intro get32_cong) (simp add: fb_def add.assoc)
  then show ?thesis using rd32_block [OF b(2) _ c, of "foff p + k"] b(3) k by (simp add: faddr_def add.assoc)
qed

text \<open>Finding a block of a file.\<close>

lemma linkedD:
  assumes "linked D p links" "i < length links"
  shows "i < 10 \<Longrightarrow> fw D p (OFF_DIRECT + 4 * i) = of_nat (links ! i)"
    "10 \<le> i \<Longrightarrow> get32 (D (unat (fw D p OFF_INDIRECT))) (4 * i) = of_nat (links ! i)"
    "10 \<le> i \<Longrightarrow> index D p links = {unat (fw D p OFF_INDIRECT)}" "i < 1024" "links ! i \<in> set links" "3 \<le> links ! i" "links ! i < 1024"
  using assms by (fastforce simp: linked_def index_def)+

lemma get_block_mirror:
  assumes m: "mirrors D F n s" and e: "entry_in D n p" and c: "cached s (fblk p)" and f: "F \<subseteq> in_use D n"
    and l: "linked D p links" "own D p links \<subseteq> in_use D n" "index D p links \<inter> F = {}" and i: "i < length links"
  shows "\<exists>s'. file_get_block (faddr p) (of_nat i) s = Some (Inr (disk_addr (of_nat (links ! i))), s') \<and>
    mirrors D F n s' \<and> cached s' (links ! i) \<and> keeps s s'"
proof -
  let ?b = "links ! i" and ?ind = "fw D p OFF_INDIRECT"
  note ld = linkedD [OF l(1) i]
  have bU: "?b \<in> in_use D n" using ld(5) l(2) by (auto simp: own_def)
  have nz: "(of_nat ?b :: u32) \<noteq> 0"
  proof -
    have "unat (of_nat ?b :: u32) = ?b" using ld(7) by (intro disk_addr_of_nat) simp
    then show ?thesis using ld(6) by (metis unat_0 not_numeral_le_zero)
  qed
  have ui: "unat (of_nat i :: u32) = i" using ld(4) by (intro disk_addr_of_nat) simp
  have "\<exists>s1. file_map_block (faddr p) (of_nat i) True s = Some (Inr (of_nat ?b), s1) \<and> mirrors D F n s1 \<and> keeps s s1"
  proof (cases "i < 10")
    case True
    have "f_direct (faddr p) (of_nat i) = faddr p + of_nat (OFF_DIRECT + 4 * i)" by (simp add: f_direct_def OFF_DIRECT_def add.assoc)
    then have "rd32 (f_direct (faddr p) (of_nat i)) s = Some (of_nat ?b)"
      using rd_entry [OF m e c f, of "OFF_DIRECT + 4 * i"] True ld(1) by (simp add: OFF_DIRECT_def)
    then show ?thesis
      using True ui nz m by (auto simp: file_map_block_def file_block_walk_def NDIRECT_def word_less_nat_alt keeps_def)
  next
    case False
    then have ix: "unat ?ind \<in> in_use D n" "unat ?ind \<notin> F" using ld(3) l(2,3) by (auto simp: own_index)
    note iu = in_use_bounds [OF m ix(1)]
    have r: "rd32 (f_indirect (faddr p)) s = Some ?ind" using rd_entry [OF m e c f, of OFF_INDIRECT] by (simp add: f_indirect_def OFF_INDIRECT_def)
    obtain fl s1 where s1: "read_block ?ind s = Some (Inr (disk_addr ?ind, fl), s1)" "mirrors D F n s1" "cached s1 (unat ?ind)" "keeps s s1"
      using read_mirror [OF m ix(1)] by auto
    have g: "get32 (cache_byte s1 (unat ?ind)) (4 * i) = of_nat ?b"
    proof -
      have "get32 (cache_byte s1 (unat ?ind)) (4 * i) = get32 (D (unat ?ind)) (4 * i)"
      proof (rule get32_cong)
        fix k :: nat assume "k < 4"
        then have "content s1 (unat ?ind) (4 * i + k) = D (unat ?ind) (4 * i + k)"
          using s1(2) iu ix(2) ld(4) by (simp add: mirrors_def)
        then show "cache_byte s1 (unat ?ind) (4 * i + k) = D (unat ?ind) (4 * i + k)" using s1(3) by (simp add: content_def)
      qed
      then show ?thesis using ld(2) False by simp
    qed
    have "rd32 (disk_addr ?ind + 4 * of_nat i) s1 = Some (of_nat ?b)"
      using rd32_block [of "unat ?ind" "4 * i" s1] iu ld(4) s1(3) g by simp
    moreover have "?ind \<noteq> 0" using iu by auto
    moreover have "\<not> (of_nat i :: u32) < NDIRECT" "(of_nat i :: u32) < NINDIRECT"
      using False ld(4) ui by (simp_all add: NDIRECT_def NINDIRECT_def word_less_nat_alt)
    ultimately show ?thesis using r s1 nz by (auto simp: file_map_block_def file_block_walk_def)
  qed
  then obtain s1 where s1: "file_map_block (faddr p) (of_nat i) True s = Some (Inr (of_nat ?b), s1)" "mirrors D F n s1" "keeps s s1" by blast
  from read_mirror [OF s1(2) bU] show ?thesis using s1(1,3) by (auto simp: file_get_block_def intro: keeps_trans)
qed

section \<open>Looking up names\<close>

lemma find_app: "find P (xs @ ys) = (case find P xs of None \<Rightarrow> find P ys | Some x \<Rightarrow> Some x)"
  by (induction xs) auto

lemma find_shift: "find P [a + i..<a + j] = map_option (\<lambda>k. a + k) (find (\<lambda>k. P (a + k)) [i..<j])" for a :: nat
proof (induction j)
  case (Suc j)
  then show ?case by (cases "i \<le> j") (auto simp: find_app split: option.splits)
qed simp

lemma slot_block: "k < 16 \<Longrightarrow> slot links (16 * i + k) = Slot (links ! i) (256 * k)"
  by (simp add: slot_def)

lemma find_entry_mirror:
  assumes m: "mirrors D F n s" and f: "F \<subseteq> in_use D n" and b: "b \<in> in_use D n" "cached s b"
    and nm: "length name < 128" "0 \<notin> set name"
  shows "k + m \<le> 16 \<Longrightarrow> find_entry name (faddr (Slot b (256 * k))) m s =
    Some (map_option (\<lambda>k. faddr (Slot b (256 * k))) (find (\<lambda>k. named D (Slot b (256 * k)) name) [k..<k + m]))"
proof (induction m arbitrary: k)
  case (Suc m)
  let ?p = "Slot b (256 * k)"
  have e: "entry_in D n ?p" using b(1) Suc.prems by (auto simp: entry_in_def)
  have eb: "cache_byte s b (256 * k + i) = fb D ?p i" if "i < 180" for i
    using entry_byte [OF m e _ f that] b(2) by simp
  have "b \<le> 0x40000" using in_use_bounds [OF m b(1)] by simp
  from name_eq_block [OF this b(2) _ nm(2), of "256 * k"] have
    ne: "name_eq name (f_name (faddr ?p)) s = Some (named D ?p name)"
    using Suc.prems nm(1) eb by (simp add: faddr_def f_name_def named_def)
  have nx: "faddr ?p + FILE_STRUCT_SIZE = faddr (Slot b (256 * Suc k))" by (simp add: faddr_def FILE_STRUCT_SIZE_def)
  have u: "[k..<k + Suc m] = k # [Suc k..<Suc k + m]" by (simp add: upt_rec)
  show ?case unfolding u using Suc.IH [of "Suc k"] Suc.prems by (simp add: ne nx del: upt_Suc)
qed simp

lemma put_dir_mirror:
  assumes m: "mirrors D F n s" and f: "F \<subseteq> in_use D n" and b: "b \<in> F" "cached s b" and k: "k < 16"
  shows "\<exists>s'. wr32 (f_dir (faddr (Slot b (256 * k)))) w s = Some s' \<and> mirrors D F n s' \<and> keeps s s'"
proof -
  have bU: "b \<in> in_use D n" using f b(1) by blast
  note B = in_use_bounds [OF m bU]
  let ?o = "256 * k + 180" and ?a = "f_dir (faddr (Slot b (256 * k)))"
  have a: "?a = disk_addr (of_nat b) + of_nat ?o" by (simp add: f_dir_def faddr_def add.assoc)
  have w: "word_in ?a b"
  proof -
    have "?a = disk_addr (of_nat b) + 4 * of_nat (64 * k + 45)" by (simp add: a)
    moreover have "(of_nat (64 * k + 45) :: u32) < NINDIRECT"
    proof -
      have "unat (of_nat (64 * k + 45) :: u32) = 64 * k + 45" using k by (intro disk_addr_of_nat) simp
      then show ?thesis using k by (simp add: NINDIRECT_def word_less_nat_alt)
    qed
    ultimately show ?thesis using block_word [of b "of_nat (64 * k + 45)"] B by simp
  qed
  let ?s = "put_word ?a w s"
  have inv: "fs_inv s" "fs_ok s" using m mirrors_bounds(2) [OF m] by (simp_all add: mirrors_def)
  have ns: "\<not> sys_block s b" using B by simp
  note p = put_word_ok [OF w ns inv(2)]
  have "content ?s c i = content s c i"
    if c: "1 \<le> c" "c \<le> 0x40000" "i < 4096" "c \<notin> F \<or> i mod 256 < 180 \<or> 184 \<le> i mod 256" for c i
  proof -
    have ua: "unat ?a = daddr b + ?o" unfolding a by (rule block_addr_unat) (use B k in simp_all)
    have "i < ?o \<or> ?o + 4 \<le> i" if "c = b"
    proof (rule ccontr)
      assume n: "\<not> ?thesis"
      define d where "d = i - 256 * k"
      have d: "i = 256 * k + d" "180 \<le> d" "d < 184" using n unfolding d_def by linarith+
      then have "i mod 256 = d" by simp
      then show False using c(4) b(1) d that by simp
    qed
    then have "c \<noteq> b \<or> i < ?o \<or> ?o + 4 \<le> i" by blast
    then have "daddr b + ?o + 4 \<le> daddr c + i \<or> daddr c + i < daddr b + ?o"
      using c(3) k unfolding daddr_def by (cases c b rule: linorder_cases) linarith+
    then have "4 \<le> unat (disk_addr (of_nat c) + of_nat i - ?a)"
      unfolding unat_sub_cases ua block_addr_unat [OF c(2,3)] using k B by (auto simp: daddr_def)
    then have "cache_byte ?s c i = cache_byte s c i" by (simp add: cache_byte_def put_word_other)
    then show ?thesis by (simp add: content_def disk_byte_def)
  qed
  then have "mirrors D F n ?s" by (intro mirrors_step [OF m put_word_inv [OF w ns inv(1)] p(3,2)]) simp_all
  then show ?thesis using wr32_word [OF w b(2)] by (simp add: keeps_def)
qed

lemma dir_scan_mirror:
  assumes "mirrors D F n s" and e: "entry_in D n p" and c: "cached s (fblk p)" and f: "F \<subseteq> in_use D n"
    and l: "linked D p links" "own D p links \<subseteq> in_use D n" "index D p links \<inter> F = {}" "set links \<subseteq> F"
    and nm: "length name < 128" "0 \<notin> set name" and "i + m = length links"
  shows "\<exists>s'. dir_scan (faddr p) name i m s =
     Some (case find (\<lambda>j. named D (slot links j) name) [16 * i..<16 * length links] of
             None \<Rightarrow> Inl E_NOT_FOUND | Some j \<Rightarrow> Inr (faddr (slot links j)), s') \<and>
    mirrors D F n s' \<and> keeps s s' \<and>
    (\<forall>j. find (\<lambda>j. named D (slot links j) name) [16 * i..<16 * length links] = Some j \<longrightarrow> cached s' (fblk (slot links j)))"
  using assms(1,3,11)
proof (induction m arbitrary: i s)
  case 0
  then show ?case by (auto simp: keeps_def)
next
  case (Suc m)
  have i: "i < length links" using Suc.prems(3) by simp
  from get_block_mirror [OF Suc.prems(1) e Suc.prems(2) f l(1-3) i] obtain s1 where
    s1: "file_get_block (faddr p) (of_nat i) s = Some (Inr (disk_addr (of_nat (links ! i))), s1)" "mirrors D F n s1" "cached s1 (links ! i)" "keeps s s1" by blast
  have bF: "links ! i \<in> F" using i l(4) by auto
  have bU: "links ! i \<in> in_use D n" using bF f by blast
  let ?P = "\<lambda>j. named D (slot links j) name"
  have sp: "[16 * i..<16 * length links] = [16 * i + 0..<16 * i + 16] @ [16 * Suc i..<16 * length links]"
    using i upt_add_eq_append [of "16 * i" "16 * i + 16" "16 * length links - (16 * i + 16)"] by (simp add: add.commute)
  have "find ?P [16 * i + 0..<16 * i + 16] = map_option (\<lambda>k. 16 * i + k) (find (\<lambda>k. ?P (16 * i + k)) [0..<16])" by (rule find_shift)
  also have "find (\<lambda>k. ?P (16 * i + k)) [0..<16] = find (\<lambda>k. named D (Slot (links ! i) (256 * k)) name) [0..<16]"
    by (rule find_cong) (simp_all add: slot_block)
  finally have fb: "find ?P [16 * i + 0..<16 * i + 16] =
    map_option (\<lambda>k. 16 * i + k) (find (\<lambda>k. named D (Slot (links ! i) (256 * k)) name) [0..<16])" .
  have fe: "find_entry name (disk_addr (of_nat (links ! i))) FILE2BLK s1 =
    Some (map_option (\<lambda>k. faddr (Slot (links ! i) (256 * k))) (find (\<lambda>k. named D (Slot (links ! i) (256 * k)) name) [0..<16]))"
    using find_entry_mirror [OF s1(2) f bU s1(3) nm, of 0 16] by (simp add: faddr_def FILE2BLK_def)
  show ?case
  proof (cases "find (\<lambda>k. named D (Slot (links ! i) (256 * k)) name) [0..<16]")
    case None
    have "cached s1 (fblk p)" using s1(4) Suc.prems(2) by (simp add: keeps_def)
    from Suc.IH [OF s1(2) this, of "Suc i"] Suc.prems(3) s1 fe fb None show ?thesis
      unfolding sp find_app by (auto intro: keeps_trans)
  next
    case (Some k)
    then have k: "k < 16" by (auto simp: find_Some_iff)
    from put_dir_mirror [OF s1(2) f bF s1(3) k] obtain s2 where
      s2: "wr32 (f_dir (faddr (Slot (links ! i) (256 * k)))) (faddr p) s1 = Some s2" "mirrors D F n s2" "keeps s1 s2" by blast
    then have "cached s2 (links ! i)" using s1(3) by (simp add: keeps_def)
    then show ?thesis unfolding sp find_app
      using s1 s2 fe fb Some k by (auto simp: slot_block intro: keeps_trans)
  qed
qed

lemma named_unique:
  assumes "named D p xs" "0 \<notin> set xs" "0 \<notin> set ys"
  shows "named D p ys \<longleftrightarrow> ys = xs"
proof
  assume ys: "named D p ys"
  have "\<not> length ys < length xs"
  proof
    assume l: "length ys < length xs"
    then have "xs ! length ys = 0" using assms(1) ys by (simp add: named_def)
    then show False using assms(2) nth_mem [OF l] by simp
  qed
  moreover have "\<not> length xs < length ys"
  proof
    assume l: "length xs < length ys"
    then have "ys ! length xs = 0" using assms(1) ys by (simp add: named_def)
    then show False using assms(3) nth_mem [OF l] by simp
  qed
  ultimately show "ys = xs" using assms(1) ys by (intro nth_equalityI) (simp_all add: named_def)
qed (use assms in simp)

lemma map_of_first:
  "j < length L \<Longrightarrow> fst (L ! j) = a \<Longrightarrow> (\<And>i. i < j \<Longrightarrow> fst (L ! i) \<noteq> a) \<Longrightarrow> map_of L a = Some (snd (L ! j))"
proof (induction L arbitrary: j)
  case (Cons e L)
  show ?case
  proof (cases j)
    case 0
    then show ?thesis using Cons.prems by (cases e) auto
  next
    case (Suc i)
    have "fst e \<noteq> a" using Cons.prems(3) [of 0] Suc by simp
    moreover have "map_of L a = Some (snd (L ! i))"
      by (rule Cons.IH) (use Cons.prems(1,2) Cons.prems(3) [of "Suc _"] Suc in auto)
    ultimately show ?thesis using Suc by (cases e) simp
  qed
qed simp

text \<open>The search through the entries of a directory is the one through the host's entries.\<close>

lemma find_named:
  assumes l: "\<forall>j < length L. named D (slot links j) (fst (L ! j)) \<and> name_ok (fst (L ! j))"
    and z: "\<forall>j. length L \<le> j \<longrightarrow> j < m \<longrightarrow> (\<forall>k < 256. fb D (slot links j) k = 0)" and m: "length L \<le> m"
    and nm: "name \<noteq> []" "0 \<notin> set name"
  shows "case map_of L name of None \<Rightarrow> find (\<lambda>j. named D (slot links j) name) [0..<m] = None
    | Some n \<Rightarrow> \<exists>j < length L. find (\<lambda>j. named D (slot links j) name) [0..<m] = Some j \<and> L ! j = (name, n)"
proof -
  have P: "named D (slot links j) name \<longleftrightarrow> j < length L \<and> fst (L ! j) = name" if j: "j < m" for j
  proof (cases "j < length L")
    case True
    then show ?thesis using named_unique [of D "slot links j" "fst (L ! j)" name] l nm by (auto simp: name_ok_def)
  next
    case False
    have "fb D (slot links j) 0 = 0" using z j False by simp
    then show ?thesis using nm False by (cases name) (auto simp: named_def)
  qed
  have "find (\<lambda>j. named D (slot links j) name) [0..<m] = find (\<lambda>j. j < length L \<and> fst (L ! j) = name) [0..<m]"
    by (rule find_cong) (simp_all add: P)
  moreover have "case map_of L name of None \<Rightarrow> find (\<lambda>j. j < length L \<and> fst (L ! j) = name) [0..<m] = None
    | Some n \<Rightarrow> \<exists>j < length L. find (\<lambda>j. j < length L \<and> fst (L ! j) = name) [0..<m] = Some j \<and> L ! j = (name, n)"
  proof (cases "find (\<lambda>j. j < length L \<and> fst (L ! j) = name) [0..<m]")
    case None
    then have "\<forall>j < length L. fst (L ! j) \<noteq> name" using m by (auto simp: find_None_iff)
    then have "map_of L name = None" by (auto simp: map_of_eq_None_iff set_conv_nth)
    then show ?thesis using None by simp
  next
    case (Some j)
    then have j: "j < length L" "fst (L ! j) = name" "\<And>i. i < j \<Longrightarrow> i < m \<Longrightarrow> fst (L ! i) \<noteq> name"
      by (fastforce simp: find_Some_iff)+
    have "map_of L name = Some (snd (L ! j))" by (rule map_of_first [OF j(1,2)]) (use j m in auto)
    then show ?thesis using j Some by (auto simp: prod_eq_iff)
  qed
  ultimately show ?thesis by (simp split: option.splits)
qed

text \<open>Paths in the tree of the host.\<close>

fun find_node :: "node \<Rightarrow> u8 list list \<Rightarrow> node option" where
  "find_node n [] = Some n"
| "find_node (Dir es) (w # ws) = (case map_of (filter shown es) w of None \<Rightarrow> None | Some n \<Rightarrow> find_node n ws)"
| "find_node _ (w # ws) = None"

definition name_arg :: "u8 list \<Rightarrow> bool" where
  "name_arg w \<longleftrightarrow> w \<noteq> [] \<and> length w < 128 \<and> 0 \<notin> set w"

lemma dir_lookup_mirror:
  assumes m: "mirrors D F n s" and e: "entry_in D n p" and c: "cached s (fblk p)" and f: "F \<subseteq> in_use D n"
    and t: "tree_on D F (in_use D n) p (Dir es)" and nm: "name_arg name"
  shows "\<exists>s'. mirrors D F n s' \<and> keeps s s' \<and>
    (case map_of (filter shown es) name of
       None \<Rightarrow> dir_lookup (faddr p) name s = Some (Inl E_NOT_FOUND, s')
     | Some n' \<Rightarrow> \<exists>q. dir_lookup (faddr p) name s = Some (Inr (faddr q), s') \<and> entry_in D n q \<and> cached s' (fblk q) \<and>
         tree_on D F (in_use D n) q n')"
proof -
  let ?L = "filter shown es"
  from t obtain links where d: "dir_links D p links" "own D p links \<subseteq> in_use D n" "set links \<subseteq> F" "index D p links \<inter> F = {}"
    "length ?L \<le> 16 * length links"
    "\<forall>j < length ?L. named D (slot links j) (fst (?L ! j)) \<and> name_ok (fst (?L ! j)) \<and> tree_on D F (in_use D n) (slot links j) (snd (?L ! j))"
    "\<forall>j. length ?L \<le> j \<longrightarrow> j < 16 * length links \<longrightarrow> (\<forall>k < 256. fb D (slot links j) k = 0)" by (rule tree_dirE) auto
  have l: "linked D p links" "length links \<le> 1024" using d(1) by (simp_all add: dir_links_def linked_def)
  have "rd32 (f_size (faddr p)) s = Some (of_nat (4096 * length links))"
    using rd_entry [OF m e c f, of OFF_SIZE] d(1) by (simp add: f_size_def OFF_SIZE_def dir_links_def)
  moreover have "unat ((of_nat (4096 * length links) :: u32) div BLOCK_SIZE) = length links"
  proof -
    have "unat (of_nat (4096 * length links) :: u32) = 4096 * length links" using l(2) by (intro unat_of_nat_u32) simp
    then show ?thesis by (simp add: BLOCK_SIZE_def unat_div)
  qed
  ultimately have lk: "dir_lookup (faddr p) name s = dir_scan (faddr p) name 0 (length links) s" by (simp add: dir_lookup_def)
  have nm': "length name < 128" "0 \<notin> set name" "name \<noteq> []" using nm by (simp_all add: name_arg_def)
  let ?f = "find (\<lambda>j. named D (slot links j) name) [0..<16 * length links]"
  obtain s' where s': "dir_lookup (faddr p) name s = Some (case ?f of None \<Rightarrow> Inl E_NOT_FOUND | Some j \<Rightarrow> Inr (faddr (slot links j)), s')"
    "mirrors D F n s'" "keeps s s'" "\<forall>j. ?f = Some j \<longrightarrow> cached s' (fblk (slot links j))"
    using dir_scan_mirror [OF m e c f l(1) d(2,4,3) nm'(1,2), of 0 "length links"] unfolding lk by auto
  have fn: "case map_of ?L name of None \<Rightarrow> ?f = None | Some n \<Rightarrow> \<exists>j < length ?L. ?f = Some j \<and> ?L ! j = (name, n)"
    by (rule find_named) (use d nm' in auto)
  show ?thesis
  proof (cases "map_of ?L name")
    case None
    then show ?thesis using fn s' by auto
  next
    case (Some n')
    then obtain j where j: "j < length ?L" "?f = Some j" "?L ! j = (name, n')" using fn by auto
    have j16: "j < 16 * length links" using j(1) d(5) by simp
    then have "fblk (slot links j) \<in> in_use D n" using slot_own [OF j16, of D p] d(2) by blast
    then have "entry_in D n (slot links j)" unfolding entry_in_def by (intro disjI2 exI [of _ "j mod 16"]) (simp add: slot_def)
    moreover have "tree_on D F (in_use D n) (slot links j) n'" using d(6) j by fastforce
    ultimately show ?thesis using s' j(2) Some by auto
  qed
qed

lemma resolve_mirror:
  assumes "mirrors D F n s" "entry_in D n p" "cached s (fblk p)" and f: "F \<subseteq> in_use D n"
    and "tree_on D F (in_use D n) p t" "\<forall>w \<in> set names. name_arg w"
  shows "\<exists>s'. mirrors D F n s' \<and> keeps s s' \<and>
    (case find_node t names of
       None \<Rightarrow> \<exists>d l. resolve names dir (faddr p) s = Some ((Inl E_NOT_FOUND, d, l), s')
     | Some n' \<Rightarrow> \<exists>q d. resolve names dir (faddr p) s = Some ((Inr (faddr q), d, None), s') \<and> entry_in D n q \<and>
         cached s' (fblk q) \<and> tree_on D F (in_use D n) q n')"
  using assms(1,2,3,5,6)
proof (induction names arbitrary: dir p s t)
  case Nil
  then show ?case by (auto simp: keeps_def)
next
  case (Cons w ws)
  note m = Cons.prems(1) and e = Cons.prems(2) and c = Cons.prems(3) and t = Cons.prems(4)
  have w: "name_arg w" "\<not> MAXNAMELEN \<le> length w" using Cons.prems(5) by (simp_all add: name_arg_def MAXNAMELEN_def)
  have ty: "rd32 (f_type (faddr p)) s = Some (fw D p OFF_TYPE)"
    using rd_entry [OF m e c f, of OFF_TYPE] by (simp add: f_type_def OFF_TYPE_def)
  show ?case
  proof (cases "\<exists>es. t = Dir es")
    case False
    then have "fw D p OFF_TYPE \<noteq> FTYPE_DIR" using tree_types [OF t] by (cases t) (auto simp: FTYPE_DIR_def FTYPE_REG_def)
    moreover have "find_node t (w # ws) = None" using False by (cases t) auto
    ultimately show ?thesis using ty w(2) m by (auto simp: keeps_def)
  next
    case True
    then obtain es where es: "t = Dir es" by blast
    have d: "rd32 (f_type (faddr p)) s = Some FTYPE_DIR" using ty tree_types(1) [OF t] es by simp
    from dir_lookup_mirror [OF m e c f t [unfolded es] w(1)] obtain s1 where s1: "mirrors D F n s1" "keeps s s1"
      "case map_of (filter shown es) w of None \<Rightarrow> dir_lookup (faddr p) w s = Some (Inl E_NOT_FOUND, s1)
       | Some n' \<Rightarrow> \<exists>q. dir_lookup (faddr p) w s = Some (Inr (faddr q), s1) \<and> entry_in D n q \<and> cached s1 (fblk q) \<and>
         tree_on D F (in_use D n) q n'" by blast
    show ?thesis
    proof (cases "map_of (filter shown es) w")
      case None
      then show ?thesis using s1 d w(2) es by auto
    next
      case (Some n')
      then obtain q where q: "dir_lookup (faddr p) w s = Some (Inr (faddr q), s1)" "entry_in D n q" "cached s1 (fblk q)"
        "tree_on D F (in_use D n) q n'" using s1(3) by auto
      have r: "resolve (w # ws) dir (faddr p) s = resolve ws (faddr p) (faddr q) s1" using d w(2) q(1) by simp
      have fn: "find_node t (w # ws) = find_node n' ws" using es Some by simp
      have ws: "\<forall>w \<in> set ws. name_arg w" using Cons.prems(5) by simp
      from Cons.IH [OF s1(1) q(2,3,4) ws, of "faddr p"] show ?thesis unfolding r fn using s1(2) keeps_trans by blast
    qed
  qed
qed

section \<open>Reading the blocks of a file\<close>

text \<open>The addresses that \<^verbatim>\<open>file_get_block\<close> gives for a list of block numbers.\<close>

fun get_blocks :: "u32 \<Rightarrow> nat list \<Rightarrow> fsrv \<Rightarrow> (u32 list \<times> fsrv) option" where
  "get_blocks f [] s = Some ([], s)"
| "get_blocks f (i # is) s = do {
     (r, s) \<leftarrow> file_get_block f (of_nat i) s;
     case r of
       Inl e \<Rightarrow> None
     | Inr a \<Rightarrow> do { (as, s) \<leftarrow> get_blocks f is s; Some (a # as, s) }
   }"

lemma get_blocks_mirror:
  assumes "mirrors D F n s" and e: "entry_in D n p" and "cached s (fblk p)" and f: "F \<subseteq> in_use D n"
    and l: "linked D p links" "own D p links \<subseteq> in_use D n" "index D p links \<inter> F = {}" and "set is \<subseteq> {..<length links}"
  shows "\<exists>s'. get_blocks (faddr p) is s = Some (map (\<lambda>i. disk_addr (of_nat (links ! i))) is, s') \<and> mirrors D F n s' \<and> keeps s s' \<and>
    (\<forall>i \<in> set is. cached s' (links ! i))"
  using assms(1,3,8)
proof (induction "is" arbitrary: s)
  case Nil
  then show ?case by (auto simp: keeps_def)
next
  case (Cons i "is")
  have i: "i < length links" using Cons.prems(3) by simp
  from get_block_mirror [OF Cons.prems(1) e Cons.prems(2) f l i] obtain s1 where
    s1: "file_get_block (faddr p) (of_nat i) s = Some (Inr (disk_addr (of_nat (links ! i))), s1)" "mirrors D F n s1" "cached s1 (links ! i)" "keeps s s1" by blast
  have c: "cached s1 (fblk p)" using s1(4) Cons.prems(2) by (simp add: keeps_def)
  have "set is \<subseteq> {..<length links}" using Cons.prems(3) by simp
  from Cons.IH [OF s1(2) c this] obtain s' where s': "get_blocks (faddr p) is s1 = Some (map (\<lambda>i. disk_addr (of_nat (links ! i))) is, s')"
    "mirrors D F n s'" "keeps s1 s'" "\<forall>i \<in> set is. cached s' (links ! i)" by blast
  have "cached s' (links ! i)" using s'(3) s1(3) by (simp add: keeps_def)
  then show ?case using s1 s' keeps_trans [OF s1(4) s'(3)] by simp
qed

section \<open>A server with a tree\<close>

text \<open>A running server whose disk, seen through its cache, holds the tree \<open>t\<close>.\<close>

definition serves_tree :: "node \<Rightarrow> fsrv \<Rightarrow> bool" where
  "serves_tree t s \<longleftrightarrow> (\<exists>D F n. mirrors D F n s \<and> F \<subseteq> in_use D n \<and> tree_on D F (in_use D n) Root t)"

lemma root_cached: "mirrors D F n s \<Longrightarrow> cached s 1" "mirrors D F n s \<Longrightarrow> s_root s = faddr Root"
  using va_mapped_block [of 1 0 s] by (auto simp: mirrors_def fs_inv_def fs_ok_def s_root_def faddr_def)

lemma split_slash_sub: "w \<in> set (split_slash p) \<Longrightarrow> set w \<subseteq> set p"
proof (induction p arbitrary: w)
  case (Cons c p)
  have "set x \<subseteq> set p" if "split_slash p = x # xs" for x xs by (rule Cons.IH) (simp add: that)
  moreover have "w \<in> set xs \<Longrightarrow> set w \<subseteq> set p" if "split_slash p = x # xs" for x xs by (rule Cons.IH) (simp add: that)
  moreover have "w \<in> set (split_slash p) \<Longrightarrow> set w \<subseteq> set p" by (rule Cons.IH)
  ultimately show ?case using Cons.prems by (fastforce split: if_splits list.splits)
qed simp

lemma open_resolve: "file_open path s = (case resolve (components path) 0 (s_root s) s of None \<Rightarrow> None | Some ((r, _), s) \<Rightarrow> Some (r, s))"
  using walk_loop_resolve [OF hd_skip_slash, of path 0 "s_root s" s]
  by (simp add: file_open_def walk_path_def components_slash split: option.splits prod.splits)

text \<open>
  The started server and the disk image.
\<close>

lemma image_boot:
  assumes img: "fsformat False args = Some img" and ok: "host_ok (Dir (top args))" "\<forall>e \<in> set (top args). shown e"
    and d: "\<forall>b < 1024. \<forall>i < 4096. disk_byte s b i = (img ! b) i" and c: "\<forall>b \<le> 0x40000. \<not> cached s b"
    and z: "super s = 0" "bitmap s = 0" and m: "\<forall>k. \<not> f_oom s k"
  shows "\<exists>s' n. fs_init s = Some s' \<and> fs_inv s' \<and> nblk s' = 1024 \<and> 3 \<le> n \<and> n \<le> 1024 \<and> free_blocks s' = {n..<1024} \<and>
    serves_tree (Dir (top args)) s' \<and> (\<forall>b \<le> 0x40000. \<forall>i < 4096. disk_byte s' b i = disk_byte s b i)"
proof -
  from image_holds [OF img ok] obtain n B where len: "length img = 1024" and n: "3 \<le> n" "n \<le> 1024"
    and h: "holds (image_of img) Root (Dir (top args)) B" "B \<subseteq> {3..<n}" and sp: "get32 (img ! 1) 0 = FS_MAGIC" "get32 (img ! 1) 4 = 1024"
    and bm: "\<forall>b < 32768. bm_free (img ! 2) b \<longleftrightarrow> n \<le> b \<and> b < 1024" by blast
  define D where "D b = (if b < 1024 then img ! b else disk_byte s b)" for b
  have D: "\<forall>b \<le> 0x40000. \<forall>i < 4096. disk_byte s b i = D b i" using d by (simp add: D_def)
  have fr: "free_on D b \<longleftrightarrow> n \<le> b" if "b < 1024" for b
  proof -
    have "bm_free (img ! 2) b \<longleftrightarrow> n \<le> b" using bm that by simp
    then show ?thesis using that by (simp add: free_on_def bm_free_def D_def)
  qed
  have "\<exists>s'. fs_init s = Some s' \<and> serves D 1024 s' \<and> (\<forall>b \<le> 0x40000. \<forall>i < 4096. disk_byte s' b i = D b i)"
  proof (rule fs_init_ok [OF D c z m])
    show "\<forall>b \<le> 2 + 1024 div 32768. \<not> free_on D b" using fr n by simp
  qed (use sp in \<open>simp_all add: D_def\<close>)
  then obtain s' where s': "fs_init s = Some s'" "serves D 1024 s'" "\<forall>b \<le> 0x40000. \<forall>i < 4096. disk_byte s' b i = D b i" by blast
  have hD: "holds D Root (Dir (top args)) B"
  proof (rule holds_cong [OF h(1)])
    show "fb D Root k = fb (image_of img) Root k" for k by (simp add: fb_def D_def image_of_def len)
    show "D b = image_of img b" if "b \<in> B" for b using that h(2) n by (auto simp: D_def image_of_def len)
  qed
  have BU: "B \<subseteq> in_use D 1024" using h(2) n fr by (auto simp: in_use_def)
  from holds_tree [OF hD BU ok(1)] obtain F where
    F: "F \<subseteq> B" "\<forall>F'. F' \<inter> B = F \<longrightarrow> tree_on D F' (in_use D 1024) Root (Dir (top args))" by auto
  have "F \<inter> B = F" using F(1) by blast
  with F(2) have "tree_on D F (in_use D 1024) Root (Dir (top args))" by simp
  moreover have "mirrors D F 1024 s'" using s'(2) by (auto simp: serves_def mirrors_def)
  ultimately have "serves_tree (Dir (top args)) s'" using order_trans [OF F(1) BU] unfolding serves_tree_def by blast
  moreover have "free_blocks s' = {n..<1024}" using s'(2) fr n by (auto simp: serves_def)
  ultimately show ?thesis using s' n D by (auto simp: serves_def)
qed

lemma open_tree:
  assumes t: "serves_tree t s" and p: "0 \<notin> set path" "\<forall>w \<in> set (components path). length w < 128"
  shows "\<exists>s'. serves_tree t s' \<and> (case find_node t (components path) of
      None \<Rightarrow> file_open path s = Some (Inl E_NOT_FOUND, s')
    | Some n \<Rightarrow> \<exists>f. file_open path s = Some (Inr f, s') \<and> (\<forall>bs. n = Reg bs \<longrightarrow>
        rd32 (f_size f) s' = Some (of_nat (length bs)) \<and>
        (\<forall>is. (\<forall>i \<in> set is. 4096 * i < length bs) \<longrightarrow>
          (\<exists>as s''. get_blocks f is s' = Some (as, s'') \<and> serves_tree t s'' \<and> length as = length is \<and>
            (\<forall>j < length is. \<forall>k < 4096. 4096 * is ! j + k < length bs \<longrightarrow> f_mem s'' (as ! j + of_nat k) = bs ! (4096 * is ! j + k))))))"
proof -
  from t obtain D F n where m: "mirrors D F n s" and f: "F \<subseteq> in_use D n" and tr: "tree_on D F (in_use D n) Root t"
    by (auto simp: serves_tree_def)
  have st: "serves_tree t s'" if "mirrors D F n s'" for s' using that f tr unfolding serves_tree_def by blast
  have ra: "\<forall>w \<in> set (components path). name_arg w"
    using p split_slash_sub by (fastforce simp: name_arg_def components_def)
  have root: "entry_in D n Root" "cached s (fblk Root)" using root_cached(1) [OF m] by (simp_all add: entry_in_def)
  from resolve_mirror [OF m root f tr ra, of 0] obtain s' where s': "mirrors D F n s'"
    "case find_node t (components path) of
       None \<Rightarrow> \<exists>d l. resolve (components path) 0 (faddr Root) s = Some ((Inl E_NOT_FOUND, d, l), s')
     | Some n' \<Rightarrow> \<exists>q d. resolve (components path) 0 (faddr Root) s = Some ((Inr (faddr q), d, None), s') \<and> entry_in D n q \<and>
         cached s' (fblk q) \<and> tree_on D F (in_use D n) q n'" by blast
  show ?thesis
  proof (cases "find_node t (components path)")
    case None
    then show ?thesis using s' st root_cached(2) [OF m] by (auto simp: open_resolve)
  next
    case (Some n')
    then obtain q d where q: "resolve (components path) 0 (faddr Root) s = Some ((Inr (faddr q), d, None), s')" "entry_in D n q"
      "cached s' (fblk q)" "tree_on D F (in_use D n) q n'" using s'(2) by auto
    have o: "file_open path s = Some (Inr (faddr q), s')" using q(1) root_cached(2) [OF m] by (simp add: open_resolve)
    have rd: "rd32 (f_size (faddr q)) s' = Some (of_nat (length bs)) \<and>
        (\<forall>is. (\<forall>i \<in> set is. 4096 * i < length bs) \<longrightarrow>
          (\<exists>as s''. get_blocks (faddr q) is s' = Some (as, s'') \<and> serves_tree t s'' \<and> length as = length is \<and>
            (\<forall>j < length is. \<forall>k < 4096. 4096 * is ! j + k < length bs \<longrightarrow> f_mem s'' (as ! j + of_nat k) = bs ! (4096 * is ! j + k))))"
      if bs: "n' = Reg bs" for bs
    proof (intro conjI allI impI)
      from q(4) obtain links where l: "regular D q bs links" "own D q links \<subseteq> in_use D n" "own D q links \<inter> F = {}"
        unfolding bs by (rule tree_fileE) auto
      show "rd32 (f_size (faddr q)) s' = Some (of_nat (length bs))"
        using rd_entry [OF s'(1) q(2,3) f, of OFF_SIZE] l(1) by (simp add: f_size_def OFF_SIZE_def regular_def)
      fix "is" :: "nat list" assume "is": "\<forall>i \<in> set is. 4096 * i < length bs"
      have ln: "linked D q links" "length links = (length bs + 4095) div 4096" using l(1) by (simp_all add: regular_def)
      have i: "i < length links" if "i \<in> set is" for i using "is" that ln(2) by fastforce
      have ix: "index D q links \<inter> F = {}" using l(3) by (auto simp: own_index)
      have "set is \<subseteq> {..<length links}" using i by auto
      from get_blocks_mirror [OF s'(1) q(2,3) f ln(1) l(2) ix this] obtain s'' where
        s'': "get_blocks (faddr q) is s' = Some (map (\<lambda>i. disk_addr (of_nat (links ! i))) is, s'')" "mirrors D F n s''"
          "\<forall>i \<in> set is. cached s'' (links ! i)" by blast
      have "f_mem s'' (disk_addr (of_nat (links ! i)) + of_nat k) = bs ! (4096 * i + k)"
        if k: "i \<in> set is" "k < 4096" "4096 * i + k < length bs" for i k
      proof -
        have b: "links ! i \<in> own D q links" using i [OF k(1)] by (simp add: own_def)
        then have b': "links ! i \<in> in_use D n" "links ! i \<notin> F" using l(2,3) by auto
        have "content s'' (links ! i) k = D (links ! i) k"
          using in_use_bounds [OF s''(2) b'(1)] b'(2) k(2) by (intro mirrorsD [OF s''(2)]) auto
        moreover have "D (links ! i) k = bs ! (4096 * i + k)"
        proof -
          have "(4096 * i + k) div 4096 = i" "(4096 * i + k) mod 4096 = k" using k(2) by simp_all
          then show ?thesis using l(1) k(3) unfolding regular_def by metis
        qed
        ultimately show ?thesis using s''(3) k(1) by (simp add: content_def cache_byte_def)
      qed
      then show "\<exists>as s''. get_blocks (faddr q) is s' = Some (as, s'') \<and> serves_tree t s'' \<and> length as = length is \<and>
            (\<forall>j < length is. \<forall>k < 4096. 4096 * is ! j + k < length bs \<longrightarrow> f_mem s'' (as ! j + of_nat k) = bs ! (4096 * is ! j + k))"
        using s''(1) st [OF s''(2)] by (intro exI conjI) auto
    qed
    then show ?thesis using Some o st [OF s'(1)] by auto
  qed
qed

section \<open>Properties\<close>

text \<open>A server that has just been started, on a disk with the given blocks.\<close>

definition fresh_server :: "bytes list \<Rightarrow> fsrv" where
  "fresh_server img = \<lparr>f_mem = (\<lambda>_. 0), f_pte = (\<lambda>_. 0),
     f_disk = (\<lambda>sec off. (img ! (unat sec div 8)) (unat sec mod 8 * 512 + off)),
     f_oom = (\<lambda>_. False), f_calls = 0, super = 0, bitmap = 0\<rparr>"

lemma fresh_server:
  "b < 1024 \<Longrightarrow> i < 4096 \<Longrightarrow> disk_byte (fresh_server img) b i = (img ! b) i" "\<not> cached (fresh_server img) b"
  "super (fresh_server img) = 0" "bitmap (fresh_server img) = 0" "\<not> f_oom (fresh_server img) k"
proof -
  show "disk_byte (fresh_server img) b i = (img ! b) i" if "b < 1024" "i < 4096"
  proof -
    have i: "i div 512 < 8" using that(2) by (simp add: less_mult_imp_div_less)
    have u: "unat (of_nat (b * 8 + i div 512) :: u32) = b * 8 + i div 512" by (rule unat_of_nat_u32) (use that i in simp)
    have "(b * 8 + i div 512) div 8 = b" "(b * 8 + i div 512) mod 8 = i div 512" using i by simp_all
    then show ?thesis unfolding disk_byte_def fresh_server_def by (simp add: u del: of_nat_add of_nat_mult)
  qed
qed (simp_all add: fresh_server_def cached_def)

definition small_args :: "(u8 list \<times> node option) list" where
  "small_args = [([0x64], Some (Dir [([0x62], Reg [7])]))]"

lemma small_ok:
  "\<exists>img. fsformat False small_args = Some img" "top small_args = [([0x64], Dir [([0x62], Reg [7])])]"
  "host_ok (Dir (top small_args))" "\<forall>e \<in> set (top small_args). shown e"
  using small_host by (simp_all add: small_args_def basename_def last_name_def shown_def name_ok_def)

text \<open>
  C39. The file server accepts the images of \<^verbatim>\<open>fsformat\<close>. On a disk with such an image, with nothing in
  its cache and enough memory, \<^verbatim>\<open>fs_init\<close> returns; the server satisfies its invariant, knows 1024 blocks,
  takes for free exactly the blocks from some \<open>n\<close> on, and serves the host's tree. The check of
  \<^verbatim>\<open>write_block\<close>, which overwrites the super block for a moment, leaves the disk as it was.
\<close>

theorem image_boots:
  assumes "fsformat False args = Some img" "host_ok (Dir (top args))" "\<forall>e \<in> set (top args). shown e"
    and "\<forall>b < 1024. \<forall>i < 4096. disk_byte s b i = (img ! b) i" "\<forall>b \<le> 0x40000. \<not> cached s b"
    and "super s = 0" "bitmap s = 0" "\<forall>k. \<not> f_oom s k"
  shows "\<exists>s' n. fs_init s = Some s' \<and> fs_inv s' \<and> nblk s' = 1024 \<and> 3 \<le> n \<and> n \<le> 1024 \<and> free_blocks s' = {n..<1024} \<and>
    serves_tree (Dir (top args)) s' \<and> (\<forall>b \<le> 0x40000. \<forall>i < 4096. disk_byte s' b i = disk_byte s b i)"
  by (rule image_boot [OF assms])

theorem image_boots_witness:
  "\<exists>img s'. fsformat False small_args = Some img \<and> fs_init (fresh_server img) = Some s' \<and> fs_inv s' \<and>
     serves_tree (Dir [([0x64], Dir [([0x62], Reg [7])])]) s'"
proof -
  from small_ok(1) obtain img where img: "fsformat False small_args = Some img" by blast
  from image_boots [OF img small_ok(3,4), of "fresh_server img"] img show ?thesis
    by (auto simp: fresh_server small_ok(2))
qed

text \<open>
  C40. Opening and reading. On a server that serves a tree, \<^verbatim>\<open>file_open\<close> of any path with names that fit
  leads to the node of the tree, or says \<open>E_NOT_FOUND\<close> when there is none. For a regular file the size
  is that of the contents, and \<^verbatim>\<open>file_get_block\<close>, for any of its blocks in any order, gives pages
  with exactly the bytes of the contents. The server goes on to serve the tree, so that this holds for every
  sequence of such requests.
\<close>

theorem open_and_read:
  assumes "serves_tree t s" "0 \<notin> set path" "\<forall>w \<in> set (components path). length w < 128"
  shows "\<exists>s'. serves_tree t s' \<and> (case find_node t (components path) of
      None \<Rightarrow> file_open path s = Some (Inl E_NOT_FOUND, s')
    | Some n \<Rightarrow> \<exists>f. file_open path s = Some (Inr f, s') \<and> (\<forall>bs. n = Reg bs \<longrightarrow>
        rd32 (f_size f) s' = Some (of_nat (length bs)) \<and>
        (\<forall>is. (\<forall>i \<in> set is. 4096 * i < length bs) \<longrightarrow>
          (\<exists>as s''. get_blocks f is s' = Some (as, s'') \<and> serves_tree t s'' \<and> length as = length is \<and>
            (\<forall>j < length is. \<forall>k < 4096. 4096 * is ! j + k < length bs \<longrightarrow> f_mem s'' (as ! j + of_nat k) = bs ! (4096 * is ! j + k))))))"
  by (rule open_tree [OF assms])

theorem open_and_read_witness:
  "\<exists>img s f s' a s''. fsformat False small_args = Some img \<and> fs_init (fresh_server img) = Some s \<and>
     file_open [0x2F, 0x64, 0x2F, 0x62] s = Some (Inr f, s') \<and> rd32 (f_size f) s' = Some 1 \<and>
     get_blocks f [0] s' = Some ([a], s'') \<and> f_mem s'' a = 7"
proof -
  from small_ok(1) obtain img where img: "fsformat False small_args = Some img" by blast
  from image_boot [OF img small_ok(3,4), of "fresh_server img"] obtain s where
    s: "fs_init (fresh_server img) = Some s" "serves_tree (Dir [([0x64], Dir [([0x62], Reg [7])])]) s"
    by (auto simp: fresh_server small_ok(2))
  have c: "components [0x2F, 0x64, 0x2F, 0x62] = [[0x64], [0x62]]" by (simp add: components_def)
  have n: "find_node (Dir [([0x64], Dir [([0x62], Reg [7])])]) [[0x64], [0x62]] = Some (Reg [7])" by (simp add: shown_def)
  from open_and_read [OF s(2), of "[0x2F, 0x64, 0x2F, 0x62]"] obtain f s' where
    f: "file_open [0x2F, 0x64, 0x2F, 0x62] s = Some (Inr f, s')" "rd32 (f_size f) s' = Some 1"
    and g: "\<forall>is. (\<forall>i \<in> set is. i = 0) \<longrightarrow> (\<exists>as s''. get_blocks f is s' = Some (as, s'') \<and> length as = length is \<and>
      (\<forall>j < length is. \<forall>k < 4096. 4096 * is ! j + k < 1 \<longrightarrow> f_mem s'' (as ! j + of_nat k) = [7] ! (4096 * is ! j + k)))"
    unfolding c n by fastforce
  from g [rule_format, of "[0]"] obtain as s'' where "get_blocks f [0] s' = Some (as, s'')" "length as = 1" "f_mem s'' (as ! 0) = 7"
    by fastforce
  then show ?thesis using img s(1) f by (cases as) auto
qed

end
