(* ===== verification/Spec2Isabelle.thy ===== *)
theory Spec2Isabelle
  imports Sched_Props Print_Props Shell_Props Fs_Props Ide_Props Serv_Props Pipe Fork_Props Fd_File Spawn Fs_Image
begin

text \<open>
  \<^bold>\<open>Verification of the MOS operating system with its shell.\<close>

  MOS is a teaching kernel for a MIPS32 machine (QEMU Malta), written in C: memory management,
  processes with round-robin scheduling, system calls and message passing in the kernel; a file
  server, a library and a shell as user programs. This development translates the C functions
  into functions on explicit states and proves what makes each part correct.

  \<^bold>\<open>Parts and how they interact.\<close> The kernel (\<^verbatim>\<open>kern/\<close>, \<^verbatim>\<open>lib/\<close>, \<^verbatim>\<open>include/\<close>) is entered by a trap of
  the running environment: a system call, a timer interrupt or a TLB exception. System calls use
  the environments (\<^verbatim>\<open>kern/env.c\<close>), these the page tables (\<^verbatim>\<open>kern/pmap.c\<close>), and both the
  intrusive lists of \<^verbatim>\<open>include/queue.h\<close>. The file server (\<^verbatim>\<open>fs/\<close>) is an ordinary environment:
  \<^verbatim>\<open>fs/serv.c\<close> receives requests as messages with a page, \<^verbatim>\<open>fs/fs.c\<close> keeps a cache of disk blocks
  in the server's address space with the kernel's memory calls, and \<^verbatim>\<open>fs/ide.c\<close> moves the blocks
  through the device calls. The shell (\<^verbatim>\<open>user/sh.c\<close>) reads command lines and starts programs
  with the library (\<^verbatim>\<open>user/lib/\<close>); of the library the formatted output, the message calls,
  \<^verbatim>\<open>fork\<close> with its fault handler, descriptors with their devices, and pipes are part of the model.

  \<^bold>\<open>Which theory models which code.\<close>
  \<^item> \<open>Prelude\<close>: machine words, error codes (\<^verbatim>\<open>include/error.h\<close>), \<^verbatim>\<open>ROUND\<close>, and shared lemmas;
    errors are values of \<open>errno + 'a\<close>, a panic, a failed assertion and an access outside the
    modelled memory are \<open>None\<close>.
  \<^item> \<open>Queue\<close>: \<^verbatim>\<open>include/queue.h\<close> at the level of pointers; the locales \<open>intrusive_list\<close> and
    \<open>intrusive_queue\<close> state what the kernel uses of it, and are interpreted by the macros.
  \<^item> \<open>Mmu\<close>, \<open>Pmap\<close>: \<^verbatim>\<open>include/mmu.h\<close>, \<^verbatim>\<open>include/pmap.h\<close> and \<^verbatim>\<open>kern/pmap.c\<close>. The state \<open>pmap\<close> holds
    the physical memory as words, the reference counts, the free list and the TLB; page directory
    and page tables are pages of that memory. \<open>Pmap_Inv\<close>, \<open>Pmap_Ops\<close>, \<open>Pmap_Free\<close>: the invariant,
    what each operation does, and the way an address space is taken down. \<open>Address_Space\<close>: the
    locale \<open>address_space\<close>, the view of a page directory as a partial map from addresses to page
    and permission, with the model of \<^verbatim>\<open>kern/pmap.c\<close> as its interpretation.
  \<^item> \<open>Kmem\<close>: bytes of pages. \<open>Elf\<close>: \<^verbatim>\<open>lib/elfloader.c\<close> over any function that maps a page.
  \<^item> \<open>Env\<close>: \<^verbatim>\<open>kern/env.c\<close> and \<^verbatim>\<open>kern/sched.c\<close>; the state \<open>kern\<close> extends \<open>pmap\<close> by the process table,
    the scheduling queue, the ASIDs, the jobs and the console output. \<open>Env_Inv\<close>, \<open>Env_Alloc\<close>:
    the kernel invariant \<open>kinv\<close> and its preservation.
  \<^item> \<open>Tlbex\<close>, \<open>Tlbex_Inv\<close>: \<^verbatim>\<open>kern/tlbex.c\<close> and the kernel's accesses to user memory. \<open>Syscall\<close>,
    \<open>Syscall_Inv\<close>, \<open>Env_Calls\<close>: all calls of \<^verbatim>\<open>kern/syscall_all.c\<close> and the dispatcher.
  \<^item> \<open>Kernel\<close>: the traps as an inductive step relation on \<open>kern\<close>. \<open>Kernel_Props\<close>, \<open>Call_Props\<close>,
    \<open>Sched_Props\<close>: the properties of the kernel.
  \<^item> \<open>CString\<close>: \<^verbatim>\<open>lib/string.c\<close> on a byte memory with 32-bit addresses. \<open>Print\<close>, \<open>Print_Props\<close>:
    \<^verbatim>\<open>lib/print.c\<close> with the sinks of \<^verbatim>\<open>printk\<close>, \<^verbatim>\<open>debugf\<close> and \<^verbatim>\<open>fprintf\<close>; the locale \<open>stream_sink\<close> is
    what the formatter relies on.
  \<^item> \<open>Shell\<close>, \<open>Shell_Lex\<close>, \<open>Shell_Props\<close>: \<^verbatim>\<open>user/sh.c\<close>; calls into the library are events whose
    results come from a list.
  \<^item> \<open>Fs\<close>: \<^verbatim>\<open>fs/fs.c\<close>. The state \<open>fsrv\<close> is the server's memory as bytes, its page table entries,
    and the disk as sectors; structures are read and written at their offsets. \<open>Fs_Inv\<close>: the
    bitmap as a set of free blocks and the cached contents of blocks. \<open>Fs_Alloc\<close>: allocation and
    eviction. \<open>Fs_File\<close>: files in the cache, paths as lists of names. \<open>Fs_Props\<close>: properties.
  \<^item> \<open>Ide\<close>, \<open>Ide_Inv\<close>, \<open>Ide_Props\<close>: \<^verbatim>\<open>fs/ide.c\<close> register by register.
  \<^item> \<open>Serv\<close>, \<open>Serv_Props\<close>: \<^verbatim>\<open>fs/serv.c\<close>; the state \<open>srv\<close> adds the open file table and the replies.
  \<^item> \<open>Pipe\<close>: the ring buffer of \<^verbatim>\<open>user/lib/pipe.c\<close> under preemption.
  \<^item> \<open>Ulib\<close>: the user side of the kernel, on the state \<open>kern\<close>: system call stubs, access to program
    memory, \<^verbatim>\<open>vpd\<close> and \<^verbatim>\<open>vpt\<close>, \<^verbatim>\<open>user/lib/ipc.c\<close>, \<^verbatim>\<open>pageref.c\<close>, \<^verbatim>\<open>wait.c\<close>. \<open>Fork\<close>: \<^verbatim>\<open>user/lib/fork.c\<close>.
    \<open>Fork_Inv\<close>, \<open>Cow_Inv\<close>: its loops and the memory of the running program; \<open>Fork_Example\<close>: a
    concrete kernel; \<open>Fork_Props\<close>: the properties.
  \<^item> \<open>Fd\<close>: descriptors, \<^verbatim>\<open>user/lib/fd.c\<close>, with the devices of \<^verbatim>\<open>console.c\<close>, \<^verbatim>\<open>pipe.c\<close> and \<^verbatim>\<open>file.c\<close>,
    the requests of \<^verbatim>\<open>fsipc.c\<close> and \<^verbatim>\<open>libos.c\<close>, on the memory of the running program. \<open>Fd_Inv\<close>: the
    relation \<open>moves\<close>, what a program's calls do to its map and to all others; \<open>Fd_Pipe\<close>: the calls
    of \<^verbatim>\<open>pipe\<close> one by one; \<open>Fd_Props\<close>: the properties; \<open>Fd_File\<close>: copying between regions of
    program memory, and reading and writing of open files.
  \<^item> \<open>Spawn\<close>: \<^verbatim>\<open>user/lib/spawn.c\<close>, on the model of the program's memory, with the loader of \<open>Elf\<close>.
  \<^item> \<open>Fsformat\<close>: \<^verbatim>\<open>tools/fsformat.c\<close>, which makes the disk image out of files of the host.
    \<open>Fsformat_Inv\<close>: what a block pointer of an entry refers to, and what an operation may change;
    \<open>Fsformat_Props\<close>: the image holds the tree of the host. \<open>Fs_Start\<close>: \<^verbatim>\<open>fs_init\<close>. \<open>Fs_Image\<close>: the file server
    on a disk with such an image: \<open>serves_tree\<close> says that the tree is found through the cache.

  \<^bold>\<open>What is shown.\<close> Kernel: an invariant of all reachable states, which ties process table,
  scheduling queue, page tables, reference counts, free lists and ASIDs together; isolation: no
  user mapping ever refers to a page table, a page directory or a free page, and an environment
  cannot act on strangers; the exact effect of the memory, message and process calls on abstract
  address spaces, errors included; fairness of the scheduler; termination of the TLB refill. ELF
  loader: every page is mapped once with the bytes of the file. Library: equivalence of the
  word-wise copies with byte-wise ones, of the formatter with a reference formatter, digits that
  read back. Shell: equivalence of the tokenizer with a lexer on lists, and what a plain command
  starts. File server: allocation refines the removal of the least element of a set, with the
  bitmap on disk; a dirty block survives eviction; holes of files are filled with fresh blocks;
  paths are lists of names; every request is answered once; files that are not open are refused.
  IDE driver: with a disk that follows the documented protocol the driver refines the sector
  transfers the cache relies on. Fork: on the kernel model, \<^verbatim>\<open>fork\<close> gives the child exactly the user
  pages of the parent and makes the writable ones copy-on-write in both, and the fault handler
  replaces such a page by a private copy with the same bytes. Descriptors: the least free one is
  allocated; \<^verbatim>\<open>pipe\<close> is all or nothing; reference counts tell when the other end of a pipe is
  closed; closing both ends restores the address space; bytes written to a file are read back. Pipe: in every interleaving the bytes arrive in order.
  Disk images: they hold exactly the files they are made from, in blocks of their own; the file
  server starts on them, finds each file under its path and reads its contents. Some
  theorems show behaviour the code does not intend: they are about inputs it does not foresee.

  \<^bold>\<open>Bounds and loops.\<close> Integers keep their widths (\<open>u8\<close>, \<open>u16\<close>, \<open>u32\<close>). Loops that run to a counter are
  structural recursions; loops whose end depends on the state are \<open>partial_function (option)\<close>,
  and the theorems that say they return exhibit the result (\<open>alloc_scan\<close>, the refill loop, the
  wait for the disk). No fuel is used. The reference counts are 16 bits wide; theorems about
  mappings bound the number of mappings of a page where the count could wrap around. Pipes are
  correct for fewer than \<open>2 ^ 32\<close> bytes, the IDE driver for sector numbers of 28 bits.

  \<^bold>\<open>Parameters.\<close> Hardware is no code of the repository: what a device register returns (\<open>hw\<close>), the
  disk controller (\<open>port\<close>, with the documented protocol \<open>ata_device\<close> as hypothesis of its theorem and
  a concrete disk in the witness), the images of programs, the results of library calls in the
  shell, and the answers of the page allocator (\<open>f_oom\<close>) and reference counts (\<open>refs\<close>) that the file
  server sees, which depend on all other environments. For programs on the kernel model: the address of the
  fault handler (\<open>cow\<close>), what the others do while the program yields or waits (\<open>world\<close>), the serial
  port and the addresses the linker chooses (\<open>uenv\<close>), the function \<^verbatim>\<open>main\<close>. For disk
  images: the files of the host, as a tree (\<open>node\<close>); names that do not fit into an entry are excluded
  by hypothesis. The
  theorems about \<^verbatim>\<open>fork\<close> suppose that the directory maps itself (\<open>self_mapped\<close>), as \<^verbatim>\<open>env_setup_vm\<close>
  makes it, and that its calls follow each other without another environment in between; the
  stores of \<^verbatim>\<open>fork\<close> to its own stack are not part of the state.

  \<^bold>\<open>Not modelled.\<close> Assembly (\<^verbatim>\<open>kern/*.S\<close>, \<^verbatim>\<open>init/start.S\<close>): saving and restoring registers is taken to be
  exact. Boot glue, panic output and the self tests of \<^verbatim>\<open>kern/pmap.c\<close>, \<^verbatim>\<open>kern/env.c\<close>, \<^verbatim>\<open>fs/check.c\<close>
  and \<^verbatim>\<open>tests/\<close>. The small user programs, which only call the library. The tools
  of the build that print files (\<^verbatim>\<open>tools/bintoc.c\<close>, \<^verbatim>\<open>tools/readelf/\<close>).
\<close>

end
